(* ===== verification/Nx_Prelude.thy ===== *)
theory Nx_Prelude
  imports Complex_Main "HOL-Library.AList" "HOL-Library.Word"
    "HOL-Library.List_Lexorder" "HOL-Library.Char_ord"
begin

text \<open>
  Shared material of the development: the result type of fallible Go calls, Go's
  wrap-around \<open>int64\<close> arithmetic, and generic lemmas about lists used as database tables
  and about association lists used as key-value stores.
\<close>

named_theorems table_simps \<open>rewriting of table operations (selection, update, deletion)\<close>
named_theorems i64_simps \<open>rewriting of int64 arithmetic inside its range\<close>

section \<open>Errors\<close>

text \<open>
  Go errors as values. A sentinel of the source (\<^verbatim>\<open>var ErrX = errors.New(...)\<close>) is a
  constructor; \<open>ErrMsg\<close> is an opaque \<^verbatim>\<open>fmt.Errorf\<close>; \<open>ErrIO\<close> is a failure reported by the
  database driver, the object store or Redis; \<open>Wrapped\<close> is \<^verbatim>\<open>fmt.Errorf("...: %w", err)\<close>.
\<close>

datatype err =
    ErrNotFound
  | ErrAlreadyExists
  | ErrQuotaExceeded
  | ErrSizeMismatch
  | ErrNoSpace
  | ErrLockHeld
  | ErrAcquireLock
  | ErrMigrationAlreadyRunning
  | ErrUploadTooLarge
  | ErrAmbiguousPromotionRule
  | ErrNotPending string
  | ErrUnique string
  | ErrInvalidInput
  | ErrBadPassword
  | ErrInvalidToken
  | ErrProvisioningRejected
  | ErrProvisioningConflict
  | ErrIO
  | ErrMsg string
  | Wrapped string err

type_synonym 'a result = "err + 'a"

text \<open>
  \<^verbatim>\<open>errors.Is\<close>: the error itself or anything it wraps; a \<^verbatim>\<open>UniqueViolationError\<close> is also an
  \<^verbatim>\<open>ErrAlreadyExists\<close>.
\<close>

fun err_is :: "err \<Rightarrow> err \<Rightarrow> bool" where
  "err_is (Wrapped m e) t \<longleftrightarrow> Wrapped m e = t \<or> err_is e t"
| "err_is (ErrUnique field) t \<longleftrightarrow> t = ErrUnique field \<or> t = ErrAlreadyExists"
| "err_is e t \<longleftrightarrow> e = t"

lemma err_is_refl [simp]: "err_is e e"
  by (cases e) simp_all

fun is_ok :: "'a result \<Rightarrow> bool" where
  "is_ok (Inr _) = True"
| "is_ok (Inl _) = False"

lemma is_ok_iff: "is_ok r \<longleftrightarrow> (\<exists>x. r = Inr x)"
  by (cases r) simp_all

section \<open>int64 arithmetic\<close>

text \<open>
  A Go \<open>int64\<close> is an \<open>int\<close> here; every addition, subtraction and multiplication whose
  overflow could matter goes through \<open>i64\<close>, which wraps modulo \<open>2 ^ 64\<close> into the signed
  range, as the hardware does.
\<close>

definition i64_min :: int where "i64_min = - (2 ^ 63)"
definition i64_max :: int where "i64_max = 2 ^ 63 - 1"

definition i64 :: "int \<Rightarrow> int" where
  "i64 x = (x + 2 ^ 63) mod 2 ^ 64 - 2 ^ 63"

abbreviation in_i64 :: "int \<Rightarrow> bool" where
  "in_i64 x \<equiv> i64_min \<le> x \<and> x \<le> i64_max"

lemma i64_id [i64_simps]: "in_i64 x \<Longrightarrow> i64 x = x"
  by (simp add: i64_def i64_min_def i64_max_def)

lemma in_i64I: "0 \<le> x \<Longrightarrow> x \<le> i64_max \<Longrightarrow> in_i64 x"
  by (simp add: i64_min_def)

lemma i64_range: "in_i64 (i64 x)"
  by (simp add: i64_def i64_min_def i64_max_def)

text \<open>\<open>i64\<close> is the signed reading of the 64-bit word: the model agrees with machine words.\<close>

lemma i64_word: "i64 x = sint (word_of_int x :: 64 word)"
proof -
  have "sint (word_of_int x :: 64 word) = signed_take_bit 63 x"
    by (simp add: sint_sbintrunc')
  also have "\<dots> = take_bit 64 (x + 2 ^ 63) - 2 ^ 63"
    by (simp add: signed_take_bit_eq_take_bit_shift)
  finally show ?thesis
    by (simp add: i64_def take_bit_eq_mod)
qed

section \<open>Lists as database tables\<close>

text \<open>
  A table is a list of rows in insertion order. \<open>upd_where p f\<close> is \<^verbatim>\<open>UPDATE ... WHERE\<close>,
  \<open>filter (\<lambda>r. \<not> p r)\<close> is \<^verbatim>\<open>DELETE ... WHERE\<close>, \<open>find p\<close> is the single-row \<^verbatim>\<open>SELECT\<close>.
\<close>

definition upd_where :: "('a \<Rightarrow> bool) \<Rightarrow> ('a \<Rightarrow> 'a) \<Rightarrow> 'a list \<Rightarrow> 'a list" where
  "upd_where p f rows = map (\<lambda>r. if p r then f r else r) rows"

lemma upd_where_Nil [simp]: "upd_where p f [] = []"
  and upd_where_Cons [simp]: "upd_where p f (r # rs) = (if p r then f r else r) # upd_where p f rs"
  and length_upd_where [simp]: "length (upd_where p f rs) = length rs"
  by (simp_all add: upd_where_def)

lemma map_upd_where [table_simps]:
  assumes "\<And>r. p r \<Longrightarrow> g (f r) = g r"
  shows "map g (upd_where p f rs) = map g rs"
  using assms by (simp add: upd_where_def)

lemma set_upd_where: "set (upd_where p f rs) = (\<lambda>r. if p r then f r else r) ` set rs"
  by (simp add: upd_where_def)

lemma image_upd_where [table_simps]:
  "(\<And>r. p r \<Longrightarrow> g (f r) = g r) \<Longrightarrow> g ` set (upd_where p f rs) = g ` set rs"
  by (metis list.set_map map_upd_where)

lemma image_upd_where_const:
  "(\<And>r. p r \<Longrightarrow> g (f r) = x) \<Longrightarrow> g ` set (upd_where p f rs) \<subseteq> insert x (g ` set rs)"
  by (auto simp: set_upd_where)

lemma upd_where_id: "(\<And>r. r \<in> set rs \<Longrightarrow> \<not> p r) \<Longrightarrow> upd_where p f rs = rs"
  by (induction rs) auto

lemma find_SomeD: "find p rs = Some r \<Longrightarrow> r \<in> set rs \<and> p r"
  by (induction rs) (auto split: if_splits)

lemma find_NoneD: "find p rs = None \<Longrightarrow> r \<in> set rs \<Longrightarrow> \<not> p r"
  by (induction rs) (auto split: if_splits)

lemma find_unique:
  assumes "r \<in> set rs" and "p r" and "\<And>s. s \<in> set rs \<Longrightarrow> p s \<Longrightarrow> s = r"
  shows "find p rs = Some r"
proof (cases "find p rs")
  case None
  with assms(1,2) show ?thesis by (auto dest: find_NoneD)
next
  case (Some s)
  then have "s = r" by (intro assms(3)) (auto dest: find_SomeD)
  with Some show ?thesis by simp
qed

lemma find_key_unique:
  assumes "distinct (map k rs)" and "r \<in> set rs"
  shows "find (\<lambda>s. k s = k r) rs = Some r"
proof (rule find_unique)
  show "r \<in> set rs" "k r = k r" using assms(2) by simp_all
  show "s = r" if "s \<in> set rs" "k s = k r" for s
    using assms that by (metis distinct_map inj_onD)
qed

lemma find_upd_where_key:
  assumes "\<And>r. k (f r) = k r"
  shows "find (\<lambda>r. k r = x) (upd_where p f rs) =
    map_option (\<lambda>r. if p r then f r else r) (find (\<lambda>r. k r = x) rs)"
  using assms by (induction rs) auto

lemma find_cong_set: "(\<And>r. r \<in> set rs \<Longrightarrow> p r = q r) \<Longrightarrow> find p rs = find q rs"
  by (induction rs) auto

lemma distinct_map_filter_key: "distinct (map k rs) \<Longrightarrow> distinct (map k (filter p rs))"
  by (induction rs) auto

lemma length_filter_pos: "0 < length (filter p rs) \<longleftrightarrow> (\<exists>r\<in>set rs. p r)"
  by (auto simp: filter_empty_conv)

lemma length_filter_zero: "length (filter p rs) = 0 \<longleftrightarrow> (\<forall>r\<in>set rs. \<not> p r)"
  by (auto simp: filter_empty_conv)

section \<open>Association lists as key-value stores\<close>

lemma map_of_AList_update: "map_of (AList.update k v m) = (map_of m)(k \<mapsto> v)"
  by (rule update_conv')

lemma map_of_AList_delete: "map_of (AList.delete k m) = (map_of m)(k := None)"
  by (rule delete_conv')

lemma in_keys_iff: "k \<in> fst ` set m \<longleftrightarrow> map_of m k \<noteq> None"
  by (induction m) auto

lemma map_of_mem: "distinct (map fst m) \<Longrightarrow> (k, v) \<in> set m \<longleftrightarrow> map_of m k = Some v"
  by (auto dest: map_of_SomeD)

lemma update_notin: "k \<notin> fst ` set m \<Longrightarrow> AList.update k v m = m @ [(k, v)]"
  by (induction m) auto

lemma delete_notin: "k \<notin> fst ` set m \<Longrightarrow> AList.delete k m = m"
  by (induction m) (auto simp: AList.delete_eq)

lemma sum_list_filter_split:
  "sum_list (map f xs) = sum_list (map f (filter p xs)) + sum_list (map f (filter (\<lambda>x. \<not> p x) xs))"
  for f :: "'a \<Rightarrow> 'b::comm_monoid_add"
  by (induction xs) (simp_all add: ac_simps)

lemma upd_whereE:
  assumes "x \<in> set (upd_where p f xs)"
  obtains y where "y \<in> set xs" "x = (if p y then f y else y)"
  using assms unfolding upd_where_def set_map by (rule imageE) blast

end
