(* ===== verification/Go_Strings.thy ===== *)
theory Go_Strings
  imports Nx_Prelude
begin

text \<open>
  The part of Go's \<^verbatim>\<open>strings\<close> and \<^verbatim>\<open>strconv\<close> packages the modelled code calls. A Go string is a
  byte string, here a \<open>string\<close> (a list of 8-bit characters); indices are byte indices, and an
  index that Go reports as \<open>-1\<close> is \<open>None\<close>. Case folding and white space are those of ASCII:
  the code applies them to user names, host names, expressions and identifiers.
\<close>

named_theorems str_simps \<open>rewriting of string operations\<close>

abbreviation (input) slash :: char where "slash \<equiv> CHR ''/''"

section \<open>Prefixes, suffixes and searching\<close>

definition has_prefix :: "string \<Rightarrow> string \<Rightarrow> bool" where
  "has_prefix s p \<longleftrightarrow> take (length p) s = p"

definition has_suffix :: "string \<Rightarrow> string \<Rightarrow> bool" where
  "has_suffix s p \<longleftrightarrow> length p \<le> length s \<and> drop (length s - length p) s = p"

definition trim_prefix :: "string \<Rightarrow> string \<Rightarrow> string" where
  "trim_prefix s p = (if has_prefix s p then drop (length p) s else s)"

definition trim_suffix :: "string \<Rightarrow> string \<Rightarrow> string" where
  "trim_suffix s p = (if has_suffix s p then take (length s - length p) s else s)"

fun index_str :: "string \<Rightarrow> string \<Rightarrow> nat option" where
  "index_str [] sub = (if sub = [] then Some 0 else None)"
| "index_str (c # cs) sub =
     (if has_prefix (c # cs) sub then Some 0 else map_option Suc (index_str cs sub))"

fun last_index_str :: "string \<Rightarrow> string \<Rightarrow> nat option" where
  "last_index_str [] sub = (if sub = [] then Some 0 else None)"
| "last_index_str (c # cs) sub =
     (case last_index_str cs sub of
        Some i \<Rightarrow> Some (Suc i)
      | None \<Rightarrow> if has_prefix (c # cs) sub then Some 0 else None)"

definition str_contains :: "string \<Rightarrow> string \<Rightarrow> bool" where
  "str_contains s sub \<longleftrightarrow> index_str s sub \<noteq> None"

lemma has_prefix_append [simp]: "has_prefix (p @ s) p"
  by (simp add: has_prefix_def)

lemma has_prefixE: "has_prefix s p \<Longrightarrow> (\<And>t. s = p @ t \<Longrightarrow> thesis) \<Longrightarrow> thesis"
  unfolding has_prefix_def by (metis append_take_drop_id)

lemma has_prefix_iff: "has_prefix s p \<longleftrightarrow> (\<exists>t. s = p @ t)"
  by (auto elim: has_prefixE)

lemma has_prefix_Nil [simp]: "has_prefix s []"
  by (simp add: has_prefix_def)

lemma has_prefix_empty [simp]: "has_prefix [] p \<longleftrightarrow> p = []"
  by (auto simp: has_prefix_def)

lemma has_prefix_Cons [simp]: "has_prefix (c # s) (d # p) \<longleftrightarrow> c = d \<and> has_prefix s p"
  by (auto simp: has_prefix_def)

lemma trim_prefix_append [simp]: "trim_prefix (p @ s) p = s"
  by (simp add: trim_prefix_def)

lemma has_prefix_trans: "has_prefix s p \<Longrightarrow> has_prefix p q \<Longrightarrow> has_prefix s q"
  by (auto simp: has_prefix_iff)

lemma has_prefix_length: "has_prefix s p \<Longrightarrow> length p \<le> length s"
  by (auto simp: has_prefix_iff)

lemma has_suffix_append [simp]: "has_suffix (s @ p) p"
  by (simp add: has_suffix_def)

lemma has_suffix_iff: "has_suffix s p \<longleftrightarrow> (\<exists>t. s = t @ p)"
  unfolding has_suffix_def by (metis append_take_drop_id diff_diff_cancel diff_le_self
      length_append le_add2 add_diff_cancel_right' append_eq_conv_conj)

lemma trim_suffix_append [simp]: "trim_suffix (s @ p) p = s"
  by (simp add: trim_suffix_def)

lemma index_str_Some:
  "index_str s sub = Some i \<Longrightarrow> i + length sub \<le> length s \<and> has_prefix (drop i s) sub"
proof (induction s arbitrary: i)
  case (Cons c s)
  show ?case
  proof (cases "has_prefix (c # s) sub")
    case True
    with Cons.prems have "i = 0" by simp
    with True show ?thesis by (auto dest: has_prefix_length)
  next
    case False
    with Cons.prems obtain j where "index_str s sub = Some j" "i = Suc j" by auto
    with Cons.IH show ?thesis by simp
  qed
qed (auto split: if_splits)

lemma index_str_first: "index_str s sub = Some i \<Longrightarrow> j < i \<Longrightarrow> \<not> has_prefix (drop j s) sub"
proof (induction s arbitrary: i j)
  case (Cons c s)
  then show ?case by (cases j) (auto split: if_splits)
qed (auto split: if_splits)

lemma index_str_None: "index_str s sub = None \<longleftrightarrow> (\<forall>i\<le>length s. \<not> has_prefix (drop i s) sub)"
proof (induction s)
  case (Cons c s)
  have "(\<forall>i\<le>length (c # s). \<not> has_prefix (drop i (c # s)) sub) \<longleftrightarrow>
    \<not> has_prefix (c # s) sub \<and> (\<forall>i\<le>length s. \<not> has_prefix (drop i s) sub)"
    by (auto simp: All_less_Suc2 less_Suc_eq_le[symmetric])
  with Cons.IH show ?case by auto
qed auto

lemma last_index_str_Some:
  "last_index_str s sub = Some i \<Longrightarrow> i + length sub \<le> length s \<and> has_prefix (drop i s) sub"
proof (induction s arbitrary: i)
  case (Cons c s)
  show ?case
  proof (cases "last_index_str s sub")
    case None
    with Cons.prems have "i = 0" "has_prefix (c # s) sub" by (auto split: if_splits)
    then show ?thesis by (auto dest: has_prefix_length)
  next
    case (Some j)
    with Cons.prems have "i = Suc j" by simp
    with Cons.IH Some show ?thesis by simp
  qed
qed (auto split: if_splits)

lemma last_index_str_None:
  "last_index_str s sub = None \<longleftrightarrow> (\<forall>i\<le>length s. \<not> has_prefix (drop i s) sub)"
proof (induction s)
  case (Cons c s)
  have "(\<forall>i\<le>length (c # s). \<not> has_prefix (drop i (c # s)) sub) \<longleftrightarrow>
    \<not> has_prefix (c # s) sub \<and> (\<forall>i\<le>length s. \<not> has_prefix (drop i s) sub)"
    by (auto simp: All_less_Suc2 less_Suc_eq_le[symmetric])
  with Cons.IH show ?case by (auto split: option.splits)
qed auto

lemma last_index_str_last:
  "last_index_str s sub = Some i \<Longrightarrow> i < j \<Longrightarrow> j \<le> length s \<Longrightarrow> \<not> has_prefix (drop j s) sub"
proof (induction s arbitrary: i j)
  case (Cons c s)
  show ?case
  proof (cases "last_index_str s sub")
    case None
    with Cons.prems obtain k where k: "j = Suc k" "k \<le> length s" by (cases j) auto
    with None show ?thesis by (simp add: last_index_str_None)
  next
    case (Some m)
    with Cons.prems obtain k where "j = Suc k" "m < k" "k \<le> length s" by (cases j) auto
    with Cons.IH Some show ?thesis by simp
  qed
qed (auto split: if_splits)

section \<open>Trimming, case, joining\<close>

definition is_space :: "char \<Rightarrow> bool" where
  "is_space c \<longleftrightarrow> c \<in> set [CHR '' '', CHR 0x09, CHR 0x0A, CHR 0x0B, CHR 0x0C, CHR 0x0D]"

definition trim_by :: "(char \<Rightarrow> bool) \<Rightarrow> string \<Rightarrow> string" where
  "trim_by p s = rev (dropWhile p (rev (dropWhile p s)))"

definition trim_space :: "string \<Rightarrow> string" where
  "trim_space = trim_by is_space"

text \<open>\<^verbatim>\<open>strings.Trim(s, "/")\<close>.\<close>

definition trim_slashes :: "string \<Rightarrow> string" where
  "trim_slashes = trim_by (\<lambda>c. c = slash)"

definition lower_char :: "char \<Rightarrow> char" where
  "lower_char c = (if CHR ''A'' \<le> c \<and> c \<le> CHR ''Z'' then char_of (of_char c + (32 :: nat)) else c)"

definition upper_char :: "char \<Rightarrow> char" where
  "upper_char c = (if CHR ''a'' \<le> c \<and> c \<le> CHR ''z'' then char_of (of_char c - (32 :: nat)) else c)"

definition to_lower :: "string \<Rightarrow> string" where "to_lower = map lower_char"
definition to_upper :: "string \<Rightarrow> string" where "to_upper = map upper_char"

text \<open>\<^verbatim>\<open>strings.Split\<close> on a one-byte separator, and \<^verbatim>\<open>strings.Join\<close>.\<close>

fun split_on :: "char \<Rightarrow> string \<Rightarrow> string list" where
  "split_on d [] = [[]]"
| "split_on d (c # cs) =
     (if c = d then [] # split_on d cs
      else (case split_on d cs of [] \<Rightarrow> [[c]] | w # ws \<Rightarrow> (c # w) # ws))"

fun join_with :: "string \<Rightarrow> string list \<Rightarrow> string" where
  "join_with sep [] = []"
| "join_with sep [w] = w"
| "join_with sep (w # ws) = w @ sep @ join_with sep ws"

text \<open>\<^verbatim>\<open>strings.FieldsFunc\<close>: the maximal runs of characters that are not separators.\<close>

function fields_func :: "(char \<Rightarrow> bool) \<Rightarrow> string \<Rightarrow> string list" where
  "fields_func p [] = []"
| "fields_func p (c # cs) =
     (if p c then fields_func p cs
      else (c # takeWhile (\<lambda>x. \<not> p x) cs) # fields_func p (dropWhile (\<lambda>x. \<not> p x) cs))"
  by pat_completeness auto
termination
  by (relation "measure (\<lambda>(p, s). length s)") (auto simp: less_Suc_eq_le length_dropWhile_le)

text \<open>\<^verbatim>\<open>strings.ReplaceAll\<close> of a one-byte string.\<close>

fun replace_char :: "char \<Rightarrow> string \<Rightarrow> string \<Rightarrow> string" where
  "replace_char d r [] = []"
| "replace_char d r (c # cs) = (if c = d then r @ replace_char d r cs else c # replace_char d r cs)"

lemma split_on_ne [simp]: "split_on d s \<noteq> []"
  by (induction s) (auto split: list.splits)

lemma join_split_on: "join_with [d] (split_on d s) = s"
proof (induction s)
  case (Cons c s)
  show ?case
  proof (cases "split_on d s")
    case (Cons w ws)
    with Cons.IH show ?thesis by (cases ws) auto
  qed simp
qed simp

lemma split_on_no_sep: "w \<in> set (split_on d s) \<Longrightarrow> d \<notin> set w"
  by (induction s arbitrary: w) (auto split: list.splits if_splits)

lemma split_on_nosep [simp]: "d \<notin> set s \<Longrightarrow> split_on d s = [s]"
  by (induction s) auto

lemma split_on_append: "d \<notin> set w \<Longrightarrow> split_on d (w @ d # s) = w # split_on d s"
  by (induction w) auto

lemma split_join:
  "ws \<noteq> [] \<Longrightarrow> \<forall>w\<in>set ws. d \<notin> set w \<Longrightarrow> split_on d (join_with [d] ws) = ws"
proof (induction ws)
  case (Cons w ws)
  then show ?case by (cases ws) (auto simp: split_on_append)
qed simp

lemma takeWhile_not: "w = takeWhile (\<lambda>x. \<not> p x) cs \<Longrightarrow> c \<in> set w \<Longrightarrow> \<not> p c"
  using set_takeWhileD[of c "\<lambda>x. \<not> p x" cs] by blast

lemma fields_func_seg: "w \<in> set (fields_func p s) \<Longrightarrow> w \<noteq> [] \<and> (\<forall>c\<in>set w. \<not> p c)"
proof (induction p s rule: fields_func.induct)
  case (2 p c cs)
  show ?case
  proof (cases "p c")
    case True
    with 2 show ?thesis by simp
  next
    case False
    then consider "w = c # takeWhile (\<lambda>x. \<not> p x) cs"
      | "w \<in> set (fields_func p (dropWhile (\<lambda>x. \<not> p x) cs))" using "2.prems" by auto
    then show ?thesis
    proof cases
      case 1
      with False show ?thesis
        by (metis list.distinct(1) set_ConsD takeWhile_not)
    next
      case 2
      with "2.IH"(2) False show ?thesis by blast
    qed
  qed
qed simp

lemma trim_by_idem: "trim_by p (trim_by p s) = trim_by p s"
proof -
  define u where "u = dropWhile p s"
  define v where "v = rev (dropWhile p (rev u))"
  have hu: "u = [] \<or> \<not> p (hd u)"
    unfolding u_def by (metis hd_dropWhile)
  have pre: "\<exists>w. u = v @ w"
    unfolding v_def by (metis rev_append rev_rev_ident takeWhile_dropWhile_id)
  have hv: "v = [] \<or> \<not> p (hd v)"
    using hu pre by (cases v) auto
  then have "dropWhile p v = v" by (cases v) auto
  moreover have "dropWhile p (rev v) = rev v"
    unfolding v_def by simp
  ultimately have "rev (dropWhile p (rev (dropWhile p v))) = v"
    by simp
  then show ?thesis
    by (simp add: trim_by_def u_def v_def)
qed

lemma lower_char_idem: "lower_char (lower_char c) = lower_char c"
proof (cases "CHR ''A'' \<le> c \<and> c \<le> CHR ''Z''")
  case True
  define n where "n = (of_char c :: nat)"
  have n: "65 \<le> n" "n \<le> 90"
    using True by (auto simp: n_def less_eq_char_def)
  have l: "lower_char c = char_of (n + 32)"
    using True by (simp add: lower_char_def n_def)
  have "of_char (char_of (n + 32) :: char) = n + 32"
    using n by (simp add: of_char_of take_bit_eq_mod)
  with n l show ?thesis
    by (simp add: lower_char_def less_eq_char_def)
next
  case False
  then have "lower_char c = c" by (auto simp: lower_char_def)
  then show ?thesis by simp
qed

lemma to_lower_idem: "to_lower (to_lower s) = to_lower s"
  by (simp add: to_lower_def lower_char_idem)

section \<open>Decimal integers\<close>

definition is_digit :: "char \<Rightarrow> bool" where
  "is_digit c \<longleftrightarrow> CHR ''0'' \<le> c \<and> c \<le> CHR ''9''"

definition digit_val :: "char \<Rightarrow> nat" where
  "digit_val c = of_char c - 48"

definition digits_val :: "string \<Rightarrow> nat" where
  "digits_val ds = foldl (\<lambda>n c. 10 * n + digit_val c) 0 ds"

definition parse_nat :: "string \<Rightarrow> nat option" where
  "parse_nat ds = (if ds \<noteq> [] \<and> list_all is_digit ds then Some (digits_val ds) else None)"

text \<open>\<^verbatim>\<open>strconv.Atoi\<close> and \<^verbatim>\<open>strconv.ParseInt(s, 10, 64)\<close>: an optional sign, digits, int64 range.\<close>

definition atoi :: "string \<Rightarrow> int option" where
  "atoi s =
     (case s of
        [] \<Rightarrow> None
      | c # cs \<Rightarrow>
          if c = CHR ''-'' then
            (case parse_nat cs of
               Some n \<Rightarrow> if int n \<le> 2 ^ 63 then Some (- int n) else None
             | None \<Rightarrow> None)
          else
            (case parse_nat (if c = CHR ''+'' then cs else s) of
               Some n \<Rightarrow> if int n < 2 ^ 63 then Some (int n) else None
             | None \<Rightarrow> None))"

fun show_nat :: "nat \<Rightarrow> string" where
  "show_nat n = (if n < 10 then [char_of (48 + n)]
     else show_nat (n div 10) @ [char_of (48 + n mod 10)])"

declare show_nat.simps [simp del]

text \<open>\<^verbatim>\<open>%d\<close> and \<^verbatim>\<open>strconv.Itoa\<close>.\<close>

definition itoa :: "int \<Rightarrow> string" where
  "itoa x = (if x < 0 then CHR ''-'' # show_nat (nat (- x)) else show_nat (nat x))"

lemma of_char_digit [simp]: "k < 10 \<Longrightarrow> of_char (char_of (48 + k) :: char) = (48 + k :: nat)"
  by (simp add: of_char_of take_bit_eq_mod)

lemma digit_char [simp]: "k < 10 \<Longrightarrow> is_digit (char_of (48 + k))" "k < 10 \<Longrightarrow> digit_val (char_of (48 + k)) = k"
  by (simp_all add: is_digit_def digit_val_def less_eq_char_def)

lemma show_nat_props: "show_nat n \<noteq> [] \<and> list_all is_digit (show_nat n) \<and> digits_val (show_nat n) = n"
proof (induction n rule: show_nat.induct)
  case (1 n)
  show ?case
  proof (cases "n < 10")
    case True
    then show ?thesis by (subst (1 2 3) show_nat.simps) (simp add: digits_val_def)
  next
    case False
    with 1 have "show_nat (n div 10) \<noteq> [] \<and> list_all is_digit (show_nat (n div 10)) \<and>
        digits_val (show_nat (n div 10)) = n div 10" by simp
    with False show ?thesis
      by (subst (1 2 3) show_nat.simps) (simp add: digits_val_def)
  qed
qed

lemma parse_show_nat [simp]: "parse_nat (show_nat n) = Some n"
  using show_nat_props[of n] by (simp add: parse_nat_def)

lemma show_nat_hd_digit: "\<exists>c cs. show_nat n = c # cs \<and> is_digit c"
  using show_nat_props[of n] by (cases "show_nat n") auto

theorem atoi_itoa: "in_i64 x \<Longrightarrow> atoi (itoa x) = Some x"
proof (cases "x < 0")
  case True
  assume "in_i64 x"
  with True show ?thesis
    by (simp add: atoi_def itoa_def i64_min_def)
next
  case False
  assume "in_i64 x"
  obtain c cs where c: "show_nat (nat x) = c # cs" "is_digit c"
    using show_nat_hd_digit by blast
  then have "c \<noteq> CHR ''-''" "c \<noteq> CHR ''+''"
    by (auto simp: is_digit_def less_eq_char_def)
  with False c \<open>in_i64 x\<close> parse_show_nat[of "nat x"] show ?thesis
    by (simp add: atoi_def itoa_def i64_max_def)
qed

lemma itoa_no_colon: "CHR '':'' \<notin> set (itoa x)"
proof -
  have "CHR '':'' \<notin> set (show_nat n)" for n
    using show_nat_props[of n] by (auto simp: list_all_iff is_digit_def less_eq_char_def)
  then show ?thesis by (simp add: itoa_def)
qed

section \<open>Searching and trimming composed strings\<close>

lemma trim_space_id:
  assumes "s \<noteq> []" "\<not> is_space (hd s)" "\<not> is_space (last s)"
  shows "trim_space s = s"
proof -
  have "dropWhile is_space s = s" using assms by (cases s) auto
  moreover have "dropWhile is_space (rev s) = rev s" using assms by (cases "rev s") (auto simp: hd_rev[symmetric])
  ultimately show ?thesis by (simp add: trim_space_def trim_by_def)
qed

lemma index_char: "c \<notin> set pre \<Longrightarrow> index_str (pre @ c # s) [c] = Some (length pre)"
  by (induction pre) (auto simp: has_prefix_def)

lemma last_index_char_None: "c \<notin> set s \<Longrightarrow> last_index_str s [c] = None"
  by (induction s) (auto simp: has_prefix_def)

lemma last_index_char: "c \<notin> set post \<Longrightarrow> last_index_str (s @ c # post) [c] = Some (length s)"
  by (induction s) (auto simp: last_index_char_None has_prefix_def)

lemma index_str_absent: "c \<in> set sub \<Longrightarrow> c \<notin> set s \<Longrightarrow> index_str s sub = None"
  by (induction s) (auto simp: has_prefix_iff Cons_eq_append_conv)

lemma index_and: "CHR ''&'' \<notin> set pre \<Longrightarrow> index_str (pre @ '' && '' @ post) '' && '' = Some (length pre)"
proof (induction pre)
  case (Cons c pre)
  have "\<not> has_prefix (c # pre @ '' && '' @ post) '' && ''"
    using Cons.prems by (cases pre) (auto simp: has_prefix_def)
  with Cons show ?case by simp
qed (simp add: has_prefix_def)

lemma trim_space_keeps_prefix:
  assumes "pre \<noteq> []" "\<forall>c\<in>set pre. \<not> is_space c"
  shows "has_prefix (trim_space (pre @ t)) pre"
proof -
  have "dropWhile is_space (pre @ t) = pre @ t" using assms by (cases pre) auto
  moreover have "dropWhile is_space (rev pre) = rev pre"
    using assms by (cases pre rule: rev_cases) auto
  ultimately show ?thesis
    by (auto simp: trim_space_def trim_by_def dropWhile_append has_prefix_iff)
qed

end
