(* ===== verification/Domain.thy ===== *)
theory Domain
  imports Go_Strings
begin

text \<open>
  The domain types of \<^verbatim>\<open>internal/domain\<close> and the state all services share: the rows of the
  database tables, the contents of the physical blob stores, and the things handed to the
  asynchronous side channels (webhook events, download counts, scan requests). A record carries the
  fields the modelled operations read or write.

  A call to the database, to an object store or to Redis can fail at any time. Which calls do
  is the fault plan \<open>w_fault\<close>: it is asked with the operation, the key the operation is called
  with and the number of the call site, and theorems quantify over every plan.
\<close>

section \<open>Untyped configuration values\<close>

text \<open>The dynamic types that occur in the \<^verbatim>\<open>map[string]any\<close> configurations; an absent key and the
  nil map read alike.\<close>

datatype goany =
    AnyNil
  | AnyStr string
  | AnyBool bool
  | AnyInt int
  | AnyInt64 int
  | AnyFloat rat
  | AnyStrs "string list"
  | AnyList "goany list"
  | AnyMap "(string \<times> goany) list"

type_synonym config = "(string \<times> goany) list"

definition cfg_get :: "config \<Rightarrow> string \<Rightarrow> goany" where
  "cfg_get m k = (case map_of m k of Some v \<Rightarrow> v | None \<Rightarrow> AnyNil)"

fun any_str :: "goany \<Rightarrow> string" where
  "any_str (AnyStr s) = s"
| "any_str _ = []"

section \<open>Rows\<close>

type_synonym time = int

record repository =
  r_id :: string
  r_name :: string
  r_format :: string
  r_type :: string
  r_blob_store_id :: "string option"
  r_online :: bool
  r_format_config :: config
  r_proxy_config :: config
  r_cleanup_policy_ids :: "string list"
  r_quota_bytes :: "int option"
  r_routing_rule_id :: "string option"
  r_allow_anonymous :: bool

record blob_store =
  bs_id :: string
  bs_name :: string
  bs_type :: string
  bs_config :: config
  bs_quota_bytes :: "int option"
  bs_used_bytes :: int

record component =
  c_id :: string
  c_repository_id :: string
  c_repository :: string
  c_format :: string
  c_group :: string
  c_name :: string
  c_version :: string
  c_tags :: "string list"
  c_extra :: config
  c_last_downloaded :: "time option"
  c_download_count :: int
  c_created_at :: time

record asset =
  a_id :: string
  a_component_id :: string
  a_repository_id :: string
  a_repository :: string
  a_path :: string
  a_blob_store_id :: string
  a_blob_key :: string
  a_size_bytes :: int
  a_content_type :: string
  a_sha1 :: string
  a_sha256 :: string
  a_md5 :: string
  a_uploader_id :: string
  a_last_modified :: time
  a_last_downloaded :: "time option"
  a_download_count :: int
  a_created_at :: time

text \<open>\<^verbatim>\<open>RepoFormat.IsOCIRegistry\<close>: both labels of the OCI Distribution protocol.\<close>

definition is_oci_registry :: "string \<Rightarrow> bool" where
  "is_oci_registry f \<longleftrightarrow> f = ''docker'' \<or> f = ''oci''"

fun any_nonempty_strs :: "goany list \<Rightarrow> string list" where
  "any_nonempty_strs [] = []"
| "any_nonempty_strs (AnyStr s # xs) = (if s \<noteq> [] then s # any_nonempty_strs xs else any_nonempty_strs xs)"
| "any_nonempty_strs (_ # xs) = any_nonempty_strs xs"

definition group_member_names :: "repository \<Rightarrow> string list" where
  "group_member_names r =
     (case cfg_get (r_format_config r) ''member_names'' of
        AnyStrs v \<Rightarrow> v
      | AnyList v \<Rightarrow> any_nonempty_strs v
      | _ \<Rightarrow> [])"

definition group_writable_member :: "repository \<Rightarrow> string" where
  "group_writable_member r = any_str (cfg_get (r_format_config r) ''writable_member'')"

section \<open>Events\<close>

datatype webhook_event =
    EventArtifactPublished | EventArtifactDeleted | EventRepoCreated | EventRepoUpdated
  | EventRepoDeleted | EventProxyError

record payload =
  p_event :: webhook_event
  p_timestamp :: time
  p_repository :: string
  p_component :: "(string \<times> string) list"
  p_path :: string
  p_content_type :: string
  p_size :: int

section \<open>Physical stores\<close>

record blob =
  b_data :: string
  b_mod_time :: time

type_synonym pstore = "(string \<times> blob) list"

text \<open>
  The handle of a physical store: the process-wide default instance (\<^verbatim>\<open>Deps.BlobStore\<close>) or the
  instance the registry keeps for a row of \<^verbatim>\<open>blob_stores\<close>. Distinct handles are distinct stores.
\<close>

datatype store_ref = DefaultStore | StoreOf string

section \<open>Faults\<close>

text \<open>An operation is named as the code calls it, e.g. \<open>''Assets.GetByPath''\<close>.\<close>

type_synonym op = string

type_synonym fault_plan = "op \<Rightarrow> string \<Rightarrow> nat \<Rightarrow> bool"

definition no_faults :: fault_plan where
  "no_faults = (\<lambda>_ _ _. False)"

lemma no_faults_apply [simp]: "no_faults x k n = False"
  by (simp add: no_faults_def)

section \<open>The shared state\<close>

text \<open>
  \<open>w_gen_id\<close> is the database's \<^verbatim>\<open>gen_random_uuid()\<close>, called \<open>w_seq\<close> times so far;
  \<open>w_uuid_ok\<close> is PostgreSQL's syntax check of a value compared with a \<^verbatim>\<open>UUID\<close> column; \<open>w_now\<close> is
  \<^verbatim>\<open>NOW()\<close> and \<^verbatim>\<open>time.Now()\<close>. \<open>w_rr\<close> are the registry's round-robin counters.
\<close>

record world =
  w_repos :: "repository list"
  w_blobs :: "blob_store list"
  w_comps :: "component list"
  w_assets :: "asset list"
  w_phys :: "store_ref \<Rightarrow> pstore"
  w_rr :: "string \<Rightarrow> 64 word"
  w_seq :: nat
  w_gen_id :: "nat \<Rightarrow> string"
  w_uuid_ok :: "string \<Rightarrow> bool"
  w_now :: time
  w_fault :: fault_plan
  w_events :: "payload list"
  w_downloads :: "string list"
  w_scans :: "string list"

definition guard_io :: "world \<Rightarrow> op \<Rightarrow> string \<Rightarrow> nat \<Rightarrow> 'a result \<Rightarrow> 'a result" where
  "guard_io w op k n r = (if w_fault w op k n then Inl ErrIO else r)"

lemma guard_io_ok [simp]: "guard_io w op k n r = Inr x \<longleftrightarrow> \<not> w_fault w op k n \<and> r = Inr x"
  by (simp add: guard_io_def)

end
