(* ===== verification/Repository_DB.thy ===== *)
theory Repository_DB
  imports Domain
begin

text \<open>
  The PostgreSQL repositories of \<^verbatim>\<open>internal/repository/postgres\<close>: every statement the modelled
  services run, as a function on the tables of \<open>world\<close>. A read returns the rows or an error, a
  write the new state or an error; the last argument of each is the number of the call site,
  handed to the fault plan. The schema's unique keys and foreign keys are the invariant
  \<open>db_ok\<close>.
\<close>

section \<open>LIKE patterns\<close>

text \<open>\<open>like_match p s\<close> is \<^verbatim>\<open>s LIKE p\<close> with the default escape character, a backslash.\<close>

function like_match :: "string \<Rightarrow> string \<Rightarrow> bool" where
  "like_match [] s \<longleftrightarrow> s = []"
| "like_match (p # ps) s \<longleftrightarrow>
     (if p = CHR 0x5C then
        (case ps of [] \<Rightarrow> False
         | q # qs \<Rightarrow> (case s of [] \<Rightarrow> False | c # cs \<Rightarrow> c = q \<and> like_match qs cs))
      else if p = CHR ''%'' then
        like_match ps s \<or> (case s of [] \<Rightarrow> False | c # cs \<Rightarrow> like_match (p # ps) cs)
      else (case s of [] \<Rightarrow> False | c # cs \<Rightarrow> (p = CHR ''_'' \<or> p = c) \<and> like_match ps cs))"
  by pat_completeness auto
termination
  by (relation "measure (\<lambda>(p, s). length p + length s)") auto

definition likePrefix :: "string \<Rightarrow> string" where
  "likePrefix prefix =
     replace_char (CHR ''_'') [CHR 0x5C, CHR ''_'']
       (replace_char (CHR ''%'') [CHR 0x5C, CHR ''%'']
         (replace_char (CHR 0x5C) [CHR 0x5C, CHR 0x5C] prefix)) @ ''%''"

fun globToLike :: "string \<Rightarrow> string" where
  "globToLike [] = []"
| "globToLike (c # cs) =
     (if c = CHR ''%'' \<or> c = CHR ''_'' then CHR 0x5C # c # globToLike cs
      else if c = CHR ''*'' then CHR ''%'' # globToLike cs
      else if c = CHR ''?'' then CHR ''_'' # globToLike cs
      else c # globToLike cs)"

section \<open>Reads\<close>

definition repo_by_id :: "world \<Rightarrow> string \<Rightarrow> repository option" where
  "repo_by_id w i = find (\<lambda>r. r_id r = i) (w_repos w)"

definition in_repo :: "world \<Rightarrow> string \<Rightarrow> asset \<Rightarrow> bool" where
  "in_repo w name a \<longleftrightarrow> (case repo_by_id w (a_repository_id a) of Some r \<Rightarrow> r_name r = name | None \<Rightarrow> False)"

text \<open>\<^verbatim>\<open>scanAsset\<close> over the join with \<^verbatim>\<open>repositories\<close>: the row carries the repository's current name.\<close>

definition scan_asset :: "world \<Rightarrow> asset \<Rightarrow> asset" where
  "scan_asset w a =
     (case repo_by_id w (a_repository_id a) of Some r \<Rightarrow> a\<lparr>a_repository := r_name r\<rparr> | None \<Rightarrow> a)"

definition row_or_not_found :: "'a option \<Rightarrow> 'a result" where
  "row_or_not_found r = (case r of Some x \<Rightarrow> Inr x | None \<Rightarrow> Inl ErrNotFound)"

definition repos_get :: "world \<Rightarrow> string \<Rightarrow> nat \<Rightarrow> repository result" where
  "repos_get w name n = guard_io w ''Repos.Get'' name n
     (row_or_not_found (find (\<lambda>r. r_name r = name) (w_repos w)))"

definition repos_list_names_by_policy :: "world \<Rightarrow> string \<Rightarrow> nat \<Rightarrow> string list result" where
  "repos_list_names_by_policy w pid n = guard_io w ''Repos.ListNamesByCleanupPolicyID'' pid n
     (Inr (map r_name (filter (\<lambda>r. pid \<in> set (r_cleanup_policy_ids r)) (w_repos w))))"

definition blobs_get :: "world \<Rightarrow> string \<Rightarrow> nat \<Rightarrow> blob_store result" where
  "blobs_get w name n = guard_io w ''Blobs.Get'' name n
     (row_or_not_found (find (\<lambda>b. bs_name b = name) (w_blobs w)))"

definition blobs_get_by_id :: "world \<Rightarrow> string \<Rightarrow> nat \<Rightarrow> blob_store result" where
  "blobs_get_by_id w i n = guard_io w ''Blobs.GetByID'' i n
     (row_or_not_found (find (\<lambda>b. bs_id b = i) (w_blobs w)))"

definition blobs_list :: "world \<Rightarrow> nat \<Rightarrow> blob_store list result" where
  "blobs_list w n = guard_io w ''Blobs.List'' [] n (Inr (sort_key bs_name (w_blobs w)))"

definition assets_get_by_path :: "world \<Rightarrow> string \<Rightarrow> string \<Rightarrow> nat \<Rightarrow> asset result" where
  "assets_get_by_path w repo path n = guard_io w ''Assets.GetByPath'' path n
     (row_or_not_found (map_option (scan_asset w)
        (find (\<lambda>a. in_repo w repo a \<and> a_path a = path) (w_assets w))))"

definition assets_list_by_component_id :: "world \<Rightarrow> string \<Rightarrow> nat \<Rightarrow> asset list result" where
  "assets_list_by_component_id w cid n = guard_io w ''Assets.ListByComponentID'' cid n
     (Inr (map (scan_asset w) (sort_key a_path (filter (\<lambda>a. a_component_id a = cid) (w_assets w)))))"

definition assets_list_by_repo_and_path :: "world \<Rightarrow> string \<Rightarrow> string \<Rightarrow> nat \<Rightarrow> asset list result" where
  "assets_list_by_repo_and_path w repo prefix n = guard_io w ''Assets.ListByRepoAndPath'' prefix n
     (Inr (map (scan_asset w) (sort_key a_path
        (filter (\<lambda>a. in_repo w repo a \<and>
           (if prefix = [] then True else like_match (likePrefix prefix) (a_path a))) (w_assets w)))))"

text \<open>
  \<^verbatim>\<open>SELECT COUNT(*) FROM assets WHERE blob_key = $1 AND id != $2\<close>. The column \<^verbatim>\<open>id\<close> is a \<^verbatim>\<open>UUID\<close>, so
  PostgreSQL first parses \<^verbatim>\<open>$2\<close> as one and the statement fails when it is not.
\<close>

definition assets_count_by_blob_key :: "world \<Rightarrow> string \<Rightarrow> string \<Rightarrow> nat \<Rightarrow> nat result" where
  "assets_count_by_blob_key w key excl n = guard_io w ''Assets.CountByBlobKey'' key n
     (if w_uuid_ok w excl
      then Inr (length (filter (\<lambda>a. a_blob_key a = key \<and> a_id a \<noteq> excl) (w_assets w)))
      else Inl ErrIO)"

definition assets_count_by_blob_key_in_store :: "world \<Rightarrow> string \<Rightarrow> string \<Rightarrow> nat \<Rightarrow> nat result" where
  "assets_count_by_blob_key_in_store w key sid n = guard_io w ''Assets.CountByBlobKeyInStore'' key n
     (if w_uuid_ok w sid
      then Inr (length (filter (\<lambda>a. a_blob_key a = key \<and> a_blob_store_id a = sid) (w_assets w)))
      else Inl ErrIO)"

text \<open>One size per distinct blob key, read at its largest.\<close>

definition distinct_key_bytes :: "asset list \<Rightarrow> int" where
  "distinct_key_bytes rows =
     sum_list (map (\<lambda>k. Max (set (map a_size_bytes (filter (\<lambda>a. a_blob_key a = k) rows))))
       (remdups (map a_blob_key rows)))"

definition assets_sum_size_by_repo :: "world \<Rightarrow> string \<Rightarrow> nat \<Rightarrow> int result" where
  "assets_sum_size_by_repo w repo n = guard_io w ''Assets.SumSizeByRepo'' repo n
     (Inr (distinct_key_bytes (filter (in_repo w repo) (w_assets w))))"

definition assets_list_all_blob_refs :: "world \<Rightarrow> nat \<Rightarrow> (string \<times> string) list result" where
  "assets_list_all_blob_refs w n = guard_io w ''Assets.ListAllBlobRefs'' [] n
     (Inr (remdups (map (\<lambda>a. (a_blob_key a, a_blob_store_id a))
        (filter (\<lambda>a. trim_by (\<lambda>c. c = CHR '' '') (a_blob_key a) \<noteq> []) (w_assets w)))))"

definition assets_list_for_blob_store_migration ::
    "world \<Rightarrow> string \<Rightarrow> string \<Rightarrow> nat \<Rightarrow> (string \<times> string \<times> int) list result" where
  "assets_list_for_blob_store_migration w repo target n =
     guard_io w ''Assets.ListForBlobStoreMigration'' repo n
     (if w_uuid_ok w target
      then Inr (sort_key fst (remdups (map (\<lambda>a. (a_blob_key a, a_blob_store_id a, a_size_bytes a))
        (filter (\<lambda>a. in_repo w repo a \<and> a_blob_key a \<noteq> [] \<and> a_blob_store_id a \<noteq> target)
          (w_assets w)))))
      else Inl ErrIO)"

section \<open>The staleness query\<close>

text \<open>
  \<open>retained w repos N\<close> is the common table expression of \<^verbatim>\<open>ListStale\<close>: the components whose
  \<^verbatim>\<open>ROW_NUMBER\<close> within (repository, group, name) is at most \<open>N\<close>, newest first. No statement of the
  program writes \<^verbatim>\<open>version_sort\<close>, so the order is by \<^verbatim>\<open>created_at\<close>; ties are broken by row order.
\<close>

definition precedes :: "component list \<Rightarrow> component \<Rightarrow> component \<Rightarrow> bool" where
  "precedes rows d c \<longleftrightarrow> c_created_at c < c_created_at d \<or>
     (c_created_at d = c_created_at c \<and>
      length (takeWhile (\<lambda>r. c_id r \<noteq> c_id d) rows) < length (takeWhile (\<lambda>r. c_id r \<noteq> c_id c) rows))"

definition row_number :: "component list \<Rightarrow> component \<Rightarrow> nat" where
  "row_number rows c = Suc (length (filter (\<lambda>d.
     c_repository_id d = c_repository_id c \<and> c_group d = c_group c \<and> c_name d = c_name c \<and>
     precedes rows d c) rows))"

definition comp_in_repos :: "world \<Rightarrow> string list \<Rightarrow> component \<Rightarrow> bool" where
  "comp_in_repos w repos c \<longleftrightarrow>
     (case repo_by_id w (c_repository_id c) of Some r \<Rightarrow> r_name r \<in> set repos | None \<Rightarrow> False)"

definition retained_comps :: "world \<Rightarrow> string list \<Rightarrow> int \<Rightarrow> string list" where
  "retained_comps w repos N =
     (let rows = filter (comp_in_repos w repos) (w_comps w)
      in map c_id (filter (\<lambda>c. int (row_number rows c) \<le> N) rows))"

definition day :: int where "day = 86400 * 1000000000"

definition stale_where ::
    "world \<Rightarrow> string \<Rightarrow> string list \<Rightarrow> int \<Rightarrow> int \<Rightarrow> string \<Rightarrow> string \<Rightarrow> int \<Rightarrow> asset \<Rightarrow> component \<Rightarrow> bool" where
  "stale_where w format repos lastDl age pathPrefix nameGlob retain a c \<longleftrightarrow>
     (repos = [] \<or> (\<exists>r\<in>set repos. in_repo w r a)) \<and>
     (format = [] \<or> format = ''*'' \<or> c_format c = format) \<and>
     (lastDl > 0 \<longrightarrow> (case a_last_downloaded a of None \<Rightarrow> True | Some t \<Rightarrow> t < w_now w - day * lastDl)) \<and>
     (age > 0 \<longrightarrow> a_created_at a < w_now w - day * age) \<and>
     (pathPrefix \<noteq> [] \<longrightarrow> like_match (likePrefix pathPrefix) (a_path a)) \<and>
     (nameGlob \<noteq> [] \<longrightarrow> like_match (globToLike nameGlob) (a_path a)) \<and>
     (retain > 0 \<and> repos \<noteq> [] \<longrightarrow> c_id c \<notin> set (retained_comps w repos retain))"

definition comp_by_id :: "world \<Rightarrow> string \<Rightarrow> component option" where
  "comp_by_id w i = find (\<lambda>c. c_id c = i) (w_comps w)"

definition assets_list_stale ::
    "world \<Rightarrow> string \<Rightarrow> string list \<Rightarrow> int \<Rightarrow> int \<Rightarrow> string \<Rightarrow> string \<Rightarrow> int \<Rightarrow> nat \<Rightarrow> nat \<Rightarrow> asset list result" where
  "assets_list_stale w format repos lastDl age pathPrefix nameGlob retain limit n =
     guard_io w ''Assets.ListStale'' format n
     (Inr (take (if limit = 0 then 500 else limit)
       (map (scan_asset w) (sort_key a_created_at
         (filter (\<lambda>a. repo_by_id w (a_repository_id a) \<noteq> None \<and>
            (case comp_by_id w (a_component_id a) of
               Some c \<Rightarrow> stale_where w format repos lastDl age pathPrefix nameGlob retain a c
             | None \<Rightarrow> False)) (w_assets w))))))"

section \<open>Writes\<close>

definition blobs_update_used_bytes :: "world \<Rightarrow> string \<Rightarrow> int \<Rightarrow> nat \<Rightarrow> world result" where
  "blobs_update_used_bytes w name delta n = guard_io w ''Blobs.UpdateUsedBytes'' name n
     (if \<exists>b\<in>set (w_blobs w). bs_name b = name \<and> \<not> in_i64 (bs_used_bytes b + delta) then Inl ErrIO
      else Inr (w\<lparr>w_blobs := upd_where (\<lambda>b. bs_name b = name)
        (\<lambda>b. b\<lparr>bs_used_bytes := max 0 (bs_used_bytes b + delta)\<rparr>) (w_blobs w)\<rparr>))"

text \<open>\<^verbatim>\<open>recomputeUsedBytesSQL\<close>: the asset column is \<^verbatim>\<open>NOT NULL\<close>, so its \<^verbatim>\<open>COALESCE\<close> is the identity.\<close>

definition blobs_recompute_used_bytes :: "world \<Rightarrow> nat \<Rightarrow> world result" where
  "blobs_recompute_used_bytes w n = guard_io w ''Blobs.RecomputeUsedBytes'' [] n
     (Inr (w\<lparr>w_blobs := map (\<lambda>b. b\<lparr>bs_used_bytes := distinct_key_bytes
        (filter (\<lambda>a. a_blob_store_id a = bs_id b \<and>
           trim_by (\<lambda>c. c = CHR '' '') (a_blob_key a) \<noteq> []) (w_assets w))\<rparr>) (w_blobs w)\<rparr>))"

definition same_component :: "component \<Rightarrow> component \<Rightarrow> bool" where
  "same_component c d \<longleftrightarrow> c_repository_id c = c_repository_id d \<and> c_format c = c_format d \<and>
     c_group c = c_group d \<and> c_name c = c_name d \<and> c_version c = c_version d"

text \<open>
  \<^verbatim>\<open>componentRepo.Create\<close>: an upsert on (repository, format, group, name, version). The row and
  the caller's struct get the id and creation time the statement returns; the insert does not
  carry the tags.
\<close>

definition components_create :: "world \<Rightarrow> component \<Rightarrow> nat \<Rightarrow> (world \<times> component) result" where
  "components_create w c n = guard_io w ''Components.Create'' (c_name c) n
     (if repo_by_id w (c_repository_id c) = None then Inl ErrIO
      else (case find (same_component c) (w_comps w) of
        Some d \<Rightarrow> Inr (w\<lparr>w_comps := upd_where (\<lambda>r. c_id r = c_id d) (\<lambda>r. r\<lparr>c_extra := c_extra c\<rparr>) (w_comps w)\<rparr>,
                     c\<lparr>c_id := c_id d, c_created_at := c_created_at d\<rparr>)
      | None \<Rightarrow> (let i = w_gen_id w (w_seq w) in
          Inr (w\<lparr>w_seq := Suc (w_seq w),
                 w_comps := w_comps w @ [c\<lparr>c_id := i, c_tags := [], c_last_downloaded := None,
                   c_download_count := 0, c_created_at := w_now w\<rparr>]\<rparr>,
               c\<lparr>c_id := i, c_created_at := w_now w\<rparr>))))"

definition components_get :: "world \<Rightarrow> string \<Rightarrow> nat \<Rightarrow> component result" where
  "components_get w i n = guard_io w ''Components.Get'' i n
     (row_or_not_found (case comp_by_id w i of
        None \<Rightarrow> None
      | Some c \<Rightarrow> map_option (\<lambda>r. c\<lparr>c_repository := r_name r\<rparr>) (repo_by_id w (c_repository_id c))))"

text \<open>Deleting a component takes its assets along (\<^verbatim>\<open>ON DELETE CASCADE\<close>).\<close>

definition components_delete :: "world \<Rightarrow> string \<Rightarrow> nat \<Rightarrow> world result" where
  "components_delete w i n = guard_io w ''Components.Delete'' i n
     (Inr (w\<lparr>w_comps := filter (\<lambda>c. c_id c \<noteq> i) (w_comps w),
             w_assets := filter (\<lambda>a. a_component_id a \<noteq> i) (w_assets w)\<rparr>))"

definition components_delete_orphans :: "world \<Rightarrow> string \<Rightarrow> nat \<Rightarrow> world result" where
  "components_delete_orphans w repo n = guard_io w ''Components.DeleteOrphans'' repo n
     (Inr (w\<lparr>w_comps := filter (\<lambda>c. \<not> (comp_in_repos w [repo] c \<and>
        (\<forall>a\<in>set (w_assets w). a_component_id a \<noteq> c_id c))) (w_comps w)\<rparr>))"

definition components_set_tags :: "world \<Rightarrow> string \<Rightarrow> string list \<Rightarrow> nat \<Rightarrow> world result" where
  "components_set_tags w i tags n = guard_io w ''Components.SetTags'' i n
     (Inr (w\<lparr>w_comps := upd_where (\<lambda>c. c_id c = i) (\<lambda>c. c\<lparr>c_tags := tags\<rparr>) (w_comps w)\<rparr>))"

definition asset_fks_ok :: "world \<Rightarrow> asset \<Rightarrow> bool" where
  "asset_fks_ok w a \<longleftrightarrow> comp_by_id w (a_component_id a) \<noteq> None \<and>
     repo_by_id w (a_repository_id a) \<noteq> None \<and> (\<exists>b\<in>set (w_blobs w). bs_id b = a_blob_store_id a)"

definition upsert_asset :: "asset \<Rightarrow> time \<Rightarrow> asset \<Rightarrow> asset" where
  "upsert_asset a t old = old\<lparr>a_blob_store_id := a_blob_store_id a, a_blob_key := a_blob_key a,
     a_size_bytes := a_size_bytes a, a_content_type := a_content_type a, a_sha1 := a_sha1 a,
     a_sha256 := a_sha256 a, a_md5 := a_md5 a,
     a_uploader_id := (if a_uploader_id a = [] then a_uploader_id old else a_uploader_id a),
     a_last_modified := t\<rparr>"

text \<open>\<^verbatim>\<open>assetRepo.Create\<close>: an upsert on (repository, path) that keeps id and component of the row.\<close>

definition assets_create :: "world \<Rightarrow> asset \<Rightarrow> nat \<Rightarrow> (world \<times> asset) result" where
  "assets_create w a n = guard_io w ''Assets.Create'' (a_path a) n
     (if \<not> asset_fks_ok w a then Inl ErrIO
      else (case find (\<lambda>r. a_repository_id r = a_repository_id a \<and> a_path r = a_path a) (w_assets w) of
        Some old \<Rightarrow>
          Inr (w\<lparr>w_assets := upd_where (\<lambda>r. a_id r = a_id old) (upsert_asset a (w_now w)) (w_assets w)\<rparr>,
               a\<lparr>a_id := a_id old, a_created_at := a_created_at old, a_last_modified := w_now w\<rparr>)
      | None \<Rightarrow> (let i = w_gen_id w (w_seq w);
                     row = a\<lparr>a_id := i, a_created_at := w_now w, a_last_modified := w_now w\<rparr>
          in Inr (w\<lparr>w_seq := Suc (w_seq w),
                   w_assets := w_assets w @ [row\<lparr>a_last_downloaded := None, a_download_count := 0\<rparr>]\<rparr>, row))))"

definition assets_touch_last_modified :: "world \<Rightarrow> string \<Rightarrow> nat \<Rightarrow> world result" where
  "assets_touch_last_modified w i n = guard_io w ''Assets.TouchLastModified'' i n
     (Inr (w\<lparr>w_assets := upd_where (\<lambda>a. a_id a = i) (\<lambda>a. a\<lparr>a_last_modified := w_now w\<rparr>) (w_assets w)\<rparr>))"

definition assets_delete :: "world \<Rightarrow> string \<Rightarrow> nat \<Rightarrow> world result" where
  "assets_delete w i n = guard_io w ''Assets.Delete'' i n
     (Inr (w\<lparr>w_assets := filter (\<lambda>a. a_id a \<noteq> i) (w_assets w)\<rparr>))"

definition unchanged_row :: "string \<Rightarrow> string \<Rightarrow> time option \<Rightarrow> time \<Rightarrow> asset \<Rightarrow> bool" where
  "unchanged_row i key ld lm a \<longleftrightarrow>
     a_id a = i \<and> a_blob_key a = key \<and> a_last_downloaded a = ld \<and> a_last_modified a = lm"

definition assets_delete_if_unchanged ::
    "world \<Rightarrow> string \<Rightarrow> string \<Rightarrow> time option \<Rightarrow> time \<Rightarrow> nat \<Rightarrow> (world \<times> bool) result" where
  "assets_delete_if_unchanged w i key ld lm n = guard_io w ''Assets.DeleteIfUnchanged'' i n
     (Inr (w\<lparr>w_assets := filter (\<lambda>a. \<not> unchanged_row i key ld lm a) (w_assets w)\<rparr>,
           \<exists>a\<in>set (w_assets w). unchanged_row i key ld lm a))"

definition assets_update_blob_store_for_blob_key :: "world \<Rightarrow> string \<Rightarrow> string \<Rightarrow> string \<Rightarrow> nat \<Rightarrow> world result" where
  "assets_update_blob_store_for_blob_key w key repo sid n =
     guard_io w ''Assets.UpdateBlobStoreForBlobKey'' key n
     (if \<not> (\<exists>b\<in>set (w_blobs w). bs_id b = sid) then Inl ErrIO
      else Inr (w\<lparr>w_assets := upd_where (\<lambda>a. a_blob_key a = key \<and> in_repo w repo a)
        (\<lambda>a. a\<lparr>a_blob_store_id := sid\<rparr>) (w_assets w)\<rparr>))"

text \<open>
  \<^verbatim>\<open>IncrementDownloads\<close>: one batch of (asset id, count) pairs, applied to the assets and, summed, to
  their components, in one transaction; unknown ids are ignored.
\<close>

definition assets_increment_downloads :: "world \<Rightarrow> (string \<times> int) list \<Rightarrow> nat \<Rightarrow> world result" where
  "assets_increment_downloads w counts n =
     (if counts = [] then Inr w
      else guard_io w ''Assets.IncrementDownloads'' [] n
     (Inr (w\<lparr>w_assets := map (\<lambda>a. case map_of counts (a_id a) of
          Some k \<Rightarrow> a\<lparr>a_download_count := a_download_count a + k, a_last_downloaded := Some (w_now w)\<rparr>
        | None \<Rightarrow> a) (w_assets w),
        w_comps := map (\<lambda>c.
          let hits = filter (\<lambda>a. a_component_id a = c_id c \<and> map_of counts (a_id a) \<noteq> None) (w_assets w)
          in if hits = [] then c
             else c\<lparr>c_last_downloaded := Some (w_now w),
                    c_download_count := c_download_count c +
                      sum_list (map (\<lambda>a. the (map_of counts (a_id a))) hits)\<rparr>) (w_comps w)\<rparr>)))"

text \<open>
  \<^verbatim>\<open>WithBlobKeyLock\<close> runs \<open>f\<close> inside an advisory lock. Beginning the transaction or taking the lock
  can fail (site \<open>n\<close>), and so can the commit (site \<open>Suc n\<close>), after \<open>f\<close>'s own statements, which run
  on other connections, took effect.
\<close>

definition with_blob_key_lock ::
    "world \<Rightarrow> string \<Rightarrow> nat \<Rightarrow> (world \<Rightarrow> world \<times> 'a result) \<Rightarrow> world \<times> 'a result" where
  "with_blob_key_lock w key n f =
     (if w_fault w ''Assets.WithBlobKeyLock'' key n then (w, Inl ErrIO)
      else (case f w of
        (w', Inl e) \<Rightarrow> (w', Inl e)
      | (w', Inr x) \<Rightarrow> if w_fault w' ''Assets.WithBlobKeyLock'' key (Suc n) then (w', Inl ErrIO) else (w', Inr x)))"

section \<open>Statements of the OCI registry\<close>

text \<open>\<^verbatim>\<open>UpdateExtra\<close>: the \<^verbatim>\<open>||\<close> of \<^verbatim>\<open>jsonb\<close> replaces the keys given and keeps the others.\<close>

definition components_update_extra :: "world \<Rightarrow> string \<Rightarrow> config \<Rightarrow> nat \<Rightarrow> world result" where
  "components_update_extra w i extra n = guard_io w ''Components.UpdateExtra'' i n
     (Inr (w\<lparr>w_comps := upd_where (\<lambda>c. c_id c = i)
        (\<lambda>c. c\<lparr>c_extra := fold (\<lambda>(k, v). AList.update k v) extra (c_extra c)\<rparr>) (w_comps w)\<rparr>))"

record search_params =
  sp_repository :: string
  sp_repository_names :: "string list"
  sp_format :: string
  sp_group :: string
  sp_name :: string
  sp_version :: string
  sp_maven_group_id :: string
  sp_maven_artifact_id :: string
  sp_tag :: string
  sp_limit :: int
  sp_offset :: int

text \<open>\<^verbatim>\<open>ILIKE\<close> of a substring, as the search builds it: the value is not escaped.\<close>

definition ilike_contains :: "string \<Rightarrow> string \<Rightarrow> bool" where
  "ilike_contains s sub \<longleftrightarrow> like_match (to_lower (''%'' @ sub @ ''%'')) (to_lower s)"

definition comp_repo :: "world \<Rightarrow> component \<Rightarrow> component option" where
  "comp_repo w c = map_option (\<lambda>r. c\<lparr>c_repository := r_name r\<rparr>) (repo_by_id w (c_repository_id c))"

definition search_where :: "search_params \<Rightarrow> component \<Rightarrow> bool" where
  "search_where p c \<longleftrightarrow>
     (if sp_repository_names p \<noteq> [] then c_repository c \<in> set (sp_repository_names p)
      else sp_repository p = [] \<or> c_repository c = sp_repository p) \<and>
     (sp_format p = [] \<or> c_format c = sp_format p) \<and>
     (sp_group p = [] \<or> ilike_contains (c_group c) (sp_group p)) \<and>
     (sp_name p = [] \<or> ilike_contains (c_name c) (sp_name p)) \<and>
     (sp_version p = [] \<or> c_version c = sp_version p) \<and>
     (sp_maven_group_id p = [] \<or> c_group c = sp_maven_group_id p) \<and>
     (sp_maven_artifact_id p = [] \<or> c_name c = sp_maven_artifact_id p) \<and>
     (sp_tag p = [] \<or> sp_tag p \<in> set (c_tags c))"

text \<open>
  The database orders text under its collation; \<open>coll\<close> gives the sort key of a value, which PostgreSQL
  compares byte by byte. The result is a page: its rows and the offset of the next one.
\<close>

definition by_name_version :: "(string \<Rightarrow> string) \<Rightarrow> component list \<Rightarrow> component list" where
  "by_name_version coll = sort_key (\<lambda>c. [coll (c_name c), coll (c_version c)])"

definition clamp_limit :: "int \<Rightarrow> int" where
  "clamp_limit l = (let l1 = (if l \<le> 0 then 50 else l) in if l1 > 500 then 500 else l1)"

definition components_search ::
    "(string \<Rightarrow> string) \<Rightarrow> world \<Rightarrow> search_params \<Rightarrow> nat \<Rightarrow> (component list \<times> string option) result" where
  "components_search coll w p n = guard_io w ''Components.Search'' (sp_repository p) n
     (let limit = clamp_limit (sp_limit p);
          rows = by_name_version coll (filter (search_where p) (List.map_filter (comp_repo w) (w_comps w)));
          items = take (nat (limit + 1)) (drop (nat (sp_offset p)) rows)
      in if int (length items) > limit then Inr (take (nat limit) items, Some (itoa (i64 (sp_offset p + limit))))
         else Inr (items, None))"

definition components_list_oci_referrers ::
    "(string \<Rightarrow> string) \<Rightarrow> world \<Rightarrow> string list \<Rightarrow> string \<Rightarrow> string \<Rightarrow> nat \<Rightarrow> component list result" where
  "components_list_oci_referrers coll w repoNames imageName subj n =
     (if repoNames = [] then Inr []
      else guard_io w ''Components.ListOCIReferrers'' subj n
        (Inr (by_name_version coll (filter (\<lambda>c. c_repository c \<in> set repoNames \<and> cfg_get (c_extra c) ''oci_subject'' = AnyStr subj \<and>
           (imageName = [] \<or> c_name c = imageName)) (List.map_filter (comp_repo w) (w_comps w))))))"

text \<open>The image name cut out of \<^verbatim>\<open>/manifests/<name>/<reference>\<close> by the greedy pattern.\<close>

definition manifest_image :: "string \<Rightarrow> string option" where
  "manifest_image p =
     (if has_prefix p ''/manifests/'' then
        (let t = trim_prefix p ''/manifests/'' in
         case last_index_str t ''/'' of
           Some i \<Rightarrow> if i > 0 \<and> Suc i < length t then Some (take i t) else None
         | None \<Rightarrow> None)
      else None)"

definition assets_list_oci_image_names :: "world \<Rightarrow> string list \<Rightarrow> nat \<Rightarrow> string list result" where
  "assets_list_oci_image_names w repoNames n =
     (if repoNames = [] then Inr []
      else guard_io w ''Assets.ListOCIImageNames'' [] n
        (Inr (remdups (List.map_filter manifest_image
           (map a_path (filter (\<lambda>a. \<exists>r\<in>set repoNames. in_repo w r a) (w_assets w)))))))"

section \<open>The schema's invariant\<close>

definition db_ok :: "world \<Rightarrow> bool" where
  "db_ok w \<longleftrightarrow>
     distinct (map r_id (w_repos w)) \<and> distinct (map r_name (w_repos w)) \<and>
     distinct (map bs_id (w_blobs w)) \<and> distinct (map bs_name (w_blobs w)) \<and>
     distinct (map c_id (w_comps w)) \<and> distinct (map a_id (w_assets w)) \<and>
     distinct (map (\<lambda>a. (a_repository_id a, a_path a)) (w_assets w)) \<and>
     a_component_id ` set (w_assets w) \<subseteq> c_id ` set (w_comps w) \<and>
     a_repository_id ` set (w_assets w) \<subseteq> r_id ` set (w_repos w) \<and>
     a_blob_store_id ` set (w_assets w) \<subseteq> bs_id ` set (w_blobs w) \<and>
     c_repository_id ` set (w_comps w) \<subseteq> r_id ` set (w_repos w) \<and>
     inj (w_gen_id w) \<and>
     c_id ` set (w_comps w) \<subseteq> w_gen_id w ` {..<w_seq w} \<and>
     a_id ` set (w_assets w) \<subseteq> w_gen_id w ` {..<w_seq w}"

lemma comp_by_id_None: "comp_by_id w i = None \<longleftrightarrow> i \<notin> c_id ` set (w_comps w)"
  by (auto simp: comp_by_id_def find_None_iff)

lemma repo_by_id_None: "repo_by_id w i = None \<longleftrightarrow> i \<notin> r_id ` set (w_repos w)"
  by (auto simp: repo_by_id_def find_None_iff)

lemma asset_fks_ok_alt: "asset_fks_ok w a \<longleftrightarrow> a_component_id a \<in> c_id ` set (w_comps w) \<and>
    a_repository_id a \<in> r_id ` set (w_repos w) \<and> a_blob_store_id a \<in> bs_id ` set (w_blobs w)"
  unfolding asset_fks_ok_def comp_by_id_None repo_by_id_None by (auto intro: rev_image_eqI)

lemma in_repo_upd [simp]:
  "in_repo (w\<lparr>w_assets := x\<rparr>) = in_repo w" "in_repo (w\<lparr>w_comps := y\<rparr>) = in_repo w"
  "in_repo (w\<lparr>w_blobs := b\<rparr>) = in_repo w" "in_repo (w\<lparr>w_phys := p\<rparr>) = in_repo w"
  "in_repo (w\<lparr>w_seq := k\<rparr>) = in_repo w"
  by (simp_all add: in_repo_def repo_by_id_def fun_eq_iff)

lemma in_repo_repos: "w_repos w' = w_repos w \<Longrightarrow> in_repo w' = in_repo w"
  by (simp add: in_repo_def repo_by_id_def fun_eq_iff)

lemma fresh_id_not_used:
  assumes "db_ok w"
  shows "w_gen_id w (w_seq w) \<notin> c_id ` set (w_comps w)" "w_gen_id w (w_seq w) \<notin> a_id ` set (w_assets w)"
proof -
  have "w_gen_id w (w_seq w) \<notin> w_gen_id w ` {..<w_seq w}"
    using assms by (simp add: db_ok_def inj_image_mem_iff)
  with assms show "w_gen_id w (w_seq w) \<notin> c_id ` set (w_comps w)" "w_gen_id w (w_seq w) \<notin> a_id ` set (w_assets w)"
    unfolding db_ok_def by blast+
qed

text \<open>Writes that only touch blob-store rows, physical stores or side channels keep the schema.\<close>

lemma db_ok_cong:
  assumes "w_repos w' = w_repos w" "map bs_id (w_blobs w') = map bs_id (w_blobs w)"
    "map bs_name (w_blobs w') = map bs_name (w_blobs w)" "w_comps w' = w_comps w"
    "w_assets w' = w_assets w" "w_seq w' = w_seq w" "w_gen_id w' = w_gen_id w"
  shows "db_ok w' \<longleftrightarrow> db_ok w"
proof -
  have "bs_id ` set (w_blobs w') = bs_id ` set (w_blobs w)"
    using assms(2) by (metis list.set_map)
  with assms show ?thesis
    by (simp add: db_ok_def)
qed

lemma db_ok_update_used_bytes:
  "db_ok w \<Longrightarrow> blobs_update_used_bytes w name d n = Inr w' \<Longrightarrow> db_ok w'"
  by (subst db_ok_cong[of w' w])
    (auto simp: blobs_update_used_bytes_def upd_where_def split: if_splits)

lemma db_ok_filter_assets:
  "db_ok w \<Longrightarrow> db_ok (w\<lparr>w_assets := filter p (w_assets w)\<rparr>)"
  unfolding db_ok_def by (elim conjE, intro conjI) (auto simp: distinct_map_filter_key)

lemma db_ok_assets_delete: "db_ok w \<Longrightarrow> assets_delete w i n = Inr w' \<Longrightarrow> db_ok w'"
  by (auto simp: assets_delete_def db_ok_filter_assets)

lemma db_ok_delete_if_unchanged:
  "db_ok w \<Longrightarrow> assets_delete_if_unchanged w i k ld lm n = Inr (w', b) \<Longrightarrow> db_ok w'"
  by (auto simp: assets_delete_if_unchanged_def db_ok_filter_assets)

lemma db_ok_components_create:
  assumes "db_ok w" "components_create w c n = Inr (w', c')"
  shows "db_ok w'"
proof (cases "find (same_component c) (w_comps w)")
  case None
  have *: "c_repository_id c \<in> r_id ` set (w_repos w)"
    using assms(2) by (auto simp: components_create_def repo_by_id_None split: if_splits)
  from None assms(2) obtain row where w': "w' = w\<lparr>w_seq := Suc (w_seq w), w_comps := w_comps w @ [row]\<rparr>"
    and row: "c_id row = w_gen_id w (w_seq w)" "c_repository_id row = c_repository_id c"
    by (auto simp: components_create_def Let_def split: if_splits)
  show ?thesis
    using assms(1) fresh_id_not_used[OF assms(1)] * row unfolding db_ok_def w'
    by (elim conjE, intro conjI) (auto simp: lessThan_Suc)
next
  case (Some d)
  then have "w' = w\<lparr>w_comps := upd_where (\<lambda>r. c_id r = c_id d) (\<lambda>r. r\<lparr>c_extra := c_extra c\<rparr>) (w_comps w)\<rparr>"
    using assms(2) by (auto simp: components_create_def split: if_splits)
  with assms(1) show ?thesis
    by (simp add: db_ok_def table_simps)
qed

lemma upsert_asset_frame [simp]:
  "a_id (upsert_asset a t r) = a_id r" "a_path (upsert_asset a t r) = a_path r"
  "a_repository_id (upsert_asset a t r) = a_repository_id r"
  "a_component_id (upsert_asset a t r) = a_component_id r"
  "a_blob_store_id (upsert_asset a t r) = a_blob_store_id a"
  "a_blob_key (upsert_asset a t r) = a_blob_key a"
  "a_size_bytes (upsert_asset a t r) = a_size_bytes a"
  "a_last_modified (upsert_asset a t r) = t"
  by (simp_all add: upsert_asset_def)

abbreviation same_slot :: "asset \<Rightarrow> asset \<Rightarrow> bool" where
  "same_slot a r \<equiv> a_repository_id r = a_repository_id a \<and> a_path r = a_path a"

lemma assets_create_cases:
  assumes "assets_create w a n = Inr (w', a')"
  obtains (upd) old where "find (same_slot a) (w_assets w) = Some old" "asset_fks_ok w a"
      "w' = w\<lparr>w_assets := upd_where (\<lambda>r. a_id r = a_id old) (upsert_asset a (w_now w)) (w_assets w)\<rparr>"
      "a' = a\<lparr>a_id := a_id old, a_created_at := a_created_at old, a_last_modified := w_now w\<rparr>"
  | (ins) row where "find (same_slot a) (w_assets w) = None" "asset_fks_ok w a"
      "row = a\<lparr>a_id := w_gen_id w (w_seq w), a_created_at := w_now w, a_last_modified := w_now w,
         a_last_downloaded := None, a_download_count := 0\<rparr>"
      "w' = w\<lparr>w_seq := Suc (w_seq w), w_assets := w_assets w @ [row]\<rparr>"
      "a' = a\<lparr>a_id := w_gen_id w (w_seq w), a_created_at := w_now w, a_last_modified := w_now w\<rparr>"
proof (cases "find (same_slot a) (w_assets w)")
  case None
  with assms have fk: "asset_fks_ok w a"
    by (simp add: assets_create_def split: if_splits)
  show ?thesis
    by (rule ins[OF None fk refl]) (use None fk assms in \<open>auto simp: assets_create_def Let_def\<close>)
next
  case (Some old)
  with assms have fk: "asset_fks_ok w a"
    by (simp add: assets_create_def split: if_splits)
  show ?thesis
    by (rule upd[OF Some fk]) (use Some fk assms in \<open>simp_all add: assets_create_def\<close>)
qed

lemma db_ok_assets_create:
  assumes "db_ok w" "assets_create w a n = Inr (w', a')"
  shows "db_ok w'"
  using assms(2)
proof (cases rule: assets_create_cases)
  case (upd old)
  have "a_blob_store_id ` set (upd_where (\<lambda>r. a_id r = a_id old) (upsert_asset a (w_now w)) (w_assets w))
      \<subseteq> bs_id ` set (w_blobs w)"
  proof (rule order_trans[OF image_upd_where_const])
    show "insert (a_blob_store_id a) (a_blob_store_id ` set (w_assets w)) \<subseteq> bs_id ` set (w_blobs w)"
      using upd(2) assms(1) by (simp add: db_ok_def asset_fks_ok_alt)
  qed simp
  with upd assms(1) show ?thesis
    by (simp add: db_ok_def table_simps)
next
  case (ins row)
  have row: "a_id row = w_gen_id w (w_seq w)" "a_component_id row = a_component_id a" "a_path row = a_path a"
    "a_repository_id row = a_repository_id a" "a_blob_store_id row = a_blob_store_id a"
    using ins(3) by simp_all
  have new: "(a_repository_id a, a_path a) \<notin> (\<lambda>a. (a_repository_id a, a_path a)) ` set (w_assets w)"
    using ins(1) by (auto simp: find_None_iff)
  show ?thesis
    using assms(1) fresh_id_not_used[OF assms(1)] row new ins(2)
    unfolding ins(4) db_ok_def asset_fks_ok_alt
    by (elim conjE, intro conjI) (auto simp: lessThan_Suc)
qed

lemma db_ok_filter_comps:
  assumes "db_ok w" "\<And>a. a \<in> set (w_assets w) \<Longrightarrow> q a \<Longrightarrow> \<exists>c\<in>set (w_comps w). c_id c = a_component_id a \<and> p c"
  shows "db_ok (w\<lparr>w_comps := filter p (w_comps w), w_assets := filter q (w_assets w)\<rparr>)"
proof -
  have "a_component_id ` set (filter q (w_assets w)) \<subseteq> c_id ` set (filter p (w_comps w))"
    using assms(2) by (force simp: image_iff)
  with assms(1) show ?thesis
    unfolding db_ok_def by (elim conjE, intro conjI) (auto simp: distinct_map_filter_key)
qed

lemma asset_component:
  assumes "db_ok w" "a \<in> set (w_assets w)"
  shows "\<exists>c\<in>set (w_comps w). c_id c = a_component_id a"
proof -
  have "a_component_id ` set (w_assets w) \<subseteq> c_id ` set (w_comps w)"
    using assms(1) unfolding db_ok_def by (elim conjE)
  with assms(2) show ?thesis by fastforce
qed

lemma db_ok_components_delete:
  assumes "db_ok w" "components_delete w i n = Inr w'"
  shows "db_ok w'"
proof -
  have "db_ok (w\<lparr>w_comps := filter (\<lambda>c. c_id c \<noteq> i) (w_comps w),
      w_assets := filter (\<lambda>a. a_component_id a \<noteq> i) (w_assets w)\<rparr>)"
    by (rule db_ok_filter_comps[OF assms(1)]) (metis asset_component[OF assms(1)])
  then show ?thesis using assms(2) by (simp add: components_delete_def)
qed

lemma db_ok_components_delete_orphans:
  assumes "db_ok w" "components_delete_orphans w repo n = Inr w'"
  shows "db_ok w'"
proof -
  let ?p = "\<lambda>c. \<not> (comp_in_repos w [repo] c \<and> (\<forall>a\<in>set (w_assets w). a_component_id a \<noteq> c_id c))"
  have "db_ok (w\<lparr>w_comps := filter ?p (w_comps w), w_assets := filter (\<lambda>_. True) (w_assets w)\<rparr>)"
  proof (rule db_ok_filter_comps[OF assms(1)])
    fix a assume a: "a \<in> set (w_assets w)"
    then obtain c where "c \<in> set (w_comps w)" "c_id c = a_component_id a"
      using asset_component[OF assms(1)] by blast
    with a show "\<exists>c\<in>set (w_comps w). c_id c = a_component_id a \<and> ?p c" by metis
  qed
  then show ?thesis using assms(2) by (simp add: components_delete_orphans_def)
qed

lemma db_ok_components_update_extra:
  assumes "db_ok w" "components_update_extra w i e n = Inr w'"
  shows "db_ok w'"
proof -
  have "w' = w\<lparr>w_comps := upd_where (\<lambda>c. c_id c = i)
      (\<lambda>c. c\<lparr>c_extra := fold (\<lambda>(k, v). AList.update k v) e (c_extra c)\<rparr>) (w_comps w)\<rparr>"
    using assms(2) by (simp add: components_update_extra_def)
  with assms(1) show ?thesis by (simp add: db_ok_def table_simps)
qed

lemmas db_ok_writes = db_ok_update_used_bytes db_ok_assets_delete db_ok_delete_if_unchanged
  db_ok_components_create db_ok_assets_create db_ok_components_delete db_ok_components_delete_orphans

text \<open>An error that is dropped with \<^verbatim>\<open>_ =\<close>: the state is the one the call left.\<close>

definition best_effort :: "world \<Rightarrow> world result \<Rightarrow> world" where
  "best_effort w r = (case r of Inr w' \<Rightarrow> w' | Inl _ \<Rightarrow> w)"

lemma best_effort_simps [simp]: "best_effort w (Inr w') = w'" "best_effort w (Inl e) = w"
  by (simp_all add: best_effort_def)

section \<open>Database steps\<close>

text \<open>
  What every write of the modelled services leaves alone: repositories, the static columns of the
  blob stores, the physical stores and the environment; and the schema's invariant is kept.
\<close>

definition bs_static :: "blob_store \<Rightarrow> blob_store" where
  "bs_static b = b\<lparr>bs_used_bytes := 0\<rparr>"

definition db_step :: "world \<Rightarrow> world \<Rightarrow> bool" where
  "db_step w w' \<longleftrightarrow>
     w_repos w' = w_repos w \<and> map bs_static (w_blobs w') = map bs_static (w_blobs w) \<and>
     w_phys w' = w_phys w \<and> w_gen_id w' = w_gen_id w \<and> w_uuid_ok w' = w_uuid_ok w \<and>
     w_now w' = w_now w \<and> w_fault w' = w_fault w \<and> (db_ok w \<longrightarrow> db_ok w')"

lemma db_step_refl [simp]: "db_step w w"
  by (simp add: db_step_def)

lemma db_step_trans [trans]: "db_step w w' \<Longrightarrow> db_step w' w'' \<Longrightarrow> db_step w w''"
  by (simp add: db_step_def)

lemma db_step_rr [simp]: "db_step w (w\<lparr>w_rr := rr\<rparr>)"
  and db_step_scans [simp]: "db_step w (w\<lparr>w_scans := sc\<rparr>)"
  and db_step_events [simp]: "db_step w (w\<lparr>w_events := ev\<rparr>)"
  and db_step_downloads [simp]: "db_step w (w\<lparr>w_downloads := dl\<rparr>)"
  by (simp_all add: db_step_def db_ok_def)

lemma upd_used_static:
  "map bs_static (upd_where p (\<lambda>b. b\<lparr>bs_used_bytes := f b\<rparr>) bs) = map bs_static bs"
  by (simp add: upd_where_def bs_static_def)

lemma db_step_update_used_bytes:
  assumes "blobs_update_used_bytes w name d n = Inr w'"
  shows "db_step w w'"
proof -
  have "db_ok w \<longrightarrow> db_ok w'" using assms db_ok_update_used_bytes by blast
  with assms show ?thesis
    by (auto simp: db_step_def blobs_update_used_bytes_def upd_used_static split: if_splits)
qed

lemma db_step_components_create:
  assumes "components_create w c n = Inr (w', c')"
  shows "db_step w w'" "w_assets w' = w_assets w" "w_blobs w' = w_blobs w"
proof -
  have "db_ok w \<longrightarrow> db_ok w'" using assms db_ok_components_create by blast
  with assms show "db_step w w'"
    by (auto simp: db_step_def components_create_def Let_def split: if_splits option.splits)
  show "w_assets w' = w_assets w" "w_blobs w' = w_blobs w" using assms
    by (auto simp: components_create_def Let_def split: if_splits option.splits)
qed

lemma db_step_assets_create:
  assumes "assets_create w a n = Inr (w', a')"
  shows "db_step w w'" "w_blobs w' = w_blobs w"
proof -
  have "db_ok w \<longrightarrow> db_ok w'" using assms db_ok_assets_create by blast
  with assms show "db_step w w'" "w_blobs w' = w_blobs w"
    by (auto simp: db_step_def assets_create_def Let_def split: if_splits option.splits)
qed

lemma db_step_assets_delete:
  assumes "assets_delete w i n = Inr w'"
  shows "db_step w w'"
  using assms by (auto simp: db_step_def assets_delete_def db_ok_filter_assets)

lemma db_step_delete_if_unchanged:
  assumes "assets_delete_if_unchanged w i k ld lm n = Inr (w', b)"
  shows "db_step w w'"
  using assms by (auto simp: db_step_def assets_delete_if_unchanged_def db_ok_filter_assets)

lemma db_step_components_delete_orphans:
  assumes "components_delete_orphans w repo n = Inr w'"
  shows "db_step w w'"
proof -
  have "db_ok w \<longrightarrow> db_ok w'" using assms db_ok_components_delete_orphans by blast
  with assms show ?thesis by (auto simp: db_step_def components_delete_orphans_def)
qed

lemma db_step_components_update_extra:
  assumes "components_update_extra w i e n = Inr w'"
  shows "db_step w w'" "w_assets w' = w_assets w"
proof -
  have "db_ok w \<longrightarrow> db_ok w'" using assms db_ok_components_update_extra by blast
  with assms show "db_step w w'" "w_assets w' = w_assets w" by (auto simp: db_step_def components_update_extra_def)
qed

lemmas db_step_writes = db_step_update_used_bytes db_step_components_create(1) db_step_assets_create(1)
  db_step_assets_delete db_step_delete_if_unchanged db_step_components_delete_orphans

lemma db_step_best_effort:
  "(\<And>w'. r = Inr w' \<Longrightarrow> db_step w w') \<Longrightarrow> db_step w (best_effort w r)"
  by (cases r) simp_all

lemma with_blob_key_lock_rel:
  assumes "with_blob_key_lock w key n f = (w', r)" "P w" "\<And>w' r. f w = (w', r) \<Longrightarrow> P w'"
  shows "P w'"
  using assms by (auto simp: with_blob_key_lock_def split: if_splits prod.splits sum.splits)

lemma with_blob_key_lock_ok:
  assumes "with_blob_key_lock w key n f = (w', Inr x)"
  shows "f w = (w', Inr x)"
  using assms by (auto simp: with_blob_key_lock_def split: if_splits prod.splits sum.splits)

lemma db_step_blob_names:
  assumes "db_step w w'"
  shows "map bs_id (w_blobs w') = map bs_id (w_blobs w)" "map bs_name (w_blobs w') = map bs_name (w_blobs w)"
proof -
  have "map (f \<circ> bs_static) (w_blobs w') = map (f \<circ> bs_static) (w_blobs w)" for f :: "blob_store \<Rightarrow> string"
    using assms by (metis db_step_def map_map)
  from this[of bs_id] this[of bs_name]
  show "map bs_id (w_blobs w') = map bs_id (w_blobs w)" "map bs_name (w_blobs w') = map bs_name (w_blobs w)"
    by (simp_all add: comp_def bs_static_def)
qed

end
