(* ===== verification/Storage.thy ===== *)
theory Storage
  imports Repository_DB
begin

text \<open>
  The storage layer of \<^verbatim>\<open>internal/storage\<close>: the \<^verbatim>\<open>BlobStore\<close> interface as a contract over an
  abstract key-value map, its in-memory representation used by the rest of the model, the
  fallible calls the services make, and the registry that opens physical stores and picks a
  member of a group store.
\<close>

section \<open>The BlobStore interface\<close>

text \<open>
  The laws a backend promises: what was put is read back, a deleted key is gone, other keys are
  untouched, and the listing names exactly the stored keys with their sizes.
\<close>

locale blob_store_contract =
  fixes put :: "'s \<Rightarrow> string \<Rightarrow> 'b \<Rightarrow> 's"
    and get :: "'s \<Rightarrow> string \<Rightarrow> 'b option"
    and del :: "'s \<Rightarrow> string \<Rightarrow> 's"
  assumes get_put: "get (put s k v) = (get s)(k \<mapsto> v)"
    and get_del: "get (del s k) = (get s)(k := None)"
begin

lemma get_put_same: "get (put s k v) k = Some v"
  by (simp add: get_put)

lemma get_put_other: "k' \<noteq> k \<Longrightarrow> get (put s k v) k' = get s k'"
  by (simp add: get_put)

lemma get_del_other: "k' \<noteq> k \<Longrightarrow> get (del s k) k' = get s k'"
  by (simp add: get_del)

lemma del_absent: "get s k = None \<Longrightarrow> get (del s k) = get s"
  by (auto simp: get_del)

lemma del_twice: "get (del (del s k) k) = get (del s k)"
  by (simp add: get_del)

lemma del_put: "get (del (put s k v) k) = (get s)(k := None)"
  by (simp add: get_put get_del)

text \<open>Deleting a list of keys, one after the other, removes exactly those keys.\<close>

lemma get_del_list: "get (fold (\<lambda>k s. del s k) ks s) k = (if k \<in> set ks then None else get s k)"
  by (induction ks arbitrary: s) (auto simp: get_del)

end

locale listable_store = blob_store_contract put get del
  for put :: "'s \<Rightarrow> string \<Rightarrow> 'b \<Rightarrow> 's" and get :: "'s \<Rightarrow> string \<Rightarrow> 'b option"
    and del :: "'s \<Rightarrow> string \<Rightarrow> 's" +
  fixes entries :: "'s \<Rightarrow> (string \<times> 'b) list"
    and invar :: "'s \<Rightarrow> bool"
  assumes entries_get: "invar s \<Longrightarrow> (k, v) \<in> set (entries s) \<longleftrightarrow> get s k = Some v"
    and entries_distinct: "invar s \<Longrightarrow> distinct (map fst (entries s))"
    and invar_put: "invar s \<Longrightarrow> invar (put s k v)"
    and invar_del: "invar s \<Longrightarrow> invar (del s k)"
begin

lemma invar_del_list: "invar s \<Longrightarrow> invar (fold (\<lambda>k s. del s k) ks s)"
  by (induction ks arbitrary: s) (auto simp: invar_del)

lemma entries_keys: "invar s \<Longrightarrow> k \<in> fst ` set (entries s) \<longleftrightarrow> get s k \<noteq> None"
  using entries_get by force

end

section \<open>The representation\<close>

definition put_blob :: "pstore \<Rightarrow> string \<Rightarrow> blob \<Rightarrow> pstore" where
  "put_blob s k b = AList.update k b s"

definition get_blob :: "pstore \<Rightarrow> string \<Rightarrow> blob option" where
  "get_blob s k = map_of s k"

definition del_blob :: "pstore \<Rightarrow> string \<Rightarrow> pstore" where
  "del_blob s k = AList.delete k s"

definition pstore_ok :: "pstore \<Rightarrow> bool" where
  "pstore_ok s \<longleftrightarrow> distinct (map fst s)"

interpretation bs: listable_store put_blob get_blob del_blob "\<lambda>s. s" pstore_ok
proof
  fix s :: pstore and k k' v
  show "get_blob (put_blob s k v) = (get_blob s)(k \<mapsto> v)"
    by (simp add: get_blob_def put_blob_def map_of_AList_update fun_eq_iff)
  show "get_blob (del_blob s k) = (get_blob s)(k := None)"
    by (simp add: get_blob_def del_blob_def map_of_AList_delete fun_eq_iff)
  show "pstore_ok s \<Longrightarrow> (k, v) \<in> set s \<longleftrightarrow> get_blob s k = Some v"
    by (simp add: pstore_ok_def get_blob_def)
  show "pstore_ok s \<Longrightarrow> distinct (map fst s)"
    by (simp add: pstore_ok_def)
  show "pstore_ok s \<Longrightarrow> pstore_ok (put_blob s k v)"
    by (simp add: pstore_ok_def put_blob_def distinct_update)
  show "pstore_ok s \<Longrightarrow> pstore_ok (del_blob s k)"
    by (simp add: pstore_ok_def del_blob_def distinct_delete)
qed

definition blob_size :: "blob \<Rightarrow> int" where
  "blob_size b = int (length (b_data b))"

section \<open>Fallible calls\<close>

text \<open>
  The calls services make on a store. \<^verbatim>\<open>Put\<close> stages and publishes atomically, so a failed put
  leaves the store as it was; a full disk is reported as \<open>ErrNoSpace\<close>. \<^verbatim>\<open>Delete\<close> of a missing key
  succeeds; \<^verbatim>\<open>Get\<close> and \<^verbatim>\<open>Size\<close> of one fail.
\<close>

definition store_blob :: "world \<Rightarrow> store_ref \<Rightarrow> string \<Rightarrow> blob option" where
  "store_blob w ref k = get_blob (w_phys w ref) k"

definition set_store :: "world \<Rightarrow> store_ref \<Rightarrow> pstore \<Rightarrow> world" where
  "set_store w ref s = w\<lparr>w_phys := (w_phys w)(ref := s)\<rparr>"

definition store_put :: "world \<Rightarrow> store_ref \<Rightarrow> string \<Rightarrow> string \<Rightarrow> nat \<Rightarrow> world result" where
  "store_put w ref k data n =
     (if w_fault w ''Store.Put.ENOSPC'' k n then Inl (Wrapped ''no space'' ErrNoSpace)
      else guard_io w ''Store.Put'' k n
        (Inr (set_store w ref (put_blob (w_phys w ref) k \<lparr>b_data = data, b_mod_time = w_now w\<rparr>))))"

definition store_get :: "world \<Rightarrow> store_ref \<Rightarrow> string \<Rightarrow> nat \<Rightarrow> string result" where
  "store_get w ref k n = guard_io w ''Store.Get'' k n
     (case store_blob w ref k of Some b \<Rightarrow> Inr (b_data b) | None \<Rightarrow> Inl ErrIO)"

definition store_delete :: "world \<Rightarrow> store_ref \<Rightarrow> string \<Rightarrow> nat \<Rightarrow> world result" where
  "store_delete w ref k n = guard_io w ''Store.Delete'' k n
     (Inr (set_store w ref (del_blob (w_phys w ref) k)))"

definition store_exists :: "world \<Rightarrow> store_ref \<Rightarrow> string \<Rightarrow> nat \<Rightarrow> bool result" where
  "store_exists w ref k n = guard_io w ''Store.Exists'' k n (Inr (store_blob w ref k \<noteq> None))"

definition store_size :: "world \<Rightarrow> store_ref \<Rightarrow> string \<Rightarrow> nat \<Rightarrow> int result" where
  "store_size w ref k n = guard_io w ''Store.Size'' k n
     (case store_blob w ref k of Some b \<Rightarrow> Inr (blob_size b) | None \<Rightarrow> Inl ErrIO)"

record blob_entry =
  e_key :: string
  e_size :: int
  e_mod_time :: time

definition store_list_entries :: "world \<Rightarrow> store_ref \<Rightarrow> nat \<Rightarrow> blob_entry list result" where
  "store_list_entries w ref n = guard_io w ''Store.ListEntries'' [] n
     (Inr (map (\<lambda>(k, b). \<lparr>e_key = k, e_size = blob_size b, e_mod_time = b_mod_time b\<rparr>) (w_phys w ref)))"

lemma set_store_simps [simp]:
  "w_repos (set_store w r s) = w_repos w" "w_blobs (set_store w r s) = w_blobs w"
  "w_comps (set_store w r s) = w_comps w" "w_assets (set_store w r s) = w_assets w"
  "w_seq (set_store w r s) = w_seq w" "w_gen_id (set_store w r s) = w_gen_id w"
  "w_uuid_ok (set_store w r s) = w_uuid_ok w" "w_now (set_store w r s) = w_now w"
  "w_fault (set_store w r s) = w_fault w" "w_rr (set_store w r s) = w_rr w"
  "w_events (set_store w r s) = w_events w" "w_downloads (set_store w r s) = w_downloads w"
  "w_scans (set_store w r s) = w_scans w" "w_phys (set_store w r s) = (w_phys w)(r := s)"
  by (simp_all add: set_store_def)

lemma store_blob_set [simp]:
  "store_blob (set_store w r s) r' k = (if r' = r then get_blob s k else store_blob w r' k)"
  by (simp add: store_blob_def)

lemma store_delete_ok [simp]:
  "store_delete w r k n = Inr w' \<longleftrightarrow>
    \<not> w_fault w ''Store.Delete'' k n \<and> w' = set_store w r (del_blob (w_phys w r) k)"
  by (auto simp: store_delete_def)

lemma store_put_ok:
  "store_put w r k d n = Inr w' \<Longrightarrow>
    w' = set_store w r (put_blob (w_phys w r) k \<lparr>b_data = d, b_mod_time = w_now w\<rparr>)"
  by (auto simp: store_put_def split: if_splits)

lemma store_blob_delete:
  "store_delete w r k n = Inr w' \<Longrightarrow>
    store_blob w' r' k' = (if r' = r \<and> k' = k then None else store_blob w r' k')"
  by (auto simp: bs.get_del store_blob_def)

lemma store_blob_put:
  "store_put w r k d n = Inr w' \<Longrightarrow>
    store_blob w' r' k' = (if r' = r \<and> k' = k then Some \<lparr>b_data = d, b_mod_time = w_now w\<rparr> else store_blob w r' k')"
  by (auto dest!: store_put_ok simp: bs.get_put store_blob_def)

section \<open>The registry\<close>

text \<open>\<^verbatim>\<open>newFromDescriptor\<close>: which descriptors can be opened.\<close>

definition str_val :: "config \<Rightarrow> string \<Rightarrow> string" where
  "str_val m k = any_str (cfg_get m k)"

definition open_descriptor :: "world \<Rightarrow> blob_store \<Rightarrow> nat \<Rightarrow> store_ref result" where
  "open_descriptor w b n =
     (if bs_type b = ''s3'' then
        (if str_val (bs_config b) ''bucket'' = [] then Inl (ErrMsg ''s3 blob store: bucket is required'')
         else guard_io w ''Registry.Get'' (bs_id b) n (Inr (StoreOf (bs_id b))))
      else if bs_type b = ''local'' \<or> bs_type b = [] then
        guard_io w ''Registry.Get'' (bs_id b) n (Inr (StoreOf (bs_id b)))
      else Inl (ErrMsg ''unknown blob store type''))"

text \<open>
  \<^verbatim>\<open>Registry.Get\<close>. The registry keeps the instance it opened for an id; the instance is named by
  the id, so a cached answer and a fresh one are the same handle.
\<close>

definition registry_get :: "world \<Rightarrow> blob_store \<Rightarrow> nat \<Rightarrow> store_ref result" where
  "registry_get w b n = (if bs_id b = [] then Inr DefaultStore else open_descriptor w b n)"

lemma registry_get_ref: "registry_get w row n = Inr ref \<Longrightarrow> ref = (if bs_id row = [] then DefaultStore else StoreOf (bs_id row))"
  by (auto simp: registry_get_def open_descriptor_def split: if_splits)

section \<open>What an asset reads\<close>

definition ref_of :: "string \<Rightarrow> store_ref" where
  "ref_of sid = (if sid = [] then DefaultStore else StoreOf sid)"

lemma ref_of_inj [simp]: "ref_of s = ref_of t \<longleftrightarrow> s = t"
  by (simp add: ref_of_def)

definition data_at :: "world \<Rightarrow> store_ref \<Rightarrow> string \<Rightarrow> string option" where
  "data_at w ref k = map_option b_data (store_blob w ref k)"

definition asset_data :: "world \<Rightarrow> asset \<Rightarrow> string option" where
  "asset_data w a = data_at w (ref_of (a_blob_store_id a)) (a_blob_key a)"

lemma data_at_set_store: "data_at (set_store w r s) r' k = (if r' = r then map_option b_data (get_blob s k) else data_at w r' k)"
  by (simp add: data_at_def)

lemma data_at_cong: "w_phys w' = w_phys w \<Longrightarrow> data_at w' = data_at w"
  by (simp add: data_at_def store_blob_def fun_eq_iff)

lemma store_size_ok: "store_size w ref k n = Inr c \<longleftrightarrow> \<not> w_fault w ''Store.Size'' k n \<and> (\<exists>d. data_at w ref k = Some d \<and> c = int (length d))"
  by (auto simp: store_size_def data_at_def blob_size_def split: option.splits)

lemma store_get_ok: "store_get w ref k n = Inr d \<longleftrightarrow> \<not> w_fault w ''Store.Get'' k n \<and> data_at w ref k = Some d"
  by (auto simp: store_get_def data_at_def split: option.splits)

lemma store_exists_ok: "store_exists w ref k n = Inr b \<longleftrightarrow> \<not> w_fault w ''Store.Exists'' k n \<and> (b \<longleftrightarrow> data_at w ref k \<noteq> None)"
  by (auto simp: store_exists_def data_at_def)

lemma data_at_put: "store_put w r k d n = Inr w' \<Longrightarrow> data_at w' r' k' = (if r' = r \<and> k' = k then Some d else data_at w r' k')"
  by (simp add: data_at_def store_blob_put)

lemma data_at_delete: "store_delete w r k n = Inr w' \<Longrightarrow> data_at w' r' k' = (if r' = r \<and> k' = k then None else data_at w r' k')"
  by (auto simp: data_at_def store_blob_delete simp del: store_delete_ok)

lemma blobs_get_by_id_ok: "blobs_get_by_id w i n = Inr b \<Longrightarrow> b \<in> set (w_blobs w) \<and> bs_id b = i"
  by (auto simp: blobs_get_by_id_def row_or_not_found_def split: option.splits dest: find_SomeD)

lemma registry_get_ref_of: "registry_get w b n = Inr ref \<Longrightarrow> ref = ref_of (bs_id b)"
  using registry_get_ref by (simp add: ref_of_def)

definition openable :: "blob_store \<Rightarrow> bool" where
  "openable b \<longleftrightarrow> bs_id b = [] \<or> bs_type b = ''local'' \<or> bs_type b = [] \<or> (bs_type b = ''s3'' \<and> str_val (bs_config b) ''bucket'' \<noteq> [])"

lemma openable_ok: "w_fault w = no_faults \<Longrightarrow> openable b \<Longrightarrow> registry_get w b n = Inr (ref_of (bs_id b))"
  by (auto simp: openable_def registry_get_def open_descriptor_def guard_io_def ref_of_def)

section \<open>Picking a group member\<close>

record member_info =
  m_id :: string
  m_quota_bytes :: "int option"
  m_used_bytes :: int

definition has_capacity :: "member_info \<Rightarrow> bool" where
  "has_capacity m \<longleftrightarrow> (case m_quota_bytes m of None \<Rightarrow> True | Some q \<Rightarrow> m_used_bytes m < q)"

text \<open>
  The round-robin counters are 64-bit and wrap; the index of the i-th probe is
  \<^verbatim>\<open>(start+i)%n\<close> in \<^verbatim>\<open>uint64\<close> arithmetic.
\<close>

definition probe :: "64 word \<Rightarrow> nat \<Rightarrow> nat \<Rightarrow> nat" where
  "probe start n i = unat ((start + word_of_nat i) mod word_of_nat n)"

definition pick_member ::
    "(string \<Rightarrow> 64 word) \<Rightarrow> string \<Rightarrow> string \<Rightarrow> member_info list \<Rightarrow> (string \<Rightarrow> 64 word) \<times> string" where
  "pick_member rr groupID policy members =
     (if members = [] then (rr, [])
      else if policy = ''round_robin'' then
        (let start = rr groupID; rr' = rr(groupID := start + 1); n = length members
         in case find (\<lambda>i. has_capacity (members ! probe start n i)) [0..<n] of
              Some i \<Rightarrow> (rr', m_id (members ! probe start n i))
            | None \<Rightarrow> (rr', []))
      else (case find has_capacity members of Some m \<Rightarrow> (rr, m_id m) | None \<Rightarrow> (rr, [])))"

lemma unat_word_of_nat_len: "length (members :: 'a list) < 2 ^ 64 \<Longrightarrow> unat (word_of_nat (length members) :: 64 word) = length members"
  by (simp add: unat_of_nat take_bit_eq_mod)

lemma probe_less:
  assumes "0 < n" "n < 2 ^ 64"
  shows "probe start n i < n"
proof -
  have n: "unat (word_of_nat n :: 64 word) = n"
    using assms by (simp add: unat_of_nat take_bit_eq_mod)
  have "unat ((start + word_of_nat i) mod (word_of_nat n :: 64 word)) < unat (word_of_nat n :: 64 word)"
    using assms n by (simp add: unat_mod)
  with n show ?thesis by (simp add: probe_def)
qed

lemma probe_eq:
  assumes "0 < n" "unat start + n \<le> 2 ^ 64" "i < n"
  shows "probe start n i = (unat start + i) mod n"
proof -
  have "n < 2 ^ 64 \<or> unat start = 0" using assms(2) by auto
  have "unat (start + word_of_nat i) = unat start + i"
    using assms by (simp add: unat_word_ariths unat_of_nat take_bit_eq_mod)
  moreover have "unat (word_of_nat n :: 64 word) = n" if "n < 2 ^ 64"
    using that by (simp add: unat_of_nat take_bit_eq_mod)
  moreover have "(start + word_of_nat i) mod 0 = start + word_of_nat i" by simp
  ultimately show ?thesis
  proof (cases "n < 2 ^ 64")
    case False
    then have n: "n = 2 ^ 64" and s: "unat start = 0" using assms(2) by auto
    then have "(word_of_nat n :: 64 word) = 0"
      by (simp add: word_of_nat_eq_0_iff)
    with s \<open>unat (start + word_of_nat i) = unat start + i\<close> assms(3) show ?thesis by (simp add: probe_def)
  qed (simp add: probe_def unat_mod)
qed

lemma probe_covers:
  assumes "0 < n" "unat start + n \<le> 2 ^ 64" "j < n"
  obtains i where "i < n" "probe start n i = j"
proof
  let ?i = "(j + n - unat start mod n) mod n"
  show "?i < n" using assms by simp
  then have "probe start n ?i = (unat start + ?i) mod n"
    using assms by (simp add: probe_eq)
  also have "\<dots> = (unat start mod n + (j + n - unat start mod n)) mod n"
    by (simp add: mod_simps)
  also have "\<dots> = (j + n) mod n"
    using mod_less_divisor[of n "unat start"] assms by (simp add: less_imp_le trans_le_add2)
  finally show "probe start n ?i = j" using assms by simp
qed

text \<open>A member that is picked has room, whatever the counter holds.\<close>

lemma pick_member_sound:
  assumes "pick_member rr g policy members = (rr', i)" "i \<noteq> []" "length members < 2 ^ 64"
  shows "\<exists>m\<in>set members. m_id m = i \<and> has_capacity m"
proof (cases "policy = ''round_robin''")
  case True
  from assms(1,2) True obtain k where k: "find (\<lambda>i. has_capacity (members ! probe (rr g) (length members) i)) [0..<length members] = Some k"
    and i: "i = m_id (members ! probe (rr g) (length members) k)"
    by (auto simp: pick_member_def Let_def split: if_splits option.splits)
  from k have "has_capacity (members ! probe (rr g) (length members) k)" "members \<noteq> []"
    using find_SomeD by fastforce+
  moreover have "probe (rr g) (length members) k < length members"
    using \<open>members \<noteq> []\<close> assms(3) by (intro probe_less) auto
  ultimately show ?thesis using i by (metis nth_mem)
next
  case False
  with assms show ?thesis
    by (auto simp: pick_member_def split: if_splits option.splits dest!: find_SomeD)
qed

text \<open>A member with room is found whenever there is one, up to counter overflow.\<close>

lemma pick_member_complete:
  assumes "m \<in> set members" "has_capacity m" "\<forall>m\<in>set members. m_id m \<noteq> []"
    and "policy = ''round_robin'' \<longrightarrow> unat (rr g) + length members \<le> 2 ^ 64"
  shows "snd (pick_member rr g policy members) \<noteq> []"
proof (cases "policy = ''round_robin''")
  case True
  let ?n = "length members"
  have n: "0 < ?n" using assms(1) by (cases members) auto
  obtain j where j: "j < ?n" "members ! j = m" using assms(1) by (metis in_set_conv_nth)
  obtain i where i: "i < ?n" "probe (rr g) ?n i = j"
    using probe_covers[OF n _ j(1), of "rr g"] assms(4) True by auto
  then have "find (\<lambda>i. has_capacity (members ! probe (rr g) ?n i)) [0..<?n] \<noteq> None"
    using j assms(2) by (auto simp: find_None_iff)
  then obtain k where k: "find (\<lambda>i. has_capacity (members ! probe (rr g) ?n i)) [0..<?n] = Some k" by auto
  then have "k < ?n" using find_SomeD by fastforce
  then have "members ! probe (rr g) ?n k \<in> set members"
    using probe_eq[OF n] assms(4) True n by simp
  with assms(3) k True n show ?thesis by (auto simp: pick_member_def Let_def)
next
  case False
  have "find has_capacity members \<noteq> None" using assms(1,2) by (auto simp: find_None_iff)
  with False assms(1,3) show ?thesis
    by (auto simp: pick_member_def split: option.splits dest!: find_SomeD)
qed

end
