(* ===== verification/Base_Store.thy ===== *)
theory Base_Store
  imports Storage
begin

text \<open>
  The shared artifact store of \<^verbatim>\<open>internal/formats/base/store.go\<close>: every format handler writes,
  reads and deletes artifacts through it. The model follows the Go functions one by one; the
  invariants it is about are the schema, the quotas, and that a database row never outlives its
  bytes.
\<close>

section \<open>Dependencies\<close>

text \<open>
  \<^verbatim>\<open>formats.Deps\<close>: which optional collaborators are configured, the digests of
  \<^verbatim>\<open>crypto/sha256\<close>, \<^verbatim>\<open>sha1\<close> and \<^verbatim>\<open>md5\<close> (as hexadecimal strings), and the authenticated user of the
  request context.
\<close>

record deps =
  d_registry :: bool
  d_webhooks :: bool
  d_downloads :: bool
  d_scanner :: bool
  d_sha256 :: "string \<Rightarrow> string"
  d_sha1 :: "string \<Rightarrow> string"
  d_md5 :: "string \<Rightarrow> string"
  d_user_id :: string

record coords =
  co_group :: string
  co_name :: string
  co_version :: string

record store_result =
  sr_asset :: asset
  sr_sha256 :: string
  sr_sha1 :: string
  sr_md5 :: string
  sr_size :: int

definition HTTPStatusForError :: "err \<Rightarrow> nat" where
  "HTTPStatusForError e =
     (if err_is e ErrQuotaExceeded \<or> err_is e ErrNoSpace then 507
      else if err_is e ErrSizeMismatch then 400 else 500)"

section \<open>Resolving the blob store of a repository\<close>

definition DefaultBlobStore :: "world \<Rightarrow> nat \<Rightarrow> blob_store result" where
  "DefaultBlobStore w n =
     (case blobs_get w ''default'' n of
        Inr bs \<Rightarrow> Inr bs
      | Inl e \<Rightarrow>
          if \<not> err_is e ErrNotFound then Inl (Wrapped ''blob store'' e)
          else (case blobs_list w n of
              Inl e' \<Rightarrow> Inl (Wrapped ''list blob stores'' e')
            | Inr [] \<Rightarrow> Inl (ErrMsg ''no blob store configured'')
            | Inr [bs] \<Rightarrow> Inr bs
            | Inr _ \<Rightarrow> Inl (ErrMsg ''no blob store named default and several to choose from'')))"

definition resolveBlobStoreObj :: "world \<Rightarrow> repository \<Rightarrow> nat \<Rightarrow> blob_store result" where
  "resolveBlobStoreObj w repo n =
     (let ref = (case r_blob_store_id repo of Some i \<Rightarrow> trim_space i | None \<Rightarrow> [])
      in if ref \<noteq> [] then
           (case blobs_get_by_id w ref n of
              Inl e \<Rightarrow> Inl (Wrapped ''blob store'' e)
            | Inr bs \<Rightarrow> Inr bs)
         else DefaultBlobStore w n)"

fun any_strs :: "goany list \<Rightarrow> string list" where
  "any_strs [] = []"
| "any_strs (AnyStr s # xs) = s # any_strs xs"
| "any_strs (_ # xs) = any_strs xs"

definition groupMemberIDs :: "blob_store \<Rightarrow> string list" where
  "groupMemberIDs bs =
     (case cfg_get (bs_config bs) ''member_ids'' of
        AnyStrs v \<Rightarrow> v
      | AnyList v \<Rightarrow> any_strs v
      | _ \<Rightarrow> [])"

definition groupFillPolicy :: "blob_store \<Rightarrow> string" where
  "groupFillPolicy bs =
     (case cfg_get (bs_config bs) ''fill_policy'' of
        AnyStr p \<Rightarrow> if p \<noteq> [] then p else ''round_robin''
      | _ \<Rightarrow> ''round_robin'')"

fun load_members :: "world \<Rightarrow> string list \<Rightarrow> nat \<Rightarrow> blob_store list" where
  "load_members w [] n = []"
| "load_members w (i # is) n =
     (case blobs_get_by_id w i n of
        Inr m \<Rightarrow> m # load_members w is n
      | Inl _ \<Rightarrow> load_members w is n)"

definition member_info_of :: "blob_store \<Rightarrow> member_info" where
  "member_info_of m = \<lparr>m_id = bs_id m, m_quota_bytes = bs_quota_bytes m, m_used_bytes = bs_used_bytes m\<rparr>"

definition resolveBlobStoreRef :: "deps \<Rightarrow> world \<Rightarrow> repository \<Rightarrow> nat \<Rightarrow> world \<times> (string \<times> string) result" where
  "resolveBlobStoreRef d w repo n =
     (case resolveBlobStoreObj w repo n of
        Inl e \<Rightarrow> (w, Inl e)
      | Inr bs \<Rightarrow>
          if bs_type bs \<noteq> ''group'' then (w, Inr (bs_id bs, bs_name bs))
          else if groupMemberIDs bs = [] then (w, Inl (ErrMsg ''group blob store has no members''))
          else if \<not> d_registry d then (w, Inl (ErrMsg ''group blob store requires Registry''))
          else
            (let members = load_members w (groupMemberIDs bs) (n + 1)
             in if members = [] then (w, Inl (ErrMsg ''no valid members found''))
                else
                  (case pick_member (w_rr w) (bs_id bs) (groupFillPolicy bs) (map member_info_of members) of
                     (rr, memberID) \<Rightarrow>
                       if memberID = [] then (w\<lparr>w_rr := rr\<rparr>, Inl (Wrapped ''all members are at capacity'' ErrQuotaExceeded))
                       else (case find (\<lambda>m. bs_id m = memberID) members of
                           Some m \<Rightarrow> (w\<lparr>w_rr := rr\<rparr>, Inr (bs_id m, bs_name m))
                         | None \<Rightarrow> (w\<lparr>w_rr := rr\<rparr>, Inr ([], []))))))"

definition PhysicalStore :: "deps \<Rightarrow> world \<Rightarrow> blob_store \<Rightarrow> nat \<Rightarrow> store_ref" where
  "PhysicalStore d w bs n =
     (if \<not> d_registry d then DefaultStore
      else (case registry_get w bs n of Inr ref \<Rightarrow> ref | Inl _ \<Rightarrow> DefaultStore))"

text \<open>
  The lookup \<^verbatim>\<open>StoreArtifact\<close>, \<^verbatim>\<open>FetchArtifact\<close> and \<^verbatim>\<open>DeleteArtifact\<close> share: the physical store of the
  row with this id, or the process-wide default store.
\<close>

definition pinned_store :: "deps \<Rightarrow> world \<Rightarrow> string \<Rightarrow> nat \<Rightarrow> store_ref" where
  "pinned_store d w i n =
     (if i \<noteq> [] then
        (case blobs_get_by_id w i n of Inr bs \<Rightarrow> PhysicalStore d w bs n | Inl _ \<Rightarrow> DefaultStore)
      else DefaultStore)"

definition ResolveBlobStore :: "deps \<Rightarrow> world \<Rightarrow> repository \<Rightarrow> nat \<Rightarrow> world \<times> string \<times> string \<times> store_ref" where
  "ResolveBlobStore d w repo n =
     (case resolveBlobStoreRef d w repo n of
        (w', Inr (i, name)) \<Rightarrow> (w', i, name, pinned_store d w' i (n + 2))
      | (w', Inl _) \<Rightarrow> (w', [], [], DefaultStore))"

section \<open>Quotas\<close>

definition over_quota :: "int option \<Rightarrow> int \<Rightarrow> int \<Rightarrow> bool" where
  "over_quota q used sz \<longleftrightarrow> (case q of None \<Rightarrow> False | Some quota \<Rightarrow> i64 (used + sz) > quota)"

definition repo_quota_check :: "world \<Rightarrow> repository \<Rightarrow> int \<Rightarrow> nat \<Rightarrow> unit result" where
  "repo_quota_check w repo sz n =
     (case r_quota_bytes repo of
        None \<Rightarrow> Inr ()
      | Some quota \<Rightarrow>
          (case assets_sum_size_by_repo w (r_name repo) n of
             Inl e \<Rightarrow> Inl (Wrapped ''quota check'' e)
           | Inr used \<Rightarrow>
               if over_quota (Some quota) used sz then Inl (Wrapped ''repository'' ErrQuotaExceeded) else Inr ()))"

definition checkQuota :: "world \<Rightarrow> repository \<Rightarrow> int \<Rightarrow> nat \<Rightarrow> unit result" where
  "checkQuota w repo sz n =
     (case resolveBlobStoreObj w repo n of
        Inl e \<Rightarrow> Inl e
      | Inr bs \<Rightarrow>
          if bs_type bs \<noteq> ''group'' \<and> over_quota (bs_quota_bytes bs) (bs_used_bytes bs) sz
          then Inl (Wrapped ''blob store'' ErrQuotaExceeded)
          else repo_quota_check w repo sz n)"

definition storeForQuota :: "world \<Rightarrow> repository \<Rightarrow> string \<Rightarrow> nat \<Rightarrow> blob_store option" where
  "storeForQuota w repo i n =
     (if i \<noteq> [] then (case blobs_get_by_id w i n of Inr bs \<Rightarrow> Some bs | Inl _ \<Rightarrow> None)
      else (case resolveBlobStoreObj w repo n of Inr bs \<Rightarrow> Some bs | Inl _ \<Rightarrow> None))"

definition storeQuotaConfigured :: "world \<Rightarrow> repository \<Rightarrow> string \<Rightarrow> nat \<Rightarrow> bool" where
  "storeQuotaConfigured w repo i n =
     (case storeForQuota w repo i n of
        Some bs \<Rightarrow> bs_type bs \<noteq> ''group'' \<and> bs_quota_bytes bs \<noteq> None
      | None \<Rightarrow> False)"

definition quotaHeadroom :: "world \<Rightarrow> repository \<Rightarrow> string \<Rightarrow> int \<Rightarrow> nat \<Rightarrow> unit result" where
  "quotaHeadroom w repo i delta n =
     (if (case storeForQuota w repo i n of
            Some bs \<Rightarrow> bs_type bs \<noteq> ''group'' \<and> over_quota (bs_quota_bytes bs) (bs_used_bytes bs) delta
          | None \<Rightarrow> False)
      then Inl (Wrapped ''blob store'' ErrQuotaExceeded)
      else repo_quota_check w repo delta n)"

definition usageDelta :: "world \<Rightarrow> asset \<Rightarrow> asset option \<Rightarrow> nat \<Rightarrow> int" where
  "usageDelta w a prev n =
     (case prev of
        Some p \<Rightarrow>
          if a_blob_key p = a_blob_key a \<and> a_blob_store_id p = a_blob_store_id a
          then i64 (a_size_bytes a - a_size_bytes p)
          else (case assets_count_by_blob_key w (a_blob_key a) (a_id a) n of
              Inr others \<Rightarrow> if others > 0 then 0 else a_size_bytes a
            | Inl _ \<Rightarrow> a_size_bytes a)
      | None \<Rightarrow> (case assets_count_by_blob_key w (a_blob_key a) (a_id a) n of
              Inr others \<Rightarrow> if others > 0 then 0 else a_size_bytes a
            | Inl _ \<Rightarrow> a_size_bytes a))"

definition DecrementBlobStoreUsage :: "world \<Rightarrow> asset \<Rightarrow> nat \<Rightarrow> world result" where
  "DecrementBlobStoreUsage w a n =
     (if a_size_bytes a \<le> 0 then Inr w
      else if a_blob_store_id a \<noteq> [] then
        (case blobs_get_by_id w (a_blob_store_id a) n of
           Inl e \<Rightarrow> Inl e
         | Inr bs \<Rightarrow> blobs_update_used_bytes w (if bs_name bs = [] then ''default'' else bs_name bs)
             (- a_size_bytes a) n)
      else blobs_update_used_bytes w ''default'' (- a_size_bytes a) n)"

section \<open>Registering a stored blob\<close>

definition queueForScanning :: "deps \<Rightarrow> world \<Rightarrow> component \<Rightarrow> world" where
  "queueForScanning d w c =
     (if \<not> d_scanner d \<or> c_id c = [] then w
      else if has_prefix (c_version c) ''sha256:'' then w
      else w\<lparr>w_scans := w_scans w @ [c_id c]\<rparr>)"

text \<open>The closure \<^verbatim>\<open>register\<close>: what runs under the quota locks.\<close>

definition register_locked ::
    "repository \<Rightarrow> string \<Rightarrow> string \<Rightarrow> asset option \<Rightarrow> component \<Rightarrow> asset \<Rightarrow> world \<Rightarrow> world \<times> (component \<times> asset) result" where
  "register_locked repo storeID storeName prev comp0 a w =
     (let probe = (case prev of Some p \<Rightarrow> a\<lparr>a_id := a_id p\<rparr> | None \<Rightarrow> a);
          delta = usageDelta w probe prev 3
      in case (if delta > 0 then quotaHeadroom w repo storeID delta 4 else Inr ()) of
           Inl e \<Rightarrow> (w, Inl e)
         | Inr _ \<Rightarrow>
             (case components_create w comp0 5 of
                Inl e \<Rightarrow> (w, Inl (Wrapped ''upsert component'' e))
              | Inr (w1, comp1) \<Rightarrow>
                  (case assets_create w1 (a\<lparr>a_component_id := c_id comp1\<rparr>) 6 of
                     Inl e \<Rightarrow> (w1, Inl (Wrapped ''upsert asset'' e))
                   | Inr (w2, a') \<Rightarrow>
                       (if delta \<noteq> 0 then best_effort w2 (blobs_update_used_bytes w2 storeName delta 7) else w2,
                        Inr (comp1, a')))))"

definition new_component :: "repository \<Rightarrow> coords \<Rightarrow> string \<Rightarrow> component" where
  "new_component repo co path =
     \<lparr>c_id = [], c_repository_id = r_id repo, c_repository = r_name repo, c_format = r_format repo,
      c_group = co_group co,
      c_name = (if co_name co = [] then trim_prefix path ''/'' else co_name co),
      c_version = (if co_version co = [] then ''1'' else co_version co),
      c_tags = [], c_extra = [], c_last_downloaded = None, c_download_count = 0, c_created_at = 0\<rparr>"

definition new_asset ::
    "deps \<Rightarrow> repository \<Rightarrow> string \<Rightarrow> string \<Rightarrow> string \<Rightarrow> string \<Rightarrow> string \<Rightarrow> string \<Rightarrow> string \<Rightarrow> int \<Rightarrow> asset" where
  "new_asset d repo path ctype storeID key sha256 sha1 md5 sz =
     \<lparr>a_id = [], a_component_id = [], a_repository_id = r_id repo, a_repository = r_name repo,
      a_path = path, a_blob_store_id = storeID, a_blob_key = key, a_size_bytes = sz,
      a_content_type = ctype, a_sha1 = sha1, a_sha256 = sha256, a_md5 = md5,
      a_uploader_id = d_user_id d, a_last_modified = 0, a_last_downloaded = None,
      a_download_count = 0, a_created_at = 0\<rparr>"

definition RegisterStoredBlob ::
    "deps \<Rightarrow> world \<Rightarrow> repository \<Rightarrow> string \<Rightarrow> string \<Rightarrow> coords \<Rightarrow> string \<Rightarrow> string \<Rightarrow> string \<Rightarrow> string \<Rightarrow> int \<Rightarrow>
     string \<Rightarrow> string \<Rightarrow> world \<times> asset result" where
  "RegisterStoredBlob d w repo path ctype co key sha256 sha1 md5 sz storeID0 storeName0 =
     (case (if storeID0 = [] then resolveBlobStoreRef d w repo 20 else (w, Inr (storeID0, storeName0))) of
        (w0, Inl e) \<Rightarrow> (w0, Inl e)
      | (w0, Inr (storeID, storeName1)) \<Rightarrow>
          (let storeName = (if storeName1 = [] then
                 (case blobs_get_by_id w0 storeID 23 of Inr bs \<Rightarrow> bs_name bs | Inl _ \<Rightarrow> []) else storeName1);
               prev = (case assets_get_by_path w0 (r_name repo) path 1 of Inr p \<Rightarrow> Some p | Inl _ \<Rightarrow> None);
               comp0 = new_component repo co path;
               a = new_asset d repo path ctype storeID key sha256 sha1 md5 sz;
               run0 = register_locked repo storeID storeName prev comp0 a;
               run1 = (if r_quota_bytes repo \<noteq> None
                       then (\<lambda>w. with_blob_key_lock w (''quota:repo:'' @ r_name repo) 0 run0) else run0);
               run2 = (if storeQuotaConfigured w0 repo storeID 2
                       then (\<lambda>w. with_blob_key_lock w
                              (''quota:store:'' @ (if storeName = [] then ''default'' else storeName)) 0 run1)
                       else run1)
           in case run2 w0 of
                (w1, Inl e) \<Rightarrow> (w1, Inl e)
              | (w1, Inr (comp1, a')) \<Rightarrow> (queueForScanning d w1 comp1, Inr a')))"

section \<open>Storing, fetching and deleting\<close>

definition BlobKey :: "deps \<Rightarrow> string \<Rightarrow> string \<Rightarrow> string" where
  "BlobKey d repoName path = d_sha256 d (repoName @ '':'' @ path)"

definition BlobKeyByDigest :: "string \<Rightarrow> string" where
  "BlobKeyByDigest digest = ''digest/'' @ digest"

definition publish_event :: "world \<Rightarrow> repository \<Rightarrow> coords \<Rightarrow> asset \<Rightarrow> int \<Rightarrow> payload" where
  "publish_event w repo co a sz =
     \<lparr>p_event = EventArtifactPublished, p_timestamp = a_created_at a, p_repository = r_name repo,
      p_component = [(''group'', co_group co), (''name'', co_name co), (''version'', co_version co),
        (''format'', r_format repo)],
      p_path = a_path a, p_content_type = a_content_type a, p_size = sz\<rparr>"

text \<open>
  The request body is the bytes it yields and whether reading it ends in an error; the copier
  goroutine and the put joined by a pipe move all of it or fail.
\<close>

definition StoreArtifact ::
    "deps \<Rightarrow> world \<Rightarrow> string \<Rightarrow> string \<Rightarrow> string \<Rightarrow> coords \<Rightarrow> string \<times> bool \<Rightarrow> int \<Rightarrow> world \<times> store_result result" where
  "StoreArtifact d w repoName path ctype co reader declaredSize =
     (case repos_get w repoName 0 of
        Inl _ \<Rightarrow> (w, Inl (ErrMsg ''repository not found''))
      | Inr repo \<Rightarrow>
          if \<not> r_online repo then (w, Inl (ErrMsg ''repository is offline''))
          else (case (if declaredSize > 0 then checkQuota w repo declaredSize 10 else Inr ()) of
            Inl e \<Rightarrow> (w, Inl e)
          | Inr _ \<Rightarrow>
             (let key = BlobKey d repoName path in
              case ResolveBlobStore d w repo 11 of (w0, storeID, storeName, phys) \<Rightarrow>
              case (if snd reader then Inl ErrIO else store_put w0 phys key (fst reader) 0) of
                Inl e \<Rightarrow> (w0, Inl (Wrapped ''store blob'' e))
              | Inr w1 \<Rightarrow>
                 (let written = int (length (fst reader));
                      sz = (if declaredSize \<le> 0
                              then (case store_size w1 phys key 0 of Inr s \<Rightarrow> s | Inl _ \<Rightarrow> declaredSize)
                              else declaredSize)
                  in if declaredSize > 0 \<and> written \<noteq> declaredSize
                     then (best_effort w1 (store_delete w1 phys key 1), Inl (Wrapped ''size'' ErrSizeMismatch))
                     else (case (if sz > 0 \<and> declaredSize \<le> 0 then checkQuota w1 repo sz 15 else Inr ()) of
                       Inl e \<Rightarrow> (best_effort w1 (store_delete w1 phys key 2), Inl e)
                     | Inr _ \<Rightarrow>
                        (case RegisterStoredBlob d w1 repo path ctype co key (d_sha256 d (fst reader))
                                (d_sha1 d (fst reader)) (d_md5 d (fst reader)) sz storeID storeName of
                           (w2, Inl e) \<Rightarrow>
                             (if err_is e ErrQuotaExceeded \<and> assets_count_by_blob_key w2 key [] 16 = Inr 0
                              then best_effort w2 (store_delete w2 phys key 3) else w2, Inl e)
                         | (w2, Inr a) \<Rightarrow>
                             (if d_webhooks d then w2\<lparr>w_events := w_events w2 @ [publish_event w2 repo co a sz]\<rparr>
                              else w2,
                              Inr \<lparr>sr_asset = a, sr_sha256 = d_sha256 d (fst reader), sr_sha1 = d_sha1 d (fst reader),
                                   sr_md5 = d_md5 d (fst reader), sr_size = sz\<rparr>)))))))"

definition FetchArtifact :: "deps \<Rightarrow> world \<Rightarrow> string \<Rightarrow> string \<Rightarrow> world \<times> (string \<times> asset) result" where
  "FetchArtifact d w repoName path =
     (case assets_get_by_path w repoName path 30 of
        Inl e \<Rightarrow> if err_is e ErrNotFound then (w, Inl (ErrMsg ''not found'')) else (w, Inl e)
      | Inr a \<Rightarrow>
          (case store_get w (pinned_store d w (a_blob_store_id a) 31) (a_blob_key a) 30 of
             Inl e \<Rightarrow> (w, Inl (Wrapped ''blob missing'' e))
           | Inr data \<Rightarrow>
               (if d_downloads d then w\<lparr>w_downloads := w_downloads w @ [a_id a]\<rparr> else w, Inr (data, a))))"

definition delete_event :: "string \<Rightarrow> asset \<Rightarrow> payload" where
  "delete_event repoName a =
     \<lparr>p_event = EventArtifactDeleted, p_timestamp = a_last_modified a, p_repository = repoName,
      p_component = [], p_path = a_path a, p_content_type = a_content_type a, p_size = a_size_bytes a\<rparr>"

text \<open>The closure run under the blob-key lock; it reports (row deleted, bytes freed).\<close>

definition delete_locked :: "string \<Rightarrow> string \<Rightarrow> asset \<Rightarrow> store_ref \<Rightarrow> world \<Rightarrow> world \<times> (bool \<times> bool) result" where
  "delete_locked repoName path a delStore w =
     (case assets_get_by_path w repoName path 41 of
        Inl e \<Rightarrow> if err_is e ErrNotFound then (w, Inr (False, False)) else (w, Inl e)
      | Inr cur \<Rightarrow>
          if a_id cur \<noteq> a_id a \<or> a_blob_key cur \<noteq> a_blob_key a \<or> a_last_modified cur \<noteq> a_last_modified a
          then (w, Inr (False, False))
          else
            (let others = assets_count_by_blob_key w (a_blob_key a) (a_id a) 42 in
             case assets_delete w (a_id a) 43 of
               Inl e \<Rightarrow> (w, Inl e)
             | Inr w1 \<Rightarrow>
                 if others = Inr 0 then
                   (case store_delete w1 delStore (a_blob_key a) 44 of
                      Inr w2 \<Rightarrow> (w2, Inr (True, True))
                    | Inl _ \<Rightarrow> (w1, Inr (True, False)))
                 else (w1, Inr (True, False))))"

definition DeleteArtifact :: "deps \<Rightarrow> world \<Rightarrow> string \<Rightarrow> string \<Rightarrow> world \<times> unit result" where
  "DeleteArtifact d w repoName path =
     (case assets_get_by_path w repoName path 40 of
        Inl e \<Rightarrow> if err_is e ErrNotFound then (w, Inr ()) else (w, Inl e)
      | Inr a \<Rightarrow>
          (let delStore = pinned_store d w (a_blob_store_id a) 45 in
           case with_blob_key_lock w (a_blob_key a) 10 (delete_locked repoName path a delStore) of
             (w1, Inl e) \<Rightarrow> (w1, Inl e)
           | (w1, Inr (rowDeleted, freed)) \<Rightarrow>
               if \<not> rowDeleted then (w1, Inr ())
               else
                 (let w2 = (if freed then best_effort w1 (DecrementBlobStoreUsage w1 a 46) else w1)
                  in (if d_webhooks d then w2\<lparr>w_events := w_events w2 @ [delete_event repoName a]\<rparr> else w2, Inr ()))))"

section \<open>Frames\<close>

lemma resolveBlobStoreRef_frame:
  assumes "resolveBlobStoreRef d w repo n = (w', r)"
  shows "\<exists>rr. w' = w\<lparr>w_rr := rr\<rparr>"
  using assms
  by (auto simp: resolveBlobStoreRef_def Let_def split: sum.splits if_splits prod.splits option.splits
      intro: exI[of _ "w_rr w"])

lemma ResolveBlobStore_frame:
  assumes "ResolveBlobStore d w repo n = (w', i, name, ref)"
  shows "\<exists>rr. w' = w\<lparr>w_rr := rr\<rparr>"
proof -
  obtain v r where v: "resolveBlobStoreRef d w repo n = (v, r)" by force
  with assms have "w' = v" by (auto simp: ResolveBlobStore_def split: sum.splits)
  with resolveBlobStoreRef_frame[OF v] show ?thesis by simp
qed

lemma queueForScanning_frame: "\<exists>sc. queueForScanning d w c = w\<lparr>w_scans := sc\<rparr>"
  by (auto simp: queueForScanning_def intro: exI[of _ "w_scans w"])

abbreviation reg_delta :: "world \<Rightarrow> asset option \<Rightarrow> asset \<Rightarrow> int" where
  "reg_delta w prev a \<equiv> usageDelta w (case prev of Some p \<Rightarrow> a\<lparr>a_id := a_id p\<rparr> | None \<Rightarrow> a) prev 3"

lemma register_locked_cases:
  assumes "register_locked repo sid sname prev c a w = (w', r)"
  obtains (failed) e where "w' = w \<or> (\<exists>c1. components_create w c 5 = Inr (w', c1))" "r = Inl e"
  | (ok) w1 c1 w2 a2 where "reg_delta w prev a > 0 \<longrightarrow> quotaHeadroom w repo sid (reg_delta w prev a) 4 = Inr ()"
      "components_create w c 5 = Inr (w1, c1)"
      "assets_create w1 (a\<lparr>a_component_id := c_id c1\<rparr>) 6 = Inr (w2, a2)"
      "w' = (if reg_delta w prev a \<noteq> 0
             then best_effort w2 (blobs_update_used_bytes w2 sname (reg_delta w prev a) 7) else w2)"
      "r = Inr (c1, a2)"
proof -
  define delta where "delta = reg_delta w prev a"
  have run: "(w', r) = (case (if delta > 0 then quotaHeadroom w repo sid delta 4 else Inr ()) of
           Inl e \<Rightarrow> (w, Inl e)
         | Inr _ \<Rightarrow>
             (case components_create w c 5 of
                Inl e \<Rightarrow> (w, Inl (Wrapped ''upsert component'' e))
              | Inr (w1, comp1) \<Rightarrow>
                  (case assets_create w1 (a\<lparr>a_component_id := c_id comp1\<rparr>) 6 of
                     Inl e \<Rightarrow> (w1, Inl (Wrapped ''upsert asset'' e))
                   | Inr (w2, a') \<Rightarrow>
                       (if delta \<noteq> 0 then best_effort w2 (blobs_update_used_bytes w2 sname delta 7) else w2,
                        Inr (comp1, a')))))"
    using assms unfolding register_locked_def Let_def delta_def by simp
  show ?thesis
  proof (cases "if delta > 0 then quotaHeadroom w repo sid delta 4 else Inr ()")
    case (Inl e)
    with run show ?thesis by (intro failed[of e]) simp_all
  next
    case headroom: (Inr u)
    show ?thesis
    proof (cases "components_create w c 5")
      case (Inl e)
      with run headroom show ?thesis by (intro failed) simp_all
    next
      case comp: (Inr wc)
      obtain w1 c1 where wc: "wc = (w1, c1)" by force
      show ?thesis
      proof (cases "assets_create w1 (a\<lparr>a_component_id := c_id c1\<rparr>) 6")
        case (Inl e)
        with run headroom comp wc show ?thesis by (intro failed) simp_all
      next
        case (Inr wa)
        obtain w2 a2 where wa: "wa = (w2, a2)" by force
        from run headroom comp wc Inr wa show ?thesis
          by (intro ok[of w1 c1 w2 a2]) (simp_all add: delta_def split: if_splits)
      qed
    qed
  qed
qed

lemma register_locked_step:
  assumes "register_locked repo sid sname prev c a w = (w', r)"
  shows "db_step w w'"
  using assms
proof (cases rule: register_locked_cases)
  case (failed e)
  then show ?thesis by (auto intro: db_step_writes)
next
  case (ok w1 c1 w2 a2)
  then have "db_step w w2" using db_step_trans db_step_components_create(1) db_step_assets_create(1) by blast
  moreover have "db_step w2 w'"
    unfolding ok(4) by (simp add: db_step_best_effort db_step_update_used_bytes)
  ultimately show ?thesis by (rule db_step_trans)
qed

text \<open>The stages of a registration, as the locks nest around it.\<close>

lemma RegisterStoredBlob_run:
  assumes "RegisterStoredBlob d w repo path ctype co key sha256 sha1 md5 sz sid0 sname0 = (w', r)"
  obtains (unresolved) e where "sid0 = []" "resolveBlobStoreRef d w repo 20 = (w', Inl e)" "r = Inl e"
  | (refused) w0 w1 sid sname1 sname prev c a e where
      "(if sid0 = [] then resolveBlobStoreRef d w repo 20 else (w, Inr (sid0, sname0))) = (w0, Inr (sid, sname1))"
      "sname = (if sname1 = [] then (case blobs_get_by_id w0 sid 23 of Inr bs \<Rightarrow> bs_name bs | Inl _ \<Rightarrow> []) else sname1)"
      "w1 = w0 \<or> (\<exists>r. register_locked repo sid sname prev c a w0 = (w1, r))" "w' = w1" "r = Inl e"
      "a = new_asset d repo path ctype sid key sha256 sha1 md5 sz"
  | (stored) w0 w1 sid sname1 sname prev c1 a1 where
      "(if sid0 = [] then resolveBlobStoreRef d w repo 20 else (w, Inr (sid0, sname0))) = (w0, Inr (sid, sname1))"
      "sname = (if sname1 = [] then (case blobs_get_by_id w0 sid 23 of Inr bs \<Rightarrow> bs_name bs | Inl _ \<Rightarrow> []) else sname1)"
      "prev = (case assets_get_by_path w0 (r_name repo) path 1 of Inr p \<Rightarrow> Some p | Inl _ \<Rightarrow> None)"
      "register_locked repo sid sname prev (new_component repo co path)
         (new_asset d repo path ctype sid key sha256 sha1 md5 sz) w0 = (w1, Inr (c1, a1))"
      "w' = queueForScanning d w1 c1" "r = Inr a1"
proof -
  define res where "res = (if sid0 = [] then resolveBlobStoreRef d w repo 20 else (w, Inr (sid0, sname0)))"
  show ?thesis
  proof (cases "snd res")
    case (Inl e)
    then obtain v where v: "res = (v, Inl e)" by (metis prod.collapse)
    then have "sid0 = []" by (auto simp: res_def split: if_splits)
    moreover have "(w', r) = (v, Inl e)"
      using assms unfolding RegisterStoredBlob_def res_def[symmetric] v by simp
    ultimately show ?thesis
      using v by (intro unresolved[of e]) (simp_all add: res_def)
  next
    case (Inr ss)
    obtain w0 sid sname1 where res: "res = (w0, Inr (sid, sname1))" using Inr by (metis prod.collapse)
    define sname where "sname = (if sname1 = [] then
        (case blobs_get_by_id w0 sid 23 of Inr bs \<Rightarrow> bs_name bs | Inl _ \<Rightarrow> []) else sname1)"
    define prev where "prev = (case assets_get_by_path w0 (r_name repo) path 1 of Inr p \<Rightarrow> Some p | Inl _ \<Rightarrow> None)"
    let ?c = "new_component repo co path"
    let ?a = "new_asset d repo path ctype sid key sha256 sha1 md5 sz"
    define run0 where "run0 = register_locked repo sid sname prev ?c ?a"
    define run1 where "run1 = (if r_quota_bytes repo \<noteq> None
      then (\<lambda>w. with_blob_key_lock w (''quota:repo:'' @ r_name repo) 0 run0) else run0)"
    define run2 where "run2 = (if storeQuotaConfigured w0 repo sid 2
      then (\<lambda>w. with_blob_key_lock w (''quota:store:'' @ (if sname = [] then ''default'' else sname)) 0 run1) else run1)"
    obtain w1 x where x: "run2 w0 = (w1, x)" by force
    have run: "(w', r) = (case run2 w0 of (w1, Inl e) \<Rightarrow> (w1, Inl e)
      | (w1, Inr (c1, a1)) \<Rightarrow> (queueForScanning d w1 c1, Inr a1))"
      using assms[symmetric] unfolding RegisterStoredBlob_def res_def[symmetric] res
        run2_def run1_def run0_def sname_def prev_def Let_def prod.case sum.case .
    have ran1: "w1' = v \<or> (\<exists>r. run0 v = (w1', r))" if "run1 v = (w1', y)" for v w1' y
      using that by (auto simp: run1_def with_blob_key_lock_def split: if_splits prod.splits sum.splits)
    have ran2: "w1' = v \<or> (\<exists>r. run0 v = (w1', r))" if "run2 v = (w1', y)" for v w1' y
      using that ran1 by (auto simp: run2_def with_blob_key_lock_def split: if_splits prod.splits sum.splits)
    show ?thesis
    proof (cases x)
      case (Inl e)
      then have "w' = w1" "r = Inl e" using run x by simp_all
      moreover have "w1 = w0 \<or> (\<exists>r. register_locked repo sid sname prev ?c ?a w0 = (w1, r))"
        using ran2[OF x] by (simp add: run0_def)
      ultimately show ?thesis
        using res by (intro refused[of w0 sid sname1 sname w1 prev ?c ?a e]) (simp_all add: res_def sname_def)
    next
      case (Inr ca)
      obtain c1 a1 where ca: "ca = (c1, a1)" by force
      have "run1 w0 = (w1, Inr ca)"
        using x Inr by (auto simp: run2_def dest: with_blob_key_lock_ok split: if_splits)
      then have "run0 w0 = (w1, Inr ca)"
        by (auto simp: run1_def dest: with_blob_key_lock_ok split: if_splits)
      then show ?thesis
        using run x Inr ca res
        by (intro stored[of w0 sid sname1 sname prev w1 c1 a1]) (simp_all add: run0_def prev_def res_def sname_def)
    qed
  qed
qed

lemma RegisterStoredBlob_step:
  assumes "RegisterStoredBlob d w repo path ctype co key sha256 sha1 md5 sz sid sname = (w', r)"
  shows "db_step w w'"
  using assms
proof (cases rule: RegisterStoredBlob_run)
  case (unresolved e)
  then show ?thesis using resolveBlobStoreRef_frame by fastforce
next
  case (refused w0 w1 sid' sname1 sname' prev c a e)
  have "db_step w w0" using refused(1) resolveBlobStoreRef_frame by (fastforce split: if_splits)
  moreover have "db_step w0 w1" using refused(3) register_locked_step by auto
  ultimately show ?thesis using db_step_trans refused(4) by blast
next
  case (stored w0 w1 sid' sname1 sname' prev c1 a1)
  have "db_step w w0" using stored(1) resolveBlobStoreRef_frame by (fastforce split: if_splits)
  moreover have "db_step w0 w1" using stored(4) register_locked_step by blast
  moreover have "db_step w1 w'" using stored(5) queueForScanning_frame by (metis db_step_scans)
  ultimately show ?thesis using db_step_trans by blast
qed

text \<open>The ways an upload can end.\<close>

lemma StoreArtifact_cases:
  assumes "StoreArtifact d w repoName path ctype co reader decl = (w', r)"
  obtains (refused) e rr where "w' = w\<lparr>w_rr := rr\<rparr>" "r = Inl e"
  | (dropped) repo w0 sid sname phys w1 e n where "repos_get w repoName 0 = Inr repo"
      "ResolveBlobStore d w repo 11 = (w0, sid, sname, phys)"
      "store_put w0 phys (BlobKey d repoName path) (fst reader) 0 = Inr w1"
      "w' = best_effort w1 (store_delete w1 phys (BlobKey d repoName path) n)" "r = Inl e"
  | (unregistered) repo w0 sid sname phys w1 sz w2 e where "repos_get w repoName 0 = Inr repo"
      "ResolveBlobStore d w repo 11 = (w0, sid, sname, phys)"
      "store_put w0 phys (BlobKey d repoName path) (fst reader) 0 = Inr w1"
      "RegisterStoredBlob d w1 repo path ctype co (BlobKey d repoName path) (d_sha256 d (fst reader))
         (d_sha1 d (fst reader)) (d_md5 d (fst reader)) sz sid sname = (w2, Inl e)"
      "w' = w2 \<or> assets_count_by_blob_key w2 (BlobKey d repoName path) [] 16 = Inr 0 \<and>
         w' = best_effort w2 (store_delete w2 phys (BlobKey d repoName path) 3)" "r = Inl e"
  | (stored) repo w0 sid sname phys w1 sz w2 a where "repos_get w repoName 0 = Inr repo" "r_online repo"
      "decl > 0 \<longrightarrow> checkQuota w repo decl 10 = Inr ()"
      "ResolveBlobStore d w repo 11 = (w0, sid, sname, phys)" "\<not> snd reader"
      "store_put w0 phys (BlobKey d repoName path) (fst reader) 0 = Inr w1"
      "sz = (if decl \<le> 0 then (case store_size w1 phys (BlobKey d repoName path) 0 of Inr s \<Rightarrow> s | Inl _ \<Rightarrow> decl) else decl)"
      "decl > 0 \<longrightarrow> decl = int (length (fst reader))"
      "RegisterStoredBlob d w1 repo path ctype co (BlobKey d repoName path) (d_sha256 d (fst reader))
         (d_sha1 d (fst reader)) (d_md5 d (fst reader)) sz sid sname = (w2, Inr a)"
      "w' = (if d_webhooks d then w2\<lparr>w_events := w_events w2 @ [publish_event w2 repo co a sz]\<rparr> else w2)"
      "r = Inr \<lparr>sr_asset = a, sr_sha256 = d_sha256 d (fst reader), sr_sha1 = d_sha1 d (fst reader),
                sr_md5 = d_md5 d (fst reader), sr_size = sz\<rparr>"
proof -
  let ?key = "BlobKey d repoName path"
  let ?data = "fst reader"
  have same: thesis if "(w', r) = (w, Inl e)" for e
    using refused[of "w_rr w" e] that by simp
  note run = assms[symmetric, unfolded StoreArtifact_def Let_def]
  show ?thesis
  proof (cases "repos_get w repoName 0")
    case (Inl e)
    with run same show ?thesis by simp
  next
    case repo: (Inr repo)
    show ?thesis
    proof (cases "r_online repo \<and> (if decl > 0 then checkQuota w repo decl 10 else Inr ()) = Inr ()")
      case False
      with run repo same show ?thesis by (auto split: if_splits sum.splits)
    next
      case pre: True
      obtain w0 sid sname phys where rbs: "ResolveBlobStore d w repo 11 = (w0, sid, sname, phys)"
        by (metis prod_cases4)
      then obtain rr where w0: "w0 = w\<lparr>w_rr := rr\<rparr>" using ResolveBlobStore_frame by blast
      show ?thesis
      proof (cases "if snd reader then Inl ErrIO else store_put w0 phys ?key ?data 0")
        case (Inl e)
        have "(w', r) = (w0, Inl (Wrapped ''store blob'' e))"
          using run[unfolded repo sum.case rbs prod.case Inl] pre by (simp split: if_splits)
        with w0 show ?thesis by (intro refused) simp_all
      next
        case (Inr w1)
        then have put: "store_put w0 phys ?key ?data 0 = Inr w1" and rd: "\<not> snd reader"
          by (simp_all split: if_splits)
        define sz where "sz = (if decl \<le> 0
            then (case store_size w1 phys ?key 0 of Inr s \<Rightarrow> s | Inl _ \<Rightarrow> decl) else decl)"
        note run1 = run[unfolded repo sum.case rbs prod.case Inr, folded sz_def]
        show ?thesis
        proof (cases "decl > 0 \<and> int (length ?data) \<noteq> decl")
          case True
          with run1 pre show ?thesis
            by (intro dropped[OF repo rbs put, of 1]) simp_all
        next
          case decl: False
          show ?thesis
          proof (cases "if sz > 0 \<and> decl \<le> 0 then checkQuota w1 repo sz 15 else Inr ()")
            case Inl2: (Inl e)
            with run1 pre decl show ?thesis
              by (intro dropped[OF repo rbs put, of 2]) auto
          next
            case Inr2: (Inr u)
            define reg where "reg = RegisterStoredBlob d w1 repo path ctype co ?key (d_sha256 d ?data)
              (d_sha1 d ?data) (d_md5 d ?data) sz sid sname"
            note run2 = run1[unfolded Inr2 sum.case, folded reg_def]
            obtain w2 x where reg: "reg = (w2, x)" by force
            show ?thesis
            proof (cases x)
              case Inl3: (Inl e)
              then show ?thesis using run2 pre decl reg
                by (intro unregistered[OF repo rbs put, of sz w2 e]) (auto simp: reg_def split: if_splits)
            next
              case Inr3: (Inr a)
              then show ?thesis using run2 pre decl reg
                by (intro stored[OF repo _ _ rbs rd put sz_def, of w2 a]) (auto simp: reg_def split: if_splits)
            qed
          qed
        qed
      qed
    qed
  qed
qed

section \<open>What an upload keeps\<close>

text \<open>Moving bytes does not touch the tables.\<close>

lemma db_ok_set_store [simp]: "db_ok (set_store w r s) = db_ok w"
  by (rule db_ok_cong) simp_all

lemma db_ok_store_put: "store_put w ref k data n = Inr w' \<Longrightarrow> db_ok w' = db_ok w"
  by (drule store_put_ok) simp

lemma drop_blob_eq: "best_effort w (store_delete w ref k n) =
    (if w_fault w ''Store.Delete'' k n then w else set_store w ref (del_blob (w_phys w ref) k))"
  by (simp add: store_delete_def guard_io_def)

lemma db_ok_drop_blob [simp]: "db_ok (best_effort w (store_delete w ref k n)) = db_ok w"
  by (simp add: drop_blob_eq)

lemma store_blob_drop:
  "k' \<noteq> k \<Longrightarrow> store_blob (best_effort w (store_delete w ref k n)) ref' k' = store_blob w ref' k'"
  by (simp add: drop_blob_eq store_blob_def bs.get_del)

lemma db_ok_rr [simp]: "db_ok (w\<lparr>w_rr := rr\<rparr>) = db_ok w"
  by (rule db_ok_cong) simp_all

lemma db_ok_events [simp]: "db_ok (w\<lparr>w_events := ev\<rparr>) = db_ok w"
  by (rule db_ok_cong) simp_all

lemma db_step_db_ok: "db_step w w' \<Longrightarrow> db_ok w \<Longrightarrow> db_ok w'"
  by (simp add: db_step_def)

lemma db_step_store_blob: "db_step w w' \<Longrightarrow> store_blob w' = store_blob w"
  by (simp add: db_step_def store_blob_def fun_eq_iff)

lemma StoreArtifact_db_ok:
  assumes "db_ok w" "StoreArtifact d w repoName path ctype co reader decl = (w', r)"
  shows "db_ok w'"
  using assms(2)
proof (cases rule: StoreArtifact_cases)
  case (refused e rr)
  with assms(1) show ?thesis by simp
next
  case (dropped repo w0 sid sname phys w1 e n)
  then have "db_ok w0" using ResolveBlobStore_frame[OF dropped(2)] assms(1) by auto
  with dropped show ?thesis by (simp add: db_ok_store_put)
next
  case (unregistered repo w0 sid sname phys w1 sz w2 e)
  then have "db_ok w1" using ResolveBlobStore_frame[OF unregistered(2)] assms(1) by (auto simp: db_ok_store_put)
  then have "db_ok w2" using RegisterStoredBlob_step[OF unregistered(4)] db_step_db_ok by blast
  with unregistered show ?thesis by auto
next
  case (stored repo w0 sid sname phys w1 sz w2 a)
  then have "db_ok w1" using ResolveBlobStore_frame[OF stored(4)] assms(1) by (auto simp: db_ok_store_put)
  then have "db_ok w2" using RegisterStoredBlob_step[OF stored(9)] db_step_db_ok by blast
  with stored show ?thesis by simp
qed

lemma StoreArtifact_other_bytes:
  assumes "StoreArtifact d w repoName path ctype co reader decl = (w', r)" "k \<noteq> BlobKey d repoName path"
  shows "store_blob w' ref k = store_blob w ref k"
  using assms(1)
proof (cases rule: StoreArtifact_cases)
  case (refused e rr)
  then show ?thesis by (simp add: store_blob_def)
next
  case (dropped repo w0 sid sname phys w1 e n)
  have "store_blob w0 = store_blob w" using ResolveBlobStore_frame[OF dropped(2)] by (auto simp: store_blob_def fun_eq_iff)
  with dropped assms(2) show ?thesis by (simp add: store_blob_drop store_blob_put[OF dropped(3)])
next
  case (unregistered repo w0 sid sname phys w1 sz w2 e)
  have "store_blob w0 = store_blob w" using ResolveBlobStore_frame[OF unregistered(2)] by (auto simp: store_blob_def fun_eq_iff)
  moreover have "store_blob w2 = store_blob w1"
    using RegisterStoredBlob_step[OF unregistered(4)] by (rule db_step_store_blob)
  ultimately show ?thesis using unregistered(5) assms(2)
    by (auto simp: store_blob_drop store_blob_put[OF unregistered(3)])
next
  case (stored repo w0 sid sname phys w1 sz w2 a)
  have "store_blob w0 = store_blob w" using ResolveBlobStore_frame[OF stored(4)] by (auto simp: store_blob_def fun_eq_iff)
  moreover have "store_blob w2 = store_blob w1"
    using RegisterStoredBlob_step[OF stored(9)] by (rule db_step_store_blob)
  moreover have "store_blob w' = store_blob w2"
    using stored(10) by (simp add: store_blob_def fun_eq_iff)
  ultimately show ?thesis using assms(2) by (simp add: store_blob_put[OF stored(6)])
qed

lemma update_used_assets: "blobs_update_used_bytes w name dl n = Inr w' \<Longrightarrow> w_assets w' = w_assets w"
  by (auto simp: blobs_update_used_bytes_def split: if_splits)

text \<open>Where the rows and the bytes after an upload come from.\<close>

abbreviation row_from :: "world \<Rightarrow> string \<Rightarrow> string \<Rightarrow> asset \<Rightarrow> bool" where
  "row_from w path key a \<equiv>
     (\<exists>b\<in>set (w_assets w). a_path b = a_path a \<and> a_blob_key b = a_blob_key a) \<or> a_path a = path \<and> a_blob_key a = key"

lemma assets_create_from:
  assumes "db_ok w" "assets_create w a n = Inr (w', a')" "x \<in> set (w_assets w')"
  shows "row_from w (a_path a) (a_blob_key a) x"
  using assms(2)
proof (cases rule: assets_create_cases)
  case (upd old)
  then obtain r where r: "r \<in> set (w_assets w)" "x = (if a_id r = a_id old then upsert_asset a (w_now w) r else r)"
    using assms(3) by (auto simp: set_upd_where)
  have old: "old \<in> set (w_assets w)" "a_path old = a_path a" using find_SomeD[OF upd(1)] by simp_all
  have "distinct (map a_id (w_assets w))" using assms(1) by (simp add: db_ok_def)
  then have "r = old" if "a_id r = a_id old" using that r(1) old(1) by (auto simp: distinct_map inj_on_def)
  with r old show ?thesis by (cases "a_id r = a_id old") auto
next
  case (ins row)
  with assms(3) show ?thesis by auto
qed

lemma register_locked_from:
  assumes "db_ok w" "register_locked repo sid sname prev c a w = (w', r)" "x \<in> set (w_assets w')"
  shows "row_from w (a_path a) (a_blob_key a) x"
  using assms(2)
proof (cases rule: register_locked_cases)
  case (failed e)
  then have "w_assets w' = w_assets w" using db_step_components_create(2) by blast
  with assms(3) show ?thesis by auto
next
  case (ok w1 c1 w2 a2)
  have "w_assets w' = w_assets w2"
    using ok(4) update_used_assets by (cases "blobs_update_used_bytes w2 sname (reg_delta w prev a) 7") auto
  moreover have "db_ok w1" "w_assets w1 = w_assets w"
    using assms(1) ok(2) db_ok_components_create db_step_components_create(2) by blast+
  ultimately show ?thesis using assets_create_from[OF _ ok(3), of x] assms(3) by simp
qed

lemma pinned_frame:
  assumes "(if sid = [] then resolveBlobStoreRef d w repo n else (w, Inr (sid, sname))) = (w0, r)"
  shows "\<exists>rr. w0 = w\<lparr>w_rr := rr\<rparr>"
  using assms resolveBlobStoreRef_frame by (cases "sid = []") (auto intro: exI[of _ "w_rr w"])

lemma RegisterStoredBlob_from:
  assumes "db_ok w" "RegisterStoredBlob d w repo path ctype co key sha256 sha1 md5 sz sid sname = (w', r)"
    "x \<in> set (w_assets w')"
  shows "row_from w path key x"
  using assms(2)
proof (cases rule: RegisterStoredBlob_run)
  case (unresolved e)
  then show ?thesis using assms(3) resolveBlobStoreRef_frame[OF unresolved(2)] by auto
next
  case (refused w0 w1 sid' sname1 sname' prev c a e)
  have w0: "db_ok w0" "w_assets w0 = w_assets w"
    using pinned_frame[OF refused(1)] assms(1) by auto
  with refused assms(3) register_locked_from[OF w0(1), of repo sid' sname' prev c a w1 _ x]
  show ?thesis by (auto simp: new_asset_def)
next
  case (stored w0 w1 sid' sname1 sname' prev c1 a1)
  have w0: "db_ok w0" "w_assets w0 = w_assets w"
    using pinned_frame[OF stored(1)] assms(1) by auto
  moreover have "w_assets w' = w_assets w1" using stored(5) by (simp add: queueForScanning_def)
  ultimately show ?thesis using register_locked_from[OF w0(1) stored(4), of x] assms(3) by (simp add: new_asset_def)
qed

lemma data_at_dropped: "data_at (best_effort w (store_delete w ref k n)) ref' k' = Some x \<Longrightarrow> data_at w ref' k' = Some x"
  by (cases "store_delete w ref k n") (auto simp: data_at_delete split: if_splits)

lemma StoreArtifact_from:
  assumes "db_ok w" "StoreArtifact d w repoName path ctype co reader decl = (w', r)"
  shows "x \<in> set (w_assets w') \<Longrightarrow> row_from w path (BlobKey d repoName path) x"
    and "data_at w' ref k = Some y \<Longrightarrow> data_at w ref k = Some y \<or> k = BlobKey d repoName path \<and> y = fst reader"
proof -
  let ?key = "BlobKey d repoName path"
  have put: "w_assets w1 = w_assets w \<and> db_ok w1 \<and> (\<forall>ref k y. data_at w1 ref k = Some y \<longrightarrow> data_at w ref k = Some y \<or> k = ?key \<and> y = fst reader)"
    if rbs: "ResolveBlobStore d w repo 11 = (w0, sid, sname, phys)" and put: "store_put w0 phys ?key (fst reader) 0 = Inr w1"
    for repo w0 sid sname phys w1
  proof -
    obtain rr where "w0 = w\<lparr>w_rr := rr\<rparr>" using ResolveBlobStore_frame[OF rbs] by blast
    then have "w_assets w0 = w_assets w" "db_ok w0" "data_at w0 = data_at w" using assms(1) by (auto intro: data_at_cong)
    then show ?thesis using data_at_put[OF put] db_ok_store_put[OF put] store_put_ok[OF put] by (auto split: if_splits)
  qed
  have "(x \<in> set (w_assets w') \<longrightarrow> row_from w path ?key x) \<and>
      (data_at w' ref k = Some y \<longrightarrow> data_at w ref k = Some y \<or> k = ?key \<and> y = fst reader)"
    using assms(2)
  proof (cases rule: StoreArtifact_cases)
    case (refused e rr)
    then have "data_at w' = data_at w" by (intro data_at_cong) simp
    with refused show ?thesis by auto
  next
    case (dropped repo w0 sid sname phys w1 e n)
    have "w_assets w' = w_assets w1" using dropped(4) by (simp add: drop_blob_eq)
    moreover have "data_at w' ref k = Some y \<longrightarrow> data_at w1 ref k = Some y" unfolding dropped(4) using data_at_dropped by blast
    ultimately show ?thesis using put[OF dropped(2,3)] by (metis (full_types))
  next
    case (unregistered repo w0 sid sname phys w1 sz w2 e)
    note p = put[OF unregistered(2,3)]
    have "data_at w2 = data_at w1" using RegisterStoredBlob_step[OF unregistered(4)] by (intro data_at_cong) (simp add: db_step_def)
    then have "data_at w' ref k = Some y \<longrightarrow> data_at w1 ref k = Some y"
      using unregistered(5) data_at_dropped[of w2 phys ?key 3 ref k y] by (elim disjE conjE) simp_all
    moreover have "w_assets w' = w_assets w2" using unregistered(5) by (auto simp: drop_blob_eq)
    ultimately show ?thesis using p RegisterStoredBlob_from[OF _ unregistered(4), of x] by auto
  next
    case (stored repo w0 sid sname phys w1 sz w2 a)
    note p = put[OF stored(4,6)]
    have "data_at w' = data_at w1"
      using RegisterStoredBlob_step[OF stored(9)] stored(10) by (intro data_at_cong) (simp add: db_step_def)
    moreover have "w_assets w' = w_assets w2" using stored(10) by simp
    ultimately show ?thesis using p RegisterStoredBlob_from[OF _ stored(9), of x] by auto
  qed
  then show "x \<in> set (w_assets w') \<Longrightarrow> row_from w path ?key x"
    and "data_at w' ref k = Some y \<Longrightarrow> data_at w ref k = Some y \<or> k = ?key \<and> y = fst reader" by blast+
qed

section \<open>What a deletion keeps\<close>

lemma get_by_path_row:
  assumes "assets_get_by_path w repo path n = Inr a"
  obtains row where "row \<in> set (w_assets w)" "a = scan_asset w row" "in_repo w repo row" "a_path row = path"
  using assms by (auto simp: assets_get_by_path_def row_or_not_found_def split: option.splits dest: find_SomeD)

lemma scan_asset_frame [simp]:
  "a_id (scan_asset w a) = a_id a" "a_path (scan_asset w a) = a_path a"
  "a_blob_key (scan_asset w a) = a_blob_key a" "a_blob_store_id (scan_asset w a) = a_blob_store_id a"
  "a_size_bytes (scan_asset w a) = a_size_bytes a" "a_repository_id (scan_asset w a) = a_repository_id a"
  "a_component_id (scan_asset w a) = a_component_id a" "a_last_modified (scan_asset w a) = a_last_modified a"
  "a_last_downloaded (scan_asset w a) = a_last_downloaded a" "a_created_at (scan_asset w a) = a_created_at a"
  "a_sha256 (scan_asset w a) = a_sha256 a"
  by (simp_all add: scan_asset_def split: option.splits)

lemma delete_locked_cases:
  assumes "delete_locked repoName path a st w = (w', r)"
  obtains (kept) "w' = w"  "\<And>x. r = Inr x \<Longrightarrow> x = (False, False)"
  | (row) w1 where "assets_delete w (a_id a) 43 = Inr w1" "w' = w1" "r = Inr (True, False)"
  | (bytes) w1 where "assets_delete w (a_id a) 43 = Inr w1"
      "assets_count_by_blob_key w (a_blob_key a) (a_id a) 42 = Inr 0"
      "store_delete w1 st (a_blob_key a) 44 = Inr w'" "r = Inr (True, True)"
  using assms by (auto simp: delete_locked_def Let_def split: sum.splits if_splits)

lemma delete_locked_bytes:
  assumes "delete_locked repoName path a st w = (w', r)" "b \<in> set (w_assets w')"
  shows "store_blob w' ref (a_blob_key b) = store_blob w ref (a_blob_key b)"
  using assms(1)
proof (cases rule: delete_locked_cases)
  case (row w1)
  then show ?thesis by (auto simp: assets_delete_def store_blob_def)
next
  case (bytes w1)
  have w1: "w1 = w\<lparr>w_assets := filter (\<lambda>x. a_id x \<noteq> a_id a) (w_assets w)\<rparr>"
    using bytes(1) by (simp add: assets_delete_def)
  then have b: "b \<in> set (w_assets w)" "a_id b \<noteq> a_id a"
    using assms(2) bytes(3) by auto
  with bytes(2) have "a_blob_key b \<noteq> a_blob_key a"
    by (auto simp: assets_count_by_blob_key_def filter_empty_conv split: if_splits)
  then show ?thesis
    using store_blob_delete[OF bytes(3)] w1 by (simp add: store_blob_def)
qed simp

lemma delete_locked_db_ok:
  assumes "delete_locked repoName path a st w = (w', r)" "db_ok w"
  shows "db_ok w'"
  using assms(1) by (cases rule: delete_locked_cases) (use assms(2) in \<open>auto intro: db_ok_writes\<close>)

lemma DecrementBlobStoreUsage_step:
  assumes "DecrementBlobStoreUsage w a n = Inr w'"
  shows "db_step w w' \<and> w_assets w' = w_assets w"
  using assms
  by (auto simp: DecrementBlobStoreUsage_def split: if_splits sum.splits
      dest: db_step_update_used_bytes update_used_assets)

lemma db_step_emit [simp]: "db_step w (v\<lparr>w_events := ev\<rparr>) = db_step w v"
  by (simp add: db_step_def)

lemma DeleteArtifact_cases:
  assumes "DeleteArtifact d w repoName path = (w', r)"
  obtains (noop) "w' = w"
  | (ran) a w1 x where "assets_get_by_path w repoName path 40 = Inr a"
      "delete_locked repoName path a (pinned_store d w (a_blob_store_id a) 45) w = (w1, x)"
      "db_step w1 w'" "w_assets w' = w_assets w1"
proof (cases "assets_get_by_path w repoName path 40")
  case (Inl e)
  then have "w' = w" using assms by (auto simp: DeleteArtifact_def split: if_splits)
  then show ?thesis by (rule noop)
next
  case (Inr a)
  let ?f = "delete_locked repoName path a (pinned_store d w (a_blob_store_id a) 45)"
  obtain w1 y where y: "with_blob_key_lock w (a_blob_key a) 10 ?f = (w1, y)" by force
  have tail: "db_step w1 (best_effort w1 (DecrementBlobStoreUsage w1 a 46)) \<and>
      w_assets (best_effort w1 (DecrementBlobStoreUsage w1 a 46)) = w_assets w1"
    by (cases "DecrementBlobStoreUsage w1 a 46") (simp_all add: DecrementBlobStoreUsage_step)
  have "db_step w1 w'" "w_assets w' = w_assets w1"
    using assms Inr y tail
    by (auto simp: DeleteArtifact_def Let_def split: sum.splits if_splits intro: db_step_trans)
  moreover have "w' = w" if "w_fault w ''Assets.WithBlobKeyLock'' (a_blob_key a) 10"
    using that assms Inr by (simp add: DeleteArtifact_def Let_def with_blob_key_lock_def)
  moreover have "\<exists>x. ?f w = (w1, x)" if "\<not> w_fault w ''Assets.WithBlobKeyLock'' (a_blob_key a) 10"
    using y that by (auto simp: with_blob_key_lock_def split: if_splits prod.splits sum.splits)
  ultimately show ?thesis
    using Inr noop ran by blast
qed

lemma DeleteArtifact_db_ok:
  assumes "db_ok w" "DeleteArtifact d w repoName path = (w', r)"
  shows "db_ok w'"
  using assms(2) by (cases rule: DeleteArtifact_cases) (use assms(1) delete_locked_db_ok db_step_db_ok in blast)+

lemma DeleteArtifact_from:
  assumes "DeleteArtifact d w repoName path = (w', r)"
  shows "set (w_assets w') \<subseteq> set (w_assets w)" "data_at w' ref k = Some y \<Longrightarrow> data_at w ref k = Some y"
proof -
  have "set (w_assets w') \<subseteq> set (w_assets w) \<and> (data_at w' ref k = Some y \<longrightarrow> data_at w ref k = Some y)"
    using assms
  proof (cases rule: DeleteArtifact_cases)
    case (ran a w1 x)
    have "data_at w' = data_at w1" using ran(3) by (intro data_at_cong) (simp add: db_step_def)
    moreover have "set (w_assets w1) \<subseteq> set (w_assets w) \<and> (data_at w1 ref k = Some y \<longrightarrow> data_at w ref k = Some y)"
      using ran(2)
    proof (cases rule: delete_locked_cases)
      case (row v)
      then have "data_at v = data_at w" by (intro data_at_cong) (auto simp: assets_delete_def)
      with row show ?thesis by (auto simp: assets_delete_def)
    next
      case (bytes v)
      have "w_assets w1 = w_assets v" using bytes(3) by auto
      moreover have "data_at v = data_at w" using bytes(1) by (intro data_at_cong) (auto simp: assets_delete_def)
      ultimately show ?thesis using bytes(1) data_at_delete[OF bytes(3), of ref k] by (auto simp: assets_delete_def split: if_splits)
    qed simp
    ultimately show ?thesis using ran(4) by simp
  qed simp
  then show "set (w_assets w') \<subseteq> set (w_assets w)" "data_at w' ref k = Some y \<Longrightarrow> data_at w ref k = Some y" by blast+
qed

text \<open>
  C1. Deleting an artifact never takes away bytes a remaining row still names, in any physical
  store and whatever database, lock or store call fails along the way: several rows may share a
  blob key (an OCI tag and its digest alias, a mounted blob).
\<close>

theorem DeleteArtifact_keeps_referenced_bytes:
  assumes "DeleteArtifact d w repoName path = (w', r)" "b \<in> set (w_assets w')"
  shows "store_blob w' ref (a_blob_key b) = store_blob w ref (a_blob_key b)"
  using assms(1)
proof (cases rule: DeleteArtifact_cases)
  case (ran a w1 x)
  have "store_blob w1 ref (a_blob_key b) = store_blob w ref (a_blob_key b)"
    using delete_locked_bytes[OF ran(2)] assms(2) ran(4) by simp
  with db_step_store_blob[OF ran(3)] show ?thesis by simp
qed simp

text \<open>
  Uploads and deletions keep the schema: unique ids, names and (repository, path) slots, and
  no dangling component, repository or blob-store reference, under every fault plan.
\<close>

lemma artifact_operations_keep_schema:
  assumes "db_ok w"
  shows "db_ok (fst (StoreArtifact d w repoName path ctype co reader decl)) \<and>
    db_ok (fst (DeleteArtifact d w repoName path)) \<and> db_ok (fst (FetchArtifact d w repoName path))"
proof (intro conjI)
  show "db_ok (fst (StoreArtifact d w repoName path ctype co reader decl))"
    by (metis StoreArtifact_db_ok assms prod.collapse)
  show "db_ok (fst (DeleteArtifact d w repoName path))"
    by (metis DeleteArtifact_db_ok assms prod.collapse)
  show "db_ok (fst (FetchArtifact d w repoName path))"
    using assms by (auto simp: FetchArtifact_def db_ok_def split: sum.splits)
qed

section \<open>Round trip\<close>

lemma find_static:
  assumes "map bs_static bs = map bs_static bs'"
  shows "map_option bs_static (find (\<lambda>b. bs_id b = i) bs) = map_option bs_static (find (\<lambda>b. bs_id b = i) bs')"
  using assms
proof (induction bs arbitrary: bs')
  case (Cons b bs)
  then obtain c cs where bs': "bs' = c # cs" "bs_static b = bs_static c" "map bs_static bs = map bs_static cs"
    by auto
  then have "bs_id b = bs_id c" by (simp add: bs_static_def) (metis blob_store.ext_inject blob_store.surjective blob_store.update_convs(6))
  with bs' Cons.IH show ?case by simp
qed simp

lemma PhysicalStore_static:
  assumes "bs_static b = bs_static b'" "w_fault w = no_faults" "w_fault w' = no_faults"
  shows "PhysicalStore d w b n = PhysicalStore d w' b' n'"
proof -
  have "bs_id b = bs_id b'" "bs_type b = bs_type b'" "bs_config b = bs_config b'"
    using assms(1) unfolding bs_static_def
    by (metis blob_store.ext_inject blob_store.surjective blob_store.update_convs(6))+
  with assms(2,3) show ?thesis
    by (simp add: PhysicalStore_def registry_get_def open_descriptor_def guard_io_def)
qed

lemma pinned_store_static:
  assumes "map bs_static (w_blobs w) = map bs_static (w_blobs w')" "w_fault w = no_faults" "w_fault w' = no_faults"
  shows "pinned_store d w i n = pinned_store d w' i n'"
  using find_static[OF assms(1), of i] PhysicalStore_static[OF _ assms(2,3)] assms(2,3)
  by (auto simp: pinned_store_def blobs_get_by_id_def row_or_not_found_def guard_io_def
      split: option.splits)

lemma assets_create_row:
  assumes "assets_create w a n = Inr (w', a')"
  obtains row where "row \<in> set (w_assets w')" "a_repository_id row = a_repository_id a" "a_path row = a_path a"
    "a_blob_key row = a_blob_key a" "a_blob_store_id row = a_blob_store_id a" "a_size_bytes row = a_size_bytes a"
    "a_sha256 row = a_sha256 a" "a_id row = a_id a'"
  using assms
proof (cases rule: assets_create_cases)
  case (upd old)
  then have "old \<in> set (w_assets w)" "same_slot a old" by (auto dest: find_SomeD)
  with upd show ?thesis
    by (intro that[of "upsert_asset a (w_now w) old"]) (auto simp: set_upd_where upsert_asset_def image_iff intro!: bexI[of _ old])
next
  case (ins row)
  then show ?thesis by (intro that[of row]) auto
qed

lemma in_repo_iff:
  assumes "db_ok w" "repo \<in> set (w_repos w)"
  shows "in_repo w (r_name repo) a \<longleftrightarrow> a_repository_id a = r_id repo"
proof -
  have dist: "distinct (map r_id (w_repos w))" "distinct (map r_name (w_repos w))"
    using assms(1) unfolding db_ok_def by simp_all
  have repo: "repo_by_id w (r_id repo) = Some repo"
    unfolding repo_by_id_def by (rule find_key_unique[OF dist(1) assms(2)])
  show ?thesis
  proof
    assume "in_repo w (r_name repo) a"
    then obtain r where "find (\<lambda>r. r_id r = a_repository_id a) (w_repos w) = Some r" "r_name r = r_name repo"
      by (auto simp: in_repo_def repo_by_id_def split: option.splits)
    moreover from this have "r = repo" using dist(2) assms(2) by (metis distinct_map find_SomeD inj_onD)
    ultimately show "a_repository_id a = r_id repo" by (auto dest: find_SomeD)
  qed (simp add: in_repo_def repo)
qed

lemma get_by_path_unique:
  assumes "db_ok w" "row \<in> set (w_assets w)" "repo \<in> set (w_repos w)" "r_id repo = a_repository_id row"
    "\<not> w_fault w ''Assets.GetByPath'' (a_path row) n"
  shows "assets_get_by_path w (r_name repo) (a_path row) n = Inr (scan_asset w row)"
proof -
  have dist: "distinct (map (\<lambda>a. (a_repository_id a, a_path a)) (w_assets w))"
    using assms(1) unfolding db_ok_def by simp
  note in_row = in_repo_iff[OF assms(1,3)]
  have "find (\<lambda>a. in_repo w (r_name repo) a \<and> a_path a = a_path row) (w_assets w) = Some row"
  proof (rule find_unique[OF assms(2)])
    show "in_repo w (r_name repo) row \<and> a_path row = a_path row" using in_row assms(4) by simp
    fix s assume "s \<in> set (w_assets w)" "in_repo w (r_name repo) s \<and> a_path s = a_path row"
    then show "s = row" using in_row assms(2,4) dist by (auto simp: distinct_map inj_on_def)
  qed
  with assms(5) show ?thesis by (simp add: assets_get_by_path_def row_or_not_found_def)
qed

lemma repos_get_row:
  "repos_get w name n = Inr repo \<Longrightarrow> repo \<in> set (w_repos w) \<and> r_name repo = name"
  by (auto simp: repos_get_def row_or_not_found_def split: option.splits dest: find_SomeD)

lemma register_locked_row:
  assumes "register_locked repo sid sname prev c a w = (w', Inr (c1, a1))"
  obtains row where "row \<in> set (w_assets w')" "a_repository_id row = a_repository_id a" "a_path row = a_path a"
    "a_blob_key row = a_blob_key a" "a_blob_store_id row = a_blob_store_id a" "a_size_bytes row = a_size_bytes a"
    "a_sha256 row = a_sha256 a"
  using assms
proof (cases rule: register_locked_cases)
  case (ok w1 c1' w2 a2)
  from ok(3) obtain row where row: "row \<in> set (w_assets w2)" "a_repository_id row = a_repository_id a"
    "a_path row = a_path a" "a_blob_key row = a_blob_key a" "a_blob_store_id row = a_blob_store_id a"
    "a_size_bytes row = a_size_bytes a" "a_sha256 row = a_sha256 a"
    by (rule assets_create_row) simp_all
  have "w_assets w' = w_assets w2"
    using ok(4) update_used_assets by (cases "blobs_update_used_bytes w2 sname (reg_delta w prev a) 7") auto
  with row that show ?thesis by metis
qed simp

lemma RegisterStoredBlob_row:
  assumes "RegisterStoredBlob d w repo path ctype co key sha256 sha1 md5 sz sid sname = (w', Inr a1)" "sid \<noteq> []"
  obtains row where "row \<in> set (w_assets w')" "a_repository_id row = r_id repo" "a_path row = path"
    "a_blob_key row = key" "a_blob_store_id row = sid" "a_size_bytes row = sz" "a_sha256 row = sha256"
  using assms(1)
proof (cases rule: RegisterStoredBlob_run)
  case (stored w0 w1 sid' sname1 sname' prev c1 a1')
  from stored(4) obtain row where row: "row \<in> set (w_assets w1)" "a_repository_id row = r_id repo" "a_path row = path"
    "a_blob_key row = key" "a_blob_store_id row = sid'" "a_size_bytes row = sz" "a_sha256 row = sha256"
    by (rule register_locked_row) (simp_all add: new_asset_def)
  have "w_assets w' = w_assets w1" using stored(5) by (simp add: queueForScanning_def)
  moreover have "sid' = sid" using stored(1) assms(2) by simp
  ultimately show ?thesis using row that by metis
qed simp_all

lemma resolveBlobStoreRef_id:
  assumes "resolveBlobStoreRef d w repo n = (w', Inr (sid, sname))"
  shows "(\<exists>b\<in>set (w_blobs w). bs_id b = sid \<and> bs_name b = sname) \<or> sid = [] \<and> sname = []"
proof -
  have obj: "b \<in> set (w_blobs w)" if "resolveBlobStoreObj w repo n = Inr b" for b
    using that
    by (auto simp: resolveBlobStoreObj_def DefaultBlobStore_def blobs_get_by_id_def blobs_get_def
        blobs_list_def row_or_not_found_def Let_def guard_io_def split: option.splits if_splits sum.splits list.splits
        dest!: find_SomeD) (metis list.set_intros(1) set_sort)+
  have mem: "b \<in> set (w_blobs w)" if "b \<in> set (load_members w is k)" for b "is" k
    using that
    by (induction "is") (auto simp: blobs_get_by_id_def row_or_not_found_def guard_io_def split: if_splits option.splits dest: find_SomeD)
  show ?thesis
    using assms obj mem
    by (auto simp: resolveBlobStoreRef_def Let_def split: sum.splits if_splits prod.splits option.splits dest!: find_SomeD)
qed

lemma stored_is_fetched:
  assumes ok: "db_ok w" "w_fault w = no_faults"
    and store: "StoreArtifact d w repoName path ctype co reader decl = (w', Inr res)"
    and repo: "repos_get w repoName 0 = Inr repo"
    and resolves: "snd (resolveBlobStoreRef d w repo 11) = Inr (sid, sname)" "sid \<noteq> []"
  shows "\<exists>w'' a. FetchArtifact d w' repoName path = (w'', Inr (fst reader, a)) \<and>
    a_path a = path \<and> a_size_bytes a = int (length (fst reader)) \<and>
    a_sha256 a = d_sha256 d (fst reader) \<and> sr_size res = a_size_bytes a \<and> sr_sha256 res = a_sha256 a \<and>
    a_blob_key a = BlobKey d repoName path"
  using store
proof (cases rule: StoreArtifact_cases)
  case (stored repo' w0 sid' sname' phys w1 sz w2 a)
  let ?key = "BlobKey d repoName path"
  have "repo' = repo" using repo stored(1) by simp
  note stored = stored[unfolded this]
  obtain v where v: "resolveBlobStoreRef d w repo 11 = (v, Inr (sid, sname))"
    using resolves(1) by (metis prod.collapse)
  then have rbs: "sid' = sid" "w0 = v" "phys = pinned_store d w0 sid 13"
    using stored(4) by (auto simp: ResolveBlobStore_def)
  obtain rr where w0: "w0 = w\<lparr>w_rr := rr\<rparr>" using ResolveBlobStore_frame[OF stored(4)] by blast
  have w1: "w1 = set_store w0 phys (put_blob (w_phys w0 phys) ?key \<lparr>b_data = fst reader, b_mod_time = w_now w0\<rparr>)"
    by (rule store_put_ok[OF stored(6)])
  have step: "db_step w1 w2" by (rule RegisterStoredBlob_step[OF stored(9)])
  have blob1: "store_blob w1 phys ?key = Some \<lparr>b_data = fst reader, b_mod_time = w_now w0\<rparr>"
    using store_blob_put[OF stored(6)] by simp
  have sz: "sz = int (length (fst reader))"
    using stored(7,8) blob1 w0 w1 ok(2) by (auto simp: store_size_def blob_size_def guard_io_def)
  have "db_ok w1" using ok(1) w0 w1 by simp
  then have ok2: "db_ok w2" using step db_step_db_ok by blast
  obtain row where row: "row \<in> set (w_assets w2)" "a_repository_id row = r_id repo" "a_path row = path"
    "a_blob_key row = ?key" "a_blob_store_id row = sid" "a_size_bytes row = sz" "a_sha256 row = d_sha256 d (fst reader)"
    using RegisterStoredBlob_row[OF stored(9)] rbs(1) resolves(2) by metis
  have same: "w_repos w' = w_repos w" "w_fault w' = no_faults" "w_assets w' = w_assets w2"
    "map bs_static (w_blobs w') = map bs_static (w_blobs w0)" "store_blob w' = store_blob w1" "db_ok w'"
    using step w0 w1 ok(2) ok2 stored(10) by (auto simp: db_step_def store_blob_def fun_eq_iff)
  have "assets_get_by_path w' repoName path 30 = Inr (scan_asset w' row)"
    using get_by_path_unique[OF same(6), of row repo 30] row same repos_get_row[OF stored(1)] by simp
  moreover have "pinned_store d w' sid 31 = phys"
    unfolding rbs(3) by (rule pinned_store_static) (use same w0 ok(2) in auto)
  ultimately have "FetchArtifact d w' repoName path =
      (if d_downloads d then w'\<lparr>w_downloads := w_downloads w' @ [a_id row]\<rparr> else w', Inr (fst reader, scan_asset w' row))"
    using row same blob1 by (simp add: FetchArtifact_def store_get_def guard_io_def)
  with row sz stored(11) show ?thesis by simp
qed simp_all

text \<open>
  C2. What was stored is what is fetched: when no call fails and the repository's blob store (or
  a member of its group store) resolves, a successful upload makes the next fetch of the path
  return exactly the uploaded bytes, with a row whose size is their number and whose checksum is
  theirs. Both conditions matter: when the row of the store cannot be read, the upload falls back to the
  default store while the artifact's row names the other one.
\<close>

theorem StoreArtifact_FetchArtifact:
  assumes ok: "db_ok w" "w_fault w = no_faults"
    and store: "StoreArtifact d w repoName path ctype co reader decl = (w', Inr res)"
    and repo: "repos_get w repoName 0 = Inr repo"
    and resolves: "snd (resolveBlobStoreRef d w repo 11) = Inr (sid, sname)" "sid \<noteq> []"
  shows "\<exists>w'' a. FetchArtifact d w' repoName path = (w'', Inr (fst reader, a)) \<and>
    a_path a = path \<and> a_size_bytes a = int (length (fst reader)) \<and>
    a_sha256 a = d_sha256 d (fst reader) \<and> sr_size res = a_size_bytes a \<and> sr_sha256 res = a_sha256 a"
  using stored_is_fetched[OF assms] by blast

section \<open>Quotas\<close>

definition within_quota :: "blob_store \<Rightarrow> bool" where
  "within_quota b \<longleftrightarrow> 0 \<le> bs_used_bytes b \<and>
     (bs_type b = ''group'' \<or> (case bs_quota_bytes b of None \<Rightarrow> True | Some q \<Rightarrow> bs_used_bytes b \<le> q))"

definition usage_ok :: "world \<Rightarrow> bool" where
  "usage_ok w \<longleftrightarrow> (\<forall>b\<in>set (w_blobs w). within_quota b)"

text \<open>The counter update a successful headroom check allows, even where \<open>used + delta\<close> wraps.\<close>

lemma within_quota_update:
  assumes "within_quota b" "in_i64 (bs_used_bytes b + delta)"
    and "delta > 0 \<Longrightarrow> bs_type b \<noteq> ''group'' \<Longrightarrow> \<not> over_quota (bs_quota_bytes b) (bs_used_bytes b) delta"
  shows "within_quota (b\<lparr>bs_used_bytes := max 0 (bs_used_bytes b + delta)\<rparr>)"
  using assms i64_id[OF assms(2)]
  by (cases "delta > 0"; cases "bs_type b = ''group''") (auto simp: within_quota_def over_quota_def split: option.splits)

lemma usage_ok_update:
  assumes "usage_ok w" "blobs_update_used_bytes w sname delta n = Inr w'"
    and "\<And>b. b \<in> set (w_blobs w) \<Longrightarrow> bs_name b = sname \<Longrightarrow> delta > 0 \<Longrightarrow> bs_type b \<noteq> ''group'' \<Longrightarrow>
      \<not> over_quota (bs_quota_bytes b) (bs_used_bytes b) delta"
  shows "usage_ok w'"
proof -
  have i64: "in_i64 (bs_used_bytes b + delta)" if "b \<in> set (w_blobs w)" "bs_name b = sname" for b
    using assms(2) that by (auto simp: blobs_update_used_bytes_def split: if_splits)
  have "w_blobs w' = upd_where (\<lambda>b. bs_name b = sname)
        (\<lambda>b. b\<lparr>bs_used_bytes := max 0 (bs_used_bytes b + delta)\<rparr>) (w_blobs w)"
    using assms(2) by (auto simp: blobs_update_used_bytes_def split: if_splits)
  with assms(1) i64 assms(3) within_quota_update show ?thesis
    by (auto simp: usage_ok_def set_upd_where)
qed

lemma usage_ok_cong: "w_blobs w' = w_blobs w \<Longrightarrow> usage_ok w' = usage_ok w"
  by (simp add: usage_ok_def)

lemma register_locked_usage:
  assumes "register_locked repo sid sname prev c a w = (w', r)" "usage_ok w"
    and "\<And>b delta. b \<in> set (w_blobs w) \<Longrightarrow> bs_name b = sname \<Longrightarrow> quotaHeadroom w repo sid delta 4 = Inr () \<Longrightarrow>
      bs_type b \<noteq> ''group'' \<Longrightarrow> \<not> over_quota (bs_quota_bytes b) (bs_used_bytes b) delta"
  shows "usage_ok w'"
  using assms(1)
proof (cases rule: register_locked_cases)
  case (failed e)
  then show ?thesis using assms(2) db_step_components_create(3) usage_ok_cong by metis
next
  case (ok w1 c1 w2 a2)
  then have blobs: "w_blobs w2 = w_blobs w"
    using db_step_components_create(3) db_step_assets_create(2) by metis
  then have u2: "usage_ok w2" using assms(2) usage_ok_cong by blast
  show ?thesis
  proof (cases "blobs_update_used_bytes w2 sname (reg_delta w prev a) 7")
    case (Inl e)
    with ok(4) u2 show ?thesis by simp
  next
    case (Inr w3)
    have "usage_ok w3"
      by (rule usage_ok_update[OF u2 Inr]) (use assms(3) ok(1) in \<open>simp add: blobs\<close>)
    with Inr ok(4) u2 show ?thesis by simp
  qed
qed

lemma quotaHeadroom_pinned:
  assumes "db_ok w" "b \<in> set (w_blobs w)" "bs_id b \<noteq> []" "\<not> w_fault w ''Blobs.GetByID'' (bs_id b) n"
    and "quotaHeadroom w repo (bs_id b) delta n = Inr ()" "bs_type b \<noteq> ''group''"
  shows "\<not> over_quota (bs_quota_bytes b) (bs_used_bytes b) delta"
proof -
  have "find (\<lambda>c. bs_id c = bs_id b) (w_blobs w) = Some b"
    using assms(1,2) by (intro find_key_unique) (simp_all add: db_ok_def)
  with assms(3-6) show ?thesis
    by (auto simp: quotaHeadroom_def storeForQuota_def blobs_get_by_id_def row_or_not_found_def guard_io_def split: if_splits)
qed

text \<open>The store and the counter name a registration ends up with belong to one row.\<close>

lemma register_store_name:
  assumes ok: "db_ok w" "\<forall>b\<in>set (w_blobs w). bs_id b \<noteq> [] \<and> bs_name b \<noteq> []"
    and pinned: "sid = [] \<or> (\<exists>b\<in>set (w_blobs w). bs_id b = sid \<and> (sname = [] \<or> sname = bs_name b))"
    and readable: "\<forall>i n. \<not> w_fault w ''Blobs.GetByID'' i n"
    and res: "(if sid = [] then resolveBlobStoreRef d w repo 20 else (w, Inr (sid, sname))) = (w0, Inr (i, nm1))"
    and nm: "nm = (if nm1 = [] then (case blobs_get_by_id w0 i 23 of Inr bs \<Rightarrow> bs_name bs | Inl _ \<Rightarrow> []) else nm1)"
  shows "(\<exists>rr. w0 = w\<lparr>w_rr := rr\<rparr>) \<and> ((\<exists>b\<in>set (w_blobs w). bs_id b = i \<and> bs_name b = nm) \<or> nm = [])"
proof -
  obtain rr where w0: "w0 = w\<lparr>w_rr := rr\<rparr>"
    using res resolveBlobStoreRef_frame[of d w repo 20] by (cases "sid = []") (auto intro: that[of "w_rr w"])
  have found: "find (\<lambda>c. bs_id c = bs_id b) (w_blobs w) = Some b" if "b \<in> set (w_blobs w)" for b
    using ok(1) that by (intro find_key_unique) (simp_all add: db_ok_def)
  have "(\<exists>b\<in>set (w_blobs w). bs_id b = i \<and> bs_name b = nm) \<or> nm = []"
  proof (cases "sid = []")
    case True
    then have "(\<exists>b\<in>set (w_blobs w). bs_id b = i \<and> bs_name b = nm1) \<or> i = [] \<and> nm1 = []"
      using res resolveBlobStoreRef_id by simp
    then show ?thesis using nm ok(2) w0
      by (auto simp: blobs_get_by_id_def row_or_not_found_def guard_io_def split: option.splits dest!: find_SomeD)
  next
    case False
    then obtain b where "b \<in> set (w_blobs w)" "bs_id b = i" "nm1 = [] \<or> nm1 = bs_name b"
      using pinned res by auto
    then show ?thesis using nm w0 found[of b] readable
      by (auto simp: blobs_get_by_id_def row_or_not_found_def guard_io_def)
  qed
  with w0 show ?thesis by blast
qed

lemma register_locked_within_quota:
  assumes ok: "db_ok w" "usage_ok w" "\<forall>b\<in>set (w_blobs w). bs_id b \<noteq> [] \<and> bs_name b \<noteq> []"
    and readable: "\<forall>i n. \<not> w_fault w ''Blobs.GetByID'' i n"
    and names: "(\<exists>b\<in>set (w_blobs w). bs_id b = i \<and> bs_name b = nm) \<or> nm = []"
    and reg: "w1 = w \<or> (\<exists>r. register_locked repo i nm prev c a w = (w1, r))"
  shows "usage_ok w1"
proof -
  have head: "\<not> over_quota (bs_quota_bytes b) (bs_used_bytes b) delta"
    if "b \<in> set (w_blobs w)" "bs_name b = nm" "quotaHeadroom w repo i delta 4 = Inr ()" "bs_type b \<noteq> ''group''" for b delta
  proof -
    have "nm \<noteq> []" using that ok(3) by auto
    then obtain b' where b': "b' \<in> set (w_blobs w)" "bs_id b' = i" "bs_name b' = nm" using names by blast
    have "distinct (map bs_name (w_blobs w))" using ok(1) by (simp add: db_ok_def)
    then have "b' = b" using b' that by (auto simp: distinct_map inj_on_def)
    then show ?thesis
      using quotaHeadroom_pinned[of w b 4 repo delta] that b' ok readable by auto
  qed
  show ?thesis
    using reg register_locked_usage[OF _ ok(2) head] ok(2) by blast
qed

text \<open>
  C3. Registrations never push a blob store over its quota: whatever is registered, into whichever
  store, and whether or not the call succeeds, every store that was within its quota stays within
  it, as long as the store's row can be read under the lock. The bound also holds where
  \<open>used + delta\<close> wraps around in \<^verbatim>\<open>int64\<close>: the check then passes, but PostgreSQL refuses the update.
\<close>

theorem RegisterStoredBlob_within_quota:
  assumes ok: "db_ok w" "usage_ok w" "\<forall>b\<in>set (w_blobs w). bs_id b \<noteq> [] \<and> bs_name b \<noteq> []"
    and pinned: "sid = [] \<or> (\<exists>b\<in>set (w_blobs w). bs_id b = sid \<and> (sname = [] \<or> sname = bs_name b))"
    and readable: "\<forall>i n. \<not> w_fault w ''Blobs.GetByID'' i n"
  shows "usage_ok (fst (RegisterStoredBlob d w repo path ctype co key sha256 sha1 md5 sz sid sname))"
proof -
  obtain w' r where run: "RegisterStoredBlob d w repo path ctype co key sha256 sha1 md5 sz sid sname = (w', r)"
    by force
  have locked: "usage_ok w1"
    if res: "(if sid = [] then resolveBlobStoreRef d w repo 20 else (w, Inr (sid, sname))) = (w0, Inr (i, nm1))"
      and nm: "nm = (if nm1 = [] then (case blobs_get_by_id w0 i 23 of Inr bs \<Rightarrow> bs_name bs | Inl _ \<Rightarrow> []) else nm1)"
      and reg: "w1 = w0 \<or> (\<exists>r. register_locked repo i nm prev c a w0 = (w1, r))" for w0 i nm1 nm prev c a w1
    using register_store_name[OF ok(1,3) pinned readable res nm] ok readable
    by (elim conjE exE) (rule register_locked_within_quota[OF _ _ _ _ _ reg], auto simp: usage_ok_def)
  from run show ?thesis
  proof (cases rule: RegisterStoredBlob_run)
    case (unresolved e)
    then show ?thesis using resolveBlobStoreRef_frame[OF unresolved(2)] ok(2) run by (auto simp: usage_ok_def)
  next
    case (refused w0 w1 i nm1 nm prev c a e)
    then show ?thesis using locked[OF refused(1,2,3)] run by simp
  next
    case (stored w0 w1 i nm1 nm prev c1 a1)
    then have "usage_ok w1" using locked[OF stored(1,2)] by blast
    then show ?thesis using stored(5) run by (simp add: usage_ok_def queueForScanning_def)
  qed
qed

section \<open>A sample installation\<close>

text \<open>
  One raw repository on one local blob store with a 10-byte quota, holding one 3-byte blob that two
  paths share. The digests are instantiated by the identity.
\<close>

definition demo_deps :: deps where
  "demo_deps = \<lparr>d_registry = True, d_webhooks = True, d_downloads = True, d_scanner = True,
     d_sha256 = (\<lambda>s. s), d_sha1 = (\<lambda>s. s), d_md5 = (\<lambda>s. s), d_user_id = ''alice''\<rparr>"

definition demo_repo :: repository where
  "demo_repo = \<lparr>r_id = ''r1'', r_name = ''raw'', r_format = ''raw'', r_type = ''hosted'',
     r_blob_store_id = Some ''b1'', r_online = True, r_format_config = [], r_proxy_config = [], r_cleanup_policy_ids = [],
     r_quota_bytes = None, r_routing_rule_id = None, r_allow_anonymous = False\<rparr>"

definition demo_store :: blob_store where
  "demo_store = \<lparr>bs_id = ''b1'', bs_name = ''default'', bs_type = ''local'', bs_config = [],
     bs_quota_bytes = Some 10, bs_used_bytes = 3\<rparr>"

definition demo_comp :: component where
  "demo_comp = (new_component demo_repo \<lparr>co_group = [], co_name = ''a'', co_version = []\<rparr> ''a.txt'')\<lparr>c_id := ''x''\<rparr>"

definition demo_asset :: "string \<Rightarrow> string \<Rightarrow> asset" where
  "demo_asset i path = (new_asset demo_deps demo_repo path ''text/plain'' ''b1'' ''raw:a.txt'' ''abc'' ''abc'' ''abc'' 3)
     \<lparr>a_id := i, a_component_id := ''x''\<rparr>"

definition demo_world :: world where
  "demo_world = \<lparr>w_repos = [demo_repo], w_blobs = [demo_store], w_comps = [demo_comp],
     w_assets = [demo_asset ''xx'' ''a.txt'', demo_asset ''xxx'' ''b.txt''],
     w_phys = (\<lambda>_. [])(StoreOf ''b1'' := [(''raw:a.txt'', \<lparr>b_data = ''abc'', b_mod_time = 5\<rparr>)]),
     w_rr = (\<lambda>_. 0), w_seq = 3, w_gen_id = (\<lambda>n. replicate (Suc n) (CHR ''x'')), w_uuid_ok = (\<lambda>s. s \<noteq> []),
     w_now = 100, w_fault = no_faults, w_events = [], w_downloads = [], w_scans = []\<rparr>"

lemma inj_replicate: "inj (\<lambda>n. replicate (Suc n) c)"
  by (rule injI) (metis Suc_inject length_replicate)

lemma demo_world_db_ok: "db_ok demo_world"
proof -
  have "{..<3::nat} = {0, 1, 2}" by auto
  with inj_replicate[of "CHR ''x''"] show ?thesis
    by (simp add: db_ok_def demo_world_def demo_store_def demo_repo_def demo_comp_def demo_asset_def
        new_component_def new_asset_def numeral_eq_Suc)
qed

lemma demo_world_usage_ok: "usage_ok demo_world"
  by (simp add: usage_ok_def demo_world_def demo_store_def within_quota_def)

lemma demo_asset_key: "a_blob_key (demo_asset i p) = ''raw:a.txt''"
  by (simp add: demo_asset_def new_asset_def)

theorem DeleteArtifact_keeps_referenced_bytes_witness:
  "store_blob (fst (DeleteArtifact demo_deps demo_world ''raw'' ''a.txt'')) (StoreOf ''b1'') ''raw:a.txt''
     = Some \<lparr>b_data = ''abc'', b_mod_time = 5\<rparr>"
proof -
  let ?del = "DeleteArtifact demo_deps demo_world ''raw'' ''a.txt''"
  have "demo_asset ''xxx'' ''b.txt'' \<in> set (w_assets (fst ?del))"
    by code_simp
  moreover have "?del = (fst ?del, snd ?del)" by simp
  ultimately have "store_blob (fst ?del) (StoreOf ''b1'') (a_blob_key (demo_asset ''xxx'' ''b.txt''))
      = store_blob demo_world (StoreOf ''b1'') (a_blob_key (demo_asset ''xxx'' ''b.txt''))"
    by (intro DeleteArtifact_keeps_referenced_bytes)
  also have "store_blob demo_world (StoreOf ''b1'') (a_blob_key (demo_asset ''xxx'' ''b.txt''))
      = Some \<lparr>b_data = ''abc'', b_mod_time = 5\<rparr>" by code_simp
  finally show ?thesis by (simp only: demo_asset_key)
qed

lemma artifact_operations_keep_schema_witness:
  "db_ok demo_world \<and> db_ok (fst (DeleteArtifact demo_deps demo_world ''raw'' ''a.txt''))"
  using artifact_operations_keep_schema[OF demo_world_db_ok] demo_world_db_ok by blast

abbreviation demo_coords :: coords where
  "demo_coords \<equiv> \<lparr>co_group = [], co_name = ''c'', co_version = ''2''\<rparr>"

abbreviation demo_upload :: "world \<times> store_result result" where
  "demo_upload \<equiv> StoreArtifact demo_deps demo_world ''raw'' ''c.txt'' ''text/plain'' demo_coords (''hello'', False) 5"

theorem StoreArtifact_FetchArtifact_witness:
  "\<exists>w'' a. FetchArtifact demo_deps (fst demo_upload) ''raw'' ''c.txt'' = (w'', Inr (''hello'', a)) \<and> a_size_bytes a = 5"
proof -
  have "is_ok (snd demo_upload)" by code_simp
  then obtain res where "demo_upload = (fst demo_upload, Inr res)" by (metis is_ok_iff prod.collapse)
  moreover have "repos_get demo_world ''raw'' 0 = Inr demo_repo" by code_simp
  moreover have "snd (resolveBlobStoreRef demo_deps demo_world demo_repo 11) = Inr (''b1'', ''default'')" by code_simp
  moreover have "w_fault demo_world = no_faults" by (simp add: demo_world_def)
  ultimately show ?thesis
    using StoreArtifact_FetchArtifact[OF demo_world_db_ok, of demo_deps "''raw''" "''c.txt''" "''text/plain''"
        demo_coords "(''hello'', False)" 5 "fst demo_upload" res demo_repo "''b1''" "''default''"] by auto
qed

theorem RegisterStoredBlob_within_quota_witness:
  "usage_ok (fst (RegisterStoredBlob demo_deps demo_world demo_repo ''c.txt'' ''text/plain'' demo_coords
     ''k'' ''h'' ''h'' ''h'' 8 ''b1'' []))"
proof -
  have "\<forall>b\<in>set (w_blobs demo_world). bs_id b \<noteq> [] \<and> bs_name b \<noteq> []"
    and "\<exists>b\<in>set (w_blobs demo_world). bs_id b = ''b1'' \<and> ([] = ([] :: string) \<or> [] = bs_name b)"
    and "\<forall>i n. \<not> w_fault demo_world ''Blobs.GetByID'' i n"
    by (simp_all add: demo_world_def demo_store_def)
  with RegisterStoredBlob_within_quota[OF demo_world_db_ok demo_world_usage_ok] show ?thesis by blast
qed

section \<open>Outcomes\<close>

text \<open>
  An upload the post-write quota check refuses is not harmless on a path that already exists:
  the put has overwritten the object of the old version, whose key depends on the path alone, and
  the clean-up then removes it. The row survives, and the path that could be fetched before can
  no longer be fetched.
\<close>

lemma refused_reupload_loses_old_version:
  "let w = demo_world;
       (w', r) = StoreArtifact demo_deps w ''raw'' ''a.txt'' ''text/plain'' demo_coords (replicate 8 CHR ''z'', False) 0
   in r = Inl (Wrapped ''blob store'' ErrQuotaExceeded) \<and>
      is_ok (snd (FetchArtifact demo_deps w ''raw'' ''a.txt'')) \<and>
      is_ok (assets_get_by_path w' ''raw'' ''a.txt'' 0) \<and>
      snd (FetchArtifact demo_deps w' ''raw'' ''a.txt'') = Inl (Wrapped ''blob missing'' ErrIO)"
  by code_simp

lemma in_repo_same:
  assumes "db_ok w" "in_repo w name a" "in_repo w name b"
  shows "a_repository_id a = a_repository_id b"
proof -
  have "distinct (map r_name (w_repos w))" using assms(1) by (simp add: db_ok_def)
  moreover obtain r s where "find (\<lambda>r. r_id r = a_repository_id a) (w_repos w) = Some r" "r_name r = name"
      "find (\<lambda>r. r_id r = a_repository_id b) (w_repos w) = Some s" "r_name s = name"
    using assms(2,3) by (auto simp: in_repo_def repo_by_id_def split: option.splits)
  ultimately have "r = s" "r_id r = a_repository_id a" "r_id s = a_repository_id b"
    by (auto simp: distinct_map inj_on_def dest!: find_SomeD)
  then show ?thesis by simp
qed

lemma path_slot_unique:
  assumes "db_ok w" "a \<in> set (w_assets w)" "b \<in> set (w_assets w)"
    "in_repo w name a" "in_repo w name b" "a_path a = a_path b"
  shows "a = b"
proof -
  have "distinct (map (\<lambda>a. (a_repository_id a, a_path a)) (w_assets w))" using assms(1) by (simp add: db_ok_def)
  with assms in_repo_same[OF assms(1,4,5)] show ?thesis by (auto simp: distinct_map inj_on_def)
qed

lemma deleted_path_gone:
  assumes "db_ok w" "row \<in> set (w_assets w)" "in_repo w name row"
    and "w_assets w' = filter (\<lambda>x. a_id x \<noteq> a_id row) (w_assets w)" "w_repos w' = w_repos w"
    and "\<not> w_fault w' ''Assets.GetByPath'' (a_path row) n"
  shows "assets_get_by_path w' name (a_path row) n = Inl ErrNotFound"
proof -
  have "find (\<lambda>x. in_repo w name x \<and> a_path x = a_path row) (filter (\<lambda>x. a_id x \<noteq> a_id row) (w_assets w)) = None"
    using path_slot_unique[OF assms(1) _ assms(2) _ assms(3)] by (auto simp: find_None_iff)
  with assms(4-6) in_repo_repos[OF assms(5)] show ?thesis
    by (simp add: assets_get_by_path_def row_or_not_found_def guard_io_def)
qed

definition shared_key :: "world \<Rightarrow> asset \<Rightarrow> bool" where
  "shared_key w a \<longleftrightarrow> (\<exists>b\<in>set (w_assets w). a_blob_key b = a_blob_key a \<and> a_id b \<noteq> a_id a)"

lemma delete_locked_complete:
  assumes "w_fault w = no_faults" "w_uuid_ok w (a_id a)" "assets_get_by_path w repoName path n = Inr a"
  defines "w1 \<equiv> w\<lparr>w_assets := filter (\<lambda>x. a_id x \<noteq> a_id a) (w_assets w)\<rparr>"
  shows "delete_locked repoName path a st w =
    (if shared_key w a then w1 else set_store w1 st (del_blob (w_phys w st) (a_blob_key a)), Inr (True, \<not> shared_key w a))"
proof -
  have "assets_get_by_path w repoName path 41 = Inr a"
    using assms(1,3) by (simp add: assets_get_by_path_def guard_io_def)
  moreover have "assets_delete w (a_id a) 43 = Inr w1"
    using assms(1) by (simp add: assets_delete_def guard_io_def w1_def)
  moreover have "assets_count_by_blob_key w (a_blob_key a) (a_id a) 42 = Inr 0 \<longleftrightarrow> \<not> shared_key w a"
    using assms(1,2) by (auto simp: assets_count_by_blob_key_def guard_io_def filter_empty_conv shared_key_def)
  ultimately show ?thesis
    using assms(1) by (auto simp: delete_locked_def Let_def store_delete_def guard_io_def w1_def)
qed

text \<open>
  Deleting is complete and idempotent: when no call fails, the deletion of an existing artifact
  succeeds, the path is gone, its bytes have left the store if and only if no other row names
  their key, and a second deletion changes nothing.
\<close>

lemma DeleteArtifact_complete:
  assumes "db_ok w" "w_fault w = no_faults" "\<forall>a\<in>set (w_assets w). w_uuid_ok w (a_id a)"
    and "assets_get_by_path w repoName path 40 = Inr a"
    and "DeleteArtifact d w repoName path = (w', r)"
  shows "r = Inr () \<and> assets_get_by_path w' repoName path 40 = Inl ErrNotFound \<and>
    (store_blob w' (pinned_store d w (a_blob_store_id a) 45) (a_blob_key a) =
      (if shared_key w a
       then store_blob w (pinned_store d w (a_blob_store_id a) 45) (a_blob_key a) else None)) \<and>
    DeleteArtifact d w' repoName path = (w', Inr ())"
proof -
  let ?st = "pinned_store d w (a_blob_store_id a) 45"
  define w1 where "w1 = w\<lparr>w_assets := filter (\<lambda>x. a_id x \<noteq> a_id a) (w_assets w)\<rparr>"
  define w2 where "w2 = (if shared_key w a then w1 else set_store w1 ?st (del_blob (w_phys w ?st) (a_blob_key a)))"
  define w3 where "w3 = (if shared_key w a then w2 else best_effort w2 (DecrementBlobStoreUsage w2 a 46))"
  obtain row where row: "row \<in> set (w_assets w)" "a = scan_asset w row" "in_repo w repoName row" "a_path row = path"
    using assms(4) by (rule get_by_path_row)
  have uuid: "w_uuid_ok w (a_id a)" using assms(3) row by simp
  have "with_blob_key_lock w (a_blob_key a) 10 (delete_locked repoName path a ?st) = (w2, Inr (True, \<not> shared_key w a))"
    using delete_locked_complete[OF assms(2) uuid assms(4)] assms(2)
    by (cases "shared_key w a") (simp_all add: with_blob_key_lock_def w2_def w1_def)
  then have w': "w' = (if d_webhooks d then w3\<lparr>w_events := w_events w3 @ [delete_event repoName a]\<rparr> else w3)" "r = Inr ()"
    using assms(4,5) by (auto simp: DeleteArtifact_def Let_def w3_def)
  have "db_step w2 w3 \<and> w_assets w3 = w_assets w2"
    by (cases "DecrementBlobStoreUsage w2 a 46") (simp_all add: w3_def DecrementBlobStoreUsage_step)
  then have same: "w_assets w' = w_assets w1" "w_fault w' = no_faults" "store_blob w' = store_blob w2" "w_repos w' = w_repos w"
    using assms(2) w' by (auto simp: db_step_def w2_def w1_def store_blob_def fun_eq_iff)
  have gone: "assets_get_by_path w' repoName path 40 = Inl ErrNotFound"
    using deleted_path_gone[OF assms(1) row(1,3), of w' 40] same row by (simp add: w1_def)
  moreover have "store_blob w' ?st (a_blob_key a) = (if shared_key w a then store_blob w ?st (a_blob_key a) else None)"
    unfolding same by (auto simp: w2_def w1_def store_blob_def bs.get_del)
  ultimately show ?thesis
    using w' by (simp add: DeleteArtifact_def)
qed

lemma DeleteArtifact_complete_witness:
  "assets_get_by_path (fst (DeleteArtifact demo_deps demo_world ''raw'' ''a.txt'')) ''raw'' ''a.txt'' 40 = Inl ErrNotFound"
proof -
  have "w_fault demo_world = no_faults" "\<forall>a\<in>set (w_assets demo_world). w_uuid_ok demo_world (a_id a)"
    by (simp_all add: demo_world_def demo_asset_def)
  moreover have "assets_get_by_path demo_world ''raw'' ''a.txt'' 40 = Inr (demo_asset ''xx'' ''a.txt'')" by code_simp
  ultimately show ?thesis
    by (intro DeleteArtifact_complete[OF demo_world_db_ok, THEN conjunct2, THEN conjunct1]) (auto intro: prod.collapse[symmetric])
qed

lemma components_create_succeeds:
  assumes "w_fault w = no_faults" "c_repository_id c \<in> r_id ` set (w_repos w)"
  obtains w1 c1 where "components_create w c n = Inr (w1, c1)" "c_id c1 \<in> c_id ` set (w_comps w1)"
proof (cases "find (same_component c) (w_comps w)")
  case None
  have "repo_by_id w (c_repository_id c) \<noteq> None" using assms(2) by (simp add: repo_by_id_None)
  with None assms(1) show ?thesis
    by (intro that) (auto simp: components_create_def guard_io_def Let_def)
next
  case (Some e)
  have "repo_by_id w (c_repository_id c) \<noteq> None" using assms(2) by (simp add: repo_by_id_None)
  moreover have "c_id e \<in> c_id ` set (w_comps w)" using Some by (auto dest: find_SomeD)
  ultimately show ?thesis using Some assms(1)
    by (intro that[of "w\<lparr>w_comps := upd_where (\<lambda>r. c_id r = c_id e) (\<lambda>r. r\<lparr>c_extra := c_extra c\<rparr>) (w_comps w)\<rparr>"
          "c\<lparr>c_id := c_id e, c_created_at := c_created_at e\<rparr>"])
      (simp_all add: components_create_def guard_io_def table_simps)
qed

lemma register_locked_succeeds:
  assumes "w_fault w = no_faults" "c_repository_id c \<in> r_id ` set (w_repos w)"
    "a_repository_id a \<in> r_id ` set (w_repos w)" "a_blob_store_id a \<in> bs_id ` set (w_blobs w)"
    "\<And>delta. quotaHeadroom w repo sid delta 4 = Inr ()"
  shows "is_ok (snd (register_locked repo sid sname prev c a w))"
proof -
  obtain w1 c1 where c: "components_create w c 5 = Inr (w1, c1)" "c_id c1 \<in> c_id ` set (w_comps w1)"
    using components_create_succeeds[OF assms(1,2)] by metis
  have "w_repos w1 = w_repos w" "w_blobs w1 = w_blobs w" "w_fault w1 = no_faults"
    using db_step_components_create[OF c(1)] assms(1) by (simp_all add: db_step_def)
  then have "is_ok (assets_create w1 (a\<lparr>a_component_id := c_id c1\<rparr>) 6)"
    using assms c(2) by (auto simp: assets_create_def asset_fks_ok_alt guard_io_def Let_def split: option.splits)
  then obtain w2 a2 where "assets_create w1 (a\<lparr>a_component_id := c_id c1\<rparr>) 6 = Inr (w2, a2)"
    by (metis is_ok_iff prod.collapse)
  with assms(5) c(1) show ?thesis by (simp add: register_locked_def Let_def)
qed

lemma with_blob_key_lock_succeeds:
  assumes "f w = (w', Inr x)" "w_fault w = no_faults" "w_fault w' = no_faults"
  shows "with_blob_key_lock w key n f = (w', Inr x)"
  using assms by (simp add: with_blob_key_lock_def)

lemma RegisterStoredBlob_succeeds:
  assumes "w_fault w = no_faults" "repo \<in> set (w_repos w)" "b \<in> set (w_blobs w)" "bs_id b \<noteq> []" "bs_name b \<noteq> []"
    and "\<And>delta. quotaHeadroom w repo (bs_id b) delta 4 = Inr ()"
  shows "is_ok (snd (RegisterStoredBlob d w repo path ctype co key sha256 sha1 md5 sz (bs_id b) (bs_name b)))"
proof -
  define run0 where "run0 = register_locked repo (bs_id b) (bs_name b)
    (case assets_get_by_path w (r_name repo) path 1 of Inr p \<Rightarrow> Some p | Inl _ \<Rightarrow> None)
    (new_component repo co path) (new_asset d repo path ctype (bs_id b) key sha256 sha1 md5 sz)"
  have "is_ok (snd (run0 w))"
    unfolding run0_def by (rule register_locked_succeeds) (use assms in \<open>auto simp: new_component_def new_asset_def\<close>)
  then obtain w1 c1 a1 where run0: "run0 w = (w1, Inr (c1, a1))" by (metis is_ok_iff prod.collapse)
  have f1: "w_fault w1 = no_faults"
    using register_locked_step run0 assms(1) unfolding run0_def db_step_def by metis
  have lock: "with_blob_key_lock w k n run0 = (w1, Inr (c1, a1))" for k n
    by (rule with_blob_key_lock_succeeds[of run0]) (simp_all add: run0 assms(1) f1)
  have lock2: "with_blob_key_lock w k n (\<lambda>w. with_blob_key_lock w k' n' run0) = (w1, Inr (c1, a1))" for k n k' n'
    by (rule with_blob_key_lock_succeeds[of "\<lambda>w. with_blob_key_lock w k' n' run0"]) (simp_all add: lock assms(1) f1)
  have "RegisterStoredBlob d w repo path ctype co key sha256 sha1 md5 sz (bs_id b) (bs_name b) =
      (queueForScanning d w1 c1, Inr a1)"
    using assms(4,5) run0 lock lock2 unfolding RegisterStoredBlob_def run0_def Let_def by auto
  then show ?thesis by simp
qed

lemma resolveBlobStoreObj_cong:
  assumes "w_blobs v = w_blobs w" "w_fault v = w_fault w"
  shows "resolveBlobStoreObj v repo n = resolveBlobStoreObj w repo n"
proof -
  have "blobs_get_by_id v = blobs_get_by_id w" "blobs_get v = blobs_get w" "blobs_list v = blobs_list w"
    using assms by (simp_all add: blobs_get_by_id_def blobs_get_def blobs_list_def guard_io_def fun_eq_iff)
  then show ?thesis unfolding resolveBlobStoreObj_def DefaultBlobStore_def by (simp only:)
qed

text \<open>
  Uploads are accepted when nothing stands in their way: for an online repository whose blob
  store is a plain store, with no quota set, a body that reads to its end and has the declared
  length (if one was declared) is stored, when no call fails.
\<close>

lemma StoreArtifact_accepts:
  assumes "w_fault w = no_faults" "repos_get w repoName 0 = Inr repo" "r_online repo" "r_quota_bytes repo = None"
    and "db_ok w"
    and b: "\<And>n. resolveBlobStoreObj w repo n = Inr b" "bs_type b \<noteq> ''group''" "bs_quota_bytes b = None"
      "b \<in> set (w_blobs w)" "bs_id b \<noteq> []" "bs_name b \<noteq> []"
    and "decl \<le> 0 \<or> decl = int (length data)"
  shows "is_ok (snd (StoreArtifact d w repoName path ctype co (data, False) decl))"
proof -
  let ?key = "BlobKey d repoName path"
  define phys where "phys = pinned_store d w (bs_id b) 13"
  define w1 where "w1 = set_store w phys (put_blob (w_phys w phys) ?key \<lparr>b_data = data, b_mod_time = w_now w\<rparr>)"
  have w1: "w_blobs w1 = w_blobs w" "w_fault w1 = no_faults" "w_repos w1 = w_repos w"
    using assms(1) by (simp_all add: w1_def)
  have quota: "checkQuota v repo s n = Inr ()" if "w_blobs v = w_blobs w" "w_fault v = no_faults" for v s n
    using b assms(1,4) that resolveBlobStoreObj_cong[of v w repo n]
    by (simp add: checkQuota_def over_quota_def repo_quota_check_def)
  have "find (\<lambda>c. bs_id c = bs_id b) (w_blobs w) = Some b"
    using assms(5) b(4) by (intro find_key_unique) (simp_all add: db_ok_def)
  then have head: "quotaHeadroom w1 repo (bs_id b) delta 4 = Inr ()" for delta
    using b assms(4) w1 by (auto simp: quotaHeadroom_def storeForQuota_def repo_quota_check_def blobs_get_by_id_def
        row_or_not_found_def guard_io_def over_quota_def split: option.splits)
  have rbs: "ResolveBlobStore d w repo 11 = (w, bs_id b, bs_name b, phys)"
    using b by (simp add: ResolveBlobStore_def resolveBlobStoreRef_def phys_def)
  have put: "store_put w phys ?key data 0 = Inr w1"
    using assms(1) by (simp add: store_put_def w1_def guard_io_def)
  have reg: "is_ok (snd (RegisterStoredBlob d w1 repo path ctype co ?key s256 s1 s5 sz (bs_id b) (bs_name b)))" for s256 s1 s5 sz
    by (rule RegisterStoredBlob_succeeds) (use w1 b head repos_get_row[OF assms(2)] in auto)
  define sz where "sz = (if decl \<le> 0 then (case store_size w1 phys ?key 0 of Inr s \<Rightarrow> s | Inl _ \<Rightarrow> decl) else decl)"
  obtain w2 a where "RegisterStoredBlob d w1 repo path ctype co ?key (d_sha256 d data) (d_sha1 d data) (d_md5 d data) sz
      (bs_id b) (bs_name b) = (w2, Inr a)"
    using reg by (metis is_ok_iff prod.collapse)
  then show ?thesis
    using assms(2,3,12) quota[of w] quota[of w1] w1 assms(1) rbs put
    unfolding StoreArtifact_def Let_def fst_conv snd_conv
    by (cases "decl \<le> 0") (simp_all add: sz_def)
qed

definition demo_unlimited :: world where
  "demo_unlimited = demo_world\<lparr>w_blobs := [demo_store\<lparr>bs_quota_bytes := None\<rparr>]\<rparr>"

lemma StoreArtifact_accepts_witness:
  "is_ok (snd (StoreArtifact demo_deps demo_unlimited ''raw'' ''c.txt'' ''text/plain'' demo_coords (''hello'', False) 5))"
proof (rule StoreArtifact_accepts)
  show "w_fault demo_unlimited = no_faults" by (simp add: demo_unlimited_def demo_world_def)
  show "repos_get demo_unlimited ''raw'' 0 = Inr demo_repo" by code_simp
  show "r_online demo_repo" "r_quota_bytes demo_repo = None" by (simp_all add: demo_repo_def)
  show "db_ok demo_unlimited"
    using demo_world_db_ok by (subst db_ok_cong[of _ demo_world]) (simp_all add: demo_unlimited_def demo_world_def)
  show "resolveBlobStoreObj demo_unlimited demo_repo n = Inr (demo_store\<lparr>bs_quota_bytes := None\<rparr>)" for n
  proof -
    have "trim_space ''b1'' = ''b1''" by code_simp
    then show ?thesis
      by (simp add: resolveBlobStoreObj_def demo_unlimited_def demo_world_def demo_repo_def blobs_get_by_id_def
          guard_io_def row_or_not_found_def demo_store_def)
  qed
qed (simp_all add: demo_store_def demo_unlimited_def)

end
