(* ===== verification/Blob_GC.thy ===== *)
theory Blob_GC
  imports Base_Store
begin

text \<open>
  The blob garbage collector of \<^verbatim>\<open>internal/service/gc_service.go\<close>: blobs no asset names, older than a
  grace period, are removed and the store's usage counter follows. Go's zero \<^verbatim>\<open>time.Time\<close> is the time
  \<open>0\<close>; the clock is a function from the number of the reading to the time read.
\<close>

section \<open>Model\<close>

record gc_options =
  go_dry_run :: bool
  go_min_age :: int

record gc_result =
  gr_store :: string
  gr_scanned :: nat
  gr_orphans :: nat
  gr_freed :: int
  gr_dry_run :: bool
  gr_errors :: "string list"
  gr_aborted :: bool

record ref_index =
  ri_by_store :: "(string \<times> string list) list"
  ri_any_pos :: "string list"

type_synonym clock = "nat \<Rightarrow> time"

definition ref_has :: "ref_index \<Rightarrow> string \<Rightarrow> string \<Rightarrow> bool" where
  "ref_has i storeID key =
     (if key \<in> set (ri_any_pos i) then True
      else (case map_of (ri_by_store i) storeID of None \<Rightarrow> False | Some keys \<Rightarrow> key \<in> set keys))"

definition ref_add :: "ref_index \<Rightarrow> string \<times> string \<Rightarrow> ref_index" where
  "ref_add i r =
     (case r of (key, storeID) \<Rightarrow>
        if storeID = [] then i\<lparr>ri_any_pos := key # ri_any_pos i\<rparr>
        else i\<lparr>ri_by_store := AList.update storeID
            (key # (case map_of (ri_by_store i) storeID of Some keys \<Rightarrow> keys | None \<Rightarrow> [])) (ri_by_store i)\<rparr>)"

definition referencedSet :: "world \<Rightarrow> ref_index result" where
  "referencedSet w =
     (case assets_list_all_blob_refs w 60 of
        Inl e \<Rightarrow> Inl (Wrapped ''list db blob keys'' e)
      | Inr refs \<Rightarrow> Inr (foldl ref_add \<lparr>ri_by_store = [], ri_any_pos = []\<rparr> refs))"

text \<open>A zero deadline (no lock held) is \<open>None\<close>.\<close>

definition pastDeadline :: "time option \<Rightarrow> time \<Rightarrow> bool" where
  "pastDeadline deadline now = (case deadline of None \<Rightarrow> False | Some t \<Rightarrow> \<not> now < t)"

definition too_young :: "int \<Rightarrow> time \<Rightarrow> blob_entry \<Rightarrow> bool" where
  "too_young minAge now e \<longleftrightarrow> minAge > 0 \<and> e_mod_time e \<noteq> 0 \<and> now - e_mod_time e < minAge"

fun gc_loop ::
    "store_ref \<Rightarrow> string \<Rightarrow> ref_index \<Rightarrow> bool \<Rightarrow> int \<Rightarrow> time option \<Rightarrow> clock \<Rightarrow> nat \<Rightarrow>
     blob_entry list \<Rightarrow> world \<Rightarrow> gc_result \<Rightarrow> int \<Rightarrow> world \<times> gc_result \<times> int" where
  "gc_loop ref storeID idx dry minAge deadline clk i [] w res removed = (w, res, removed)"
| "gc_loop ref storeID idx dry minAge deadline clk i (e # es) w res removed =
     (if pastDeadline deadline (clk i) then (w, res\<lparr>gr_aborted := True\<rparr>, removed)
      else if ref_has idx storeID (e_key e) then
        gc_loop ref storeID idx dry minAge deadline clk (Suc i) es w res removed
      else if too_young minAge (clk i) e then
        gc_loop ref storeID idx dry minAge deadline clk (Suc i) es w res removed
      else
        (let res1 = res\<lparr>gr_orphans := Suc (gr_orphans res), gr_freed := i64 (gr_freed res + e_size e)\<rparr>
         in if dry then gc_loop ref storeID idx dry minAge deadline clk (Suc i) es w res1 removed
            else (case store_delete w ref (e_key e) 60 of
                Inl _ \<Rightarrow> gc_loop ref storeID idx dry minAge deadline clk (Suc i) es w
                  (res1\<lparr>gr_errors := gr_errors res1 @ [''delete '' @ e_key e]\<rparr>) removed
              | Inr w' \<Rightarrow> gc_loop ref storeID idx dry minAge deadline clk (Suc i) es w' res1 (i64 (removed + e_size e)))))"

definition compact ::
    "int \<Rightarrow> world \<Rightarrow> string \<Rightarrow> string \<Rightarrow> store_ref \<Rightarrow> ref_index \<Rightarrow> gc_options \<Rightarrow> time option \<Rightarrow> clock \<Rightarrow> world \<times> gc_result" where
  "compact defaultMinAge w name storeID ref idx opts deadline clk =
     (let minAge = (if go_min_age opts \<le> 0 then defaultMinAge else go_min_age opts);
          result = \<lparr>gr_store = name, gr_scanned = 0, gr_orphans = 0, gr_freed = 0,
                    gr_dry_run = go_dry_run opts, gr_errors = [], gr_aborted = False\<rparr>
      in case store_list_entries w ref 60 of
           Inl _ \<Rightarrow> (w, result\<lparr>gr_errors := [''list entries'']\<rparr>)
         | Inr entries \<Rightarrow>
             (case gc_loop ref storeID idx (go_dry_run opts) minAge deadline clk 0 entries w
                     (result\<lparr>gr_scanned := length entries\<rparr>) 0 of
                (w1, res1, removed) \<Rightarrow>
                  if removed > 0 then
                    (case blobs_update_used_bytes w1 name (- removed) 61 of
                       Inr w2 \<Rightarrow> (w2, res1)
                     | Inl _ \<Rightarrow> (w1, res1\<lparr>gr_errors := gr_errors res1 @ [''update used_bytes'']\<rparr>))
                  else (w1, res1)))"

definition CompactStore :: "int \<Rightarrow> world \<Rightarrow> string \<Rightarrow> gc_options \<Rightarrow> clock \<Rightarrow> world \<times> gc_result result" where
  "CompactStore defaultMinAge w name opts clk =
     (case referencedSet w of
        Inl e \<Rightarrow> (w, Inl e)
      | Inr idx \<Rightarrow>
          (case blobs_get w name 62 of
             Inl e \<Rightarrow> (w, Inl (Wrapped ''get blob store'' e))
           | Inr row \<Rightarrow>
               (case registry_get w row 63 of
                  Inl e \<Rightarrow> (w, Inl (Wrapped ''resolve blob store'' e))
                | Inr ref \<Rightarrow>
                    (case compact defaultMinAge w name (bs_id row) ref idx opts None clk of
                       (w', res) \<Rightarrow> (w', Inr res)))))"




section \<open>The reference index\<close>

lemma ref_has_add: "ref_has (ref_add i (k, s)) sid key \<longleftrightarrow> ref_has i sid key \<or> key = k \<and> (s = [] \<or> s = sid)"
  by (auto simp: ref_has_def ref_add_def map_of_AList_update split: option.splits)

lemma ref_has_foldl: "ref_has (foldl ref_add i refs) sid key \<longleftrightarrow>
    ref_has i sid key \<or> (key, sid) \<in> set refs \<or> (key, []) \<in> set refs"
proof (induction refs arbitrary: i)
  case (Cons r refs)
  then show ?case by (cases r) (auto simp: ref_has_add)
qed simp

text \<open>The index says yes exactly for the keys some row names in this store, or without naming a store.\<close>

lemma referencedSet_has:
  assumes "referencedSet w = Inr idx"
  shows "ref_has idx sid key \<longleftrightarrow> (\<exists>a\<in>set (w_assets w). a_blob_key a = key \<and>
    trim_by (\<lambda>c. c = CHR '' '') key \<noteq> [] \<and> (a_blob_store_id a = sid \<or> a_blob_store_id a = []))"
proof -
  have "idx = foldl ref_add \<lparr>ri_by_store = [], ri_any_pos = []\<rparr> (remdups (map (\<lambda>a. (a_blob_key a, a_blob_store_id a))
        (filter (\<lambda>a. trim_by (\<lambda>c. c = CHR '' '') (a_blob_key a) \<noteq> []) (w_assets w))))"
    using assms by (auto simp: referencedSet_def assets_list_all_blob_refs_def guard_io_def split: if_splits)
  moreover have "\<not> ref_has \<lparr>ri_by_store = [], ri_any_pos = []\<rparr> sid key" by (simp add: ref_has_def)
  ultimately show ?thesis by (auto simp: ref_has_foldl image_iff)
qed

section \<open>What a pass deletes\<close>

lemma set_store_same [simp]: "set_store w ref (w_phys w ref) = w"
  by (simp add: set_store_def)

lemma set_store_twice [simp]: "set_store (set_store w ref s) ref s' = set_store w ref s'"
  by (simp add: set_store_def)

abbreviation del_keys :: "string list \<Rightarrow> pstore \<Rightarrow> pstore" where
  "del_keys ks s \<equiv> fold (\<lambda>k s. del_blob s k) ks s"

lemma gc_loop_deletes:
  assumes "gc_loop ref storeID idx dry minAge deadline clk i es w res removed = (w', res', removed')"
  shows "\<exists>ks. w' = set_store w ref (del_keys ks (w_phys w ref)) \<and>
    (\<forall>k\<in>set ks. \<exists>e\<in>set es. e_key e = k \<and> \<not> ref_has idx storeID k \<and> (\<exists>j. \<not> too_young minAge (clk j) e)) \<and>
    (dry \<longrightarrow> ks = [] \<and> removed' = removed)"
  using assms
proof (induction es arbitrary: i w res removed)
  case Nil
  then show ?case by (auto intro: exI[of _ "[]"])
next
  case (Cons e es)
  let ?P = "\<lambda>es ks. \<forall>k\<in>set ks. \<exists>e\<in>set es. e_key e = k \<and> \<not> ref_has idx storeID k \<and> (\<exists>j. \<not> too_young minAge (clk j) e)"
  have weaken: "\<exists>ks. w' = set_store w ref (del_keys ks (w_phys w ref)) \<and> ?P (e # es) ks \<and> (dry \<longrightarrow> ks = [] \<and> removed' = removed)"
    if "gc_loop ref storeID idx dry minAge deadline clk (Suc i) es w r removed = (w', res', removed')" for r
    using Cons.IH[OF that] by auto
  consider (stop) "pastDeadline deadline (clk i)"
    | (skip) "\<not> pastDeadline deadline (clk i)" "ref_has idx storeID (e_key e) \<or> too_young minAge (clk i) e \<or> dry"
    | (fail) x where "\<not> pastDeadline deadline (clk i)" "\<not> ref_has idx storeID (e_key e)" "\<not> too_young minAge (clk i) e"
        "\<not> dry" "store_delete w ref (e_key e) 60 = Inl x"
    | (del) w1 where "\<not> pastDeadline deadline (clk i)" "\<not> ref_has idx storeID (e_key e)" "\<not> too_young minAge (clk i) e"
        "\<not> dry" "store_delete w ref (e_key e) 60 = Inr w1"
    by (cases "store_delete w ref (e_key e) 60") blast+
  then show ?case
  proof cases
    case stop
    with Cons.prems show ?thesis by (auto intro: exI[of _ "[]"])
  next
    case skip
    then show ?thesis using Cons.prems weaken by (auto simp: Let_def split: if_splits)
  next
    case (fail x)
    then show ?thesis using Cons.prems weaken by (simp add: Let_def)
  next
    case (del w1)
    then have w1: "w1 = set_store w ref (del_blob (w_phys w ref) (e_key e))" by simp
    from del Cons.prems have "\<exists>r m. gc_loop ref storeID idx dry minAge deadline clk (Suc i) es w1 r m = (w', res', removed')"
      by (simp add: Let_def del: store_delete_ok) blast
    then obtain ks where ks: "w' = set_store w1 ref (del_keys ks (w_phys w1 ref))" "?P es ks"
      using Cons.IH by blast
    show ?thesis
      by (rule exI[of _ "e_key e # ks"]) (use ks w1 del in auto)
  qed
qed

lemma update_used_frame:
  "blobs_update_used_bytes w name d n = Inr w' \<Longrightarrow> w_assets w' = w_assets w \<and> w_comps w' = w_comps w \<and> w_phys w' = w_phys w"
  by (auto simp: blobs_update_used_bytes_def split: if_splits)

lemma compact_frame:
  assumes "compact dma w name storeID ref idx opts deadline clk = (w', res)"
  obtains w1 ks where "w1 = set_store w ref (del_keys ks (w_phys w ref))"
    "\<forall>k\<in>set ks. \<not> ref_has idx storeID k" "db_step w1 w'" "w_assets w' = w_assets w" "w_comps w' = w_comps w"
    "go_dry_run opts \<longrightarrow> w' = w"
proof (cases "store_list_entries w ref 60")
  case (Inl e)
  with assms show ?thesis by (intro that[of w "[]"]) (auto simp: compact_def Let_def)
next
  case (Inr es)
  let ?res = "\<lparr>gr_store = name, gr_scanned = length es, gr_orphans = 0, gr_freed = 0,
    gr_dry_run = go_dry_run opts, gr_errors = [], gr_aborted = False\<rparr>"
  obtain w1 res1 removed where loop: "gc_loop ref storeID idx (go_dry_run opts)
      (if go_min_age opts \<le> 0 then dma else go_min_age opts) deadline clk 0 es w ?res 0 = (w1, res1, removed)"
    by (metis prod_cases3)
  from gc_loop_deletes[OF loop] obtain ks where ks: "w1 = set_store w ref (del_keys ks (w_phys w ref))"
    "\<forall>k\<in>set ks. \<not> ref_has idx storeID k" "go_dry_run opts \<longrightarrow> ks = [] \<and> removed = 0" by blast
  have w': "w' = (if removed > 0 then best_effort w1 (blobs_update_used_bytes w1 name (- removed) 61) else w1)"
    using assms Inr loop by (auto simp: compact_def Let_def split: if_splits sum.splits)
  have step: "db_step w1 w'" unfolding w' by (simp add: db_step_best_effort db_step_update_used_bytes)
  have "w_assets w' = w_assets w1 \<and> w_comps w' = w_comps w1"
    unfolding w' by (cases "blobs_update_used_bytes w1 name (- removed) 61") (auto dest: update_used_frame)
  then show ?thesis
    using that[OF ks(1,2) step] ks w' by auto
qed


lemma compact_db_ok:
  "compact dma w name storeID ref idx opts deadline clk = (w', res) \<Longrightarrow> db_ok w \<Longrightarrow> db_ok w'"
  by (erule compact_frame) (auto dest: db_step_db_ok)



section \<open>Accounting\<close>

definition store_bytes :: "pstore \<Rightarrow> int" where
  "store_bytes s = sum_list (map (\<lambda>(k, b). blob_size b) s)"

lemma blob_size_nonneg [simp]: "0 \<le> blob_size b"
  by (simp add: blob_size_def)

lemma store_bytes_nonneg: "0 \<le> store_bytes s"
  unfolding store_bytes_def by (rule sum_list_nonneg) auto

lemma store_bytes_delete:
  assumes "pstore_ok s" "(k, b) \<in> set s"
  shows "store_bytes (del_blob s k) = store_bytes s - blob_size b"
  using assms
proof (induction s)
  case (Cons e s)
  show ?case
  proof (cases "fst e = k")
    case True
    then have "k \<notin> fst ` set s" "e = (k, b)"
      using Cons.prems by (auto simp: pstore_ok_def image_iff)
    then show ?thesis by (simp add: store_bytes_def del_blob_def delete_notin)
  next
    case False
    then show ?thesis using Cons
      by (cases e) (auto simp: store_bytes_def del_blob_def AList.delete_eq pstore_ok_def)
  qed
qed simp

lemma store_bytes_del_le: "store_bytes (del_blob s k) \<le> store_bytes s"
  by (induction s) (auto simp: store_bytes_def del_blob_def add_increasing)

lemma store_bytes_del_keys: "store_bytes (del_keys ks s) \<le> store_bytes s"
  by (induction ks arbitrary: s) (auto intro: order_trans store_bytes_del_le)

definition entry_of :: "string \<times> blob \<Rightarrow> blob_entry" where
  "entry_of = (\<lambda>(k, b). \<lparr>e_key = k, e_size = blob_size b, e_mod_time = b_mod_time b\<rparr>)"

lemma gc_loop_accounting:
  assumes "gc_loop ref storeID idx dry minAge deadline clk i (map entry_of es) w res removed = (w', res', removed')"
    and "pstore_ok (w_phys w ref)" "set es \<subseteq> set (w_phys w ref)" "distinct (map fst es)"
    and "0 \<le> removed" "removed + store_bytes (w_phys w ref) \<le> i64_max"
  shows "removed' = removed + store_bytes (w_phys w ref) - store_bytes (w_phys w' ref)"
  using assms
proof (induction es arbitrary: i w res removed)
  case (Cons e es)
  obtain k b where e: "e = (k, b)" by force
  have skip: ?case if "gc_loop ref storeID idx dry minAge deadline clk (Suc i) (map entry_of es) w r removed = (w', res', removed')" for r
    using Cons.IH[OF that] Cons.prems by auto
  show ?case
  proof (cases "pastDeadline deadline (clk i) \<or> ref_has idx storeID k \<or> too_young minAge (clk i) (entry_of e) \<or> dry \<or>
      w_fault w ''Store.Delete'' k 60")
    case True
    then show ?thesis using Cons.prems(1) skip e
      by (auto simp: entry_of_def Let_def store_delete_def guard_io_def split: if_splits)
  next
    case False
    define w1 where "w1 = set_store w ref (del_blob (w_phys w ref) k)"
    have bytes: "store_bytes (w_phys w1 ref) = store_bytes (w_phys w ref) - blob_size b"
      using Cons.prems(2,3) e by (simp add: w1_def store_bytes_delete)
    have "in_i64 (removed + blob_size b)"
      using Cons.prems(5,6) bytes store_bytes_nonneg[of "w_phys w1 ref"] blob_size_nonneg[of b]
      by (intro in_i64I) linarith+
    then have "i64 (removed + blob_size b) = removed + blob_size b" by (rule i64_id)
    with False Cons.prems(1) e obtain r where loop:
      "gc_loop ref storeID idx dry minAge deadline clk (Suc i) (map entry_of es) w1 r (removed + blob_size b) = (w', res', removed')"
      by (auto simp: entry_of_def Let_def store_delete_def guard_io_def w1_def)
    have "set es \<subseteq> set (w_phys w1 ref)"
      using Cons.prems(3,4) e by (auto simp: w1_def del_blob_def AList.delete_eq image_iff)
    then show ?thesis
      using Cons.IH[OF loop] Cons.prems bytes e by (auto simp: w1_def bs.invar_del)
  qed
qed simp

section \<open>Completeness\<close>

lemma gc_loop_collects:
  assumes "gc_loop ref storeID idx False minAge None clk i es w res removed = (w', res', removed')"
    and "w_fault w = no_faults" "e \<in> set es" "\<not> ref_has idx storeID (e_key e)" "\<forall>j. \<not> too_young minAge (clk j) e"
  shows "get_blob (w_phys w' ref) (e_key e) = None"
  using assms
proof (induction es arbitrary: i w res removed)
  case (Cons x es)
  show ?case
  proof (cases "ref_has idx storeID (e_key x) \<or> too_young minAge (clk i) x")
    case True
    then have "x \<noteq> e" using Cons.prems by auto
    with True Cons.prems have "e \<in> set es"
      "gc_loop ref storeID idx False minAge None clk (Suc i) es w res removed = (w', res', removed')"
      by (auto simp: pastDeadline_def split: if_splits)
    with Cons.IH Cons.prems(2,4,5) show ?thesis by blast
  next
    case False
    define w1 where "w1 = set_store w ref (del_blob (w_phys w ref) (e_key x))"
    from False Cons.prems(1,2) obtain r m where loop:
      "gc_loop ref storeID idx False minAge None clk (Suc i) es w1 r m = (w', res', removed')"
      by (auto simp: pastDeadline_def Let_def store_delete_def guard_io_def w1_def)
    show ?thesis
    proof (cases "e \<in> set es")
      case True
      then show ?thesis using Cons.IH[OF loop] Cons.prems by (simp add: w1_def)
    next
      case False
      then have "x = e" using Cons.prems(3) by simp
      moreover from gc_loop_deletes[OF loop] obtain ks
        where "w' = set_store w1 ref (del_keys ks (w_phys w1 ref))" by blast
      ultimately show ?thesis by (simp add: w1_def bs.get_del_list bs.get_del)
    qed
  qed
qed simp

section \<open>Properties\<close>


text \<open>
  Collection is complete: when no call fails, a compaction of one store leaves only blobs that a
  row names (in this store, or without naming a store) or that were younger than the grace period
  at some reading of the clock.
\<close>

lemma CompactStore_complete:
  assumes "CompactStore dma w name opts clk = (w', Inr res)" "w_fault w = no_faults" "\<not> go_dry_run opts"
    and "find (\<lambda>b. bs_name b = name) (w_blobs w) = Some row" "bs_id row \<noteq> []" "pstore_ok (w_phys w (StoreOf (bs_id row)))"
    and "store_blob w' (StoreOf (bs_id row)) k = Some b"
  shows "store_blob w (StoreOf (bs_id row)) k = Some b \<and>
    ((\<exists>a\<in>set (w_assets w). a_blob_key a = k \<and> trim_by (\<lambda>c. c = CHR '' '') k \<noteq> [] \<and>
        (a_blob_store_id a = bs_id row \<or> a_blob_store_id a = [])) \<or>
     (\<exists>j. too_young (if go_min_age opts \<le> 0 then dma else go_min_age opts) (clk j) (entry_of (k, b))))"
proof -
  let ?ref = "StoreOf (bs_id row)"
  let ?age = "if go_min_age opts \<le> 0 then dma else go_min_age opts"
  let ?res = "\<lparr>gr_store = name, gr_scanned = length (w_phys w ?ref), gr_orphans = 0, gr_freed = 0,
    gr_dry_run = False, gr_errors = [], gr_aborted = False\<rparr>"
  obtain idx ref where idx: "referencedSet w = Inr idx" and ref: "registry_get w row 63 = Inr ref"
    and c: "compact dma w name (bs_id row) ref idx opts None clk = (w', res)"
    using assms(1,2,4) by (auto simp: CompactStore_def blobs_get_def row_or_not_found_def guard_io_def split: sum.splits prod.splits)
  have ref: "ref = ?ref" using registry_get_ref[OF ref] assms(5) by simp
  have es: "store_list_entries w ?ref 60 = Inr (map entry_of (w_phys w ?ref))"
    using assms(2) by (simp add: store_list_entries_def guard_io_def entry_of_def)
  obtain w1 res1 removed where loop: "gc_loop ?ref (bs_id row) idx False ?age None clk 0 (map entry_of (w_phys w ?ref)) w ?res 0
      = (w1, res1, removed)"
    by (metis prod_cases3)
  have "w_phys w' = w_phys w1"
    using c es loop assms(3) ref by (auto simp: compact_def Let_def dest: update_used_frame split: if_splits sum.splits)
  then have k1: "get_blob (w_phys w1 ?ref) k = Some b" using assms(7) by (simp add: store_blob_def)
  from gc_loop_deletes[OF loop] obtain ks where "w1 = set_store w ?ref (del_keys ks (w_phys w ?ref))" by blast
  with k1 have k: "store_blob w ?ref k = Some b" by (auto simp: store_blob_def bs.get_del_list split: if_splits)
  then have "entry_of (k, b) \<in> set (map entry_of (w_phys w ?ref))"
    using bs.entries_get[OF assms(6)] by (auto simp: store_blob_def)
  moreover have "e_key (entry_of (k, b)) = k" by (simp add: entry_of_def)
  ultimately have "ref_has idx (bs_id row) k \<or> (\<exists>j. too_young ?age (clk j) (entry_of (k, b)))"
    using gc_loop_collects[OF loop assms(2)] k1 by fastforce
  with k referencedSet_has[OF idx] show ?thesis by blast
qed

text \<open>
  The usage counter follows the disk: after a compaction pass over a store, under any failures of
  deletes and any deadline, the store's used bytes have dropped by exactly the bytes that left the
  physical store (never below zero) whenever the counter's update went through.
\<close>

lemma compact_accounts_removed_bytes:
  assumes "compact dma w (bs_name row) (bs_id row) ref idx opts deadline clk = (w', res)"
    and "db_ok w" "row \<in> set (w_blobs w)" "pstore_ok (w_phys w ref)" "store_bytes (w_phys w ref) \<le> i64_max"
    and "0 \<le> bs_used_bytes row" "bs_used_bytes row \<le> i64_max" "\<not> w_fault w ''Blobs.UpdateUsedBytes'' (bs_name row) 61"
  shows "row\<lparr>bs_used_bytes := max 0 (bs_used_bytes row - (store_bytes (w_phys w ref) - store_bytes (w_phys w' ref)))\<rparr>
    \<in> set (w_blobs w')"
proof (cases "store_list_entries w ref 60")
  case (Inl e)
  then have "w' = w" using assms(1) by (auto simp: compact_def Let_def)
  with assms(3,6) show ?thesis by simp
next
  case (Inr es)
  then have es: "es = map entry_of (w_phys w ref)" by (auto simp: store_list_entries_def entry_of_def)
  obtain w1 res1 removed where loop: "gc_loop ref (bs_id row) idx (go_dry_run opts)
      (if go_min_age opts \<le> 0 then dma else go_min_age opts) deadline clk 0 es w
      \<lparr>gr_store = bs_name row, gr_scanned = length es, gr_orphans = 0, gr_freed = 0,
        gr_dry_run = go_dry_run opts, gr_errors = [], gr_aborted = False\<rparr> 0 = (w1, res1, removed)"
    by (metis prod_cases3)
  from gc_loop_deletes[OF loop] obtain ks where w1: "w1 = set_store w ref (del_keys ks (w_phys w ref))" by blast
  have removed: "removed = store_bytes (w_phys w ref) - store_bytes (w_phys w1 ref)"
    using gc_loop_accounting[OF loop[unfolded es]] assms(4,5) by (simp add: pstore_ok_def)
  have w': "w' = (if removed > 0 then best_effort w1 (blobs_update_used_bytes w1 (bs_name row) (- removed) 61) else w1)"
    using assms(1) Inr loop by (auto simp: compact_def Let_def split: if_splits sum.splits)
  show ?thesis
  proof (cases "removed > 0")
    case False
    moreover have "store_bytes (w_phys w1 ref) \<le> store_bytes (w_phys w ref)"
      unfolding w1 by (simp add: store_bytes_del_keys)
    ultimately show ?thesis using w' w1 removed assms(3,6) by simp
  next
    case True
    have fits: "in_i64 (bs_used_bytes row - removed)"
      using True removed assms(5-7) store_bytes_nonneg[of "w_phys w1 ref"] by (simp add: i64_min_def i64_max_def)
    have "distinct (map bs_name (w_blobs w))" using assms(2) by (simp add: db_ok_def)
    then have uniq: "b = row" if "b \<in> set (w_blobs w)" "bs_name b = bs_name row" for b
      using that assms(3) by (auto simp: distinct_map inj_on_def)
    have "blobs_update_used_bytes w1 (bs_name row) (- removed) 61 = Inr (w1\<lparr>w_blobs := upd_where (\<lambda>b. bs_name b = bs_name row)
        (\<lambda>b. b\<lparr>bs_used_bytes := max 0 (bs_used_bytes b - removed)\<rparr>) (w_blobs w1)\<rparr>)"
      using assms(8) fits uniq w1 by (auto simp: blobs_update_used_bytes_def guard_io_def)
    then have "w' = w1\<lparr>w_blobs := upd_where (\<lambda>b. bs_name b = bs_name row)
        (\<lambda>b. b\<lparr>bs_used_bytes := max 0 (bs_used_bytes b - removed)\<rparr>) (w_blobs w)\<rparr>"
      using w' True w1 by simp
    then show ?thesis
      using assms(3) w1 removed by (auto simp: set_upd_where image_iff intro!: bexI[of _ row])
  qed
qed

section \<open>Witnesses\<close>

text \<open>The sample store with one more blob that no row names.\<close>

definition demo_gc_world :: world where
  "demo_gc_world = set_store demo_world (StoreOf ''b1'')
     [(''raw:a.txt'', \<lparr>b_data = ''abc'', b_mod_time = 5\<rparr>), (''raw:old'', \<lparr>b_data = ''zz'', b_mod_time = 7\<rparr>)]"

abbreviation demo_opts :: gc_options where
  "demo_opts \<equiv> \<lparr>go_dry_run = False, go_min_age = 10\<rparr>"

lemma demo_gc_world_db_ok: "db_ok demo_gc_world"
  by (simp add: demo_gc_world_def demo_world_db_ok)


lemma CompactStore_complete_witness:
  "store_blob (fst (CompactStore 0 demo_gc_world ''default'' demo_opts (\<lambda>_. 100))) (StoreOf ''b1'') ''raw:old'' \<noteq>
     Some \<lparr>b_data = ''zz'', b_mod_time = 7\<rparr>"
proof
  let ?w = "demo_gc_world"
  let ?run = "CompactStore 0 ?w ''default'' demo_opts (\<lambda>_. 100)"
  assume left: "store_blob (fst ?run) (StoreOf ''b1'') ''raw:old'' = Some \<lparr>b_data = ''zz'', b_mod_time = 7\<rparr>"
  have "is_ok (snd ?run)" by code_simp
  then obtain res where run: "?run = (fst ?run, Inr res)" by (metis is_ok_iff prod.collapse)
  have pre: "w_fault ?w = no_faults" "\<not> go_dry_run demo_opts" "find (\<lambda>b. bs_name b = ''default'') (w_blobs ?w) = Some demo_store"
    "bs_id demo_store \<noteq> []" "pstore_ok (w_phys ?w (StoreOf (bs_id demo_store)))"
    by (simp_all add: demo_gc_world_def demo_world_def demo_store_def pstore_ok_def)
  have left': "store_blob (fst ?run) (StoreOf (bs_id demo_store)) ''raw:old'' = Some \<lparr>b_data = ''zz'', b_mod_time = 7\<rparr>"
    using left by (simp add: demo_store_def)
  have "\<not> (\<exists>a\<in>set (w_assets ?w). a_blob_key a = ''raw:old'')"
    "\<not> too_young 10 100 (entry_of (''raw:old'', \<lparr>b_data = ''zz'', b_mod_time = 7\<rparr>))" by code_simp+
  with CompactStore_complete[OF run pre left'] show False by auto
qed

lemma compact_accounts_removed_bytes_witness:
  "demo_store\<lparr>bs_used_bytes := 1\<rparr> \<in> set (w_blobs (fst (compact 0 demo_gc_world ''default'' ''b1'' (StoreOf ''b1'')
     \<lparr>ri_by_store = [(''b1'', [''raw:a.txt''])], ri_any_pos = []\<rparr> demo_opts None (\<lambda>_. 100))))"
proof -
  let ?w = "demo_gc_world"
  let ?idx = "\<lparr>ri_by_store = [(''b1'', [''raw:a.txt''])], ri_any_pos = []\<rparr>"
  let ?run = "compact 0 ?w (bs_name demo_store) (bs_id demo_store) (StoreOf ''b1'') ?idx demo_opts None (\<lambda>_. 100)"
  have pre: "demo_store \<in> set (w_blobs ?w)" "pstore_ok (w_phys ?w (StoreOf ''b1''))"
    "store_bytes (w_phys ?w (StoreOf ''b1'')) \<le> i64_max" "0 \<le> bs_used_bytes demo_store" "bs_used_bytes demo_store \<le> i64_max"
    "\<not> w_fault ?w ''Blobs.UpdateUsedBytes'' (bs_name demo_store) 61"
    by code_simp+
  have "store_bytes (w_phys ?w (StoreOf ''b1'')) = 5" "store_bytes (w_phys (fst ?run) (StoreOf ''b1'')) = 3"
    by code_simp+
  with compact_accounts_removed_bytes[OF prod.collapse[symmetric] demo_gc_world_db_ok pre, of 0 ?idx demo_opts None "\<lambda>_. 100"]
  show ?thesis by (simp add: demo_store_def)
qed

end
