(* ===== verification/Cleanup.thy ===== *)
theory Cleanup
  imports Blob_GC
begin

text \<open>
  The cleanup policies of \<^verbatim>\<open>internal/service/cleanup_service.go\<close>: a policy scans for stale assets in
  batches, deletes each row only if it is still what the scan read, frees bytes no other row names,
  and prunes components left empty. The call-site numbers handed to the fault plan grow with the
  pass, so a call that fails in one pass may succeed in the next.
\<close>

section \<open>Model\<close>

record cleanup_policy =
  cp_id :: string
  cp_name :: string
  cp_format :: string
  cp_criteria :: config
  cp_enabled :: bool
  cp_dry_run :: bool
  cp_retain_n_versions :: int
  cp_scope_repository :: string
  cp_scope_path_prefix :: string
  cp_last_run :: "(time \<times> nat \<times> int) option"

record cleanup_run_result =
  cr_policy_id :: string
  cr_deleted :: nat
  cr_freed_bytes :: int
  cr_dry_run :: bool
  cr_skipped :: bool
  cr_aborted :: bool

definition strCriteria :: "config \<Rightarrow> string \<Rightarrow> string" where
  "strCriteria m k = any_str (cfg_get m k)"

text \<open>A JSON number arrives as \<^verbatim>\<open>float64\<close> and is truncated towards zero.\<close>

definition trunc :: "rat \<Rightarrow> int" where
  "trunc x = (if 0 \<le> x then \<lfloor>x\<rfloor> else \<lceil>x\<rceil>)"

definition intCriteria :: "config \<Rightarrow> string \<Rightarrow> int" where
  "intCriteria m k =
     (case cfg_get m k of
        AnyInt n \<Rightarrow> n
      | AnyFloat x \<Rightarrow> trunc x
      | AnyInt64 n \<Rightarrow> n
      | _ \<Rightarrow> 0)"

definition policies_record_run ::
    "world \<Rightarrow> cleanup_policy list \<Rightarrow> string \<Rightarrow> time \<Rightarrow> nat \<Rightarrow> int \<Rightarrow> cleanup_policy list result" where
  "policies_record_run w pols i now count freed = guard_io w ''Policies.RecordRun'' i 0
     (if \<not> (\<exists>p\<in>set pols. cp_id p = i) then Inl (ErrMsg ''cleanup policy not found'')
      else Inr (upd_where (\<lambda>p. cp_id p = i) (\<lambda>p. p\<lparr>cp_last_run := Some (now, count, freed)\<rparr>) pols))"

definition storeForAsset :: "deps \<Rightarrow> world \<Rightarrow> asset \<Rightarrow> nat \<Rightarrow> store_ref" where
  "storeForAsset d w a n =
     (if \<not> d_registry d \<or> a_blob_store_id a = [] then DefaultStore
      else (case blobs_get_by_id w (a_blob_store_id a) n of
          Inl _ \<Rightarrow> DefaultStore
        | Inr bs \<Rightarrow> (case registry_get w bs n of Inr ref \<Rightarrow> ref | Inl _ \<Rightarrow> DefaultStore)))"

text \<open>
  The closure run under the blob-key lock. It always returns nil and reports through captured
  variables: how many rows it deleted and how many bytes it freed.
\<close>

definition delete_stale :: "deps \<Rightarrow> asset \<Rightarrow> nat \<Rightarrow> world \<Rightarrow> world \<times> nat \<times> int" where
  "delete_stale d a n w =
     (case assets_delete_if_unchanged w (a_id a) (a_blob_key a) (a_last_downloaded a) (a_last_modified a) n of
        Inl _ \<Rightarrow> (w, 0, 0)
      | Inr (w1, rowDeleted) \<Rightarrow>
          if \<not> rowDeleted then (w1, 0, 0)
          else (case assets_count_by_blob_key w1 (a_blob_key a) (a_id a) n of
              Inl _ \<Rightarrow> (w1, 1, 0)
            | Inr others \<Rightarrow>
                if others = 0 then
                  (case store_delete w1 (storeForAsset d w1 a n) (a_blob_key a) n of
                     Inl _ \<Rightarrow> (w1, 1, 0)
                   | Inr w2 \<Rightarrow> (best_effort w2 (DecrementBlobStoreUsage w2 a n), 1, a_size_bytes a))
                else (w1, 1, 0)))"

fun cleanup_pass :: "deps \<Rightarrow> bool \<Rightarrow> nat \<Rightarrow> asset list \<Rightarrow> world \<Rightarrow> nat \<Rightarrow> int \<Rightarrow> world \<times> nat \<times> int" where
  "cleanup_pass d dry n [] w deleted freed = (w, deleted, freed)"
| "cleanup_pass d dry n (a # stale) w deleted freed =
     (if dry then cleanup_pass d dry n stale w (Suc deleted) (i64 (freed + a_size_bytes a))
      else if w_fault w ''Assets.WithBlobKeyLock'' (a_blob_key a) n
      then cleanup_pass d dry n stale w deleted freed
      else (case delete_stale d a n w of
          (w', k, x) \<Rightarrow> cleanup_pass d dry n stale w' (deleted + k) (i64 (freed + x))))"

record cleanup_query =
  cq_format :: string
  cq_repos :: "string list"
  cq_last_downloaded :: int
  cq_age :: int
  cq_path_prefix :: string
  cq_name_glob :: string
  cq_retain :: int

definition list_stale :: "world \<Rightarrow> cleanup_query \<Rightarrow> nat \<Rightarrow> nat \<Rightarrow> asset list result" where
  "list_stale w q lmt n = assets_list_stale w (cq_format q) (cq_repos q) (cq_last_downloaded q) (cq_age q)
     (cq_path_prefix q) (cq_name_glob q) (cq_retain q) lmt n"

definition batchLimit :: nat where "batchLimit = 500"
definition maxNoProgressPasses :: nat where "maxNoProgressPasses = 3"

abbreviation scanned_row :: "asset \<Rightarrow> asset \<Rightarrow> bool" where
  "scanned_row a \<equiv> unchanged_row (a_id a) (a_blob_key a) (a_last_downloaded a) (a_last_modified a)"

lemma delete_stale_cases:
  assumes "delete_stale d a n w = (w', k, x)"
  obtains (kept) "w' = w" "k = 0" "x = 0"
    "w_fault w ''Assets.DeleteIfUnchanged'' (a_id a) n \<or> (\<forall>r\<in>set (w_assets w). \<not> scanned_row a r)"
  | (row) w1 where "\<exists>r\<in>set (w_assets w). scanned_row a r"
      "w1 = w\<lparr>w_assets := filter (\<lambda>r. \<not> scanned_row a r) (w_assets w)\<rparr>" "w' = w1" "k = 1" "x = 0"
  | (bytes) w1 w2 where "\<exists>r\<in>set (w_assets w). scanned_row a r"
      "w1 = w\<lparr>w_assets := filter (\<lambda>r. \<not> scanned_row a r) (w_assets w)\<rparr>"
      "assets_count_by_blob_key w1 (a_blob_key a) (a_id a) n = Inr 0"
      "store_delete w1 (storeForAsset d w1 a n) (a_blob_key a) n = Inr w2"
      "w' = best_effort w2 (DecrementBlobStoreUsage w2 a n)" "k = 1" "x = a_size_bytes a"
proof (cases "w_fault w ''Assets.DeleteIfUnchanged'' (a_id a) n")
  case True
  with assms show ?thesis by (intro kept) (simp_all add: delete_stale_def assets_delete_if_unchanged_def guard_io_def)
next
  case False
  define w1 where "w1 = w\<lparr>w_assets := filter (\<lambda>r. \<not> scanned_row a r) (w_assets w)\<rparr>"
  define hit where "hit = (\<exists>r\<in>set (w_assets w). scanned_row a r)"
  have del: "assets_delete_if_unchanged w (a_id a) (a_blob_key a) (a_last_downloaded a) (a_last_modified a) n = Inr (w1, hit)"
    using False by (simp add: assets_delete_if_unchanged_def guard_io_def w1_def hit_def)
  show ?thesis
  proof (cases hit)
    case no: False
    then have "w1 = w" by (simp add: hit_def w1_def filter_id_conv)
    with no del assms show ?thesis by (intro kept) (auto simp: delete_stale_def hit_def)
  next
    case True
    note hit = True[unfolded hit_def]
    note run = assms[symmetric, unfolded delete_stale_def del sum.case prod.case]
    consider "(w', k, x) = (w1, 1, 0)"
      | w2 where "assets_count_by_blob_key w1 (a_blob_key a) (a_id a) n = Inr 0"
          "store_delete w1 (storeForAsset d w1 a n) (a_blob_key a) n = Inr w2"
          "(w', k, x) = (best_effort w2 (DecrementBlobStoreUsage w2 a n), 1, a_size_bytes a)"
      using run True by (auto split: sum.splits if_splits simp del: store_delete_ok)
    then show ?thesis
    proof cases
      case 1
      then show ?thesis by (intro row[OF hit w1_def]) simp_all
    next
      case (2 w2)
      then show ?thesis by (intro bytes[OF hit w1_def 2(1,2)]) simp_all
    qed
  qed
qed

lemma decrement_assets [simp]: "w_assets (best_effort w (DecrementBlobStoreUsage w a n)) = w_assets w"
  by (cases "DecrementBlobStoreUsage w a n") (simp_all add: DecrementBlobStoreUsage_step)

lemma delete_stale_assets:
  assumes "delete_stale d a n w = (w', k, x)"
  shows "k = 0 \<and> w_assets w' = w_assets w \<or>
    k = 1 \<and> (\<exists>r\<in>set (w_assets w). scanned_row a r) \<and> w_assets w' = filter (\<lambda>r. \<not> scanned_row a r) (w_assets w)"
  using assms by (cases rule: delete_stale_cases) auto

lemma cleanup_pass_deleted:
  assumes "cleanup_pass d False n stale w deleted freed = (w', deleted', freed')"
  shows "length (w_assets w') + (deleted' - deleted) \<le> length (w_assets w)" "deleted \<le> deleted'"
proof -
  have drop: "length (filter (\<lambda>r. \<not> P r) rs) + 1 \<le> length rs" if "\<exists>r\<in>set rs. P r" for P and rs :: "asset list"
    using sum_length_filter_compl[of P rs] that length_filter_pos[of P rs] by linarith
  have one: "length (w_assets v') + k \<le> length (w_assets v)" if "delete_stale d a n v = (v', k, x)" for a v v' k x
    using delete_stale_assets[OF that] drop[of "w_assets v" "scanned_row a"] by (elim disjE conjE) simp_all
  have "length (w_assets w') + (deleted' - deleted) \<le> length (w_assets w) \<and> deleted \<le> deleted'"
    using assms
  proof (induction stale arbitrary: w deleted freed)
    case (Cons a stale)
    obtain v k x where v: "delete_stale d a n w = (v, k, x)" by (metis prod_cases3)
    show ?case
      using Cons.prems Cons.IH[of w deleted freed] Cons.IH[of v "deleted + k" "i64 (freed + x)"] v one[OF v]
      by (auto split: if_splits)
  qed simp
  then show "length (w_assets w') + (deleted' - deleted) \<le> length (w_assets w)" "deleted \<le> deleted'" by auto
qed

lemma cleanup_pass_shrinks:
  assumes "cleanup_pass d False n stale w deleted freed = (w', deleted', freed')"
  shows "length (w_assets w') \<le> length (w_assets w) \<and>
    (deleted' \<noteq> deleted \<longrightarrow> length (w_assets w') < length (w_assets w))"
  using cleanup_pass_deleted[OF assms] by auto

text \<open>
  The batch loop. It ends: a pass that deletes shrinks the table of assets, and three passes in a
  row that delete nothing end the run.
\<close>

function cleanup_loop ::
    "deps \<Rightarrow> bool \<Rightarrow> cleanup_query \<Rightarrow> time option \<Rightarrow> clock \<Rightarrow> nat \<Rightarrow> nat \<Rightarrow> world \<Rightarrow> nat \<Rightarrow> int \<Rightarrow>
     world \<times> (nat \<times> int \<times> bool) result" where
  "cleanup_loop d dry q deadline clk i noProgress w deleted freed =
     (if pastDeadline deadline (clk i) then (w, Inr (deleted, freed, True))
      else (case list_stale w q batchLimit (100 + i) of
          Inl e \<Rightarrow> (w, Inl (Wrapped ''cleanup: list stale assets'' e))
        | Inr stale \<Rightarrow>
            if stale = [] then (w, Inr (deleted, freed, False))
            else (case cleanup_pass d dry (100 + i) stale w deleted freed of
                (w', deleted', freed') \<Rightarrow>
                  if dry then (w', Inr (deleted', freed', False))
                  else if deleted' = deleted then
                    (if Suc noProgress \<ge> maxNoProgressPasses then (w', Inr (deleted', freed', False))
                     else cleanup_loop d dry q deadline clk (Suc i) (Suc noProgress) w' deleted' freed')
                  else cleanup_loop d dry q deadline clk (Suc i) 0 w' deleted' freed')))"
  by pat_completeness auto
termination
proof (relation "measures [\<lambda>(d, dry, q, deadline, clk, i, np, w, del, fr). length (w_assets w),
    \<lambda>(d, dry, q, deadline, clk, i, np, w, del, fr). maxNoProgressPasses - np]", goal_cases)
  case 2
  then show ?case by (clarsimp simp: maxNoProgressPasses_def dest!: sym[of "(_, _, _)"]) (frule cleanup_pass_shrinks, auto)
next
  case 3
  then show ?case by (clarsimp dest!: sym[of "(_, _, _)"]) (frule cleanup_pass_shrinks, auto)
qed simp

fun prune_orphans :: "string list \<Rightarrow> world \<Rightarrow> world" where
  "prune_orphans [] w = w"
| "prune_orphans (r # rs) w = prune_orphans rs (best_effort w (components_delete_orphans w r 0))"

definition policy_query :: "cleanup_policy \<Rightarrow> string list \<Rightarrow> cleanup_query" where
  "policy_query p repoNames =
     \<lparr>cq_format = cp_format p, cq_repos = repoNames,
      cq_last_downloaded = intCriteria (cp_criteria p) ''lastDownloadedDays'',
      cq_age = intCriteria (cp_criteria p) ''artifactAgeDays'',
      cq_path_prefix = (if cp_scope_repository p \<noteq> [] \<and> cp_scope_path_prefix p \<noteq> []
        then cp_scope_path_prefix p else strCriteria (cp_criteria p) ''pathPrefix''),
      cq_name_glob = strCriteria (cp_criteria p) ''nameGlob'', cq_retain = cp_retain_n_versions p\<rparr>"

definition policy_repos :: "world \<Rightarrow> cleanup_policy \<Rightarrow> string list result" where
  "policy_repos w p =
     (if cp_scope_repository p \<noteq> [] then Inr [cp_scope_repository p]
      else (case repos_list_names_by_policy w (cp_id p) 0 of
          Inl e \<Rightarrow> Inl (Wrapped ''cleanup: list repos for policy'' e)
        | Inr rs \<Rightarrow> Inr rs))"

definition runPolicy ::
    "deps \<Rightarrow> world \<Rightarrow> cleanup_policy list \<Rightarrow> cleanup_policy \<Rightarrow> time option \<Rightarrow> clock \<Rightarrow>
     world \<times> cleanup_policy list \<times> cleanup_run_result result" where
  "runPolicy d w pols p deadline clk =
     (let res = \<lparr>cr_policy_id = cp_id p, cr_deleted = 0, cr_freed_bytes = 0, cr_dry_run = cp_dry_run p,
                 cr_skipped = False, cr_aborted = False\<rparr>
      in case policy_repos w p of
           Inl e \<Rightarrow> (w, pols, Inl e)
         | Inr repoNames \<Rightarrow>
             if repoNames = [] then (w, pols, Inr (res\<lparr>cr_skipped := True\<rparr>))
             else (case cleanup_loop d (cp_dry_run p) (policy_query p repoNames) deadline clk 0 0 w 0 0 of
                 (w1, Inl e) \<Rightarrow> (w1, pols, Inl e)
               | (w1, Inr (deleted, freed, aborted)) \<Rightarrow>
                   (let w2 = (if \<not> cp_dry_run p \<and> deleted > 0 then prune_orphans repoNames w1 else w1)
                    in (w2,
                        (case policies_record_run w2 pols (cp_id p) (w_now w2) deleted freed of
                           Inr pols' \<Rightarrow> pols' | Inl _ \<Rightarrow> pols),
                        Inr (res\<lparr>cr_deleted := deleted, cr_freed_bytes := freed, cr_aborted := aborted\<rparr>)))))"

definition cleanupLockTTL :: int where "cleanupLockTTL = 30 * 60 * 1000000000"

text \<open>\<open>locker\<close> answers \<^verbatim>\<open>Acquire\<close> for the lock of a policy id.\<close>

definition runPolicyLocked ::
    "deps \<Rightarrow> (string \<Rightarrow> unit result) option \<Rightarrow> world \<Rightarrow> cleanup_policy list \<Rightarrow> cleanup_policy \<Rightarrow> clock \<Rightarrow>
     world \<times> cleanup_policy list \<times> cleanup_run_result result" where
  "runPolicyLocked d locker w pols p clk =
     (case locker of
        None \<Rightarrow> runPolicy d w pols p None clk
      | Some acquire \<Rightarrow>
          (case acquire (cp_id p) of
             Inl e \<Rightarrow>
               if err_is e ErrLockHeld
               then (w, pols, Inr \<lparr>cr_policy_id = cp_id p, cr_deleted = 0, cr_freed_bytes = 0,
                      cr_dry_run = cp_dry_run p, cr_skipped = True, cr_aborted = False\<rparr>)
               else (w, pols, Inl ErrAcquireLock)
           | Inr _ \<Rightarrow> runPolicy d w pols p (Some (w_now w + cleanupLockTTL)) clk))"

fun run_policies ::
    "deps \<Rightarrow> (string \<Rightarrow> unit result) option \<Rightarrow> (string \<Rightarrow> clock) \<Rightarrow> cleanup_policy list \<Rightarrow> world \<Rightarrow> cleanup_policy list \<Rightarrow>
     world \<times> cleanup_policy list \<times> unit result" where
  "run_policies d locker clks [] w pols = (w, pols, Inr ())"
| "run_policies d locker clks (p # ps) w pols =
     (if \<not> cp_enabled p then run_policies d locker clks ps w pols
      else (case runPolicyLocked d locker w pols p (clks (cp_id p)) of
          (w', pols', Inl e) \<Rightarrow>
            if err_is e ErrAcquireLock then (w', pols', Inl e)
            else run_policies d locker clks ps w' pols'
        | (w', pols', Inr _) \<Rightarrow> run_policies d locker clks ps w' pols'))"

definition CleanupRunAll ::
    "deps \<Rightarrow> (string \<Rightarrow> unit result) option \<Rightarrow> (string \<Rightarrow> clock) \<Rightarrow> world \<Rightarrow> cleanup_policy list \<Rightarrow>
     world \<times> cleanup_policy list \<times> unit result" where
  "CleanupRunAll d locker clks w pols =
     (if w_fault w ''Policies.List'' [] 0 then (w, pols, Inl (Wrapped ''cleanup: list policies'' ErrIO))
      else run_policies d locker clks (sort_key cp_name pols) w pols)"

definition RunPolicyResult ::
    "deps \<Rightarrow> (string \<Rightarrow> unit result) option \<Rightarrow> clock \<Rightarrow> world \<Rightarrow> cleanup_policy list \<Rightarrow> string \<Rightarrow>
     world \<times> cleanup_policy list \<times> cleanup_run_result result" where
  "RunPolicyResult d locker clk w pols i =
     (if w_fault w ''Policies.Get'' i 0 then (w, pols, Inl ErrIO)
      else (case find (\<lambda>p. cp_id p = i) pols of
          None \<Rightarrow> (w, pols, Inl ErrIO)
        | Some p \<Rightarrow> runPolicyLocked d locker w pols p clk))"

text \<open>The preview: the assets of one scan of at most 200 rows, and their total size.\<close>

definition PreviewPolicy :: "world \<Rightarrow> cleanup_policy list \<Rightarrow> string \<Rightarrow> (asset list \<times> int) result" where
  "PreviewPolicy w pols i =
     (if w_fault w ''Policies.Get'' i 0 then Inl ErrIO
      else (case find (\<lambda>p. cp_id p = i) pols of
          None \<Rightarrow> Inl ErrIO
        | Some p \<Rightarrow>
            (case policy_repos w p of
               Inl e \<Rightarrow> Inl e
             | Inr repoNames \<Rightarrow>
                 (case list_stale w (policy_query p repoNames) 200 0 of
                    Inl e \<Rightarrow> Inl (Wrapped ''cleanup: list stale assets'' e)
                  | Inr stale \<Rightarrow> Inr (stale, foldl (\<lambda>t a. i64 (t + a_size_bytes a)) 0 stale)))))"

declare cleanup_loop.simps [simp del]

section \<open>What a run removes\<close>

definition is_stale :: "world \<Rightarrow> cleanup_query \<Rightarrow> asset \<Rightarrow> bool" where
  "is_stale w q a \<longleftrightarrow> repo_by_id w (a_repository_id a) \<noteq> None \<and>
     (case comp_by_id w (a_component_id a) of
        Some c \<Rightarrow> stale_where w (cq_format q) (cq_repos q) (cq_last_downloaded q) (cq_age q)
          (cq_path_prefix q) (cq_name_glob q) (cq_retain q) a c
      | None \<Rightarrow> False)"

lemma list_stale_eq:
  "list_stale w q lmt n = guard_io w ''Assets.ListStale'' (cq_format q) n
     (Inr (take (if lmt = 0 then 500 else lmt) (map (scan_asset w) (sort_key a_created_at (filter (is_stale w q) (w_assets w))))))"
  by (simp add: list_stale_def assets_list_stale_def is_stale_def[abs_def])

lemma list_stale_rows:
  assumes "list_stale w q lmt n = Inr xs" "x \<in> set xs"
  obtains r where "r \<in> set (w_assets w)" "is_stale w q r" "x = scan_asset w r"
  using assms by (auto simp: list_stale_eq split: if_splits dest!: in_set_takeD)

lemma list_stale_empty:
  assumes "list_stale w q lmt n = Inr []" "a \<in> set (w_assets w)"
  shows "\<not> is_stale w q a"
proof -
  have "filter (is_stale w q) (w_assets w) = []"
    using assms(1) by (auto simp: list_stale_eq split: if_splits) (metis length_0_conv length_sort)+
  with assms(2) show ?thesis by (simp add: filter_empty_conv)
qed

text \<open>
  The relation between the states before and after a part of a run: rows were only removed, and
  only rows with property \<open>P\<close>; everything the staleness query reads besides is the same; and the
  bytes of every key a remaining row names are untouched.
\<close>

definition cleaned :: "(asset \<Rightarrow> bool) \<Rightarrow> world \<Rightarrow> world \<Rightarrow> bool" where
  "cleaned P w w' \<longleftrightarrow>
     w_repos w' = w_repos w \<and> w_comps w' = w_comps w \<and> w_now w' = w_now w \<and> w_fault w' = w_fault w \<and>
     (db_ok w \<longrightarrow> db_ok w') \<and> set (w_assets w') \<subseteq> set (w_assets w) \<and>
     (\<forall>a\<in>set (w_assets w). a \<notin> set (w_assets w') \<longrightarrow> P a) \<and>
     (\<forall>b\<in>set (w_assets w'). \<forall>ref. store_blob w' ref (a_blob_key b) = store_blob w ref (a_blob_key b))"

lemma cleaned_refl [simp]: "cleaned P w w"
  by (simp add: cleaned_def)

lemma cleaned_trans: "cleaned P w w' \<Longrightarrow> cleaned P w' w'' \<Longrightarrow> cleaned P w w''"
  unfolding cleaned_def by (elim conjE, intro conjI) (simp_all, blast+)

lemma cleaned_mono: "cleaned P w w' \<Longrightarrow> (\<And>a. a \<in> set (w_assets w) \<Longrightarrow> P a \<Longrightarrow> Q a) \<Longrightarrow> cleaned Q w w'"
  unfolding cleaned_def by (elim conjE, intro conjI) (assumption | blast)+

lemma is_stale_cong:
  assumes "w_repos w' = w_repos w" "w_comps w' = w_comps w" "w_now w' = w_now w"
  shows "is_stale w' = is_stale w"
proof -
  have same: "repo_by_id w' = repo_by_id w" "comp_by_id w' = comp_by_id w" "in_repo w' = in_repo w" "comp_in_repos w' = comp_in_repos w"
    using assms by (simp_all add: repo_by_id_def comp_by_id_def in_repo_def comp_in_repos_def fun_eq_iff)
  have stale: "stale_where w' = stale_where w"
    unfolding stale_where_def[abs_def] retained_comps_def assms same ..
  show ?thesis unfolding is_stale_def[abs_def] same stale ..
qed

lemma decrement_frame:
  "w_comps (best_effort w (DecrementBlobStoreUsage w a n)) = w_comps w"
  "db_step w (best_effort w (DecrementBlobStoreUsage w a n))"
  by (cases "DecrementBlobStoreUsage w a n";
      auto simp: DecrementBlobStoreUsage_step DecrementBlobStoreUsage_def split: if_splits sum.splits dest: update_used_frame)+

lemma delete_stale_cleaned:
  assumes "delete_stale d a n w = (w', k, x)" "db_ok w"
  shows "cleaned (\<lambda>r. scanned_row a r) w w'"
  using assms(1)
proof (cases rule: delete_stale_cases)
  case (row w1)
  then show ?thesis by (auto simp: cleaned_def db_ok_filter_assets store_blob_def)
next
  case (bytes w1 w2)
  have w2: "w2 = set_store w1 (storeForAsset d w1 a n) (del_blob (w_phys w1 (storeForAsset d w1 a n)) (a_blob_key a))"
    using bytes(4) by simp
  have step: "db_step w2 w'" "w_comps w' = w_comps w" "w_assets w' = w_assets w1"
    using w2 bytes(2) unfolding bytes(5) by (simp_all add: decrement_frame)
  have "distinct (map a_id (w_assets w))" using assms(2) by (simp add: db_ok_def)
  moreover obtain r where "r \<in> set (w_assets w)" "scanned_row a r" using bytes(1) by blast
  ultimately have ids: "a_id b \<noteq> a_id a" if "b \<in> set (w_assets w1)" for b
    using that bytes(2) by (auto simp: distinct_map inj_on_def unchanged_row_def)
  have keys: "a_blob_key b \<noteq> a_blob_key a" if "b \<in> set (w_assets w1)" for b
    using bytes(3) that ids[OF that] by (auto simp: assets_count_by_blob_key_def filter_empty_conv split: if_splits)
  have "store_blob w' ref (a_blob_key b) = store_blob w ref (a_blob_key b)" if "b \<in> set (w_assets w')" for b ref
    using that keys[of b] step(3) by (simp add: db_step_store_blob[OF step(1)] w2 bytes(2) store_blob_def bs.get_del)
  moreover have "db_ok w'" using db_step_db_ok[OF step(1)] w2 bytes(2) assms(2) by (simp add: db_ok_filter_assets)
  moreover have "w_repos w' = w_repos w" "w_now w' = w_now w" "w_fault w' = w_fault w"
    using step(1) w2 bytes(2) by (simp_all add: db_step_def)
  ultimately show ?thesis using step bytes(2) by (auto simp: cleaned_def)
qed simp

lemma cleanup_pass_dry: "fst (cleanup_pass d True n stale w deleted freed) = w"
  by (induction stale arbitrary: deleted freed) simp_all

lemma cleanup_pass_cleaned:
  assumes "cleanup_pass d dry n stale w deleted freed = (w', deleted', freed')"
    and "db_ok w0" "cleaned P w0 w" "\<forall>a\<in>set stale. \<exists>r\<in>set (w_assets w0). P r \<and> a = scan_asset w0 r"
  shows "cleaned P w w'"
  using assms(1,3,4)
proof (induction stale arbitrary: w deleted freed)
  case (Cons a stale)
  obtain v k x where v: "delete_stale d a n w = (v, k, x)" by (metis prod_cases3)
  obtain r where r: "r \<in> set (w_assets w0)" "P r" "a = scan_asset w0 r" using Cons.prems(3) by auto
  have ok: "db_ok w" using Cons.prems(2) assms(2) by (simp add: cleaned_def)
  have "distinct (map a_id (w_assets w0))" using assms(2) by (simp add: db_ok_def)
  then have "s = r" if "s \<in> set (w_assets w)" "scanned_row a s" for s
    using that r Cons.prems(2) by (auto simp: cleaned_def unchanged_row_def distinct_map inj_on_def)
  then have step: "cleaned P w v"
    using cleaned_mono[OF delete_stale_cleaned[OF v ok]] r(2) by blast
  show ?case
  proof (cases "dry \<or> w_fault w ''Assets.WithBlobKeyLock'' (a_blob_key a) n")
    case True
    then show ?thesis using Cons.prems Cons.IH by (auto split: if_splits)
  next
    case False
    with Cons.prems(1) v have "cleanup_pass d dry n stale v (deleted + k) (i64 (freed + x)) = (w', deleted', freed')" by simp
    from Cons.IH[OF this] Cons.prems cleaned_trans step show ?thesis by (metis list.set_intros(2))
  qed
qed simp

lemma cleanup_loop_cleaned:
  assumes "cleanup_loop d dry q deadline clk i np w deleted freed = (w', r)" "db_ok w"
  shows "cleaned (is_stale w q) w w' \<and> (dry \<longrightarrow> w' = w)"
  using assms
proof (induction d dry q deadline clk i np w deleted freed rule: cleanup_loop.induct)
  case (1 d dry q deadline clk i np w deleted freed)
  consider "w' = w"
    | stale v del' fr' where "\<not> pastDeadline deadline (clk i)" "list_stale w q batchLimit (100 + i) = Inr stale" "stale \<noteq> []"
        "cleanup_pass d dry (100 + i) stale w deleted freed = (v, del', fr')"
        "dry \<and> w' = v \<or> \<not> dry \<and> del' = deleted \<and> (w' = v \<or> maxNoProgressPasses > Suc np \<and>
            cleanup_loop d dry q deadline clk (Suc i) (Suc np) v del' fr' = (w', r)) \<or>
         \<not> dry \<and> del' \<noteq> deleted \<and> cleanup_loop d dry q deadline clk (Suc i) 0 v del' fr' = (w', r)"
    using "1.prems"(1) by (subst (asm) cleanup_loop.simps) (auto split: if_splits sum.splits prod.splits)
  then show ?case
  proof cases
    case 1
    then show ?thesis by simp
  next
    case (2 stale v del' fr')
    have rows: "\<forall>a\<in>set stale. \<exists>r\<in>set (w_assets w). is_stale w q r \<and> a = scan_asset w r"
      using list_stale_rows[OF 2(2)] by metis
    have v: "cleaned (is_stale w q) w v" by (rule cleanup_pass_cleaned[OF 2(4) "1.prems"(2) cleaned_refl rows])
    then have ok: "db_ok v" "is_stale v = is_stale w"
      using "1.prems"(2) by (auto simp: cleaned_def intro: is_stale_cong)
    have dry: "v = w" if dry using that 2(4) cleanup_pass_dry[of d "100 + i" stale w deleted freed] by simp
    have rest: "cleaned (is_stale w q) w w'"
      if "cleanup_loop d dry q deadline clk (Suc i) np' v del' fr' = (w', r)" "\<not> dry"
        "np' = Suc np \<and> del' = deleted \<and> maxNoProgressPasses > Suc np \<or> np' = 0 \<and> del' \<noteq> deleted" for np'
    proof -
      have "cleaned (is_stale v q) v w'"
        using that "1.IH"[OF 2(1,2,3) 2(4)[symmetric] refl] ok(1) by auto
      with v ok(2) show ?thesis using cleaned_trans by metis
    qed
    show ?thesis using 2(5) v dry rest by auto
  qed
qed

lemma delete_stale_hits:
  assumes "w_fault w = no_faults" "r \<in> set (w_assets w)" "scanned_row a r"
  shows "fst (snd (delete_stale d a n w)) = 1"
proof -
  obtain w' k x where run: "delete_stale d a n w = (w', k, x)" by (metis prod_cases3)
  then have "k = 1" by (cases rule: delete_stale_cases) (use assms in auto)
  with run show ?thesis by simp
qed

lemma cleanup_pass_mono: "deleted \<le> fst (snd (cleanup_pass d False n stale w deleted freed))"
  by (metis cleanup_pass_deleted(2) fst_conv prod_cases3 snd_conv)

lemma cleanup_pass_progress:
  assumes "w_fault w = no_faults" "list_stale w q lmt m = Inr stale" "stale \<noteq> []"
  shows "deleted < fst (snd (cleanup_pass d False n stale w deleted freed))"
proof -
  obtain a rest where stale: "stale = a # rest" using assms(3) by (cases stale) auto
  then obtain r where "r \<in> set (w_assets w)" "a = scan_asset w r"
    using list_stale_rows[OF assms(2), of a] by auto
  then have "fst (snd (delete_stale d a n w)) = 1"
    using assms(1) by (intro delete_stale_hits[of w r]) (simp_all add: unchanged_row_def)
  then obtain v x where v: "delete_stale d a n w = (v, 1, x)" by (metis prod.collapse)
  have "cleanup_pass d False n stale w deleted freed = cleanup_pass d False n rest v (Suc deleted) (i64 (freed + x))"
    using v assms(1) stale by simp
  then show ?thesis using cleanup_pass_mono[of "Suc deleted" d n rest v] by (metis Suc_le_lessD)
qed

lemma cleanup_loop_complete:
  assumes "w_fault w = no_faults" "db_ok w"
  shows "\<exists>w' del fr. cleanup_loop d False q None clk i np w deleted freed = (w', Inr (del, fr, False)) \<and>
    (\<forall>a\<in>set (w_assets w'). \<not> is_stale w' q a)"
  using assms
proof (induction "length (w_assets w)" arbitrary: i np w deleted freed rule: less_induct)
  case less
  have ls: "list_stale w q batchLimit (100 + i) \<noteq> Inl e" for e
    using less.prems by (simp add: list_stale_eq guard_io_def)
  show ?case
  proof (cases "list_stale w q batchLimit (100 + i)")
    case (Inl e)
    with ls show ?thesis by blast
  next
    case (Inr stale)
    show ?thesis
    proof (cases "stale = []")
      case True
      with Inr show ?thesis
        by (subst cleanup_loop.simps) (auto simp: pastDeadline_def dest: list_stale_empty)
    next
      case False
      obtain v del' fr' where pass: "cleanup_pass d False (100 + i) stale w deleted freed = (v, del', fr')"
        by (metis prod_cases3)
      have del: "deleted < del'"
        using cleanup_pass_progress[OF less.prems(1) Inr False, of deleted d "100 + i" freed] pass by simp
      have "\<forall>a\<in>set stale. \<exists>r\<in>set (w_assets w). is_stale w q r \<and> a = scan_asset w r"
        using list_stale_rows[OF Inr] by metis
      from cleanup_pass_cleaned[OF pass less.prems(2) cleaned_refl this]
      have "w_fault v = no_faults" "db_ok v" using less.prems by (simp_all add: cleaned_def)
      moreover have "length (w_assets v) < length (w_assets w)" using cleanup_pass_shrinks[OF pass] del by auto
      ultimately have "\<exists>w' del fr. cleanup_loop d False q None clk (Suc i) 0 v del' fr' = (w', Inr (del, fr, False)) \<and>
          (\<forall>a\<in>set (w_assets w'). \<not> is_stale w' q a)"
        by (intro less.hyps)
      with Inr False pass del show ?thesis
        by (subst cleanup_loop.simps) (auto simp: pastDeadline_def)
    qed
  qed
qed

lemma prune_orphans_frame:
  "w_assets (prune_orphans rs w) = w_assets w" "db_step w (prune_orphans rs w)"
  "set (w_comps (prune_orphans rs w)) \<subseteq> set (w_comps w)"
proof -
  have one: "w_assets (best_effort v (components_delete_orphans v r 0)) = w_assets v \<and>
      db_step v (best_effort v (components_delete_orphans v r 0)) \<and>
      set (w_comps (best_effort v (components_delete_orphans v r 0))) \<subseteq> set (w_comps v)" for v r
    by (cases "components_delete_orphans v r 0")
      (auto simp: db_step_components_delete_orphans, auto simp: components_delete_orphans_def)
  have "w_assets (prune_orphans rs w) = w_assets w \<and> db_step w (prune_orphans rs w) \<and>
      set (w_comps (prune_orphans rs w)) \<subseteq> set (w_comps w)"
  proof (induction rs arbitrary: w)
    case (Cons r rs)
    then show ?case using one[of w r] by (auto intro: db_step_trans)
  qed simp
  then show "w_assets (prune_orphans rs w) = w_assets w" "db_step w (prune_orphans rs w)"
    "set (w_comps (prune_orphans rs w)) \<subseteq> set (w_comps w)" by blast+
qed

section \<open>Properties\<close>


text \<open>
  A cleanup run is thorough: without a deadline and when no call fails, a real run of an attached
  policy ends, reports success, and leaves no asset its query calls stale.
\<close>

lemma runPolicy_complete:
  assumes "db_ok w" "w_fault w = no_faults" "\<not> cp_dry_run p" "policy_repos w p = Inr repos" "repos \<noteq> []"
  shows "\<exists>w' pols' res. runPolicy d w pols p None clk = (w', pols', Inr res) \<and> \<not> cr_aborted res \<and> \<not> cr_skipped res \<and>
    (\<forall>a\<in>set (w_assets w'). \<not> is_stale w (policy_query p repos) a)"
proof -
  let ?q = "policy_query p repos"
  obtain w1 del fr where loop: "cleanup_loop d False ?q None clk 0 0 w 0 0 = (w1, Inr (del, fr, False))"
    and none: "\<forall>a\<in>set (w_assets w1). \<not> is_stale w1 ?q a"
    using cleanup_loop_complete[OF assms(2,1)] by blast
  have "is_stale w1 = is_stale w"
    using cleanup_loop_cleaned[OF loop assms(1)] by (intro is_stale_cong) (auto simp: cleaned_def)
  with loop none assms(3-5) show ?thesis
    by (auto simp: runPolicy_def Let_def prune_orphans_frame)
qed

definition demo_policy :: cleanup_policy where
  "demo_policy = \<lparr>cp_id = ''p1'', cp_name = ''p'', cp_format = ''*'', cp_criteria = [(''artifactAgeDays'', AnyFloat 0)],
     cp_enabled = True, cp_dry_run = False, cp_retain_n_versions = 0, cp_scope_repository = [],
     cp_scope_path_prefix = [], cp_last_run = None\<rparr>"

text \<open>
  The preview does not show what a run would do: for a policy attached to no repository the run is
  skipped, while the preview scans every repository of the installation.
\<close>

lemma PreviewPolicy_unattached:
  "PreviewPolicy demo_world [demo_policy] ''p1'' = Inr ([demo_asset ''xx'' ''a.txt'', demo_asset ''xxx'' ''b.txt''], 6) \<and>
   (case runPolicy demo_deps demo_world [demo_policy] demo_policy None (\<lambda>_. 0) of
      (w', pols, Inr res) \<Rightarrow> cr_skipped res \<and> cr_deleted res = 0 \<and> w_assets w' = w_assets demo_world
    | _ \<Rightarrow> False)"
  by code_simp

definition demo_scoped_policy :: cleanup_policy where
  "demo_scoped_policy = demo_policy\<lparr>cp_scope_repository := ''raw'', cp_scope_path_prefix := ''a''\<rparr>"


lemma runPolicy_complete_witness:
  "\<exists>w' pols' res. runPolicy demo_deps demo_world [] demo_scoped_policy None (\<lambda>_. 0) = (w', pols', Inr res) \<and>
     demo_asset ''xx'' ''a.txt'' \<notin> set (w_assets w')"
proof -
  have "policy_repos demo_world demo_scoped_policy = Inr [''raw'']" "\<not> cp_dry_run demo_scoped_policy"
    "is_stale demo_world (policy_query demo_scoped_policy [''raw'']) (demo_asset ''xx'' ''a.txt'')"
    by code_simp+
  moreover have "w_fault demo_world = no_faults" by (simp add: demo_world_def)
  ultimately show ?thesis
    using runPolicy_complete[OF demo_world_db_ok, of demo_scoped_policy "[''raw'']" demo_deps "[]" "\<lambda>_. 0"] by blast
qed

end
