(* ===== verification/Blob_Migration.thy ===== *)
theory Blob_Migration
  imports Blob_GC
begin

text \<open>
  Moving a repository from one blob store to another, after
  \<^verbatim>\<open>internal/service/blob_store_migration_service.go\<close> and the table behind it
  (\<^verbatim>\<open>internal/repository/postgres/blob_store_migration_repo.go\<close>). The migration runs in the
  background while clients keep using the repository: what they do is the argument \<open>env\<close>, applied
  at the two points of a row where the code expects a race, while the bytes are copied
  (\<open>env 0\<close>) and before the row is flipped (\<open>env 1\<close>).
\<close>

section \<open>The migrations table\<close>

text \<open>\<open>bm_error\<close> is the error whose text the column \<^verbatim>\<open>error_message\<close> holds.\<close>

record blob_migration =
  bm_id :: string
  bm_repository_name :: string
  bm_source_store_id :: string
  bm_target_store_id :: string
  bm_status :: string
  bm_total_assets :: nat
  bm_done_assets :: nat
  bm_total_bytes :: int
  bm_done_bytes :: int
  bm_error :: "err option"
  bm_started_at :: "time option"
  bm_finished_at :: "time option"
  bm_created_at :: time
  bm_updated_at :: time

text \<open>\<open>ms_cancels\<close> holds the ids of the migrations whose cancel function is registered.\<close>

record mig_state =
  ms_world :: world
  ms_migs :: "blob_migration list"
  ms_cancels :: "string list"

definition bm_active :: "blob_migration \<Rightarrow> bool" where
  "bm_active m \<longleftrightarrow> bm_status m = ''pending'' \<or> bm_status m = ''running''"

definition migs_create :: "mig_state \<Rightarrow> blob_migration \<Rightarrow> nat \<Rightarrow> (mig_state \<times> blob_migration) result" where
  "migs_create s m n = (let w = ms_world s in guard_io w ''Migrations.Create'' (bm_repository_name m) n
     (if \<not> (\<exists>b\<in>set (w_blobs w). bs_id b = bm_target_store_id m) then Inl ErrIO
      else if bm_source_store_id m \<noteq> [] \<and> \<not> (\<exists>b\<in>set (w_blobs w). bs_id b = bm_source_store_id m) then Inl ErrIO
      else if bm_active m \<and> (\<exists>r\<in>set (ms_migs s). bm_active r \<and> bm_repository_name r = bm_repository_name m)
      then Inl ErrAlreadyExists
      else (let row = m\<lparr>bm_id := w_gen_id w (w_seq w), bm_created_at := w_now w, bm_updated_at := w_now w\<rparr>
        in Inr (s\<lparr>ms_world := w\<lparr>w_seq := Suc (w_seq w)\<rparr>, ms_migs := ms_migs s @ [row]\<rparr>, row))))"

definition migs_get :: "mig_state \<Rightarrow> string \<Rightarrow> nat \<Rightarrow> blob_migration result" where
  "migs_get s i n = guard_io (ms_world s) ''Migrations.Get'' i n
     (row_or_not_found (find (\<lambda>m. bm_id m = i) (ms_migs s)))"

text \<open>The newest of some rows; among equal times the one inserted last.\<close>

definition newest :: "blob_migration list \<Rightarrow> blob_migration option" where
  "newest rows = (if rows = [] then None else Some (last (sort_key bm_created_at rows)))"

definition migs_get_active_by_repo :: "mig_state \<Rightarrow> string \<Rightarrow> nat \<Rightarrow> blob_migration result" where
  "migs_get_active_by_repo s repo n = guard_io (ms_world s) ''Migrations.GetActiveByRepo'' repo n
     (row_or_not_found (newest (filter (\<lambda>m. bm_repository_name m = repo \<and> bm_active m) (ms_migs s))))"

definition migs_get_latest_by_repo :: "mig_state \<Rightarrow> string \<Rightarrow> nat \<Rightarrow> blob_migration result" where
  "migs_get_latest_by_repo s repo n = guard_io (ms_world s) ''Migrations.GetLatestByRepo'' repo n
     (row_or_not_found (newest (filter (\<lambda>m. bm_repository_name m = repo) (ms_migs s))))"

definition migs_list_active :: "mig_state \<Rightarrow> nat \<Rightarrow> blob_migration list result" where
  "migs_list_active s n = guard_io (ms_world s) ''Migrations.ListActive'' [] n
     (Inr (sort_key bm_created_at (filter bm_active (ms_migs s))))"

definition migs_exec :: "mig_state \<Rightarrow> op \<Rightarrow> string \<Rightarrow> nat \<Rightarrow> (blob_migration \<Rightarrow> blob_migration) \<Rightarrow> mig_state result" where
  "migs_exec s op i n f = guard_io (ms_world s) op i n
     (Inr (s\<lparr>ms_migs := upd_where (\<lambda>m. bm_id m = i) (\<lambda>m. (f m)\<lparr>bm_updated_at := w_now (ms_world s)\<rparr>) (ms_migs s)\<rparr>))"

definition migs_set_totals :: "mig_state \<Rightarrow> string \<Rightarrow> nat \<Rightarrow> int \<Rightarrow> nat \<Rightarrow> mig_state result" where
  "migs_set_totals s i ta tb n = migs_exec s ''Migrations.SetTotals'' i n
     (\<lambda>m. m\<lparr>bm_total_assets := ta, bm_total_bytes := tb\<rparr>)"

definition migs_update_progress :: "mig_state \<Rightarrow> string \<Rightarrow> nat \<Rightarrow> int \<Rightarrow> nat \<Rightarrow> mig_state result" where
  "migs_update_progress s i da db n = migs_exec s ''Migrations.UpdateProgress'' i n
     (\<lambda>m. m\<lparr>bm_done_assets := da, bm_done_bytes := db\<rparr>)"

definition migs_update_status :: "mig_state \<Rightarrow> string \<Rightarrow> string \<Rightarrow> err option \<Rightarrow> nat \<Rightarrow> mig_state result" where
  "migs_update_status s i status e n = migs_exec s ''Migrations.UpdateStatus'' i n
     (\<lambda>m. m\<lparr>bm_status := status, bm_error := e,
        bm_started_at := (case bm_started_at m of
            Some t \<Rightarrow> Some t
          | None \<Rightarrow> if status = ''running'' then Some (w_now (ms_world s)) else None)\<rparr>)"

definition FinishMigration :: "mig_state \<Rightarrow> string \<Rightarrow> string \<Rightarrow> err option \<Rightarrow> nat \<Rightarrow> mig_state result" where
  "FinishMigration s i status e n = migs_exec s ''Migrations.FinishMigration'' i n
     (\<lambda>m. m\<lparr>bm_status := status, bm_error := e, bm_finished_at := Some (w_now (ms_world s))\<rparr>)"

text \<open>An error dropped with \<^verbatim>\<open>_ =\<close>.\<close>

definition try_mig :: "mig_state \<Rightarrow> mig_state result \<Rightarrow> mig_state" where
  "try_mig s r = (case r of Inr s' \<Rightarrow> s' | Inl _ \<Rightarrow> s)"

section \<open>Starting\<close>

definition blobMigLockTTL :: int where "blobMigLockTTL = 2 * 60 * 60 * 1000000000"

definition blobMigLockKey :: "string \<Rightarrow> string" where
  "blobMigLockKey repoName = ''nexspence:lock:blobmig:'' @ repoName"

text \<open>
  \<open>locker\<close> is \<open>None\<close> without a distributed locker, else the answer of its \<^verbatim>\<open>Acquire\<close>. The result is
  the migration row and the deadline, the arguments of the \<^verbatim>\<open>runMigration\<close> goroutine.
\<close>

definition Start ::
    "unit result option \<Rightarrow> mig_state \<Rightarrow> string \<Rightarrow> string \<Rightarrow> mig_state \<times> (blob_migration \<times> time option) result" where
  "Start locker s repoName target =
     (let w = ms_world s in
      case repos_get w repoName 100 of
        Inl e \<Rightarrow> if err_is e ErrNotFound then (s, Inl (ErrMsg ''repository not found'')) else (s, Inl (Wrapped ''get repo'' e))
      | Inr repo \<Rightarrow>
          (case blobs_get_by_id w target 101 of
             Inl e \<Rightarrow> if err_is e ErrNotFound then (s, Inl (ErrMsg ''target blob store not found''))
                else (s, Inl (Wrapped ''get target store'' e))
           | Inr _ \<Rightarrow>
               if r_blob_store_id repo = Some target
               then (s, Inl (ErrMsg ''target blob store is the same as the repository's current store''))
               else (case migs_get_active_by_repo s repoName 102 of
                   Inr _ \<Rightarrow> (s, Inl ErrMigrationAlreadyRunning)
                 | Inl e \<Rightarrow>
                     if \<not> err_is e ErrNotFound then (s, Inl e)
                     else (case (case locker of None \<Rightarrow> Inr None
                             | Some (Inl e) \<Rightarrow> Inl e
                             | Some (Inr _) \<Rightarrow> Inr (Some (w_now w + blobMigLockTTL))) of
                         Inl e \<Rightarrow>
                           if err_is e ErrLockHeld then (s, Inl (ErrMsg ''already running on another node''))
                           else (s, Inl (Wrapped ''acquire migration lock'' e))
                       | Inr deadline \<Rightarrow>
                           (case migs_create s \<lparr>bm_id = [], bm_repository_name = repoName,
                                bm_source_store_id = (case r_blob_store_id repo of Some i \<Rightarrow> i | None \<Rightarrow> []),
                                bm_target_store_id = target, bm_status = ''pending'', bm_total_assets = 0, bm_done_assets = 0,
                                bm_total_bytes = 0, bm_done_bytes = 0, bm_error = None, bm_started_at = None,
                                bm_finished_at = None, bm_created_at = 0, bm_updated_at = 0\<rparr> 103 of
                              Inl e \<Rightarrow>
                                if err_is e ErrAlreadyExists then (s, Inl ErrMigrationAlreadyRunning)
                                else (s, Inl (Wrapped ''create migration record'' e))
                            | Inr (s1, m) \<Rightarrow> (s1\<lparr>ms_cancels := bm_id m # ms_cancels s1\<rparr>, Inr (m, deadline)))))))"

fun finish_interrupted :: "mig_state \<Rightarrow> blob_migration list \<Rightarrow> mig_state" where
  "finish_interrupted s [] = s"
| "finish_interrupted s (m # ms) =
     finish_interrupted (try_mig s (FinishMigration s (bm_id m) ''cancelled''
       (Some (ErrMsg ''interrupted by server restart'')) 105)) ms"

definition ResumeAll :: "mig_state \<Rightarrow> mig_state \<times> unit result" where
  "ResumeAll s =
     (case migs_list_active s 104 of
        Inl e \<Rightarrow> (s, Inl e)
      | Inr active \<Rightarrow> (finish_interrupted s active, Inr ()))"

section \<open>Moving one blob\<close>

type_synonym env = "nat \<Rightarrow> string \<Rightarrow> world \<Rightarrow> world"

definition quiet :: env where
  "quiet = (\<lambda>_ _ w. w)"

definition copyBlob :: "env \<Rightarrow> world \<Rightarrow> store_ref \<Rightarrow> store_ref \<Rightarrow> string \<Rightarrow> world \<times> int result" where
  "copyBlob env w sref tref key =
     (case store_get w sref key 110 of
        Inl e \<Rightarrow> (w, Inl (Wrapped ''reading blob'' e))
      | Inr data \<Rightarrow>
          (case store_put w tref key data 111 of
             Inl e \<Rightarrow> (w, Inl (Wrapped ''writing blob'' e))
           | Inr w1 \<Rightarrow>
               (let w2 = env 0 key w1; sz = int (length data) in
                case store_size w2 sref key 112 of
                  Inl e \<Rightarrow> (best_effort w2 (store_delete w2 tref key 113), Inl (Wrapped ''re-checking source blob'' e))
                | Inr after \<Rightarrow>
                    if after \<noteq> sz
                    then (best_effort w2 (store_delete w2 tref key 113), Inl (ErrMsg ''blob changed during migration''))
                    else (w2, Inr sz))))"

definition dropSourceCopy :: "world \<Rightarrow> store_ref \<Rightarrow> string \<Rightarrow> string \<times> string \<times> int \<Rightarrow> world" where
  "dropSourceCopy w sref sname row =
     (case row of (key, src, bytes) \<Rightarrow>
        (case assets_count_by_blob_key_in_store w key src 114 of
           Inl _ \<Rightarrow> w
         | Inr remaining \<Rightarrow>
             if remaining > 0 then w
             else (let sz = (case store_size w sref key 115 of Inl _ \<Rightarrow> bytes | Inr n \<Rightarrow> if n \<le> 0 then bytes else n) in
                   case store_delete w sref key 116 of
                     Inl _ \<Rightarrow> w
                   | Inr w1 \<Rightarrow> if sz > 0 then best_effort w1 (blobs_update_used_bytes w1 sname (- sz) 117) else w1)))"

text \<open>The callback under the blob-key lock.\<close>

definition flip_row ::
    "string \<Rightarrow> string \<Rightarrow> store_ref \<Rightarrow> string \<Rightarrow> string \<times> string \<times> int \<Rightarrow> int \<Rightarrow> world \<Rightarrow> world \<times> unit result" where
  "flip_row repo target sref sname row expectedSize w =
     (case row of (key, src, bytes) \<Rightarrow>
        (case store_size w sref key 118 of
           Inl e \<Rightarrow> (w, Inl (Wrapped ''re-checking source blob before flip'' e))
         | Inr cur \<Rightarrow>
             if cur \<noteq> expectedSize then (w, Inl (ErrMsg ''blob changed on source before flip''))
             else (case assets_update_blob_store_for_blob_key w key repo target 119 of
                 Inl e \<Rightarrow> (w, Inl (Wrapped ''updating asset pointers'' e))
               | Inr w1 \<Rightarrow> (dropSourceCopy w1 sref sname row, Inr ()))))"

definition migrate_row ::
    "env \<Rightarrow> string \<Rightarrow> string \<Rightarrow> string \<Rightarrow> store_ref \<Rightarrow> world \<Rightarrow> string \<times> string \<times> int \<Rightarrow> world \<times> unit result" where
  "migrate_row env repo target tname tref w row =
     (case row of (key, src, bytes) \<Rightarrow>
        (case blobs_get_by_id w src 120 of
           Inl e \<Rightarrow> (w, Inl (Wrapped ''cannot load source store'' e))
         | Inr sourceMeta \<Rightarrow>
             (case registry_get w sourceMeta 121 of
                Inl e \<Rightarrow> (w, Inl (Wrapped ''cannot open source store'' e))
              | Inr sref \<Rightarrow>
                  (case store_exists w tref key 122 of
                     Inl e \<Rightarrow> (w, Inl (Wrapped ''checking target'' e))
                   | Inr ex \<Rightarrow>
                       (case (if ex then (w, Inr bytes)
                              else (case copyBlob env w sref tref key of
                                  (w1, Inl e) \<Rightarrow> (w1, Inl e)
                                | (w1, Inr copied) \<Rightarrow>
                                    (best_effort w1 (blobs_update_used_bytes w1 tname copied 123), Inr copied))) of
                          (w1, Inl e) \<Rightarrow> (w1, Inl e)
                        | (w1, Inr expectedSize) \<Rightarrow>
                            with_blob_key_lock (env 1 key w1) key 124
                              (flip_row repo target sref (bs_name sourceMeta) row expectedSize))))))"

section \<open>The run\<close>

definition fail_mig :: "mig_state \<Rightarrow> blob_migration \<Rightarrow> err \<Rightarrow> mig_state" where
  "fail_mig s m e = try_mig s (FinishMigration s (bm_id m) ''failed'' (Some e) 130)"

text \<open>
  The loop over the rows, at row \<open>i\<close>; \<open>cancelled i\<close> is the poll of \<^verbatim>\<open>ctx.Done()\<close> and \<open>clk i\<close> the
  clock. The flag says whether the loop came to its end.
\<close>

fun migrate_rows ::
    "env \<Rightarrow> (nat \<Rightarrow> bool) \<Rightarrow> time option \<Rightarrow> clock \<Rightarrow> blob_migration \<Rightarrow> string \<Rightarrow> store_ref \<Rightarrow>
     (string \<times> string \<times> int) list \<Rightarrow> nat \<Rightarrow> int \<Rightarrow> mig_state \<Rightarrow> mig_state \<times> bool" where
  "migrate_rows env cancelled deadline clk m tname tref [] doneAssets doneBytes s = (s, True)"
| "migrate_rows env cancelled deadline clk m tname tref (row # rows) doneAssets doneBytes s =
     (if pastDeadline deadline (clk doneAssets) then
        (try_mig s (FinishMigration s (bm_id m) ''cancelled'' (Some (ErrMsg ''aborted: exceeded the lock's TTL'')) 131), False)
      else if cancelled doneAssets then
        (try_mig s (FinishMigration s (bm_id m) ''cancelled'' None 132), False)
      else (case migrate_row env (bm_repository_name m) (bm_target_store_id m) tname tref (ms_world s) row of
          (w1, Inl e) \<Rightarrow> (fail_mig (s\<lparr>ms_world := w1\<rparr>) m e, False)
        | (w1, Inr _) \<Rightarrow>
            (let s1 = s\<lparr>ms_world := w1\<rparr>; da = Suc doneAssets; db = i64 (doneBytes + snd (snd row))
             in migrate_rows env cancelled deadline clk m tname tref rows da db
                  (try_mig s1 (migs_update_progress s1 (bm_id m) da db 133)))))"

text \<open>\<^verbatim>\<open>repositoryRepo.Update\<close> of a row just read, with another blob store.\<close>

definition repos_set_blob_store :: "world \<Rightarrow> string \<Rightarrow> string \<Rightarrow> nat \<Rightarrow> world result" where
  "repos_set_blob_store w name sid n = guard_io w ''Repos.Update'' name n
     (if \<not> (\<exists>b\<in>set (w_blobs w). bs_id b = sid) then Inl ErrIO
      else Inr (w\<lparr>w_repos := upd_where (\<lambda>r. r_name r = name) (\<lambda>r. r\<lparr>r_blob_store_id := Some sid\<rparr>) (w_repos w)\<rparr>))"

definition run_body ::
    "env \<Rightarrow> (nat \<Rightarrow> bool) \<Rightarrow> time option \<Rightarrow> clock \<Rightarrow> blob_migration \<Rightarrow> mig_state \<Rightarrow> mig_state" where
  "run_body env cancelled deadline clk m s0 =
     (case migs_update_status s0 (bm_id m) ''running'' None 134 of
        Inl _ \<Rightarrow> s0
      | Inr s1 \<Rightarrow>
          (case assets_list_for_blob_store_migration (ms_world s1) (bm_repository_name m) (bm_target_store_id m) 135 of
             Inl e \<Rightarrow> fail_mig s1 m e
           | Inr rows \<Rightarrow>
               (let totalBytes = foldl (\<lambda>t r. i64 (t + snd (snd r))) 0 rows;
                    s2 = try_mig s1 (migs_set_totals s1 (bm_id m) (length rows) totalBytes 136)
                in case blobs_get_by_id (ms_world s2) (bm_target_store_id m) 137 of
                     Inl e \<Rightarrow> fail_mig s2 m (Wrapped ''cannot load target store'' e)
                   | Inr tmeta \<Rightarrow>
                       (case registry_get (ms_world s2) tmeta 138 of
                          Inl e \<Rightarrow> fail_mig s2 m (Wrapped ''cannot open target store'' e)
                        | Inr tref \<Rightarrow>
                            (case migrate_rows env cancelled deadline clk m (bs_name tmeta) tref rows 0 0 s2 of
                               (s3, False) \<Rightarrow> s3
                             | (s3, True) \<Rightarrow>
                                 (let s4 = (case repos_get (ms_world s3) (bm_repository_name m) 139 of
                                        Inl _ \<Rightarrow> s3
                                      | Inr _ \<Rightarrow> s3\<lparr>ms_world := best_effort (ms_world s3)
                                          (repos_set_blob_store (ms_world s3) (bm_repository_name m) (bm_target_store_id m) 140)\<rparr>)
                                  in try_mig s4 (FinishMigration s4 (bm_id m) ''done'' None 141)))))))"

text \<open>The deferred calls close a row no exit has closed, and forget the cancel function.\<close>

definition close_unfinished :: "mig_state \<Rightarrow> blob_migration \<Rightarrow> mig_state" where
  "close_unfinished s m =
     (case migs_get s (bm_id m) 142 of
        Inl _ \<Rightarrow> s
      | Inr cur \<Rightarrow>
          if \<not> bm_active cur then s
          else try_mig s (FinishMigration s (bm_id m) ''failed'' (Some (ErrMsg ''migration ended without finishing'')) 143))"

definition runMigration ::
    "env \<Rightarrow> (nat \<Rightarrow> bool) \<Rightarrow> time option \<Rightarrow> clock \<Rightarrow> mig_state \<Rightarrow> blob_migration \<Rightarrow> mig_state" where
  "runMigration env cancelled deadline clk s m =
     (let s' = close_unfinished (run_body env cancelled deadline clk m s) m
      in s'\<lparr>ms_cancels := filter (\<lambda>i. i \<noteq> bm_id m) (ms_cancels s')\<rparr>)"

section \<open>Frames\<close>

text \<open>What a migration leaves alone in the database: all but the assets' store and the counters.\<close>

definition mig_frame :: "world \<Rightarrow> world \<Rightarrow> bool" where
  "mig_frame w w' \<longleftrightarrow> w_repos w' = w_repos w \<and> map bs_static (w_blobs w') = map bs_static (w_blobs w) \<and>
     w_comps w' = w_comps w \<and> w_seq w' = w_seq w \<and> w_gen_id w' = w_gen_id w \<and> w_uuid_ok w' = w_uuid_ok w \<and>
     w_now w' = w_now w \<and> w_fault w' = w_fault w"

lemma mig_frame_refl [simp]: "mig_frame w w"
  and mig_frame_trans [trans]: "mig_frame w w' \<Longrightarrow> mig_frame w' w'' \<Longrightarrow> mig_frame w w''"
  by (simp_all add: mig_frame_def)

lemma mig_frame_set_store [simp]: "mig_frame w (set_store w r s)"
  by (simp add: mig_frame_def)

lemma mig_frame_used_bytes:
  "mig_frame w (best_effort w (blobs_update_used_bytes w name d n)) \<and>
   w_assets (best_effort w (blobs_update_used_bytes w name d n)) = w_assets w \<and>
   data_at (best_effort w (blobs_update_used_bytes w name d n)) = data_at w"
  by (auto simp: blobs_update_used_bytes_def guard_io_def mig_frame_def upd_used_static intro!: data_at_cong)

lemma store_put_frame: "store_put w r k d n = Inr w' \<Longrightarrow> mig_frame w w' \<and> w_assets w' = w_assets w"
  by (auto dest: store_put_ok)

lemma store_delete_frame:
  "mig_frame w (best_effort w (store_delete w r k n)) \<and> w_assets (best_effort w (store_delete w r k n)) = w_assets w \<and>
   (data_at (best_effort w (store_delete w r k n)) r' k' = data_at w r' k' \<or>
    r' = r \<and> k' = k \<and> data_at (best_effort w (store_delete w r k n)) r' k' = None)"
  by (auto simp: store_delete_def guard_io_def best_effort_def data_at_def store_blob_def bs.get_del)

lemma copyBlob_quiet:
  assumes "copyBlob quiet w sref tref k = (w', r)" "sref \<noteq> tref" "data_at w tref k = None"
  shows "mig_frame w w' \<and> w_assets w' = w_assets w \<and>
    (\<forall>ref k'. \<not> (ref = tref \<and> k' = k) \<longrightarrow> data_at w' ref k' = data_at w ref k') \<and>
    (data_at w' tref k = None \<or> data_at w' tref k = data_at w sref k) \<and>
    (\<forall>c. r = Inr c \<longrightarrow> (\<exists>d. data_at w sref k = Some d \<and> data_at w' tref k = Some d \<and> c = int (length d)))"
proof (cases "store_get w sref k 110")
  case (Inl e)
  with assms show ?thesis by (auto simp: copyBlob_def)
next
  case (Inr d)
  then have src: "data_at w sref k = Some d" by (simp add: store_get_ok)
  show ?thesis
  proof (cases "store_put w tref k d 111")
    case (Inl e)
    with assms \<open>store_get w sref k 110 = Inr d\<close> show ?thesis by (auto simp: copyBlob_def)
  next
    case (Inr w1)
    note w1 = store_put_frame[OF Inr] data_at_put[OF Inr]
    have cases: "w' = w1 \<and> r = Inr (int (length d)) \<or> (\<exists>e. w' = best_effort w1 (store_delete w1 tref k 113) \<and> r = Inl e)"
      using assms(1) Inr \<open>store_get w sref k 110 = Inr d\<close>
      by (auto simp: copyBlob_def quiet_def Let_def split: sum.splits if_splits)
    then show ?thesis
    proof (elim disjE exE conjE)
      assume "w' = w1" "r = Inr (int (length d))"
      with w1 src show ?thesis by simp
    next
      fix e assume w': "w' = best_effort w1 (store_delete w1 tref k 113)" and r: "r = Inl e"
      have "data_at w' ref k' = data_at w1 ref k' \<or> ref = tref \<and> k' = k \<and> data_at w' ref k' = None" for ref k'
        unfolding w' using store_delete_frame[of w1 tref k 113 ref k'] by blast
      moreover have "mig_frame w w'" "w_assets w' = w_assets w"
        using w1(1) store_delete_frame[of w1 tref k 113] mig_frame_trans unfolding w' by (blast, metis)
      ultimately show ?thesis using w1(2) src r by (metis sum.distinct(1))
    qed
  qed
qed

lemma dropSourceCopy_effect:
  assumes "dropSourceCopy w sref sname (k, src, bytes) = w'"
  shows "mig_frame w w' \<and> w_assets w' = w_assets w \<and>
    (data_at w' = data_at w \<or>
     (data_at w' = (\<lambda>ref k'. if ref = sref \<and> k' = k then None else data_at w ref k') \<and>
      (\<forall>a\<in>set (w_assets w). \<not> (a_blob_key a = k \<and> a_blob_store_id a = src))))"
proof (cases "assets_count_by_blob_key_in_store w k src 114 = Inr 0 \<and> is_ok (store_delete w sref k 116)")
  case False
  then have "w' = w"
    using assms by (auto simp: dropSourceCopy_def Let_def split: sum.splits if_splits)
  then show ?thesis by simp
next
  case True
  then have none: "\<forall>a\<in>set (w_assets w). \<not> (a_blob_key a = k \<and> a_blob_store_id a = src)"
    by (auto simp: assets_count_by_blob_key_in_store_def filter_empty_conv split: if_splits)
  obtain w1 where w1: "store_delete w sref k 116 = Inr w1" using True by (auto simp: is_ok_iff)
  then have "w' = w1 \<or> (\<exists>z. w' = best_effort w1 (blobs_update_used_bytes w1 sname z 117))"
    using assms True by (auto simp: dropSourceCopy_def Let_def simp del: store_delete_ok split: if_splits)
  then have "mig_frame w1 w'" "w_assets w' = w_assets w1" "data_at w' = data_at w1"
    using mig_frame_used_bytes by (auto 0 3)
  moreover have "mig_frame w w1" "w_assets w1 = w_assets w" using w1 by auto
  ultimately show ?thesis
    using none data_at_delete[OF w1] mig_frame_trans by (auto simp: fun_eq_iff)
qed

section \<open>One row\<close>

text \<open>
  The contents a repository knows under one key: the object in the target store and what the
  repository's assets with that key read. A migration is only well defined where these agree.
\<close>

definition versions :: "world \<Rightarrow> string \<Rightarrow> string \<Rightarrow> string \<Rightarrow> string set" where
  "versions w repo target k = {d. data_at w (ref_of target) k = Some d} \<union>
     {d. \<exists>a\<in>set (w_assets w). in_repo w repo a \<and> a_blob_key a = k \<and> asset_data w a = Some d}"

definition one_version :: "world \<Rightarrow> string \<Rightarrow> string \<Rightarrow> bool" where
  "one_version w repo target \<longleftrightarrow> (\<forall>k. \<forall>d\<in>versions w repo target k. \<forall>d'\<in>versions w repo target k. d = d')"

definition copies :: "world \<Rightarrow> string \<Rightarrow> string \<Rightarrow> (string \<times> string \<times> int) list \<Rightarrow> string \<Rightarrow> string set" where
  "copies w repo target rows k = versions w repo target k \<union>
     {d. \<exists>src bytes. (k, src, bytes) \<in> set rows \<and> data_at w (ref_of src) k = Some d}"

definition copies_agree :: "world \<Rightarrow> string \<Rightarrow> string \<Rightarrow> (string \<times> string \<times> int) list \<Rightarrow> bool" where
  "copies_agree w repo target rows \<longleftrightarrow>
     (\<forall>k. \<forall>d\<in>copies w repo target rows k. \<forall>d'\<in>copies w repo target rows k. d = d')"

lemma copies_agree_mono:
  "copies_agree w repo target rows \<Longrightarrow> (\<And>k. copies w' repo target rows k \<subseteq> copies w repo target rows k) \<Longrightarrow>
    copies_agree w' repo target rows"
  unfolding copies_agree_def by blast

lemma copies_cong:
  assumes "in_repo w' = in_repo w" "w_assets w' = w_assets w" "data_at w' = data_at w"
  shows "copies w' = copies w"
  unfolding copies_def versions_def asset_data_def assms by (rule refl)

text \<open>\<open>moved repo target w w'\<close>: some assets of the repository moved to the target, nothing readable was lost.\<close>

definition moved_asset :: "string \<Rightarrow> string \<Rightarrow> world \<Rightarrow> world \<Rightarrow> asset \<Rightarrow> asset \<Rightarrow> bool" where
  "moved_asset repo target w w' a a' \<longleftrightarrow>
     (a' = a \<or> in_repo w repo a \<and> a' = a\<lparr>a_blob_store_id := target\<rparr>) \<and>
     (\<forall>d. asset_data w a = Some d \<longrightarrow> asset_data w' a' = Some d)"

definition moved :: "string \<Rightarrow> string \<Rightarrow> world \<Rightarrow> world \<Rightarrow> bool" where
  "moved repo target w w' \<longleftrightarrow> mig_frame w w' \<and> list_all2 (moved_asset repo target w w') (w_assets w) (w_assets w')"

lemma moved_refl [simp]: "moved repo target w w"
  unfolding moved_def by (rule conjI, rule mig_frame_refl, rule list.rel_refl) (simp add: moved_asset_def)

lemma in_repo_frame: "mig_frame w w' \<Longrightarrow> in_repo w' = in_repo w"
  by (rule in_repo_repos) (simp add: mig_frame_def)

lemma in_repo_store [simp]: "in_repo w repo (a\<lparr>a_blob_store_id := t\<rparr>) = in_repo w repo a"
  by (simp add: in_repo_def)

lemma moved_trans [trans]:
  assumes "moved repo target w w'" "moved repo target w' w''"
  shows "moved repo target w w''"
proof -
  have "in_repo w' = in_repo w" using assms(1) by (simp add: moved_def in_repo_frame)
  then have "moved_asset repo target w w'' a c"
    if "moved_asset repo target w w' a b" "moved_asset repo target w' w'' b c" for a b c
    using that by (auto simp: moved_asset_def)
  then have "list_all2 (moved_asset repo target w w'') (w_assets w) (w_assets w'')"
    using assms list_all2_trans[of "moved_asset repo target w w'" "moved_asset repo target w' w''"]
    unfolding moved_def by blast
  moreover have "mig_frame w w''" using assms mig_frame_trans unfolding moved_def by blast
  ultimately show ?thesis by (simp add: moved_def)
qed

lemma moved_same_assets:
  assumes "mig_frame w w'" "w_assets w' = w_assets w"
    and "\<And>a d. a \<in> set (w_assets w) \<Longrightarrow> asset_data w a = Some d \<Longrightarrow> asset_data w' a = Some d"
  shows "moved repo target w w'"
  using assms by (auto simp: moved_def moved_asset_def list_all2_same)

text \<open>The copy phase only adds, at the target, what the source holds.\<close>

lemma copy_phase_moved:
  assumes "mig_frame w w'" "w_assets w' = w_assets w"
    and other: "\<And>ref k'. \<not> (ref = ref_of target \<and> k' = k) \<Longrightarrow> data_at w' ref k' = data_at w ref k'"
    and new: "data_at w (ref_of target) k = None"
      "data_at w' (ref_of target) k = None \<or> data_at w' (ref_of target) k = data_at w (ref_of src) k"
    and row: "(k, src, bytes) \<in> set rows" "src \<noteq> target" and agree: "copies_agree w repo target rows"
  shows "moved repo target w w' \<and> copies_agree w' repo target rows"
proof
  show "moved repo target w w'"
    using assms(1,2)
  proof (rule moved_same_assets)
    fix a d assume "asset_data w a = Some d"
    then show "asset_data w' a = Some d"
      using other new by (metis asset_data_def option.distinct(1))
  qed
  have "copies w' repo target rows k' \<subseteq> copies w repo target rows k'" for k'
  proof
    fix d assume "d \<in> copies w' repo target rows k'"
    then consider ref where "data_at w' ref k' = Some d" "ref = ref_of target"
      | a where "a \<in> set (w_assets w)" "in_repo w repo a" "a_blob_key a = k'" "asset_data w' a = Some d"
      | s b where "(k', s, b) \<in> set rows" "data_at w' (ref_of s) k' = Some d"
      using assms(2) by (auto simp: copies_def versions_def in_repo_frame[OF assms(1)])
    then show "d \<in> copies w repo target rows k'"
    proof cases
      case 1
      with other new row show ?thesis by (cases "k' = k") (auto simp: copies_def versions_def)
    next
      case 2
      show ?thesis
      proof (cases "a_blob_store_id a = target \<and> k' = k")
        case True
        with 2 new row show ?thesis by (auto simp: copies_def versions_def asset_data_def)
      next
        case False
        with 2 other have "asset_data w a = Some d" by (auto simp: asset_data_def)
        with 2 show ?thesis by (auto simp: copies_def versions_def)
      qed
    next
      case 3
      show ?thesis
      proof (cases "s = target \<and> k' = k")
        case True
        with 3 new row show ?thesis by (auto simp: copies_def versions_def)
      next
        case False
        with 3 other have "data_at w (ref_of s) k' = Some d" by simp
        with 3 show ?thesis by (auto simp: copies_def)
      qed
    qed
  qed
  then show "copies_agree w' repo target rows" using agree copies_agree_mono by blast
qed

text \<open>The flip moves exactly the repository's assets of the key; the source object goes only when unreferenced.\<close>

lemma flip_row_moved:
  assumes flip: "flip_row repo target (ref_of src) sname (k, src, bytes) e w = (w', r)"
    and there: "data_at w (ref_of target) k \<noteq> None"
    and row: "(k, src, bytes) \<in> set rows" "src \<noteq> target" and agree: "copies_agree w repo target rows"
  shows "moved repo target w w' \<and> copies_agree w' repo target rows \<and>
    (r = Inr () \<longrightarrow> (\<forall>a\<in>set (w_assets w'). in_repo w repo a \<and> a_blob_key a = k \<longrightarrow> a_blob_store_id a = target))"
proof (cases r)
  case (Inl x)
  with flip have "w' = w" by (auto simp: flip_row_def split: sum.splits if_splits)
  with agree Inl show ?thesis by simp
next
  case (Inr u)
  define F where "F a = (if a_blob_key a = k \<and> in_repo w repo a then a\<lparr>a_blob_store_id := target\<rparr> else a)" for a
  define w1 where "w1 = w\<lparr>w_assets := map F (w_assets w)\<rparr>"
  have w1: "assets_update_blob_store_for_blob_key w k repo target 119 = Inr w1"
    and w': "dropSourceCopy w1 (ref_of src) sname (k, src, bytes) = w'"
    using flip Inr unfolding w1_def F_def flip_row_def
    by (auto simp: assets_update_blob_store_for_blob_key_def upd_where_def split: sum.splits if_splits)
  have data1: "data_at w1 = data_at w" by (rule data_at_cong) (simp add: w1_def)
  note drop = dropSourceCopy_effect[OF w']
  have assets: "w_assets w' = map F (w_assets w)" using drop by (simp add: w1_def)
  have frame: "mig_frame w w'" using drop by (simp add: mig_frame_def w1_def)
  have less: "data_at w' ref k' = data_at w ref k' \<or> data_at w' ref k' = None \<and> ref = ref_of src \<and> k' = k" for ref k'
    using drop data1 by (auto split: if_splits)
  then have tgt: "data_at w' (ref_of target) k = data_at w (ref_of target) k" using row(2) by (metis ref_of_inj)
  obtain d0 where d0: "data_at w (ref_of target) k = Some d0" using there by auto
  have in': "in_repo w' = in_repo w" using frame by (rule in_repo_frame)
  have kept: "asset_data w' (F a) = Some d" if a: "a \<in> set (w_assets w)" "asset_data w a = Some d" for a d
  proof (cases "a_blob_key a = k \<and> in_repo w repo a")
    case True
    then have "d \<in> copies w repo target rows k" "d0 \<in> copies w repo target rows k"
      using a d0 by (auto simp: copies_def versions_def)
    then have "d = d0" using agree by (auto simp: copies_agree_def)
    with True tgt d0 show ?thesis by (simp add: F_def asset_data_def)
  next
    case False
    then have "F a = a" by (auto simp: F_def)
    have "data_at w' = data_at w \<or> \<not> (a_blob_key a = k \<and> a_blob_store_id a = src)"
      using drop data1 \<open>F a = a\<close> a(1) by (auto simp: w1_def)
    with \<open>F a = a\<close> a(2) less show ?thesis by (metis asset_data_def ref_of_inj)
  qed
  have "list_all2 (moved_asset repo target w w') (w_assets w) (map F (w_assets w))"
    using kept unfolding list_all2_map2 list_all2_same moved_asset_def by (auto simp: F_def)
  then have "moved repo target w w'" using frame assets by (simp add: moved_def)
  moreover have "copies w' repo target rows k' \<subseteq> copies w repo target rows k'" for k'
  proof
    fix d assume "d \<in> copies w' repo target rows k'"
    then consider "data_at w' (ref_of target) k' = Some d"
      | a where "a \<in> set (w_assets w)" "in_repo w repo a" "a_blob_key a = k'" "asset_data w' (F a) = Some d"
      | s b where "(k', s, b) \<in> set rows" "data_at w' (ref_of s) k' = Some d"
      using assets by (auto simp: copies_def versions_def in' F_def split: if_splits)
    then show "d \<in> copies w repo target rows k'"
    proof cases
      case 1
      then have "data_at w (ref_of target) k' = Some d" using less[of "ref_of target" k'] by auto
      then show ?thesis unfolding copies_def versions_def by blast
    next
      case 2
      have "asset_data w (F a) = Some d" using 2(4) less by (metis asset_data_def option.distinct(1))
      then have "data_at w (ref_of target) k = Some d \<and> k' = k \<or> asset_data w a = Some d"
        using 2(3) by (auto simp: F_def asset_data_def split: if_splits)
      then show ?thesis using 2(1-3) unfolding copies_def versions_def by blast
    next
      case 3
      then have "data_at w (ref_of s) k' = Some d" using less by (metis option.distinct(1))
      with 3 show ?thesis by (auto simp: copies_def)
    qed
  qed
  then have "copies_agree w' repo target rows" using agree copies_agree_mono by blast
  moreover have "\<forall>a\<in>set (w_assets w'). in_repo w repo a \<and> a_blob_key a = k \<longrightarrow> a_blob_store_id a = target"
    unfolding assets by (simp only: set_map ball_simps) (auto simp: F_def)
  ultimately show ?thesis by blast
qed

lemma migrate_row_quiet:
  assumes run: "migrate_row quiet repo target tname (ref_of target) w (k, src, bytes) = (w', r)"
    and row: "(k, src, bytes) \<in> set rows" "src \<noteq> target" and agree: "copies_agree w repo target rows"
  shows "moved repo target w w' \<and> copies_agree w' repo target rows \<and>
    (r = Inr () \<longrightarrow> (\<forall>a\<in>set (w_assets w'). in_repo w repo a \<and> a_blob_key a = k \<longrightarrow> a_blob_store_id a = target))"
proof (cases "\<exists>smeta sref ex. blobs_get_by_id w src 120 = Inr smeta \<and> registry_get w smeta 121 = Inr sref \<and>
    store_exists w (ref_of target) k 122 = Inr ex")
  case False
  with run have "w' = w \<and> (\<exists>e. r = Inl e)" by (auto simp: migrate_row_def split: sum.splits)
  with agree show ?thesis by auto
next
  case True
  then obtain smeta ex where s: "blobs_get_by_id w src 120 = Inr smeta" "registry_get w smeta 121 = Inr (ref_of src)"
      and ex: "store_exists w (ref_of target) k 122 = Inr ex"
    using registry_get_ref_of blobs_get_by_id_ok by metis
  have lock: "moved repo target w w' \<and> copies_agree w' repo target rows \<and>
      (r = Inr () \<longrightarrow> (\<forall>a\<in>set (w_assets w'). in_repo w repo a \<and> a_blob_key a = k \<longrightarrow> a_blob_store_id a = target))"
    if m: "moved repo target w w1" "copies_agree w1 repo target rows" "data_at w1 (ref_of target) k \<noteq> None"
      and l: "with_blob_key_lock w1 k 124 (flip_row repo target (ref_of src) (bs_name smeta) (k, src, bytes) e) = (w', r)"
    for w1 e
  proof -
    have in1: "in_repo w1 = in_repo w" using m(1) by (simp add: moved_def in_repo_frame)
    note f = flip_row_moved[OF _ m(3) row m(2)]
    have "moved repo target w1 w' \<and> copies_agree w' repo target rows"
      by (rule with_blob_key_lock_rel[OF l]) (use f m(2) in auto)
    moreover have "\<forall>a\<in>set (w_assets w'). in_repo w1 repo a \<and> a_blob_key a = k \<longrightarrow> a_blob_store_id a = target"
      if "r = Inr ()" using f with_blob_key_lock_ok l that by metis
    ultimately show ?thesis using m(1) moved_trans in1 by metis
  qed
  show ?thesis
  proof (cases ex)
    case True
    have "with_blob_key_lock w k 124 (flip_row repo target (ref_of src) (bs_name smeta) (k, src, bytes) bytes) = (w', r)"
      using run s ex True by (simp add: migrate_row_def quiet_def)
    moreover have "data_at w (ref_of target) k \<noteq> None" using ex True by (simp add: store_exists_ok)
    ultimately show ?thesis using lock[OF moved_refl agree] by blast
  next
    case False
    then have none: "data_at w (ref_of target) k = None" using ex by (simp add: store_exists_ok)
    obtain w1 c where c: "copyBlob quiet w (ref_of src) (ref_of target) k = (w1, c)" by force
    note cp = copyBlob_quiet[OF c _ none]
    have m1: "moved repo target w w1 \<and> copies_agree w1 repo target rows"
      by (rule copy_phase_moved[OF _ _ _ none _ row agree]) (use cp row(2) in auto)
    show ?thesis
    proof (cases c)
      case (Inl x)
      with run s ex False c have "w' = w1 \<and> r = Inl x" by (simp add: migrate_row_def)
      with m1 show ?thesis by simp
    next
      case (Inr n)
      let ?w2 = "best_effort w1 (blobs_update_used_bytes w1 tname n 123)"
      have u: "mig_frame w1 ?w2" "w_assets ?w2 = w_assets w1" "data_at ?w2 = data_at w1"
        using mig_frame_used_bytes by blast+
      have "with_blob_key_lock ?w2 k 124 (flip_row repo target (ref_of src) (bs_name smeta) (k, src, bytes) n) = (w', r)"
        using run s ex False c Inr by (simp add: migrate_row_def quiet_def)
      moreover have "moved repo target w1 ?w2"
        by (rule moved_same_assets[OF u(1,2)]) (simp add: asset_data_def u(3))
      moreover have "copies ?w2 repo target rows = copies w1 repo target rows"
        using copies_cong[OF in_repo_frame[OF u(1)] u(2,3)] by simp
      moreover have "data_at w1 (ref_of target) k \<noteq> None" using cp row(2) Inr by auto
      then have "data_at ?w2 (ref_of target) k \<noteq> None" unfolding u(3) .
      moreover have "moved repo target w ?w2"
        using m1 \<open>moved repo target w1 ?w2\<close> moved_trans by blast
      moreover have "copies_agree ?w2 repo target rows"
        using m1 \<open>copies ?w2 repo target rows = copies w1 repo target rows\<close> unfolding copies_agree_def by simp
      ultimately show ?thesis by (intro lock)
    qed
  qed
qed

section \<open>The loop\<close>

lemma ms_world_exec [simp]: "ms_world (try_mig s (migs_exec s op i n f)) = ms_world s"
  by (simp add: try_mig_def migs_exec_def guard_io_def)

lemma bm_ids_exec:
  assumes "\<And>r. bm_id (f r) = bm_id r"
  shows "map bm_id (ms_migs (try_mig s (migs_exec s op i n f))) = map bm_id (ms_migs s)"
  using assms by (auto simp: try_mig_def migs_exec_def guard_io_def upd_where_def)

lemmas mig_writes = migs_set_totals_def migs_update_progress_def migs_update_status_def FinishMigration_def fail_mig_def

lemma moved_back:
  assumes "moved repo target w w'" "a' \<in> set (w_assets w')"
  shows "\<exists>a\<in>set (w_assets w). moved_asset repo target w w' a a'"
proof -
  have "list_all2 (moved_asset repo target w w') (w_assets w) (w_assets w')" using assms(1) by (simp add: moved_def)
  with assms(2) show ?thesis by (metis list_all2_conv_all_nth in_set_conv_nth)
qed

lemma moved_stays:
  assumes "moved repo target w w'" "\<forall>a\<in>set (w_assets w). in_repo w repo a \<and> a_blob_key a = k \<longrightarrow> a_blob_store_id a = target"
  shows "\<forall>a\<in>set (w_assets w'). in_repo w repo a \<and> a_blob_key a = k \<longrightarrow> a_blob_store_id a = target"
proof (intro ballI impI)
  fix a' assume "a' \<in> set (w_assets w')" and k: "in_repo w repo a' \<and> a_blob_key a' = k"
  then obtain a where "a \<in> set (w_assets w)" "a' = a \<or> a' = a\<lparr>a_blob_store_id := target\<rparr>"
    using moved_back[OF assms(1)] by (auto simp: moved_asset_def)
  with k assms(2) show "a_blob_store_id a' = target" by auto
qed

lemma migrate_rows_quiet:
  assumes "migrate_rows quiet cancelled deadline clk m tname (ref_of (bm_target_store_id m)) rows da db s = (s', fin)"
    and "set rows \<subseteq> set all" "\<forall>(k, src, bytes)\<in>set all. src \<noteq> bm_target_store_id m"
    and "copies_agree (ms_world s) (bm_repository_name m) (bm_target_store_id m) all"
  shows "moved (bm_repository_name m) (bm_target_store_id m) (ms_world s) (ms_world s') \<and>
    (fin \<longrightarrow> (\<forall>(k, src, bytes)\<in>set rows. \<forall>a\<in>set (w_assets (ms_world s')).
       in_repo (ms_world s) (bm_repository_name m) a \<and> a_blob_key a = k \<longrightarrow> a_blob_store_id a = bm_target_store_id m))"
  using assms
proof (induction rows arbitrary: da db s)
  case (Cons row rows)
  obtain k src bytes where row: "row = (k, src, bytes)" by (cases row)
  obtain w1 r where step: "migrate_row quiet (bm_repository_name m) (bm_target_store_id m) tname
      (ref_of (bm_target_store_id m)) (ms_world s) row = (w1, r)" by force
  have "(k, src, bytes) \<in> set all" "src \<noteq> bm_target_store_id m" using Cons.prems(2,3) row by auto
  note r1 = migrate_row_quiet[OF step[unfolded row] this Cons.prems(4)]
  show ?case
  proof (cases "pastDeadline deadline (clk da) \<or> cancelled da \<or> (\<exists>e. r = Inl e)")
    case True
    with Cons.prems(1) step have "(ms_world s' = ms_world s \<or> ms_world s' = w1) \<and> \<not> fin"
      by (auto simp: mig_writes split: if_splits)
    with r1 show ?thesis by auto
  next
    case False
    then have ok: "r = Inr ()" by (cases r) auto
    define s2 where "s2 = try_mig (s\<lparr>ms_world := w1\<rparr>) (migs_update_progress (s\<lparr>ms_world := w1\<rparr>) (bm_id m) (Suc da) (i64 (db + bytes)) 133)"
    have w2: "ms_world s2 = w1" by (simp add: s2_def mig_writes)
    have "migrate_rows quiet cancelled deadline clk m tname (ref_of (bm_target_store_id m)) rows (Suc da) (i64 (db + bytes)) s2 = (s', fin)"
      using Cons.prems(1) False step ok row by (simp add: s2_def Let_def)
    note ih = Cons.IH[OF this _ Cons.prems(3), unfolded w2]
    have sub: "set rows \<subseteq> set all" using Cons.prems(2) by simp
    have in1: "in_repo w1 = in_repo (ms_world s)" using r1 by (simp add: moved_def in_repo_frame)
    have m2: "moved (bm_repository_name m) (bm_target_store_id m) w1 (ms_world s')" using ih sub r1 by blast
    have "moved (bm_repository_name m) (bm_target_store_id m) (ms_world s) (ms_world s')"
      using r1 m2 moved_trans by blast
    moreover have "\<forall>a\<in>set (w_assets (ms_world s')). in_repo (ms_world s) (bm_repository_name m) a \<and> a_blob_key a = k \<longrightarrow>
        a_blob_store_id a = bm_target_store_id m"
      using moved_stays[OF m2, of k] r1 ok unfolding in1 by blast
    ultimately show ?thesis using ih sub r1 row unfolding in1 by auto
  qed
qed (simp add: moved_refl)

lemma listed_rows:
  assumes "assets_list_for_blob_store_migration w repo target n = Inr rows"
  shows "set rows = {(a_blob_key a, a_blob_store_id a, a_size_bytes a) |a. a \<in> set (w_assets w) \<and>
    in_repo w repo a \<and> a_blob_key a \<noteq> [] \<and> a_blob_store_id a \<noteq> target}"
  using assms by (auto simp: assets_list_for_blob_store_migration_def guard_io_def split: if_splits)

lemma listed_rows_agree:
  assumes "assets_list_for_blob_store_migration w repo target n = Inr rows" "one_version w repo target"
  shows "copies_agree w repo target rows"
proof -
  have "copies w repo target rows k \<subseteq> versions w repo target k" for k
    by (auto simp: copies_def versions_def listed_rows[OF assms(1)] asset_data_def)
  with assms(2) show ?thesis unfolding copies_agree_def one_version_def by blast
qed

section \<open>The run\<close>

definition mig_done :: "mig_state \<Rightarrow> string \<Rightarrow> bool" where
  "mig_done s i \<longleftrightarrow> (\<exists>r\<in>set (ms_migs s). bm_id r = i \<and> bm_status r = ''done'')"

lemma mig_done_world [simp]: "mig_done (s\<lparr>ms_world := w\<rparr>) i = mig_done s i" "mig_done (s\<lparr>ms_cancels := c\<rparr>) i = mig_done s i"
  by (simp_all add: mig_done_def)

lemma mig_done_exec:
  assumes "mig_done (try_mig s (migs_exec s op i n f)) j"
    "\<And>r. bm_id (f r) = bm_id r" "\<And>r. bm_status (f r) = ''done'' \<Longrightarrow> bm_status r = ''done''"
  shows "mig_done s j"
  using assms by (force simp: mig_done_def try_mig_def migs_exec_def guard_io_def upd_where_def split: if_splits)

lemma mig_done_writes:
  "mig_done (try_mig s (migs_set_totals s i ta tb n)) j \<Longrightarrow> mig_done s j"
  "mig_done (try_mig s (migs_update_progress s i ta tb n)) j \<Longrightarrow> mig_done s j"
  "mig_done (try_mig s (migs_update_status s i ''running'' e n)) j \<Longrightarrow> mig_done s j"
  "mig_done (try_mig s (FinishMigration s i ''failed'' e n)) j \<Longrightarrow> mig_done s j"
  "mig_done (try_mig s (FinishMigration s i ''cancelled'' e n)) j \<Longrightarrow> mig_done s j"
  unfolding mig_writes by (erule mig_done_exec, simp, simp)+

lemma mig_done_fail: "mig_done (fail_mig s m e) j \<Longrightarrow> mig_done s j"
  unfolding fail_mig_def by (rule mig_done_writes(4))

lemma migrate_rows_not_done:
  "migrate_rows env cancelled deadline clk m tname tref rows da db s = (s', fin) \<Longrightarrow> mig_done s' j \<Longrightarrow> mig_done s j"
proof (induction rows arbitrary: da db s)
  case (Cons row rows)
  obtain w1 r where step: "migrate_row env (bm_repository_name m) (bm_target_store_id m) tname tref (ms_world s) row = (w1, r)"
    by force
  let ?s1 = "s\<lparr>ms_world := w1\<rparr>"
  consider (stop) e n where "s' = try_mig s (FinishMigration s (bm_id m) ''cancelled'' e n)"
    | (failed) e where "s' = fail_mig ?s1 m e"
    | (next_row) da' db' where "migrate_rows env cancelled deadline clk m tname tref rows da' db'
        (try_mig ?s1 (migs_update_progress ?s1 (bm_id m) da' db' 133)) = (s', fin)"
    using Cons.prems(1) step by (auto simp: Let_def split: if_splits sum.splits)
  then show ?case
  proof cases
    case stop
    with Cons.prems(2) show ?thesis using mig_done_writes(5) by blast
  next
    case failed
    with Cons.prems(2) mig_done_fail mig_done_world(1) show ?thesis by metis
  next
    case next_row
    with Cons.IH Cons.prems(2) mig_done_writes(2) mig_done_world(1) show ?thesis by metis
  qed
qed simp

lemma run_body_split:
  assumes "run_body env cancelled deadline clk m s = s'" "\<not> mig_done s (bm_id m)"
  obtains (stopped) "ms_world s' = ms_world s" "\<not> mig_done s' (bm_id m)"
    | (loop) rows s2 tname s3 fin where
      "assets_list_for_blob_store_migration (ms_world s) (bm_repository_name m) (bm_target_store_id m) 135 = Inr rows"
      "ms_world s2 = ms_world s"
      "migrate_rows env cancelled deadline clk m tname (ref_of (bm_target_store_id m)) rows 0 0 s2 = (s3, fin)"
      "mig_done s' (bm_id m) \<longrightarrow> fin"
      "w_assets (ms_world s') = w_assets (ms_world s3)" "w_phys (ms_world s') = w_phys (ms_world s3)"
proof (cases "migs_update_status s (bm_id m) ''running'' None 134")
  case (Inl e)
  with assms stopped show thesis by (simp add: run_body_def)
next
  case (Inr s1)
  then have s1: "s1 = try_mig s (migs_update_status s (bm_id m) ''running'' None 134)" by (simp add: try_mig_def)
  have w1: "ms_world s1 = ms_world s" unfolding s1 by (simp add: migs_update_status_def)
  have d1: "\<not> mig_done s1 (bm_id m)" unfolding s1 using assms(2) mig_done_writes(3) by blast
  show thesis
  proof (cases "assets_list_for_blob_store_migration (ms_world s) (bm_repository_name m) (bm_target_store_id m) 135")
    case (Inl e)
    then have "s' = fail_mig s1 m e" using assms(1) Inr w1 by (simp add: run_body_def)
    moreover have "ms_world (fail_mig s1 m e) = ms_world s" using w1 by (simp add: mig_writes)
    ultimately show thesis using stopped d1 mig_done_fail by blast
  next
    case rows: (Inr rows)
    define s2 where "s2 = try_mig s1 (migs_set_totals s1 (bm_id m) (length rows) (foldl (\<lambda>t r. i64 (t + snd (snd r))) 0 rows) 136)"
    have w2: "ms_world s2 = ms_world s" using w1 by (simp add: s2_def migs_set_totals_def)
    have d2: "\<not> mig_done s2 (bm_id m)" using d1 mig_done_writes(1) unfolding s2_def by blast
    note body = assms(1)[unfolded run_body_def Inr sum.case w1 rows Let_def s2_def[symmetric] w2]
    show thesis
    proof (cases "\<exists>tmeta tref. blobs_get_by_id (ms_world s) (bm_target_store_id m) 137 = Inr tmeta \<and>
        registry_get (ms_world s) tmeta 138 = Inr tref")
      case False
      with body obtain e where "s' = fail_mig s2 m e" by (auto split: sum.splits)
      moreover have "ms_world (fail_mig s2 m e) = ms_world s" using w2 by (simp add: mig_writes)
      ultimately show thesis using stopped d2 mig_done_fail by blast
    next
      case True
      then obtain tmeta where t: "blobs_get_by_id (ms_world s) (bm_target_store_id m) 137 = Inr tmeta"
          "registry_get (ms_world s) tmeta 138 = Inr (ref_of (bm_target_store_id m))"
        using blobs_get_by_id_ok registry_get_ref_of by metis
      obtain s3 fin where l: "migrate_rows env cancelled deadline clk m (bs_name tmeta) (ref_of (bm_target_store_id m)) rows 0 0 s2 = (s3, fin)"
        by force
      note body = body[unfolded t sum.case l prod.case]
      show thesis
      proof (rule loop[OF rows w2 l])
        show "mig_done s' (bm_id m) \<longrightarrow> fin"
          using body migrate_rows_not_done[OF l] d2 by (cases fin) auto
        show "w_assets (ms_world s') = w_assets (ms_world s3)" "w_phys (ms_world s') = w_phys (ms_world s3)"
          using body by (cases fin; auto simp: mig_writes repos_set_blob_store_def guard_io_def split: sum.splits)+
      qed
    qed
  qed
qed

lemma close_unfinished_world: "ms_world (close_unfinished s m) = ms_world s"
  by (auto simp: close_unfinished_def mig_writes split: sum.splits)

lemma close_unfinished_done: "mig_done (close_unfinished s m) j \<Longrightarrow> mig_done s j"
  by (auto simp: close_unfinished_def split: sum.splits if_splits dest: mig_done_writes)

lemma moved_asset_cong:
  assumes "w_phys w2 = w_phys w1"
  shows "moved_asset repo target w w2 = moved_asset repo target w w1"
  using data_at_cong[OF assms] by (simp add: moved_asset_def asset_data_def fun_eq_iff)


section \<open>Interference\<close>

text \<open>
  What clients may do to a row while it is migrated: nothing, or something that changes the length
  of the source object, which is what the code looks at.
\<close>

definition detectable :: "env \<Rightarrow> (string \<times> string \<times> int) list \<Rightarrow> bool" where
  "detectable env rows \<longleftrightarrow> (\<forall>(k, src, bytes)\<in>set rows. \<forall>p w. env p k w = w \<or>
     map_option length (data_at (env p k w) (ref_of src) k) \<noteq> map_option length (data_at w (ref_of src) k))"

definition accurate :: "world \<Rightarrow> string \<times> string \<times> int \<Rightarrow> bool" where
  "accurate w row \<longleftrightarrow> (case row of (k, src, bytes) \<Rightarrow> \<exists>d. data_at w (ref_of src) k = Some d \<and> int (length d) = bytes)"

lemma detectableD:
  "detectable env rows \<Longrightarrow> (k, src, bytes) \<in> set rows \<Longrightarrow>
    map_option length (data_at (env p k w) (ref_of src) k) = map_option length (data_at w (ref_of src) k) \<Longrightarrow> env p k w = w"
  unfolding detectable_def by fastforce

lemma copyBlob_detect:
  assumes "copyBlob env w (ref_of src) tref k = (w', Inr c)" "detectable env rows" "(k, src, bytes) \<in> set rows" "ref_of src \<noteq> tref"
  shows "copyBlob quiet w (ref_of src) tref k = (w', Inr c) \<and> data_at w' (ref_of src) k = data_at w (ref_of src) k \<and>
    (\<exists>d. data_at w (ref_of src) k = Some d \<and> c = int (length d))"
proof -
  obtain d w1 where g: "store_get w (ref_of src) k 110 = Inr d" "store_put w tref k d 111 = Inr w1"
    and sz: "store_size (env 0 k w1) (ref_of src) k 112 = Inr (int (length d))" and w': "w' = env 0 k w1" "c = int (length d)"
    using assms(1) by (auto simp: copyBlob_def Let_def split: sum.splits if_splits)
  have d: "data_at w (ref_of src) k = Some d" "data_at w1 (ref_of src) k = Some d"
    using g(1) data_at_put[OF g(2)] assms(4) by (simp_all add: store_get_ok)
  from sz obtain d' where "data_at (env 0 k w1) (ref_of src) k = Some d'" "length d' = length d" by (auto simp: store_size_ok)
  with d have same: "env 0 k w1 = w1" using detectableD[OF assms(2,3), of 0 w1] by simp
  with g sz d w' show ?thesis by (simp add: copyBlob_def quiet_def)
qed

lemma migrate_row_detect:
  assumes "migrate_row env repo target tname (ref_of target) w (k, src, bytes) = (w', Inr u)"
    and det: "detectable env rows" "(k, src, bytes) \<in> set rows" and src: "src \<noteq> target" and acc: "accurate w (k, src, bytes)"
  shows "migrate_row quiet repo target tname (ref_of target) w (k, src, bytes) = (w', Inr u)"
proof -
  obtain smeta ex where s: "blobs_get_by_id w src 120 = Inr smeta" "registry_get w smeta 121 = Inr (ref_of src)"
      and ex: "store_exists w (ref_of target) k 122 = Inr ex"
    using assms(1) registry_get_ref_of blobs_get_by_id_ok unfolding migrate_row_def by (auto split: sum.splits) metis+
  obtain d where d: "data_at w (ref_of src) k = Some d" "bytes = int (length d)" using acc by (auto simp: accurate_def)
  have quiet_flip: "env 1 k w1 = w1"
    if "with_blob_key_lock (env 1 k w1) k 124 (flip_row repo target (ref_of src) (bs_name smeta) (k, src, bytes) (int (length d))) = (w', Inr u)"
      and "data_at w1 (ref_of src) k = Some d" for w1
  proof -
    have "flip_row repo target (ref_of src) (bs_name smeta) (k, src, bytes) (int (length d)) (env 1 k w1) = (w', Inr u)"
      using that(1) by (rule with_blob_key_lock_ok)
    then have "store_size (env 1 k w1) (ref_of src) k 118 = Inr (int (length d))"
      by (auto simp: flip_row_def split: sum.splits if_splits)
    then show ?thesis using that(2) detectableD[OF det, of 1 w1] by (auto simp: store_size_ok)
  qed
  show ?thesis
  proof (cases ex)
    case True
    then have "with_blob_key_lock (env 1 k w) k 124 (flip_row repo target (ref_of src) (bs_name smeta) (k, src, bytes) bytes) = (w', Inr u)"
      using assms(1) s ex by (simp add: migrate_row_def)
    moreover from this have "env 1 k w = w" using quiet_flip d by simp
    ultimately show ?thesis using s ex True by (simp add: migrate_row_def quiet_def)
  next
    case False
    obtain w1 r where c: "copyBlob env w (ref_of src) (ref_of target) k = (w1, r)" by force
    obtain c' where r: "r = Inr c'" using assms(1) s ex False c by (cases r) (simp_all add: migrate_row_def)
    note cq = copyBlob_detect[OF c[unfolded r] det]
    let ?w2 = "best_effort w1 (blobs_update_used_bytes w1 tname c' 123)"
    have w2: "with_blob_key_lock (env 1 k ?w2) k 124 (flip_row repo target (ref_of src) (bs_name smeta) (k, src, bytes) c') = (w', Inr u)"
      using assms(1) s ex False c r by (simp add: migrate_row_def)
    have c': "c' = int (length d)" and d1: "data_at w1 (ref_of src) k = Some d" using cq src d by auto
    have "data_at ?w2 = data_at w1" using mig_frame_used_bytes by blast
    then have "data_at ?w2 (ref_of src) k = Some d" using d1 by (rule ssubst[of _ _ "\<lambda>f. f (ref_of src) k = Some d"])
    with w2 have "env 1 k ?w2 = ?w2" unfolding c' by (rule quiet_flip)
    with w2 s ex False cq src show ?thesis by (simp add: migrate_row_def quiet_def)
  qed
qed

text \<open>A row touches only the objects of its key in its source and in the target.\<close>

lemma flip_row_data:
  assumes "flip_row repo target (ref_of src) sname (k, src, bytes) e w = (w', r)" "\<not> (ref = ref_of src \<and> k' = k)"
  shows "data_at w' ref k' = data_at w ref k'"
proof (cases r)
  case (Inl x)
  with assms(1) have "w' = w" by (auto simp: flip_row_def split: sum.splits if_splits)
  then show ?thesis by simp
next
  case (Inr u)
  then obtain w1 where "assets_update_blob_store_for_blob_key w k repo target 119 = Inr w1"
      "dropSourceCopy w1 (ref_of src) sname (k, src, bytes) = w'"
    using assms(1) by (auto simp: flip_row_def split: sum.splits if_splits)
  moreover from this(1) have "data_at w1 = data_at w"
    by (intro data_at_cong) (auto simp: assets_update_blob_store_for_blob_key_def split: if_splits)
  ultimately show ?thesis using dropSourceCopy_effect assms(2) by metis
qed

lemma migrate_row_data:
  assumes run: "migrate_row quiet repo target tname (ref_of target) w (k, src, bytes) = (w', r)"
    and src: "src \<noteq> target" and other: "\<not> ((ref = ref_of src \<or> ref = ref_of target) \<and> k' = k)"
  shows "data_at w' ref k' = data_at w ref k'"
proof (cases "\<exists>smeta sref ex. blobs_get_by_id w src 120 = Inr smeta \<and> registry_get w smeta 121 = Inr sref \<and>
    store_exists w (ref_of target) k 122 = Inr ex")
  case False
  with run have "w' = w" by (auto simp: migrate_row_def split: sum.splits)
  then show ?thesis by simp
next
  case True
  then obtain smeta ex where s: "blobs_get_by_id w src 120 = Inr smeta" "registry_get w smeta 121 = Inr (ref_of src)"
      and ex: "store_exists w (ref_of target) k 122 = Inr ex"
    using registry_get_ref_of blobs_get_by_id_ok by metis
  have lock: "data_at w' ref k' = data_at w1 ref k'"
    if "with_blob_key_lock w1 k 124 (flip_row repo target (ref_of src) (bs_name smeta) (k, src, bytes) e) = (w', r)" for w1 e
    by (rule with_blob_key_lock_rel[OF that]) (use flip_row_data other in blast)+
  show ?thesis
  proof (cases ex)
    case True
    with run s ex lock show ?thesis by (simp add: migrate_row_def quiet_def)
  next
    case False
    then have none: "data_at w (ref_of target) k = None" using ex by (simp add: store_exists_ok)
    obtain w1 c where c: "copyBlob quiet w (ref_of src) (ref_of target) k = (w1, c)" by force
    have "data_at w1 ref k' = data_at w ref k'" using copyBlob_quiet[OF c _ none] src other by auto
    moreover have "data_at w' ref k' = data_at w1 ref k'"
    proof (cases c)
      case (Inl x)
      with run s ex False c show ?thesis by (simp add: migrate_row_def)
    next
      case (Inr n)
      let ?w2 = "best_effort w1 (blobs_update_used_bytes w1 tname n 123)"
      have "data_at w' ref k' = data_at ?w2 ref k'"
        by (rule lock) (use run s ex False c Inr in \<open>simp add: migrate_row_def quiet_def\<close>)
      moreover have "data_at ?w2 = data_at w1" using mig_frame_used_bytes by blast
      ultimately show ?thesis by (rule trans[OF _ fun_cong[OF fun_cong]])
    qed
    ultimately show ?thesis by simp
  qed
qed

text \<open>Rows with different (key, source) do not disturb each other's source object.\<close>

lemma accurate_other_row:
  assumes "migrate_row quiet repo target tname (ref_of target) w (k, src, bytes) = (w', r)" "src \<noteq> target" "src' \<noteq> target"
    and "accurate w (k', src', bytes')" "(k', src', bytes') \<noteq> (k, src, bytes)" "accurate w (k, src, bytes)"
  shows "accurate w' (k', src', bytes')"
proof -
  have "\<not> ((ref_of src' = ref_of src \<or> ref_of src' = ref_of target) \<and> k' = k)"
    using assms(3-6) by (auto simp: accurate_def)
  then have "data_at w' (ref_of src') k' = data_at w (ref_of src') k'" by (rule migrate_row_data[OF assms(1,2)])
  with assms(4) show ?thesis by (simp add: accurate_def)
qed

lemma migrate_rows_detect:
  assumes "migrate_rows env cancelled deadline clk m tname (ref_of (bm_target_store_id m)) rows da db s = (s', True)"
    and "detectable env all" "set rows \<subseteq> set all" "\<forall>(k, src, bytes)\<in>set all. src \<noteq> bm_target_store_id m"
    and "distinct rows" "\<forall>row\<in>set rows. accurate (ms_world s) row"
  shows "migrate_rows quiet cancelled deadline clk m tname (ref_of (bm_target_store_id m)) rows da db s = (s', True)"
  using assms
proof (induction rows arbitrary: da db s)
  case (Cons row rows)
  obtain k src bytes where row: "row = (k, src, bytes)" by (cases row)
  obtain w1 r where step: "migrate_row env (bm_repository_name m) (bm_target_store_id m) tname
      (ref_of (bm_target_store_id m)) (ms_world s) row = (w1, r)" by force
  have go: "\<not> pastDeadline deadline (clk da)" "\<not> cancelled da" "r = Inr ()"
    using Cons.prems(1) step by (auto split: if_splits sum.splits)
  have in_all: "(k, src, bytes) \<in> set all" "src \<noteq> bm_target_store_id m" using Cons.prems(3,4) row by auto
  have quiet_step: "migrate_row quiet (bm_repository_name m) (bm_target_store_id m) tname
      (ref_of (bm_target_store_id m)) (ms_world s) row = (w1, Inr ())"
    using migrate_row_detect[OF _ Cons.prems(2) in_all] step go(3) Cons.prems(6) row by simp
  define s2 where "s2 = try_mig (s\<lparr>ms_world := w1\<rparr>) (migs_update_progress (s\<lparr>ms_world := w1\<rparr>) (bm_id m) (Suc da) (i64 (db + bytes)) 133)"
  have w2: "ms_world s2 = w1" by (simp add: s2_def mig_writes)
  have "\<forall>row'\<in>set rows. accurate w1 row'"
  proof
    fix row' assume r': "row' \<in> set rows"
    obtain k' src' bytes' where row': "row' = (k', src', bytes')" by (cases row')
    have "row' \<noteq> row" using r' Cons.prems(5) by auto
    with r' row row' Cons.prems(3,4,6) in_all show "accurate w1 row'"
      unfolding row' by (intro accurate_other_row[OF quiet_step[unfolded row]]) auto
  qed
  moreover have "migrate_rows env cancelled deadline clk m tname (ref_of (bm_target_store_id m)) rows (Suc da) (i64 (db + bytes)) s2 = (s', True)"
    using Cons.prems(1) go step row by (simp add: s2_def Let_def)
  ultimately have "migrate_rows quiet cancelled deadline clk m tname (ref_of (bm_target_store_id m)) rows (Suc da) (i64 (db + bytes)) s2 = (s', True)"
    using Cons.IH[OF _ Cons.prems(2) _ Cons.prems(4), of "Suc da" "i64 (db + bytes)" s2] Cons.prems(3,5) w2 by simp
  then show ?case using go quiet_step row by (simp add: s2_def Let_def)
qed simp

lemma listed_distinct:
  "assets_list_for_blob_store_migration w repo target n = Inr rows \<Longrightarrow> distinct rows"
  by (auto simp: assets_list_for_blob_store_migration_def guard_io_def split: if_splits)

text \<open>
  A migration that reports success is complete and lost no race it can see: if every interference by
  clients leaves a source object alone or changes its length, the rows' sizes are those of the
  objects and the target is not already holding other contents under the repository's keys, then
  a run that ends in \<open>done\<close> has moved every asset of the repository to the target, where it reads
  exactly the bytes it read before; assets of other repositories are untouched and still readable.
\<close>

lemma runMigration_done:
  assumes version: "one_version (ms_world s) (bm_repository_name m) (bm_target_store_id m)"
    and rows: "assets_list_for_blob_store_migration (ms_world s) (bm_repository_name m) (bm_target_store_id m) 135 = Inr rows"
      "\<forall>row\<in>set rows. accurate (ms_world s) row" "detectable env rows"
    and started: "\<not> mig_done s (bm_id m)" and finished: "mig_done (runMigration env cancelled deadline clk s m) (bm_id m)"
  shows "list_all2 (moved_asset (bm_repository_name m) (bm_target_store_id m) (ms_world s)
      (ms_world (runMigration env cancelled deadline clk s m)))
      (w_assets (ms_world s)) (w_assets (ms_world (runMigration env cancelled deadline clk s m))) \<and>
    (\<forall>a\<in>set (w_assets (ms_world (runMigration env cancelled deadline clk s m))).
      in_repo (ms_world s) (bm_repository_name m) a \<and> a_blob_key a \<noteq> [] \<longrightarrow> a_blob_store_id a = bm_target_store_id m)"
proof -
  let ?b = "run_body env cancelled deadline clk m s" and ?r = "bm_repository_name m" and ?t = "bm_target_store_id m"
  have w: "ms_world (runMigration env cancelled deadline clk s m) = ms_world ?b"
    by (simp add: runMigration_def Let_def close_unfinished_world)
  have fin': "mig_done ?b (bm_id m)"
    using finished close_unfinished_done by (simp add: runMigration_def Let_def)
  from refl[of ?b] started show ?thesis unfolding w
  proof (cases rule: run_body_split)
    case stopped
    with fin' show "list_all2 (moved_asset ?r ?t (ms_world s) (ms_world ?b)) (w_assets (ms_world s)) (w_assets (ms_world ?b)) \<and>
      (\<forall>a\<in>set (w_assets (ms_world ?b)). in_repo (ms_world s) ?r a \<and> a_blob_key a \<noteq> [] \<longrightarrow> a_blob_store_id a = ?t)" by simp
  next
    case (loop rows' s2 tname s3 fin)
    have rows': "rows' = rows" and fin: "fin" using loop(1,4) rows(1) fin' by simp_all
    have nt: "\<forall>(k, src, bytes)\<in>set rows. src \<noteq> ?t" using listed_rows[OF rows(1)] by auto
    have "migrate_rows quiet cancelled deadline clk m tname (ref_of ?t) rows 0 0 s2 = (s3, True)"
      using migrate_rows_detect[OF _ rows(3) subset_refl nt listed_distinct[OF rows(1)]] loop(2,3) rows(2) rows' fin by simp
    from migrate_rows_quiet[OF this subset_refl nt] listed_rows_agree[OF rows(1) version] loop(2)
    have m: "moved ?r ?t (ms_world s) (ms_world s3)"
      and t: "\<forall>(k, src, bytes)\<in>set rows. \<forall>a\<in>set (w_assets (ms_world s3)). in_repo (ms_world s) ?r a \<and> a_blob_key a = k \<longrightarrow> a_blob_store_id a = ?t"
      by simp_all
    have "a' \<in> set (w_assets (ms_world s3)) \<Longrightarrow> in_repo (ms_world s) ?r a' \<Longrightarrow> a_blob_key a' \<noteq> [] \<Longrightarrow> a_blob_store_id a' = ?t" for a'
    proof (rule ccontr)
      assume a': "a' \<in> set (w_assets (ms_world s3))" "in_repo (ms_world s) ?r a'" "a_blob_key a' \<noteq> []" "a_blob_store_id a' \<noteq> ?t"
      then have "a' \<in> set (w_assets (ms_world s))" using moved_back[OF m a'(1)] by (auto simp: moved_asset_def)
      then have "(a_blob_key a', a_blob_store_id a', a_size_bytes a') \<in> set rows" using a' listed_rows[OF rows(1)] by auto
      with t a' show False by fastforce
    qed
    then show "list_all2 (moved_asset ?r ?t (ms_world s) (ms_world ?b)) (w_assets (ms_world s)) (w_assets (ms_world ?b)) \<and>
      (\<forall>a\<in>set (w_assets (ms_world ?b)). in_repo (ms_world s) ?r a \<and> a_blob_key a \<noteq> [] \<longrightarrow> a_blob_store_id a = ?t)"
      unfolding moved_asset_cong[OF loop(6)] loop(5) using m by (simp add: moved_def)
  qed
qed

section \<open>Completion\<close>

text \<open>Which stores there are and how they open only depends on their static columns.\<close>

definition stores_ready :: "world \<Rightarrow> string set \<Rightarrow> bool" where
  "stores_ready w ids \<longleftrightarrow> w_fault w = no_faults \<and> (\<forall>b\<in>set (w_blobs w). openable b) \<and> ids \<subseteq> bs_id ` set (w_blobs w)"

lemma stores_ready_frame:
  assumes "mig_frame w w'" "stores_ready w ids"
  shows "stores_ready w' ids"
proof -
  have m: "map bs_static (w_blobs w') = map bs_static (w_blobs w)" using assms(1) by (simp add: mig_frame_def)
  have s: "openable (bs_static b) = openable b" "bs_id (bs_static b) = bs_id b" for b
    by (simp_all add: bs_static_def openable_def)
  have "bs_id ` set (w_blobs w') = bs_id ` set (w_blobs w)"
    using arg_cong[OF m, of "\<lambda>l. bs_id ` set l"] s by (simp add: image_image)
  moreover have "(\<forall>b\<in>set (w_blobs w'). openable b) = (\<forall>b\<in>set (w_blobs w). openable b)"
    using arg_cong[OF m, of "\<lambda>l. \<forall>b\<in>set l. openable b"] s by simp
  ultimately show ?thesis using assms by (simp add: stores_ready_def mig_frame_def)
qed

lemma stores_ready_get:
  assumes "stores_ready w ids" "i \<in> ids"
  obtains b where "blobs_get_by_id w i n = Inr b" "registry_get w b n' = Inr (ref_of i)"
proof -
  have "find (\<lambda>b. bs_id b = i) (w_blobs w) \<noteq> None"
    using assms by (auto simp: stores_ready_def find_None_iff)
  then obtain b where b: "find (\<lambda>b. bs_id b = i) (w_blobs w) = Some b" by blast
  then have "blobs_get_by_id w i n = Inr b"
    using assms(1) by (simp add: blobs_get_by_id_def row_or_not_found_def guard_io_def stores_ready_def)
  moreover have "registry_get w b n' = Inr (ref_of i)"
    using find_SomeD[OF b] assms(1) openable_ok[of w b n'] by (simp add: stores_ready_def)
  ultimately show thesis by (rule that)
qed

lemma flip_row_ok:
  assumes "stores_ready w ids" "target \<in> ids" "data_at w sref k = Some d"
  shows "\<exists>w'. with_blob_key_lock w k 124 (flip_row repo target sref sname (k, src, bytes) (int (length d))) = (w', Inr ())"
proof -
  have nf: "w_fault w = no_faults" and t: "\<exists>b\<in>set (w_blobs w). bs_id b = target"
    using assms by (auto simp: stores_ready_def)
  obtain w1 where w1: "assets_update_blob_store_for_blob_key w k repo target 119 = Inr w1" "w_fault w1 = no_faults"
    using nf t by (auto simp: assets_update_blob_store_for_blob_key_def guard_io_def)
  have "store_size w sref k 118 = Inr (int (length d))" using nf assms(3) by (simp add: store_size_ok)
  with w1 have "flip_row repo target sref sname (k, src, bytes) (int (length d)) w =
      (dropSourceCopy w1 sref sname (k, src, bytes), Inr ())" by (simp add: flip_row_def)
  moreover have "w_fault (dropSourceCopy w1 sref sname (k, src, bytes)) = no_faults"
    using dropSourceCopy_effect[OF refl] w1(2) by (simp add: mig_frame_def)
  ultimately show ?thesis using nf by (simp add: with_blob_key_lock_def)
qed

lemma migrate_row_ok:
  assumes ready: "stores_ready w ids" "target \<in> ids" "src \<in> ids" "src \<noteq> target" and acc: "accurate w (k, src, bytes)"
  shows "\<exists>w'. migrate_row quiet repo target tname (ref_of target) w (k, src, bytes) = (w', Inr ())"
proof -
  have nf: "w_fault w = no_faults" using ready(1) by (simp add: stores_ready_def)
  obtain smeta where s: "blobs_get_by_id w src 120 = Inr smeta" "registry_get w smeta 121 = Inr (ref_of src)"
    using stores_ready_get[OF ready(1,3)] by metis
  obtain d where d: "data_at w (ref_of src) k = Some d" "bytes = int (length d)" using acc by (auto simp: accurate_def)
  have ex: "store_exists w (ref_of target) k 122 = Inr (data_at w (ref_of target) k \<noteq> None)" using nf by (simp add: store_exists_ok)
  show ?thesis
  proof (cases "data_at w (ref_of target) k")
    case (Some x)
    with s ex d flip_row_ok[OF ready(1,2) d(1)] show ?thesis by (simp add: migrate_row_def quiet_def)
  next
    case None
    obtain w1 where p: "store_put w (ref_of target) k d 111 = Inr w1" using nf by (auto simp: store_put_def guard_io_def)
    have d1: "data_at w1 (ref_of src) k = Some d" using data_at_put[OF p] d(1) ready(4) by simp
    have f1: "mig_frame w w1" using store_put_frame[OF p] by blast
    then have "w_fault w1 = no_faults" using nf by (simp add: mig_frame_def)
    then have c: "copyBlob quiet w (ref_of src) (ref_of target) k = (w1, Inr (int (length d)))"
      using nf d(1) d1 p iffD2[OF store_get_ok, of w k "110" "ref_of src" d]
        iffD2[OF store_size_ok, of w1 k "112" "ref_of src" "int (length d)"] by (simp add: copyBlob_def quiet_def)
    let ?w2 = "best_effort w1 (blobs_update_used_bytes w1 tname (int (length d)) 123)"
    have u: "mig_frame w1 ?w2" "data_at ?w2 = data_at w1" using mig_frame_used_bytes by blast+
    have "stores_ready ?w2 ids" using ready(1) f1 u(1) stores_ready_frame by blast
    moreover have "data_at ?w2 (ref_of src) k = Some d" using d1 unfolding u(2) .
    ultimately show ?thesis
      using flip_row_ok[OF _ ready(2)] s ex None c by (simp add: migrate_row_def quiet_def)
  qed
qed

lemma migrate_rows_ok:
  assumes "stores_ready (ms_world s) ids" "bm_target_store_id m \<in> ids" "\<forall>(k, src, bytes)\<in>set all. src \<noteq> bm_target_store_id m \<and> src \<in> ids"
    and "copies_agree (ms_world s) (bm_repository_name m) (bm_target_store_id m) all"
    and "set rows \<subseteq> set all" "distinct rows" "\<forall>row\<in>set rows. accurate (ms_world s) row"
  shows "\<exists>s'. migrate_rows quiet (\<lambda>_. False) None clk m tname (ref_of (bm_target_store_id m)) rows da db s = (s', True) \<and>
    mig_frame (ms_world s) (ms_world s') \<and> map bm_id (ms_migs s') = map bm_id (ms_migs s)"
  using assms
proof (induction rows arbitrary: da db s)
  case (Cons row rows)
  obtain k src bytes where row: "row = (k, src, bytes)" by (cases row)
  have in_all: "(k, src, bytes) \<in> set all" "src \<noteq> bm_target_store_id m" "src \<in> ids" using Cons.prems(3,5) row by auto
  obtain w1 where step: "migrate_row quiet (bm_repository_name m) (bm_target_store_id m) tname
      (ref_of (bm_target_store_id m)) (ms_world s) row = (w1, Inr ())"
    using migrate_row_ok[OF Cons.prems(1,2) in_all(3,2), of k bytes "bm_repository_name m" tname] Cons.prems(7) row by auto
  note q = migrate_row_quiet[OF step[unfolded row] in_all(1,2) Cons.prems(4)]
  define s2 where "s2 = try_mig (s\<lparr>ms_world := w1\<rparr>) (migs_update_progress (s\<lparr>ms_world := w1\<rparr>) (bm_id m) (Suc da) (i64 (db + bytes)) 133)"
  have w2: "ms_world s2 = w1" "map bm_id (ms_migs s2) = map bm_id (ms_migs s)"
    by (simp_all add: s2_def mig_writes try_mig_def migs_exec_def guard_io_def upd_where_def)
  have frame: "mig_frame (ms_world s) w1" using q by (simp add: moved_def)
  have acc: "\<forall>row'\<in>set rows. accurate w1 row'"
  proof
    fix row' assume r': "row' \<in> set rows"
    obtain k' src' bytes' where row': "row' = (k', src', bytes')" by (cases row')
    have "row' \<noteq> row" using r' Cons.prems(6) by auto
    with r' row row' Cons.prems(3,5,7) in_all show "accurate w1 row'"
      unfolding row' by (intro accurate_other_row[OF step[unfolded row]]) auto
  qed
  have "\<exists>s'. migrate_rows quiet (\<lambda>_. False) None clk m tname (ref_of (bm_target_store_id m)) rows (Suc da) (i64 (db + bytes)) s2 = (s', True) \<and>
      mig_frame (ms_world s2) (ms_world s') \<and> map bm_id (ms_migs s') = map bm_id (ms_migs s2)"
    using Cons.prems(5,6) q stores_ready_frame[OF frame Cons.prems(1)] w2(1) acc
    by (intro Cons.IH[OF _ Cons.prems(2,3)]) auto
  then show ?case
    using step row frame w2 mig_frame_trans by (auto simp: s2_def Let_def pastDeadline_def)
qed simp

lemma FinishMigration_done:
  assumes "w_fault (ms_world s) = no_faults" "i \<in> set (map bm_id (ms_migs s))"
  shows "mig_done (try_mig s (FinishMigration s i ''done'' None n)) i \<and>
    (\<forall>r\<in>set (ms_migs (try_mig s (FinishMigration s i ''done'' None n))). bm_id r = i \<longrightarrow> \<not> bm_active r)"
proof
  have ms: "ms_migs (try_mig s (FinishMigration s i ''done'' None n)) =
      map (\<lambda>r. if bm_id r = i then r\<lparr>bm_status := ''done'', bm_error := None,
        bm_finished_at := Some (w_now (ms_world s)), bm_updated_at := w_now (ms_world s)\<rparr> else r) (ms_migs s)"
    using assms(1) by (simp add: try_mig_def mig_writes migs_exec_def guard_io_def upd_where_def)
  show "mig_done (try_mig s (FinishMigration s i ''done'' None n)) i"
    using assms(2) unfolding mig_done_def ms by (simp only: set_map bex_simps) auto
  show "\<forall>r\<in>set (ms_migs (try_mig s (FinishMigration s i ''done'' None n))). bm_id r = i \<longrightarrow> \<not> bm_active r"
    unfolding ms by (simp only: set_map ball_simps) (simp add: bm_active_def)
qed

lemma close_finished:
  assumes "\<forall>r\<in>set (ms_migs s). bm_id r = bm_id m \<longrightarrow> \<not> bm_active r"
  shows "close_unfinished s m = s"
proof (cases "migs_get s (bm_id m) 142")
  case (Inr cur)
  then have "cur \<in> set (ms_migs s) \<and> bm_id cur = bm_id m"
    by (auto simp: migs_get_def row_or_not_found_def split: option.splits dest: find_SomeD)
  with assms Inr show ?thesis by (simp add: close_unfinished_def)
qed (simp add: close_unfinished_def)

text \<open>
  C6. Left alone, a migration finishes: when no call fails, all stores can be opened, the
  target exists, the bytes of every row of the repository are there with the recorded size, the target holds no
  other version of one of its keys, and nobody interferes or cancels and no deadline is set, the run ends in
  \<open>done\<close>.
\<close>

theorem runMigration_complete:
  assumes ok: "db_ok (ms_world s)" "w_fault (ms_world s) = no_faults" "w_uuid_ok (ms_world s) (bm_target_store_id m)"
    and stores: "\<forall>b\<in>set (w_blobs (ms_world s)). openable b" "bm_target_store_id m \<in> bs_id ` set (w_blobs (ms_world s))"
    and version: "one_version (ms_world s) (bm_repository_name m) (bm_target_store_id m)"
    and bytes: "\<forall>a\<in>set (w_assets (ms_world s)). in_repo (ms_world s) (bm_repository_name m) a \<longrightarrow>
      (\<exists>d. asset_data (ms_world s) a = Some d \<and> int (length d) = a_size_bytes a)"
    and row: "bm_id m \<in> set (map bm_id (ms_migs s))"
  shows "mig_done (runMigration quiet (\<lambda>_. False) None clk s m) (bm_id m)"
proof -
  let ?w = "ms_world s" and ?r = "bm_repository_name m" and ?t = "bm_target_store_id m"
  obtain s1 where s1: "migs_update_status s (bm_id m) ''running'' None 134 = Inr s1" "ms_world s1 = ?w"
      "map bm_id (ms_migs s1) = map bm_id (ms_migs s)"
    using ok(2) by (auto simp: migs_update_status_def migs_exec_def guard_io_def upd_where_def)
  obtain rows where rows: "assets_list_for_blob_store_migration ?w ?r ?t 135 = Inr rows"
    using ok(2,3) by (auto simp: assets_list_for_blob_store_migration_def guard_io_def)
  define s2 where "s2 = try_mig s1 (migs_set_totals s1 (bm_id m) (length rows) (foldl (\<lambda>t r. i64 (t + snd (snd r))) 0 rows) 136)"
  have "map bm_id (ms_migs s2) = map bm_id (ms_migs s1)"
    unfolding s2_def migs_set_totals_def by (rule bm_ids_exec) simp
  then have s2: "ms_world s2 = ?w" "map bm_id (ms_migs s2) = map bm_id (ms_migs s)"
    using s1(2,3) by (simp_all add: s2_def migs_set_totals_def)
  have ready: "stores_ready ?w (bs_id ` set (w_blobs ?w))" using ok(2) stores by (simp add: stores_ready_def)
  obtain tmeta where t: "blobs_get_by_id ?w ?t 137 = Inr tmeta" "registry_get ?w tmeta 138 = Inr (ref_of ?t)"
    using stores_ready_get[OF ready stores(2)] by metis
  have fk: "a_blob_store_id ` set (w_assets ?w) \<subseteq> bs_id ` set (w_blobs ?w)" using ok(1) by (simp add: db_ok_def)
  have src: "\<forall>(k, src, bytes)\<in>set rows. src \<noteq> ?t \<and> src \<in> bs_id ` set (w_blobs ?w)"
    using fk unfolding listed_rows[OF rows] by fastforce
  have acc: "\<forall>row\<in>set rows. accurate ?w row"
  proof
    fix row assume "row \<in> set rows"
    then obtain a where "a \<in> set (w_assets ?w)" "in_repo ?w ?r a" "row = (a_blob_key a, a_blob_store_id a, a_size_bytes a)"
      unfolding listed_rows[OF rows] by blast
    then show "accurate ?w row" using bytes by (simp add: accurate_def asset_data_def)
  qed
  obtain s3 where s3: "migrate_rows quiet (\<lambda>_. False) None clk m (bs_name tmeta) (ref_of ?t) rows 0 0 s2 = (s3, True)"
      "mig_frame ?w (ms_world s3)" "map bm_id (ms_migs s3) = map bm_id (ms_migs s)"
    using migrate_rows_ok[of s2, OF _ stores(2) src _ subset_refl listed_distinct[OF rows], of clk "bs_name tmeta" 0 0]
      ready acc s2 listed_rows_agree[OF rows version] by auto
  obtain s4 where body: "run_body quiet (\<lambda>_. False) None clk m s = try_mig s4 (FinishMigration s4 (bm_id m) ''done'' None 141)"
    and s4: "w_fault (ms_world s4) = w_fault (ms_world s3)" "ms_migs s4 = ms_migs s3"
    using s1 rows t s3(1) s2(1)
    by (auto simp: run_body_def Let_def s2_def repos_set_blob_store_def guard_io_def split: sum.splits)
  have "w_fault (ms_world s4) = no_faults" "bm_id m \<in> set (map bm_id (ms_migs s4))"
    using s3(2,3) s4 ok(2) row by (simp_all add: mig_frame_def)
  from FinishMigration_done[OF this] have "mig_done (run_body quiet (\<lambda>_. False) None clk m s) (bm_id m)"
      "close_unfinished (run_body quiet (\<lambda>_. False) None clk m s) m = run_body quiet (\<lambda>_. False) None clk m s"
    unfolding body by (blast, blast intro: close_finished)
  then show ?thesis by (simp add: runMigration_def Let_def)
qed

section \<open>Instances\<close>

definition demo_target :: blob_store where
  "demo_target = \<lparr>bs_id = ''b2'', bs_name = ''second'', bs_type = ''local'', bs_config = [], bs_quota_bytes = None, bs_used_bytes = 0\<rparr>"

definition demo_mig_world :: world where
  "demo_mig_world = demo_world\<lparr>w_blobs := [demo_store\<lparr>bs_quota_bytes := None\<rparr>, demo_target],
     w_assets := [demo_asset ''xx'' ''a.txt''], w_uuid_ok := (\<lambda>_. True)\<rparr>"

definition demo_mig :: blob_migration where
  "demo_mig = \<lparr>bm_id = ''m1'', bm_repository_name = ''raw'', bm_source_store_id = ''b1'', bm_target_store_id = ''b2'',
     bm_status = ''pending'', bm_total_assets = 0, bm_done_assets = 0, bm_total_bytes = 0, bm_done_bytes = 0,
     bm_error = None, bm_started_at = None, bm_finished_at = None, bm_created_at = 0, bm_updated_at = 0\<rparr>"

definition demo_mig_state :: mig_state where
  "demo_mig_state = \<lparr>ms_world = demo_mig_world, ms_migs = [demo_mig], ms_cancels = [''m1'']\<rparr>"

text \<open>A client that uploads a new version of \<^verbatim>\<open>a.txt\<close> just before its row is flipped.\<close>

definition late_upload :: env where
  "late_upload p key w =
     (if p = 1 then fst (StoreArtifact demo_deps w ''raw'' ''a.txt'' ''text/plain'' \<lparr>co_group = [], co_name = ''a'', co_version = []\<rparr> (''hello'', False) 5)
      else w)"

definition demo_run1 :: mig_state where
  "demo_run1 = runMigration late_upload (\<lambda>_. False) None (\<lambda>_. 0) demo_mig_state demo_mig"

definition demo_restart :: "mig_state \<times> (blob_migration \<times> time option) result" where
  "demo_restart = Start None demo_run1 ''raw'' ''b2''"

definition demo_run2 :: mig_state where
  "demo_run2 = (case demo_restart of
     (s, Inr (m, deadline)) \<Rightarrow> runMigration quiet (\<lambda>_. False) deadline (\<lambda>_. 0) s m
   | (s, Inl _) \<Rightarrow> s)"

definition demo_fetch :: "mig_state \<Rightarrow> string result" where
  "demo_fetch s = map_sum id fst (snd (FetchArtifact demo_deps (ms_world s) ''raw'' ''a.txt''))"

text \<open>
  Following the advice to re-run loses an upload. A client replaces \<^verbatim>\<open>a.txt\<close> between the copy and the
  flip; the run notices and fails, telling the operator to run the migration again, and the new
  version can be fetched. The second run finds the key already at the target, where the first run
  left the old bytes, takes that for its own earlier copy, moves the row there and deletes the
  new bytes from the source: it reports success and the old version is back.
\<close>

lemma rerun_reverts_upload:
  "map bm_status (ms_migs demo_run1) = [''failed''] \<and> demo_fetch demo_run1 = Inr ''hello'' \<and>
   map bm_status (ms_migs demo_run2) = [''failed'', ''done''] \<and> demo_fetch demo_run2 = Inr ''abc'' \<and>
   store_blob (ms_world demo_run2) (StoreOf ''b1'') ''raw:a.txt'' = None"
proof (intro conjI)
  show "map bm_status (ms_migs demo_run1) = [''failed'']" "demo_fetch demo_run1 = Inr ''hello''" by code_simp+
  show "map bm_status (ms_migs demo_run2) = [''failed'', ''done'']" by code_simp
  show "demo_fetch demo_run2 = Inr ''abc''" by code_simp
  show "store_blob (ms_world demo_run2) (StoreOf ''b1'') ''raw:a.txt'' = None" by code_simp
qed

lemma demo_mig_facts:
  "db_ok demo_mig_world" "w_fault demo_mig_world = no_faults" "one_version demo_mig_world ''raw'' ''b2''"
  "asset_data demo_mig_world (demo_asset ''xx'' ''a.txt'') = Some ''abc''" "w_assets demo_mig_world = [demo_asset ''xx'' ''a.txt'']"
proof -
  show "db_ok demo_mig_world"
    using demo_world_db_ok unfolding db_ok_def demo_mig_world_def demo_world_def
    by (simp add: demo_target_def demo_store_def demo_asset_def new_asset_def demo_comp_def)
  show assets: "w_assets demo_mig_world = [demo_asset ''xx'' ''a.txt'']" "w_fault demo_mig_world = no_faults"
    by (simp_all add: demo_mig_world_def demo_world_def)
  show data: "asset_data demo_mig_world (demo_asset ''xx'' ''a.txt'') = Some ''abc''"
    by (simp add: asset_data_def data_at_def store_blob_def ref_of_def get_blob_def demo_mig_world_def demo_world_def demo_asset_def new_asset_def)
  have "data_at demo_mig_world (ref_of ''b2'') k = None" for k
    by (simp add: data_at_def store_blob_def ref_of_def get_blob_def demo_mig_world_def demo_world_def)
  with assets data show "one_version demo_mig_world ''raw'' ''b2''"
    by (auto simp: one_version_def versions_def)
qed

lemma demo_mig_done: "mig_done (runMigration quiet (\<lambda>_. False) None (\<lambda>_. 0) demo_mig_state demo_mig) ''m1''"
  by code_simp


lemma runMigration_done_witness:
  "map a_blob_store_id (w_assets (ms_world (runMigration quiet (\<lambda>_. False) None (\<lambda>_. 0) demo_mig_state demo_mig))) = [''b2'']"
proof -
  let ?rows = "w_assets (ms_world (runMigration quiet (\<lambda>_. False) None (\<lambda>_. 0) demo_mig_state demo_mig))"
  have "assets_list_for_blob_store_migration demo_mig_world ''raw'' ''b2'' 135 = Inr [(''raw:a.txt'', ''b1'', 3)]" by code_simp
  moreover have "accurate demo_mig_world (''raw:a.txt'', ''b1'', 3)"
    using demo_mig_facts(4) by (simp add: accurate_def asset_data_def demo_asset_def new_asset_def)
  moreover have "detectable quiet [(''raw:a.txt'', ''b1'', 3)]" by (simp add: detectable_def quiet_def)
  ultimately have all: "\<forall>a\<in>set ?rows. in_repo demo_mig_world ''raw'' a \<and> a_blob_key a \<noteq> [] \<longrightarrow> a_blob_store_id a = ''b2''"
    using runMigration_done[of demo_mig_state demo_mig "[(''raw:a.txt'', ''b1'', 3)]" quiet "\<lambda>_. False" None "\<lambda>_. 0"]
      demo_mig_facts(3) demo_mig_done by (simp add: demo_mig_state_def demo_mig_def mig_done_def)
  have "map (\<lambda>a. (in_repo demo_mig_world ''raw'' a, a_blob_key a)) ?rows = [(True, ''raw:a.txt'')]" by code_simp
  then obtain a where "?rows = [a]" "in_repo demo_mig_world ''raw'' a" "a_blob_key a \<noteq> []" by (auto simp: map_eq_Cons_conv)
  with all show ?thesis by simp
qed

theorem runMigration_complete_witness: "mig_done (runMigration quiet (\<lambda>_. False) None (\<lambda>_. 7) demo_mig_state demo_mig) ''m1''"
proof -
  have "\<forall>b\<in>set (w_blobs demo_mig_world). openable b" "''b2'' \<in> bs_id ` set (w_blobs demo_mig_world)" "w_uuid_ok demo_mig_world ''b2''"
    by (simp_all add: demo_mig_world_def demo_target_def demo_store_def openable_def)
  moreover have "a_size_bytes (demo_asset ''xx'' ''a.txt'') = 3" by (simp add: demo_asset_def new_asset_def)
  ultimately show ?thesis
    using runMigration_complete[of demo_mig_state demo_mig "\<lambda>_. 7"] demo_mig_facts
    by (simp add: demo_mig_state_def demo_mig_def)
qed

end
