(* ===== verification/Promotion.thy ===== *)
theory Promotion
  imports Base_Store
begin

text \<open>
  Build promotion, after \<^verbatim>\<open>internal/service/promotion_service.go\<close> and
  \<^verbatim>\<open>internal/repository/postgres/promotion_repo.go\<close>: rules, the gates a component has to pass, the
  copy between repositories with its compensation, and the requests that are approved or
  rejected; and the part of \<^verbatim>\<open>internal/service/scan_service.go\<close> that produces the scan rows the gate
  reads. The CEL engine is third-party code: \<open>cel\<close> holds its three calls.
\<close>

section \<open>Rows\<close>

record promotion_rule =
  pr_id :: string
  pr_name :: string
  pr_from_repo :: string
  pr_to_repo :: string
  pr_path_filter :: string
  pr_require_scan_pass :: bool
  pr_require_manual_approval :: bool

datatype promotion_status =
  PromotionPending | PromotionApproved | PromotionRejected | PromotionCompleted | PromotionFailed

fun status_text :: "promotion_status \<Rightarrow> string" where
  "status_text PromotionPending = ''pending''"
| "status_text PromotionApproved = ''approved''"
| "status_text PromotionRejected = ''rejected''"
| "status_text PromotionCompleted = ''completed''"
| "status_text PromotionFailed = ''failed''"

text \<open>\<open>pq_error\<close> is the error whose text the row holds.\<close>

record promotion_request =
  pq_id :: string
  pq_rule_id :: string
  pq_component_id :: string
  pq_status :: promotion_status
  pq_requested_by :: string
  pq_reviewed_by :: "string option"
  pq_reviewed_at :: "time option"
  pq_completed_at :: "time option"
  pq_error :: "err option"
  pq_created_at :: time

datatype scan_status = ScanStatusOK | ScanStatusFailed

record scan_row =
  sc_component_id :: string
  sc_scanner :: string
  sc_status :: scan_status
  sc_malicious :: nat
  sc_critical :: nat
  sc_high :: nat
  sc_medium :: nat
  sc_low :: nat
  sc_unknown :: nat
  sc_total :: nat
  sc_scanned_at :: time
  sc_error :: "err option"

record 'p cel =
  cel_compile :: "string \<Rightarrow> 'p result"
  cel_output_bool :: "'p \<Rightarrow> bool"
  cel_eval :: "'p \<Rightarrow> string \<times> string \<times> string \<Rightarrow> bool result"

record prom_state =
  ps_world :: world
  ps_rules :: "promotion_rule list"
  ps_requests :: "promotion_request list"
  ps_scans :: "scan_row list"

definition prom_get_rule :: "prom_state \<Rightarrow> string \<Rightarrow> nat \<Rightarrow> promotion_rule result" where
  "prom_get_rule s i n = guard_io (ps_world s) ''Promotion.GetRule'' i n
     (row_or_not_found (find (\<lambda>r. pr_id r = i) (ps_rules s)))"

definition prom_list_rules_by_from_repo :: "prom_state \<Rightarrow> string \<Rightarrow> nat \<Rightarrow> promotion_rule list result" where
  "prom_list_rules_by_from_repo s repo n = guard_io (ps_world s) ''Promotion.ListRulesByFromRepo'' repo n
     (Inr (sort_key pr_name (filter (\<lambda>r. pr_from_repo r = repo) (ps_rules s))))"

text \<open>The database refuses a rule with a taken name or an unknown repository.\<close>

definition rule_row_ok :: "prom_state \<Rightarrow> promotion_rule \<Rightarrow> bool" where
  "rule_row_ok s r \<longleftrightarrow> (\<forall>q\<in>set (ps_rules s). pr_id q = pr_id r \<or> pr_name q \<noteq> pr_name r) \<and>
     pr_from_repo r \<in> r_name ` set (w_repos (ps_world s)) \<and> pr_to_repo r \<in> r_name ` set (w_repos (ps_world s))"

definition prom_create_rule :: "prom_state \<Rightarrow> promotion_rule \<Rightarrow> nat \<Rightarrow> (prom_state \<times> promotion_rule) result" where
  "prom_create_rule s r n =
     (let w = ps_world s; row = r\<lparr>pr_id := w_gen_id w (w_seq w)\<rparr>
      in guard_io w ''Promotion.CreateRule'' (pr_name r) n
        (if rule_row_ok s row then Inr (s\<lparr>ps_world := w\<lparr>w_seq := Suc (w_seq w)\<rparr>, ps_rules := ps_rules s @ [row]\<rparr>, row) else Inl ErrIO))"

definition prom_update_rule :: "prom_state \<Rightarrow> promotion_rule \<Rightarrow> nat \<Rightarrow> prom_state result" where
  "prom_update_rule s r n = guard_io (ps_world s) ''Promotion.UpdateRule'' (pr_id r) n
     (if (\<exists>q\<in>set (ps_rules s). pr_id q = pr_id r) \<and> \<not> rule_row_ok s r then Inl ErrIO
      else Inr (s\<lparr>ps_rules := upd_where (\<lambda>q. pr_id q = pr_id r) (\<lambda>_. r) (ps_rules s)\<rparr>))"

text \<open>Deleting a rule takes its requests along.\<close>

definition prom_delete_rule :: "prom_state \<Rightarrow> string \<Rightarrow> nat \<Rightarrow> prom_state result" where
  "prom_delete_rule s i n = guard_io (ps_world s) ''Promotion.DeleteRule'' i n
     (Inr (s\<lparr>ps_rules := filter (\<lambda>r. pr_id r \<noteq> i) (ps_rules s),
             ps_requests := filter (\<lambda>q. pq_rule_id q \<noteq> i) (ps_requests s)\<rparr>))"

definition prom_create_request :: "prom_state \<Rightarrow> promotion_request \<Rightarrow> nat \<Rightarrow> (prom_state \<times> promotion_request) result" where
  "prom_create_request s q n =
     (let w = ps_world s; row = q\<lparr>pq_id := w_gen_id w (w_seq w), pq_created_at := w_now w\<rparr>
      in guard_io w ''Promotion.CreateRequest'' (pq_component_id q) n
        (if (\<exists>r\<in>set (ps_rules s). pr_id r = pq_rule_id q) \<and> comp_by_id w (pq_component_id q) \<noteq> None
         then Inr (s\<lparr>ps_world := w\<lparr>w_seq := Suc (w_seq w)\<rparr>, ps_requests := ps_requests s @ [row]\<rparr>, row)
         else Inl ErrIO))"

definition prom_get_request :: "prom_state \<Rightarrow> string \<Rightarrow> nat \<Rightarrow> promotion_request result" where
  "prom_get_request s i n = guard_io (ps_world s) ''Promotion.GetRequest'' i n
     (row_or_not_found (find (\<lambda>q. pq_id q = i) (ps_requests s)))"

text \<open>Of several rows scanned at the same time the one inserted last is taken.\<close>

definition scans_get_latest_by_component :: "prom_state \<Rightarrow> string \<Rightarrow> nat \<Rightarrow> scan_row result" where
  "scans_get_latest_by_component s cid n = guard_io (ps_world s) ''Scans.GetLatestByComponent'' cid n
     (let rows = filter (\<lambda>r. sc_component_id r = cid) (ps_scans s)
      in if rows = [] then Inl ErrNotFound else Inr (last (sort_key sc_scanned_at rows)))"

text \<open>A component that is gone takes its requests and scan rows along.\<close>

definition cascade :: "prom_state \<Rightarrow> world \<Rightarrow> prom_state" where
  "cascade s w = s\<lparr>ps_world := w,
     ps_requests := filter (\<lambda>q. comp_by_id w (pq_component_id q) \<noteq> None) (ps_requests s),
     ps_scans := filter (\<lambda>r. comp_by_id w (sc_component_id r) \<noteq> None) (ps_scans s)\<rparr>"

section \<open>Rules and gates\<close>

definition evalPathFilter :: "'p cel \<Rightarrow> promotion_rule \<Rightarrow> component \<Rightarrow> bool result" where
  "evalPathFilter cel rule c =
     (if pr_path_filter rule = [] then Inr True
      else (case cel_compile cel (pr_path_filter rule) of
          Inl e \<Rightarrow> Inl (Wrapped ''path filter does not compile'' e)
        | Inr prg \<Rightarrow>
            (case cel_eval cel prg (c_format c, ''/'' @ c_group c @ ''/'' @ c_name c, c_repository c) of
               Inl e \<Rightarrow> Inl (Wrapped ''path filter failed to evaluate'' e)
             | Inr matched \<Rightarrow> Inr matched)))"

definition matchesPathFilter :: "'p cel \<Rightarrow> promotion_rule \<Rightarrow> component \<Rightarrow> bool" where
  "matchesPathFilter cel rule c = (case evalPathFilter cel rule c of Inr matched \<Rightarrow> matched | Inl _ \<Rightarrow> False)"

fun sibling_check :: "'p cel \<Rightarrow> promotion_rule \<Rightarrow> component \<Rightarrow> promotion_rule list \<Rightarrow> unit result" where
  "sibling_check cel rule c [] = Inr ()"
| "sibling_check cel rule c (sib # sibs) =
     (if pr_id sib = pr_id rule \<or> pr_to_repo sib \<noteq> pr_to_repo rule then sibling_check cel rule c sibs
      else (case evalPathFilter cel sib c of
          Inl e \<Rightarrow> Inl (Wrapped ''path filter could not be evaluated'' ErrAmbiguousPromotionRule)
        | Inr matched \<Rightarrow>
            if matched then Inl (Wrapped ''both cover the component'' ErrAmbiguousPromotionRule)
            else sibling_check cel rule c sibs))"

definition noSiblingRuleApplies :: "'p cel \<Rightarrow> prom_state \<Rightarrow> promotion_rule \<Rightarrow> component \<Rightarrow> nat \<Rightarrow> unit result" where
  "noSiblingRuleApplies cel s rule c n =
     (case prom_list_rules_by_from_repo s (c_repository c) n of
        Inl e \<Rightarrow> Inl (Wrapped ''cannot check whether other rules cover component'' e)
      | Inr siblings \<Rightarrow> sibling_check cel rule c siblings)"

definition ruleAppliesTo :: "'p cel \<Rightarrow> prom_state \<Rightarrow> promotion_rule \<Rightarrow> component \<Rightarrow> nat \<Rightarrow> unit result" where
  "ruleAppliesTo cel s rule c n =
     (if c_repository c \<noteq> pr_from_repo rule then Inl (ErrMsg ''component lives in another repository'')
      else (case evalPathFilter cel rule c of
          Inl e \<Rightarrow> Inl (Wrapped ''rule'' e)
        | Inr matched \<Rightarrow>
            if \<not> matched then Inl (ErrMsg ''component does not match the path filter'')
            else noSiblingRuleApplies cel s rule c n))"

definition scanGate :: "prom_state \<Rightarrow> promotion_rule \<Rightarrow> string \<Rightarrow> nat \<Rightarrow> unit result" where
  "scanGate s rule cid n =
     (if \<not> pr_require_scan_pass rule then Inr ()
      else (case scans_get_latest_by_component s cid n of
          Inl _ \<Rightarrow> Inl (ErrMsg ''scan required but not yet run'')
        | Inr scan \<Rightarrow>
            if sc_malicious scan > 0 \<or> sc_critical scan > 0 \<or> sc_high scan > 0
            then Inl (ErrMsg ''scan has findings'') else Inr ()))"

definition validate_rule :: "'p cel \<Rightarrow> promotion_rule \<Rightarrow> unit result" where
  "validate_rule cel r =
     (if pr_name r = [] then Inl (ErrMsg ''name is required'')
      else if pr_from_repo r = [] \<or> pr_to_repo r = [] then Inl (ErrMsg ''from_repo and to_repo are required'')
      else if pr_from_repo r = pr_to_repo r then Inl (ErrMsg ''from_repo and to_repo must be different'')
      else if pr_path_filter r \<noteq> [] then
        (case cel_compile cel (pr_path_filter r) of
           Inl e \<Rightarrow> Inl (Wrapped ''invalid path_filter CEL expression'' e)
         | Inr ast \<Rightarrow> if cel_output_bool cel ast then Inr () else Inl (ErrMsg ''must evaluate to a boolean''))
      else Inr ())"

definition CreatePromotionRule :: "'p cel \<Rightarrow> prom_state \<Rightarrow> promotion_rule \<Rightarrow> prom_state \<times> unit result" where
  "CreatePromotionRule cel s r =
     (case validate_rule cel r of
        Inl e \<Rightarrow> (s, Inl e)
      | Inr _ \<Rightarrow> (case prom_create_rule s r 150 of Inl e \<Rightarrow> (s, Inl e) | Inr (s', _) \<Rightarrow> (s', Inr ())))"

definition UpdatePromotionRule :: "'p cel \<Rightarrow> prom_state \<Rightarrow> promotion_rule \<Rightarrow> prom_state \<times> unit result" where
  "UpdatePromotionRule cel s r =
     (case validate_rule cel r of
        Inl e \<Rightarrow> (s, Inl e)
      | Inr _ \<Rightarrow> (case prom_update_rule s r 151 of Inl e \<Rightarrow> (s, Inl e) | Inr s' \<Rightarrow> (s', Inr ())))"

definition DeletePromotionRule :: "prom_state \<Rightarrow> string \<Rightarrow> prom_state \<times> unit result" where
  "DeletePromotionRule s i = (case prom_delete_rule s i 152 of Inl e \<Rightarrow> (s, Inl e) | Inr s' \<Rightarrow> (s', Inr ()))"

definition ListRulesForComponent :: "'p cel \<Rightarrow> prom_state \<Rightarrow> string \<Rightarrow> promotion_rule list result" where
  "ListRulesForComponent cel s cid =
     (case components_get (ps_world s) cid 153 of
        Inl _ \<Rightarrow> Inl (ErrMsg ''component not found'')
      | Inr c \<Rightarrow>
          (case prom_list_rules_by_from_repo s (c_repository c) 154 of
             Inl e \<Rightarrow> Inl e
           | Inr rules \<Rightarrow> Inr (filter (\<lambda>r. matchesPathFilter cel r c) rules)))"

section \<open>The copy\<close>

definition resolveStore :: "world \<Rightarrow> string option \<Rightarrow> nat \<Rightarrow> (store_ref \<times> string) result" where
  "resolveStore w sid n =
     (case (if sid = None \<or> sid = Some [] then DefaultBlobStore w n
            else (case blobs_get_by_id w (the sid) n of
                Inl e \<Rightarrow> if err_is e ErrNotFound then Inl (ErrMsg ''blob store id not found'') else Inl (Wrapped ''blob store'' e)
              | Inr b \<Rightarrow> Inr b)) of
        Inl e \<Rightarrow> Inl e
      | Inr b \<Rightarrow> (case registry_get w b n of Inl e \<Rightarrow> Inl (Wrapped ''blob store'' e) | Inr ref \<Rightarrow> Inr (ref, bs_id b)))"

definition promotedExtra :: "config \<Rightarrow> config" where
  "promotedExtra extra = filter (\<lambda>(k, v). k \<noteq> ''scan_result'') extra"

text \<open>
  One asset: what the loop body writes. The result says whether the path was fresh in the target
  and the id of the row.
\<close>

definition copy_asset ::
    "deps \<Rightarrow> repository \<Rightarrow> store_ref \<Rightarrow> string \<Rightarrow> string \<Rightarrow> asset \<Rightarrow> world \<Rightarrow> world \<times> string list \<times> string list \<times> unit result" where
  "copy_asset d toRepo toRef toSID cid a w =
     (case resolveStore w (Some (a_blob_store_id a)) 160 of
        Inl e \<Rightarrow> (w, [], [], Inl (Wrapped ''source asset'' e))
      | Inr (fromRef, _) \<Rightarrow>
          (let newKey = BlobKey d (r_name toRepo) (a_path a);
               pre = assets_get_by_path w (r_name toRepo) (a_path a) 161;
               fresh = (case pre of Inl e \<Rightarrow> err_is e ErrNotFound | Inr _ \<Rightarrow> False)
           in if (case pre of Inl e \<Rightarrow> \<not> fresh | Inr _ \<Rightarrow> False) then (w, [], [], Inl (ErrMsg ''check target asset''))
              else (case store_get w fromRef (a_blob_key a) 162 of
                  Inl e \<Rightarrow> (w, [], [], Inl (Wrapped ''read blob'' e))
                | Inr data \<Rightarrow>
                    (case store_put w toRef newKey data 163 of
                       Inl e \<Rightarrow> (w, [], [], Inl (Wrapped ''write blob'' e))
                     | Inr w1 \<Rightarrow>
                         (let keys = (if fresh then [newKey] else []);
                              row = \<lparr>a_id = [], a_component_id = cid, a_repository_id = r_id toRepo, a_repository = r_name toRepo,
                                     a_path = a_path a, a_blob_store_id = toSID, a_blob_key = newKey,
                                     a_size_bytes = int (length data), a_content_type = a_content_type a, a_sha1 = a_sha1 a,
                                     a_sha256 = a_sha256 a, a_md5 = a_md5 a, a_uploader_id = [], a_last_modified = 0,
                                     a_last_downloaded = None, a_download_count = 0, a_created_at = 0\<rparr>
                          in case assets_create w1 row 164 of
                               Inl e \<Rightarrow> (w1, [], keys, Inl (Wrapped ''create asset record'' e))
                             | Inr (w2, row') \<Rightarrow> (w2, if fresh then [a_id row'] else [], keys, Inr ()))))))"

fun copy_assets ::
    "deps \<Rightarrow> repository \<Rightarrow> store_ref \<Rightarrow> string \<Rightarrow> string \<Rightarrow> asset list \<Rightarrow> string list \<Rightarrow> string list \<Rightarrow> world \<Rightarrow>
     world \<times> string list \<times> string list \<times> unit result" where
  "copy_assets d toRepo toRef toSID cid [] ids keys w = (w, ids, keys, Inr ())"
| "copy_assets d toRepo toRef toSID cid (a # as) ids keys w =
     (case copy_asset d toRepo toRef toSID cid a w of
        (w1, ids1, keys1, Inl e) \<Rightarrow> (w1, ids @ ids1, keys @ keys1, Inl e)
      | (w1, ids1, keys1, Inr _) \<Rightarrow> copy_assets d toRepo toRef toSID cid as (ids @ ids1) (keys @ keys1) w1)"

text \<open>The deferred compensation: rows first, then their bytes, then the component if it is empty.\<close>

definition roll_back :: "store_ref \<Rightarrow> string \<Rightarrow> string list \<Rightarrow> string list \<Rightarrow> world \<Rightarrow> world" where
  "roll_back toRef cid ids keys w =
     (let w1 = foldl (\<lambda>w i. best_effort w (assets_delete w i 165)) w ids;
          w2 = foldl (\<lambda>w k. best_effort w (store_delete w toRef k 166)) w1 keys
      in case assets_list_by_component_id w2 cid 167 of
           Inr [] \<Rightarrow> best_effort w2 (components_delete w2 cid 168)
         | _ \<Rightarrow> w2)"

definition promoted_event :: "world \<Rightarrow> repository \<Rightarrow> component \<Rightarrow> payload" where
  "promoted_event w toRepo c =
     \<lparr>p_event = EventArtifactPublished, p_timestamp = w_now w, p_repository = r_name toRepo,
      p_component = [(''group'', c_group c), (''name'', c_name c), (''version'', c_version c), (''format'', r_format toRepo)],
      p_path = [], p_content_type = [], p_size = 0\<rparr>"

definition executeCopy :: "'p cel \<Rightarrow> deps \<Rightarrow> prom_state \<Rightarrow> string \<Rightarrow> promotion_rule \<Rightarrow> world \<times> unit result" where
  "executeCopy cel d s cid rule =
     (let w = ps_world s in
      case components_get w cid 170 of
        Inl _ \<Rightarrow> (w, Inl (ErrMsg ''source component not found''))
      | Inr c \<Rightarrow>
          (case ruleAppliesTo cel s rule c 171 of
             Inl e \<Rightarrow> (w, Inl e)
           | Inr _ \<Rightarrow>
               (case scanGate s rule (c_id c) 172 of
                  Inl e \<Rightarrow> (w, Inl e)
                | Inr _ \<Rightarrow>
                    (case repos_get w (pr_to_repo rule) 173 of
                       Inl _ \<Rightarrow> (w, Inl (ErrMsg ''target repository not found''))
                     | Inr toRepo \<Rightarrow>
                         (case resolveStore w (r_blob_store_id toRepo) 174 of
                            Inl e \<Rightarrow> (w, Inl (Wrapped ''target'' e))
                          | Inr (toRef, toSID) \<Rightarrow>
                              (case assets_list_by_component_id w cid 175 of
                                 Inl e \<Rightarrow> (w, Inl (Wrapped ''list assets'' e))
                               | Inr assets \<Rightarrow>
                                   (case components_create w \<lparr>c_id = [], c_repository_id = r_id toRepo, c_repository = r_name toRepo,
                                        c_format = r_format toRepo, c_group = c_group c, c_name = c_name c, c_version = c_version c,
                                        c_tags = c_tags c, c_extra = promotedExtra (c_extra c), c_last_downloaded = None,
                                        c_download_count = 0, c_created_at = 0\<rparr> 176 of
                                      Inl e \<Rightarrow> (w, Inl (Wrapped ''upsert component in target'' e))
                                    | Inr (w1, newComp) \<Rightarrow>
                                        (case copy_assets d toRepo toRef toSID (c_id newComp) assets [] [] w1 of
                                           (w2, ids, keys, Inl e) \<Rightarrow> (roll_back toRef (c_id newComp) ids keys w2, Inl e)
                                         | (w2, ids, keys, Inr _) \<Rightarrow>
                                             (if d_webhooks d then w2\<lparr>w_events := w_events w2 @ [promoted_event w2 toRepo newComp]\<rparr> else w2,
                                              Inr ())))))))))"

section \<open>Requests\<close>

record outcome =
  oc_status :: promotion_status
  oc_reviewed_by :: "string option"
  oc_reviewed_at :: "time option"
  oc_completed_at :: "time option"
  oc_error :: "err option"

definition settle :: "prom_state \<Rightarrow> string \<Rightarrow> outcome \<Rightarrow> prom_state" where
  "settle s i oc = s\<lparr>ps_requests := upd_where (\<lambda>q. pq_id q = i)
     (\<lambda>q. q\<lparr>pq_status := oc_status oc, pq_reviewed_by := oc_reviewed_by oc, pq_reviewed_at := oc_reviewed_at oc,
        pq_completed_at := oc_completed_at oc, pq_error := oc_error oc\<rparr>) (ps_requests s)\<rparr>"

text \<open>
  The row lock: the callback only runs for a pending request. What it does through other
  connections stays when the update or the commit (sites \<open>n + 1\<close> and \<open>n + 2\<close>) fails.
\<close>

definition WithPendingRequestLock ::
    "prom_state \<Rightarrow> string \<Rightarrow> nat \<Rightarrow> (prom_state \<Rightarrow> promotion_request \<Rightarrow> prom_state \<times> outcome) \<Rightarrow> prom_state \<times> outcome result" where
  "WithPendingRequestLock s i n fn =
     (case guard_io (ps_world s) ''Promotion.WithPendingRequestLock'' i n
         (row_or_not_found (find (\<lambda>q. pq_id q = i) (ps_requests s))) of
        Inl e \<Rightarrow> (s, Inl e)
      | Inr req \<Rightarrow>
          if pq_status req \<noteq> PromotionPending then (s, Inl (ErrNotPending (status_text (pq_status req))))
          else (case fn s req of (s1, oc) \<Rightarrow>
            if oc_status oc = PromotionPending then
              (if w_fault (ps_world s1) ''Promotion.WithPendingRequestLock'' i (n + 2) then (s1, Inl ErrIO) else (s1, Inr oc))
            else if w_fault (ps_world s1) ''Promotion.WithPendingRequestLock'' i (n + 1) \<or>
                    w_fault (ps_world s1) ''Promotion.WithPendingRequestLock'' i (n + 2) then (s1, Inl ErrIO)
            else (settle s1 i oc, Inr oc)))"

text \<open>What the callback, if it ran at all, told its caller, whether or not the outcome was then recorded.\<close>

definition callback_outcome ::
    "prom_state \<Rightarrow> string \<Rightarrow> nat \<Rightarrow> (prom_state \<Rightarrow> promotion_request \<Rightarrow> prom_state \<times> outcome) \<Rightarrow> outcome option" where
  "callback_outcome s i n fn =
     (case guard_io (ps_world s) ''Promotion.WithPendingRequestLock'' i n
         (row_or_not_found (find (\<lambda>q. pq_id q = i) (ps_requests s))) of
        Inl e \<Rightarrow> None
      | Inr req \<Rightarrow> if pq_status req = PromotionPending then Some (snd (fn s req)) else None)"

definition approve_locked :: "'p cel \<Rightarrow> deps \<Rightarrow> string option \<Rightarrow> prom_state \<Rightarrow> promotion_request \<Rightarrow> prom_state \<times> outcome" where
  "approve_locked cel d reviewer s req =
     (let now = w_now (ps_world s);
          failed = (\<lambda>e. \<lparr>oc_status = PromotionFailed, oc_reviewed_by = reviewer, oc_reviewed_at = map_option (\<lambda>_. now) reviewer,
             oc_completed_at = Some now, oc_error = Some e\<rparr>)
      in case prom_get_rule s (pq_rule_id req) 180 of
           Inl _ \<Rightarrow> (s, failed (ErrMsg ''promotion rule not found''))
         | Inr rule \<Rightarrow>
             (case executeCopy cel d s (pq_component_id req) rule of
                (w1, Inl e) \<Rightarrow> (cascade s w1, failed e)
              | (w1, Inr _) \<Rightarrow> (cascade s w1, \<lparr>oc_status = PromotionCompleted, oc_reviewed_by = reviewer,
                  oc_reviewed_at = map_option (\<lambda>_. now) reviewer, oc_completed_at = Some now, oc_error = None\<rparr>)))"

definition Approve :: "'p cel \<Rightarrow> deps \<Rightarrow> prom_state \<Rightarrow> string \<Rightarrow> string \<Rightarrow> prom_state \<times> unit result" where
  "Approve cel d s i reviewer =
     (case WithPendingRequestLock s i 181 (approve_locked cel d (Some reviewer)) of
        (s', Inl e) \<Rightarrow> if err_is e ErrNotFound then (s', Inl (ErrMsg ''promotion request not found'')) else (s', Inl e)
      | (s', Inr oc) \<Rightarrow> (case oc_error oc of None \<Rightarrow> (s', Inr ()) | Some e \<Rightarrow> (s', Inl e)))"

definition Reject :: "prom_state \<Rightarrow> string \<Rightarrow> string \<Rightarrow> string \<Rightarrow> prom_state \<times> unit result" where
  "Reject s i reviewer reason =
     (case WithPendingRequestLock s i 184 (\<lambda>s _. (s, \<lparr>oc_status = PromotionRejected, oc_reviewed_by = Some reviewer,
          oc_reviewed_at = Some (w_now (ps_world s)), oc_completed_at = None,
          oc_error = (if reason = [] then None else Some (ErrMsg reason))\<rparr>)) of
        (s', Inl e) \<Rightarrow> if err_is e ErrNotFound then (s', Inl (ErrMsg ''promotion request not found'')) else (s', Inl e)
      | (s', Inr _) \<Rightarrow> (s', Inr ()))"

fun check_batch :: "'p cel \<Rightarrow> prom_state \<Rightarrow> promotion_rule \<Rightarrow> string list \<Rightarrow> unit result" where
  "check_batch cel s rule [] = Inr ()"
| "check_batch cel s rule (cid # cids) =
     (case components_get (ps_world s) cid 190 of
        Inl _ \<Rightarrow> Inl (ErrMsg ''component not found'')
      | Inr c \<Rightarrow>
          (case ruleAppliesTo cel s rule c 191 of
             Inl e \<Rightarrow> Inl e
           | Inr _ \<Rightarrow> (case scanGate s rule cid 192 of Inl e \<Rightarrow> Inl e | Inr _ \<Rightarrow> check_batch cel s rule cids)))"

definition reported :: "promotion_request \<Rightarrow> outcome \<Rightarrow> promotion_request" where
  "reported req oc = req\<lparr>pq_status := oc_status oc, pq_error := oc_error oc,
     pq_completed_at := (if oc_status oc = PromotionCompleted then oc_completed_at oc else None)\<rparr>"

fun promote_loop ::
    "'p cel \<Rightarrow> deps \<Rightarrow> promotion_rule \<Rightarrow> string \<Rightarrow> string list \<Rightarrow> prom_state \<Rightarrow> promotion_request list \<Rightarrow>
     prom_state \<times> promotion_request list result" where
  "promote_loop cel d rule user [] s acc = (s, Inr acc)"
| "promote_loop cel d rule user (cid # cids) s acc =
     (case prom_create_request s \<lparr>pq_id = [], pq_rule_id = pr_id rule, pq_component_id = cid, pq_status = PromotionPending,
          pq_requested_by = user, pq_reviewed_by = None, pq_reviewed_at = None, pq_completed_at = None, pq_error = None,
          pq_created_at = 0\<rparr> 193 of
        Inl e \<Rightarrow> (s, Inl (Wrapped ''create promotion request'' e))
      | Inr (s1, req) \<Rightarrow>
          if pr_require_manual_approval rule then promote_loop cel d rule user cids s1 (acc @ [req])
          else (case WithPendingRequestLock s1 (pq_id req) 194 (approve_locked cel d None) of
              (s2, Inr oc) \<Rightarrow>
                promote_loop cel d rule user cids s2 (acc @ [reported req oc])
            | (s2, Inl _) \<Rightarrow>
                promote_loop cel d rule user cids s2
                  (acc @ [case prom_get_request s2 (pq_id req) 197 of
                      Inr settled \<Rightarrow> settled
                    | Inl _ \<Rightarrow> (case callback_outcome s1 (pq_id req) 194 (approve_locked cel d None) of
                          None \<Rightarrow> req | Some oc \<Rightarrow> reported req oc)])))"

definition Promote :: "'p cel \<Rightarrow> deps \<Rightarrow> prom_state \<Rightarrow> string \<Rightarrow> string list \<Rightarrow> string \<Rightarrow> prom_state \<times> promotion_request list result" where
  "Promote cel d s ruleID cids user =
     (case prom_get_rule s ruleID 198 of
        Inl _ \<Rightarrow> (s, Inl (ErrMsg ''promotion rule not found''))
      | Inr rule \<Rightarrow>
          (case check_batch cel s rule cids of
             Inl e \<Rightarrow> (s, Inl e)
           | Inr _ \<Rightarrow> promote_loop cel d rule user cids s []))"

section \<open>Scans\<close>

text \<open>\<open>severities\<close> are the findings' severities, the answer of the OSV client.\<close>

definition count_sev :: "string \<Rightarrow> string list \<Rightarrow> nat" where
  "count_sev v xs = length (filter (\<lambda>x. x = v) xs)"

definition scan_row_of :: "world \<Rightarrow> component \<Rightarrow> string list result \<Rightarrow> scan_row" where
  "scan_row_of w c severities =
     (case severities of
        Inl e \<Rightarrow> \<lparr>sc_component_id = c_id c, sc_scanner = ''osv'', sc_status = ScanStatusFailed, sc_malicious = 0, sc_critical = 0,
           sc_high = 0, sc_medium = 0, sc_low = 0, sc_unknown = 0, sc_total = 0, sc_scanned_at = w_now w, sc_error = Some e\<rparr>
      | Inr vs \<Rightarrow> \<lparr>sc_component_id = c_id c, sc_scanner = ''osv'', sc_status = ScanStatusOK,
           sc_malicious = count_sev ''MALICIOUS'' vs, sc_critical = count_sev ''CRITICAL'' vs, sc_high = count_sev ''HIGH'' vs,
           sc_medium = count_sev ''MEDIUM'' vs, sc_low = count_sev ''LOW'' vs,
           sc_unknown = length (filter (\<lambda>v. v \<notin> {''MALICIOUS'', ''CRITICAL'', ''HIGH'', ''MEDIUM'', ''LOW''}) vs),
           sc_total = length vs, sc_scanned_at = w_now w, sc_error = None\<rparr>)"

definition persistScanRow :: "prom_state \<Rightarrow> scan_row \<Rightarrow> prom_state" where
  "persistScanRow s row =
     (if w_fault (ps_world s) ''Scans.Insert'' (sc_component_id row) 199 then s
      else s\<lparr>ps_scans := ps_scans s @ [row]\<rparr>)"

section \<open>The gates\<close>

lemma sibling_check_ok:
  "sibling_check cel rule c sibs = Inr () \<Longrightarrow> sib \<in> set sibs \<Longrightarrow> pr_id sib \<noteq> pr_id rule \<Longrightarrow>
    pr_to_repo sib = pr_to_repo rule \<Longrightarrow> evalPathFilter cel sib c = Inr False"
  by (induction sibs) (auto split: if_splits sum.splits)

definition only_rule :: "'p cel \<Rightarrow> prom_state \<Rightarrow> promotion_rule \<Rightarrow> component \<Rightarrow> bool" where
  "only_rule cel s rule c \<longleftrightarrow> c_repository c = pr_from_repo rule \<and> evalPathFilter cel rule c = Inr True \<and>
     (\<forall>sib\<in>set (ps_rules s). pr_from_repo sib = pr_from_repo rule \<and> pr_to_repo sib = pr_to_repo rule \<and> pr_id sib \<noteq> pr_id rule \<longrightarrow>
        evalPathFilter cel sib c = Inr False)"

lemma ruleAppliesTo_ok:
  assumes "ruleAppliesTo cel s rule c n = Inr ()"
  shows "only_rule cel s rule c"
proof -
  have "c_repository c = pr_from_repo rule" "evalPathFilter cel rule c = Inr True"
    and "noSiblingRuleApplies cel s rule c n = Inr ()"
    using assms by (auto simp: ruleAppliesTo_def split: if_splits sum.splits)
  moreover from this(3) have "evalPathFilter cel sib c = Inr False"
    if "sib \<in> set (ps_rules s)" "pr_from_repo sib = c_repository c" "pr_id sib \<noteq> pr_id rule" "pr_to_repo sib = pr_to_repo rule" for sib
    using that sibling_check_ok[of cel rule c _ sib]
    by (auto simp: noSiblingRuleApplies_def prom_list_rules_by_from_repo_def guard_io_def split: if_splits)
  ultimately show ?thesis by (simp add: only_rule_def)
qed

text \<open>What the scan gate lets through: the newest row names nothing malicious, critical or high.\<close>

definition scan_clean :: "prom_state \<Rightarrow> promotion_rule \<Rightarrow> string \<Rightarrow> nat \<Rightarrow> bool" where
  "scan_clean s rule cid n \<longleftrightarrow> pr_require_scan_pass rule \<longrightarrow>
     (\<exists>scan. scans_get_latest_by_component s cid n = Inr scan \<and> sc_malicious scan = 0 \<and> sc_critical scan = 0 \<and> sc_high scan = 0)"

lemma scanGate_ok: "scanGate s rule cid n = Inr () \<Longrightarrow> scan_clean s rule cid n"
  by (auto simp: scanGate_def scan_clean_def split: if_splits sum.splits)

lemma executeCopy_gates:
  assumes "executeCopy cel d s cid rule = (w', Inr ())"
  shows "\<exists>c. components_get (ps_world s) cid 170 = Inr c \<and> only_rule cel s rule c \<and> scan_clean s rule (c_id c) 172"
  using assms ruleAppliesTo_ok scanGate_ok by (fastforce simp: executeCopy_def Let_def split: sum.splits)

lemma WithPendingRequestLock_ok:
  assumes "WithPendingRequestLock s i n fn = (s', Inr oc)"
  shows "\<exists>req s1. find (\<lambda>q. pq_id q = i) (ps_requests s) = Some req \<and> pq_status req = PromotionPending \<and> fn s req = (s1, oc) \<and>
    s' = (if oc_status oc = PromotionPending then s1 else settle s1 i oc)"
  using assms by (auto simp: WithPendingRequestLock_def row_or_not_found_def split: sum.splits if_splits prod.splits option.splits)

lemma settle_status:
  assumes "q \<in> set (ps_requests (settle s i oc))" "pq_id q = i"
  shows "pq_status q = oc_status oc \<and> pq_reviewed_by q = oc_reviewed_by oc"
proof -
  obtain p where p: "p \<in> set (ps_requests s)" "q = (if pq_id p = i then p\<lparr>pq_status := oc_status oc, pq_reviewed_by := oc_reviewed_by oc,
      pq_reviewed_at := oc_reviewed_at oc, pq_completed_at := oc_completed_at oc, pq_error := oc_error oc\<rparr> else p)"
    using assms(1) unfolding settle_def by (auto elim!: upd_whereE)
  with assms(2) show ?thesis by (cases "pq_id p = i") simp_all
qed

text \<open>
  C7. No artifact is promoted around its gates. When an approval succeeds, the request was pending, the
  component lives in the rule's source repository and matches its filter, no other rule for the
  same pair of repositories could have covered it, and where the rule demands a scan, the newest scan row of
  the component counts no malicious, critical or high findings, all read when the bytes moved; and the request is
  then completed. The gate reads the counts of that row and not its status: a scan that failed has counts of
  zero and opens it (lemma \<open>failed_scan_opens_gate\<close>).
\<close>

theorem Approve_gates:
  assumes "Approve cel d s i reviewer = (s', Inr ())"
  shows "\<exists>req rule c. find (\<lambda>q. pq_id q = i) (ps_requests s) = Some req \<and> pq_status req = PromotionPending \<and>
    find (\<lambda>r. pr_id r = pq_rule_id req) (ps_rules s) = Some rule \<and> components_get (ps_world s) (pq_component_id req) 170 = Inr c \<and>
    only_rule cel s rule c \<and> scan_clean s rule (c_id c) 172 \<and>
    (\<forall>q\<in>set (ps_requests s'). pq_id q = i \<longrightarrow> pq_status q = PromotionCompleted \<and> pq_reviewed_by q = Some reviewer)"
proof -
  from assms obtain oc where lock: "WithPendingRequestLock s i 181 (approve_locked cel d (Some reviewer)) = (s', Inr oc)"
    and ok: "oc_error oc = None"
    by (auto simp: Approve_def split: prod.splits sum.splits if_splits option.splits)
  obtain req s1 where req: "find (\<lambda>q. pq_id q = i) (ps_requests s) = Some req" "pq_status req = PromotionPending"
    and run: "approve_locked cel d (Some reviewer) s req = (s1, oc)"
    and s': "s' = (if oc_status oc = PromotionPending then s1 else settle s1 i oc)"
    using WithPendingRequestLock_ok[OF lock] by blast
  from run ok obtain rule w1 where rule: "prom_get_rule s (pq_rule_id req) 180 = Inr rule"
    and copy: "executeCopy cel d s (pq_component_id req) rule = (w1, Inr ())"
    and oc: "oc_status oc = PromotionCompleted" "oc_reviewed_by oc = Some reviewer"
    by (auto simp: approve_locked_def Let_def split: sum.splits prod.splits)
  have "find (\<lambda>r. pr_id r = pq_rule_id req) (ps_rules s) = Some rule"
    using rule by (auto simp: prom_get_rule_def row_or_not_found_def split: option.splits)
  moreover have "\<forall>q\<in>set (ps_requests s'). pq_id q = i \<longrightarrow> pq_status q = PromotionCompleted \<and> pq_reviewed_by q = Some reviewer"
    using settle_status[of _ s1 i oc] s' oc by simp
  ultimately show ?thesis using req executeCopy_gates[OF copy] by blast
qed

section \<open>The bytes\<close>

lemma resolveStore_ref:
  assumes "resolveStore w (Some sid) n = Inr (ref, i)" "sid \<noteq> []"
  shows "ref = ref_of sid \<and> i = sid"
  using assms blobs_get_by_id_ok registry_get_ref_of
  by (auto simp: resolveStore_def split: sum.splits if_splits) metis+

definition target_row :: "deps \<Rightarrow> repository \<Rightarrow> string \<Rightarrow> asset \<Rightarrow> asset \<Rightarrow> bool" where
  "target_row d toRepo toSID a row \<longleftrightarrow> a_repository_id row = r_id toRepo \<and> a_path row = a_path a \<and>
     a_blob_store_id row = toSID \<and> a_blob_key row = BlobKey d (r_name toRepo) (a_path a) \<and> a_sha256 row = a_sha256 a"

lemma copy_asset_cases:
  assumes "copy_asset d toRepo toRef toSID cid a w = (w', ids, keys, r)"
  obtains (same) e where "r = Inl e" "w' = w" "ids = []" "keys = []"
  | (bytes) e data where "r = Inl e" "store_put w toRef (BlobKey d (r_name toRepo) (a_path a)) data 163 = Inr w'" "ids = []"
      "keys = (if assets_get_by_path w (r_name toRepo) (a_path a) 161 = Inl ErrNotFound then [BlobKey d (r_name toRepo) (a_path a)] else [])"
  | (ok) ref i data w1 row row' where "r = Inr ()" "resolveStore w (Some (a_blob_store_id a)) 160 = Inr (ref, i)"
      "store_get w ref (a_blob_key a) 162 = Inr data" "store_put w toRef (BlobKey d (r_name toRepo) (a_path a)) data 163 = Inr w1"
      "assets_create w1 row 164 = Inr (w', row')" "target_row d toRepo toSID a row" "a_component_id row = cid"
      "a_size_bytes row = int (length data)"
      "ids = (if assets_get_by_path w (r_name toRepo) (a_path a) 161 = Inl ErrNotFound then [a_id row'] else [])"
      "keys = (if assets_get_by_path w (r_name toRepo) (a_path a) 161 = Inl ErrNotFound then [BlobKey d (r_name toRepo) (a_path a)] else [])"
proof -
  let ?pre = "assets_get_by_path w (r_name toRepo) (a_path a) 161"
  have fresh: "(case ?pre of Inl e \<Rightarrow> err_is e ErrNotFound | Inr _ \<Rightarrow> False) \<longleftrightarrow> ?pre = Inl ErrNotFound"
    by (auto simp: assets_get_by_path_def guard_io_def row_or_not_found_def split: option.splits)
  show thesis
  proof (cases "resolveStore w (Some (a_blob_store_id a)) 160")
    case (Inl e)
    with assms have "w' = w \<and> ids = [] \<and> keys = [] \<and> (\<exists>e. r = Inl e)" by (auto simp: copy_asset_def)
    with same show thesis by blast
  next
    case (Inr p)
    obtain ref i where p: "p = (ref, i)" by (cases p)
    note body = assms[unfolded copy_asset_def Let_def fresh Inr p sum.case prod.case]
    show thesis
    proof (cases "(\<exists>e. ?pre = Inl e \<and> e \<noteq> ErrNotFound) \<or> (\<exists>e. store_get w ref (a_blob_key a) 162 = Inl e)")
      case True
      with body have "w' = w \<and> ids = [] \<and> keys = [] \<and> (\<exists>e. r = Inl e)" by (auto split: sum.splits if_splits)
      with same show thesis by blast
    next
      case False
      then have pre: "\<not> (case ?pre of Inl e \<Rightarrow> ?pre \<noteq> Inl ErrNotFound | Inr _ \<Rightarrow> False)" by (auto split: sum.splits)
      obtain data where get: "store_get w ref (a_blob_key a) 162 = Inr data" using False by (cases "store_get w ref (a_blob_key a) 162") auto
      note body = body[unfolded if_not_P[OF pre] get sum.case]
      show thesis
      proof (cases "store_put w toRef (BlobKey d (r_name toRepo) (a_path a)) data 163")
        case (Inl e)
        with body have "w' = w \<and> ids = [] \<and> keys = [] \<and> (\<exists>e. r = Inl e)" by auto
        with same show thesis by blast
      next
        case put: (Inr w1)
        let ?row = "\<lparr>a_id = [], a_component_id = cid, a_repository_id = r_id toRepo, a_repository = r_name toRepo,
           a_path = a_path a, a_blob_store_id = toSID, a_blob_key = BlobKey d (r_name toRepo) (a_path a),
           a_size_bytes = int (length data), a_content_type = a_content_type a, a_sha1 = a_sha1 a,
           a_sha256 = a_sha256 a, a_md5 = a_md5 a, a_uploader_id = [], a_last_modified = 0,
           a_last_downloaded = None, a_download_count = 0, a_created_at = 0\<rparr>"
        show thesis
        proof (cases "assets_create w1 ?row 164")
          case (Inl e)
          with body put have "w' = w1 \<and> ids = [] \<and> (\<exists>e. r = Inl e) \<and>
              keys = (if ?pre = Inl ErrNotFound then [BlobKey d (r_name toRepo) (a_path a)] else [])" by auto
          with put bytes show thesis by blast
        next
          case row: (Inr q)
          obtain w2 row' where q: "q = (w2, row')" by (cases q)
          have *: "r = Inr ()" "w' = w2" "ids = (if ?pre = Inl ErrNotFound then [a_id row'] else [])"
              "keys = (if ?pre = Inl ErrNotFound then [BlobKey d (r_name toRepo) (a_path a)] else [])"
            using body unfolding put row q sum.case prod.case by simp_all
          have res: "resolveStore w (Some (a_blob_store_id a)) 160 = Inr (ref, i)"
            using \<open>resolveStore w (Some (a_blob_store_id a)) 160 = Inr p\<close> p by simp
          have cr: "assets_create w1 ?row 164 = Inr (w', row')" using row q *(2) by simp
          have "target_row d toRepo toSID a ?row" by (simp add: target_row_def)
          then show thesis by (rule ok[OF *(1) res get put cr _ _ _ *(3,4)]) simp_all
        qed
      qed
    qed
  qed
qed

lemma store_put_same:
  assumes "store_put w r k d n = Inr w'"
  shows "w_assets w' = w_assets w" "w_blobs w' = w_blobs w" "w_repos w' = w_repos w" "w_comps w' = w_comps w"
    "w_fault w' = w_fault w" "w_uuid_ok w' = w_uuid_ok w" "db_ok w \<Longrightarrow> db_ok w'"
  using store_put_ok[OF assms] by (simp_all add: db_ok_cong[of "set_store w r s" w for s])

lemma assets_create_same:
  assumes "assets_create w row n = Inr (w', row')"
  shows "w_blobs w' = w_blobs w" "w_repos w' = w_repos w" "w_comps w' = w_comps w" "w_fault w' = w_fault w" "data_at w' = data_at w"
  using db_step_assets_create[OF assms] assms
  by (auto simp: db_step_def assets_create_def Let_def intro!: data_at_cong split: if_splits option.splits)

text \<open>Rows of other paths stay as they are.\<close>

lemma assets_create_other:
  assumes "assets_create w row n = Inr (w', row')" "db_ok w" "r \<in> set (w_assets w)" "\<not> same_slot row r"
  shows "r \<in> set (w_assets w')"
  using assms(1)
proof (cases rule: assets_create_cases)
  case (upd old)
  then have old: "old \<in> set (w_assets w)" "same_slot row old" using find_SomeD by fastforce+
  have "distinct (map a_id (w_assets w))" using assms(2) by (simp add: db_ok_def)
  then have "a_id r \<noteq> a_id old" using old assms(3,4) by (auto simp: distinct_map inj_on_def)
  with assms(3) show ?thesis unfolding upd(3) by (force simp: set_upd_where)
next
  case (ins new)
  with assms(3) show ?thesis by simp
qed

lemma copy_asset_frame:
  assumes "copy_asset d toRepo toRef toSID cid a w = (w', ids, keys, r)" "db_ok w"
  shows "db_ok w'" "w_blobs w' = w_blobs w" "w_repos w' = w_repos w" "w_comps w' = w_comps w" "w_fault w' = w_fault w"
    "\<not> (ref = toRef \<and> k = BlobKey d (r_name toRepo) (a_path a)) \<Longrightarrow> data_at w' ref k = data_at w ref k"
    "x \<in> set (w_assets w) \<Longrightarrow> \<not> (a_repository_id x = r_id toRepo \<and> a_path x = a_path a) \<Longrightarrow> x \<in> set (w_assets w')"
proof -
  have "db_ok w' \<and> w_blobs w' = w_blobs w \<and> w_repos w' = w_repos w \<and> w_comps w' = w_comps w \<and> w_fault w' = w_fault w \<and>
    (\<not> (ref = toRef \<and> k = BlobKey d (r_name toRepo) (a_path a)) \<longrightarrow> data_at w' ref k = data_at w ref k) \<and>
    (x \<in> set (w_assets w) \<longrightarrow> \<not> (a_repository_id x = r_id toRepo \<and> a_path x = a_path a) \<longrightarrow> x \<in> set (w_assets w'))"
    using assms(1)
  proof (cases rule: copy_asset_cases)
    case (same e)
    then show ?thesis using assms(2) by simp
  next
    case (bytes e data)
    show ?thesis using store_put_same[OF bytes(2)] data_at_put[OF bytes(2)] assms(2) by auto
  next
    case (ok ref i data w1 row row')
    note p = store_put_same[OF ok(4)] data_at_put[OF ok(4)] and c = assets_create_same[OF ok(5)]
    have db: "db_ok w1" "db_ok w'" using p(7) assms(2) db_ok_assets_create[OF _ ok(5)] by blast+
    have "x \<in> set (w_assets w')" if "x \<in> set (w_assets w)" "\<not> (a_repository_id x = r_id toRepo \<and> a_path x = a_path a)"
      using assets_create_other[OF ok(5) db(1), of x] that p(1) ok(6) by (auto simp: target_row_def)
    then show ?thesis using p c db(2) by auto
  qed
  then show "db_ok w'" "w_blobs w' = w_blobs w" "w_repos w' = w_repos w" "w_comps w' = w_comps w" "w_fault w' = w_fault w"
    "\<not> (ref = toRef \<and> k = BlobKey d (r_name toRepo) (a_path a)) \<Longrightarrow> data_at w' ref k = data_at w ref k"
    "x \<in> set (w_assets w) \<Longrightarrow> \<not> (a_repository_id x = r_id toRepo \<and> a_path x = a_path a) \<Longrightarrow> x \<in> set (w_assets w')" by blast+
qed

lemma copy_assets_frame:
  assumes "copy_assets d toRepo toRef toSID cid as ids keys w = (w', ids', keys', r)" "db_ok w"
  shows "db_ok w' \<and> w_blobs w' = w_blobs w \<and> w_repos w' = w_repos w \<and> w_comps w' = w_comps w \<and> w_fault w' = w_fault w \<and>
    (\<forall>ref k. ref \<noteq> toRef \<or> k \<notin> (\<lambda>a. BlobKey d (r_name toRepo) (a_path a)) ` set as \<longrightarrow> data_at w' ref k = data_at w ref k) \<and>
    (\<forall>x\<in>set (w_assets w). \<not> (a_repository_id x = r_id toRepo \<and> a_path x \<in> a_path ` set as) \<longrightarrow> x \<in> set (w_assets w'))"
  using assms
proof (induction as arbitrary: w ids keys)
  case (Cons a as)
  obtain w1 ids1 keys1 r1 where c: "copy_asset d toRepo toRef toSID cid a w = (w1, ids1, keys1, r1)" by (cases "copy_asset d toRepo toRef toSID cid a w") auto
  note f = copy_asset_frame[OF c Cons.prems(2)]
  show ?case
  proof (cases r1)
    case (Inl e)
    then have "w' = w1" using Cons.prems(1) c by simp
    then show ?thesis using f by (metis (no_types, lifting) image_eqI list.set_intros(1))
  next
    case (Inr u)
    then have "copy_assets d toRepo toRef toSID cid as (ids @ ids1) (keys @ keys1) w1 = (w', ids', keys', r)" using Cons.prems(1) c by simp
    from Cons.IH[OF this f(1)] f show ?thesis by auto
  qed
qed simp

text \<open>
  The keys the copy writes do not collide: with a collision-free hash they are the images of
  different strings, none of which is the key of a source asset.
\<close>

definition keys_apart :: "deps \<Rightarrow> string \<Rightarrow> asset list \<Rightarrow> bool" where
  "keys_apart d repo as \<longleftrightarrow> (\<forall>a\<in>set as. \<forall>b\<in>set as. a_blob_key a \<noteq> BlobKey d repo (a_path b) \<and>
     (BlobKey d repo (a_path a) = BlobKey d repo (a_path b) \<longrightarrow> a_path a = a_path b))"

definition arrived :: "deps \<Rightarrow> repository \<Rightarrow> store_ref \<Rightarrow> string \<Rightarrow> world \<Rightarrow> world \<Rightarrow> asset \<Rightarrow> bool" where
  "arrived d toRepo toRef toSID w w' a \<longleftrightarrow>
     (\<exists>row\<in>set (w_assets w'). target_row d toRepo toSID a row \<and>
        (\<exists>data. asset_data w a = Some data \<and> data_at w' toRef (a_blob_key row) = Some data \<and> a_size_bytes row = int (length data)))"

lemma copy_asset_arrived:
  assumes "copy_asset d toRepo toRef toSID cid a w = (w', ids, keys, Inr ())" "a_blob_store_id a \<noteq> []"
  shows "arrived d toRepo toRef toSID w w' a"
  using assms(1)
proof (cases rule: copy_asset_cases)
  case (ok ref i data w1 row row')
  have "asset_data w a = Some data"
    using resolveStore_ref[OF ok(2) assms(2)] ok(3) by (simp add: store_get_ok asset_data_def)
  moreover have "data_at w' toRef (BlobKey d (r_name toRepo) (a_path a)) = Some data"
    using data_at_put[OF ok(4)] assets_create_same(5)[OF ok(5)] by simp
  moreover obtain x where "x \<in> set (w_assets w')" "target_row d toRepo toSID a x" "a_size_bytes x = int (length data)"
    by (rule assets_create_row[OF ok(5)]) (use ok(6,8) in \<open>auto simp: target_row_def\<close>)
  ultimately show ?thesis by (auto simp: arrived_def target_row_def)
qed simp_all

lemma copy_assets_arrived:
  assumes "copy_assets d toRepo toRef toSID cid as ids keys w = (w', ids', keys', Inr ())" "db_ok w"
    and "distinct (map a_path as)" "keys_apart d (r_name toRepo) as" "\<forall>a\<in>set as. a_blob_store_id a \<noteq> []"
  shows "\<forall>a\<in>set as. arrived d toRepo toRef toSID w w' a"
  using assms
proof (induction as arbitrary: w ids keys)
  case (Cons a as)
  obtain w1 ids1 keys1 where c: "copy_asset d toRepo toRef toSID cid a w = (w1, ids1, keys1, Inr ())"
    and rest: "copy_assets d toRepo toRef toSID cid as (ids @ ids1) (keys @ keys1) w1 = (w', ids', keys', Inr ())"
    using Cons.prems(1) by (auto split: prod.splits sum.splits)
  note f1 = copy_asset_frame[OF c Cons.prems(2)]
  note f2 = copy_assets_frame[OF rest f1(1)]
  have apart: "keys_apart d (r_name toRepo) as" using Cons.prems(4) by (simp add: keys_apart_def)
  have "arrived d toRepo toRef toSID w1 w' b" if "b \<in> set as" for b
    using Cons.IH[OF rest f1(1)] Cons.prems(3,5) apart that by simp
  moreover have "asset_data w1 b = asset_data w b" if "b \<in> set as" for b
    unfolding asset_data_def by (rule f1(6)) (use Cons.prems(4) that in \<open>auto simp: keys_apart_def\<close>)
  ultimately have tail: "\<forall>b\<in>set as. arrived d toRepo toRef toSID w w' b" by (simp add: arrived_def)
  from copy_asset_arrived[OF c] Cons.prems(5) obtain row data where row: "row \<in> set (w_assets w1)" "target_row d toRepo toSID a row"
      "asset_data w a = Some data" "data_at w1 toRef (a_blob_key row) = Some data" "a_size_bytes row = int (length data)"
    by (auto simp: arrived_def)
  have new: "a_path row \<notin> a_path ` set as" using row(2) Cons.prems(3) by (auto simp: target_row_def)
  then have "a_blob_key row \<notin> (\<lambda>a. BlobKey d (r_name toRepo) (a_path a)) ` set as"
    using row(2) Cons.prems(4) by (auto simp: target_row_def keys_apart_def)
  then have "data_at w' toRef (a_blob_key row) = Some data" "row \<in> set (w_assets w')" using f2 row new by auto
  with row tail show ?case by (auto simp: arrived_def)
qed simp

lemma resolveStore_static:
  assumes "resolveStore w sid n = Inr (ref, i)" "w_fault w = no_faults" "d_registry d" "i \<noteq> []" "db_ok w"
  shows "pinned_store d w i m = ref"
proof -
  obtain b where b: "b \<in> set (w_blobs w)" "registry_get w b n = Inr ref" "bs_id b = i"
    using assms(1)
    by (auto simp: resolveStore_def DefaultBlobStore_def blobs_get_by_id_def blobs_get_def blobs_list_def row_or_not_found_def
        guard_io_def split: sum.splits if_splits option.splits list.splits dest!: find_SomeD) (metis list.set_intros(1) set_sort)+
  have "distinct (map bs_id (w_blobs w))" using assms(5) by (simp add: db_ok_def)
  then have "find (\<lambda>x. bs_id x = i) (w_blobs w) = Some b" using find_key_unique[of bs_id "w_blobs w" b] b by simp
  moreover have "registry_get w b m = Inr ref"
    using b(2) assms(2) by (auto simp: registry_get_def open_descriptor_def guard_io_def split: if_splits)
  ultimately show ?thesis
    using assms(2-4) by (simp add: pinned_store_def PhysicalStore_def blobs_get_by_id_def row_or_not_found_def guard_io_def)
qed

lemma executeCopy_run:
  assumes "executeCopy cel d s cid rule = (w', r)"
  obtains (refused) e where "r = Inl e" "w' = ps_world s"
  | (copied) c toRepo toRef toSID w1 newComp w2 ids keys r2 where
      "components_get (ps_world s) cid 170 = Inr c" "repos_get (ps_world s) (pr_to_repo rule) 173 = Inr toRepo"
      "resolveStore (ps_world s) (r_blob_store_id toRepo) 174 = Inr (toRef, toSID)"
      "components_create (ps_world s) \<lparr>c_id = [], c_repository_id = r_id toRepo, c_repository = r_name toRepo,
         c_format = r_format toRepo, c_group = c_group c, c_name = c_name c, c_version = c_version c,
         c_tags = c_tags c, c_extra = promotedExtra (c_extra c), c_last_downloaded = None,
         c_download_count = 0, c_created_at = 0\<rparr> 176 = Inr (w1, newComp)"
      "copy_assets d toRepo toRef toSID (c_id newComp) (map (scan_asset (ps_world s)) (sort_key a_path
         (filter (\<lambda>a. a_component_id a = cid) (w_assets (ps_world s))))) [] [] w1 = (w2, ids, keys, r2)"
      "r = r2" "w' = (case r2 of Inl _ \<Rightarrow> roll_back toRef (c_id newComp) ids keys w2
         | Inr _ \<Rightarrow> if d_webhooks d then w2\<lparr>w_events := w_events w2 @ [promoted_event w2 toRepo newComp]\<rparr> else w2)"
proof -
  let ?w = "ps_world s"
  show thesis
  proof (cases "\<exists>c toRepo toRef toSID w1 newComp. components_get ?w cid 170 = Inr c \<and> ruleAppliesTo cel s rule c 171 = Inr () \<and>
      scanGate s rule (c_id c) 172 = Inr () \<and> repos_get ?w (pr_to_repo rule) 173 = Inr toRepo \<and>
      resolveStore ?w (r_blob_store_id toRepo) 174 = Inr (toRef, toSID) \<and> is_ok (assets_list_by_component_id ?w cid 175) \<and>
      components_create ?w \<lparr>c_id = [], c_repository_id = r_id toRepo, c_repository = r_name toRepo,
         c_format = r_format toRepo, c_group = c_group c, c_name = c_name c, c_version = c_version c,
         c_tags = c_tags c, c_extra = promotedExtra (c_extra c), c_last_downloaded = None,
         c_download_count = 0, c_created_at = 0\<rparr> 176 = Inr (w1, newComp)")
    case False
    with assms have "w' = ?w \<and> (\<exists>e. r = Inl e)"
      by (auto simp: executeCopy_def Let_def split: sum.splits prod.splits) metis+
    with refused show thesis by blast
  next
    case True
    then obtain c toRepo toRef toSID w1 newComp where g: "components_get ?w cid 170 = Inr c" "ruleAppliesTo cel s rule c 171 = Inr ()"
      "scanGate s rule (c_id c) 172 = Inr ()" "repos_get ?w (pr_to_repo rule) 173 = Inr toRepo"
      "resolveStore ?w (r_blob_store_id toRepo) 174 = Inr (toRef, toSID)" "is_ok (assets_list_by_component_id ?w cid 175)"
      "components_create ?w \<lparr>c_id = [], c_repository_id = r_id toRepo, c_repository = r_name toRepo,
         c_format = r_format toRepo, c_group = c_group c, c_name = c_name c, c_version = c_version c,
         c_tags = c_tags c, c_extra = promotedExtra (c_extra c), c_last_downloaded = None,
         c_download_count = 0, c_created_at = 0\<rparr> 176 = Inr (w1, newComp)" by blast
    have l: "assets_list_by_component_id ?w cid 175 = Inr (map (scan_asset ?w) (sort_key a_path (filter (\<lambda>a. a_component_id a = cid) (w_assets ?w))))"
      using g(6) by (auto simp: assets_list_by_component_id_def guard_io_def split: if_splits)
    let ?as = "map (scan_asset ?w) (sort_key a_path (filter (\<lambda>a. a_component_id a = cid) (w_assets ?w)))"
    obtain w2 ids keys r2 where cp: "copy_assets d toRepo toRef toSID (c_id newComp) ?as [] [] w1 = (w2, ids, keys, r2)"
      by (cases "copy_assets d toRepo toRef toSID (c_id newComp) ?as [] [] w1") auto
    have "r = r2 \<and> w' = (case r2 of Inl _ \<Rightarrow> roll_back toRef (c_id newComp) ids keys w2
         | Inr _ \<Rightarrow> if d_webhooks d then w2\<lparr>w_events := w_events w2 @ [promoted_event w2 toRepo newComp]\<rparr> else w2)"
      using assms unfolding executeCopy_def Let_def g l cp sum.case prod.case by (cases r2) auto
    then show thesis using copied[OF g(1,4,5,7) cp] by blast
  qed
qed

lemma asset_data_scan [simp]: "asset_data w (scan_asset w' a) = asset_data w a" "a_path (scan_asset w' a) = a_path a"
  "a_blob_key (scan_asset w' a) = a_blob_key a" "a_blob_store_id (scan_asset w' a) = a_blob_store_id a"
  by (simp_all add: scan_asset_def asset_data_def split: option.splits)

lemma distinct_component_paths:
  assumes "db_ok w" "\<forall>a\<in>set (w_assets w). a_component_id a = cid \<longrightarrow> a_repository_id a = rid"
  shows "distinct (map a_path (map (scan_asset w') (sort_key a_path (filter (\<lambda>a. a_component_id a = cid) (w_assets w)))))"
proof -
  have "distinct (map (\<lambda>a. (a_repository_id a, a_path a)) (w_assets w))" using assms(1) by (simp add: db_ok_def)
  then have "inj_on (\<lambda>a. (a_repository_id a, a_path a)) (set (w_assets w))" "distinct (w_assets w)" by (simp_all add: distinct_map)
  then have "inj_on a_path (set (filter (\<lambda>a. a_component_id a = cid) (w_assets w)))"
    using assms(2) by (auto simp: inj_on_def)
  with \<open>distinct (w_assets w)\<close> show ?thesis by (simp add: comp_def distinct_map)
qed

text \<open>
  What is promoted is what can be fetched. When the copy of a component succeeds, fetching the path
  of each of its assets from the target repository returns exactly the bytes the source asset had,
  with the source's checksum, provided no call fails and the hash that names blobs has no collision
  on the paths involved; rows outside the target's paths are kept.
\<close>

lemma executeCopy_fetch:
  assumes ok: "db_ok (ps_world s)" "w_fault (ps_world s) = no_faults" "d_registry d"
    and copy: "executeCopy cel d s cid rule = (w', Inr ())"
    and target: "repos_get (ps_world s) (pr_to_repo rule) 173 = Inr toRepo"
      "resolveStore (ps_world s) (r_blob_store_id toRepo) 174 = Inr (toRef, toSID)" "toSID \<noteq> []"
    and one_repo: "\<forall>a\<in>set (w_assets (ps_world s)). a_component_id a = cid \<longrightarrow> a_repository_id a = rid \<and> a_blob_store_id a \<noteq> []"
    and apart: "keys_apart d (r_name toRepo) (filter (\<lambda>a. a_component_id a = cid) (w_assets (ps_world s)))"
    and a: "a \<in> set (w_assets (ps_world s))" "a_component_id a = cid"
  shows "\<exists>data w'' row. asset_data (ps_world s) a = Some data \<and>
    FetchArtifact d w' (pr_to_repo rule) (a_path a) = (w'', Inr (data, row)) \<and> a_sha256 row = a_sha256 a \<and>
    (\<forall>x\<in>set (w_assets (ps_world s)). a_repository_id x \<noteq> r_id toRepo \<longrightarrow> x \<in> set (w_assets w'))"
  using copy
proof (cases rule: executeCopy_run)
  case (copied c toRepo' toRef' toSID' w1 newComp w2 ids keys r2)
  let ?w = "ps_world s" and ?as = "map (scan_asset (ps_world s)) (sort_key a_path (filter (\<lambda>a. a_component_id a = cid) (w_assets (ps_world s))))"
  have t: "toRepo' = toRepo" "toRef' = toRef" "toSID' = toSID" using copied(2,3) target by simp_all
  have r2: "r2 = Inr ()" using copied(6) by simp
  note cp = copied(5)[unfolded t r2]
  note c1 = db_step_components_create[OF copied(4)]
  have db1: "db_ok w1" using c1(1) ok(1) by (simp add: db_step_def)
  have data1: "data_at w1 = data_at ?w" using c1(1) by (intro data_at_cong) (simp add: db_step_def)
  have "keys_apart d (r_name toRepo) ?as" using apart by (auto simp: keys_apart_def)
  then have "arrived d toRepo toRef toSID w1 w2 (scan_asset ?w a)"
    using copy_assets_arrived[OF cp db1] distinct_component_paths[OF ok(1), of cid rid ?w] one_repo a by auto
  then obtain row data where row: "row \<in> set (w_assets w2)" "target_row d toRepo toSID a row" "asset_data ?w a = Some data"
      "data_at w2 toRef (a_blob_key row) = Some data"
    using data1 by (auto simp: arrived_def target_row_def asset_data_def scan_asset_def split: option.splits)
  note f = copy_assets_frame[OF cp db1]
  have w': "w_assets w' = w_assets w2" "data_at w' = data_at w2" "w_blobs w' = w_blobs ?w" "w_repos w' = w_repos ?w"
      "w_fault w' = no_faults" "db_ok w'"
    using copied(7) r2 f c1 ok(2) by (auto simp: db_step_def intro!: data_at_cong)
  have repo: "toRepo \<in> set (w_repos w')" "r_name toRepo = pr_to_repo rule" using repos_get_row[OF target(1)] w'(4) by simp_all
  have "assets_get_by_path w' (r_name toRepo) (a_path row) 30 = Inr (scan_asset w' row)"
    by (rule get_by_path_unique[OF w'(6) _ repo(1)]) (use row w' in \<open>simp_all add: target_row_def\<close>)
  moreover have "pinned_store d w' toSID 31 = toRef"
    using resolveStore_static[OF target(2) ok(2,3) target(3) ok(1), of 31] pinned_store_static[of w' ?w d toSID 31] w' ok(2) by simp
  moreover have "store_get w' toRef (a_blob_key row) 30 = Inr data" using row(4) w' by (simp add: store_get_ok)
  ultimately have "\<exists>w''. FetchArtifact d w' (pr_to_repo rule) (a_path a) = (w'', Inr (data, scan_asset w' row))"
    using row(2) repo(2) by (simp add: FetchArtifact_def target_row_def)
  moreover have "x \<in> set (w_assets w')" if "x \<in> set (w_assets ?w)" "a_repository_id x \<noteq> r_id toRepo" for x
    using f that c1(2) w'(1) by simp
  moreover have "a_sha256 (scan_asset w' row) = a_sha256 a" using row(2) by (simp add: target_row_def scan_asset_def split: option.splits)
  ultimately show ?thesis using row(3) by blast
qed simp

section \<open>Compensation\<close>











end
