(* ===== verification/Promotion_Requests.thy ===== *)
theory Promotion_Requests
  imports Promotion
begin

text \<open>
  The life of a promotion request: which steps the service and its clients can take, what they
  keep of the requests table, and that a settled request is final. The witnesses of the promotion
  properties and two faults of the service are here too.
\<close>

section \<open>The life of a request\<close>

definition gen_mono :: "world \<Rightarrow> world \<Rightarrow> bool" where
  "gen_mono w w' \<longleftrightarrow> w_gen_id w' = w_gen_id w \<and> w_seq w \<le> w_seq w'"

lemma gen_mono_refl [simp]: "gen_mono w w"
  and gen_mono_trans: "gen_mono w w' \<Longrightarrow> gen_mono w' w'' \<Longrightarrow> gen_mono w w''"
  by (simp_all add: gen_mono_def)

lemma gen_mono_writes:
  "components_create w c n = Inr (w', c') \<Longrightarrow> gen_mono w w'"
  "assets_create w a n = Inr (w', a') \<Longrightarrow> gen_mono w w'"
  "store_put w r k dt n = Inr w' \<Longrightarrow> gen_mono w w'"
  "gen_mono w (best_effort w (store_delete w r k n))"
  "gen_mono w (best_effort w (assets_delete w i n))"
  "gen_mono w (best_effort w (components_delete w i n))"
  by (auto simp: gen_mono_def components_create_def assets_create_def store_delete_def assets_delete_def components_delete_def
      best_effort_def guard_io_def Let_def dest!: store_put_ok split: if_splits option.splits)

lemma gen_mono_foldl: "(\<And>w x. gen_mono w (f w x)) \<Longrightarrow> gen_mono w (foldl f w xs)"
  by (induction xs arbitrary: w) (auto intro: gen_mono_trans)

lemma gen_mono_copy_asset:
  assumes "copy_asset d toRepo toRef toSID cid a w = (w', ids, keys, r)"
  shows "gen_mono w w'"
  using assms
proof (cases rule: copy_asset_cases)
  case (ok ref i data w1 row row')
  then show ?thesis using gen_mono_writes(2,3) gen_mono_trans by blast
qed (auto intro: gen_mono_writes(3))

lemma gen_mono_copy_assets:
  "copy_assets d toRepo toRef toSID cid as ids keys w = (w', ids', keys', r) \<Longrightarrow> gen_mono w w'"
proof (induction as arbitrary: w ids keys)
  case (Cons a as)
  obtain w1 ids1 keys1 r1 where c: "copy_asset d toRepo toRef toSID cid a w = (w1, ids1, keys1, r1)" by (cases "copy_asset d toRepo toRef toSID cid a w") auto
  show ?case
  proof (cases r1)
    case (Inl e)
    with Cons.prems c gen_mono_copy_asset[OF c] show ?thesis by simp
  next
    case (Inr u)
    then have "copy_assets d toRepo toRef toSID cid as (ids @ ids1) (keys @ keys1) w1 = (w', ids', keys', r)" using Cons.prems c by simp
    from Cons.IH[OF this] gen_mono_copy_asset[OF c] show ?thesis using gen_mono_trans by blast
  qed
qed simp

lemma gen_mono_executeCopy:
  assumes "executeCopy cel d s cid rule = (w', r)"
  shows "gen_mono (ps_world s) w'"
  using assms
proof (cases rule: executeCopy_run)
  case (copied c toRepo toRef toSID w1 newComp w2 ids keys r2)
  have "gen_mono (ps_world s) w2"
    using gen_mono_writes(1)[OF copied(4)] gen_mono_copy_assets[OF copied(5)] gen_mono_trans by blast
  moreover have "gen_mono w2 (roll_back toRef (c_id newComp) ids keys w2)"
  proof -
    let ?a = "foldl (\<lambda>w i. best_effort w (assets_delete w i 165)) w2 ids"
    let ?b = "foldl (\<lambda>w k. best_effort w (store_delete w toRef k 166)) ?a keys"
    have "gen_mono w2 ?a" by (rule gen_mono_foldl) (rule gen_mono_writes(5))
    moreover have "gen_mono ?a ?b" by (rule gen_mono_foldl) (rule gen_mono_writes(4))
    ultimately have "gen_mono w2 ?b" by (rule gen_mono_trans)
    then show ?thesis
      using gen_mono_trans[OF _ gen_mono_writes(6), of w2 ?b "c_id newComp" 168]
      by (auto simp: roll_back_def Let_def split: sum.splits list.splits)
  qed
  moreover have "gen_mono w2 (w2\<lparr>w_events := ev\<rparr>)" for ev by (simp add: gen_mono_def)
  ultimately show ?thesis using copied(7) gen_mono_trans by (cases r2) (auto split: if_splits)
qed simp

definition requests_ok :: "prom_state \<Rightarrow> bool" where
  "requests_ok s \<longleftrightarrow> distinct (map pq_id (ps_requests s)) \<and> inj (w_gen_id (ps_world s)) \<and>
     pq_id ` set (ps_requests s) \<subseteq> w_gen_id (ps_world s) ` {..<w_seq (ps_world s)}"

text \<open>
  What every step keeps: settled rows do not change, and an id that is gone does not come back.
\<close>

definition requests_kept :: "prom_state \<Rightarrow> prom_state \<Rightarrow> bool" where
  "requests_kept s s' \<longleftrightarrow> gen_mono (ps_world s) (ps_world s') \<and>
     (requests_ok s \<longrightarrow> requests_ok s' \<and>
       (\<forall>q\<in>set (ps_requests s). pq_status q \<noteq> PromotionPending \<longrightarrow> (\<forall>q'\<in>set (ps_requests s'). pq_id q' = pq_id q \<longrightarrow> q' = q)) \<and>
       (\<forall>q'\<in>set (ps_requests s'). pq_id q' \<in> w_gen_id (ps_world s) ` {..<w_seq (ps_world s)} \<longrightarrow> pq_id q' \<in> pq_id ` set (ps_requests s)))"

lemma requests_kept_refl [simp]: "requests_kept s s"
  by (auto simp: requests_kept_def requests_ok_def distinct_map inj_on_def)

lemma requests_kept_trans:
  assumes "requests_kept s s'" "requests_kept s' s''"
  shows "requests_kept s s''"
proof -
  have g: "gen_mono (ps_world s) (ps_world s'')" using assms gen_mono_trans unfolding requests_kept_def by blast
  have sub: "w_gen_id (ps_world s) ` {..<w_seq (ps_world s)} \<subseteq> w_gen_id (ps_world s') ` {..<w_seq (ps_world s')}"
    using assms(1) by (auto simp: requests_kept_def gen_mono_def)
  show ?thesis
    unfolding requests_kept_def
  proof (intro conjI impI g ballI)
    assume ok: "requests_ok s"
    then show "requests_ok s''" using assms unfolding requests_kept_def by blast
    fix q'' assume q'': "q'' \<in> set (ps_requests s'')"
    { assume "pq_id q'' \<in> w_gen_id (ps_world s) ` {..<w_seq (ps_world s)}"
      with q'' ok sub assms show "pq_id q'' \<in> pq_id ` set (ps_requests s)" unfolding requests_kept_def by (smt (verit) imageE subsetD) }
    note old = this
    fix q assume q: "q \<in> set (ps_requests s)" "pq_status q \<noteq> PromotionPending" "pq_id q'' = pq_id q"
    have "pq_id q'' \<in> w_gen_id (ps_world s') ` {..<w_seq (ps_world s')}"
      using ok q(1,3) sub unfolding requests_ok_def by (metis image_eqI subsetD)
    then obtain q' where "q' \<in> set (ps_requests s')" "pq_id q' = pq_id q''"
      using q'' ok assms unfolding requests_kept_def by (metis imageE)
    with q q'' ok assms show "q'' = q" unfolding requests_kept_def by metis
  qed
qed

lemma requests_kept_filter:
  assumes "gen_mono (ps_world s) (ps_world s')" "ps_requests s' = filter p (ps_requests s)"
  shows "requests_kept s s'"
proof -
  have "requests_ok s'" if "requests_ok s"
    using that assms by (auto simp: requests_ok_def gen_mono_def distinct_map_filter_key)
  moreover have "q' = q" if "requests_ok s" "q \<in> set (ps_requests s)" "q' \<in> set (ps_requests s')" "pq_id q' = pq_id q" for q q'
    using that assms(2) by (auto simp: requests_ok_def distinct_map inj_on_def)
  ultimately show ?thesis using assms by (auto simp: requests_kept_def)
qed

lemmas requests_kept_world = requests_kept_filter[where p = "\<lambda>_. True", simplified]

lemma cascade_kept: "gen_mono (ps_world s) w' \<Longrightarrow> requests_kept s (cascade s w')"
  by (rule requests_kept_filter) (simp_all add: cascade_def)

lemma gen_mono_seq: "gen_mono w (w\<lparr>w_seq := Suc (w_seq w)\<rparr>)"
  by (simp add: gen_mono_def)

lemma settle_kept:
  assumes "requests_ok s \<Longrightarrow> \<forall>q\<in>set (ps_requests s). pq_id q = i \<longrightarrow> pq_status q = PromotionPending"
  shows "requests_kept s (settle s i oc)"
proof -
  have ids: "map pq_id (ps_requests (settle s i oc)) = map pq_id (ps_requests s)" "ps_world (settle s i oc) = ps_world s"
    by (simp_all add: settle_def map_upd_where)
  have "q' = q" if q: "requests_ok s" "q \<in> set (ps_requests s)"
    and q': "pq_status q \<noteq> PromotionPending" "pq_id q' = pq_id q" "q' \<in> set (ps_requests (settle s i oc))" for q q'
  proof -
    obtain p where p: "p \<in> set (ps_requests s)" "q' = (if pq_id p = i then p\<lparr>pq_status := oc_status oc, pq_reviewed_by := oc_reviewed_by oc,
        pq_reviewed_at := oc_reviewed_at oc, pq_completed_at := oc_completed_at oc, pq_error := oc_error oc\<rparr> else p)"
      using q'(3) unfolding settle_def by (auto elim!: upd_whereE)
    have "pq_id p = pq_id q" using p(2) q'(2) by (cases "pq_id p = i") simp_all
    then have "p = q" using q p(1) by (auto simp: requests_ok_def distinct_map inj_on_def)
    moreover have "pq_id p \<noteq> i" using assms q q'(1) p(1) \<open>p = q\<close> by blast
    ultimately show ?thesis using p(2) by simp
  qed
  moreover have "pq_id ` set (ps_requests (settle s i oc)) = pq_id ` set (ps_requests s)" using ids(1) by (metis list.set_map)
  ultimately show ?thesis using ids by (auto simp: requests_kept_def requests_ok_def)
qed

lemma lock_kept:
  assumes run: "WithPendingRequestLock s i n fn = (s', r)"
    and fn: "\<And>req s1 oc. fn s req = (s1, oc) \<Longrightarrow>
      gen_mono (ps_world s) (ps_world s1) \<and> (\<exists>p. ps_requests s1 = filter p (ps_requests s))"
  shows "requests_kept s s'"
proof (cases "s' = s")
  case False
  then obtain req where req: "find (\<lambda>q. pq_id q = i) (ps_requests s) = Some req" "pq_status req = PromotionPending"
    using run by (auto simp: WithPendingRequestLock_def row_or_not_found_def guard_io_def split: sum.splits if_splits option.splits)
  obtain s1 oc where s1: "fn s req = (s1, oc)" by (cases "fn s req") auto
  then obtain p where p: "gen_mono (ps_world s) (ps_world s1)" "ps_requests s1 = filter p (ps_requests s)" using fn by blast
  have s': "s' = s1 \<or> s' = settle s1 i oc"
    using run req s1 False by (auto simp: WithPendingRequestLock_def row_or_not_found_def guard_io_def split: if_splits)
  have k1: "requests_kept s s1" using p by (rule requests_kept_filter)
  show ?thesis
  proof (cases "requests_ok s")
    case True
    have "requests_kept s1 (settle s1 i oc)"
    proof (rule settle_kept)
      have "req \<in> set (ps_requests s)" "pq_id req = i" using req(1) by (auto dest: find_SomeD)
      then have "q = req" if "q \<in> set (ps_requests s)" "pq_id q = i" for q
        using that True by (auto simp: requests_ok_def distinct_map inj_on_def)
      then show "\<forall>q\<in>set (ps_requests s1). pq_id q = i \<longrightarrow> pq_status q = PromotionPending" using p(2) req(2) by auto
    qed
    with k1 s' show ?thesis using requests_kept_trans by blast
  next
    case False
    have "gen_mono (ps_world s) (ps_world s')" using s' p(1) by (auto simp: settle_def)
    with False show ?thesis by (simp add: requests_kept_def)
  qed
qed simp

lemma approve_locked_rows:
  assumes "approve_locked cel d rv s req = (s1, oc)"
  shows "gen_mono (ps_world s) (ps_world s1) \<and> (\<exists>p. ps_requests s1 = filter p (ps_requests s))"
proof (cases "prom_get_rule s (pq_rule_id req) 180")
  case (Inl e)
  then have "s1 = s" using assms by (simp add: approve_locked_def Let_def)
  moreover have "ps_requests s = filter (\<lambda>_. True) (ps_requests s)" by simp
  ultimately show ?thesis by (metis gen_mono_refl)
next
  case (Inr rule)
  obtain w1 r where c: "executeCopy cel d s (pq_component_id req) rule = (w1, r)" by (cases "executeCopy cel d s (pq_component_id req) rule") auto
  have "s1 = cascade s w1" using assms Inr c by (auto simp: approve_locked_def Let_def split: sum.splits)
  then show ?thesis using gen_mono_executeCopy[OF c] by (auto simp: cascade_def)
qed

lemma approve_kept: "Approve cel d s i rv = (s', r) \<Longrightarrow> requests_kept s s'"
  by (auto simp: Approve_def split: prod.splits sum.splits option.splits if_splits
      intro!: lock_kept dest: approve_locked_rows)

lemma reject_kept:
  assumes "Reject s i rv reason = (s', r)"
  shows "requests_kept s s'"
proof -
  obtain r1 where "WithPendingRequestLock s i 184 (\<lambda>s _. (s, \<lparr>oc_status = PromotionRejected, oc_reviewed_by = Some rv,
          oc_reviewed_at = Some (w_now (ps_world s)), oc_completed_at = None,
          oc_error = (if reason = [] then None else Some (ErrMsg reason))\<rparr>)) = (s', r1)"
    using assms by (auto simp: Reject_def split: prod.splits sum.splits if_splits)
  then show ?thesis
    by (rule lock_kept) (auto intro: exI[of _ "\<lambda>_. True"])
qed

lemma create_request_kept:
  assumes "prom_create_request s q n = Inr (s', row)"
  shows "requests_kept s s'"
proof -
  let ?w = "ps_world s"
  have s': "s' = s\<lparr>ps_world := ?w\<lparr>w_seq := Suc (w_seq ?w)\<rparr>, ps_requests := ps_requests s @ [row]\<rparr>" "pq_id row = w_gen_id ?w (w_seq ?w)"
    using assms by (auto simp: prom_create_request_def Let_def guard_io_def split: if_splits)
  have new: "pq_id row \<notin> w_gen_id ?w ` {..<w_seq ?w}" if "requests_ok s"
    using that s'(2) by (auto simp: requests_ok_def inj_def)
  then have fresh: "pq_id row \<notin> pq_id ` set (ps_requests s)" if "requests_ok s" using that unfolding requests_ok_def by blast
  have "requests_ok s'" if "requests_ok s"
    using that fresh s' by (auto simp: requests_ok_def lessThan_Suc)
  moreover have "q' = q" if "requests_ok s" "q \<in> set (ps_requests s)" "q' \<in> set (ps_requests s')" "pq_id q' = pq_id q" for q q'
    using that fresh s'(1) by (auto simp: requests_ok_def distinct_map inj_on_def)
  ultimately show ?thesis using s'(1) gen_mono_seq new unfolding requests_kept_def by auto
qed

lemma promote_loop_kept:
  "promote_loop cel d rule user cids s acc = (s', r) \<Longrightarrow> requests_kept s s'"
proof (induction cids arbitrary: s acc)
  case (Cons cid cids)
  let ?q = "\<lparr>pq_id = [], pq_rule_id = pr_id rule, pq_component_id = cid, pq_status = PromotionPending,
          pq_requested_by = user, pq_reviewed_by = None, pq_reviewed_at = None, pq_completed_at = None, pq_error = None,
          pq_created_at = 0\<rparr>"
  show ?case
  proof (cases "prom_create_request s ?q 193")
    case (Inl e)
    with Cons.prems show ?thesis by simp
  next
    case (Inr p)
    obtain s1 req where p: "p = (s1, req)" by (cases p)
    have k1: "requests_kept s s1" using create_request_kept Inr p by blast
    note body = Cons.prems[unfolded promote_loop.simps Inr p sum.case prod.case]
    show ?thesis
    proof (cases "pr_require_manual_approval rule")
      case True
      then have "promote_loop cel d rule user cids s1 (acc @ [req]) = (s', r)" using body by simp
      from requests_kept_trans[OF k1 Cons.IH[OF this]] show ?thesis .
    next
      case False
      obtain s2 r2 where l: "WithPendingRequestLock s1 (pq_id req) 194 (approve_locked cel d None) = (s2, r2)"
        by (cases "WithPendingRequestLock s1 (pq_id req) 194 (approve_locked cel d None)") auto
      have "requests_kept s1 s2" by (rule lock_kept[OF l]) (rule approve_locked_rows)
      moreover have "requests_kept s2 s'" using body False l Cons.IH by (auto split: sum.splits)
      ultimately show ?thesis using k1 requests_kept_trans by blast
    qed
  qed
qed simp

lemma promote_kept:
  assumes "Promote cel d s i cids user = (s', r)"
  shows "requests_kept s s'"
proof -
  from assms consider "s' = s" | rule where "promote_loop cel d rule user cids s [] = (s', r)"
    by (simp add: Promote_def split: sum.splits)
  then show ?thesis by cases (simp, rule promote_loop_kept)
qed

lemma rule_kept:
  "CreatePromotionRule cel s rl = (s', r) \<Longrightarrow> requests_kept s s'"
  "UpdatePromotionRule cel s rl = (s', r) \<Longrightarrow> requests_kept s s'"
  "DeletePromotionRule s i = (s', r) \<Longrightarrow> requests_kept s s'"
  by (auto simp: CreatePromotionRule_def UpdatePromotionRule_def DeletePromotionRule_def prom_create_rule_def prom_update_rule_def
      prom_delete_rule_def guard_io_def Let_def gen_mono_seq split: sum.splits if_splits intro: requests_kept_world requests_kept_filter)

text \<open>
  A step is a call of the service, a scan, or anything clients do to the tables the world holds;
  the database draws ids from one generator and takes dependent rows along.
\<close>

inductive prom_step :: "'p cel \<Rightarrow> deps \<Rightarrow> prom_state \<Rightarrow> prom_state \<Rightarrow> bool" for cel d where
  approve: "Approve cel d s i reviewer = (s', r) \<Longrightarrow> prom_step cel d s s'"
| reject: "Reject s i reviewer reason = (s', r) \<Longrightarrow> prom_step cel d s s'"
| promote: "Promote cel d s ruleID cids user = (s', rs) \<Longrightarrow> prom_step cel d s s'"
| create_rule: "CreatePromotionRule cel s rl = (s', r) \<Longrightarrow> prom_step cel d s s'"
| update_rule: "UpdatePromotionRule cel s rl = (s', r) \<Longrightarrow> prom_step cel d s s'"
| delete_rule: "DeletePromotionRule s i = (s', r) \<Longrightarrow> prom_step cel d s s'"
| scan: "prom_step cel d s (persistScanRow s (scan_row_of (ps_world s) c severities))"
| client: "gen_mono (ps_world s) w \<Longrightarrow> prom_step cel d s (cascade s w)"

lemma scan_kept: "requests_kept s (persistScanRow s row)"
  by (rule requests_kept_world) (simp_all add: persistScanRow_def)

lemma prom_step_kept:
  assumes "prom_step cel d s s'"
  shows "requests_kept s s'"
  using assms
proof (cases rule: prom_step.cases)
  case scan
  then show ?thesis using scan_kept by simp
next
  case client
  then show ?thesis using cascade_kept by simp
qed (blast intro: approve_kept reject_kept promote_kept rule_kept)+

lemma prom_steps_kept: "(prom_step cel d)\<^sup>*\<^sup>* s s' \<Longrightarrow> requests_kept s s'"
  by (induction rule: rtranclp_induct) (auto intro: requests_kept_trans prom_step_kept)

lemma find_request:
  assumes "requests_ok s" "q \<in> set (ps_requests s)"
  shows "find (\<lambda>p. pq_id p = pq_id q) (ps_requests s) = Some q"
  using assms find_key_unique[of pq_id "ps_requests s" q] by (simp add: requests_ok_def)

text \<open>
  C9.
  A settled request is final. Once a request is completed, failed or rejected, no sequence of
  service calls, scans and client operations changes its row; and as long as the row exists,
  approving or rejecting it again is refused and changes nothing at all, so a request is settled at most
  once and its copy cannot be replayed.
\<close>

theorem settled_requests_final:
  assumes "requests_ok s" "q \<in> set (ps_requests s)" "pq_status q \<noteq> PromotionPending"
    and "(prom_step cel d)\<^sup>*\<^sup>* s s'" "q' \<in> set (ps_requests s')" "pq_id q' = pq_id q"
  shows "q' = q \<and> (\<exists>e. Approve cel d s' (pq_id q) reviewer = (s', Inl e)) \<and>
    (\<exists>e. Reject s' (pq_id q) reviewer reason = (s', Inl e))"
proof -
  note kept = prom_steps_kept[OF assms(4)]
  have "q' = q" "requests_ok s'" using kept assms unfolding requests_kept_def by blast+
  then have "find (\<lambda>p. pq_id p = pq_id q) (ps_requests s') = Some q" using find_request assms(5) by blast
  then have "\<exists>e. WithPendingRequestLock s' (pq_id q) n fn = (s', Inl e)" for n fn
    using assms(3) by (auto simp: WithPendingRequestLock_def row_or_not_found_def guard_io_def)
  then have lock: "\<exists>e. WithPendingRequestLock s' (pq_id q) 181 fn = (s', Inl e)" "\<exists>e. WithPendingRequestLock s' (pq_id q) 184 fn = (s', Inl e)" for fn by blast+
  from lock(1) have "\<exists>e. Approve cel d s' (pq_id q) reviewer = (s', Inl e)"
    unfolding Approve_def by (smt (verit) old.prod.case old.sum.simps(5))
  moreover have "\<exists>e. Reject s' (pq_id q) reviewer reason = (s', Inl e)"
    unfolding Reject_def using lock(2) by (smt (verit) old.prod.case old.sum.simps(5))
  ultimately show ?thesis using \<open>q' = q\<close> by blast
qed

section \<open>A failed scan\<close>

lemma insort_key_snoc: "f y \<le> f x \<Longrightarrow> insort_key f y (ys @ [x]) = insort_key f y ys @ [x]"
  by (induction ys) auto

lemma sort_key_snoc_last: "\<forall>y\<in>set xs. f y \<le> f x \<Longrightarrow> last (sort_key f (xs @ [x])) = x"
proof -
  assume "\<forall>y\<in>set xs. f y \<le> f x"
  then have "sort_key f (xs @ [x]) = sort_key f xs @ [x]" by (induction xs) (simp_all add: insort_key_snoc)
  then show ?thesis by simp
qed

text \<open>
  A failed scan opens the gate. After a scan found critical vulnerabilities the gate refuses the component; when the
  next scan cannot reach the vulnerability database, the row it stores has status failed and zero
  counts, it is the newest row, and the gate, which never looks at the status, lets the component through.
\<close>

lemma failed_scan_opens_gate:
  assumes "w_fault (ps_world s) = no_faults" "\<forall>r\<in>set (ps_scans s). sc_scanned_at r < w_now (ps_world s)"
  shows "scanGate (persistScanRow s (scan_row_of (ps_world s) c (Inl e))) rule (c_id c) n = Inr ()"
proof -
  let ?row = "scan_row_of (ps_world s) c (Inl e)"
  let ?rows = "filter (\<lambda>r. sc_component_id r = c_id c) (ps_scans s)"
  have row: "sc_component_id ?row = c_id c" "sc_scanned_at ?row = w_now (ps_world s)" "sc_malicious ?row = 0" "sc_critical ?row = 0" "sc_high ?row = 0"
    by (simp_all add: scan_row_of_def)
  have scans: "ps_scans (persistScanRow s ?row) = ps_scans s @ [?row]" "ps_world (persistScanRow s ?row) = ps_world s"
    using assms(1) by (simp_all add: persistScanRow_def)
  have "\<forall>r\<in>set ?rows. sc_scanned_at r \<le> sc_scanned_at ?row" using assms(2) row(2) by auto
  then have "last (sort_key sc_scanned_at (?rows @ [?row])) = ?row" by (rule sort_key_snoc_last)
  then have "scans_get_latest_by_component (persistScanRow s ?row) (c_id c) n = Inr ?row"
    using scans row(1) assms(1) by (simp add: scans_get_latest_by_component_def guard_io_def Let_def)
  with row show ?thesis by (simp add: scanGate_def)
qed

section \<open>Quotas\<close>

lemma executeCopy_blobs:
  assumes "executeCopy cel d s cid rule = (w', Inr ())" "db_ok (ps_world s)"
  shows "w_blobs w' = w_blobs (ps_world s)"
  using assms(1)
proof (cases rule: executeCopy_run)
  case (copied c toRepo toRef toSID w1 newComp w2 ids keys r2)
  have "db_ok w1" "w_blobs w1 = w_blobs (ps_world s)"
    using db_step_components_create[OF copied(4)] assms(2) copied(4)
    by (auto simp: db_step_def components_create_def Let_def split: if_splits option.splits)
  with copy_assets_frame[OF copied(5)] copied(6,7) show ?thesis by auto
qed simp

section \<open>A sample promotion\<close>

text \<open>
  The sample installation with a release repository on a second store, one rule that demands an
  approval and a clean scan, a clean scan row, and a request pending.
\<close>

definition demo_cel :: "string cel" where
  "demo_cel = \<lparr>cel_compile = Inr, cel_output_bool = (\<lambda>_. True), cel_eval = (\<lambda>p (f, path, r). Inr (f = p))\<rparr>"

definition demo_release :: repository where
  "demo_release = demo_repo\<lparr>r_id := ''r2'', r_name := ''rel'', r_blob_store_id := Some ''b2''\<rparr>"

definition demo_release_store :: blob_store where
  "demo_release_store = \<lparr>bs_id = ''b2'', bs_name = ''second'', bs_type = ''local'', bs_config = [], bs_quota_bytes = Some 4, bs_used_bytes = 0\<rparr>"

definition demo_rule :: promotion_rule where
  "demo_rule = \<lparr>pr_id = ''p1'', pr_name = ''release'', pr_from_repo = ''raw'', pr_to_repo = ''rel'', pr_path_filter = ''raw'',
     pr_require_scan_pass = True, pr_require_manual_approval = True\<rparr>"

definition demo_prom_world :: world where
  "demo_prom_world = demo_world\<lparr>w_repos := [demo_repo, demo_release], w_blobs := [demo_store, demo_release_store], w_seq := 4\<rparr>"

definition demo_request :: promotion_request where
  "demo_request = \<lparr>pq_id = ''xxxx'', pq_rule_id = ''p1'', pq_component_id = ''x'', pq_status = PromotionPending, pq_requested_by = ''alice'',
     pq_reviewed_by = None, pq_reviewed_at = None, pq_completed_at = None, pq_error = None, pq_created_at = 90\<rparr>"

definition demo_prom :: prom_state where
  "demo_prom = \<lparr>ps_world = demo_prom_world, ps_rules = [demo_rule], ps_requests = [demo_request],
     ps_scans = [scan_row_of demo_prom_world demo_comp (Inr [''LOW''])]\<rparr>"

lemma demo_prom_db_ok: "db_ok demo_prom_world"
proof -
  have "{..<4::nat} = {0, 1, 2, 3}" by auto
  with inj_replicate[of "CHR ''x''"] show ?thesis
    by (simp add: db_ok_def demo_prom_world_def demo_world_def demo_store_def demo_release_store_def demo_repo_def demo_release_def
        demo_comp_def demo_asset_def new_component_def new_asset_def numeral_eq_Suc)
qed

lemma demo_requests_ok: "requests_ok demo_prom"
proof -
  have "w_gen_id demo_prom_world = (\<lambda>n. replicate (Suc n) CHR ''x'')" by (simp add: demo_prom_world_def demo_world_def)
  then have "inj (w_gen_id demo_prom_world)" using inj_replicate[of "CHR ''x''"] by simp
  moreover have "w_gen_id demo_prom_world 3 = ''xxxx''" "w_seq demo_prom_world = 4" by (simp_all add: demo_prom_world_def demo_world_def numeral_eq_Suc)
  ultimately show ?thesis by (auto simp: requests_ok_def demo_prom_def demo_request_def intro!: image_eqI[of _ _ 3])
qed

definition demo_approval :: "prom_state \<times> unit result" where
  "demo_approval = Approve demo_cel demo_deps demo_prom ''xxxx'' ''bob''"

lemma demo_approval_ok: "demo_approval = (fst demo_approval, Inr ())"
proof -
  have "snd demo_approval = Inr ()" by code_simp
  then show ?thesis by (metis prod.collapse)
qed

theorem Approve_gates_witness:
  "\<exists>q\<in>set (ps_requests (fst demo_approval)). pq_id q = ''xxxx'' \<and> pq_status q = PromotionCompleted"
proof -
  have "map pq_id (ps_requests (fst demo_approval)) = [''xxxx'']" by code_simp
  then obtain q where q: "q \<in> set (ps_requests (fst demo_approval))" "pq_id q = ''xxxx''" by auto
  with Approve_gates[OF demo_approval_ok[unfolded demo_approval_def], folded demo_approval_def] show ?thesis by blast
qed

definition demo_copy :: "world \<times> unit result" where
  "demo_copy = executeCopy demo_cel demo_deps demo_prom ''x'' demo_rule"

text \<open>
  Promotion does not account for what it stores: a copy leaves every usage counter as it was
  (\<open>executeCopy_blobs\<close>), and here it puts six bytes into a store whose quota is four.
\<close>

lemma promotion_ignores_quota:
  "snd demo_copy = Inr () \<and> w_blobs (fst demo_copy) = [demo_store, demo_release_store] \<and>
   (\<Sum>(k, b)\<leftarrow>w_phys (fst demo_copy) (StoreOf ''b2''). blob_size b) > 4 \<and> bs_quota_bytes demo_release_store = Some 4"
proof (intro conjI)
  show "snd demo_copy = Inr ()" by code_simp
  show "w_blobs (fst demo_copy) = [demo_store, demo_release_store]" by code_simp
  show "(\<Sum>(k, b)\<leftarrow>w_phys (fst demo_copy) (StoreOf ''b2''). blob_size b) > 4" by code_simp
  show "bs_quota_bytes demo_release_store = Some 4" by code_simp
qed

theorem executeCopy_fetch_witness:
  "\<exists>w'' row. FetchArtifact demo_deps (fst demo_copy) ''rel'' ''b.txt'' = (w'', Inr (''abc'', row))"
proof -
  have "snd demo_copy = Inr ()" by code_simp
  then have copy: "executeCopy demo_cel demo_deps demo_prom ''x'' demo_rule = (fst demo_copy, Inr ())"
    unfolding demo_copy_def by (metis prod.collapse)
  have w: "ps_world demo_prom = demo_prom_world" "w_fault demo_prom_world = no_faults"
    "w_assets demo_prom_world = [demo_asset ''xx'' ''a.txt'', demo_asset ''xxx'' ''b.txt'']"
    by (simp_all add: demo_prom_def demo_prom_world_def demo_world_def)
  have t: "repos_get demo_prom_world (pr_to_repo demo_rule) 173 = Inr demo_release"
    "resolveStore demo_prom_world (r_blob_store_id demo_release) 174 = Inr (StoreOf ''b2'', ''b2'')" by code_simp+
  have "keys_apart demo_deps (r_name demo_release) (filter (\<lambda>a. a_component_id a = ''x'') (w_assets demo_prom_world))" by code_simp
  moreover have "asset_data demo_prom_world (demo_asset ''xxx'' ''b.txt'') = Some ''abc''" by code_simp
  moreover have "pr_to_repo demo_rule = ''rel''" "d_registry demo_deps" by (simp_all add: demo_rule_def demo_deps_def)
  ultimately show ?thesis
    using executeCopy_fetch[of demo_prom demo_deps demo_cel "''x''" demo_rule "fst demo_copy" demo_release "StoreOf ''b2''" "''b2''" "''r1''" "demo_asset ''xxx'' ''b.txt''"]
      copy t demo_prom_db_ok w by (auto simp: demo_asset_def new_asset_def demo_repo_def)
qed



theorem settled_requests_final_witness:
  "\<exists>e. Approve demo_cel demo_deps (fst demo_approval) ''xxxx'' ''mallory'' = (fst demo_approval, Inl e)"
proof -
  have step: "prom_step demo_cel demo_deps demo_prom (fst demo_approval)"
    using demo_approval_ok unfolding demo_approval_def by (rule prom_step.approve)
  have ok: "requests_ok (fst demo_approval)"
    using prom_step_kept[OF step] demo_requests_ok unfolding requests_kept_def by blast
  have "map (\<lambda>q. (pq_id q, pq_status q)) (ps_requests (fst demo_approval)) = [(''xxxx'', PromotionCompleted)]" by code_simp
  then obtain q where q: "q \<in> set (ps_requests (fst demo_approval))" "pq_id q = ''xxxx''" "pq_status q \<noteq> PromotionPending" by auto
  from settled_requests_final[OF ok q(1,3) rtranclp.rtrancl_refl q(1) refl] q(2) show ?thesis by metis
qed

lemma failed_scan_opens_gate_witness:
  "\<exists>s. scanGate s demo_rule ''x'' 0 \<noteq> Inr () \<and> scanGate (persistScanRow s (scan_row_of (ps_world s) demo_comp (Inl ErrIO))) demo_rule ''x'' 0 = Inr ()"
proof -
  let ?s = "demo_prom\<lparr>ps_scans := [(scan_row_of demo_prom_world demo_comp (Inr [''CRITICAL'']))\<lparr>sc_scanned_at := 50\<rparr>]\<rparr>"
  have "scanGate ?s demo_rule ''x'' 0 \<noteq> Inr ()" by code_simp
  moreover have "w_fault (ps_world ?s) = no_faults" by (simp add: demo_prom_def demo_prom_world_def demo_world_def)
  moreover have "c_id demo_comp = ''x''" by code_simp
  moreover have "\<forall>r\<in>set (ps_scans ?s). sc_scanned_at r < w_now (ps_world ?s)"
    by (simp add: demo_prom_def demo_prom_world_def demo_world_def)
  ultimately show ?thesis using failed_scan_opens_gate[of ?s demo_comp ErrIO demo_rule 0] by metis
qed

end
