(* ===== verification/Append_Stores.thy ===== *)
theory Append_Stores
  imports Storage
begin

text \<open>
  The \<^verbatim>\<open>AppendableBlobStore\<close> extension of \<^verbatim>\<open>internal/storage\<close>: blobs that grow in place. The
  interface is a record of calls with a contract, a locale; the providers are the local disk
  (\<^verbatim>\<open>local.go\<close>) and the multipart implementation on S3 (\<^verbatim>\<open>s3_append.go\<close>). The S3 service is a
  parameter, the record \<open>s3_client\<close>, and the locale \<open>s3_service\<close> states what its documentation
  promises of the calls the code makes.
\<close>

section \<open>Readers\<close>

text \<open>
  A request body: what the successive \<^verbatim>\<open>Read\<close> calls return, and whether they end in \<^verbatim>\<open>io.EOF\<close> or in
  an error.
\<close>

type_synonym reader = "string list \<times> err option"

definition read_all :: "reader \<Rightarrow> string" where
  "read_all r = concat (fst r)"

fun cut :: "nat \<Rightarrow> string list \<Rightarrow> string list" where
  "cut n [] = []"
| "cut n (w # ws) = (if n = 0 then [] else take n w # cut (n - length w) ws)"

text \<open>\<^verbatim>\<open>io.LimitReader\<close> ends in \<^verbatim>\<open>io.EOF\<close> as soon as the budget is used up.\<close>

definition limit_reader :: "nat \<Rightarrow> reader \<Rightarrow> reader" where
  "limit_reader n r = (cut n (fst r), if n \<le> length (read_all r) then None else snd r)"

lemma concat_cut: "concat (cut n ws) = take n (concat ws)"
  by (induction n ws rule: cut.induct) auto

lemma read_all_limit: "read_all (limit_reader n r) = take n (read_all r)"
  by (simp add: read_all_def limit_reader_def concat_cut)

section \<open>The interface\<close>

text \<open>The number at the end of each call is its site, as in the fault plans.\<close>

record 's appendable =
  ap_append :: "'s \<Rightarrow> string \<Rightarrow> reader \<Rightarrow> nat \<Rightarrow> 's \<times> int result"
  ap_truncate :: "'s \<Rightarrow> string \<Rightarrow> int \<Rightarrow> nat \<Rightarrow> 's \<times> unit result"
  ap_size :: "'s \<Rightarrow> string \<Rightarrow> nat \<Rightarrow> (int \<times> bool) result"
  ap_finalize :: "'s \<Rightarrow> string \<Rightarrow> nat \<Rightarrow> 's \<times> unit result"
  ap_abort :: "'s \<Rightarrow> string \<Rightarrow> nat \<Rightarrow> 's \<times> unit result"

record 's blob_api =
  ba_put :: "'s \<Rightarrow> string \<Rightarrow> string \<Rightarrow> nat \<Rightarrow> 's \<times> unit result"
  ba_get :: "'s \<Rightarrow> string \<Rightarrow> nat \<Rightarrow> string result"
  ba_exists :: "'s \<Rightarrow> string \<Rightarrow> nat \<Rightarrow> bool result"
  ba_size :: "'s \<Rightarrow> string \<Rightarrow> nat \<Rightarrow> int result"
  ba_delete :: "'s \<Rightarrow> string \<Rightarrow> nat \<Rightarrow> 's \<times> unit result"
  ba_append :: "'s appendable option"

text \<open>
  The contract. \<open>content\<close> is what the caller has handed over at a key, \<open>visible\<close> what a \<^verbatim>\<open>Get\<close> returns,
  \<open>sound\<close> that the backend's bookkeeping for the key is intact. A call that reports an error may have
  been carried out in part.
\<close>

locale staging_store =
  fixes api :: "'s blob_api"
    and sound :: "'s \<Rightarrow> string \<Rightarrow> bool"
    and content :: "'s \<Rightarrow> string \<Rightarrow> string option"
    and visible :: "'s \<Rightarrow> string \<Rightarrow> string option"
  assumes put_other: "ba_put api s k d n = (s', r) \<Longrightarrow> k' \<noteq> k \<Longrightarrow> sound s k' \<Longrightarrow> sound s' k' \<and> content s' k' = content s k'"
    and put_content: "ba_put api s k d n = (s', r) \<Longrightarrow> sound s k \<Longrightarrow> content s k = None \<or> ba_append api = None \<Longrightarrow>
      sound s' k \<and> (case r of Inr _ \<Rightarrow> content s' k = Some d | Inl _ \<Rightarrow> content s' k \<in> {content s k, Some d})"
    and get_visible: "ba_get api s k n = Inr d \<Longrightarrow> visible s k = Some d"
    and plain_visible: "ba_append api = None \<Longrightarrow> visible s k = content s k"
    and exists_content: "ba_append api = None \<Longrightarrow> ba_exists api s k n = Inr b \<Longrightarrow> b \<longleftrightarrow> content s k \<noteq> None"
    and size_content: "ba_append api = None \<Longrightarrow> ba_size api s k n = Inr z \<Longrightarrow> map_option (\<lambda>c. int (length c)) (content s k) = Some z"
    and delete_other: "ba_delete api s k n = (s', r) \<Longrightarrow> k' \<noteq> k \<Longrightarrow> sound s k' \<Longrightarrow> sound s' k' \<and> content s' k' = content s k'"
    and append_other: "ba_append api = Some ap \<Longrightarrow> ap_append ap s k rd n = (s', ra) \<Longrightarrow> k' \<noteq> k \<Longrightarrow> sound s k' \<Longrightarrow>
      sound s' k' \<and> content s' k' = content s k'"
    and append_content: "ba_append api = Some ap \<Longrightarrow> ap_append ap s k rd n = (s', ra) \<Longrightarrow> sound s k \<Longrightarrow> content s k = Some old \<Longrightarrow>
      sound s' k \<and> (case ra of Inr t \<Rightarrow> snd rd = None \<and> content s' k = Some (old @ read_all rd) \<and> t = int (length (old @ read_all rd))
        | Inl _ \<Rightarrow> \<exists>j. content s' k = Some (old @ take j (read_all rd)))"
    and truncate_other: "ba_append api = Some ap \<Longrightarrow> ap_truncate ap s k z n = (s', r) \<Longrightarrow> k' \<noteq> k \<Longrightarrow> sound s k' \<Longrightarrow>
      sound s' k' \<and> content s' k' = content s k'"
    and truncate_content: "ba_append api = Some ap \<Longrightarrow> ap_truncate ap s k (int m) n = (s', r) \<Longrightarrow> sound s k \<Longrightarrow> content s k = Some old \<Longrightarrow>
      m \<le> length old \<Longrightarrow> sound s' k \<and>
      (case r of Inr _ \<Rightarrow> content s' k = Some (take m old) | Inl _ \<Rightarrow> content s' k \<in> {Some old, Some (take m old)})"
    and appended_size: "ba_append api = Some ap \<Longrightarrow> ap_size ap s k n = Inr (z, b) \<Longrightarrow> sound s k \<Longrightarrow>
      (case content s k of Some c \<Rightarrow> b \<and> z = int (length c) | None \<Rightarrow> \<not> b)"
    and finalize_other: "ba_append api = Some ap \<Longrightarrow> ap_finalize ap s k n = (s', r) \<Longrightarrow> k' \<noteq> k \<Longrightarrow> sound s k' \<Longrightarrow>
      sound s' k' \<and> content s' k' = content s k'"
    and finalize_content: "ba_append api = Some ap \<Longrightarrow> ap_finalize ap s k n = (s', Inr ()) \<Longrightarrow> sound s k \<Longrightarrow> content s k = Some c \<Longrightarrow>
      sound s' k \<and> content s' k = Some c \<and> visible s' k = Some c"
    and abort_other: "ba_append api = Some ap \<Longrightarrow> ap_abort ap s k n = (s', r) \<Longrightarrow> k' \<noteq> k \<Longrightarrow> sound s k' \<Longrightarrow>
      sound s' k' \<and> content s' k' = content s k'"

section \<open>The local disk\<close>

text \<open>
  \<^verbatim>\<open>io.Copy\<close> onto the file opened for appending: each window that was written stays written. The
  plan says at which window the disk fails.
\<close>

definition local_extend :: "world \<Rightarrow> store_ref \<Rightarrow> string \<Rightarrow> string \<Rightarrow> world" where
  "local_extend w ref k d =
     set_store w ref (put_blob (w_phys w ref) k
       \<lparr>b_data = (case store_blob w ref k of Some b \<Rightarrow> b_data b | None \<Rightarrow> []) @ d, b_mod_time = w_now w\<rparr>)"

fun local_copy :: "world \<Rightarrow> store_ref \<Rightarrow> string \<Rightarrow> string list \<Rightarrow> nat \<Rightarrow> world \<times> unit result" where
  "local_copy w ref k [] n = (w, Inr ())"
| "local_copy w ref k (d # ds) n =
     (if w_fault w ''Store.Append.ENOSPC'' k n then (w, Inl (Wrapped ''no space'' ErrNoSpace))
      else if w_fault w ''Store.Append.Write'' k n then (w, Inl ErrIO)
      else local_copy (local_extend w ref k d) ref k ds (Suc n))"

definition local_AppendBlob :: "store_ref \<Rightarrow> world \<Rightarrow> string \<Rightarrow> reader \<Rightarrow> nat \<Rightarrow> world \<times> int result" where
  "local_AppendBlob ref w k r n =
     (if w_fault w ''Store.Append.Open'' k n then (w, Inl ErrIO)
      else (case local_copy (local_extend w ref k []) ref k (fst r) n of
          (w1, Inl e) \<Rightarrow> (w1, Inl e)
        | (w1, Inr _) \<Rightarrow>
            (case snd r of
               Some e \<Rightarrow> (w1, Inl e)
             | None \<Rightarrow>
                 if w_fault w ''Store.Append.Stat'' k n \<or> w_fault w ''Store.Append.Close'' k n then (w1, Inl ErrIO)
                 else (w1, case store_blob w1 ref k of Some b \<Rightarrow> Inr (blob_size b) | None \<Rightarrow> Inl ErrIO))))"

text \<open>\<^verbatim>\<open>os.Truncate\<close>: a missing file and a negative size are errors, a longer size pads with zero bytes.\<close>

definition local_TruncateBlob :: "store_ref \<Rightarrow> world \<Rightarrow> string \<Rightarrow> int \<Rightarrow> nat \<Rightarrow> world \<times> unit result" where
  "local_TruncateBlob ref w k m n =
     (case store_blob w ref k of
        None \<Rightarrow> (w, Inl ErrIO)
      | Some b \<Rightarrow>
          if m < 0 \<or> w_fault w ''Store.Truncate'' k n then (w, Inl ErrIO)
          else (set_store w ref (put_blob (w_phys w ref) k
                  \<lparr>b_data = take (nat m) (b_data b) @ replicate (nat m - length (b_data b)) (CHR 0x00), b_mod_time = w_now w\<rparr>), Inr ()))"

definition local_AppendedSize :: "store_ref \<Rightarrow> world \<Rightarrow> string \<Rightarrow> nat \<Rightarrow> (int \<times> bool) result" where
  "local_AppendedSize ref w k n =
     (case store_exists w ref k n of
        Inl e \<Rightarrow> Inl e
      | Inr False \<Rightarrow> Inr (0, False)
      | Inr True \<Rightarrow> (case store_size w ref k n of Inl e \<Rightarrow> Inl e | Inr m \<Rightarrow> Inr (m, True)))"

definition local_appendable :: "store_ref \<Rightarrow> world appendable" where
  "local_appendable ref =
     \<lparr>ap_append = local_AppendBlob ref, ap_truncate = local_TruncateBlob ref, ap_size = local_AppendedSize ref,
      ap_finalize = (\<lambda>w k n. (w, Inr ())), ap_abort = (\<lambda>w k n. (w, Inr ()))\<rparr>"

definition after :: "world \<Rightarrow> world result \<Rightarrow> world \<times> unit result" where
  "after w r = (case r of Inl e \<Rightarrow> (w, Inl e) | Inr w' \<Rightarrow> (w', Inr ()))"

definition local_api :: "store_ref \<Rightarrow> world blob_api" where
  "local_api ref =
     \<lparr>ba_put = (\<lambda>w k d n. after w (store_put w ref k d n)), ba_get = (\<lambda>w k n. store_get w ref k n),
      ba_exists = (\<lambda>w k n. store_exists w ref k n), ba_size = (\<lambda>w k n. store_size w ref k n),
      ba_delete = (\<lambda>w k n. after w (store_delete w ref k n)), ba_append = Some (local_appendable ref)\<rparr>"

lemma data_at_extend: "data_at (local_extend w ref k d) ref k' =
    (if k' = k then Some ((case data_at w ref k of Some c \<Rightarrow> c | None \<Rightarrow> []) @ d) else data_at w ref k')"
  by (auto simp: local_extend_def data_at_def store_blob_def bs.get_put split: option.splits)

lemma data_at_local_copy:
  assumes "local_copy w ref k ds n = (w', r)" "data_at w ref k = Some c"
  shows "(k' \<noteq> k \<longrightarrow> data_at w' ref k' = data_at w ref k') \<and>
    (case r of Inr _ \<Rightarrow> data_at w' ref k = Some (c @ concat ds) | Inl _ \<Rightarrow> \<exists>j. data_at w' ref k = Some (c @ take j (concat ds)))"
  using assms
proof (induction w ref k ds n arbitrary: c rule: local_copy.induct)
  case (2 w ref k d ds n)
  show ?case
  proof (cases "w_fault w ''Store.Append.ENOSPC'' k n \<or> w_fault w ''Store.Append.Write'' k n")
    case True
    then have "w' = w" "\<exists>e. r = Inl e" using 2(2) by (auto split: if_splits)
    with 2(3) show ?thesis by (auto intro: exI[of _ 0])
  next
    case False
    then have "local_copy (local_extend w ref k d) ref k ds (Suc n) = (w', r)" using 2(2) by simp
    moreover have "data_at (local_extend w ref k d) ref k = Some (c @ d)" using 2(3) by (simp add: data_at_extend)
    ultimately have IH: "(k' \<noteq> k \<longrightarrow> data_at w' ref k' = data_at (local_extend w ref k d) ref k') \<and>
      (case r of Inr _ \<Rightarrow> data_at w' ref k = Some ((c @ d) @ concat ds) | Inl _ \<Rightarrow> \<exists>j. data_at w' ref k = Some ((c @ d) @ take j (concat ds)))"
      using 2(1) False by blast
    show ?thesis
    proof (cases r)
      case (Inl e)
      with IH obtain j where "data_at w' ref k = Some ((c @ d) @ take j (concat ds))" by auto
      then have "data_at w' ref k = Some (c @ take (length d + j) (concat (d # ds)))" by simp
      then have "\<exists>i. data_at w' ref k = Some (c @ take i (concat (d # ds)))" ..
      moreover have "k' \<noteq> k \<longrightarrow> data_at w' ref k' = data_at w ref k'" using IH by (simp add: data_at_extend)
      ultimately show ?thesis using Inl by simp
    qed (use IH in \<open>auto simp: data_at_extend\<close>)
  qed
qed auto

lemma local_append_data:
  assumes "local_AppendBlob ref w k rd n = (w', r)"
  shows "k' \<noteq> k \<Longrightarrow> data_at w' ref k' = data_at w ref k'"
    and "data_at w ref k = Some old \<Longrightarrow>
      (case r of Inr t \<Rightarrow> snd rd = None \<and> data_at w' ref k = Some (old @ read_all rd) \<and> t = int (length (old @ read_all rd))
        | Inl _ \<Rightarrow> \<exists>j. data_at w' ref k = Some (old @ take j (read_all rd)))"
proof -
  let ?c = "case data_at w ref k of Some c \<Rightarrow> c | None \<Rightarrow> []"
  obtain w1 r1 where cp: "local_copy (local_extend w ref k []) ref k (fst rd) n = (w1, r1)" by fastforce
  have ext: "data_at (local_extend w ref k []) ref k = Some ?c" by (simp add: data_at_extend)
  note cd = data_at_local_copy[OF cp ext]
  have w': "w' = w \<and> (\<exists>e. r = Inl e) \<or> w' = w1" using assms cp by (auto simp: local_AppendBlob_def split: if_splits sum.splits option.splits)
  show "data_at w' ref k' = data_at w ref k'" if "k' \<noteq> k" using w' cd[of k'] that by (auto simp: data_at_extend)
  assume old: "data_at w ref k = Some old"
  show "case r of Inr t \<Rightarrow> snd rd = None \<and> data_at w' ref k = Some (old @ read_all rd) \<and> t = int (length (old @ read_all rd))
      | Inl _ \<Rightarrow> \<exists>j. data_at w' ref k = Some (old @ take j (read_all rd))"
  proof (cases r)
    case (Inr t)
    then have "snd rd = None" "w' = w1" "r1 = Inr ()" "\<exists>b. store_blob w1 ref k = Some b \<and> t = blob_size b"
      using assms cp by (auto simp: local_AppendBlob_def split: if_splits sum.splits option.splits)
    with cd old Inr show ?thesis by (auto simp: read_all_def data_at_def blob_size_def)
  next
    case (Inl e)
    have "\<exists>j. data_at w1 ref k = Some (old @ take j (read_all rd))"
    proof (cases r1)
      case (Inr u)
      with cd old have "data_at w1 ref k = Some (old @ take (length (read_all rd)) (read_all rd))" by (simp add: read_all_def)
      then show ?thesis by blast
    qed (use cd old in \<open>simp add: read_all_def\<close>)
    moreover have "data_at w ref k = Some (old @ take 0 (read_all rd))" using old by simp
    ultimately show ?thesis using w' Inl by auto
  qed
qed

lemma local_truncate_data:
  assumes "local_TruncateBlob ref w k (int m) n = (w', r)"
  shows "k' \<noteq> k \<Longrightarrow> data_at w' ref k' = data_at w ref k'"
    and "data_at w ref k = Some old \<Longrightarrow> m \<le> length old \<Longrightarrow>
      (case r of Inr _ \<Rightarrow> data_at w' ref k = Some (take m old) | Inl _ \<Rightarrow> data_at w' ref k = Some old)"
  using assms by (auto simp: local_TruncateBlob_def data_at_def store_blob_def bs.get_put split: option.splits if_splits sum.splits)

lemma after_data:
  "after w (store_put w ref k d n) = (w', r) \<Longrightarrow> k' \<noteq> k \<Longrightarrow> data_at w' ref k' = data_at w ref k'"
  "after w (store_delete w ref k n) = (w', r) \<Longrightarrow> k' \<noteq> k \<Longrightarrow> data_at w' ref k' = data_at w ref k'"
  "after w (store_put w ref k d n) = (w', r) \<Longrightarrow>
    (case r of Inr _ \<Rightarrow> data_at w' ref k = Some d | Inl _ \<Rightarrow> data_at w' ref k = data_at w ref k)"
  by (auto simp: after_def data_at_put data_at_delete split: sum.splits)

interpretation local_disk: staging_store "local_api ref" "\<lambda>_ _. True" "\<lambda>w. data_at w ref" "\<lambda>w. data_at w ref" for ref
proof (unfold_locales, goal_cases)
  case (3 s k n d)
  then show ?case by (simp add: local_api_def store_get_ok)
next
  case (8 ap s k rd n s' ra k')
  then show ?case using local_append_data(1)[of ref s k rd n s' ra k'] by (auto simp: local_api_def local_appendable_def)
next
  case (9 ap s k rd n s' ra old)
  then have "local_AppendBlob ref s k rd n = (s', ra)" by (auto simp: local_api_def local_appendable_def)
  from local_append_data(2)[OF this 9(4)] show ?case by blast
next
  case (11 ap s k m n s' r old)
  then show ?case using local_truncate_data(2)[of ref s k m n s' r old] by (auto simp: local_api_def local_appendable_def split: sum.splits)
next
  case (12 ap s k n m b)
  then show ?case
    by (auto simp: local_api_def local_appendable_def local_AppendedSize_def store_exists_def store_size_def guard_io_def data_at_def
        blob_size_def split: if_splits option.splits bool.splits)
next
  case (2 s k d n s' r)
  then show ?case using after_data(3)[of s ref k d n s' r] by (auto simp: local_api_def split: sum.splits)
next
  case (10 ap s k m n s' r k')
  then show ?case
    by (auto simp: local_api_def local_appendable_def local_TruncateBlob_def data_at_def store_blob_def bs.get_put split: option.splits if_splits)
qed (auto simp: local_api_def local_appendable_def after_data)

section \<open>S3: keys\<close>

definition objectKey :: "string \<Rightarrow> string" where
  "objectKey key = (if length key \<ge> 4 then take 2 key @ ''/'' @ take 2 (drop 2 key) @ ''/'' @ key else key)"

definition s3AppendMetaSuffix :: string where
  "s3AppendMetaSuffix = ''.append-meta''"

definition appendMetaKey :: "string \<Rightarrow> string" where
  "appendMetaKey key = objectKey key @ s3AppendMetaSuffix"

lemma objectKey_inj: "objectKey k = objectKey k' \<longleftrightarrow> k = k'"
proof
  assume eq: "objectKey k = objectKey k'"
  have len: "length (objectKey x) = (if length x \<ge> 4 then length x + 6 else length x)" for x
    by (simp add: objectKey_def)
  have "length k = length k'" using arg_cong[OF eq, of length] unfolding len by (simp split: if_splits)
  with eq show "k = k'" by (auto simp: objectKey_def split: if_splits)
qed simp

lemma appendMetaKey_inj: "appendMetaKey k = appendMetaKey k' \<longleftrightarrow> k = k'"
  by (simp add: appendMetaKey_def objectKey_inj)

section \<open>S3: the service\<close>

record s3_append_part =
  sp_number :: nat
  sp_etag :: string
  sp_size :: int

record s3_append_state =
  st_upload_id :: string
  st_parts :: "s3_append_part list"
  st_uploaded :: int
  st_pending :: string

text \<open>
  The calls of the S3 client the code makes. \<open>ErrNotFound\<close> stands for the errors \<^verbatim>\<open>isNotFound\<close>
  recognizes, \<^verbatim>\<open>NoSuchKey\<close> and \<^verbatim>\<open>NotFound\<close>. The side objects hold the session state itself, which
  \<^verbatim>\<open>encoding/json\<close> writes and reads back.
\<close>

record 's s3_client =
  c_create :: "'s \<Rightarrow> string \<Rightarrow> nat \<Rightarrow> 's \<times> string result"
  c_upload_part :: "'s \<Rightarrow> string \<Rightarrow> string \<Rightarrow> nat \<Rightarrow> string \<Rightarrow> nat \<Rightarrow> 's \<times> string result"
  c_part_copy :: "'s \<Rightarrow> string \<Rightarrow> string \<Rightarrow> nat \<Rightarrow> nat \<Rightarrow> 's \<times> string result"
  c_complete :: "'s \<Rightarrow> string \<Rightarrow> string \<Rightarrow> (nat \<times> string) list \<Rightarrow> nat \<Rightarrow> 's \<times> unit result"
  c_abort :: "'s \<Rightarrow> string \<Rightarrow> string \<Rightarrow> nat \<Rightarrow> 's \<times> unit result"
  c_get :: "'s \<Rightarrow> string \<Rightarrow> nat \<Rightarrow> string result"
  c_head :: "'s \<Rightarrow> string \<Rightarrow> nat \<Rightarrow> int result"
  c_put :: "'s \<Rightarrow> string \<Rightarrow> string \<Rightarrow> nat \<Rightarrow> 's \<times> unit result"
  c_delete :: "'s \<Rightarrow> string \<Rightarrow> nat \<Rightarrow> 's \<times> unit result"
  c_get_meta :: "'s \<Rightarrow> string \<Rightarrow> nat \<Rightarrow> s3_append_state result"
  c_put_meta :: "'s \<Rightarrow> string \<Rightarrow> s3_append_state \<Rightarrow> nat \<Rightarrow> 's \<times> unit result"
  c_delete_meta :: "'s \<Rightarrow> string \<Rightarrow> nat \<Rightarrow> 's \<times> unit result"

section \<open>S3: appending\<close>

definition s3MinPartSize :: int where
  "s3MinPartSize = 5 * 1024 * 1024"

definition staged :: "s3_append_state \<Rightarrow> int" where
  "staged st = st_uploaded st + int (length (st_pending st))"

definition loadAppendState :: "'s s3_client \<Rightarrow> 's \<Rightarrow> string \<Rightarrow> nat \<Rightarrow> s3_append_state option result" where
  "loadAppendState c s k n =
     (case c_get_meta c s (appendMetaKey k) n of
        Inr st \<Rightarrow> Inr (Some st)
      | Inl e \<Rightarrow> if err_is e ErrNotFound then Inr None else Inl (Wrapped ''s3 read append state'' e))"

definition saveAppendState :: "'s s3_client \<Rightarrow> 's \<Rightarrow> string \<Rightarrow> s3_append_state \<Rightarrow> nat \<Rightarrow> 's \<times> unit result" where
  "saveAppendState c s k st n =
     (case c_put_meta c s (appendMetaKey k) st n of
        (s', Inl e) \<Rightarrow> (s', Inl (Wrapped ''s3 write append state'' e))
      | (s', Inr _) \<Rightarrow> (s', Inr ()))"

definition deleteAppendState :: "'s s3_client \<Rightarrow> 's \<Rightarrow> string \<Rightarrow> nat \<Rightarrow> 's \<times> unit result" where
  "deleteAppendState c s k n =
     (case c_delete_meta c s (appendMetaKey k) n of
        (s', Inl e) \<Rightarrow> if err_is e ErrNotFound then (s', Inr ()) else (s', Inl (Wrapped ''s3 delete append state'' e))
      | (s', Inr _) \<Rightarrow> (s', Inr ()))"

definition s3_Exists :: "'s s3_client \<Rightarrow> 's \<Rightarrow> string \<Rightarrow> nat \<Rightarrow> bool result" where
  "s3_Exists c s k n =
     (case c_head c s (objectKey k) n of
        Inr _ \<Rightarrow> Inr True
      | Inl e \<Rightarrow> if err_is e ErrNotFound then Inr False else Inl (Wrapped ''s3 head'' e))"

definition s3_Size :: "'s s3_client \<Rightarrow> 's \<Rightarrow> string \<Rightarrow> nat \<Rightarrow> int result" where
  "s3_Size c s k n =
     (case c_head c s (objectKey k) n of
        Inr m \<Rightarrow> Inr m
      | Inl e \<Rightarrow> if err_is e ErrNotFound then Inl (ErrMsg ''blob not found'') else Inl (Wrapped ''s3 head'' e))"

definition s3_Get :: "'s s3_client \<Rightarrow> 's \<Rightarrow> string \<Rightarrow> nat \<Rightarrow> string result" where
  "s3_Get c s k n =
     (case c_get c s (objectKey k) n of
        Inr d \<Rightarrow> Inr d
      | Inl e \<Rightarrow> if err_is e ErrNotFound then Inl (ErrMsg ''blob not found'') else Inl (Wrapped ''s3 get'' e))"

definition s3_Put :: "'s s3_client \<Rightarrow> 's \<Rightarrow> string \<Rightarrow> string \<Rightarrow> nat \<Rightarrow> 's \<times> unit result" where
  "s3_Put c s k d n =
     (case c_put c s (objectKey k) d n of
        (s', Inl e) \<Rightarrow> (s', Inl (Wrapped ''s3 put'' e))
      | (s', Inr _) \<Rightarrow> (s', Inr ()))"

definition flushPart :: "'s s3_client \<Rightarrow> 's \<Rightarrow> string \<Rightarrow> s3_append_state \<Rightarrow> string \<Rightarrow> nat \<Rightarrow> 's \<times> s3_append_state result" where
  "flushPart c s k st buf n =
     (let number = length (st_parts st) + 1 in
      case c_upload_part c s (objectKey k) (st_upload_id st) number buf n of
        (s', Inl e) \<Rightarrow> (s', Inl (Wrapped ''s3 upload part'' e))
      | (s', Inr etag) \<Rightarrow>
          (s', Inr (st\<lparr>st_parts := st_parts st @ [\<lparr>sp_number = number, sp_etag = etag, sp_size = int (length buf)\<rparr>],
                       st_uploaded := st_uploaded st + int (length buf)\<rparr>)))"

definition seedFromCopy :: "'s s3_client \<Rightarrow> 's \<Rightarrow> string \<Rightarrow> s3_append_state \<Rightarrow> int \<Rightarrow> nat \<Rightarrow> 's \<times> s3_append_state result" where
  "seedFromCopy c s k st sz n =
     (case c_part_copy c s (objectKey k) (st_upload_id st) 1 n of
        (s', Inl e) \<Rightarrow> (s', Inl (Wrapped ''s3 append seed copy'' e))
      | (s', Inr etag) \<Rightarrow>
          (s', Inr (st\<lparr>st_parts := st_parts st @ [\<lparr>sp_number = 1, sp_etag = etag, sp_size = sz\<rparr>], st_uploaded := sz\<rparr>)))"

definition startAppend :: "'s s3_client \<Rightarrow> 's \<Rightarrow> string \<Rightarrow> nat \<Rightarrow> 's \<times> s3_append_state result" where
  "startAppend c s k n =
     (case c_create c s (objectKey k) n of
        (s', Inl e) \<Rightarrow> (s', Inl (Wrapped ''s3 create multipart upload'' e))
      | (s', Inr u) \<Rightarrow>
          (let st = \<lparr>st_upload_id = u, st_parts = [], st_uploaded = 0, st_pending = []\<rparr> in
           case s3_Exists c s' k n of
             Inl e \<Rightarrow> (s', Inl e)
           | Inr False \<Rightarrow> (s', Inr st)
           | Inr True \<Rightarrow>
               (case s3_Size c s' k n of
                  Inl e \<Rightarrow> (s', Inl e)
                | Inr sz \<Rightarrow>
                    if sz = 0 then (s', Inr st)
                    else if sz \<ge> s3MinPartSize then seedFromCopy c s' k st sz n
                    else (case s3_Get c s' k n of
                        Inl e \<Rightarrow> (s', Inl e)
                      | Inr d \<Rightarrow> (s', Inr (st\<lparr>st_pending := d\<rparr>))))))"

fun append_loop ::
    "'s s3_client \<Rightarrow> 's \<Rightarrow> string \<Rightarrow> s3_append_state \<Rightarrow> string \<Rightarrow> string list \<Rightarrow> nat \<Rightarrow> 's \<times> (s3_append_state \<times> string) result" where
  "append_loop c s k st buf [] n = (s, Inr (st, buf))"
| "append_loop c s k st buf (d # ds) n =
     (if d = [] \<or> int (length (buf @ d)) < s3MinPartSize then append_loop c s k st (buf @ d) ds n
      else (case flushPart c s k st (buf @ d) n of
          (s1, Inl e) \<Rightarrow> (s1, Inl e)
        | (s1, Inr st1) \<Rightarrow>
            (let st2 = st1\<lparr>st_pending := []\<rparr> in
             case saveAppendState c s1 k st2 n of
               (s2, Inl e) \<Rightarrow> (s2, Inl e)
             | (s2, Inr _) \<Rightarrow> append_loop c s2 k st2 [] ds n)))"

definition append_session ::
    "'s s3_client \<Rightarrow> 's \<Rightarrow> string \<Rightarrow> s3_append_state \<Rightarrow> reader \<Rightarrow> nat \<Rightarrow> 's \<times> int result" where
  "append_session c s k st rd n =
     (case append_loop c s k st (st_pending st) (fst rd) n of
        (s1, Inl e) \<Rightarrow> (s1, Inl e)
      | (s1, Inr (st1, buf)) \<Rightarrow>
          (case snd rd of
             Some e \<Rightarrow> (s1, Inl (Wrapped ''s3 append'' e))
           | None \<Rightarrow>
               (let st2 = st1\<lparr>st_pending := buf\<rparr> in
                case saveAppendState c s1 k st2 n of
                  (s2, Inl e) \<Rightarrow> (s2, Inl e)
                | (s2, Inr _) \<Rightarrow> (s2, Inr (staged st2)))))"

definition s3_AppendBlob :: "'s s3_client \<Rightarrow> 's \<Rightarrow> string \<Rightarrow> reader \<Rightarrow> nat \<Rightarrow> 's \<times> int result" where
  "s3_AppendBlob c s k rd n =
     (case loadAppendState c s k n of
        Inl e \<Rightarrow> (s, Inl e)
      | Inr (Some st) \<Rightarrow> append_session c s k st rd n
      | Inr None \<Rightarrow>
          (case startAppend c s k n of
             (s', Inl e) \<Rightarrow> (s', Inl e)
           | (s', Inr st) \<Rightarrow> append_session c s' k st rd n))"

definition s3_TruncateBlob :: "'s s3_client \<Rightarrow> 's \<Rightarrow> string \<Rightarrow> int \<Rightarrow> nat \<Rightarrow> 's \<times> unit result" where
  "s3_TruncateBlob c s k sz n =
     (case loadAppendState c s k n of
        Inl e \<Rightarrow> (s, Inl e)
      | Inr None \<Rightarrow> (s, Inl (ErrMsg ''no append session''))
      | Inr (Some st) \<Rightarrow>
          if sz > staged st then (s, Inl (ErrMsg ''past the bytes staged''))
          else if sz < st_uploaded st then (s, Inl (ErrMsg ''already committed as multipart parts''))
          else saveAppendState c s k (st\<lparr>st_pending := take (nat (sz - st_uploaded st)) (st_pending st)\<rparr>) n)"

definition s3_AppendedSize :: "'s s3_client \<Rightarrow> 's \<Rightarrow> string \<Rightarrow> nat \<Rightarrow> (int \<times> bool) result" where
  "s3_AppendedSize c s k n =
     (case loadAppendState c s k n of
        Inr (Some st) \<Rightarrow> Inr (staged st, True)
      | Inl e \<Rightarrow> Inl e
      | Inr None \<Rightarrow>
          (case s3_Exists c s k n of
             Inl e \<Rightarrow> Inl e
           | Inr False \<Rightarrow> Inr (0, False)
           | Inr True \<Rightarrow> (case s3_Size c s k n of Inl e \<Rightarrow> Inl e | Inr m \<Rightarrow> Inr (m, True))))"

definition abortMultipart :: "'s s3_client \<Rightarrow> 's \<Rightarrow> string \<Rightarrow> string \<Rightarrow> nat \<Rightarrow> 's \<times> unit result" where
  "abortMultipart c s k u n =
     (case c_abort c s (objectKey k) u n of
        (s', Inl e) \<Rightarrow> if err_is e ErrNotFound then (s', Inr ()) else (s', Inl (Wrapped ''s3 abort multipart upload'' e))
      | (s', Inr _) \<Rightarrow> (s', Inr ()))"

text \<open>The tail of \<^verbatim>\<open>FinalizeAppend\<close>, once the pending bytes are a part.\<close>

definition publish :: "'s s3_client \<Rightarrow> 's \<Rightarrow> string \<Rightarrow> s3_append_state \<Rightarrow> nat \<Rightarrow> 's \<times> unit result" where
  "publish c s k st n =
     (if st_parts st = [] then
        (case abortMultipart c s k (st_upload_id st) n of
           (s1, Inl e) \<Rightarrow> (s1, Inl e)
         | (s1, Inr _) \<Rightarrow>
             (case s3_Put c s1 k [] n of
                (s2, Inl e) \<Rightarrow> (s2, Inl e)
              | (s2, Inr _) \<Rightarrow> deleteAppendState c s2 k n))
      else
        (case c_complete c s (objectKey k) (st_upload_id st) (map (\<lambda>p. (sp_number p, sp_etag p)) (st_parts st)) n of
           (s1, Inl e) \<Rightarrow> (s1, Inl (Wrapped ''s3 complete multipart upload'' e))
         | (s1, Inr _) \<Rightarrow> deleteAppendState c s1 k n))"

definition s3_FinalizeAppend :: "'s s3_client \<Rightarrow> 's \<Rightarrow> string \<Rightarrow> nat \<Rightarrow> 's \<times> unit result" where
  "s3_FinalizeAppend c s k n =
     (case loadAppendState c s k n of
        Inl e \<Rightarrow> (s, Inl e)
      | Inr None \<Rightarrow> (s, Inr ())
      | Inr (Some st) \<Rightarrow>
          if st_pending st = [] then publish c s k st n
          else (case flushPart c s k st (st_pending st) n of
              (s1, Inl e) \<Rightarrow> (s1, Inl e)
            | (s1, Inr st1) \<Rightarrow> publish c s1 k (st1\<lparr>st_pending := []\<rparr>) n))"

definition s3_AbortAppend :: "'s s3_client \<Rightarrow> 's \<Rightarrow> string \<Rightarrow> nat \<Rightarrow> 's \<times> unit result" where
  "s3_AbortAppend c s k n =
     (case loadAppendState c s k n of
        Inl e \<Rightarrow> (s, Inl e)
      | Inr None \<Rightarrow> (s, Inr ())
      | Inr (Some st) \<Rightarrow>
          (case abortMultipart c s k (st_upload_id st) n of
             (s1, Inl e) \<Rightarrow> (s1, Inl e)
           | (s1, Inr _) \<Rightarrow> deleteAppendState c s1 k n))"

definition s3_Delete :: "'s s3_client \<Rightarrow> 's \<Rightarrow> string \<Rightarrow> nat \<Rightarrow> 's \<times> unit result" where
  "s3_Delete c s k n =
     (case c_delete c (fst (s3_AbortAppend c s k n)) (objectKey k) n of
        (s', Inl e) \<Rightarrow> if err_is e ErrNotFound then (s', Inr ()) else (s', Inl (Wrapped ''s3 delete'' e))
      | (s', Inr _) \<Rightarrow> (s', Inr ()))"

definition s3_api :: "'s s3_client \<Rightarrow> 's blob_api" where
  "s3_api c =
     \<lparr>ba_put = s3_Put c, ba_get = s3_Get c, ba_exists = s3_Exists c, ba_size = s3_Size c, ba_delete = s3_Delete c,
      ba_append = Some \<lparr>ap_append = s3_AppendBlob c, ap_truncate = s3_TruncateBlob c, ap_size = s3_AppendedSize c,
        ap_finalize = s3_FinalizeAppend c, ap_abort = s3_AbortAppend c\<rparr>\<rparr>"

section \<open>S3: what the service promises\<close>

text \<open>
  \<open>obj\<close> are the objects of the bucket, \<open>meta\<close> the side objects, \<open>part\<close> the parts an open upload of a key
  holds. A call that reports an error may or may not have been carried out.
\<close>

locale s3_service =
  fixes c :: "'s s3_client"
    and obj :: "'s \<Rightarrow> string \<Rightarrow> string option"
    and meta :: "'s \<Rightarrow> string \<Rightarrow> s3_append_state option"
    and part :: "'s \<Rightarrow> string \<Rightarrow> string \<Rightarrow> nat \<Rightarrow> (string \<times> string) option"
  assumes create_law: "c_create c s K n = (s', ru) \<Longrightarrow> obj s' = obj s \<and> meta s' = meta s \<and> (\<forall>K'. K' \<noteq> K \<longrightarrow> part s' K' = part s K')"
    and upload_law: "c_upload_part c s K u i d n = (s', ru) \<Longrightarrow> obj s' = obj s \<and> meta s' = meta s \<and>
      (\<forall>K' u' i'. (K', u', i') \<noteq> (K, u, i) \<longrightarrow> part s' K' u' i' = part s K' u' i') \<and>
      (\<forall>e. ru = Inr e \<longrightarrow> part s' K u i = Some (e, d))"
    and copy_law: "c_part_copy c s K u i n = (s', ru) \<Longrightarrow> obj s' = obj s \<and> meta s' = meta s \<and>
      (\<forall>K' u' i'. (K', u', i') \<noteq> (K, u, i) \<longrightarrow> part s' K' u' i' = part s K' u' i') \<and>
      (\<forall>e. ru = Inr e \<longrightarrow> (\<exists>d. obj s K = Some d \<and> part s' K u i = Some (e, d)))"
    and complete_law: "c_complete c s K u ps n = (s', r) \<Longrightarrow> meta s' = meta s \<and>
      (\<forall>K'. K' \<noteq> K \<longrightarrow> obj s' K' = obj s K' \<and> part s' K' = part s K') \<and>
      (r = Inr () \<longrightarrow> (\<forall>(i, e)\<in>set ps. \<exists>d. part s K u i = Some (e, d)) \<longrightarrow>
        obj s' K = Some (concat (map (\<lambda>(i, e). snd (the (part s K u i))) ps)))"
    and abort_law: "c_abort c s K u n = (s', r) \<Longrightarrow> obj s' = obj s \<and> meta s' = meta s \<and> (\<forall>K'. K' \<noteq> K \<longrightarrow> part s' K' = part s K')"
    and get_law: "c_get c s K n = Inr d \<Longrightarrow> obj s K = Some d"
    and head_law: "c_head c s K n = Inr m \<Longrightarrow> \<exists>d. obj s K = Some d \<and> m = int (length d)"
    and head_missing: "c_head c s K n = Inl e \<Longrightarrow> err_is e ErrNotFound \<Longrightarrow> obj s K = None"
    and put_law: "c_put c s K d n = (s', r) \<Longrightarrow> meta s' = meta s \<and> part s' = part s \<and> (\<forall>K'. K' \<noteq> K \<longrightarrow> obj s' K' = obj s K') \<and>
      obj s' K \<in> {obj s K, Some d} \<and> (r = Inr () \<longrightarrow> obj s' K = Some d)"
    and delete_law: "c_delete c s K n = (s', r) \<Longrightarrow> meta s' = meta s \<and> part s' = part s \<and> (\<forall>K'. K' \<noteq> K \<longrightarrow> obj s' K' = obj s K')"
    and get_meta_law: "c_get_meta c s K n = Inr st \<Longrightarrow> meta s K = Some st"
    and get_meta_missing: "c_get_meta c s K n = Inl e \<Longrightarrow> err_is e ErrNotFound \<Longrightarrow> meta s K = None"
    and put_meta_law: "c_put_meta c s K st n = (s', r) \<Longrightarrow> obj s' = obj s \<and> part s' = part s \<and> (\<forall>K'. K' \<noteq> K \<longrightarrow> meta s' K' = meta s K') \<and>
      meta s' K \<in> {meta s K, Some st} \<and> (r = Inr () \<longrightarrow> meta s' K = Some st)"
    and delete_meta_law: "c_delete_meta c s K n = (s', r) \<Longrightarrow> obj s' = obj s \<and> part s' = part s \<and> (\<forall>K'. K' \<noteq> K \<longrightarrow> meta s' K' = meta s K') \<and>
      meta s' K \<in> {meta s K, None} \<and> (r = Inr () \<or> (\<exists>e. r = Inl e \<and> err_is e ErrNotFound) \<longrightarrow> meta s' K = None)"

text \<open>
  The bookkeeping of a session: the recorded parts are there under their numbers and ETags, each at
  least as long as S3 demands of every part but the last, and the byte count is theirs.
\<close>

definition part_ok :: "(nat \<Rightarrow> (string \<times> string) option) \<Rightarrow> nat \<Rightarrow> s3_append_part \<Rightarrow> bool" where
  "part_ok pt i p \<longleftrightarrow> sp_number p = i \<and> (\<exists>d. pt i = Some (sp_etag p, d) \<and> sp_size p = int (length d))"

definition session_ok :: "(string \<Rightarrow> nat \<Rightarrow> (string \<times> string) option) \<Rightarrow> s3_append_state \<Rightarrow> bool" where
  "session_ok pt st \<longleftrightarrow> (\<forall>i < length (st_parts st). part_ok (pt (st_upload_id st)) (Suc i) (st_parts st ! i)) \<and>
     st_uploaded st = sum_list (map sp_size (st_parts st))"

definition big_parts :: "s3_append_state \<Rightarrow> bool" where
  "big_parts st \<longleftrightarrow> (\<forall>p\<in>set (st_parts st). sp_size p \<ge> s3MinPartSize)"

definition parts_data :: "(string \<Rightarrow> nat \<Rightarrow> (string \<times> string) option) \<Rightarrow> s3_append_state \<Rightarrow> string" where
  "parts_data pt st = concat (map (\<lambda>p. snd (the (pt (st_upload_id st) (sp_number p)))) (st_parts st))"

definition s3_sound ::
    "('s \<Rightarrow> string \<Rightarrow> s3_append_state option) \<Rightarrow> ('s \<Rightarrow> string \<Rightarrow> string \<Rightarrow> nat \<Rightarrow> (string \<times> string) option) \<Rightarrow> 's \<Rightarrow> string \<Rightarrow> bool" where
  "s3_sound meta part s k \<longleftrightarrow> (\<forall>st. meta s (appendMetaKey k) = Some st \<longrightarrow> session_ok (part s (objectKey k)) st \<and> big_parts st)"

definition s3_content ::
    "('s \<Rightarrow> string \<Rightarrow> string option) \<Rightarrow> ('s \<Rightarrow> string \<Rightarrow> s3_append_state option) \<Rightarrow>
     ('s \<Rightarrow> string \<Rightarrow> string \<Rightarrow> nat \<Rightarrow> (string \<times> string) option) \<Rightarrow> 's \<Rightarrow> string \<Rightarrow> string option" where
  "s3_content obj meta part s k =
     (case meta s (appendMetaKey k) of
        Some st \<Rightarrow> Some (parts_data (part s (objectKey k)) st @ st_pending st)
      | None \<Rightarrow> obj s (objectKey k))"

lemma parts_data_length:
  assumes "session_ok pt st"
  shows "int (length (parts_data pt st)) = st_uploaded st"
proof -
  have "map (\<lambda>p. int (length (snd (the (pt (st_upload_id st) (sp_number p)))))) (st_parts st) = map sp_size (st_parts st)"
    using assms by (intro nth_equalityI) (auto simp: session_ok_def part_ok_def)
  moreover have "int (length (concat (map f xs))) = sum_list (map (\<lambda>x. int (length (f x))) xs)" for f :: "s3_append_part \<Rightarrow> string" and xs
    by (induction xs) simp_all
  ultimately show ?thesis using assms by (simp add: parts_data_def session_ok_def del: map_eq_conv)
qed

lemma session_cong:
  assumes "\<And>i. i < length (st_parts st) \<Longrightarrow> pt' (st_upload_id st) (Suc i) = pt (st_upload_id st) (Suc i)" "session_ok pt st"
  shows "session_ok pt' st" "parts_data pt' st = parts_data pt st"
proof -
  show "session_ok pt' st" using assms by (simp add: session_ok_def part_ok_def)
  have "map (\<lambda>p. snd (the (pt' (st_upload_id st) (sp_number p)))) (st_parts st) = map (\<lambda>p. snd (the (pt (st_upload_id st) (sp_number p)))) (st_parts st)"
    using assms by (intro nth_equalityI) (auto simp: session_ok_def part_ok_def)
  then show "parts_data pt' st = parts_data pt st" by (simp add: parts_data_def del: map_eq_conv)
qed

lemma session_pending [simp]:
  "big_parts (st\<lparr>st_pending := b\<rparr>) = big_parts st"
  "session_ok pt (st\<lparr>st_pending := b\<rparr>) = session_ok pt st" "parts_data pt (st\<lparr>st_pending := b\<rparr>) = parts_data pt st"
  by (simp_all add: session_ok_def parts_data_def big_parts_def)

lemma staged_length:
  "session_ok pt st \<Longrightarrow> staged st = int (length (parts_data pt st @ st_pending st))"
  using parts_data_length[of pt st] by (simp add: staged_def)

lemma session_extend:
  assumes "session_ok pt st" "pt' (st_upload_id st) (Suc (length (st_parts st))) = Some (e, d)"
    and "\<And>i. i < length (st_parts st) \<Longrightarrow> pt' (st_upload_id st) (Suc i) = pt (st_upload_id st) (Suc i)"
  defines "st' \<equiv> st\<lparr>st_parts := st_parts st @ [\<lparr>sp_number = length (st_parts st) + 1, sp_etag = e, sp_size = int (length d)\<rparr>],
      st_uploaded := st_uploaded st + int (length d)\<rparr>"
  shows "session_ok pt' st'" "parts_data pt' st' = parts_data pt st @ d" "big_parts st \<Longrightarrow> s3MinPartSize \<le> int (length d) \<Longrightarrow> big_parts st'"
proof -
  have "session_ok pt' st" "parts_data pt' st = parts_data pt st" using session_cong[of st pt' pt] assms(1,3) by simp_all
  then show "session_ok pt' st'" "parts_data pt' st' = parts_data pt st @ d"
    using assms(2) by (auto simp: session_ok_def part_ok_def st'_def parts_data_def nth_append less_Suc_eq)
  show "big_parts st \<Longrightarrow> s3MinPartSize \<le> int (length d) \<Longrightarrow> big_parts st'" by (simp add: big_parts_def st'_def)
qed

context s3_service
begin

lemma load_law: "loadAppendState c s k n = Inr x \<Longrightarrow> meta s (appendMetaKey k) = x"
  by (auto simp: loadAppendState_def split: sum.splits if_splits dest: get_meta_law get_meta_missing)

lemma save_law: "saveAppendState c s k st n = (s', r) \<Longrightarrow> obj s' = obj s \<and> part s' = part s \<and>
    (\<forall>k'. k' \<noteq> k \<longrightarrow> meta s' (appendMetaKey k') = meta s (appendMetaKey k')) \<and>
    meta s' (appendMetaKey k) \<in> {meta s (appendMetaKey k), Some st} \<and> (r = Inr () \<longrightarrow> meta s' (appendMetaKey k) = Some st)"
  by (auto simp: saveAppendState_def appendMetaKey_inj split: prod.splits sum.splits dest!: put_meta_law)

lemma drop_state_law: "deleteAppendState c s k n = (s', r) \<Longrightarrow> obj s' = obj s \<and> part s' = part s \<and>
    (\<forall>k'. k' \<noteq> k \<longrightarrow> meta s' (appendMetaKey k') = meta s (appendMetaKey k')) \<and> (r = Inr () \<longrightarrow> meta s' (appendMetaKey k) = None)"
  by (auto simp: deleteAppendState_def appendMetaKey_inj split: prod.splits sum.splits if_splits dest!: delete_meta_law)

lemma flush_law:
  assumes "flushPart c s k st buf n = (s', r)" "session_ok (part s (objectKey k)) st"
  shows "obj s' = obj s \<and> meta s' = meta s \<and> (\<forall>k'. k' \<noteq> k \<longrightarrow> part s' (objectKey k') = part s (objectKey k'))"
    and "session_ok (part s (objectKey k)) st0 \<Longrightarrow> length (st_parts st0) \<le> length (st_parts st) \<Longrightarrow>
      session_ok (part s' (objectKey k)) st0 \<and> parts_data (part s' (objectKey k)) st0 = parts_data (part s (objectKey k)) st0"
    and "r = Inr st1 \<Longrightarrow> session_ok (part s' (objectKey k)) st1 \<and>
      parts_data (part s' (objectKey k)) st1 = parts_data (part s (objectKey k)) st @ buf \<and> st_upload_id st1 = st_upload_id st \<and>
      st_parts st1 \<noteq> [] \<and> (big_parts st \<longrightarrow> s3MinPartSize \<le> int (length buf) \<longrightarrow> big_parts st1)"
proof -
  let ?K = "objectKey k" and ?i = "length (st_parts st) + 1"
  obtain ru where up: "c_upload_part c s ?K (st_upload_id st) ?i buf n = (s', ru)"
    using assms(1) by (auto simp: flushPart_def Let_def split: prod.splits sum.splits)
  note law = upload_law[OF up]
  show "obj s' = obj s \<and> meta s' = meta s \<and> (\<forall>k'. k' \<noteq> k \<longrightarrow> part s' (objectKey k') = part s (objectKey k'))"
    using law by (auto simp: objectKey_inj fun_eq_iff)
  have other: "part s' ?K u (Suc i) = part s ?K u (Suc i)" if "i < length (st_parts st)" for u i
    using law that by (metis (no_types, lifting) Pair_inject add.commute less_irrefl old.nat.inject plus_1_eq_Suc)
  show "session_ok (part s' ?K) st0 \<and> parts_data (part s' ?K) st0 = parts_data (part s ?K) st0"
    if "session_ok (part s ?K) st0" "length (st_parts st0) \<le> length (st_parts st)"
    using session_cong[of st0 "part s' ?K" "part s ?K"] that other by simp
  assume "r = Inr st1"
  then obtain e where e: "ru = Inr e" and st1: "st1 = st\<lparr>st_parts := st_parts st @ [\<lparr>sp_number = ?i, sp_etag = e, sp_size = int (length buf)\<rparr>],
      st_uploaded := st_uploaded st + int (length buf)\<rparr>"
    using assms(1) up by (auto simp: flushPart_def Let_def split: sum.splits)
  have "part s' ?K (st_upload_id st) (Suc (length (st_parts st))) = Some (e, buf)" using law e by simp
  with session_extend[of "part s ?K" st "part s' ?K" e buf] assms(2) other show "session_ok (part s' ?K) st1 \<and>
      parts_data (part s' ?K) st1 = parts_data (part s ?K) st @ buf \<and> st_upload_id st1 = st_upload_id st \<and>
      st_parts st1 \<noteq> [] \<and> (big_parts st \<longrightarrow> s3MinPartSize \<le> int (length buf) \<longrightarrow> big_parts st1)"
    unfolding st1 by simp
qed

text \<open>Other keys: nothing an append of one key does reaches them.\<close>

definition untouched :: "string \<Rightarrow> 's \<Rightarrow> 's \<Rightarrow> bool" where
  "untouched k s s' \<longleftrightarrow> (\<forall>k'. k' \<noteq> k \<longrightarrow> obj s' (objectKey k') = obj s (objectKey k') \<and>
     meta s' (appendMetaKey k') = meta s (appendMetaKey k') \<and> part s' (objectKey k') = part s (objectKey k'))"

lemma untouched_refl [simp]: "untouched k s s"
  and untouched_trans: "untouched k s s' \<Longrightarrow> untouched k s' s'' \<Longrightarrow> untouched k s s''"
  by (simp_all add: untouched_def)

lemma untouched_content:
  "untouched k s s' \<Longrightarrow> k' \<noteq> k \<Longrightarrow> s3_sound meta part s k' \<Longrightarrow>
    s3_sound meta part s' k' \<and> s3_content obj meta part s' k' = s3_content obj meta part s k'"
  by (simp add: untouched_def s3_sound_def s3_content_def split: option.splits)

lemma untouched_calls:
  "c_create c s (objectKey k) n = (s', ru) \<Longrightarrow> untouched k s s'"
  "flushPart c s k st buf n = (s', rf) \<Longrightarrow> untouched k s s'"
  "seedFromCopy c s k st m n = (s', rf) \<Longrightarrow> untouched k s s'"
  "c_complete c s (objectKey k) u ps n = (s', r) \<Longrightarrow> untouched k s s'"
  "abortMultipart c s k u n = (s', r) \<Longrightarrow> untouched k s s'"
  "s3_Put c s k d n = (s', r) \<Longrightarrow> untouched k s s'"
  "c_delete c s (objectKey k) n = (s', r) \<Longrightarrow> untouched k s s'"
  "saveAppendState c s k st n = (s', r) \<Longrightarrow> untouched k s s'"
  "deleteAppendState c s k n = (s', r) \<Longrightarrow> untouched k s s'"
proof -
  show "c_create c s (objectKey k) n = (s', ru) \<Longrightarrow> untouched k s s'"
    "c_complete c s (objectKey k) u ps n = (s', r) \<Longrightarrow> untouched k s s'"
    "c_delete c s (objectKey k) n = (s', r) \<Longrightarrow> untouched k s s'"
    by (auto simp: untouched_def objectKey_inj dest: create_law complete_law delete_law)
  show "saveAppendState c s k st n = (s', r) \<Longrightarrow> untouched k s s'" "deleteAppendState c s k n = (s', r) \<Longrightarrow> untouched k s s'"
    by (auto simp: untouched_def dest: save_law drop_state_law)
  show "abortMultipart c s k u n = (s', r) \<Longrightarrow> untouched k s s'"
    by (auto simp: abortMultipart_def untouched_def objectKey_inj split: prod.splits sum.splits if_splits dest!: abort_law)
  show "s3_Put c s k d n = (s', r) \<Longrightarrow> untouched k s s'"
    by (auto simp: s3_Put_def untouched_def objectKey_inj split: prod.splits sum.splits if_splits dest!: put_law)
  show "flushPart c s k st buf n = (s', rf) \<Longrightarrow> untouched k s s'"
    by (auto simp: flushPart_def Let_def untouched_def objectKey_inj fun_eq_iff split: prod.splits sum.splits dest!: upload_law)
  show "seedFromCopy c s k st m n = (s', rf) \<Longrightarrow> untouched k s s'"
    by (auto simp: seedFromCopy_def untouched_def objectKey_inj fun_eq_iff split: prod.splits sum.splits dest!: copy_law)
qed

end

context s3_service
begin

text \<open>
  What holds while \<open>all\<close> is being appended to \<open>old\<close>: the stored session and the one in memory are
  intact, and what is stored is \<open>old\<close> with a prefix of \<open>all\<close>.
\<close>

definition held :: "string \<Rightarrow> string \<Rightarrow> string \<Rightarrow> 's \<Rightarrow> bool" where
  "held k old al s \<longleftrightarrow> s3_sound meta part s k \<and> (\<exists>j. s3_content obj meta part s k = Some (old @ take j al))"

definition in_hand :: "string \<Rightarrow> s3_append_state \<Rightarrow> 's \<Rightarrow> bool" where
  "in_hand k st s \<longleftrightarrow> session_ok (part s (objectKey k)) st \<and> big_parts st \<and>
     (\<forall>st0. meta s (appendMetaKey k) = Some st0 \<longrightarrow> length (st_parts st0) \<le> length (st_parts st))"

lemma held_prefix: "s3_sound meta part s k \<Longrightarrow> s3_content obj meta part s k = Some (old @ p) \<Longrightarrow> p @ q = al \<Longrightarrow> held k old al s"
  by (auto simp: held_def intro: exI[of _ "length p"])

lemma flush_keeps:
  assumes "flushPart c s k st buf n = (s', r)" "in_hand k st s" "held k old al s"
  shows "held k old al s'"
proof -
  note f = flush_law[OF assms(1)]
  have ok: "session_ok (part s (objectKey k)) st" using assms(2) by (simp add: in_hand_def)
  have "meta s' = meta s" "obj s' = obj s" using f(1)[OF ok] by simp_all
  moreover have "session_ok (part s' (objectKey k)) st0 \<and> parts_data (part s' (objectKey k)) st0 = parts_data (part s (objectKey k)) st0"
    if "meta s (appendMetaKey k) = Some st0" for st0
    using f(2)[OF ok, of st0] that assms(2,3) by (simp add: in_hand_def held_def s3_sound_def)
  ultimately show ?thesis using assms(3) by (auto simp: held_def s3_sound_def s3_content_def split: option.splits)
qed

lemma save_keeps:
  assumes "saveAppendState c s k st n = (s', r)" "in_hand k st s" "held k old al s"
    and "parts_data (part s (objectKey k)) st @ st_pending st = old @ p" "p @ q = al"
  shows "held k old al s'" "in_hand k st s'" "r = Inr () \<Longrightarrow> s3_content obj meta part s' k = Some (old @ p)"
proof -
  note l = save_law[OF assms(1)]
  have new: "s3_sound meta part s' k \<and> s3_content obj meta part s' k = Some (old @ p)" if "meta s' (appendMetaKey k) = Some st"
    using that l assms(2,4) by (simp add: s3_sound_def s3_content_def in_hand_def)
  show "r = Inr () \<Longrightarrow> s3_content obj meta part s' k = Some (old @ p)" using new l by simp
  show "in_hand k st s'" using l assms(2) by (auto simp: in_hand_def)
  show "held k old al s'"
  proof (cases "meta s' (appendMetaKey k) = Some st")
    case True
    with new assms(5) show ?thesis by (blast intro: held_prefix)
  next
    case False
    then have "s3_sound meta part s' k = s3_sound meta part s k" "s3_content obj meta part s' k = s3_content obj meta part s k"
      using l by (auto simp: s3_sound_def s3_content_def split: option.splits)
    with assms(3) show ?thesis by (simp add: held_def)
  qed
qed

lemma append_loop_law:
  assumes "append_loop c s k st buf ds n = (s', r)" "in_hand k st s" "held k old al s"
    and "parts_data (part s (objectKey k)) st @ buf = old @ p" "p @ concat ds = al"
  shows "untouched k s s' \<and> held k old al s' \<and>
    (\<forall>st' buf'. r = Inr (st', buf') \<longrightarrow> in_hand k st' s' \<and> parts_data (part s' (objectKey k)) st' @ buf' = old @ al)"
  using assms
proof (induction ds arbitrary: s st buf p)
  case (Cons d ds)
  show ?case
  proof (cases "d = [] \<or> int (length (buf @ d)) < s3MinPartSize")
    case True
    then have "append_loop c s k st (buf @ d) ds n = (s', r)" using Cons.prems(1) by simp
    moreover have "parts_data (part s (objectKey k)) st @ buf @ d = old @ p @ d" "(p @ d) @ concat ds = al"
      using Cons.prems(4,5) by simp_all
    ultimately show ?thesis using Cons.IH[OF _ Cons.prems(2,3), of "buf @ d" "p @ d"] by simp
  next
    case False
    obtain s1 r1 where f: "flushPart c s k st (buf @ d) n = (s1, r1)" by (cases "flushPart c s k st (buf @ d) n")
    note fk = flush_keeps[OF f Cons.prems(2,3)] untouched_calls(2)[OF f]
    have ok: "session_ok (part s (objectKey k)) st" "big_parts st" using Cons.prems(2) by (simp_all add: in_hand_def)
    show ?thesis
    proof (cases r1)
      case (Inl e)
      with Cons.prems(1) False f fk show ?thesis by auto
    next
      case (Inr st1)
      define st2 where "st2 = st1\<lparr>st_pending := []\<rparr>"
      obtain s2 r2 where sv: "saveAppendState c s1 k st2 n = (s2, r2)" by (cases "saveAppendState c s1 k st2 n")
      note f1 = flush_law(3)[OF f ok(1) Inr] and f0 = flush_law(1)[OF f ok(1)]
      have "length (st_parts st1) = Suc (length (st_parts st))"
        using f Inr by (auto simp: flushPart_def Let_def split: prod.splits sum.splits)
      then have h1: "in_hand k st2 s1" using f1 f0 ok(2) False Cons.prems(2) by (auto simp: in_hand_def st2_def)
      have data: "parts_data (part s1 (objectKey k)) st2 @ st_pending st2 = old @ p @ d" "(p @ d) @ concat ds = al"
        using f1 Cons.prems(4,5) by (simp_all add: st2_def)
      note sk = save_keeps[OF sv h1 fk(1) data] untouched_calls(8)[OF sv]
      show ?thesis
      proof (cases r2)
        case (Inl e)
        have "s' = s2 \<and> r = Inl e" using Cons.prems(1) False f Inr sv Inl by (auto simp: st2_def)
        with sk fk(2) show ?thesis using untouched_trans by blast
      next
        case r2: (Inr u)
        have "append_loop c s2 k st2 [] ds n = (s', r)" using Cons.prems(1) False f Inr sv r2 by (simp add: st2_def)
        moreover have "parts_data (part s2 (objectKey k)) st2 @ [] = old @ p @ d"
          using data(1) save_law[OF sv] by (simp add: st2_def)
        ultimately show ?thesis
          using Cons.IH[OF _ sk(2,1), of "[]" "p @ d"] data(2) fk(2) sk(4) untouched_trans by blast
      qed
    qed
  qed
qed auto

end

context s3_service
begin

lemma append_session_law:
  assumes "append_session c s k st rd n = (s', r)" "in_hand k st s" "held k old (read_all rd) s"
    and "parts_data (part s (objectKey k)) st @ st_pending st = old"
  shows "untouched k s s' \<and> held k old (read_all rd) s' \<and>
    (\<forall>t. r = Inr t \<longrightarrow> snd rd = None \<and> s3_content obj meta part s' k = Some (old @ read_all rd) \<and> t = int (length (old @ read_all rd)))"
proof -
  obtain s1 r1 where l: "append_loop c s k st (st_pending st) (fst rd) n = (s1, r1)" by (cases "append_loop c s k st (st_pending st) (fst rd) n")
  have "untouched k s s1 \<and> held k old (read_all rd) s1 \<and>
    (\<forall>st' buf'. r1 = Inr (st', buf') \<longrightarrow> in_hand k st' s1 \<and> parts_data (part s1 (objectKey k)) st' @ buf' = old @ read_all rd)"
    by (rule append_loop_law[OF l assms(2,3), of "[]"]) (use assms(4) in \<open>simp_all add: read_all_def\<close>)
  then have loop: "untouched k s s1" "held k old (read_all rd) s1"
    and fin: "r1 = Inr (st', buf') \<Longrightarrow> in_hand k st' s1 \<and> parts_data (part s1 (objectKey k)) st' @ buf' = old @ read_all rd" for st' buf' by blast+
  show ?thesis
  proof (cases "\<exists>st' buf'. r1 = Inr (st', buf') \<and> snd rd = None")
    case False
    then have "s' = s1" "\<exists>e. r = Inl e" using assms(1) l by (auto simp: append_session_def split: sum.splits prod.splits option.splits)
    with loop show ?thesis by auto
  next
    case True
    then obtain st' buf' where r1: "r1 = Inr (st', buf')" "snd rd = None" by blast
    let ?st = "st'\<lparr>st_pending := buf'\<rparr>"
    obtain s2 r2 where sv: "saveAppendState c s1 k ?st n = (s2, r2)" by (cases "saveAppendState c s1 k ?st n")
    have h: "in_hand k ?st s1" "parts_data (part s1 (objectKey k)) ?st @ st_pending ?st = old @ read_all rd"
      using fin[OF r1(1)] by (simp_all add: in_hand_def)
    note sk = save_keeps[OF sv h(1) loop(2) h(2), of "[]"] untouched_calls(8)[OF sv]
    have run: "s' = s2" "r = (case r2 of Inl e \<Rightarrow> Inl e | Inr _ \<Rightarrow> Inr (staged ?st))"
      using assms(1) l r1 sv by (auto simp: append_session_def Let_def split: sum.splits)
    have "staged ?st = int (length (old @ read_all rd))"
      using staged_length[of "part s1 (objectKey k)" ?st] h(1) unfolding h(2) by (simp add: in_hand_def)
    with run sk loop r1(2) show ?thesis using untouched_trans by (cases r2) auto
  qed
qed

lemma start_law:
  assumes "startAppend c s k n = (s', r)" "meta s (appendMetaKey k) = None" "obj s (objectKey k) = Some old"
  shows "untouched k s s' \<and> meta s' (appendMetaKey k) = None \<and> obj s' (objectKey k) = Some old \<and>
    (\<forall>st. r = Inr st \<longrightarrow> in_hand k st s' \<and> parts_data (part s' (objectKey k)) st @ st_pending st = old)"
proof -
  obtain s1 ru where cr: "c_create c s (objectKey k) n = (s1, ru)" by (cases "c_create c s (objectKey k) n")
  have c1: "meta s1 (appendMetaKey k) = None" "obj s1 (objectKey k) = Some old" "untouched k s s1"
    using create_law[OF cr] assms(2,3) untouched_calls(1)[OF cr] by simp_all
  let ?st = "\<lambda>u. \<lparr>st_upload_id = u, st_parts = [], st_uploaded = 0, st_pending = []\<rparr>"
  have hd: "s3_Exists c s1 k n \<noteq> Inr False" "s3_Size c s1 k n = Inr m \<Longrightarrow> m = int (length old)" "s3_Get c s1 k n = Inr d \<Longrightarrow> d = old" for m d
    using c1(2) head_missing[of s1 "objectKey k"] head_law[of s1 "objectKey k" n] get_law[of s1 "objectKey k" n]
    by (auto simp: s3_Exists_def s3_Size_def s3_Get_def split: sum.splits if_splits)
  have small: "in_hand k ((?st u)\<lparr>st_pending := d\<rparr>) s1 \<and> parts_data (part s1 (objectKey k)) ((?st u)\<lparr>st_pending := d\<rparr>) @ d = d" for u d
    using c1(1) by (simp add: in_hand_def session_ok_def big_parts_def parts_data_def)
  show ?thesis
  proof (cases "\<exists>u m. ru = Inr u \<and> s3_Exists c s1 k n = Inr True \<and> s3_Size c s1 k n = Inr m \<and> m \<noteq> 0 \<and> m \<ge> s3MinPartSize")
    case False
    then have s': "s' = s1" and st: "r = Inr st \<Longrightarrow> \<exists>u. st = (?st u)\<lparr>st_pending := old\<rparr>" for st
      using assms(1) cr hd by (auto simp: startAppend_def Let_def split: sum.splits bool.splits if_splits)
    have "in_hand k st s1 \<and> parts_data (part s1 (objectKey k)) st @ st_pending st = old" if "r = Inr st" for st
      using st[OF that] small[where d = old] by auto
    with s' c1 show ?thesis by blast
  next
    case True
    then obtain u m where u: "ru = Inr u" "s3_Exists c s1 k n = Inr True" "s3_Size c s1 k n = Inr m" "m \<noteq> 0" "m \<ge> s3MinPartSize" by blast
    then have run: "seedFromCopy c s1 k (?st u) m n = (s', r)" using assms(1) cr by (simp add: startAppend_def Let_def)
    obtain re where cp: "c_part_copy c s1 (objectKey k) u 1 n = (s', re)"
      using run by (auto simp: seedFromCopy_def split: prod.splits sum.splits)
    note law = copy_law[OF cp]
    have "in_hand k st s' \<and> parts_data (part s' (objectKey k)) st @ st_pending st = old" if rst: "r = Inr st" for st
    proof -
      obtain e where e: "re = Inr e" and st: "st = (?st u)\<lparr>st_parts := [\<lparr>sp_number = 1, sp_etag = e, sp_size = m\<rparr>], st_uploaded := m\<rparr>"
        using rst run cp by (auto simp: seedFromCopy_def split: sum.splits)
      have "part s' (objectKey k) u 1 = Some (e, old)" "m = int (length old)" using law e c1(2) hd(2)[OF u(3)] by auto
      then show ?thesis unfolding st using u(5) law c1(1)
        by (simp add: in_hand_def session_ok_def part_ok_def big_parts_def parts_data_def)
    qed
    moreover have "untouched k s s'" using untouched_trans[OF c1(3) untouched_calls(3)[OF run]] .
    ultimately show ?thesis using law c1 by simp
  qed
qed

lemma append_law:
  assumes "s3_AppendBlob c s k rd n = (s', r)" "s3_sound meta part s k" "s3_content obj meta part s k = Some old"
  shows "untouched k s s' \<and> held k old (read_all rd) s' \<and>
    (\<forall>t. r = Inr t \<longrightarrow> snd rd = None \<and> s3_content obj meta part s' k = Some (old @ read_all rd) \<and> t = int (length (old @ read_all rd)))"
proof -
  have h: "held k old (read_all rd) s" using assms(2,3) by (intro held_prefix[of s k old "[]"]) simp_all
  show ?thesis
  proof (cases "loadAppendState c s k n")
    case (Inl e)
    with assms(1) h show ?thesis by (auto simp: s3_AppendBlob_def)
  next
    case (Inr x)
    note m = load_law[OF Inr]
    show ?thesis
    proof (cases x)
      case (Some st)
      then have "append_session c s k st rd n = (s', r)" using assms(1) Inr by (simp add: s3_AppendBlob_def)
      moreover have "in_hand k st s" "parts_data (part s (objectKey k)) st @ st_pending st = old"
        using m Some assms(2,3) by (simp_all add: in_hand_def s3_sound_def s3_content_def)
      ultimately show ?thesis using append_session_law[OF _ _ h] by blast
    next
      case None
      then have old: "meta s (appendMetaKey k) = None" "obj s (objectKey k) = Some old" using m assms(3) by (simp_all add: s3_content_def)
      obtain s1 r1 where st: "startAppend c s k n = (s1, r1)" by (cases "startAppend c s k n")
      note sl = start_law[OF st old]
      have h1: "held k old (read_all rd) s1" using sl by (intro held_prefix[of s1 k old "[]"]) (simp_all add: s3_sound_def s3_content_def)
      show ?thesis
      proof (cases r1)
        case (Inl e)
        with assms(1) Inr None st sl h1 show ?thesis by (auto simp: s3_AppendBlob_def)
      next
        case r1: (Inr st1)
        then have "append_session c s1 k st1 rd n = (s', r)" using assms(1) Inr None st by (simp add: s3_AppendBlob_def)
        with append_session_law[OF _ _ h1, of st1] sl r1 show ?thesis using untouched_trans by blast
      qed
    qed
  qed
qed

lemma truncate_law:
  assumes "s3_TruncateBlob c s k (int m) n = (s', r)" "s3_sound meta part s k" "s3_content obj meta part s k = Some old" "m \<le> length old"
  shows "s3_sound meta part s' k \<and>
    (case r of Inr _ \<Rightarrow> s3_content obj meta part s' k = Some (take m old)
      | Inl _ \<Rightarrow> s3_content obj meta part s' k \<in> {Some old, Some (take m old)})"
proof (cases "\<exists>st. loadAppendState c s k n = Inr (Some st) \<and> int m \<le> staged st \<and> st_uploaded st \<le> int m")
  case False
  then have "s' = s \<and> (\<exists>e. r = Inl e)" using assms(1) by (auto simp: s3_TruncateBlob_def split: sum.splits option.splits if_splits)
  with assms(2,3) show ?thesis by auto
next
  case True
  then obtain st where st: "loadAppendState c s k n = Inr (Some st)" "int m \<le> staged st" "st_uploaded st \<le> int m" by blast
  let ?st = "st\<lparr>st_pending := take (nat (int m - st_uploaded st)) (st_pending st)\<rparr>"
  have sv: "saveAppendState c s k ?st n = (s', r)" using assms(1) st by (simp add: s3_TruncateBlob_def)
  have ms: "meta s (appendMetaKey k) = Some st" using load_law[OF st(1)] by simp
  then have ok: "session_ok (part s (objectKey k)) st" "big_parts st" "parts_data (part s (objectKey k)) st @ st_pending st = old"
    using assms(2,3) by (simp_all add: s3_sound_def s3_content_def)
  have "st_uploaded st = int (length (parts_data (part s (objectKey k)) st))" using parts_data_length[OF ok(1)] by simp
  then have "nat (int m - st_uploaded st) = m - length (parts_data (part s (objectKey k)) st)" "length (parts_data (part s (objectKey k)) st) \<le> m"
    using st(3) by linarith+
  then have "take m old = parts_data (part s (objectKey k)) st @ take (nat (int m - st_uploaded st)) (st_pending st)"
    unfolding ok(3)[symmetric] by simp
  then have new: "s3_sound meta part s' k \<and> s3_content obj meta part s' k = Some (take m old)" if "meta s' (appendMetaKey k) = Some ?st"
    using that save_law[OF sv] ok by (simp add: s3_sound_def s3_content_def)
  moreover have "s3_sound meta part s' k \<and> s3_content obj meta part s' k = Some old" if "meta s' (appendMetaKey k) = Some st"
    using that save_law[OF sv] ok by (simp add: s3_sound_def s3_content_def)
  ultimately show ?thesis using save_law[OF sv] ms by (cases r) auto
qed

lemma appended_size_law:
  assumes "s3_AppendedSize c s k n = Inr (m, b)" "s3_sound meta part s k"
  shows "case s3_content obj meta part s k of Some cs \<Rightarrow> b \<and> m = int (length cs) | None \<Rightarrow> \<not> b"
proof (cases "loadAppendState c s k n")
  case (Inr x)
  note ms = load_law[OF Inr]
  show ?thesis
  proof (cases x)
    case (Some st)
    then have "session_ok (part s (objectKey k)) st" using ms assms(2) by (simp add: s3_sound_def)
    from staged_length[OF this] Some Inr ms assms(1) show ?thesis by (simp add: s3_AppendedSize_def s3_content_def)
  next
    case None
    with Inr ms assms(1) show ?thesis
      using head_law[of s "objectKey k" n] head_missing[of s "objectKey k" n]
      by (auto simp: s3_AppendedSize_def s3_content_def s3_Exists_def s3_Size_def split: sum.splits if_splits bool.splits)
  qed
qed (use assms in \<open>simp add: s3_AppendedSize_def\<close>)

end

context s3_service
begin

lemma publish_law:
  assumes "publish c s k st n = (s', r)"
  shows "untouched k s s'" "r = Inr () \<Longrightarrow> session_ok (part s (objectKey k)) st \<Longrightarrow> meta s' (appendMetaKey k) = None \<and>
      obj s' (objectKey k) = Some (parts_data (part s (objectKey k)) st)"
proof -
  have "untouched k s s' \<and> (r = Inr () \<longrightarrow> session_ok (part s (objectKey k)) st \<longrightarrow> meta s' (appendMetaKey k) = None \<and>
      obj s' (objectKey k) = Some (parts_data (part s (objectKey k)) st))"
  proof (cases "st_parts st = []")
    case True
    obtain s1 r1 where a: "abortMultipart c s k (st_upload_id st) n = (s1, r1)" by (cases "abortMultipart c s k (st_upload_id st) n")
    obtain s2 r2 where p: "s3_Put c s1 k [] n = (s2, r2)" by (cases "s3_Put c s1 k [] n")
    obtain s3 r3 where d: "deleteAppendState c s2 k n = (s3, r3)" by (cases "deleteAppendState c s2 k n")
    note u = untouched_calls(5)[OF a] untouched_calls(6)[OF p] untouched_calls(9)[OF d]
    have "obj s2 (objectKey k) = Some []" if "r2 = Inr ()" using p that by (auto simp: s3_Put_def split: prod.splits sum.splits dest!: put_law)
    with drop_state_law[OF d] have "r3 = Inr () \<Longrightarrow> r2 = Inr () \<Longrightarrow> meta s3 (appendMetaKey k) = None \<and> obj s3 (objectKey k) = Some []" by simp
    moreover have "parts_data (part s (objectKey k)) st = []" using True by (simp add: parts_data_def)
    ultimately show ?thesis
      using assms True a p d u untouched_trans[OF u(1,2)] untouched_trans[OF untouched_trans[OF u(1,2)] u(3)]
      by (cases r1; cases r2) (auto simp: publish_def)
  next
    case False
    let ?ps = "map (\<lambda>p. (sp_number p, sp_etag p)) (st_parts st)"
    obtain s1 r1 where cm: "c_complete c s (objectKey k) (st_upload_id st) ?ps n = (s1, r1)" by (cases "c_complete c s (objectKey k) (st_upload_id st) ?ps n")
    obtain s2 r2 where d: "deleteAppendState c s1 k n = (s2, r2)" by (cases "deleteAppendState c s1 k n")
    note u = untouched_calls(4)[OF cm] untouched_calls(9)[OF d]
    have "obj s1 (objectKey k) = Some (parts_data (part s (objectKey k)) st)" if "r1 = Inr ()" "session_ok (part s (objectKey k)) st"
    proof -
      have "\<forall>(i, e)\<in>set ?ps. \<exists>d. part s (objectKey k) (st_upload_id st) i = Some (e, d)"
        using that(2) by (auto simp: session_ok_def part_ok_def in_set_conv_nth) metis
      with complete_law[OF cm] that(1) show ?thesis by (simp add: parts_data_def comp_def)
    qed
    with drop_state_law[OF d] assms False cm d u untouched_trans[OF u] show ?thesis by (cases r1) (auto simp: publish_def)
  qed
  then show "untouched k s s'" "r = Inr () \<Longrightarrow> session_ok (part s (objectKey k)) st \<Longrightarrow> meta s' (appendMetaKey k) = None \<and>
      obj s' (objectKey k) = Some (parts_data (part s (objectKey k)) st)" by blast+
qed

lemma finalize_law:
  assumes "s3_FinalizeAppend c s k n = (s', r)"
  shows "untouched k s s'" "r = Inr () \<Longrightarrow> s3_sound meta part s k \<Longrightarrow> s3_content obj meta part s k = Some cs \<Longrightarrow>
      meta s' (appendMetaKey k) = None \<and> obj s' (objectKey k) = Some cs"
proof -
  have "untouched k s s' \<and> (r = Inr () \<longrightarrow> s3_sound meta part s k \<longrightarrow> s3_content obj meta part s k = Some cs \<longrightarrow>
      meta s' (appendMetaKey k) = None \<and> obj s' (objectKey k) = Some cs)"
  proof (cases "\<exists>st. loadAppendState c s k n = Inr (Some st)")
    case False
    then show ?thesis using assms load_law[of s k n None]
      by (auto simp: s3_FinalizeAppend_def s3_content_def split: sum.splits option.splits)
  next
    case True
    then obtain st where st: "loadAppendState c s k n = Inr (Some st)" by blast
    have sess: "session_ok (part s (objectKey k)) st \<and> cs = parts_data (part s (objectKey k)) st @ st_pending st"
      if "s3_sound meta part s k" "s3_content obj meta part s k = Some cs"
      using load_law[OF st] that by (simp add: s3_sound_def s3_content_def)
    show ?thesis
    proof (cases "st_pending st = []")
      case True
      then have "publish c s k st n = (s', r)" using assms st by (simp add: s3_FinalizeAppend_def)
      from publish_law[OF this] True sess show ?thesis by auto
    next
      case False
      obtain s1 r1 where f: "flushPart c s k st (st_pending st) n = (s1, r1)" by (cases "flushPart c s k st (st_pending st) n")
      note u = untouched_calls(2)[OF f]
      show ?thesis
      proof (cases r1)
        case (Inl e)
        with assms st False f u show ?thesis by (auto simp: s3_FinalizeAppend_def)
      next
        case (Inr st1)
        then have p: "publish c s1 k (st1\<lparr>st_pending := []\<rparr>) n = (s', r)" using assms st False f by (simp add: s3_FinalizeAppend_def)
        note f1 = flush_law(3)[OF f _ Inr]
        from publish_law(2)[OF p] sess f1 have "r = Inr () \<longrightarrow> s3_sound meta part s k \<longrightarrow> s3_content obj meta part s k = Some cs \<longrightarrow>
            meta s' (appendMetaKey k) = None \<and> obj s' (objectKey k) = Some cs" by simp
        with untouched_trans[OF u publish_law(1)[OF p]] show ?thesis by blast
      qed
    qed
  qed
  then show "untouched k s s'" "r = Inr () \<Longrightarrow> s3_sound meta part s k \<Longrightarrow> s3_content obj meta part s k = Some cs \<Longrightarrow>
      meta s' (appendMetaKey k) = None \<and> obj s' (objectKey k) = Some cs" by blast+
qed

lemma untouched_abort: "s3_AbortAppend c s k n = (s', r) \<Longrightarrow> untouched k s s'"
  by (auto simp: s3_AbortAppend_def split: sum.splits option.splits prod.splits dest!: untouched_calls(5,9) intro: untouched_trans)

lemma untouched_delete: "s3_Delete c s k n = (s', r) \<Longrightarrow> untouched k s s'"
proof -
  assume d: "s3_Delete c s k n = (s', r)"
  obtain s1 r1 where a: "s3_AbortAppend c s k n = (s1, r1)" by (cases "s3_AbortAppend c s k n")
  obtain r2 where "c_delete c s1 (objectKey k) n = (s', r2)"
    using d a by (auto simp: s3_Delete_def split: prod.splits sum.splits if_splits)
  from untouched_trans[OF untouched_abort[OF a] untouched_calls(7)[OF this]] show ?thesis .
qed

lemma untouched_append:
  assumes "s3_AppendBlob c s k rd n = (s', r)"
  shows "untouched k s s'"
proof -
  have loop: "append_loop c s k st buf ds n = (s', rl) \<Longrightarrow> untouched k s s'" for s s' st buf ds rl
  proof (induction ds arbitrary: s st buf)
    case (Cons d ds)
    show ?case
    proof (cases "d = [] \<or> int (length (buf @ d)) < s3MinPartSize")
      case False
      obtain s1 r1 where f: "flushPart c s k st (buf @ d) n = (s1, r1)" by (cases "flushPart c s k st (buf @ d) n")
      then show ?thesis
      proof (cases r1)
        case (Inr st1)
        obtain s2 r2 where sv: "saveAppendState c s1 k (st1\<lparr>st_pending := []\<rparr>) n = (s2, r2)" by (cases "saveAppendState c s1 k (st1\<lparr>st_pending := []\<rparr>) n")
        note u = untouched_trans[OF untouched_calls(2)[OF f] untouched_calls(8)[OF sv]]
        from Cons.prems False f Inr sv Cons.IH[of s2 "st1\<lparr>st_pending := []\<rparr>" "[]"] u show ?thesis
          by (cases r2) (auto intro: untouched_trans)
      qed (use Cons.prems False f untouched_calls(2)[OF f] in auto)
    qed (use Cons in auto)
  qed simp
  have sess: "append_session c s k st rd n = (s', r) \<Longrightarrow> untouched k s s'" for s s' st r
    by (auto simp: append_session_def Let_def split: prod.splits sum.splits option.splits dest!: loop untouched_calls(8) intro: untouched_trans)
  have start: "startAppend c s k n = (s', rs) \<Longrightarrow> untouched k s s'" for s s' rs
    by (auto simp: startAppend_def Let_def split: prod.splits sum.splits bool.splits if_splits dest!: untouched_calls(1,3) intro: untouched_trans)
  show ?thesis
    using assms by (auto simp: s3_AppendBlob_def split: sum.splits option.splits prod.splits dest!: sess start intro: untouched_trans)
qed

lemma untouched_truncate: "s3_TruncateBlob c s k m n = (s', r) \<Longrightarrow> untouched k s s'"
  by (auto simp: s3_TruncateBlob_def split: sum.splits option.splits if_splits dest!: untouched_calls(8))

end

sublocale s3_service \<subseteq> staging_store "s3_api c" "s3_sound meta part" "s3_content obj meta part" "\<lambda>s k. obj s (objectKey k)"
proof (unfold_locales, goal_cases)
  case (1 s k d n s' r k')
  then show ?case using untouched_content[OF untouched_calls(6)] by (simp add: s3_api_def)
next
  case (2 s k d n s' r)
  then have p: "s3_Put c s k d n = (s', r)" and none: "s3_content obj meta part s k = None" by (simp_all add: s3_api_def)
  from none have "meta s (appendMetaKey k) = None" "obj s (objectKey k) = None" by (simp_all add: s3_content_def split: option.splits)
  with p show ?case
    by (auto simp: s3_Put_def s3_sound_def s3_content_def split: prod.splits sum.splits dest!: put_law)
next
  case (3 s k n d)
  then show ?case by (auto simp: s3_api_def s3_Get_def split: sum.splits if_splits dest: get_law)
next
  case (7 s k n s' r k')
  then show ?case using untouched_content[OF untouched_delete] by (simp add: s3_api_def)
next
  case (8 ap s k rd n s' ra k')
  then have "s3_AppendBlob c s k rd n = (s', ra)" by (auto simp: s3_api_def)
  from untouched_content[OF untouched_append[OF this] 8(3,4)] show ?case .
next
  case (9 ap s k rd n s' ra old)
  then have "s3_AppendBlob c s k rd n = (s', ra)" by (auto simp: s3_api_def)
  from append_law[OF this 9(3,4)] show ?case by (auto simp: held_def split: sum.splits)
next
  case (10 ap s k m n s' r k')
  then show ?case using untouched_content[OF untouched_truncate] by (auto simp: s3_api_def)
next
  case (11 ap s k m n s' r old)
  then have "s3_TruncateBlob c s k (int m) n = (s', r)" by (auto simp: s3_api_def)
  from truncate_law[OF this 11(3-5)] show ?case .
next
  case (12 ap s k n m b)
  then have "s3_AppendedSize c s k n = Inr (m, b)" by (auto simp: s3_api_def)
  from appended_size_law[OF this 12(3)] show ?case .
next
  case (13 ap s k n s' r k')
  then show ?case using untouched_content[OF finalize_law(1)] by (auto simp: s3_api_def)
next
  case (14 ap s k n s' cs)
  then have "s3_FinalizeAppend c s k n = (s', Inr ())" by (auto simp: s3_api_def)
  from finalize_law(2)[OF this refl 14(3,4)] show ?case by (simp add: s3_sound_def s3_content_def)
next
  case (15 ap s k n s' r k')
  then show ?case using untouched_content[OF untouched_abort] by (auto simp: s3_api_def)
qed (simp_all add: s3_api_def)

context s3_service
begin

lemmas axioms_staging = staging_store_axioms

end

section \<open>A reference bucket\<close>

text \<open>
  One service that behaves as documented: calls on an upload that was completed or aborted answer
  \<^verbatim>\<open>NoSuchUpload\<close>. The plan \<open>bk_fault\<close> makes the deletion of a side object fail.
\<close>

record bucket =
  bk_obj :: "string \<Rightarrow> string option"
  bk_meta :: "string \<Rightarrow> s3_append_state option"
  bk_part :: "string \<Rightarrow> string \<Rightarrow> nat \<Rightarrow> (string \<times> string) option"
  bk_open :: "(string \<times> string) list"
  bk_next :: nat
  bk_fault :: "nat \<Rightarrow> bool"

abbreviation NoSuchUpload :: err where
  "NoSuchUpload \<equiv> ErrMsg ''NoSuchUpload''"

definition bk_set_part :: "bucket \<Rightarrow> string \<Rightarrow> string \<Rightarrow> nat \<Rightarrow> string \<Rightarrow> bucket \<times> string result" where
  "bk_set_part s K u i d =
     (if (K, u) \<in> set (bk_open s)
      then (s\<lparr>bk_part := (bk_part s)(K := (bk_part s K)(u := (bk_part s K u)(i := Some (''etag'' @ show_nat i, d))))\<rparr>, Inr (''etag'' @ show_nat i))
      else (s, Inl NoSuchUpload))"

definition bk_close :: "bucket \<Rightarrow> string \<Rightarrow> string \<Rightarrow> bucket" where
  "bk_close s K u = s\<lparr>bk_open := removeAll (K, u) (bk_open s), bk_part := (bk_part s)(K := (bk_part s K)(u := (\<lambda>_. None)))\<rparr>"

definition bk_part_matches :: "bucket \<Rightarrow> string \<Rightarrow> string \<Rightarrow> nat \<times> string \<Rightarrow> bool" where
  "bk_part_matches s K u p = (case bk_part s K u (fst p) of Some (e, _) \<Rightarrow> e = snd p | None \<Rightarrow> False)"

definition bucket_client :: "bucket s3_client" where
  "bucket_client =
     \<lparr>c_create = (\<lambda>s K n. let u = show_nat (bk_next s) in (s\<lparr>bk_open := (K, u) # bk_open s, bk_next := Suc (bk_next s)\<rparr>, Inr u)),
      c_upload_part = (\<lambda>s K u i d n. bk_set_part s K u i d),
      c_part_copy = (\<lambda>s K u i n. case bk_obj s K of None \<Rightarrow> (s, Inl ErrNotFound) | Some d \<Rightarrow> bk_set_part s K u i d),
      c_complete = (\<lambda>s K u ps n.
        if (K, u) \<notin> set (bk_open s) then (s, Inl NoSuchUpload)
        else if list_all (bk_part_matches s K u) ps
        then ((bk_close s K u)\<lparr>bk_obj := (bk_obj s)(K := Some (concat (map (\<lambda>(i, e). snd (the (bk_part s K u i))) ps)))\<rparr>, Inr ())
        else (s, Inl (ErrMsg ''InvalidPart''))),
      c_abort = (\<lambda>s K u n. if (K, u) \<in> set (bk_open s) then (bk_close s K u, Inr ()) else (s, Inl NoSuchUpload)),
      c_get = (\<lambda>s K n. case bk_obj s K of Some d \<Rightarrow> Inr d | None \<Rightarrow> Inl ErrNotFound),
      c_head = (\<lambda>s K n. case bk_obj s K of Some d \<Rightarrow> Inr (int (length d)) | None \<Rightarrow> Inl ErrNotFound),
      c_put = (\<lambda>s K d n. (s\<lparr>bk_obj := (bk_obj s)(K := Some d)\<rparr>, Inr ())),
      c_delete = (\<lambda>s K n. (s\<lparr>bk_obj := (bk_obj s)(K := None)\<rparr>, Inr ())),
      c_get_meta = (\<lambda>s K n. case bk_meta s K of Some st \<Rightarrow> Inr st | None \<Rightarrow> Inl ErrNotFound),
      c_put_meta = (\<lambda>s K st n. (s\<lparr>bk_meta := (bk_meta s)(K := Some st)\<rparr>, Inr ())),
      c_delete_meta = (\<lambda>s K n. if bk_fault s n then (s, Inl ErrIO) else (s\<lparr>bk_meta := (bk_meta s)(K := None)\<rparr>, Inr ()))\<rparr>"

lemma bk_set_part_law:
  assumes "bk_set_part s K u i d = (s', r)"
  shows "bk_obj s' = bk_obj s \<and> bk_meta s' = bk_meta s \<and>
    (\<forall>K' u' i'. (K', u', i') \<noteq> (K, u, i) \<longrightarrow> bk_part s' K' u' i' = bk_part s K' u' i') \<and> (\<forall>e. r = Inr e \<longrightarrow> bk_part s' K u i = Some (e, d))"
  using assms by (auto simp: bk_set_part_def split: if_splits)

interpretation bucket: s3_service bucket_client bk_obj bk_meta bk_part
proof (unfold_locales, goal_cases)
  case (2 s K u i d n s' ru)
  then show ?case using bk_set_part_law by (simp add: bucket_client_def)
next
  case (3 s K u i n s' ru)
  then show ?case using bk_set_part_law[of s K u i] by (auto simp: bucket_client_def split: option.splits)
next
  case (4 s K u ps n s' r)
  then show ?case by (auto simp: bucket_client_def bk_close_def split: if_splits)
qed (auto simp: bucket_client_def Let_def bk_close_def split: if_splits option.splits)

text \<open>
  \<^verbatim>\<open>FinalizeAppend\<close> and \<^verbatim>\<open>AbortAppend\<close> are documented as idempotent. When the blob was published but the
  deletion of the side object failed once, neither ever succeeds again, and deleting the blob leaves
  the side object behind: \<^verbatim>\<open>isNotFound\<close> does not recognize \<^verbatim>\<open>NoSuchUpload\<close>.
\<close>

definition empty_bucket :: bucket where
  "empty_bucket = \<lparr>bk_obj = (\<lambda>_. None), bk_meta = (\<lambda>_. None), bk_part = (\<lambda>_ _ _. None), bk_open = [], bk_next = 0, bk_fault = (\<lambda>n. n = 5)\<rparr>"

definition stuck_bucket :: bucket where
  "stuck_bucket = fst (s3_FinalizeAppend bucket_client (fst (s3_AppendBlob bucket_client empty_bucket ''k'' ([''ab'', ''c''], None) 0)) ''k'' 5)"

lemma finalize_not_retryable:
  "bk_obj stuck_bucket ''k'' = Some ''abc'' \<and>
   \<not> is_ok (snd (s3_FinalizeAppend bucket_client stuck_bucket ''k'' 6)) \<and> \<not> is_ok (snd (s3_AbortAppend bucket_client stuck_bucket ''k'' 6)) \<and>
   bk_meta (fst (s3_Delete bucket_client stuck_bucket ''k'' 6)) (appendMetaKey ''k'') \<noteq> None"
proof (intro conjI)
  show "bk_obj stuck_bucket ''k'' = Some ''abc''" by code_simp
  show "\<not> is_ok (snd (s3_FinalizeAppend bucket_client stuck_bucket ''k'' 6))" by code_simp
  show "\<not> is_ok (snd (s3_AbortAppend bucket_client stuck_bucket ''k'' 6))" by code_simp
  show "bk_meta (fst (s3_Delete bucket_client stuck_bucket ''k'' 6)) (appendMetaKey ''k'') \<noteq> None" by code_simp
qed

end
