(* ===== verification/Net_Url.thy ===== *)
theory Net_Url
  imports Go_Strings
begin

text \<open>
  The part of Go's \<^verbatim>\<open>net/url\<close> and \<^verbatim>\<open>path\<close> packages the modelled code calls: the query codec and the
  cleaning of rooted paths.
\<close>

section \<open>Paths\<close>

text \<open>\<^verbatim>\<open>path.Clean\<close> of a rooted path: the kept segments, last first.\<close>

fun clean_segments :: "string list \<Rightarrow> string list \<Rightarrow> string list" where
  "clean_segments st [] = st"
| "clean_segments st (s # ss) =
     (if s = [] \<or> s = ''.'' then clean_segments st ss
      else if s = ''..'' then clean_segments (tl st) ss
      else clean_segments (s # st) ss)"

section \<open>Query strings\<close>

definition is_hex :: "char \<Rightarrow> bool" where
  "is_hex ch = (let c = of_char ch :: nat in 48 \<le> c \<and> c \<le> 57 \<or> 97 \<le> c \<and> c \<le> 102 \<or> 65 \<le> c \<and> c \<le> 70)"

definition unreserved :: "char \<Rightarrow> bool" where
  "unreserved ch \<longleftrightarrow> (let c = of_char ch :: nat in
     48 \<le> c \<and> c \<le> 57 \<or> 65 \<le> c \<and> c \<le> 90 \<or> 97 \<le> c \<and> c \<le> 122 \<or> ch \<in> set ''-_.~'')"

definition hex_digit :: "nat \<Rightarrow> char" where
  "hex_digit n = ''0123456789ABCDEF'' ! n"

definition QueryEscape :: "string \<Rightarrow> string" where
  "QueryEscape s = concat (map (\<lambda>c. if unreserved c then [c] else if c = CHR '' '' then ''+''
     else [CHR ''%'', hex_digit (of_char c div 16), hex_digit (of_char c mod 16)]) s)"

definition unhex :: "char \<Rightarrow> nat" where
  "unhex ch = (let c = of_char ch in if c \<le> 57 then c - 48 else if c \<le> 70 then c - 55 else c - 87)"

fun QueryUnescape :: "string \<Rightarrow> string option" where
  "QueryUnescape [] = Some []"
| "QueryUnescape (c # cs) =
     (if c = CHR ''%'' then
        (case cs of
           a # b # r \<Rightarrow>
             if is_hex a \<and> is_hex b then map_option (Cons (char_of (16 * unhex a + unhex b))) (QueryUnescape r) else None
         | _ \<Rightarrow> None)
      else map_option (Cons (if c = CHR ''+'' then CHR '' '' else c)) (QueryUnescape cs))"

text \<open>\<^verbatim>\<open>strings.Cut\<close>\<close>

definition str_cut :: "string \<Rightarrow> char \<Rightarrow> (string \<times> string) option" where
  "str_cut s ch = (if ch \<in> set s then Some (takeWhile (\<lambda>c. c \<noteq> ch) s, tl (dropWhile (\<lambda>c. c \<noteq> ch) s)) else None)"

text \<open>\<^verbatim>\<open>url.ParseQuery\<close>: pairs that do not decode, hold a semicolon or are empty are left out.\<close>

definition parse_pair :: "string \<Rightarrow> (string \<times> string) option" where
  "parse_pair kv =
     (if CHR '';'' \<in> set kv \<or> kv = [] then None
      else (case (case str_cut kv (CHR ''='') of Some (k, v) \<Rightarrow> (QueryUnescape k, QueryUnescape v) | None \<Rightarrow> (QueryUnescape kv, Some [])) of
          (Some k, Some v) \<Rightarrow> Some (k, v)
        | _ \<Rightarrow> None))"

definition ParseQuery :: "string \<Rightarrow> (string \<times> string) list" where
  "ParseQuery q = List.map_filter parse_pair (split_on (CHR ''&'') q)"

text \<open>gin's \<^verbatim>\<open>c.Query\<close>: the first value of the key, or the empty string.\<close>

definition query_get :: "(string \<times> string) list \<Rightarrow> string \<Rightarrow> string" where
  "query_get q k = (case map_of q k of Some v \<Rightarrow> v | None \<Rightarrow> [])"

section \<open>The query codec\<close>

lemma hex_digit_of: "n < 16 \<Longrightarrow> is_hex (hex_digit n) \<and> unhex (hex_digit n) = n"
proof -
  have "list_all (\<lambda>n. is_hex (hex_digit n) \<and> unhex (hex_digit n) = n) [0..<16]" by code_simp
  then show "n < 16 \<Longrightarrow> ?thesis" by (simp add: list_all_iff)
qed

lemma unreserved_plain: "unreserved c \<Longrightarrow> c \<noteq> CHR ''%'' \<and> c \<noteq> CHR ''+'' \<and> c \<noteq> CHR ''&'' \<and> c \<noteq> CHR ''='' \<and> c \<noteq> CHR '';''"
  by (auto simp: unreserved_def)

lemma of_char_nibbles: "of_char (c :: char) div 16 < (16 :: nat)" "of_char (c :: char) mod 16 < (16 :: nat)"
proof -
  have "of_char c < (256 :: nat)" by (simp add: of_char_def)
  then show "of_char (c :: char) div 16 < (16 :: nat)" "of_char (c :: char) mod 16 < (16 :: nat)" by (simp_all add: less_mult_imp_div_less)
qed

lemma QueryEscape_plain: "list_all unreserved k \<Longrightarrow> QueryEscape k = k"
  by (induction k) (simp_all add: QueryEscape_def)

lemma QueryUnescape_Escape: "QueryUnescape (QueryEscape s) = Some s"
proof (induction s)
  case Nil
  show ?case by (simp add: QueryEscape_def)
next
  case (Cons c s)
  note d = of_char_nibbles[of c]
  have "16 * (of_char c div 16) + of_char c mod 16 = (of_char c :: nat)" by simp
  with Cons hex_digit_of[OF d(1)] hex_digit_of[OF d(2)] show ?case
    using unreserved_plain[of c] by (auto simp: QueryEscape_def)
qed

lemma QueryEscape_set: "c \<in> set (QueryEscape s) \<Longrightarrow> c \<noteq> CHR ''&'' \<and> c \<noteq> CHR ''='' \<and> c \<noteq> CHR '';''"
proof -
  have hd: "n < 16 \<Longrightarrow> hex_digit n \<noteq> CHR ''&'' \<and> hex_digit n \<noteq> CHR ''='' \<and> hex_digit n \<noteq> CHR '';''" for n
    using hex_digit_of[of n] by (auto simp: is_hex_def)
  show "c \<in> set (QueryEscape s) \<Longrightarrow> ?thesis"
    using hd[OF of_char_nibbles(1)] hd[OF of_char_nibbles(2)]
    by (auto simp: QueryEscape_def dest: unreserved_plain split: if_splits)
qed

lemma str_cut_at: "ch \<notin> set a \<Longrightarrow> str_cut (a @ ch # b) ch = Some (a, b)"
  by (simp add: str_cut_def takeWhile_append dropWhile_append)

end
