(* ===== verification/Http_Exchange.thy ===== *)
theory Http_Exchange
  imports Append_Stores Net_Url
begin

text \<open>
  Requests and replies as the format handlers see them: what they read off the gin context and
  what they write to it.
\<close>

text \<open>
  What the handlers read off the gin context: the path below the repository (\<open>q_path\<close>), the URL's
  path as it came and escaped, the decoded query, other headers, the body with its declared length, and the
  identity the middleware left (\<open>q_user_id\<close>, \<open>q_roles\<close>).
\<close>

record gin_request =
  q_method :: string
  q_repo :: string
  q_path :: string
  q_url_path :: string
  q_escaped_path :: string
  q_query :: "(string \<times> string) list"
  q_headers :: "(string \<times> string) list"
  q_content_type :: string
  q_content_length :: int
  q_body :: reader
  q_user_id :: string
  q_roles :: "string list"

record descriptor =
  de_media_type :: string
  de_digest :: string
  de_size :: int
  de_artifact_type :: string
  de_annotations :: "(string \<times> string) list"

text \<open>The body of a reply, before JSON: \<open>Docker_Error\<close> is the code of the error document.\<close>

datatype reply_body =
    No_Body
  | Docker_Error string
  | Json_Error
  | Bytes string
  | Tag_List string "string list"
  | Repo_List "string list"
  | Image_Index "descriptor list"

record reply =
  h_status :: nat
  h_headers :: "(string \<times> string) list"
  h_body :: reply_body

definition bare :: "nat \<Rightarrow> reply" where
  "bare s = \<lparr>h_status = s, h_headers = [], h_body = No_Body\<rparr>"

definition dockerError :: "nat \<Rightarrow> string \<Rightarrow> reply" where
  "dockerError s code = \<lparr>h_status = s, h_headers = [], h_body = Docker_Error code\<rparr>"

lemma reply_status [simp]: "h_status (bare s) = s" "h_status (dockerError s c) = s"
  "h_body (bare s) = No_Body" "h_body (dockerError s c) = Docker_Error c"
  by (simp_all add: bare_def dockerError_def)

end
