(* ===== verification/Selectors.thy ===== *)
theory Selectors
  imports Repository_DB
begin

text \<open>
  The gates whose rules are user-written programs: content selectors (CEL,
  \<^verbatim>\<open>internal/service/content_selector_service.go\<close>) and routing rules (regular expressions,
  \<^verbatim>\<open>internal/service/routing_rule_service.go\<close>). Both keep compiled programs in a cache. The
  compilers and the evaluators are third-party code: they are the arguments \<open>compile\<close> and \<open>run\<close>.
\<close>

section \<open>The contract of a compilation cache\<close>

text \<open>
  A cache entry may be used only for the text it was compiled from. \<open>fetch\<close> looks an entry up and
  compiles and stores on a miss; clients see only that it answers like the compiler.
\<close>

locale compile_cache =
  fixes compile :: "'e \<Rightarrow> 'p result"
    and cached :: "'c \<Rightarrow> 'k \<Rightarrow> 'e \<Rightarrow> 'p option"
    and remember :: "'c \<Rightarrow> 'k \<Rightarrow> 'e \<Rightarrow> 'p \<Rightarrow> 'c"
    and fetch :: "'c \<Rightarrow> 'k \<Rightarrow> 'e \<Rightarrow> 'c \<times> 'p result"
    and invar :: "'c \<Rightarrow> bool"
  assumes cached_sound: "invar c \<Longrightarrow> cached c k e = Some p \<Longrightarrow> compile e = Inr p"
    and remember_invar: "invar c \<Longrightarrow> compile e = Inr p \<Longrightarrow> invar (remember c k e p)"
    and fetch_eq: "fetch c k e =
      (case cached c k e of
         Some p \<Rightarrow> (c, Inr p)
       | None \<Rightarrow> (case compile e of Inl x \<Rightarrow> (c, Inl x) | Inr p \<Rightarrow> (remember c k e p, Inr p)))"
begin

lemma fetch_transparent: "invar c \<Longrightarrow> snd (fetch c k e) = compile e"
  using cached_sound by (auto simp: fetch_eq split: option.splits sum.splits)

lemma fetch_invar: "invar c \<Longrightarrow> invar (fst (fetch c k e))"
  using remember_invar by (auto simp: fetch_eq split: option.splits sum.splits)

lemma fetch_cases:
  assumes "invar c" "fetch c k e = (c', r)"
  shows "invar c' \<and> r = compile e"
  using assms fetch_transparent fetch_invar by (metis fst_conv snd_conv)

end

section \<open>Content selectors\<close>

record content_selector =
  cs_id :: string
  cs_name :: string
  cs_expression :: string

type_synonym 'p programs = "(string \<times> string \<times> 'p) list"

definition program_cached :: "'p programs \<Rightarrow> string \<Rightarrow> string \<Rightarrow> 'p option" where
  "program_cached c i expression =
     (case map_of c i of
        Some (e, p) \<Rightarrow> if e = expression then Some p else None
      | None \<Rightarrow> None)"

definition program_remember :: "'p programs \<Rightarrow> string \<Rightarrow> string \<Rightarrow> 'p \<Rightarrow> 'p programs" where
  "program_remember c i expression p = AList.update i (expression, p) c"

definition program :: "(string \<Rightarrow> 'p result) \<Rightarrow> 'p programs \<Rightarrow> string \<Rightarrow> string \<Rightarrow> 'p programs \<times> 'p result" where
  "program compile c i expression =
     (case program_cached c i expression of
        Some p \<Rightarrow> (c, Inr p)
      | None \<Rightarrow>
          (case compile expression of
             Inl e \<Rightarrow> (c, Inl e)
           | Inr p \<Rightarrow> (program_remember c i expression p, Inr p)))"

definition programs_ok :: "(string \<Rightarrow> 'p result) \<Rightarrow> 'p programs \<Rightarrow> bool" where
  "programs_ok compile c \<longleftrightarrow> (\<forall>i e p. map_of c i = Some (e, p) \<longrightarrow> compile e = Inr p)"

interpretation sel: compile_cache compile program_cached program_remember "program compile" "programs_ok compile"
  for compile :: "string \<Rightarrow> 'p result"
proof
  fix c :: "'p programs" and i e p
  show "programs_ok compile c \<Longrightarrow> program_cached c i e = Some p \<Longrightarrow> compile e = Inr p"
    by (auto simp: programs_ok_def program_cached_def split: option.splits if_splits)
  show "programs_ok compile c \<Longrightarrow> compile e = Inr p \<Longrightarrow> programs_ok compile (program_remember c i e p)"
    by (auto simp: programs_ok_def program_remember_def map_of_AList_update)
  show "program compile c i e = (case program_cached c i e of Some p \<Rightarrow> (c, Inr p)
      | None \<Rightarrow> (case compile e of Inl x \<Rightarrow> (c, Inl x) | Inr p \<Rightarrow> (program_remember c i e p, Inr p)))"
    by (simp add: program_def)
qed

record 'p selector_service =
  ss_table :: "content_selector list"
  ss_programs :: "'p programs"

definition CreateSelector ::
    "(string \<Rightarrow> 'p result) \<Rightarrow> 'p selector_service \<Rightarrow> content_selector \<Rightarrow> bool \<Rightarrow> 'p selector_service \<times> unit result" where
  "CreateSelector compile s sl repoFails =
     (if cs_name sl = [] then (s, Inl (ErrMsg ''name is required''))
      else if cs_expression sl = [] then (s, Inl (ErrMsg ''expression is required''))
      else (case compile (cs_expression sl) of
          Inl e \<Rightarrow> (s, Inl e)
        | Inr _ \<Rightarrow>
            if repoFails \<or> (\<exists>r\<in>set (ss_table s). cs_id r = cs_id sl) then (s, Inl ErrIO)
            else (s\<lparr>ss_table := ss_table s @ [sl]\<rparr>, Inr ())))"

definition UpdateSelector ::
    "(string \<Rightarrow> 'p result) \<Rightarrow> 'p selector_service \<Rightarrow> content_selector \<Rightarrow> bool \<Rightarrow> 'p selector_service \<times> unit result" where
  "UpdateSelector compile s sl repoFails =
     (if cs_name sl = [] then (s, Inl (ErrMsg ''name is required''))
      else (case compile (cs_expression sl) of
          Inl e \<Rightarrow> (s, Inl e)
        | Inr _ \<Rightarrow>
            if repoFails then (s, Inl ErrIO)
            else (s\<lparr>ss_table := upd_where (\<lambda>r. cs_id r = cs_id sl) (\<lambda>_. sl) (ss_table s),
                    ss_programs := AList.delete (cs_id sl) (ss_programs s)\<rparr>, Inr ())))"

definition DeleteSelector :: "'p selector_service \<Rightarrow> string \<Rightarrow> bool \<Rightarrow> 'p selector_service \<times> unit result" where
  "DeleteSelector s i repoFails =
     (if repoFails then (s, Inl ErrIO)
      else (s\<lparr>ss_table := filter (\<lambda>r. cs_id r \<noteq> i) (ss_table s),
              ss_programs := AList.delete i (ss_programs s)\<rparr>, Inr ()))"

text \<open>\<open>run\<close> evaluates a program on (repository, format, path); a non-boolean answer or an error does
  not match.\<close>

fun eval_selectors ::
    "(string \<Rightarrow> 'p result) \<Rightarrow> ('p \<Rightarrow> string \<times> string \<times> string \<Rightarrow> bool result) \<Rightarrow> string \<times> string \<times> string \<Rightarrow>
     content_selector list \<Rightarrow> 'p programs \<Rightarrow> 'p programs \<times> bool" where
  "eval_selectors compile run vars [] c = (c, False)"
| "eval_selectors compile run vars (sl # sls) c =
     (case program compile c (cs_id sl) (cs_expression sl) of
        (c', Inl _) \<Rightarrow> eval_selectors compile run vars sls c'
      | (c', Inr p) \<Rightarrow>
          (case run p vars of
             Inl _ \<Rightarrow> eval_selectors compile run vars sls c'
           | Inr matched \<Rightarrow> if matched then (c', True) else eval_selectors compile run vars sls c'))"

text \<open>\<open>listForUser\<close> is the repository query; the answer is (gated, allowed).\<close>

definition Evaluate ::
    "(string \<Rightarrow> 'p result) \<Rightarrow> ('p \<Rightarrow> string \<times> string \<times> string \<Rightarrow> bool result) \<Rightarrow> (string \<Rightarrow> content_selector list result) \<Rightarrow>
     'p programs \<Rightarrow> string \<Rightarrow> string \<Rightarrow> string \<Rightarrow> string \<Rightarrow> 'p programs \<times> (bool \<times> bool) result" where
  "Evaluate compile run listForUser c userID repo format path =
     (if userID = [] then (c, Inr (False, True))
      else (case listForUser userID of
          Inl e \<Rightarrow> (c, Inl e)
        | Inr selectors \<Rightarrow>
            if selectors = [] then (c, Inr (False, True))
            else (case eval_selectors compile run (repo, format, path) selectors c of
                (c', allowed) \<Rightarrow> (c', Inr (True, allowed)))))"

section \<open>Routing rules\<close>

record routing_rule =
  rr_name :: string
  rr_mode :: string
  rr_matchers :: "string list"

type_synonym 'p matchers = "(string \<times> 'p) list"

definition compileMatcher :: "(string \<Rightarrow> 'p result) \<Rightarrow> 'p matchers \<Rightarrow> unit \<Rightarrow> string \<Rightarrow> 'p matchers \<times> 'p result" where
  "compileMatcher compile c u pattern =
     (case map_of c pattern of
        Some p \<Rightarrow> (c, Inr p)
      | None \<Rightarrow>
          (case compile pattern of
             Inl e \<Rightarrow> (c, Inl e)
           | Inr p \<Rightarrow> (AList.update pattern p c, Inr p)))"

definition matchers_ok :: "(string \<Rightarrow> 'p result) \<Rightarrow> 'p matchers \<Rightarrow> bool" where
  "matchers_ok compile c \<longleftrightarrow> (\<forall>e p. map_of c e = Some p \<longrightarrow> compile e = Inr p)"

interpretation rtc: compile_cache compile "\<lambda>c (u :: unit) e. map_of c e" "\<lambda>c u e p. AList.update e p c"
    "compileMatcher compile" "matchers_ok compile"
  for compile :: "string \<Rightarrow> 'p result"
proof
  fix c :: "'p matchers" and u :: unit and e p
  show "matchers_ok compile c \<Longrightarrow> map_of c e = Some p \<Longrightarrow> compile e = Inr p"
    by (simp add: matchers_ok_def)
  show "matchers_ok compile c \<Longrightarrow> compile e = Inr p \<Longrightarrow> matchers_ok compile (AList.update e p c)"
    by (auto simp: matchers_ok_def map_of_AList_update)
  show "compileMatcher compile c u e = (case map_of c e of Some p \<Rightarrow> (c, Inr p)
      | None \<Rightarrow> (case compile e of Inl x \<Rightarrow> (c, Inl x) | Inr p \<Rightarrow> (AList.update e p c, Inr p)))"
    by (simp add: compileMatcher_def)
qed

fun matchesAny ::
    "(string \<Rightarrow> 'p result) \<Rightarrow> ('p \<Rightarrow> string \<Rightarrow> bool) \<Rightarrow> 'p matchers \<Rightarrow> string list \<Rightarrow> string \<Rightarrow> 'p matchers \<times> bool" where
  "matchesAny compile matchString c [] path = (c, False)"
| "matchesAny compile matchString c (m # ms) path =
     (case compileMatcher compile c () m of
        (c', Inl _) \<Rightarrow> matchesAny compile matchString c' ms path
      | (c', Inr re) \<Rightarrow>
          if matchString re path then (c', True) else matchesAny compile matchString c' ms path)"

definition Allow ::
    "(string \<Rightarrow> 'p result) \<Rightarrow> ('p \<Rightarrow> string \<Rightarrow> bool) \<Rightarrow> 'p matchers \<Rightarrow> routing_rule option \<Rightarrow> string \<Rightarrow> 'p matchers \<times> bool" where
  "Allow compile matchString c rule path =
     (case rule of
        None \<Rightarrow> (c, True)
      | Some r \<Rightarrow>
          (case matchesAny compile matchString c (rr_matchers r) path of
             (c', matched) \<Rightarrow> (c', if rr_mode r = ''ALLOW'' then matched else \<not> matched)))"

fun validateMatchers :: "(string \<Rightarrow> 'p result) \<Rightarrow> string list \<Rightarrow> unit result" where
  "validateMatchers compile [] = Inr ()"
| "validateMatchers compile (m # ms) =
     (case compile m of Inl e \<Rightarrow> Inl (Wrapped ''invalid matcher regex'' e) | Inr _ \<Rightarrow> validateMatchers compile ms)"

definition CreateRule :: "(string \<Rightarrow> 'p result) \<Rightarrow> routing_rule list \<Rightarrow> routing_rule \<Rightarrow> bool \<Rightarrow> routing_rule list \<times> unit result" where
  "CreateRule compile rules r repoFails =
     (if rr_name r = [] then (rules, Inl (ErrMsg ''name is required''))
      else if rr_mode r \<noteq> ''ALLOW'' \<and> rr_mode r \<noteq> ''BLOCK'' then (rules, Inl (ErrMsg ''mode must be ALLOW or BLOCK''))
      else (case validateMatchers compile (rr_matchers r) of
          Inl e \<Rightarrow> (rules, Inl e)
        | Inr _ \<Rightarrow> if repoFails then (rules, Inl ErrIO) else (rules @ [r], Inr ())))"

section \<open>Properties\<close>

lemma eval_selectors_spec:
  assumes "programs_ok compile c" "eval_selectors compile run vars sls c = (c', b)"
  shows "programs_ok compile c' \<and>
    (b \<longleftrightarrow> (\<exists>sl\<in>set sls. \<exists>p. compile (cs_expression sl) = Inr p \<and> run p vars = Inr True))"
  using assms
proof (induction sls arbitrary: c)
  case (Cons sl sls)
  obtain c1 r where f: "program compile c (cs_id sl) (cs_expression sl) = (c1, r)" by force
  with sel.fetch_cases[OF Cons.prems(1) f] Cons.IH[of c1] Cons.prems(2) show ?case
    by (auto split: sum.splits if_splits)
qed simp

text \<open>
  The selector cache is invisible: starting from any cache whose entries came from the compiler,
  the gate's answer depends only on the user's selectors. A caller without identity or selectors
  is not gated; otherwise access is granted exactly when some selector compiles and evaluates to
  true. Evaluation, updates and deletions keep the cache sound.
\<close>

lemma Evaluate_cache_transparent:
  assumes "programs_ok compile c" "Evaluate compile run listForUser c userID repo format path = (c', r)"
  shows "programs_ok compile c' \<and>
    r = (if userID = [] then Inr (False, True)
         else case listForUser userID of
           Inl e \<Rightarrow> Inl e
         | Inr sls \<Rightarrow> Inr (sls \<noteq> [], sls = [] \<or>
             (\<exists>sl\<in>set sls. \<exists>p. compile (cs_expression sl) = Inr p \<and> run p (repo, format, path) = Inr True))) \<and>
    (\<forall>tbl sl fails. programs_ok compile (ss_programs (fst (UpdateSelector compile \<lparr>ss_table = tbl, ss_programs = c\<rparr> sl fails)))) \<and>
    (\<forall>tbl i fails. programs_ok compile (ss_programs (fst (DeleteSelector \<lparr>ss_table = tbl, ss_programs = c\<rparr> i fails))))"
proof (intro conjI allI)
  show "programs_ok compile c'"
    using assms eval_selectors_spec[OF assms(1)]
    by (auto simp: Evaluate_def split: if_splits sum.splits prod.splits)
  show "r = (if userID = [] then Inr (False, True)
         else case listForUser userID of
           Inl e \<Rightarrow> Inl e
         | Inr sls \<Rightarrow> Inr (sls \<noteq> [], sls = [] \<or>
             (\<exists>sl\<in>set sls. \<exists>p. compile (cs_expression sl) = Inr p \<and> run p (repo, format, path) = Inr True)))"
    using assms(2) eval_selectors_spec[OF assms(1)]
    by (auto simp: Evaluate_def split: if_splits sum.splits prod.splits)
  have del: "programs_ok compile (AList.delete i c)" for i
    using assms(1) by (auto simp: programs_ok_def map_of_AList_delete)
  show "programs_ok compile (ss_programs (fst (UpdateSelector compile \<lparr>ss_table = tbl, ss_programs = c\<rparr> sl fails)))" for tbl sl fails
    using del assms(1) by (auto simp: UpdateSelector_def split: sum.splits)
  show "programs_ok compile (ss_programs (fst (DeleteSelector \<lparr>ss_table = tbl, ss_programs = c\<rparr> i fails)))" for tbl i fails
    using del assms(1) by (simp add: DeleteSelector_def)
qed

lemma matchesAny_spec:
  assumes "matchers_ok compile c" "matchesAny compile matchString c ms path = (c', b)"
  shows "matchers_ok compile c' \<and> (b \<longleftrightarrow> (\<exists>m\<in>set ms. \<exists>p. compile m = Inr p \<and> matchString p path))"
  using assms
proof (induction ms arbitrary: c)
  case (Cons m ms)
  obtain c1 r where f: "compileMatcher compile c () m = (c1, r)" by force
  with rtc.fetch_cases[OF Cons.prems(1) f] Cons.IH[of c1] Cons.prems(2) show ?case
    by (auto split: sum.splits if_splits)
qed simp

lemma validateMatchers_ok: "validateMatchers compile ms = Inr u \<Longrightarrow> m \<in> set ms \<Longrightarrow> \<exists>p. compile m = Inr p"
  by (induction ms) (auto split: sum.splits)

text \<open>
  A routing rule that was accepted means what its mode says, whatever the matcher cache holds:
  an ALLOW rule lets a path through exactly when one of its matchers matches, a BLOCK rule exactly
  when none does, and no matcher of an accepted rule is ever skipped as uncompilable.
\<close>

lemma Allow_accepted_rule:
  assumes "matchers_ok compile c" "CreateRule compile rules r fails = (rules', Inr ())"
    and "Allow compile matchString c (Some r) path = (c', b)"
  shows "matchers_ok compile c' \<and>
    (\<forall>m\<in>set (rr_matchers r). \<exists>p. compile m = Inr p) \<and>
    (b \<longleftrightarrow> (rr_mode r = ''ALLOW'') = (\<exists>m\<in>set (rr_matchers r). \<exists>p. compile m = Inr p \<and> matchString p path)) \<and>
    (rr_mode r = ''ALLOW'' \<or> rr_mode r = ''BLOCK'')"
proof -
  have mode: "rr_mode r = ''ALLOW'' \<or> rr_mode r = ''BLOCK''" and "validateMatchers compile (rr_matchers r) = Inr ()"
    using assms(2) by (auto simp: CreateRule_def split: if_splits sum.splits)
  then have comp: "\<forall>m\<in>set (rr_matchers r). \<exists>p. compile m = Inr p" using validateMatchers_ok by blast
  obtain b0 where run: "matchesAny compile matchString c (rr_matchers r) path = (c', b0)"
    and b: "b = (if rr_mode r = ''ALLOW'' then b0 else \<not> b0)"
    using assms(3) by (auto simp: Allow_def split: prod.splits)
  from matchesAny_spec[OF assms(1) run]
  have "matchers_ok compile c'" "b0 \<longleftrightarrow> (\<exists>m\<in>set (rr_matchers r). \<exists>p. compile m = Inr p \<and> matchString p path)" by blast+
  then show ?thesis using comp mode b by auto
qed

text \<open>A literal-text compiler that rejects the empty pattern, for the witnesses.\<close>

definition lit_compile :: "string \<Rightarrow> string result" where
  "lit_compile e = (if e = [] then Inl (ErrMsg ''empty'') else Inr e)"

definition lit_run :: "string \<Rightarrow> string \<times> string \<times> string \<Rightarrow> bool result" where
  "lit_run p vars = Inr (str_contains (snd (snd vars)) p)"

lemma Evaluate_cache_transparent_witness:
  "snd (Evaluate lit_compile lit_run (\<lambda>_. Inr [\<lparr>cs_id = ''1'', cs_name = ''a'', cs_expression = ''pub''\<rparr>])
     [(''1'', ''priv'', ''priv'')] ''u'' ''r'' ''raw'' ''/pub/x'') = Inr (True, True)"
proof -
  let ?ls = "\<lambda>_. Inr [\<lparr>cs_id = ''1'', cs_name = ''a'', cs_expression = ''pub''\<rparr>]"
  have ok: "programs_ok lit_compile [(''1'', ''priv'', ''priv'')]" by (simp add: programs_ok_def lit_compile_def)
  have "str_contains ''/pub/x'' ''pub''" by code_simp
  with Evaluate_cache_transparent[OF ok prod.collapse[symmetric], of lit_run ?ls "''u''" "''r''" "''raw''" "''/pub/x''"]
  show ?thesis by (simp add: lit_compile_def lit_run_def)
qed

lemma Allow_accepted_rule_witness:
  "snd (Allow lit_compile (\<lambda>p s. str_contains s p) [] (Some \<lparr>rr_name = ''n'', rr_mode = ''BLOCK'', rr_matchers = [''tmp'']\<rparr>) ''/a/tmp/b'') = False"
proof -
  let ?r = "\<lparr>rr_name = ''n'', rr_mode = ''BLOCK'', rr_matchers = [''tmp'']\<rparr>"
  have "matchers_ok lit_compile []" by (simp add: matchers_ok_def)
  moreover have "CreateRule lit_compile [] ?r False = ([?r], Inr ())" by code_simp
  moreover have "str_contains ''/a/tmp/b'' ''tmp''" by code_simp
  ultimately show ?thesis
    using Allow_accepted_rule[OF _ _ prod.collapse[symmetric], of lit_compile "[]" "[]" ?r False "[?r]" "\<lambda>p s. str_contains s p" "''/a/tmp/b''"]
    by (simp add: lit_compile_def)
qed

end
