(* ===== verification/RBAC.thy ===== *)
theory RBAC
  imports Repository_DB
begin

text \<open>
  Repository access control: \<^verbatim>\<open>internal/service/rbac_service.go\<close>, the token-scope check of
  \<^verbatim>\<open>internal/api/handlers/auth.go\<close> and the middleware of \<^verbatim>\<open>internal/api/handlers/rbac_middleware.go\<close>.
  The privileges of a user are read from the database; that read is the argument \<open>privs_of\<close>.
\<close>

section \<open>Model\<close>

record privilege =
  pv_actions :: "string list"
  pv_expression :: string

type_synonym privilege_source = "string \<Rightarrow> privilege list result"

abbreviation quote :: string where "quote \<equiv> [CHR 0x22]"

definition isAdmin :: "string list \<Rightarrow> bool" where
  "isAdmin roles = list_ex (\<lambda>r. r = ''nx-admin'') roles"

definition isReadAction :: "string \<Rightarrow> bool" where
  "isReadAction action = (action = ''read'' \<or> action = ''browse'')"

definition anonymousAllowed :: "bool \<Rightarrow> bool \<Rightarrow> bool" where
  "anonymousAllowed anonymousEnabled repoAllows = (anonymousEnabled \<and> repoAllows)"

definition actionAllowed :: "string list \<Rightarrow> string \<Rightarrow> bool" where
  "actionAllowed allowed action = (if allowed = [] then True else list_ex (\<lambda>a. a = action) allowed)"

text \<open>The text between the first and the last double quote, if there are two.\<close>

definition quoted :: "string \<Rightarrow> string option" where
  "quoted expr =
     (case (index_str expr quote, last_index_str expr quote) of
        (Some s, Some e) \<Rightarrow> if e \<le> s then None else Some (take (e - (s + 1)) (drop (s + 1) expr))
      | _ \<Rightarrow> None)"

definition evalRepoClause :: "string \<Rightarrow> string \<Rightarrow> bool" where
  "evalRepoClause expr repoName = (case quoted expr of None \<Rightarrow> False | Some x \<Rightarrow> repoName = x)"

definition evalPathClause :: "string \<Rightarrow> string \<Rightarrow> bool" where
  "evalPathClause expr path = (case quoted expr of None \<Rightarrow> False | Some x \<Rightarrow> has_prefix path x)"

definition evalCEL :: "string \<Rightarrow> string \<Rightarrow> string \<Rightarrow> bool" where
  "evalCEL expr0 repoName path =
     (let expr = trim_space expr0 in
      case index_str expr '' && '' of
        Some idx \<Rightarrow> evalRepoClause (trim_space (take idx expr)) repoName \<and>
                    evalPathClause (trim_space (drop (idx + 4) expr)) path
      | None \<Rightarrow>
          if has_prefix expr ''repository'' then evalRepoClause expr repoName
          else if has_prefix expr ''path'' then evalPathClause expr path
          else False)"

definition evalCELRepoOnly :: "string \<Rightarrow> string \<Rightarrow> bool" where
  "evalCELRepoOnly expr0 repoName =
     (let expr1 = trim_space expr0;
          expr = (case index_str expr1 '' && '' of Some idx \<Rightarrow> trim_space (take idx expr1) | None \<Rightarrow> expr1)
      in if has_prefix expr ''repository'' then evalRepoClause expr repoName
         else if has_prefix expr ''path'' then True
         else False)"

fun matchPrivileges :: "privilege list \<Rightarrow> string \<Rightarrow> string \<Rightarrow> string \<Rightarrow> bool" where
  "matchPrivileges [] repoName path action = False"
| "matchPrivileges (p # ps) repoName path action =
     (if \<not> actionAllowed (pv_actions p) action then matchPrivileges ps repoName path action
      else if evalCEL (pv_expression p) repoName path then True
      else matchPrivileges ps repoName path action)"

fun matchPrivilegesRepoOnly :: "privilege list \<Rightarrow> string \<Rightarrow> bool" where
  "matchPrivilegesRepoOnly [] repoName = False"
| "matchPrivilegesRepoOnly (p # ps) repoName =
     (if \<not> actionAllowed (pv_actions p) ''read'' then matchPrivilegesRepoOnly ps repoName
      else if evalCELRepoOnly (pv_expression p) repoName then True
      else matchPrivilegesRepoOnly ps repoName)"

definition later_keyword :: "string \<Rightarrow> (nat \<times> string) option \<Rightarrow> string \<Rightarrow> (nat \<times> string) option" where
  "later_keyword rest acc kw =
     (case last_index_str rest kw of
        None \<Rightarrow> acc
      | Some idx \<Rightarrow> (case acc of None \<Rightarrow> Some (idx, kw) | Some (l, _) \<Rightarrow> if idx > l then Some (idx, kw) else acc))"

definition assetSamplePath :: "string \<Rightarrow> string" where
  "assetSamplePath p =
     (let rest0 = trim_prefix p ''/v2/'';
          rest = (if rest0 \<noteq> p then ''/'' @ rest0 else rest0)
      in case foldl (later_keyword rest) None [''/manifests/'', ''/blobs/'', ''/tags/''] of
           None \<Rightarrow> p
         | Some (l, kw) \<Rightarrow>
             if l > 0 then take l rest @ ''/''
             else if kw \<noteq> ''/tags/'' then
               (let inner = trim_prefix rest kw in
                case last_index_str inner ''/'' of
                  Some idx \<Rightarrow> if idx > 0 then ''/'' @ take idx inner @ ''/'' else p
                | None \<Rightarrow> p)
             else p)"

definition CanAccessRepo ::
    "bool \<Rightarrow> privilege_source \<Rightarrow> string \<Rightarrow> string list \<Rightarrow> repository \<Rightarrow> string \<Rightarrow> string \<Rightarrow> bool result" where
  "CanAccessRepo anon privs_of userID roles repo path action =
     (if isAdmin roles then Inr True
      else if anonymousAllowed anon (r_allow_anonymous repo) \<and> isReadAction action then Inr True
      else if userID = [] then Inr False
      else (case privs_of userID of
          Inl e \<Rightarrow> Inl e
        | Inr privs \<Rightarrow>
            Inr (matchPrivileges privs (r_name repo)
              (if is_oci_registry (r_format repo) then assetSamplePath path else path) action)))"

text \<open>The privileges the listing filters work with: none for a caller without identity or when
  they cannot be read.\<close>

definition listing_privs :: "privilege_source \<Rightarrow> string \<Rightarrow> privilege list" where
  "listing_privs privs_of userID =
     (if userID \<noteq> [] then (case privs_of userID of Inr ps \<Rightarrow> ps | Inl _ \<Rightarrow> []) else [])"

definition FilterRepos ::
    "bool \<Rightarrow> privilege_source \<Rightarrow> string \<Rightarrow> string list \<Rightarrow> repository list \<Rightarrow> repository list" where
  "FilterRepos anon privs_of userID roles repos =
     (if isAdmin roles then repos
      else filter (\<lambda>repo. anonymousAllowed anon (r_allow_anonymous repo) \<or>
             matchPrivilegesRepoOnly (listing_privs privs_of userID) (r_name repo)) repos)"

definition FilterPaths ::
    "bool \<Rightarrow> privilege_source \<Rightarrow> string \<Rightarrow> string list \<Rightarrow> string \<Rightarrow> bool \<Rightarrow> string list \<Rightarrow> string list" where
  "FilterPaths anon privs_of userID roles repoName allowAnonymous paths =
     (if isAdmin roles \<or> anonymousAllowed anon allowAnonymous then paths
      else filter (\<lambda>p. matchPrivileges (listing_privs privs_of userID) repoName p ''browse'') paths)"

record docker_row =
  dr_component_id :: string
  dr_image_name :: string
  dr_version :: string
  dr_sample_path :: string

fun first_seen :: "string list \<Rightarrow> docker_row list \<Rightarrow> string list" where
  "first_seen seen [] = []"
| "first_seen seen (r # rs) =
     (if dr_image_name r \<in> set seen then first_seen seen rs
      else dr_image_name r # first_seen (dr_image_name r # seen) rs)"

definition FilterDockerRows ::
    "bool \<Rightarrow> privilege_source \<Rightarrow> string \<Rightarrow> string list \<Rightarrow> string \<Rightarrow> bool \<Rightarrow> docker_row list \<Rightarrow> docker_row list" where
  "FilterDockerRows anon privs_of userID roles repoName allowAnonymous rows =
     (if isAdmin roles \<or> anonymousAllowed anon allowAnonymous then rows
      else concat (map (\<lambda>img.
          let imageRows = filter (\<lambda>r. dr_image_name r = img) rows
          in if list_ex (\<lambda>r. matchPrivileges (listing_privs privs_of userID) repoName
                (assetSamplePath (dr_sample_path r)) ''browse'') imageRows
             then imageRows else []) (first_seen [] rows)))"

definition FilterOCIImageNames ::
    "bool \<Rightarrow> privilege_source \<Rightarrow> string \<Rightarrow> string list \<Rightarrow> repository \<Rightarrow> string list \<Rightarrow> string list" where
  "FilterOCIImageNames anon privs_of userID roles repo names =
     (if isAdmin roles \<or> anonymousAllowed anon (r_allow_anonymous repo) then names
      else if userID = [] then []
      else (case privs_of userID of
          Inl _ \<Rightarrow> []
        | Inr privs \<Rightarrow> filter (\<lambda>name. matchPrivileges privs (r_name repo) (''/'' @ name @ ''/'') ''browse'') names))"

definition FilterComponents ::
    "bool \<Rightarrow> privilege_source \<Rightarrow> string \<Rightarrow> string list \<Rightarrow> component list \<Rightarrow> (string \<Rightarrow> bool) \<Rightarrow> component list" where
  "FilterComponents anon privs_of userID roles items allowAnonByRepo =
     (if isAdmin roles then items
      else filter (\<lambda>c. if anonymousAllowed anon (allowAnonByRepo (c_repository c)) then True
             else if userID = [] then False
             else matchPrivileges (listing_privs privs_of userID) (c_repository c) (''/'' @ c_name c @ ''/'') ''browse'') items)"

definition FilterAssets ::
    "bool \<Rightarrow> privilege_source \<Rightarrow> string \<Rightarrow> string list \<Rightarrow> asset list \<Rightarrow> (string \<Rightarrow> bool) \<Rightarrow> asset list" where
  "FilterAssets anon privs_of userID roles items allowAnonByRepo =
     (if isAdmin roles then items
      else filter (\<lambda>a. if anonymousAllowed anon (allowAnonByRepo (a_repository a)) then True
             else if userID = [] then False
             else matchPrivileges (listing_privs privs_of userID) (a_repository a) (assetSamplePath (a_path a)) ''browse'') items)"

section \<open>The middleware\<close>

definition methodToAction :: "string \<Rightarrow> string" where
  "methodToAction method =
     (if method = ''PUT'' \<or> method = ''POST'' \<or> method = ''PATCH'' then ''write''
      else if method = ''DELETE'' then ''delete'' else ''read'')"

definition scope_rank :: "string \<Rightarrow> nat" where
  "scope_rank s = (if s = ''read'' then 1 else if s = ''write'' then 2 else if s = ''delete'' then 3 else 0)"

text \<open>\<open>None\<close>: the request does not carry an API token.\<close>

definition scopesAllow :: "string list option \<Rightarrow> string \<Rightarrow> bool" where
  "scopesAllow tokenScopes action =
     (case tokenScopes of
        None \<Rightarrow> True
      | Some scopes \<Rightarrow>
          if scopes = [] then True
          else (let need = (if scope_rank action = 0 then scope_rank ''read'' else scope_rank action)
                in list_ex (\<lambda>sc. scope_rank (to_lower (trim_space sc)) \<ge> need) scopes))"

record request =
  rq_method :: string
  rq_url_path :: string
  rq_repo_name :: string
  rq_path :: string
  rq_dockerpath :: string
  rq_token_scopes :: "string list option"
  rq_user_id :: string
  rq_roles :: "string list"

datatype verdict =
    Next
  | Forbidden_Scope
  | Unauthorized_Docker
  | Unauthorized_Basic
  | Forbidden
  | Server_Error

fun verdict_status :: "verdict \<Rightarrow> nat option" where
  "verdict_status Next = None"
| "verdict_status Forbidden_Scope = Some 403"
| "verdict_status Unauthorized_Docker = Some 401"
| "verdict_status Unauthorized_Basic = Some 401"
| "verdict_status Forbidden = Some 403"
| "verdict_status Server_Error = Some 500"

definition denyAccess :: "request \<Rightarrow> verdict" where
  "denyAccess rq =
     (if rq_user_id rq = [] then
        (if has_prefix (rq_url_path rq) ''/v2/'' then Unauthorized_Docker else Unauthorized_Basic)
      else Forbidden)"

definition request_path :: "request \<Rightarrow> string" where
  "request_path rq =
     (if rq_path rq \<noteq> [] then rq_path rq
      else if rq_dockerpath rq \<noteq> [] then rq_dockerpath rq else ''/'')"

definition RBACMiddleware :: "bool \<Rightarrow> privilege_source \<Rightarrow> world \<Rightarrow> request \<Rightarrow> verdict" where
  "RBACMiddleware anon privs_of w rq =
     (let action = methodToAction (rq_method rq) in
      if \<not> scopesAllow (rq_token_scopes rq) action then Forbidden_Scope
      else (case repos_get w (rq_repo_name rq) 0 of
          Inl _ \<Rightarrow> denyAccess rq
        | Inr repo \<Rightarrow>
            (case CanAccessRepo anon privs_of (rq_user_id rq) (rq_roles rq) repo (request_path rq) action of
               Inl _ \<Rightarrow> Server_Error
             | Inr ok \<Rightarrow> if ok then Next else denyAccess rq)))"

section \<open>Selector expressions\<close>

lemma quoted_between:
  assumes "CHR 0x22 \<notin> set pre" "CHR 0x22 \<notin> set post"
  shows "quoted (pre @ quote @ x @ quote @ post) = Some x"
  using index_char[OF assms(1), of "x @ quote @ post"] last_index_char[OF assms(2), of "pre @ quote @ x"]
  by (simp add: quoted_def)

text \<open>The two expressions the product generates for a content selector.\<close>

definition repo_selector :: "string \<Rightarrow> string" where
  "repo_selector x = ''repository == '' @ quote @ x @ quote"

definition path_selector :: "string \<Rightarrow> string" where
  "path_selector y = ''path.startsWith('' @ quote @ y @ quote @ '')''"

lemma evalRepoClause_selector: "evalRepoClause (repo_selector x) r \<longleftrightarrow> r = x"
  using quoted_between[of "''repository == ''" "[]" x] by (simp add: evalRepoClause_def repo_selector_def)

lemma evalPathClause_selector: "evalPathClause (path_selector y) p \<longleftrightarrow> has_prefix p y"
  using quoted_between[of "''path.startsWith(''" "'')''" y] by (simp add: evalPathClause_def path_selector_def)

lemma trim_repo_selector: "trim_space (repo_selector x) = repo_selector x"
  by (rule trim_space_id) (simp_all add: repo_selector_def is_space_def)

lemma trim_path_selector: "trim_space (path_selector y) = path_selector y"
  by (rule trim_space_id) (simp_all add: path_selector_def is_space_def)

lemma trim_both: "trim_space (repo_selector x @ '' && '' @ path_selector y) = repo_selector x @ '' && '' @ path_selector y"
  by (rule trim_space_id) (simp_all add: repo_selector_def path_selector_def is_space_def)

text \<open>
  The built-in evaluator means what CEL means on the selectors the product generates: a
  repository selector matches exactly that repository, a path selector exactly the paths that
  start with its prefix, and their conjunction both (names and prefixes without an ampersand; the
  quotes of a name do not confuse it).
\<close>

lemma evalCEL_generated:
  assumes "CHR ''&'' \<notin> set x" "CHR ''&'' \<notin> set y"
  shows "(evalCEL (repo_selector x) r p \<longleftrightarrow> r = x) \<and>
    (evalCEL (path_selector y) r p \<longleftrightarrow> has_prefix p y) \<and>
    (evalCEL (repo_selector x @ '' && '' @ path_selector y) r p \<longleftrightarrow> r = x \<and> has_prefix p y)"
proof (intro conjI)
  have x: "CHR ''&'' \<notin> set (repo_selector x)" using assms(1) by (simp add: repo_selector_def)
  have y: "CHR ''&'' \<notin> set (path_selector y)" using assms(2) by (simp add: path_selector_def)
  have "index_str (repo_selector x) '' && '' = None" by (rule index_str_absent[OF _ x]) simp
  moreover have "has_prefix (repo_selector x) ''repository''" by (simp add: repo_selector_def has_prefix_def)
  ultimately show "evalCEL (repo_selector x) r p \<longleftrightarrow> r = x"
    by (simp add: evalCEL_def trim_repo_selector evalRepoClause_selector)
  have "index_str (path_selector y) '' && '' = None" by (rule index_str_absent[OF _ y]) simp
  moreover have "has_prefix (path_selector y) ''path'' \<and> \<not> has_prefix (path_selector y) ''repository''"
    by (simp add: path_selector_def has_prefix_def)
  ultimately show "evalCEL (path_selector y) r p \<longleftrightarrow> has_prefix p y"
    by (simp add: evalCEL_def trim_path_selector evalPathClause_selector)
  show "evalCEL (repo_selector x @ '' && '' @ path_selector y) r p \<longleftrightarrow> r = x \<and> has_prefix p y"
    unfolding evalCEL_def Let_def trim_both index_and[OF x]
    by (simp add: trim_repo_selector trim_path_selector evalRepoClause_selector evalPathClause_selector)
qed

lemma evalCEL_generated_witness:
  "evalCEL (repo_selector ''maven'' @ '' && '' @ path_selector ''/com/'') ''maven'' ''/com/acme''"
  using evalCEL_generated[of "''maven''" "''/com/''" "''maven''" "''/com/acme''"] by (simp add: has_prefix_def)

text \<open>
  Outside the generated forms the evaluator does not deny: a selector that excludes one
  repository, which is a valid CEL expression, grants exactly the repository it excludes.
\<close>

lemma evalCEL_negation_grants:
  "let e = ''repository != '' @ quote @ ''secret'' @ quote in
   evalCEL e ''secret'' ''/x'' \<and> \<not> evalCEL e ''public'' ''/x''"
  by code_simp

section \<open>Sample paths\<close>

abbreviation oci_keywords :: "string list" where
  "oci_keywords \<equiv> [''/manifests/'', ''/blobs/'', ''/tags/'']"

abbreviation slashes :: "string \<Rightarrow> nat" where
  "slashes s \<equiv> length (filter (\<lambda>c. c = CHR ''/'') s)"

lemma has_prefix_slashes: "has_prefix s p \<Longrightarrow> slashes p \<le> slashes s"
  by (auto simp: has_prefix_iff)

lemma slashes_drop: "slashes (drop n s) \<le> slashes s"
  by (metis append_take_drop_id filter_append le_add2 length_append)

lemma keyword_index_le:
  assumes "CHR ''/'' \<notin> set ref" "kw \<in> set oci_keywords" "kw' \<in> set oci_keywords"
    and "last_index_str (pre @ kw @ ref) kw' = Some j"
  shows "j \<le> length pre"
proof (rule ccontr)
  assume "\<not> j \<le> length pre"
  then obtain m where j: "j = Suc (length pre + m)" by (metis add_Suc_right less_imp_Suc_add linorder_not_le)
  have ref: "slashes ref = 0" using assms(1) by (simp add: filter_empty_conv) blast
  have "drop j (pre @ kw @ ref) = drop (Suc m) (drop (length pre) (pre @ kw @ ref))"
    unfolding drop_drop j by (simp add: add.commute)
  also have "\<dots> = drop m (drop 1 (kw @ ref))" unfolding drop_drop by simp
  finally have "drop j (pre @ kw @ ref) = drop m (drop 1 (kw @ ref))" .
  then have "slashes (drop j (pre @ kw @ ref)) \<le> slashes (drop 1 (kw @ ref))" using slashes_drop by metis
  also have "\<dots> \<le> 1" using assms(2) ref by auto
  finally have "slashes (drop j (pre @ kw @ ref)) \<le> 1" .
  moreover have "slashes kw' = 2" using assms(3) by auto
  moreover have "has_prefix (drop j (pre @ kw @ ref)) kw'" using last_index_str_Some[OF assms(4)] by simp
  ultimately show False using has_prefix_slashes by fastforce
qed

lemma keyword_index_eq:
  assumes "CHR ''/'' \<notin> set ref" "kw \<in> set oci_keywords"
  shows "last_index_str (pre @ kw @ ref) kw = Some (length pre)"
proof (cases "last_index_str (pre @ kw @ ref) kw")
  case None
  then have "\<not> has_prefix (drop (length pre) (pre @ kw @ ref)) kw"
    unfolding last_index_str_None by (metis le_add1 length_append)
  then show ?thesis by simp
next
  case (Some j)
  have "\<not> j < length pre"
    using last_index_str_last[OF Some, of "length pre"] by auto
  with keyword_index_le[OF assms(1,2,2) Some] Some show ?thesis by simp
qed

lemma keyword_index_less:
  assumes "CHR ''/'' \<notin> set ref" "kw \<in> set oci_keywords" "kw' \<in> set oci_keywords" "kw' \<noteq> kw"
    and "last_index_str (pre @ kw @ ref) kw' = Some j"
  shows "j < length pre"
proof -
  have "j \<noteq> length pre"
    using last_index_str_Some[OF assms(5)] assms(2-4) by (auto simp: has_prefix_def)
  with keyword_index_le[OF assms(1-3,5)] show ?thesis by simp
qed

lemma last_keyword:
  assumes "CHR ''/'' \<notin> set ref" "kw \<in> set oci_keywords"
  shows "foldl (later_keyword (pre @ kw @ ref)) None oci_keywords = Some (length pre, kw)"
proof -
  have less: "\<And>kw' j. kw' \<in> set oci_keywords \<Longrightarrow> kw' \<noteq> kw \<Longrightarrow> last_index_str (pre @ kw @ ref) kw' = Some j \<Longrightarrow> j < length pre"
    using keyword_index_less[OF assms] by blast
  have eq: "last_index_str (pre @ kw @ ref) kw = Some (length pre)" by (rule keyword_index_eq[OF assms])
  consider "kw = ''/manifests/''" | "kw = ''/blobs/''" | "kw = ''/tags/''" using assms(2) by auto
  then show ?thesis
  proof cases
    case 1
    then show ?thesis using eq less[of "''/blobs/''"] less[of "''/tags/''"]
      by (auto simp: later_keyword_def split: option.splits)
  next
    case 2
    then show ?thesis using eq less[of "''/manifests/''"] less[of "''/tags/''"]
      by (auto simp: later_keyword_def split: option.splits)
  next
    case 3
    then show ?thesis using eq less[of "''/manifests/''"] less[of "''/blobs/''"]
      by (auto simp: later_keyword_def split: option.splits)
  qed
qed

lemma sample_of_live:
  assumes "CHR ''/'' \<notin> set ref" "kw \<in> set oci_keywords" "img \<noteq> []"
    and "(if trim_prefix p ''/v2/'' \<noteq> p then ''/'' @ trim_prefix p ''/v2/'' else trim_prefix p ''/v2/'') = ''/'' @ img @ kw @ ref"
  shows "assetSamplePath p = ''/'' @ img @ ''/''"
  using last_keyword[OF assms(1,2), of "''/'' @ img"] unfolding assetSamplePath_def Let_def assms(4) by simp

lemma last_keyword_stored:
  assumes "kw \<in> set oci_keywords" "\<forall>k\<in>set oci_keywords. \<not> str_contains (''/'' @ rest) k"
  shows "foldl (later_keyword (kw @ rest)) None oci_keywords = Some (0, kw)"
proof -
  obtain body where body: "kw = ''/'' @ body @ ''/''" "CHR ''/'' \<notin> set body"
    using assms(1) that[of "''manifests''"] that[of "''blobs''"] that[of "''tags''"] by auto
  have none: "last_index_str (''/'' @ rest) k = None" if "k \<in> set oci_keywords" for k
    using assms(2) that unfolding str_contains_def index_str_None last_index_str_None by blast
  have letters: "last_index_str (b @ ''/'' @ rest) k = None" if "k \<in> set oci_keywords" "CHR ''/'' \<notin> set b" for k b
    using that(2)
  proof (induction b)
    case (Cons c b)
    have "\<not> has_prefix ((c # b) @ ''/'' @ rest) k" using Cons.prems that(1) by auto
    with Cons show ?case by simp
  qed (use none that(1) in simp)
  have "last_index_str (kw @ rest) k = (if k = kw then Some 0 else None)" if "k \<in> set oci_keywords" for k
  proof -
    have tail: "last_index_str (body @ ''/'' @ rest) k = None" by (rule letters[OF that body(2)])
    have "has_prefix (kw @ rest) k \<longleftrightarrow> k = kw" using assms(1) that by (auto simp: has_prefix_def)
    with tail body show ?thesis by simp
  qed
  then show ?thesis using assms(1) by (auto simp: later_keyword_def)
qed

text \<open>
  The two shapes in which an OCI artifact reaches the access checks agree: the live request
  path, with or without the API prefix, and the stored asset path are both judged as the path of
  the image, whatever segments the image name has in the live shape, and as long as the image
  name and reference hold no protocol keyword as a segment in the stored shape.
\<close>

lemma assetSamplePath_shapes:
  assumes "CHR ''/'' \<notin> set ref" "kw \<in> {''/manifests/'', ''/blobs/'', ''/tags/''}" "img \<noteq> []"
  shows "assetSamplePath (''/v2/'' @ img @ kw @ ref) = ''/'' @ img @ ''/'' \<and>
    (\<not> has_prefix (img @ ''/'') ''v2/'' \<longrightarrow> assetSamplePath (''/'' @ img @ kw @ ref) = ''/'' @ img @ ''/'') \<and>
    (kw \<noteq> ''/tags/'' \<and> (\<forall>k\<in>{''/manifests/'', ''/blobs/'', ''/tags/''}. \<not> str_contains (''/'' @ img @ ''/'' @ ref) k) \<longrightarrow>
      assetSamplePath (kw @ img @ ''/'' @ ref) = ''/'' @ img @ ''/'')"
proof (intro conjI impI)
  have kw: "kw \<in> set oci_keywords" using assms(2) by simp
  have "trim_prefix (''/v2/'' @ img @ kw @ ref) ''/v2/'' = img @ kw @ ref" by (rule trim_prefix_append)
  moreover have "img @ kw @ ref \<noteq> ''/v2/'' @ img @ kw @ ref" by (metis append_self_conv2 append_assoc not_Cons_self2 list.distinct(1))
  ultimately show "assetSamplePath (''/v2/'' @ img @ kw @ ref) = ''/'' @ img @ ''/''"
    by (intro sample_of_live[OF assms(1) kw assms(3)]) simp
  show "assetSamplePath (''/'' @ img @ kw @ ref) = ''/'' @ img @ ''/''" if "\<not> has_prefix (img @ ''/'') ''v2/''"
  proof (rule sample_of_live[OF assms(1) kw assms(3)])
    have "\<not> has_prefix (''/'' @ img @ kw @ ref) ''/v2/''"
      using that assms(2) by (cases img; cases "tl img"; cases "tl (tl img)") (auto simp: has_prefix_def)
    then show "(if trim_prefix (''/'' @ img @ kw @ ref) ''/v2/'' \<noteq> ''/'' @ img @ kw @ ref
        then ''/'' @ trim_prefix (''/'' @ img @ kw @ ref) ''/v2/'' else trim_prefix (''/'' @ img @ kw @ ref) ''/v2/'') = ''/'' @ img @ kw @ ref"
      by (simp add: trim_prefix_def)
  qed
  assume st: "kw \<noteq> ''/tags/'' \<and> (\<forall>k\<in>{''/manifests/'', ''/blobs/'', ''/tags/''}. \<not> str_contains (''/'' @ img @ ''/'' @ ref) k)"
  have trim: "trim_prefix (kw @ img @ ''/'' @ ref) ''/v2/'' = kw @ img @ ''/'' @ ref"
    using assms(2) by (auto simp: trim_prefix_def has_prefix_def)
  have fold: "foldl (later_keyword (kw @ img @ ''/'' @ ref)) None oci_keywords = Some (0, kw)"
    by (rule last_keyword_stored[OF kw]) (use st in simp)
  have inner: "last_index_str (img @ ''/'' @ ref) ''/'' = Some (length img)"
    using last_index_char[OF assms(1), of img] by simp
  show "assetSamplePath (kw @ img @ ''/'' @ ref) = ''/'' @ img @ ''/''"
    unfolding assetSamplePath_def Let_def trim using fold st inner assms(3) by simp
qed

lemma assetSamplePath_shapes_witness:
  "assetSamplePath ''/v2/team/app/manifests/1.0'' = ''/team/app/'' \<and> assetSamplePath ''/manifests/team/app/1.0'' = ''/team/app/''"
proof -
  have "\<forall>k\<in>{''/manifests/'', ''/blobs/'', ''/tags/''}. \<not> str_contains (''/'' @ ''team/app'' @ ''/'' @ ''1.0'') k" by code_simp
  with assetSamplePath_shapes[of "''1.0''" "''/manifests/''" "''team/app''"] show ?thesis by simp
qed

section \<open>Decisions\<close>

lemma matchPrivileges_iff: "matchPrivileges ps r p a \<longleftrightarrow>
    (\<exists>q\<in>set ps. actionAllowed (pv_actions q) a \<and> evalCEL (pv_expression q) r p)"
  by (induction ps) auto

lemma matchPrivilegesRepoOnly_iff: "matchPrivilegesRepoOnly ps r \<longleftrightarrow>
    (\<exists>q\<in>set ps. actionAllowed (pv_actions q) ''read'' \<and> evalCELRepoOnly (pv_expression q) r)"
  by (induction ps) auto

lemma isAdmin_iff: "isAdmin roles \<longleftrightarrow> ''nx-admin'' \<in> set roles"
  by (auto simp: isAdmin_def list_ex_iff)

text \<open>
  C23. The middleware lets a request through exactly when its token scopes cover the action, the
  repository exists, and the caller is an administrator, or the request is an anonymous read that
  the instance and the repository both allow, or one of the caller's privileges covers the action
  and its selector matches. Everything else is refused: 401 without an identity, 403 with one,
  500 only when the privileges cannot be read.
\<close>

theorem RBACMiddleware_decision:
  fixes rq :: request
  defines "act \<equiv> methodToAction (rq_method rq)"
  shows "(RBACMiddleware anon privs_of w rq = Next \<longleftrightarrow>
      scopesAllow (rq_token_scopes rq) act \<and>
      (\<exists>repo. repos_get w (rq_repo_name rq) 0 = Inr repo \<and>
        (''nx-admin'' \<in> set (rq_roles rq) \<or>
         anon \<and> r_allow_anonymous repo \<and> act = ''read'' \<or>
         rq_user_id rq \<noteq> [] \<and> (\<exists>privs. privs_of (rq_user_id rq) = Inr privs \<and>
           (\<exists>q\<in>set privs. (pv_actions q = [] \<or> act \<in> set (pv_actions q)) \<and>
             evalCEL (pv_expression q) (r_name repo)
               (if is_oci_registry (r_format repo) then assetSamplePath (request_path rq) else request_path rq)))))) \<and>
    (rq_user_id rq = [] \<and> scopesAllow (rq_token_scopes rq) act \<and> RBACMiddleware anon privs_of w rq \<noteq> Next \<longrightarrow>
      verdict_status (RBACMiddleware anon privs_of w rq) = Some 401) \<and>
    (rq_user_id rq \<noteq> [] \<and> is_ok (privs_of (rq_user_id rq)) \<and> RBACMiddleware anon privs_of w rq \<noteq> Next \<longrightarrow>
      verdict_status (RBACMiddleware anon privs_of w rq) = Some 403)"
proof -
  have rd: "isReadAction act \<longleftrightarrow> act = ''read''" by (auto simp: isReadAction_def act_def methodToAction_def)
  have allowed: "actionAllowed as act \<longleftrightarrow> as = [] \<or> act \<in> set as" for as
    by (auto simp: actionAllowed_def list_ex_iff)
  show ?thesis
    by (cases "scopesAllow (rq_token_scopes rq) act"; cases "repos_get w (rq_repo_name rq) 0"; cases "privs_of (rq_user_id rq)")
      (auto simp: RBACMiddleware_def Let_def act_def[symmetric] CanAccessRepo_def denyAccess_def anonymousAllowed_def
        isAdmin_iff rd allowed matchPrivileges_iff)
qed

definition empty_world :: world where
  "empty_world = \<lparr>w_repos = [], w_blobs = [], w_comps = [], w_assets = [], w_phys = (\<lambda>_. []),
     w_rr = (\<lambda>_. 0), w_seq = 0, w_gen_id = (\<lambda>_. []), w_uuid_ok = (\<lambda>_. True), w_now = 0, w_fault = no_faults,
     w_events = [], w_downloads = [], w_scans = []\<rparr>"

theorem RBACMiddleware_decision_witness:
  "RBACMiddleware True (\<lambda>_. Inr []) empty_world
     \<lparr>rq_method = ''GET'', rq_url_path = ''/repository/x/y'', rq_repo_name = ''x'', rq_path = ''/y'', rq_dockerpath = [],
      rq_token_scopes = None, rq_user_id = [], rq_roles = []\<rparr> \<noteq> Next"
  by (subst RBACMiddleware_decision) (simp add: repos_get_def row_or_not_found_def guard_io_def empty_world_def)

text \<open>
  A scoped API token caps its owner, administrators included: when every scope of the token
  ranks below the action (read below write below delete; unknown scopes rank lowest), the request
  is refused whatever the roles and privileges.
\<close>

lemma scoped_token_caps_admin:
  assumes "rq_token_scopes rq = Some scopes" "scopes \<noteq> []"
    and "\<forall>sc\<in>set scopes. scope_rank (to_lower (trim_space sc)) < scope_rank (methodToAction (rq_method rq))"
  shows "RBACMiddleware anon privs_of w rq = Forbidden_Scope"
proof -
  have "scope_rank (methodToAction m) \<noteq> 0" for m by (simp add: methodToAction_def scope_rank_def)
  with assms show ?thesis
    by (auto simp: RBACMiddleware_def Let_def scopesAllow_def list_ex_iff not_le split: if_splits)
qed

lemma scoped_token_caps_admin_witness:
  "RBACMiddleware True (\<lambda>_. Inr []) empty_world
     \<lparr>rq_method = ''DELETE'', rq_url_path = ''/repository/x/y'', rq_repo_name = ''x'', rq_path = ''/y'', rq_dockerpath = [],
      rq_token_scopes = Some ['' Write ''], rq_user_id = ''root'', rq_roles = [''nx-admin'']\<rparr> = Forbidden_Scope"
proof -
  have "scope_rank (to_lower (trim_space '' Write '')) < scope_rank (methodToAction ''DELETE'')" by code_simp
  then show ?thesis by (intro scoped_token_caps_admin[of _ "['' Write '']"]) simp_all
qed

section \<open>Listings\<close>

lemma listing_privs_ok: "privs_of u = Inr ps \<Longrightarrow> u \<noteq> [] \<Longrightarrow> listing_privs privs_of u = ps"
  by (simp add: listing_privs_def)

text \<open>
  The path listing of a repository shows exactly the paths the caller may browse, for every
  repository whose paths are judged as they are, that is, of a format other than the OCI ones.
\<close>

lemma FilterPaths_exact:
  assumes "\<not> is_oci_registry (r_format repo)" "is_ok (privs_of userID)"
  shows "FilterPaths anon privs_of userID roles (r_name repo) (r_allow_anonymous repo) paths =
    filter (\<lambda>p. CanAccessRepo anon privs_of userID roles repo p ''browse'' = Inr True) paths"
proof -
  obtain ps where ps: "privs_of userID = Inr ps" using assms(2) by (auto simp: is_ok_iff)
  show ?thesis
    using assms(1) ps
    by (cases "userID = []") (auto simp: FilterPaths_def CanAccessRepo_def isReadAction_def listing_privs_def)
qed

definition demo_raw_repo :: repository where
  "demo_raw_repo = \<lparr>r_id = ''r1'', r_name = ''raw'', r_format = ''raw'', r_type = ''hosted'',
     r_blob_store_id = None, r_online = True, r_format_config = [], r_proxy_config = [], r_cleanup_policy_ids = [],
     r_quota_bytes = None, r_routing_rule_id = None, r_allow_anonymous = False\<rparr>"

definition demo_privs :: privilege_source where
  "demo_privs u = Inr (if u = ''bob'' then [\<lparr>pv_actions = [''read'', ''browse''],
     pv_expression = repo_selector ''raw'' @ '' && '' @ path_selector ''/pub/''\<rparr>] else [])"

lemma FilterPaths_exact_witness:
  "FilterPaths False demo_privs ''bob'' [] ''raw'' False [''/pub/a'', ''/priv/b''] =
    filter (\<lambda>p. CanAccessRepo False demo_privs ''bob'' [] demo_raw_repo p ''browse'' = Inr True) [''/pub/a'', ''/priv/b'']"
proof -
  have "\<not> is_oci_registry (r_format demo_raw_repo)" "is_ok (demo_privs ''bob'')" by code_simp+
  with FilterPaths_exact[of demo_raw_repo demo_privs "''bob''" False "[]" "[''/pub/a'', ''/priv/b'']"]
  show ?thesis by (simp add: demo_raw_repo_def)
qed

lemma clause_before_and:
  assumes "has_prefix e pre" "pre \<noteq> []" "\<forall>c\<in>set pre. \<not> is_space c" "index_str e '' && '' = Some idx"
  shows "has_prefix (trim_space (take idx e)) pre"
proof -
  obtain t where e: "e = pre @ t" using assms(1) by (auto simp: has_prefix_iff)
  have "has_prefix (drop idx e) '' && ''" using index_str_Some[OF assms(4)] by simp
  then have sp: "idx < length e" "e ! idx = CHR '' ''"
    by (auto simp: has_prefix_iff) (metis drop_eq_Nil linorder_not_le list.distinct(1), metis drop_eq_Nil hd_drop_conv_nth linorder_not_le list.distinct(1) list.sel(1))
  have "length pre \<le> idx"
  proof (rule ccontr)
    assume "\<not> length pre \<le> idx"
    then have "CHR '' '' \<in> set pre" using sp e by (metis linorder_not_le nth_append nth_mem)
    with assms(3) show False by (auto simp: is_space_def)
  qed
  then have "take idx e = pre @ take (idx - length pre) t" by (simp add: e)
  with trim_space_keeps_prefix[OF assms(2,3)] show ?thesis by simp
qed

lemma evalCEL_RepoOnly:
  assumes "evalCEL e r p" "has_prefix (trim_space e) ''repository'' \<or> has_prefix (trim_space e) ''path''"
  shows "evalCELRepoOnly e r"
proof (cases "index_str (trim_space e) '' && ''")
  case None
  with assms show ?thesis by (auto simp: evalCEL_def evalCELRepoOnly_def Let_def split: if_splits)
next
  case (Some idx)
  let ?c = "trim_space (take idx (trim_space e))"
  have "has_prefix ?c ''repository'' \<or> has_prefix ?c ''path''"
    using assms(2) clause_before_and[OF _ _ _ Some] by (auto simp: is_space_def)
  with assms(1) Some show ?thesis by (auto simp: evalCEL_def evalCELRepoOnly_def Let_def)
qed

text \<open>
  The repository list hides nothing the caller can use: a repository in which the caller can read
  some path is in the filtered list, provided the selectors start with a repository or a path
  clause, as the generated ones do.
\<close>

lemma FilterRepos_complete:
  assumes "repo \<in> set repos" "CanAccessRepo anon privs_of userID roles repo path ''read'' = Inr True"
    and "\<And>ps q. privs_of userID = Inr ps \<Longrightarrow> q \<in> set ps \<Longrightarrow>
      has_prefix (trim_space (pv_expression q)) ''repository'' \<or> has_prefix (trim_space (pv_expression q)) ''path''"
  shows "repo \<in> set (FilterRepos anon privs_of userID roles repos)"
proof (cases "isAdmin roles \<or> anonymousAllowed anon (r_allow_anonymous repo)")
  case True
  with assms(1) show ?thesis by (auto simp: FilterRepos_def)
next
  case False
  with assms(2) obtain ps where ps: "userID \<noteq> []" "privs_of userID = Inr ps"
    and "matchPrivileges ps (r_name repo) (if is_oci_registry (r_format repo) then assetSamplePath path else path) ''read''"
    by (auto simp: CanAccessRepo_def split: if_splits sum.splits)
  then obtain q where "q \<in> set ps" "actionAllowed (pv_actions q) ''read''" "evalCELRepoOnly (pv_expression q) (r_name repo)"
    unfolding matchPrivileges_iff using evalCEL_RepoOnly assms(3)[OF ps(2)] by blast
  then have "matchPrivilegesRepoOnly (listing_privs privs_of userID) (r_name repo)"
    using ps by (auto simp: matchPrivilegesRepoOnly_iff listing_privs_def)
  with False assms(1) show ?thesis by (simp add: FilterRepos_def)
qed

lemma FilterRepos_complete_witness:
  "demo_raw_repo \<in> set (FilterRepos False demo_privs ''bob'' [] [demo_raw_repo])"
proof (rule FilterRepos_complete)
  show "demo_raw_repo \<in> set [demo_raw_repo]" by simp
  show "CanAccessRepo False demo_privs ''bob'' [] demo_raw_repo ''/pub/a'' ''read'' = Inr True" by code_simp
  fix ps q assume "demo_privs ''bob'' = Inr ps" "q \<in> set ps"
  then have "pv_expression q = repo_selector ''raw'' @ '' && '' @ path_selector ''/pub/''" by (auto simp: demo_privs_def)
  then show "has_prefix (trim_space (pv_expression q)) ''repository'' \<or> has_prefix (trim_space (pv_expression q)) ''path''"
    by (simp only: trim_both) (simp add: repo_selector_def has_prefix_def)
qed

text \<open>
  The asset listing judges raw paths as if they were OCI paths: an asset of a raw repository whose
  path starts with a protocol keyword is listed to a caller who may not read it.
\<close>

lemma FilterAssets_lists_unreadable:
  "let a = \<lparr>a_id = ''1'', a_component_id = ''c'', a_repository_id = ''r1'', a_repository = ''raw'', a_path = ''/blobs/pub/key.pem'',
         a_blob_store_id = ''b'', a_blob_key = ''k'', a_size_bytes = 1, a_content_type = [], a_sha1 = [], a_sha256 = [], a_md5 = [],
         a_uploader_id = [], a_last_modified = 0, a_last_downloaded = None, a_download_count = 0, a_created_at = 0\<rparr>
   in FilterAssets False demo_privs ''bob'' [] [a] (\<lambda>_. False) = [a] \<and>
      CanAccessRepo False demo_privs ''bob'' [] demo_raw_repo (a_path a) ''read'' = Inr False \<and>
      CanAccessRepo False demo_privs ''bob'' [] demo_raw_repo (a_path a) ''browse'' = Inr False"
  by code_simp

text \<open>
  A privilege whose list of actions is empty, which is also what is left of one whose actions
  fail to decode, is not inert: it carries a deletion through the middleware for a user without
  any role.
\<close>

lemma privilege_without_actions_grants_all:
  "RBACMiddleware False (\<lambda>_. Inr [\<lparr>pv_actions = [], pv_expression = repo_selector ''raw''\<rparr>])
     (empty_world\<lparr>w_repos := [demo_raw_repo]\<rparr>)
     \<lparr>rq_method = ''DELETE'', rq_url_path = ''/repository/raw/y'', rq_repo_name = ''raw'', rq_path = ''/y'', rq_dockerpath = [],
      rq_token_scopes = None, rq_user_id = ''bob'', rq_roles = []\<rparr> = Next"
  by code_simp

end
