(* ===== verification/Group_Repo.thy ===== *)
theory Group_Repo
  imports Http_Exchange Selectors RBAC
begin

text \<open>
  Group repositories, after \<^verbatim>\<open>internal/formats/group/handler.go\<close> and the interfaces of
  \<^verbatim>\<open>internal/formats/group_merge.go\<close>: a request fans out to the members in order, and the first
  answer that is not a 404 is relayed; index documents are merged across all members; writes go to
  one hosted member.
\<close>

section \<open>The interfaces\<close>

text \<open>
  What the recorder holds after a member's handler ran: \<^verbatim>\<open>Code\<close>, \<^verbatim>\<open>Header()\<close> and \<^verbatim>\<open>Body\<close>.
\<close>

record member_response =
  mr_code :: nat
  mr_headers :: "(string \<times> string) list"
  mr_body :: string

record index_part =
  ip_member :: string
  ip_body :: string

text \<open>
  The state a fetcher of sub-indexes works on: the world, and the parts it collected so far per
  source path.
\<close>

type_synonym fetch_state = "world \<times> (string \<times> index_part list) list"
type_synonym index_fetcher = "fetch_state \<Rightarrow> string \<Rightarrow> fetch_state \<times> string result"

text \<open>
  The optional interfaces a handler may implement are options. A pager takes the request, the path
  and the merged document, and returns the headers it sets and the page.
\<close>

record index_pager =
  pg_member_query :: "string \<Rightarrow> string \<Rightarrow> string"
  pg_page :: "gin_request \<Rightarrow> string \<Rightarrow> string \<Rightarrow> ((string \<times> string) list \<times> string) result"

record index_merger =
  im_source :: "string \<Rightarrow> string option"
  im_merge :: "string \<Rightarrow> string \<Rightarrow> index_part list \<Rightarrow> (string \<times> string) result"
  im_dependent :: "(string \<Rightarrow> string \<Rightarrow> index_part list \<Rightarrow> index_fetcher \<Rightarrow> fetch_state \<Rightarrow> fetch_state \<times> (string \<times> string) result) option"
  im_strict :: "(string \<Rightarrow> nat \<Rightarrow> bool) option"
  im_pager :: "index_pager option"

record format_handler =
  fh_serve :: "world \<Rightarrow> gin_request \<Rightarrow> world \<times> member_response"
  fh_merger :: "index_merger option"

text \<open>
  The group handler: the registry of formats, the routing rules by id where they are configured, and
  the regular-expression engine of \<open>Selectors\<close>.
\<close>

record 'p group_handler =
  gh_registry :: "string \<Rightarrow> format_handler option"
  gh_rules :: "(string \<Rightarrow> routing_rule result) option"
  gh_compile :: "string \<Rightarrow> 'p result"
  gh_match :: "'p \<Rightarrow> string \<Rightarrow> bool"

section \<open>Members\<close>

definition hasTraversalSegment :: "string \<Rightarrow> bool" where
  "hasTraversalSegment p \<longleftrightarrow> ''..'' \<in> set (split_on slash p)"

text \<open>The matcher cache does not show in the decision, so it starts empty.\<close>

definition rule_allows :: "'p group_handler \<Rightarrow> routing_rule option \<Rightarrow> string \<Rightarrow> bool" where
  "rule_allows h rule path = snd (Allow (gh_compile h) (gh_match h) [] rule path)"

definition group_rule :: "'p group_handler \<Rightarrow> repository \<Rightarrow> routing_rule option" where
  "group_rule h groupDef =
     (case (r_routing_rule_id groupDef, gh_rules h) of
        (Some i, Some rules) \<Rightarrow> (case rules i of Inr r \<Rightarrow> Some r | Inl _ \<Rightarrow> None)
      | _ \<Rightarrow> None)"

definition eligibleMember :: "world \<Rightarrow> string \<Rightarrow> repository \<Rightarrow> repository option" where
  "eligibleMember w memberName groupDef =
     (case repos_get w memberName 301 of
        Inl _ \<Rightarrow> None
      | Inr m \<Rightarrow>
          if \<not> r_online m \<or> r_type m = ''group'' \<or> r_format m \<noteq> r_format groupDef then None else Some m)"

text \<open>The member's handler, when the member is asked at all.\<close>

definition consulted :: "'p group_handler \<Rightarrow> repository \<Rightarrow> routing_rule option \<Rightarrow> string \<Rightarrow> world \<Rightarrow> string \<Rightarrow> format_handler option" where
  "consulted h groupDef rule path w memberName =
     (if \<not> rule_allows h rule path then None
      else (case eligibleMember w memberName groupDef of None \<Rightarrow> None | Some m \<Rightarrow> gh_registry h (r_format m)))"

definition member_request :: "gin_request \<Rightarrow> string \<Rightarrow> string \<Rightarrow> string \<Rightarrow> gin_request" where
  "member_request q memberName path rawQuery =
     q\<lparr>q_repo := memberName, q_path := path, q_query := ParseQuery rawQuery\<rparr>"

definition member_code :: "member_response \<Rightarrow> nat" where
  "member_code resp = (if mr_code resp = 0 then 200 else mr_code resp)"

definition relayed :: "gin_request \<Rightarrow> string \<Rightarrow> nat \<Rightarrow> member_response \<Rightarrow> reply" where
  "relayed q memberName code resp =
     \<lparr>h_status = code, h_headers = filter (\<lambda>h. fst h \<noteq> ''X-Nexspence-Source'') (mr_headers resp) @ [(''X-Nexspence-Source'', memberName)],
      h_body = (if q_method q \<noteq> ''HEAD'' \<and> mr_body resp \<noteq> [] then Bytes (mr_body resp) else No_Body)\<rparr>"

definition group_error :: "nat \<Rightarrow> reply" where
  "group_error s = \<lparr>h_status = s, h_headers = [], h_body = Json_Error\<rparr>"

section \<open>The first answer\<close>

fun serve_first ::
    "'p group_handler \<Rightarrow> repository \<Rightarrow> routing_rule option \<Rightarrow> gin_request \<Rightarrow> string \<Rightarrow> string \<Rightarrow> string list \<Rightarrow> world \<Rightarrow> world \<times> reply" where
  "serve_first h groupDef rule q path rawQuery [] w = (w, group_error 404)"
| "serve_first h groupDef rule q path rawQuery (m # ms) w =
     (case consulted h groupDef rule path w m of
        None \<Rightarrow> serve_first h groupDef rule q path rawQuery ms w
      | Some fh \<Rightarrow>
          (case fh_serve fh w (member_request q m path rawQuery) of (w', resp) \<Rightarrow>
             if member_code resp = 404 then serve_first h groupDef rule q path rawQuery ms w'
             else (w', relayed q m (member_code resp) resp)))"

section \<open>Merged indexes\<close>

text \<open>The parts and who contributed, or the member whose failure is fatal.\<close>

fun collectIndexParts ::
    "'p group_handler \<Rightarrow> repository \<Rightarrow> routing_rule option \<Rightarrow> (string \<Rightarrow> nat \<Rightarrow> bool) option \<Rightarrow> gin_request \<Rightarrow> string \<Rightarrow> string \<Rightarrow>
     string list \<Rightarrow> world \<Rightarrow> world \<times> ((string \<times> member_response) + index_part list)" where
  "collectIndexParts h groupDef rule strict q source memberQuery [] w = (w, Inr [])"
| "collectIndexParts h groupDef rule strict q source memberQuery (m # ms) w =
     (case consulted h groupDef rule source w m of
        None \<Rightarrow> collectIndexParts h groupDef rule strict q source memberQuery ms w
      | Some fh \<Rightarrow>
          (case fh_serve fh w (member_request q m source memberQuery) of (w1, resp) \<Rightarrow>
             if member_code resp < 200 \<or> member_code resp > 299 then
               (if (case strict of Some fatal \<Rightarrow> fatal source (member_code resp) | None \<Rightarrow> False)
                then (w1, Inl (m, resp))
                else collectIndexParts h groupDef rule strict q source memberQuery ms w1)
             else
               (case collectIndexParts h groupDef rule strict q source memberQuery ms w1 of
                  (w2, Inl f) \<Rightarrow> (w2, Inl f)
                | (w2, Inr parts) \<Rightarrow> (w2, Inr (\<lparr>ip_member = m, ip_body = mr_body resp\<rparr> # parts)))))"

definition subIndexFetcher ::
    "'p group_handler \<Rightarrow> gin_request \<Rightarrow> repository \<Rightarrow> string list \<Rightarrow> routing_rule option \<Rightarrow> index_merger \<Rightarrow> index_fetcher" where
  "subIndexFetcher h q groupDef members rule merger st p =
     (if hasTraversalSegment p then (st, Inl (ErrMsg ''index path must not contain a .. segment''))
      else
        (let source = (case im_source merger p of Some s \<Rightarrow> s | None \<Rightarrow> p);
             (st', got) = (case map_of (snd st) source of
                 Some parts \<Rightarrow> (st, Inr parts)
               | None \<Rightarrow>
                   (case collectIndexParts h groupDef rule (im_strict merger) q source [] members (fst st) of
                      (w', Inl _) \<Rightarrow> ((w', snd st), Inl (ErrMsg ''member could not serve''))
                    | (w', Inr parts) \<Rightarrow> ((w', (source, parts) # snd st), Inr parts)))
         in case got of
              Inl e \<Rightarrow> (st', Inl e)
            | Inr parts \<Rightarrow>
                if parts = [] then (st', Inl (ErrMsg ''index not found in any member''))
                else (case im_merge merger (r_name groupDef) p parts of
                    Inl e \<Rightarrow> (st', Inl e)
                  | Inr (body, _) \<Rightarrow> (st', Inr body))))"

definition mergeIndexParts ::
    "'p group_handler \<Rightarrow> gin_request \<Rightarrow> repository \<Rightarrow> string list \<Rightarrow> routing_rule option \<Rightarrow> index_merger \<Rightarrow> string \<Rightarrow> index_part list \<Rightarrow>
     world \<Rightarrow> world \<times> (string \<times> string) result" where
  "mergeIndexParts h q groupDef members rule merger requestPath parts w =
     (case im_dependent merger of
        None \<Rightarrow> (w, im_merge merger (r_name groupDef) requestPath parts)
      | Some merge_with \<Rightarrow>
          (case merge_with (r_name groupDef) requestPath parts (subIndexFetcher h q groupDef members rule merger) (w, []) of
             (st, r) \<Rightarrow> (fst st, r)))"

definition serveMergedIndex ::
    "'p group_handler \<Rightarrow> gin_request \<Rightarrow> repository \<Rightarrow> string list \<Rightarrow> routing_rule option \<Rightarrow> index_merger \<Rightarrow> string \<Rightarrow> string \<Rightarrow> string \<Rightarrow>
     world \<Rightarrow> world \<times> reply" where
  "serveMergedIndex h q groupDef members rule merger source requestPath rawQuery w =
     (let memberQuery = (case im_pager merger of Some pg \<Rightarrow> pg_member_query pg source rawQuery | None \<Rightarrow> rawQuery) in
      case collectIndexParts h groupDef rule (im_strict merger) q source memberQuery members w of
        (w1, Inl (m, resp)) \<Rightarrow> (w1, relayed q m (mr_code resp) resp)
      | (w1, Inr parts) \<Rightarrow>
          if parts = [] then (w1, group_error 404)
          else
            (let from = [(''X-Nexspence-Source'', join_with '','' (map ip_member parts))] in
             case mergeIndexParts h q groupDef members rule merger requestPath parts w1 of (w2, merged) \<Rightarrow>
               (case (case merged of
                        Inl e \<Rightarrow> Inl e
                      | Inr (body, ct) \<Rightarrow>
                          (case im_pager merger of
                             None \<Rightarrow> Inr ([], body, ct)
                           | Some pg \<Rightarrow> (case pg_page pg q requestPath body of Inl e \<Rightarrow> Inl e | Inr (hs, page) \<Rightarrow> Inr (hs, page, ct)))) of
                  Inl e \<Rightarrow>
                    if im_strict merger \<noteq> None then (w2, (group_error 502)\<lparr>h_headers := from\<rparr>)
                    else (w2, \<lparr>h_status = 200, h_headers = from @ [(''Content-Type'', ''application/octet-stream'')],
                            h_body = Bytes (ip_body (hd parts))\<rparr>)
                | Inr (hs, body, ct) \<Rightarrow>
                    (w2, \<lparr>h_status = 200, h_headers = from @ hs @ [(''Content-Type'', ct)], h_body = Bytes body\<rparr>))))"

section \<open>Requests\<close>

definition serveGet :: "'p group_handler \<Rightarrow> world \<Rightarrow> gin_request \<Rightarrow> string \<Rightarrow> world \<times> reply" where
  "serveGet h w q rawQuery =
     (case repos_get w (q_repo q) 300 of
        Inl _ \<Rightarrow> (w, group_error 404)
      | Inr groupDef \<Rightarrow>
          (let members = group_member_names groupDef; rule = group_rule h groupDef; path = q_path q in
           if members = [] then (w, group_error 404)
           else (case (case gh_registry h (r_format groupDef) of
                   None \<Rightarrow> None
                 | Some fh \<Rightarrow> (case fh_merger fh of
                       None \<Rightarrow> None
                     | Some merger \<Rightarrow> map_option (\<lambda>source. (merger, source)) (im_source merger path))) of
               Some (merger, source) \<Rightarrow> serveMergedIndex h q groupDef members rule merger source path rawQuery w
             | None \<Rightarrow> serve_first h groupDef rule q path rawQuery members w)))"

fun first_hosted :: "world \<Rightarrow> string \<Rightarrow> string list \<Rightarrow> string" where
  "first_hosted w format [] = []"
| "first_hosted w format (m # ms) =
     (case repos_get w m 302 of
        Inl _ \<Rightarrow> first_hosted w format ms
      | Inr r \<Rightarrow> if r_online r \<and> r_type r = ''hosted'' \<and> r_format r = format then m else first_hosted w format ms)"

definition serveWrite :: "'p group_handler \<Rightarrow> world \<Rightarrow> gin_request \<Rightarrow> string \<Rightarrow> world \<times> reply" where
  "serveWrite h w q rawQuery =
     (case repos_get w (q_repo q) 300 of
        Inl _ \<Rightarrow> (w, group_error 404)
      | Inr groupDef \<Rightarrow>
          (let target = (if group_writable_member groupDef \<noteq> [] then group_writable_member groupDef
                         else first_hosted w (r_format groupDef) (group_member_names groupDef))
           in if target = [] then (w, group_error 405)
              else (case repos_get w target 303 of
                  Inl _ \<Rightarrow> (w, group_error 404)
                | Inr t \<Rightarrow>
                    if r_type t \<noteq> ''hosted'' \<or> \<not> r_online t \<or> r_format t \<noteq> r_format groupDef then (w, group_error 409)
                    else (case gh_registry h (r_format t) of
                        None \<Rightarrow> (w, group_error 500)
                      | Some fh \<Rightarrow>
                          (case fh_serve fh w (member_request q target (q_path q) rawQuery) of (w', resp) \<Rightarrow>
                             (w', \<lparr>h_status = member_code resp, h_headers = mr_headers resp,
                                   h_body = (if mr_body resp \<noteq> [] then Bytes (mr_body resp) else No_Body)\<rparr>))))))"

definition group_ServeHTTP :: "'p group_handler \<Rightarrow> world \<Rightarrow> gin_request \<Rightarrow> string \<Rightarrow> world \<times> reply" where
  "group_ServeHTTP h w q rawQuery =
     (if hasTraversalSegment (q_path q) then (w, group_error 400)
      else if q_method q \<in> {''GET'', ''HEAD''} then serveGet h w q rawQuery
      else if q_method q \<in> {''PUT'', ''POST'', ''PATCH''} then serveWrite h w q rawQuery
      else (w, group_error 405))"

section \<open>Writes\<close>

lemma first_hosted_ok:
  "first_hosted w format ms = m \<Longrightarrow> m \<noteq> [] \<Longrightarrow> m \<in> set ms"
  by (induction ms) (auto split: sum.splits if_splits)

text \<open>
  C19. A write through a group reaches one online hosted repository of the group's own format or
  nothing at all: whatever the configuration names as writable member, the only change to the
  world is what that repository's handler does with the request, and a path with a \<^verbatim>\<open>..\<close> segment or a
  deletion changes nothing.
\<close>

theorem group_write_confined:
  assumes "group_ServeHTTP h w q rawQuery = (w', r)" "q_method q \<notin> {''GET'', ''HEAD''}"
  shows "w' = w \<and> 400 \<le> h_status r \<or>
    (\<exists>groupDef target t fh. repos_get w (q_repo q) 300 = Inr groupDef \<and> repos_get w target 303 = Inr t \<and>
       r_type t = ''hosted'' \<and> r_online t \<and> r_format t = r_format groupDef \<and> gh_registry h (r_format t) = Some fh \<and>
       w' = fst (fh_serve fh w (member_request q target (q_path q) rawQuery)) \<and>
       \<not> hasTraversalSegment (q_path q) \<and> q_method q \<in> {''PUT'', ''POST'', ''PATCH''})"
proof (cases "hasTraversalSegment (q_path q) \<or> q_method q \<notin> {''PUT'', ''POST'', ''PATCH''}")
  case True
  with assms show ?thesis by (auto simp: group_ServeHTTP_def group_error_def split: if_splits)
next
  case False
  then have wr: "serveWrite h w q rawQuery = (w', r)" using assms by (auto simp: group_ServeHTTP_def)
  show ?thesis
  proof (cases "repos_get w (q_repo q) 300")
    case (Inl e)
    with wr show ?thesis by (auto simp: serveWrite_def group_error_def)
  next
    case g: (Inr groupDef)
    define target where "target = (if group_writable_member groupDef \<noteq> [] then group_writable_member groupDef
      else first_hosted w (r_format groupDef) (group_member_names groupDef))"
    show ?thesis
    proof (cases "target = []")
      case True
      with wr g show ?thesis by (auto simp: serveWrite_def Let_def target_def group_error_def)
    next
      case named: False
      show ?thesis
      proof (cases "repos_get w target 303")
        case (Inl e)
        with wr g named show ?thesis by (auto simp: serveWrite_def Let_def target_def[symmetric] group_error_def)
      next
        case t: (Inr t)
        show ?thesis
        proof (cases "r_type t = ''hosted'' \<and> r_online t \<and> r_format t = r_format groupDef \<and> gh_registry h (r_format t) \<noteq> None")
          case True
          with wr g named t False show ?thesis
            by (intro disjI2 exI[of _ groupDef] exI[of _ target] exI[of _ t] exI[of _ "the (gh_registry h (r_format t))"])
              (auto simp: serveWrite_def Let_def target_def[symmetric] split: prod.splits)
        next
          case False
          with wr g named t show ?thesis
            by (auto simp: serveWrite_def Let_def target_def[symmetric] group_error_def split: if_splits option.splits)
        qed
      qed
    qed
  qed
qed

definition demo_group :: repository where
  "demo_group = demo_raw_repo\<lparr>r_name := ''all'', r_type := ''group'', r_routing_rule_id := Some ''deny'',
     r_format_config := [(''member_names'', AnyStrs [''mirror'']), (''writable_member'', AnyStr ''mirror'')]\<rparr>"

definition demo_group_world :: world where
  "demo_group_world = empty_world\<lparr>w_repos := [demo_group, demo_raw_repo\<lparr>r_name := ''mirror'', r_type := ''proxy''\<rparr>]\<rparr>"

definition demo_fan :: "string group_handler" where
  "demo_fan = \<lparr>gh_registry = (\<lambda>f. Some \<lparr>fh_serve = (\<lambda>w q. (w\<lparr>w_now := 1\<rparr>, \<lparr>mr_code = 200, mr_headers = [], mr_body = q_path q\<rparr>)), fh_merger = None\<rparr>),
     gh_rules = Some (\<lambda>i. if i = ''deny'' then Inr \<lparr>rr_name = i, rr_mode = ''BLOCK'', rr_matchers = [''/secret'']\<rparr> else Inl ErrNotFound),
     gh_compile = Inr, gh_match = (\<lambda>p s. p = s)\<rparr>"

definition demo_to_group :: "string \<Rightarrow> string \<Rightarrow> gin_request" where
  "demo_to_group meth path = \<lparr>q_method = meth, q_repo = ''all'', q_path = path, q_url_path = path, q_escaped_path = path,
     q_query = [], q_headers = [], q_content_type = [], q_content_length = 0, q_body = ([], None), q_user_id = [], q_roles = []\<rparr>"

text \<open>The writable member is a proxy: nothing is written, and the client is told.\<close>

theorem group_write_confined_witness:
  "400 \<le> h_status (snd (group_ServeHTTP demo_fan demo_group_world (demo_to_group ''PUT'' ''/a'') []))"
proof -
  obtain w' r where s: "group_ServeHTTP demo_fan demo_group_world (demo_to_group ''PUT'' ''/a'') [] = (w', r)" by force
  have "repos_get demo_group_world target 303 = Inr t \<Longrightarrow> r_type t \<noteq> ''hosted''" for target t
    by (auto simp: repos_get_def guard_io_def row_or_not_found_def demo_group_world_def demo_group_def split: if_splits option.splits)
  with group_write_confined[OF s] s show ?thesis by (auto simp: demo_to_group_def)
qed

section \<open>Reads\<close>

text \<open>Members are asked in order; the first that has the path answers.\<close>

lemma serve_first_answer:
  assumes "serve_first h groupDef rule q path rawQuery ms w = (w', r)"
  obtains (nowhere) "r = group_error 404" | (member) m v fh resp where "m \<in> set ms" "consulted h groupDef rule path v m = Some fh"
    "fh_serve fh v (member_request q m path rawQuery) = (w', resp)" "member_code resp \<noteq> 404" "r = relayed q m (member_code resp) resp"
  using assms
proof (induction ms arbitrary: w)
  case (Cons m ms)
  show ?case
  proof (cases "consulted h groupDef rule path w m")
    case None
    with Cons.prems(3) have "serve_first h groupDef rule q path rawQuery ms w = (w', r)" by simp
    then show ?thesis by (rule Cons.IH[rotated 2]) (auto intro: Cons.prems(1,2))
  next
    case (Some fh)
    obtain v resp where s: "fh_serve fh w (member_request q m path rawQuery) = (v, resp)" by force
    show ?thesis
    proof (cases "member_code resp = 404")
      case True
      with Cons.prems(3) Some s have "serve_first h groupDef rule q path rawQuery ms v = (w', r)" by simp
      then show ?thesis by (rule Cons.IH[rotated 2]) (auto intro: Cons.prems(1,2))
    next
      case False
      with Cons.prems(3) Some s show ?thesis by (intro Cons.prems(2)[of m w fh resp]) auto
    qed
  qed
qed auto

lemma blocked_unconsulted: "\<not> rule_allows h rule path \<Longrightarrow> consulted h groupDef rule path w m = None"
  by (simp add: consulted_def)

lemma serve_first_blocked: "\<not> rule_allows h rule path \<Longrightarrow> serve_first h groupDef rule q path rawQuery ms w = (w, group_error 404)"
  by (induction ms) (simp_all add: blocked_unconsulted)

lemma collect_blocked: "\<not> rule_allows h rule source \<Longrightarrow> collectIndexParts h groupDef rule strict q source mq ms w = (w, Inr [])"
  by (induction ms) (simp_all add: blocked_unconsulted)

text \<open>
  A group's routing rule holds for every read: when the rule does not let the requested path
  through (or the path whose documents the index would be merged from), no member is asked, the
  answer is 404 and nothing changes, whatever the members hold.
\<close>

lemma group_rule_blocks_reads:
  assumes "repos_get w (q_repo q) 300 = Inr groupDef" "q_method q = ''GET'' \<or> q_method q = ''HEAD''" "\<not> hasTraversalSegment (q_path q)"
    and "\<not> rule_allows h (group_rule h groupDef) (q_path q)"
    and "\<And>fh merger source. gh_registry h (r_format groupDef) = Some fh \<Longrightarrow> fh_merger fh = Some merger \<Longrightarrow>
      im_source merger (q_path q) = Some source \<Longrightarrow> \<not> rule_allows h (group_rule h groupDef) source"
  shows "group_ServeHTTP h w q rawQuery = (w, group_error 404)"
proof -
  have "serveGet h w q rawQuery = (w, group_error 404)"
    using assms(1,4,5) serve_first_blocked[OF assms(4)]
    by (auto simp: serveGet_def Let_def serveMergedIndex_def collect_blocked split: option.splits)
  with assms(2,3) show ?thesis by (auto simp: group_ServeHTTP_def)
qed

lemma group_rule_blocks_reads_witness:
  "group_ServeHTTP demo_fan demo_group_world (demo_to_group ''GET'' ''/secret'') [] = (demo_group_world, group_error 404)"
proof (rule group_rule_blocks_reads[where groupDef = demo_group])
  show "repos_get demo_group_world (q_repo (demo_to_group ''GET'' ''/secret'')) 300 = Inr demo_group"
    by (simp add: repos_get_def guard_io_def row_or_not_found_def demo_group_world_def demo_group_def demo_to_group_def empty_world_def no_faults_def)
  show "\<not> hasTraversalSegment (q_path (demo_to_group ''GET'' ''/secret''))" by code_simp
  show "\<not> rule_allows demo_fan (group_rule demo_fan demo_group) (q_path (demo_to_group ''GET'' ''/secret''))" by code_simp
qed (auto simp: demo_fan_def demo_to_group_def)

text \<open>A rule that cannot be read is no rule.\<close>

lemma unreadable_rule_opens:
  "r_routing_rule_id groupDef = Some i \<Longrightarrow> gh_rules h = Some (\<lambda>_. Inl e) \<Longrightarrow> rule_allows h (group_rule h groupDef) path"
  by (simp add: group_rule_def rule_allows_def Allow_def)

section \<open>Strict indexes\<close>

text \<open>
  A merger that may not serve a short index: a member that failed with anything but a 404 is fatal.
  Where asking a member changes nothing but the events sent, who is eligible and what the members
  hold stays as it was while they are asked.
\<close>

definition same_rows :: "world \<Rightarrow> world \<Rightarrow> bool" where
  "same_rows v w \<longleftrightarrow> v\<lparr>w_events := []\<rparr> = w\<lparr>w_events := []\<rparr>"

definition keeps_rows :: "format_handler \<Rightarrow> string \<Rightarrow> bool" where
  "keeps_rows fh path \<longleftrightarrow> (\<forall>w q. q_path q = path \<longrightarrow> same_rows (fst (fh_serve fh w q)) w)"

definition good_part :: "'p group_handler \<Rightarrow> repository \<Rightarrow> routing_rule option \<Rightarrow> gin_request \<Rightarrow> string \<Rightarrow> string \<Rightarrow> world \<Rightarrow> string \<Rightarrow> index_part option" where
  "good_part h groupDef rule q source mq w m =
     (case consulted h groupDef rule source w m of
        None \<Rightarrow> None
      | Some fh \<Rightarrow>
          (let resp = snd (fh_serve fh w (member_request q m source mq)) in
           if 200 \<le> member_code resp \<and> member_code resp \<le> 299 then Some \<lparr>ip_member = m, ip_body = mr_body resp\<rparr> else None))"

lemma consulted_format:
  "consulted h groupDef rule path w m = Some fh \<Longrightarrow> gh_registry h (r_format groupDef) = Some fh"
  by (auto simp: consulted_def eligibleMember_def split: if_splits option.splits sum.splits)

lemma consulted_cong: "same_rows v w \<Longrightarrow> consulted h groupDef rule path v m = consulted h groupDef rule path w m"
proof -
  assume "same_rows v w"
  from arg_cong[OF this[unfolded same_rows_def], of w_repos] arg_cong[OF this[unfolded same_rows_def], of w_fault]
  have "w_repos v = w_repos w" "w_fault v = w_fault w" by simp_all
  then show ?thesis by (simp add: consulted_def eligibleMember_def repos_get_def guard_io_def)
qed

lemma good_partD:
  "good_part h groupDef rule q source mq w m = Some p \<Longrightarrow> ip_member p = m \<and> consulted h groupDef rule source w m \<noteq> None"
  by (cases "consulted h groupDef rule source w m") (auto simp: good_part_def Let_def split: if_splits)

lemma collect_failed:
  "collectIndexParts h groupDef rule strict q source mq ms w = (w', Inl (m, resp)) \<Longrightarrow> member_code resp < 200 \<or> member_code resp > 299"
  by (induction ms arbitrary: w) (auto split: option.splits prod.splits if_splits sum.splits)

locale strict_merger =
  fixes merger :: index_merger and fatal :: "string \<Rightarrow> nat \<Rightarrow> bool"
  assumes strict: "im_strict merger = Some fatal"
    and fatal_unless_404: "im_source merger p = Some source \<Longrightarrow> status \<noteq> 404 \<Longrightarrow> fatal source status"
begin

lemma collect_complete:
  assumes "collectIndexParts h groupDef rule (im_strict merger) q source mq ms w = (w', Inr parts)" "im_source merger p = Some source"
    and "\<And>fh. gh_registry h (r_format groupDef) = Some fh \<Longrightarrow> keeps_rows fh source"
    and "m \<in> set ms" "consulted h groupDef rule source w m = Some fh"
  shows "\<exists>v resp. same_rows v w \<and> resp = snd (fh_serve fh v (member_request q m source mq)) \<and>
    (member_code resp = 404 \<or> \<lparr>ip_member = m, ip_body = mr_body resp\<rparr> \<in> set parts)"
  using assms(1,4,5)
proof (induction ms arbitrary: w parts)
  case (Cons x xs)
  show ?case
  proof (cases "consulted h groupDef rule source w x")
    case None
    with Cons.prems have "m \<in> set xs" "collectIndexParts h groupDef rule (im_strict merger) q source mq xs w = (w', Inr parts)" by auto
    with Cons.IH Cons.prems(3) show ?thesis by blast
  next
    case (Some fx)
    obtain w1 resp where s: "fh_serve fx w (member_request q x source mq) = (w1, resp)" by force
    have keeps: "keeps_rows fx source" using assms(3)[OF consulted_format[OF Some]] .
    then have same: "same_rows w1 w"
      using keeps[unfolded keeps_rows_def, rule_format, of "member_request q x source mq" w] s by (simp add: member_request_def)
    have code: "200 \<le> member_code resp \<and> member_code resp \<le> 299 \<or> member_code resp = 404"
      using Cons.prems(1) Some s strict fatal_unless_404[OF assms(2), of "member_code resp"] by (auto split: if_splits)
    obtain rest where rest: "collectIndexParts h groupDef rule (im_strict merger) q source mq xs w1 = (w', Inr rest)"
      "parts = rest \<or> parts = \<lparr>ip_member = x, ip_body = mr_body resp\<rparr> # rest"
      "200 \<le> member_code resp \<and> member_code resp \<le> 299 \<longrightarrow> parts = \<lparr>ip_member = x, ip_body = mr_body resp\<rparr> # rest"
      using Cons.prems(1) Some s by (auto split: if_splits prod.splits sum.splits)
    show ?thesis
    proof (cases "m = x")
      case True
      with Some Cons.prems(3) have "fh = fx" by simp
      with s True code rest(3) show ?thesis by (intro exI[of _ w] exI[of _ resp]) (auto simp: same_rows_def)
    next
      case False
      then have "m \<in> set xs" using Cons.prems(2) by simp
      moreover have "consulted h groupDef rule source w1 m = Some fh" using Cons.prems(3) by (simp add: consulted_cong[OF same])
      ultimately obtain v r where v: "same_rows v w1" "r = snd (fh_serve fh v (member_request q m source mq))"
        "member_code r = 404 \<or> \<lparr>ip_member = m, ip_body = mr_body r\<rparr> \<in> set rest"
        using Cons.IH[OF rest(1)] by blast
      moreover have "same_rows v w" using v(1) same by (simp add: same_rows_def)
      ultimately show ?thesis using rest(2) by (metis list.set_intros(2))
    qed
  qed
qed simp

text \<open>When asking a member changes nothing, the parts are those of the members that answered with success.\<close>

lemma collect_quiet:
  assumes "collectIndexParts h groupDef rule (im_strict merger) q source mq ms w = (w', Inr parts)" "im_source merger p = Some source"
    and "\<And>m fh. m \<in> set ms \<Longrightarrow> consulted h groupDef rule source w m = Some fh \<Longrightarrow> fst (fh_serve fh w (member_request q m source mq)) = w"
  shows "w' = w \<and> parts = List.map_filter (good_part h groupDef rule q source mq w) ms \<and>
    (\<forall>m \<in> set ms. \<forall>fh. consulted h groupDef rule source w m = Some fh \<longrightarrow>
       member_code (snd (fh_serve fh w (member_request q m source mq))) \<in> {200..299} \<union> {404})"
  using assms(1,3)
proof (induction ms arbitrary: parts)
  case (Cons m ms)
  show ?case
  proof (cases "consulted h groupDef rule source w m")
    case None
    then have "collectIndexParts h groupDef rule (im_strict merger) q source mq ms w = (w', Inr parts)" using Cons.prems(1) by simp
    from Cons.IH[OF this Cons.prems(2)] None show ?thesis by (simp add: good_part_def List.map_filter_simps)
  next
    case (Some fh)
    obtain resp where s: "fh_serve fh w (member_request q m source mq) = (w, resp)"
      using Cons.prems(2)[OF _ Some] by (metis list.set_intros(1) prod.collapse)
    show ?thesis
    proof (cases "200 \<le> member_code resp \<and> member_code resp \<le> 299")
      case True
      then obtain rest where rest: "collectIndexParts h groupDef rule (im_strict merger) q source mq ms w = (w', Inr rest)"
        "parts = \<lparr>ip_member = m, ip_body = mr_body resp\<rparr> # rest"
        using Cons.prems(1) Some s by (auto split: prod.splits sum.splits)
      from Cons.IH[OF rest(1) Cons.prems(2)] rest(2) True Some s show ?thesis by (simp add: good_part_def List.map_filter_simps)
    next
      case False
      with Cons.prems(1) Some s strict have nf: "\<not> fatal source (member_code resp)" by (auto split: if_splits)
      with fatal_unless_404[OF assms(2)] have code: "member_code resp = 404" by blast
      from Cons.prems(1) Some s strict nf False have
        "collectIndexParts h groupDef rule (im_strict merger) q source mq ms w = (w', Inr parts)" by auto
      from Cons.IH[OF this Cons.prems(2)] code Some s show ?thesis by (simp add: good_part_def List.map_filter_simps)
    qed
  qed
qed (simp add: List.map_filter_simps)

end

end
