(* ===== verification/OCI_Uploads.thy ===== *)
theory OCI_Uploads
  imports Append_Stores Base_Store Net_Url
begin

text \<open>
  In-progress blob uploads of the OCI registry, after \<^verbatim>\<open>internal/formats/oci/uploads.go\<close>: sessions
  staged in the default blob store, with the incremental append where the store offers it and the
  whole-object fallback where it does not. The client lemmas are proved once, against the contract
  \<open>staging_store\<close>; the specification of a session is a byte string with a cap.
\<close>

section \<open>Sessions\<close>

definition uploadKeyPrefix :: string where
  "uploadKeyPrefix = ''_uploads/docker/''"

definition validUploadID :: "string \<Rightarrow> bool" where
  "validUploadID i \<longleftrightarrow> length i = 32 \<and> list_all is_hex i"

definition upload_key :: "string \<Rightarrow> string" where
  "upload_key i = uploadKeyPrefix @ i"

lemma upload_key_inj [simp]: "upload_key i = upload_key j \<longleftrightarrow> i = j"
  by (simp add: upload_key_def)

text \<open>\<open>rid\<close> is what \<^verbatim>\<open>newUploadID\<close> draws.\<close>

definition upload_create :: "'s blob_api \<Rightarrow> 's \<Rightarrow> string result \<Rightarrow> nat \<Rightarrow> 's \<times> string result" where
  "upload_create api s rid n =
     (case rid of
        Inl e \<Rightarrow> (s, Inl e)
      | Inr i \<Rightarrow> (case ba_put api s (upload_key i) [] n of (s', Inl e) \<Rightarrow> (s', Inl e) | (s', Inr _) \<Rightarrow> (s', Inr i)))"

text \<open>\<open>None\<close> is an unknown session.\<close>

definition upload_size :: "'s blob_api \<Rightarrow> 's \<Rightarrow> string \<Rightarrow> nat \<Rightarrow> int option" where
  "upload_size api s i n =
     (if \<not> validUploadID i then None
      else (case ba_append api of
          Some ap \<Rightarrow> (case ap_size ap s (upload_key i) n of Inl _ \<Rightarrow> None | Inr (m, ok) \<Rightarrow> if ok then Some m else None)
        | None \<Rightarrow>
            (case ba_exists api s (upload_key i) n of
               Inr True \<Rightarrow> (case ba_size api s (upload_key i) n of Inl _ \<Rightarrow> None | Inr m \<Rightarrow> Some m)
             | _ \<Rightarrow> None)))"

text \<open>\<open>Inr None\<close> is an unknown session; the bytes stand for the reader over them.\<close>

definition upload_open :: "'s blob_api \<Rightarrow> 's \<Rightarrow> string \<Rightarrow> nat \<Rightarrow> 's \<times> string option result" where
  "upload_open api s i n =
     (if upload_size api s i n = None then (s, Inr None)
      else (case (case ba_append api of Some ap \<Rightarrow> ap_finalize ap s (upload_key i) n | None \<Rightarrow> (s, Inr ())) of
          (s1, Inl e) \<Rightarrow> (s1, Inl e)
        | (s1, Inr _) \<Rightarrow> (case ba_get api s1 (upload_key i) n of Inl e \<Rightarrow> (s1, Inl e) | Inr d \<Rightarrow> (s1, Inr (Some d)))))"

definition upload_read :: "'s blob_api \<Rightarrow> 's \<Rightarrow> string \<Rightarrow> nat \<Rightarrow> 's \<times> string option result" where
  "upload_read api s i n = upload_open api s i n"

definition appendStreaming ::
    "'s appendable \<Rightarrow> int \<Rightarrow> 's \<Rightarrow> string \<Rightarrow> reader \<Rightarrow> int \<Rightarrow> nat \<Rightarrow> 's \<times> int option result" where
  "appendStreaming ap cap s i rd stored n =
     (case ap_append ap s (upload_key i) rd n of
        (s1, Inl e) \<Rightarrow> (s1, Inl e)
      | (s1, Inr tot) \<Rightarrow>
          if cap > 0 \<and> tot > cap then
            (case ap_truncate ap s1 (upload_key i) stored n of
               (s2, Inl e) \<Rightarrow> (s2, Inl (Wrapped ''rolling the session back failed'' ErrUploadTooLarge))
             | (s2, Inr _) \<Rightarrow> (s2, Inl ErrUploadTooLarge))
          else (s1, Inr (Some tot)))"

definition upload_append :: "'s blob_api \<Rightarrow> int \<Rightarrow> 's \<Rightarrow> string \<Rightarrow> reader \<Rightarrow> nat \<Rightarrow> 's \<times> int option result" where
  "upload_append api cap s i rd n =
     (case upload_size api s i n of
        None \<Rightarrow> (s, Inr None)
      | Some stored \<Rightarrow>
          if cap > 0 \<and> stored \<ge> cap then (s, Inl ErrUploadTooLarge)
          else
            (let r = (if cap > 0 then limit_reader (nat (i64 (cap - stored + 1))) rd else rd) in
             case ba_append api of
               Some ap \<Rightarrow> appendStreaming ap cap s i r stored n
             | None \<Rightarrow>
                 (case snd r of
                    Some e \<Rightarrow> (s, Inl e)
                  | None \<Rightarrow>
                      if cap > 0 \<and> stored + int (length (read_all r)) > cap then (s, Inl ErrUploadTooLarge)
                      else (case upload_read api s i n of
                          (s1, Inl e) \<Rightarrow> (s1, Inl e)
                        | (s1, Inr None) \<Rightarrow> (s1, Inr None)
                        | (s1, Inr (Some existing)) \<Rightarrow>
                            (case ba_put api s1 (upload_key i) (existing @ read_all r) n of
                               (s2, Inl e) \<Rightarrow> (s2, Inl e)
                             | (s2, Inr _) \<Rightarrow> (s2, Inr (Some (int (length (existing @ read_all r)))))))))) "

definition upload_remove :: "'s blob_api \<Rightarrow> 's \<Rightarrow> string \<Rightarrow> nat \<Rightarrow> 's" where
  "upload_remove api s i n =
     (if \<not> validUploadID i then s
      else fst (ba_delete api (case ba_append api of Some ap \<Rightarrow> fst (ap_abort ap s (upload_key i) n) | None \<Rightarrow> s) (upload_key i) n))"

section \<open>The specification\<close>

text \<open>A session holds bytes; a chunk that would cross the cap, and any chunk once the cap is reached, is refused.\<close>

definition session_append :: "int \<Rightarrow> string \<Rightarrow> string \<Rightarrow> string \<times> int result" where
  "session_append cap old chunk =
     (if cap > 0 \<and> (int (length old) \<ge> cap \<or> int (length old) + int (length chunk) > cap) then (old, Inl ErrUploadTooLarge)
      else (old @ chunk, Inr (int (length (old @ chunk)))))"

text \<open>How many bytes a capped chunk passes on: enough to see the overflow.\<close>

definition capped :: "int \<Rightarrow> string \<Rightarrow> reader \<Rightarrow> reader" where
  "capped cap old rd = (if cap > 0 then limit_reader (nat (cap - int (length old) + 1)) rd else rd)"

lemma capped_read:
  assumes "0 \<le> cap" "cap > 0 \<longrightarrow> int (length old) < cap"
  shows "\<exists>j. read_all (capped cap old rd) = take j (read_all rd)"
    and "cap > 0 \<and> int (length old) + int (length (read_all (capped cap old rd))) > cap \<longleftrightarrow>
      cap > 0 \<and> int (length old) + int (length (read_all rd)) > cap"
    and "\<not> (cap > 0 \<and> int (length old) + int (length (read_all rd)) > cap) \<Longrightarrow>
      read_all (capped cap old rd) = read_all rd \<and> snd (capped cap old rd) = snd rd"
proof -
  show "\<exists>j. read_all (capped cap old rd) = take j (read_all rd)"
    by (auto simp: capped_def read_all_limit intro: exI[of _ "length (read_all rd)"])
  show "cap > 0 \<and> int (length old) + int (length (read_all (capped cap old rd))) > cap \<longleftrightarrow>
      cap > 0 \<and> int (length old) + int (length (read_all rd)) > cap"
    using assms by (auto simp: capped_def read_all_limit min_def)
  assume "\<not> (cap > 0 \<and> int (length old) + int (length (read_all rd)) > cap)"
  with assms have "read_all (capped cap old rd) = read_all rd" "snd (capped cap old rd) = snd rd"
    by (simp_all add: capped_def read_all_limit) (auto simp: limit_reader_def)
  then show "read_all (capped cap old rd) = read_all rd \<and> snd (capped cap old rd) = snd rd" ..
qed

section \<open>Sessions implement the specification\<close>

context staging_store
begin

lemma size_law:
  assumes "upload_size api s i n = Some m" "sound s (upload_key i)"
  shows "validUploadID i \<and> content s (upload_key i) \<noteq> None \<and> m = int (length (the (content s (upload_key i))))"
proof (cases "ba_append api")
  case (Some ap)
  then have "ap_size ap s (upload_key i) n = Inr (m, True)" "validUploadID i"
    using assms(1) by (auto simp: upload_size_def split: if_splits sum.splits)
  with appended_size[OF Some this(1) assms(2)] show ?thesis by (auto split: option.splits)
next
  case None
  then have "ba_size api s (upload_key i) n = Inr m" "validUploadID i"
    using assms(1) by (auto simp: upload_size_def split: if_splits sum.splits bool.splits)
  with size_content[OF None] show ?thesis by fastforce
qed

lemma open_law:
  assumes "upload_open api s i n = (s', r)" "sound s (upload_key i)" "content s (upload_key i) = Some cs"
  shows "(\<forall>d. r = Inr (Some d) \<longrightarrow> d = cs \<and> sound s' (upload_key i) \<and> content s' (upload_key i) = Some cs)"
    and "k' \<noteq> upload_key i \<Longrightarrow> sound s k' \<Longrightarrow> sound s' k' \<and> content s' k' = content s k'"
    and "ba_append api = None \<Longrightarrow> s' = s"
proof -
  show "\<forall>d. r = Inr (Some d) \<longrightarrow> d = cs \<and> sound s' (upload_key i) \<and> content s' (upload_key i) = Some cs"
  proof (cases "ba_append api")
    case None
    with assms show ?thesis using get_visible[of s "upload_key i" n] plain_visible[of s "upload_key i"]
      by (auto simp: upload_open_def split: if_splits sum.splits)
  next
    case (Some ap)
    then show ?thesis using assms finalize_content[OF Some, of s "upload_key i" n s' cs] get_visible[of s' "upload_key i" n]
      by (auto simp: upload_open_def split: if_splits sum.splits prod.splits)
  qed
  show "sound s' k' \<and> content s' k' = content s k'" if "k' \<noteq> upload_key i" "sound s k'"
    using assms(1) that finalize_other[of _ s "upload_key i" n s' _ k']
    by (auto simp: upload_open_def split: if_splits sum.splits prod.splits option.splits)
  show "ba_append api = None \<Longrightarrow> s' = s" using assms(1) by (auto simp: upload_open_def split: if_splits sum.splits)
qed

lemma streaming_law:
  assumes ap: "ba_append api = Some ap" and run: "appendStreaming ap cap s i (capped cap old rd) (int (length old)) n = (s', r)"
    and s: "sound s (upload_key i)" "content s (upload_key i) = Some old" and cap: "0 \<le> cap" "cap > 0 \<longrightarrow> int (length old) < cap"
  shows "sound s' (upload_key i) \<and> (\<exists>j. content s' (upload_key i) = Some (old @ take j (read_all rd))) \<and>
    (\<forall>t. r = Inr (Some t) \<longrightarrow> snd rd = None \<and> content s' (upload_key i) = Some (old @ read_all rd) \<and>
      session_append cap old (read_all rd) = (old @ read_all rd, Inr t)) \<and> r \<noteq> Inr None"
    and "k' \<noteq> upload_key i \<Longrightarrow> sound s k' \<Longrightarrow> sound s' k' \<and> content s' k' = content s k'"
proof -
  let ?rd = "capped cap old rd" and ?k = "upload_key i"
  obtain s1 r1 where a: "ap_append ap s ?k ?rd n = (s1, r1)" by fastforce
  note cp = capped_read[OF cap, of rd] and ac = append_content[OF ap a s] and ao = append_other[OF ap a]
  obtain j0 where j0: "read_all ?rd = take j0 (read_all rd)" using cp(1) by blast
  show "sound s' ?k \<and> (\<exists>j. content s' ?k = Some (old @ take j (read_all rd))) \<and>
    (\<forall>t. r = Inr (Some t) \<longrightarrow> snd rd = None \<and> content s' ?k = Some (old @ read_all rd) \<and>
      session_append cap old (read_all rd) = (old @ read_all rd, Inr t)) \<and> r \<noteq> Inr None"
  proof (cases r1)
    case (Inl e)
    with ac obtain j where "sound s1 ?k" "content s1 ?k = Some (old @ take j (read_all ?rd))" by auto
    moreover have "s' = s1" "r = Inl e" using run a Inl by (simp_all add: appendStreaming_def)
    ultimately show ?thesis using j0 by (auto simp: take_take)
  next
    case (Inr t)
    with ac have c1: "snd ?rd = None" "sound s1 ?k" "content s1 ?k = Some (old @ read_all ?rd)" "t = int (length (old @ read_all ?rd))" by auto
    show ?thesis
    proof (cases "cap > 0 \<and> t > cap")
      case False
      then have fit: "\<not> (cap > 0 \<and> int (length old) + int (length (read_all rd)) > cap)" using cp(2) c1(4) by auto
      have "s' = s1" "r = Inr (Some t)" using run a Inr False by (simp_all add: appendStreaming_def)
      with c1 cp(3)[OF fit] fit cap show ?thesis
        by (auto simp: session_append_def intro: exI[of _ "length (read_all rd)"])
    next
      case True
      obtain s2 r2 where tr: "ap_truncate ap s1 ?k (int (length old)) n = (s2, r2)" by fastforce
      have "s' = s2" "\<exists>e. r = Inl e" using run a Inr True tr by (auto simp: appendStreaming_def split: sum.splits)
      moreover have "sound s2 ?k" "content s2 ?k \<in> {Some (old @ read_all ?rd), Some old}"
        using truncate_content[OF ap tr c1(2,3)] by (auto split: sum.splits)
      ultimately show ?thesis using j0 by (auto intro: exI[of _ j0] exI[of _ 0])
    qed
  qed
  show "sound s' k' \<and> content s' k' = content s k'" if "k' \<noteq> ?k" "sound s k'"
  proof -
    have "\<exists>r2. s' = s1 \<or> ap_truncate ap s1 ?k (int (length old)) n = (s', r2)"
      using run a by (auto simp: appendStreaming_def split: sum.splits if_splits prod.splits)
    with truncate_other[OF ap, of s1 ?k _ n s' _ k'] ao[OF that] that show ?thesis by auto
  qed
qed

text \<open>
  An append either reports success, then the session holds the whole chunk and the specification
  accepts it, or it does not, then the session holds what it held and at most a prefix of the chunk.
\<close>

lemma append_refines:
  assumes run: "upload_append api cap s i rd n = (s', r)"
    and s: "sound s (upload_key i)" "content s (upload_key i) = Some old" and cap: "0 \<le> cap" "cap < i64_max"
  shows "sound s' (upload_key i) \<and> (\<exists>j. content s' (upload_key i) = Some (old @ take j (read_all rd))) \<and>
    (\<forall>t. r = Inr (Some t) \<longrightarrow> snd rd = None \<and> content s' (upload_key i) = Some (old @ read_all rd) \<and>
      session_append cap old (read_all rd) = (old @ read_all rd, Inr t))"
    and "k' \<noteq> upload_key i \<Longrightarrow> sound s k' \<Longrightarrow> sound s' k' \<and> content s' k' = content s k'"
proof -
  let ?k = "upload_key i" and ?rd = "capped cap old rd"
  have same: "\<exists>j. content s ?k = Some (old @ take j (read_all rd))" using s(2) by (auto intro: exI[of _ 0])
  have "(sound s' ?k \<and> (\<exists>j. content s' ?k = Some (old @ take j (read_all rd))) \<and>
    (\<forall>t. r = Inr (Some t) \<longrightarrow> snd rd = None \<and> content s' ?k = Some (old @ read_all rd) \<and>
      session_append cap old (read_all rd) = (old @ read_all rd, Inr t))) \<and>
    (k' \<noteq> ?k \<longrightarrow> sound s k' \<longrightarrow> sound s' k' \<and> content s' k' = content s k')"
  proof (cases "upload_size api s i n = None \<or> cap > 0 \<and> int (length old) \<ge> cap")
    case True
    then have "s' = s" "r = Inr None \<or> r = Inl ErrUploadTooLarge"
      using run size_law[OF _ s(1), of n] s(2) by (auto simp: upload_append_def split: option.splits if_splits)
    with s same show ?thesis by auto
  next
    case False
    then have size: "upload_size api s i n = Some (int (length old))" and fits: "cap > 0 \<longrightarrow> int (length old) < cap"
      using size_law[OF _ s(1), of n] s(2) by (cases "upload_size api s i n"; auto)+
    have "i64 (cap - int (length old) + 1) = cap - int (length old) + 1" if "cap > 0"
      by (rule i64_id) (use that fits cap in \<open>auto simp: i64_min_def i64_max_def\<close>)
    then have rd: "(if cap > 0 then limit_reader (nat (i64 (cap - int (length old) + 1))) rd else rd) = ?rd" by (simp add: capped_def)
    note body = run[unfolded upload_append_def size option.case rd Let_def]
    show ?thesis
    proof (cases "ba_append api")
      case (Some ap)
      then have "appendStreaming ap cap s i ?rd (int (length old)) n = (s', r)" using body fits by auto
      from streaming_law[OF Some this s cap(1) fits] show ?thesis by blast
    next
      case None
      have "(\<exists>e. r = Inl e) \<and> s' = s \<or> r = Inr None \<and> s' = s \<or> (\<exists>r2. snd ?rd = None \<and>
          \<not> (cap > 0 \<and> int (length old) + int (length (read_all ?rd)) > cap) \<and>
          ba_put api s ?k (old @ read_all ?rd) n = (s', r2) \<and>
          r = (case r2 of Inl e \<Rightarrow> Inl e | Inr _ \<Rightarrow> Inr (Some (int (length (old @ read_all ?rd))))))"
        using body None fits open_law(1)[OF _ s, of n] open_law(3)[OF _ s None, of n]
        by (fastforce simp: upload_read_def split: option.splits sum.splits if_splits prod.splits)
      then show ?thesis
      proof (elim disjE exE conjE)
        fix r2 assume fit: "snd ?rd = None" "\<not> (cap > 0 \<and> int (length old) + int (length (read_all ?rd)) > cap)"
          and put: "ba_put api s ?k (old @ read_all ?rd) n = (s', r2)"
          and r: "r = (case r2 of Inl e \<Rightarrow> Inl e | Inr _ \<Rightarrow> Inr (Some (int (length (old @ read_all ?rd)))))"
        have eq: "read_all ?rd = read_all rd" "snd rd = None" using capped_read[OF cap(1) fits, of rd] fit by auto
        have "content s' ?k = Some (old @ read_all rd) \<or> content s' ?k = Some old" "sound s' ?k"
          and ok: "r = Inr (Some t) \<Longrightarrow> content s' ?k = Some (old @ read_all rd)" for t
          using put_content[OF put s(1)] None s(2) eq r by (auto split: sum.splits)
        moreover from this(1) have "\<exists>j. content s' ?k = Some (old @ take j (read_all rd))"
          by (auto intro: exI[of _ "length (read_all rd)"] exI[of _ 0])
        ultimately show ?thesis using put_other[OF put, of k'] eq fit r fits by (auto simp: session_append_def split: sum.splits)
      qed (use s same in auto)
    qed
  qed
  note all = this
  show "sound s' ?k \<and> (\<exists>j. content s' ?k = Some (old @ take j (read_all rd))) \<and>
    (\<forall>t. r = Inr (Some t) \<longrightarrow> snd rd = None \<and> content s' ?k = Some (old @ read_all rd) \<and>
      session_append cap old (read_all rd) = (old @ read_all rd, Inr t))" using all by blast
  show "sound s' k' \<and> content s' k' = content s k'" if "k' \<noteq> ?k" "sound s k'" using all that by blast
qed

end

section \<open>A push\<close>

text \<open>The chunks of a push, one \<^verbatim>\<open>PATCH\<close> after the other, as long as each is accepted.\<close>

fun push_chunks :: "'s blob_api \<Rightarrow> int \<Rightarrow> 's \<Rightarrow> string \<Rightarrow> reader list \<Rightarrow> nat \<Rightarrow> 's \<times> unit result" where
  "push_chunks api cap s i [] n = (s, Inr ())"
| "push_chunks api cap s i (rd # rds) n =
     (case upload_append api cap s i rd n of
        (s', Inr (Some _)) \<Rightarrow> push_chunks api cap s' i rds (Suc n)
      | (s', Inr None) \<Rightarrow> (s', Inl (ErrMsg ''upload unknown''))
      | (s', Inl e) \<Rightarrow> (s', Inl e))"

context staging_store
begin

lemma push_chunks_law:
  assumes "push_chunks api cap s i rds n = (s', Inr ())" "sound s (upload_key i)" "content s (upload_key i) = Some old"
    and "0 \<le> cap" "cap < i64_max" "cap > 0 \<longrightarrow> int (length old) \<le> cap"
  shows "sound s' (upload_key i) \<and> content s' (upload_key i) = Some (old @ concat (map read_all rds)) \<and>
    (cap > 0 \<longrightarrow> int (length (old @ concat (map read_all rds))) \<le> cap)"
  using assms
proof (induction rds arbitrary: s old n)
  case (Cons rd rds)
  obtain s1 r1 where a: "upload_append api cap s i rd n = (s1, r1)" by fastforce
  then obtain t where t: "r1 = Inr (Some t)" "push_chunks api cap s1 i rds (Suc n) = (s', Inr ())"
    using Cons.prems(1) by (auto split: sum.splits option.splits)
  note ar = append_refines(1)[OF a Cons.prems(2-5)]
  have "session_append cap old (read_all rd) = (old @ read_all rd, Inr t)" using ar t by blast
  then have "cap > 0 \<longrightarrow> int (length (old @ read_all rd)) \<le> cap" by (auto simp: session_append_def split: if_splits)
  with Cons.IH[OF t(2), of "old @ read_all rd"] ar t Cons.prems(4,5) show ?case by auto
qed simp

lemma push_roundtrip:
  assumes "upload_create api s (Inr i) n = (s0, Inr i)" "push_chunks api cap s0 i rds n = (s1, Inr ())"
    and "upload_open api s1 i n = (s2, Inr (Some data))"
    and "sound s (upload_key i)" "content s (upload_key i) = None" "0 \<le> cap" "cap < i64_max"
  shows "data = concat (map read_all rds) \<and> (cap > 0 \<longrightarrow> int (length data) \<le> cap) \<and> content s2 (upload_key i) = Some data"
proof -
  have "ba_put api s (upload_key i) [] n = (s0, Inr ())" using assms(1) by (auto simp: upload_create_def split: prod.splits sum.splits)
  from put_content[OF this assms(4)] assms(5) have "sound s0 (upload_key i)" "content s0 (upload_key i) = Some []" by simp_all
  from push_chunks_law[OF assms(2) this assms(6,7)] assms(6)
  have "sound s1 (upload_key i)" "content s1 (upload_key i) = Some (concat (map read_all rds))"
    "cap > 0 \<longrightarrow> int (length (concat (map read_all rds))) \<le> cap" by auto
  with open_law(1)[OF assms(3) this(1,2)] show ?thesis by auto
qed

end

text \<open>
  C10. A chunk staged on S3 refines the byte-string specification. Whatever fails on the way, the session
  holds its old bytes followed by a prefix of the chunk, in parts that S3 will accept; success is
  reported exactly with the size the specification computes, only for a chunk that was read to its
  end and stays within the cap, and then the session holds all of it; no other session or blob changes.
\<close>

theorem s3_append_refines:
  assumes "s3_service c obj meta part" "upload_append (s3_api c) cap s i rd n = (s', r)"
    and "s3_sound meta part s (upload_key i)" "s3_content obj meta part s (upload_key i) = Some old" "0 \<le> cap" "cap < i64_max"
  shows "s3_sound meta part s' (upload_key i) \<and> (\<exists>j. s3_content obj meta part s' (upload_key i) = Some (old @ take j (read_all rd))) \<and>
    (\<forall>t. r = Inr (Some t) \<longrightarrow> snd rd = None \<and> s3_content obj meta part s' (upload_key i) = Some (old @ read_all rd) \<and>
      session_append cap old (read_all rd) = (old @ read_all rd, Inr t)) \<and>
    (\<forall>k. k \<noteq> upload_key i \<and> s3_sound meta part s k \<longrightarrow>
      s3_sound meta part s' k \<and> s3_content obj meta part s' k = s3_content obj meta part s k)"
proof -
  have "staging_store (s3_api c) (s3_sound meta part) (s3_content obj meta part) (\<lambda>s k. obj s (objectKey k))"
    using assms(1) by (rule s3_service.axioms_staging)
  from staging_store.append_refines[OF this assms(2-6)] show ?thesis by blast
qed

text \<open>
  What was pushed in chunks to S3 is what is committed. After a session is created and its chunks are accepted one after
  the other, however they are cut relative to the parts of the multipart upload, opening the
  session yields exactly their concatenation, which is then the object at the key and within the cap.
\<close>

lemma s3_push_roundtrip:
  assumes "s3_service c obj meta part" "meta s (appendMetaKey (upload_key i)) = None" "obj s (objectKey (upload_key i)) = None"
    and "upload_create (s3_api c) s (Inr i) n = (s0, Inr i)" "push_chunks (s3_api c) cap s0 i rds n = (s1, Inr ())"
    and "upload_open (s3_api c) s1 i n = (s2, Inr (Some data))" "0 \<le> cap" "cap < i64_max"
  shows "data = concat (map read_all rds) \<and> (cap > 0 \<longrightarrow> int (length data) \<le> cap)"
proof -
  have "staging_store (s3_api c) (s3_sound meta part) (s3_content obj meta part) (\<lambda>s k. obj s (objectKey k))"
    using assms(1) by (rule s3_service.axioms_staging)
  from staging_store.push_roundtrip[OF this assms(4-6) _ _ assms(7,8)] assms(2,3) show ?thesis
    by (auto simp: s3_sound_def s3_content_def)
qed

section \<open>The local disk\<close>

lemma local_copy_ok: "w_fault w = no_faults \<Longrightarrow> \<exists>w'. local_copy w ref k ds n = (w', Inr ()) \<and> w_fault w' = no_faults"
  by (induction ds arbitrary: w n) (auto simp: local_extend_def)

lemma local_append_ok:
  assumes "w_fault w = no_faults" "snd rd = None" "data_at w ref k = Some old"
  shows "\<exists>w'. local_AppendBlob ref w k rd n = (w', Inr (int (length (old @ read_all rd)))) \<and> w_fault w' = no_faults \<and>
    data_at w' ref k = Some (old @ read_all rd)"
proof -
  have "w_fault (local_extend w ref k []) = no_faults" using assms(1) by (simp add: local_extend_def)
  from local_copy_ok[OF this] obtain w1 where w1: "local_copy (local_extend w ref k []) ref k (fst rd) n = (w1, Inr ())" "w_fault w1 = no_faults" by blast
  have "data_at (local_extend w ref k []) ref k = Some old" using assms(3) by (simp add: data_at_extend)
  from data_at_local_copy[OF w1(1) this] have d: "data_at w1 ref k = Some (old @ read_all rd)" by (simp add: read_all_def)
  then obtain b where "store_blob w1 ref k = Some b" "b_data b = old @ read_all rd" by (auto simp: data_at_def)
  with w1 d assms show ?thesis by (simp add: local_AppendBlob_def blob_size_def)
qed

lemma local_size_ok:
  assumes "w_fault w = no_faults" "data_at w ref k = Some old"
  shows "local_AppendedSize ref w k n = Inr (int (length old), True)"
  using assms by (auto simp: local_AppendedSize_def store_exists_def store_size_def guard_io_def data_at_def blob_size_def)

text \<open>
  On the local disk an append is exactly the specification: with working storage and a complete request
  body the session's bytes and the answer are those of \<open>session_append\<close>, also for a chunk that crosses the cap,
  which is written and then taken back.
\<close>

lemma local_append_exact:
  assumes "w_fault w = no_faults" "snd rd = None" "validUploadID i" "data_at w ref (upload_key i) = Some old" "0 \<le> cap" "cap < i64_max"
  shows "\<exists>w'. upload_append (local_api ref) cap w i rd n = (w', map_sum id Some (snd (session_append cap old (read_all rd)))) \<and>
    data_at w' ref (upload_key i) = Some (fst (session_append cap old (read_all rd)))"
proof -
  let ?k = "upload_key i" and ?rd = "capped cap old rd"
  have ap: "ba_append (local_api ref) = Some (local_appendable ref)" by (simp add: local_api_def)
  have size: "upload_size (local_api ref) w i n = Some (int (length old))"
    using assms(1,3,4) local_size_ok[of w ref ?k old n] by (simp add: upload_size_def ap local_appendable_def)
  show ?thesis
  proof (cases "cap > 0 \<and> int (length old) \<ge> cap")
    case True
    then show ?thesis using size assms(4) by (simp add: upload_append_def session_append_def)
  next
    case False
    then have fits: "cap > 0 \<longrightarrow> int (length old) < cap" by auto
    have "i64 (cap - int (length old) + 1) = cap - int (length old) + 1" if "cap > 0"
      by (rule i64_id) (use that fits assms(5,6) in \<open>auto simp: i64_min_def i64_max_def\<close>)
    then have rd: "(if cap > 0 then limit_reader (nat (i64 (cap - int (length old) + 1))) rd else rd) = ?rd" by (simp add: capped_def)
    have run: "upload_append (local_api ref) cap w i rd n = appendStreaming (local_appendable ref) cap w i ?rd (int (length old)) n"
      unfolding upload_append_def size option.case rd Let_def ap using False by auto
    have "snd ?rd = None" using assms(2) by (simp add: capped_def limit_reader_def)
    from local_append_ok[OF assms(1) this assms(4)] obtain w1 where w1: "local_AppendBlob ref w ?k ?rd n = (w1, Inr (int (length (old @ read_all ?rd))))"
      "w_fault w1 = no_faults" "data_at w1 ref ?k = Some (old @ read_all ?rd)" by blast
    note cp = capped_read[OF assms(5) fits, of rd]
    show ?thesis
    proof (cases "cap > 0 \<and> int (length old) + int (length (read_all rd)) > cap")
      case True
      obtain b where "store_blob w1 ref ?k = Some b" "b_data b = old @ read_all ?rd" using w1(3) by (auto simp: data_at_def)
      then obtain w2 where "local_TruncateBlob ref w1 ?k (int (length old)) n = (w2, Inr ())" "data_at w2 ref ?k = Some old"
        using w1(2) by (auto simp: local_TruncateBlob_def data_at_def store_blob_def bs.get_put)
      moreover have "cap > 0 \<and> int (length (old @ read_all ?rd)) > cap" using cp(2) True by simp
      ultimately show ?thesis using run w1(1) True by (simp add: appendStreaming_def local_appendable_def session_append_def)
    next
      case over: False
      then have "\<not> (cap > 0 \<and> int (length (old @ read_all ?rd)) > cap)" "read_all ?rd = read_all rd" using cp(2,3) by auto
      with run w1 over False show ?thesis by (auto simp: appendStreaming_def local_appendable_def session_append_def)
    qed
  qed
qed

section \<open>Witnesses\<close>

definition demo_upload_id :: string where
  "demo_upload_id = replicate 32 (CHR ''a'')"

definition demo_session :: bucket where
  "demo_session = fst (upload_create (s3_api bucket_client) empty_bucket (Inr demo_upload_id) 0)"

theorem s3_append_refines_witness:
  "\<exists>j. s3_content bk_obj bk_meta bk_part (fst (upload_append (s3_api bucket_client) 4 demo_session demo_upload_id ([''ab'', ''cde''], None) 0))
      (upload_key demo_upload_id) = Some (take j ''abcde'')"
proof -
  let ?a = "upload_append (s3_api bucket_client) 4 demo_session demo_upload_id ([''ab'', ''cde''], None) 0"
  have "s3_content bk_obj bk_meta bk_part demo_session (upload_key demo_upload_id) = Some []" by code_simp
  moreover have "bk_meta demo_session (appendMetaKey (upload_key demo_upload_id)) = None" by code_simp
  then have "s3_sound bk_meta bk_part demo_session (upload_key demo_upload_id)" by (simp add: s3_sound_def)
  moreover have "?a = (fst ?a, snd ?a)" by simp
  ultimately show ?thesis
    using s3_append_refines[OF bucket.s3_service_axioms, of 4 demo_session demo_upload_id "([''ab'', ''cde''], None)" 0 "fst ?a" "snd ?a" "[]"]
    by (auto simp: read_all_def i64_max_def)
qed

definition demo_pushed :: "bucket \<times> unit result" where
  "demo_pushed = push_chunks (s3_api bucket_client) 9 demo_session demo_upload_id [([''ab'', ''c''], None), ([''de''], None)] 0"

lemma s3_push_roundtrip_witness:
  "\<exists>s2. upload_open (s3_api bucket_client) (fst demo_pushed) demo_upload_id 0 = (s2, Inr (Some ''abcde''))"
proof -
  let ?o = "upload_open (s3_api bucket_client) (fst demo_pushed) demo_upload_id 0"
  have "case snd ?o of Inr (Some d) \<Rightarrow> True | _ \<Rightarrow> False" by code_simp
  then obtain d where d: "?o = (fst ?o, Inr (Some d))" by (cases ?o) (auto split: sum.splits option.splits)
  have "snd demo_pushed = Inr ()" by code_simp
  then have p: "push_chunks (s3_api bucket_client) 9 demo_session demo_upload_id [([''ab'', ''c''], None), ([''de''], None)] 0 = (fst demo_pushed, Inr ())"
    unfolding demo_pushed_def by (metis prod.collapse)
  have "snd (upload_create (s3_api bucket_client) empty_bucket (Inr demo_upload_id) 0) = Inr demo_upload_id" by code_simp
  then have c: "upload_create (s3_api bucket_client) empty_bucket (Inr demo_upload_id) 0 = (demo_session, Inr demo_upload_id)"
    unfolding demo_session_def by (metis prod.collapse)
  have "d = ''abcde''"
    using s3_push_roundtrip[OF bucket.s3_service_axioms _ _ c p d] by (simp add: empty_bucket_def read_all_def i64_max_def)
  with d show ?thesis by metis
qed


definition demo_staged :: world where
  "demo_staged = set_store demo_world DefaultStore [(upload_key demo_upload_id, \<lparr>b_data = ''abc'', b_mod_time = 0\<rparr>)]"

lemma local_append_exact_witness:
  "\<exists>w'. upload_append (local_api DefaultStore) 4 demo_staged demo_upload_id ([''de''], None) 0 = (w', Inl ErrUploadTooLarge) \<and>
    data_at w' DefaultStore (upload_key demo_upload_id) = Some ''abc''"
proof -
  have "w_fault demo_staged = no_faults" by (simp add: demo_staged_def demo_world_def)
  moreover have "validUploadID demo_upload_id" by code_simp
  moreover have "data_at demo_staged DefaultStore (upload_key demo_upload_id) = Some ''abc''"
    by (simp add: demo_staged_def data_at_def get_blob_def)
  ultimately show ?thesis
    using local_append_exact[of demo_staged "([''de''], None)" demo_upload_id DefaultStore "''abc''" 4 0]
    by (simp add: session_append_def read_all_def i64_max_def)
qed

end
