(* ===== verification/OCI_Paging.thy ===== *)
theory OCI_Paging
  imports OCI_Uploads
begin

text \<open>
  Pagination of the OCI list endpoints, after \<^verbatim>\<open>internal/formats/oci/pagination.go\<close>: the page cut out
  of a sorted list, the link to the next page, and the walk of a client that follows the links.
  \<^verbatim>\<open>sort.SearchStrings\<close> is the standard library's binary search.
\<close>

section \<open>Pages\<close>

record page_params =
  pp_n :: int
  pp_last :: string

definition ParsePageParams :: "(string \<times> string) list \<Rightarrow> page_params" where
  "ParsePageParams q =
     \<lparr>pp_n = (if query_get q ''n'' \<noteq> [] then (case atoi (query_get q ''n'') of Some n \<Rightarrow> if n > 0 then n else 0 | None \<Rightarrow> 0) else 0),
      pp_last = query_get q ''last''\<rparr>"

function search_from :: "string list \<Rightarrow> string \<Rightarrow> nat \<Rightarrow> nat \<Rightarrow> nat" where
  "search_from xs x i j =
     (if i < j then (let h = (i + j) div 2 in if xs ! h \<ge> x then search_from xs x i h else search_from xs x (Suc h) j) else i)"
  by pat_completeness auto
termination
  by (relation "measure (\<lambda>(xs, x, i, j). j - i)") auto

definition SearchStrings :: "string list \<Rightarrow> string \<Rightarrow> nat" where
  "SearchStrings xs x = search_from xs x 0 (length xs)"

function skip_upto :: "string list \<Rightarrow> string \<Rightarrow> nat \<Rightarrow> nat" where
  "skip_upto xs x i = (if i < length xs \<and> xs ! i \<le> x then skip_upto xs x (Suc i) else i)"
  by pat_completeness auto
termination
  by (relation "measure (\<lambda>(xs, x, i). length xs - i)") auto

definition Paginate :: "string list \<Rightarrow> page_params \<Rightarrow> string list \<times> bool" where
  "Paginate entries p =
     (let start = (if pp_last p \<noteq> [] then skip_upto entries (pp_last p) (SearchStrings entries (pp_last p)) else 0);
          rest = drop start entries
      in if pp_n p \<le> 0 \<or> int (length rest) \<le> pp_n p then (rest, False)
         else (take (nat (pp_n p)) rest, True))"

definition next_query :: "int \<Rightarrow> string \<Rightarrow> string" where
  "next_query n l = ''last='' @ QueryEscape l @ ''&n='' @ QueryEscape (itoa n)"

definition nextLink :: "string \<Rightarrow> int \<Rightarrow> string \<Rightarrow> string" where
  "nextLink escapedPath n l = ''<'' @ escapedPath @ ''?'' @ next_query n l @ ''>; rel='' @ [CHR 0x22] @ ''next'' @ [CHR 0x22]"

definition SetNextLink :: "string \<Rightarrow> page_params \<Rightarrow> string list \<Rightarrow> bool \<Rightarrow> (string \<times> string) list" where
  "SetNextLink escapedPath p page more_left =
     (if \<not> more_left \<or> page = [] then [] else [(''Link'', nextLink escapedPath (pp_n p) (last page))])"

text \<open>
  A client of a list endpoint: it asks for the page, and as long as the answer carries a link asks
  for the page the link names. \<open>None\<close> is a client that never stops.
\<close>

partial_function (option) page_walk :: "string \<Rightarrow> string list \<Rightarrow> page_params \<Rightarrow> string list option" where
  "page_walk url entries p =
     (case Paginate entries p of (page, more_left) \<Rightarrow>
        if SetNextLink url p page more_left = [] then Some page
        else Option.bind (page_walk url entries (ParsePageParams (ParseQuery (next_query (pp_n p) (last page)))))
               (\<lambda>rest. Some (page @ rest)))"

declare page_walk.simps [code]

section \<open>The link to the next page\<close>

text \<open>A cursor survives the trip through the link, whatever bytes it is made of.\<close>

lemma next_query_params:
  assumes "0 < n" "in_i64 n"
  shows "ParsePageParams (ParseQuery (next_query n l)) = \<lparr>pp_n = n, pp_last = l\<rparr>"
proof -
  have pair: "parse_pair (k @ CHR ''='' # QueryEscape v) = Some (k, v)"
    if "list_all unreserved k" "k \<noteq> []" for k v
  proof -
    have plain: "CHR ''='' \<notin> set k" "CHR '';'' \<notin> set k"
      using that(1) unreserved_plain by (auto simp: list_all_iff)
    show ?thesis
      using plain QueryEscape_set[of _ v] QueryUnescape_Escape[of k] QueryUnescape_Escape[of v] QueryEscape_plain[OF that(1)]
      by (auto simp: parse_pair_def str_cut_at)
  qed
  have "split_on (CHR ''&'') ((''last='' @ QueryEscape l) @ CHR ''&'' # ''n='' @ QueryEscape (itoa n)) =
      [''last='' @ QueryEscape l, ''n='' @ QueryEscape (itoa n)]"
    using QueryEscape_set[of "CHR ''&''" l] QueryEscape_set[of "CHR ''&''" "itoa n"]
    by (subst split_on_append) (auto simp del: append_Cons append.simps split_on.simps intro!: split_on_nosep)
  then have "ParseQuery (next_query n l) = [(''last'', l), (''n'', itoa n)]"
    using pair[of "''last''" l] pair[of "''n''" "itoa n"]
    by (simp add: ParseQuery_def next_query_def List.map_filter_def unreserved_def)
  moreover have "atoi [] = None" by code_simp
  ultimately show ?thesis using assms atoi_itoa[of n]
    by (cases "itoa n") (auto simp: ParsePageParams_def query_get_def)
qed

section \<open>Pages of a sorted list\<close>

declare search_from.simps [simp del] skip_upto.simps [simp del]

lemma search_from_bounds:
  assumes "sorted xs" "i \<le> j" "j \<le> length xs" "\<forall>m<i. xs ! m < x" "\<forall>m. j \<le> m \<and> m < length xs \<longrightarrow> x \<le> xs ! m"
  shows "search_from xs x i j \<le> length xs \<and> (\<forall>m < search_from xs x i j. xs ! m < x)"
  using assms
proof (induction xs x i j rule: search_from.induct)
  case (1 xs x i j)
  show ?case
  proof (cases "i < j")
    case True
    define h where "h = (i + j) div 2"
    have h: "i \<le> h" "h < j" using True by (auto simp: h_def)
    show ?thesis
    proof (cases "x \<le> xs ! h")
      case le: True
      have "\<forall>m. h \<le> m \<and> m < length xs \<longrightarrow> x \<le> xs ! m"
        using le sorted_nth_mono[OF 1(3)] by (blast intro: order_trans)
      moreover have "search_from xs x i j = search_from xs x i h"
        using True le by (subst search_from.simps) (simp add: h_def Let_def)
      ultimately show ?thesis using 1(1)[OF True h_def le 1(3)] 1(5,6) h by auto
    next
      case gt: False
      have "\<forall>m<Suc h. xs ! m < x"
      proof (intro allI impI)
        fix m assume "m < Suc h"
        then have "xs ! m \<le> xs ! h" using 1(3,5) h by (intro sorted_nth_mono) auto
        with gt show "xs ! m < x" by simp
      qed
      moreover have "search_from xs x i j = search_from xs x (Suc h) j"
        using True gt by (subst search_from.simps) (simp add: h_def Let_def)
      ultimately show ?thesis using 1(2)[OF True h_def gt 1(3)] 1(5,7) h by auto
    qed
  next
    case False
    then have "search_from xs x i j = i" by (subst search_from.simps) simp
    then show ?thesis using 1(4,5,6) by (simp only:) simp
  qed
qed

lemma skip_upto_bounds:
  assumes "i \<le> length xs" "\<forall>m<i. xs ! m \<le> x"
  shows "skip_upto xs x i \<le> length xs \<and> (\<forall>m < skip_upto xs x i. xs ! m \<le> x) \<and>
    (skip_upto xs x i < length xs \<longrightarrow> x < xs ! skip_upto xs x i)"
  using assms
proof (induction xs x i rule: skip_upto.induct)
  case (1 xs x i)
  show ?case
  proof (cases "i < length xs \<and> xs ! i \<le> x")
    case True
    then have "\<forall>m < Suc i. xs ! m \<le> x" using 1(3) by (simp add: less_Suc_eq)
    with 1(1)[OF True] True show ?thesis by (subst (1 2 3 4) skip_upto.simps) simp
  next
    case False
    with 1(2,3) show ?thesis by (subst (1 2 3 4) skip_upto.simps) auto
  qed
qed

lemma drop_filter:
  assumes "sorted xs" "k \<le> length xs" "\<forall>m<k. xs ! m \<le> x" "k < length xs \<Longrightarrow> x < xs ! k"
  shows "drop k xs = filter (\<lambda>e. x < e) xs"
proof -
  have "filter (\<lambda>e. x < e) (take k xs) = []"
    using assms(2,3) by (auto simp: filter_empty_conv in_set_conv_nth not_less)
  moreover have "filter (\<lambda>e. x < e) (drop k xs) = drop k xs"
  proof (rule filter_True, safe)
    fix e assume "e \<in> set (drop k xs)"
    then obtain m where m: "k + m < length xs" "e = xs ! (k + m)"
      by (metis add.commute in_set_conv_nth length_drop less_diff_conv nth_drop assms(2))
    then have "x < xs ! k" "xs ! k \<le> e" using assms(1,4) sorted_nth_mono[of xs k "k + m"] by auto
    then show "x < e" by (rule less_le_trans)
  qed
  ultimately show ?thesis by (metis append_Nil append_take_drop_id filter_append)
qed

text \<open>The page, without the binary search: the entries after the cursor, cut to \<open>n\<close>.\<close>

lemma Paginate_sorted:
  assumes "sorted xs"
  shows "Paginate xs p =
    (let rest = (if pp_last p = [] then xs else filter (\<lambda>e. pp_last p < e) xs)
     in if pp_n p \<le> 0 \<or> int (length rest) \<le> pp_n p then (rest, False) else (take (nat (pp_n p)) rest, True))"
proof -
  define s where "s = SearchStrings xs (pp_last p)"
  have "s \<le> length xs" "\<forall>m < s. xs ! m \<le> pp_last p"
    using search_from_bounds[OF assms, of 0 "length xs" "pp_last p"] leD
    unfolding s_def SearchStrings_def by (auto intro: order_less_imp_le)
  with skip_upto_bounds[OF this] have "drop (skip_upto xs (pp_last p) s) xs = filter (\<lambda>e. pp_last p < e) xs"
    using assms by (intro drop_filter) auto
  then have "drop (if pp_last p \<noteq> [] then skip_upto xs (pp_last p) (SearchStrings xs (pp_last p)) else 0) xs =
      (if pp_last p = [] then xs else filter (\<lambda>e. pp_last p < e) xs)" by (simp add: s_def)
  then show ?thesis unfolding Paginate_def Let_def by presburger
qed

lemma filter_after_take:
  assumes "sorted xs" "distinct xs" "0 < k" "k \<le> length xs"
  shows "filter (\<lambda>e. last (take k xs) < e) xs = drop k xs"
proof (rule drop_filter[symmetric])
  have l: "last (take k xs) = xs ! (k - 1)" using assms(3,4) by (subst last_conv_nth) auto
  show "\<forall>m<k. xs ! m \<le> last (take k xs)" using assms l by (auto intro: sorted_nth_mono)
  show "last (take k xs) < xs ! k" if "k < length xs"
    using assms that l sorted_wrt_nth_less[of "(<)" xs "k - 1" k] by (simp add: strict_sorted_iff)
qed (use assms in auto)

lemma last_empty:
  assumes "sorted ys" "distinct ys" "ys \<noteq> []" "last ys = ([] :: string)"
  shows "ys = [[]]"
proof (cases ys rule: rev_cases)
  case (snoc zs z)
  then have "\<forall>y\<in>set zs. y \<le> []" using assms by (auto simp: sorted_append)
  then have "set zs \<subseteq> {[]}" by auto
  then show ?thesis using snoc assms(2,4) by (cases zs) auto
qed (use assms in simp)

lemma page_walk_rest:
  assumes "sorted xs" "distinct xs" "\<not> (n = 1 \<and> [] \<in> set xs \<and> 1 < length xs)" "0 \<le> n" "in_i64 n"
  shows "pp_n p = n \<Longrightarrow> page_walk url xs p = Some (if pp_last p = [] then xs else filter (\<lambda>e. pp_last p < e) xs)"
proof (induction "length (if pp_last p = [] then xs else filter (\<lambda>e. pp_last p < e) xs)" arbitrary: p rule: less_induct)
  case less
  define rest where "rest = (if pp_last p = [] then xs else filter (\<lambda>e. pp_last p < e) xs)"
  have pag: "Paginate xs p = (if n \<le> 0 \<or> int (length rest) \<le> n then (rest, False) else (take (nat n) rest, True))"
    using Paginate_sorted[OF assms(1), of p] less(2) by (simp add: rest_def Let_def)
  show ?case
  proof (cases "n \<le> 0 \<or> int (length rest) \<le> n")
    case True
    then show ?thesis using pag by (subst page_walk.simps) (simp add: SetNextLink_def rest_def)
  next
    case False
    define q where "q = \<lparr>pp_n = n, pp_last = last (take (nat n) rest)\<rparr>"
    have "nat n > 0" "nat n < length rest" using False by auto
    have rest: "sorted rest" "distinct rest" "set rest \<subseteq> set xs"
      using assms(1,2) by (auto simp: rest_def sorted_wrt_filter)
    have ne: "take (nat n) rest \<noteq> []" using False by (cases rest) auto
    then have "last (take (nat n) rest) \<in> set rest" by (meson in_set_takeD last_in_set)
    moreover have "last (take (nat n) rest) \<noteq> []"
    proof
      assume e: "last (take (nat n) rest) = []"
      with ne rest have "take (nat n) rest = [[]]" by (intro last_empty) (simp_all add: sorted_wrt_take)
      then have "length (take (nat n) rest) = 1" "[] \<in> set rest" using in_set_takeD[of "[]" "nat n" rest] by simp_all
      then have "[] \<in> set rest" "nat n = 1" using \<open>nat n < length rest\<close> by simp_all
      moreover from this(1) have "rest = xs" by (auto simp: rest_def split: if_splits)
      ultimately show False using assms(3) False by simp
    qed
    ultimately have lst: "last (take (nat n) rest) \<in> set rest" "last (take (nat n) rest) \<noteq> []" by simp_all
    have "filter (\<lambda>e. last (take (nat n) rest) < e) xs = filter (\<lambda>e. last (take (nat n) rest) < e) rest"
      using lst(1) by (auto simp: rest_def intro!: filter_cong dest: less_trans)
    also have "\<dots> = drop (nat n) rest" by (rule filter_after_take[OF rest(1,2)]) (use False in auto)
    finally have after: "(if pp_last q = [] then xs else filter (\<lambda>e. pp_last q < e) xs) = drop (nat n) rest"
      using lst(2) by (simp add: q_def)
    then have "page_walk url xs q = Some (drop (nat n) rest)"
    proof (subst less(1)[of q])
      show "length (if pp_last q = [] then xs else filter (\<lambda>e. pp_last q < e) xs) <
          length (if pp_last p = [] then xs else filter (\<lambda>e. pp_last p < e) xs)"
        using False unfolding after rest_def[symmetric] by (simp only: length_drop) linarith
    qed (simp_all add: after q_def)
    moreover have "ParsePageParams (ParseQuery (next_query n (last (take (nat n) rest)))) = q"
      using next_query_params[of n] False assms(5) by (simp add: q_def)
    ultimately show ?thesis
      using pag False ne less(2) by (subst page_walk.simps) (simp add: SetNextLink_def rest_def[symmetric])
  qed
qed

section \<open>Following the links\<close>

lemma empty_entry_restarts:
  assumes "1 < length xs" "sorted xs" "[] \<in> set xs"
  shows "Paginate xs \<lparr>pp_n = 1, pp_last = []\<rparr> = ([[]], True)"
proof -
  obtain x y zs where xs: "xs = x # y # zs" using assms(1) by (cases xs; cases "tl xs") auto
  have "x \<le> []" using assms(2,3) xs by auto
  then have "x = []" by auto
  with xs show ?thesis by (simp add: Paginate_def)
qed

lemma page_walk_stuck:
  assumes "1 < length xs" "sorted xs" "[] \<in> set xs"
  shows "page_walk url xs \<lparr>pp_n = 1, pp_last = []\<rparr> = None"
proof -
  let ?p = "\<lparr>pp_n = 1, pp_last = []\<rparr>"
  have again: "ParsePageParams (ParseQuery (next_query 1 [])) = ?p" by (rule next_query_params) (simp_all add: i64_min_def i64_max_def)
  have "es = xs \<longrightarrow> p \<noteq> ?p" if w: "page_walk u es p = Some ys" for u es p ys
  proof (rule page_walk.raw_induct[where P = "\<lambda>u es p ys. es = xs \<longrightarrow> p \<noteq> ?p", OF _ w], intro impI notI)
    fix walk u es p ys
    assume IH: "\<And>u es p ys. walk u es p = Some ys \<Longrightarrow> es = xs \<longrightarrow> p \<noteq> ?p" and here: "es = xs" "p = ?p"
      and body: "(case Paginate es p of (page, more_left) \<Rightarrow>
        if SetNextLink u p page more_left = [] then Some page
        else Option.bind (walk u es (ParsePageParams (ParseQuery (next_query (pp_n p) (last page))))) (\<lambda>rest. Some (page @ rest))) = Some ys"
    have "Paginate es p = ([[]], True)" "SetNextLink u p [[]] True \<noteq> []"
      using here by (simp_all add: empty_entry_restarts[OF assms] SetNextLink_def)
    with body obtain zs where "walk u es ?p = Some zs" using here again by (auto simp: bind_eq_Some_conv)
    with IH here(1) show False by blast
  qed
  then show ?thesis by (cases "page_walk url xs ?p") auto
qed

text \<open>
  C14. A client that follows the \<^verbatim>\<open>Link\<close> headers of a list endpoint ends, and the pages it was given
  are together the whole list, in order and each entry once, whatever page size it asked for and
  whatever characters the entries are made of, with exactly one exception: it goes round for ever when it
  asks for one entry at a time and the first of several entries is the empty string, whose cursor is
  no cursor. (A manifest pushed under the empty reference makes one, \<open>OCI_Registry.empty_reference_is_routed\<close>.) The entries are sorted and distinct, as the handlers paginate them.
\<close>

theorem page_walk_complete:
  assumes "sorted xs" "distinct xs" "0 \<le> n" "in_i64 n"
  shows "page_walk url xs \<lparr>pp_n = n, pp_last = []\<rparr> = (if n = 1 \<and> [] \<in> set xs \<and> 1 < length xs then None else Some xs)"
  using page_walk_rest[OF assms(1,2) _ assms(3,4), of "\<lparr>pp_n = n, pp_last = []\<rparr>"] page_walk_stuck[OF _ assms(1)] by auto

theorem page_walk_complete_witness:
  "page_walk ''/v2/r/app/tags/list'' [''1.0+b1'', ''1.1 rc'', ''latest''] \<lparr>pp_n = 1, pp_last = []\<rparr>
     = Some [''1.0+b1'', ''1.1 rc'', ''latest''] \<and>
   page_walk ''/v2/r/app/tags/list'' [[], ''latest''] \<lparr>pp_n = 1, pp_last = []\<rparr> = None"
proof
  have n: "0 \<le> (1 :: int)" "in_i64 1" by (simp_all add: i64_min_def i64_max_def)
  have "sorted [''1.0+b1'', ''1.1 rc'', ''latest'']" "distinct [''1.0+b1'', ''1.1 rc'', ''latest'']" by code_simp+
  from page_walk_complete[OF this n, of "''/v2/r/app/tags/list''"]
  show "page_walk ''/v2/r/app/tags/list'' [''1.0+b1'', ''1.1 rc'', ''latest''] \<lparr>pp_n = 1, pp_last = []\<rparr>
    = Some [''1.0+b1'', ''1.1 rc'', ''latest'']" by simp
  have "sorted [[], ''latest'']" "distinct [[], ''latest'']" by code_simp+
  from page_walk_complete[OF this n, of "''/v2/r/app/tags/list''"]
  show "page_walk ''/v2/r/app/tags/list'' [[], ''latest''] \<lparr>pp_n = 1, pp_last = []\<rparr> = None" by simp
qed

end
