(* ===== verification/Like_Patterns.thy ===== *)
theory Like_Patterns
  imports Repository_DB
begin

text \<open>
  What the LIKE patterns the repositories build really match: \<^verbatim>\<open>likePrefix\<close> is a literal prefix test,
  whatever characters the prefix holds, and \<^verbatim>\<open>globToLike\<close> is glob matching for globs without a
  backslash.
\<close>

lemma like_escaped [simp]: "like_match (CHR 0x5C # c # ps) s \<longleftrightarrow> s \<noteq> [] \<and> hd s = c \<and> like_match ps (tl s)"
  by (cases s) auto

lemma like_literal: "c \<notin> {CHR 0x5C, CHR ''%'', CHR ''_''} \<Longrightarrow>
    like_match (c # ps) s \<longleftrightarrow> s \<noteq> [] \<and> hd s = c \<and> like_match ps (tl s)"
  by (cases s) auto

lemma like_underscore: "like_match (CHR ''_'' # ps) s \<longleftrightarrow> s \<noteq> [] \<and> like_match ps (tl s)"
  by (cases s) auto

lemma like_percent: "like_match (CHR ''%'' # q) s \<longleftrightarrow> (\<exists>n\<le>length s. like_match q (drop n s))"
proof (induction s)
  case (Cons c s)
  have "(\<exists>n\<le>length (c # s). like_match q (drop n (c # s))) \<longleftrightarrow>
      like_match q (c # s) \<or> (\<exists>n\<le>length s. like_match q (drop n s))"
    by (metis Suc_le_mono drop_0 drop_Suc_Cons le0 length_Cons not0_implies_Suc)
  with Cons show ?case by simp
qed simp

declare like_match.simps(2) [simp del]

lemma like_any: "like_match [CHR ''%''] s"
  by (auto simp: like_percent)

fun like_escape :: "string \<Rightarrow> string" where
  "like_escape [] = []"
| "like_escape (c # cs) =
     (if c = CHR 0x5C \<or> c = CHR ''%'' \<or> c = CHR ''_'' then CHR 0x5C # c # like_escape cs else c # like_escape cs)"

lemma likePrefix_escape: "likePrefix p = like_escape p @ ''%''"
  unfolding likePrefix_def by (induction p) auto

lemma like_match_escape:
  "like_match (like_escape p @ q) s \<longleftrightarrow> (\<exists>t. s = p @ t \<and> like_match q t)"
proof (induction p arbitrary: s)
  case (Cons c p)
  then show ?case by (cases s) (auto simp: like_literal)
qed simp

text \<open>The glob language: a star matches any run of characters, a question mark exactly one.\<close>

fun glob_match :: "string \<Rightarrow> string \<Rightarrow> bool" where
  "glob_match [] s \<longleftrightarrow> s = []"
| "glob_match (c # g) s \<longleftrightarrow>
     (if c = CHR ''*'' then (\<exists>n\<le>length s. glob_match g (drop n s))
      else s \<noteq> [] \<and> (c = CHR ''?'' \<or> c = hd s) \<and> glob_match g (tl s))"

text \<open>
  The path-prefix filters of the staleness scan and of the path listing match exactly the paths
  that start with the prefix: the wildcards and the escape character of LIKE are neutralised.
\<close>

lemma likePrefix_matches: "like_match (likePrefix p) s \<longleftrightarrow> has_prefix s p"
  by (auto simp: likePrefix_escape like_match_escape like_any has_prefix_iff)

text \<open>
  The name filter of a cleanup policy matches as a glob, for every glob without a backslash.
\<close>

lemma globToLike_matches:
  assumes "CHR 0x5C \<notin> set g"
  shows "like_match (globToLike g) s \<longleftrightarrow> glob_match g s"
  using assms
proof (induction g arbitrary: s)
  case (Cons c g)
  have IH: "like_match (globToLike g) s \<longleftrightarrow> glob_match g s" for s using Cons by simp
  have c: "c \<noteq> CHR 0x5C" using Cons.prems by auto
  consider "c = CHR ''*''" | "c = CHR ''?''" | "c = CHR ''%'' \<or> c = CHR ''_''"
    | "c \<notin> {CHR ''*'', CHR ''?'', CHR ''%'', CHR ''_''}" by blast
  then show ?case
  proof cases
    case 1
    then show ?thesis by (simp add: like_percent IH)
  next
    case 2
    then show ?thesis by (simp add: like_underscore IH)
  next
    case 3
    then show ?thesis by (auto simp: IH)
  next
    case 4
    then show ?thesis using c by (auto simp: like_literal IH)
  qed
qed simp

lemma globToLike_matches_witness: "like_match (globToLike ''a_*.jar'') ''a_1.jar''"
proof -
  have "glob_match ''a_*.jar'' ''a_1.jar''" by code_simp
  then show ?thesis by (subst globToLike_matches) simp_all
qed

end
