(* ===== verification/OCI_Listings.thy ===== *)
theory OCI_Listings
  imports OCI_Paging Http_Exchange RBAC Like_Patterns "HOL-Library.Multiset"
begin

text \<open>
  The read-only list endpoints of the OCI registry: tags, catalog and referrers, after
  \<^verbatim>\<open>handler.go\<close> (the tag list), \<^verbatim>\<open>catalog.go\<close>, \<^verbatim>\<open>manifest.go\<close> and \<^verbatim>\<open>referrers.go\<close> of
  \<^verbatim>\<open>internal/formats/oci\<close>; and the record of the handler.
\<close>

section \<open>The handler\<close>

text \<open>
  A request to a proxy repository that the handler passes on to \<^verbatim>\<open>repoproxy\<close>: cache path, upstream
  path, coordinates, content type, and whether the cached copy ages; \<open>OCI_Proxy\<close> goes on from there.
\<close>

datatype outcome =
    Answer reply
  | Upstream string string coords string bool
  | Upstream_Referrers string string

text \<open>
  The decoded JSON manifest: the fields \<^verbatim>\<open>parseManifestMeta\<close> unmarshals. \<open>encoding/json\<close> itself is a
  field of the handler, as are the random upload ids and the database's collation.
\<close>

record manifest_doc =
  md_media_type :: string
  md_artifact_type :: string
  md_config_media_type :: string
  md_subject_digest :: string
  md_annotations :: "(string \<times> string) list"

record oci_handler =
  oh_deps :: deps
  oh_uploads :: "world blob_api"
  oh_max_upload :: int
  oh_rbac :: "(bool \<times> privilege_source) option"
  oh_new_id :: "string result"
  oh_json :: "string \<Rightarrow> manifest_doc option"
  oh_collate :: "string \<Rightarrow> string"

definition manifestPath :: "string \<Rightarrow> string \<Rightarrow> string" where
  "manifestPath imageName ref = ''/manifests/'' @ imageName @ ''/'' @ ref"

definition blobPath :: "string \<Rightarrow> string \<Rightarrow> string" where
  "blobPath imageName digest = ''/blobs/'' @ imageName @ ''/'' @ digest"

section \<open>Manifest metadata\<close>

record manifest_meta =
  mm_media_type :: string
  mm_artifact_type :: string
  mm_subject :: string
  mm_annotations :: "(string \<times> string) list"

definition parseManifestMeta :: "(string \<Rightarrow> manifest_doc option) \<Rightarrow> string \<Rightarrow> manifest_meta option" where
  "parseManifestMeta json body =
     map_option (\<lambda>doc. \<lparr>mm_media_type = md_media_type doc,
       mm_artifact_type = (if md_artifact_type doc = [] then md_config_media_type doc else md_artifact_type doc),
       mm_subject = md_subject_digest doc, mm_annotations = md_annotations doc\<rparr>) (json body)"

definition extraFrom :: "manifest_meta \<Rightarrow> config" where
  "extraFrom m =
     (if mm_media_type m \<noteq> [] then [(''oci_media_type'', AnyStr (mm_media_type m))] else []) @
     (if mm_artifact_type m \<noteq> [] then [(''oci_artifact_type'', AnyStr (mm_artifact_type m))] else []) @
     (if mm_subject m \<noteq> [] then [(''oci_subject'', AnyStr (mm_subject m))] else []) @
     (if mm_annotations m \<noteq> [] then [(''oci_annotations'', AnyMap (map (\<lambda>(k, v). (k, AnyStr v)) (mm_annotations m)))] else [])"

fun any_str_entries :: "(string \<times> goany) list \<Rightarrow> (string \<times> string) list" where
  "any_str_entries [] = []"
| "any_str_entries ((k, AnyStr s) # m) = (k, s) # any_str_entries m"
| "any_str_entries (_ # m) = any_str_entries m"

definition annotationsOf :: "component \<Rightarrow> (string \<times> string) list" where
  "annotationsOf c = (case cfg_get (c_extra c) ''oci_annotations'' of AnyMap m \<Rightarrow> any_str_entries m | _ \<Rightarrow> [])"

section \<open>Digests\<close>

definition digestHexLen :: "string \<Rightarrow> nat option" where
  "digestHexLen algo = (if algo = ''sha256'' then Some 64 else if algo = ''sha512'' then Some 128 else None)"

definition lower_hex :: "char \<Rightarrow> bool" where
  "lower_hex ch = (let c = of_char ch :: nat in 48 \<le> c \<and> c \<le> 57 \<or> 97 \<le> c \<and> c \<le> 102)"

definition validDigest :: "string \<Rightarrow> bool" where
  "validDigest s =
     (case str_cut s (CHR '':'') of
        None \<Rightarrow> False
      | Some (algo, hex) \<Rightarrow>
          (case digestHexLen algo of None \<Rightarrow> False | Some n \<Rightarrow> length hex = n \<and> list_all lower_hex hex))"

section \<open>Tags\<close>

definition searchPageSize :: int where
  "searchPageSize = 500"

definition tag_search :: "string \<Rightarrow> string \<Rightarrow> int \<Rightarrow> search_params" where
  "tag_search repoName imageName offset =
     \<lparr>sp_repository = repoName, sp_repository_names = [], sp_format = [], sp_group = [], sp_name = imageName,
      sp_version = [], sp_maven_group_id = [], sp_maven_artifact_id = [], sp_tag = [],
      sp_limit = searchPageSize, sp_offset = offset\<rparr>"

definition is_tag_of :: "string \<Rightarrow> component \<Rightarrow> bool" where
  "is_tag_of imageName c \<longleftrightarrow> c_name c = imageName \<and> CHR '':'' \<notin> set (c_version c)"

text \<open>The loop over the search pages; \<open>None\<close> would be a loop that does not end.\<close>

partial_function (option) collect_from ::
    "(string \<Rightarrow> string) \<Rightarrow> world \<Rightarrow> string \<Rightarrow> string \<Rightarrow> int \<Rightarrow> string list \<Rightarrow> nat \<Rightarrow> string list result option" where
  "collect_from coll w repoName imageName offset tags n =
     (case components_search coll w (tag_search repoName imageName offset) n of
        Inl e \<Rightarrow> Some (Inl e)
      | Inr (items, token) \<Rightarrow>
          (let tags' = tags @ map c_version (filter (is_tag_of imageName) items)
           in if token = None \<or> items = [] then Some (Inr tags')
              else collect_from coll w repoName imageName (offset + searchPageSize) tags' (Suc n)))"

declare collect_from.simps [code]

definition collectTags :: "(string \<Rightarrow> string) \<Rightarrow> world \<Rightarrow> string \<Rightarrow> string \<Rightarrow> string list result option" where
  "collectTags coll w repoName imageName = collect_from coll w repoName imageName 0 [] 50"

definition list_reply :: "gin_request \<Rightarrow> string list \<Rightarrow> (string list \<Rightarrow> reply_body) \<Rightarrow> reply" where
  "list_reply q names body =
     (let p = ParsePageParams (q_query q);
          (page, more_left) = Paginate names p
      in \<lparr>h_status = 200, h_headers = SetNextLink (q_escaped_path q) p page more_left, h_body = body page\<rparr>)"

definition handleTagsList :: "oci_handler \<Rightarrow> world \<Rightarrow> gin_request \<Rightarrow> string \<Rightarrow> string \<Rightarrow> reply option" where
  "handleTagsList h w q repoName imageName =
     (if q_method q \<noteq> ''GET'' then Some (bare 405)
      else map_option (\<lambda>r. case r of
          Inl e \<Rightarrow> dockerError 500 ''UNKNOWN''
        | Inr tags \<Rightarrow> list_reply q (sort tags) (Tag_List imageName))
        (collectTags (oh_collate h) w repoName imageName))"

definition handleCatalog :: "world \<Rightarrow> gin_request \<Rightarrow> string \<Rightarrow> reply" where
  "handleCatalog w q repoName =
     (if q_method q \<noteq> ''GET'' then bare 405
      else (case assets_list_oci_image_names w [repoName] 51 of
          Inl e \<Rightarrow> dockerError 500 ''UNKNOWN''
        | Inr names \<Rightarrow> list_reply q (sort names) Repo_List))"

section \<open>Referrers\<close>

text \<open>\<open>Inr None\<close> is a component that outlived its manifest.\<close>

definition descriptorOf :: "world \<Rightarrow> string \<Rightarrow> string \<Rightarrow> component \<Rightarrow> descriptor option result" where
  "descriptorOf w repoName imageName c =
     (case assets_get_by_path w repoName (manifestPath imageName (c_version c)) 52 of
        Inl e \<Rightarrow> if err_is e ErrNotFound then Inr None else Inl e
      | Inr a \<Rightarrow>
          if a_sha256 a = [] then Inr None
          else (let mt = any_str (cfg_get (c_extra c) ''oci_media_type'') in
            Inr (Some \<lparr>de_media_type = (if mt = [] then a_content_type a else mt), de_digest = ''sha256:'' @ a_sha256 a,
              de_size = a_size_bytes a, de_artifact_type = any_str (cfg_get (c_extra c) ''oci_artifact_type''),
              de_annotations = annotationsOf c\<rparr>)))"

fun referrers_loop :: "world \<Rightarrow> string \<Rightarrow> string \<Rightarrow> string \<Rightarrow> string list \<Rightarrow> component list \<Rightarrow> descriptor list result" where
  "referrers_loop w repoName imageName flt seen [] = Inr []"
| "referrers_loop w repoName imageName flt seen (c # cs) =
     (case descriptorOf w repoName imageName c of
        Inl e \<Rightarrow> Inl e
      | Inr None \<Rightarrow> referrers_loop w repoName imageName flt seen cs
      | Inr (Some desc) \<Rightarrow>
          if de_digest desc \<in> set seen then referrers_loop w repoName imageName flt seen cs
          else if flt \<noteq> [] \<and> de_artifact_type desc \<noteq> flt
            then referrers_loop w repoName imageName flt (de_digest desc # seen) cs
          else (case referrers_loop w repoName imageName flt (de_digest desc # seen) cs of
              Inl e \<Rightarrow> Inl e
            | Inr ds \<Rightarrow> Inr (desc # ds)))"

text \<open>The part of \<^verbatim>\<open>handleReferrers\<close> after the proxy branch.\<close>

definition hosted_referrers :: "oci_handler \<Rightarrow> world \<Rightarrow> gin_request \<Rightarrow> string \<Rightarrow> string \<Rightarrow> string \<Rightarrow> reply" where
  "hosted_referrers h w q repoName imageName subjectDigest =
     (let flt = query_get (q_query q) ''artifactType'' in
      case components_list_oci_referrers (oh_collate h) w [repoName] imageName subjectDigest 54 of
        Inl e \<Rightarrow> dockerError 500 ''UNKNOWN''
      | Inr comps \<Rightarrow>
          (case referrers_loop w repoName imageName flt [] comps of
             Inl e \<Rightarrow> dockerError 502 ''UNKNOWN''
           | Inr ds \<Rightarrow>
               \<lparr>h_status = 200,
                h_headers = (if flt \<noteq> [] then [(''OCI-Filters-Applied'', ''artifactType'')] else []) @
                  [(''Content-Type'', ''application/vnd.oci.image.index.v1+json'')],
                h_body = Image_Index ds\<rparr>))"

definition handleReferrers :: "oci_handler \<Rightarrow> world \<Rightarrow> gin_request \<Rightarrow> string \<Rightarrow> string \<Rightarrow> string \<Rightarrow> outcome" where
  "handleReferrers h w q repoName imageName subjectDigest =
     (if q_method q \<noteq> ''GET'' \<and> q_method q \<noteq> ''HEAD'' then Answer (bare 405)
      else if \<not> validDigest subjectDigest then Answer (dockerError 400 ''DIGEST_INVALID'')
      else (case repos_get w repoName 53 of
          Inl e \<Rightarrow>
            if \<not> err_is e ErrNotFound then Answer (dockerError 502 ''UNKNOWN'')
            else Answer (hosted_referrers h w q repoName imageName subjectDigest)
        | Inr repo \<Rightarrow>
            if r_type repo = ''proxy'' then Upstream_Referrers imageName subjectDigest
            else Answer (hosted_referrers h w q repoName imageName subjectDigest)))"

section \<open>The tag list\<close>

lemma like_match_self: "CHR 0x5C \<notin> set p \<Longrightarrow> like_match q s \<Longrightarrow> like_match (p @ q) (p @ s)"
proof (induction p)
  case (Cons c p)
  then have IH: "like_match (p @ q) (p @ s)" "c \<noteq> CHR 0x5C" by auto
  show ?case
  proof (cases "c = CHR ''%''")
    case True
    with IH show ?thesis by (auto simp: like_percent intro: exI[of _ 1])
  next
    case False
    with IH show ?thesis by (cases "c = CHR ''_''") (auto simp: like_underscore like_literal)
  qed
qed simp

lemma lower_char_backslash: "lower_char c = CHR 0x5C \<Longrightarrow> c = CHR 0x5C"
proof (cases "CHR ''A'' \<le> c \<and> c \<le> CHR ''Z''")
  case True
  define n where "n = (of_char c :: nat)"
  have n: "65 \<le> n" "n \<le> 90" using True by (auto simp: n_def less_eq_char_def)
  assume "lower_char c = CHR 0x5C"
  then have "char_of (n + 32) = CHR 0x5C" using True by (simp add: lower_char_def n_def)
  then have "(of_char (char_of (n + 32) :: char) :: nat) = of_char (CHR 0x5C)" by simp
  with n show ?thesis by (simp add: of_char_of take_bit_eq_mod)
qed (auto simp: lower_char_def)

text \<open>The substring search finds the very name it is asked for, unless the name holds LIKE's escape character.\<close>

lemma ilike_self: "CHR 0x5C \<notin> set s \<Longrightarrow> ilike_contains s s"
proof -
  assume "CHR 0x5C \<notin> set s"
  then have "CHR 0x5C \<notin> set (to_lower s)" unfolding to_lower_def set_map by (metis imageE lower_char_backslash)
  then have "like_match (to_lower s @ ''%'') (to_lower s @ [])" by (rule like_match_self) (simp add: like_any)
  moreover have "to_lower (''%'' @ s @ ''%'') = CHR ''%'' # to_lower s @ ''%''"
    by (simp add: to_lower_def lower_char_def)
  ultimately show ?thesis by (auto simp: ilike_contains_def like_percent intro: exI[of _ 0])
qed

definition tag_rows :: "(string \<Rightarrow> string) \<Rightarrow> world \<Rightarrow> string \<Rightarrow> string \<Rightarrow> component list" where
  "tag_rows coll w repoName imageName =
     by_name_version coll (filter (search_where (tag_search repoName imageName 0)) (List.map_filter (comp_repo w) (w_comps w)))"

lemma search_page:
  assumes "components_search coll w (tag_search repoName imageName (int off)) n = Inr (items, token)"
  shows "items = take 500 (drop off (tag_rows coll w repoName imageName))"
    and "token = None \<longleftrightarrow> length (tag_rows coll w repoName imageName) \<le> off + 500"
proof -
  have "search_where (tag_search repoName imageName (int off)) = search_where (tag_search repoName imageName 0)"
    by (simp add: search_where_def tag_search_def fun_eq_iff)
  moreover have "sp_limit (tag_search repoName imageName (int off)) = 500" "sp_offset (tag_search repoName imageName (int off)) = int off"
    by (simp_all add: tag_search_def searchPageSize_def)
  ultimately show "items = take 500 (drop off (tag_rows coll w repoName imageName))"
    "token = None \<longleftrightarrow> length (tag_rows coll w repoName imageName) \<le> off + 500"
    using assms by (auto simp: components_search_def clamp_limit_def tag_rows_def Let_def split: if_splits)
qed

lemma collect_from_result:
  "\<exists>r. collect_from coll w repoName imageName (int off) tags n = Some r \<and>
    (\<forall>ts. r = Inr ts \<longrightarrow> ts = tags @ map c_version (filter (is_tag_of imageName) (drop off (tag_rows coll w repoName imageName)))) \<and>
    (w_fault w = no_faults \<longrightarrow> is_ok r)"
proof (induction "length (tag_rows coll w repoName imageName) - off" arbitrary: off tags n rule: less_induct)
  case less
  let ?R = "tag_rows coll w repoName imageName"
  show ?case
  proof (cases "components_search coll w (tag_search repoName imageName (int off)) n")
    case (Inl e)
    then have "w_fault w \<noteq> no_faults" by (auto simp: components_search_def guard_io_def Let_def split: if_splits)
    with Inl show ?thesis by (subst collect_from.simps) simp
  next
    case (Inr p)
    obtain items token where p: "p = (items, token)" by force
    note pg = search_page[OF Inr[unfolded p]]
    define tags' where "tags' = tags @ map c_version (filter (is_tag_of imageName) items)"
    have step: "collect_from coll w repoName imageName (int off) tags n =
        (if token = None \<or> items = [] then Some (Inr tags')
         else collect_from coll w repoName imageName (int (off + 500)) tags' (Suc n))"
      using Inr p by (subst collect_from.simps) (simp add: tags'_def searchPageSize_def Let_def)
    show ?thesis
    proof (cases "token = None \<or> items = []")
      case True
      then have "drop off ?R = items" using pg by auto
      with True step show ?thesis by (simp add: tags'_def)
    next
      case False
      then have "\<not> length ?R \<le> off" using pg by auto
      then have "length ?R - (off + 500) < length ?R - off" by linarith
      from less[OF this, of tags' "Suc n"] obtain r where
        r: "collect_from coll w repoName imageName (int (off + 500)) tags' (Suc n) = Some r"
          "\<forall>ts. r = Inr ts \<longrightarrow> ts = tags' @ map c_version (filter (is_tag_of imageName) (drop (off + 500) ?R))"
          "w_fault w = no_faults \<longrightarrow> is_ok r" by blast
      have "drop off ?R = items @ drop (off + 500) ?R"
        using pg(1) by (metis append_take_drop_id drop_drop add.commute)
      moreover have "collect_from coll w repoName imageName (int off) tags n = Some r" using r(1) False by (auto simp: step)
      ultimately show ?thesis using r(2,3) by (auto simp: tags'_def)
    qed
  qed
qed

lemma tag_rows_versions:
  assumes "CHR 0x5C \<notin> set imageName" "repoName \<noteq> []"
  shows "map c_version (filter (is_tag_of imageName) (filter (search_where (tag_search repoName imageName 0)) (List.map_filter (comp_repo w) cs)))
    = map c_version (filter (\<lambda>c. comp_in_repos w [repoName] c \<and> is_tag_of imageName c) cs)"
proof (induction cs)
  case (Cons c cs)
  have "search_where (tag_search repoName imageName 0) c' \<longleftrightarrow> c_repository c' = repoName" if "c_name c' = imageName" for c'
    using that ilike_self[OF assms(1)] assms(2) by (auto simp: search_where_def tag_search_def)
  with Cons show ?case
    by (auto simp: List.map_filter_def comp_repo_def comp_in_repos_def is_tag_of_def split: option.splits)
qed (simp add: List.map_filter_def)

lemma mset_tag_rows:
  assumes "CHR 0x5C \<notin> set imageName" "repoName \<noteq> []"
  shows "mset (map c_version (filter (is_tag_of imageName) (tag_rows coll w repoName imageName)))
    = mset (map c_version (filter (\<lambda>c. comp_in_repos w [repoName] c \<and> is_tag_of imageName c) (w_comps w)))"
  unfolding tag_rows_versions[OF assms, symmetric] tag_rows_def by_name_version_def by (simp add: mset_filter del: filter_filter)

lemma collect_tags_rows:
  assumes "repoName \<noteq> []" "CHR 0x5C \<notin> set imageName"
  shows "\<exists>r. collectTags coll w repoName imageName = Some r \<and> (w_fault w = no_faults \<longrightarrow> is_ok r) \<and>
    (\<forall>tags. r = Inr tags \<longrightarrow> mset tags = mset (map c_version
      (filter (\<lambda>c. comp_in_repos w [repoName] c \<and> c_name c = imageName \<and> CHR '':'' \<notin> set (c_version c)) (w_comps w))))"
  using collect_from_result[of coll w repoName imageName 0 "[]" 50] mset_tag_rows[OF assms(2,1), of coll w]
  by (auto simp: collectTags_def is_tag_of_def[abs_def])

text \<open>
  C13. Listing the tags of an image ends, however many pages the component search has and whatever
  call fails; when it succeeds, the list holds every tag of the image in the repository and nothing
  else, as often as the database has it: no other image's tags (the search matches substrings) and
  no digest aliases. Without a failing call it succeeds.
\<close>

theorem collectTags_complete:
  assumes "repoName \<noteq> []" "CHR 0x5C \<notin> set imageName"
  shows "\<exists>r. collectTags coll w repoName imageName = Some r \<and> (w_fault w = no_faults \<longrightarrow> is_ok r) \<and>
    (\<forall>tags. r = Inr tags \<longrightarrow> mset tags = mset (map c_version
      (filter (\<lambda>c. comp_in_repos w [repoName] c \<and> c_name c = imageName \<and> CHR '':'' \<notin> set (c_version c)) (w_comps w))))"
  by (rule collect_tags_rows[OF assms])

definition demo_tag :: "string \<Rightarrow> string \<Rightarrow> string \<Rightarrow> component" where
  "demo_tag i img v = \<lparr>c_id = i, c_repository_id = ''r1'', c_repository = ''apps'', c_format = ''docker'', c_group = [],
     c_name = img, c_version = v, c_tags = [], c_extra = [], c_last_downloaded = None, c_download_count = 0, c_created_at = 0\<rparr>"

definition demo_tag_world :: world where
  "demo_tag_world = empty_world\<lparr>w_repos := [demo_raw_repo\<lparr>r_id := ''r1'', r_name := ''apps''\<rparr>],
     w_comps := [demo_tag ''1'' ''app'' ''v2'', demo_tag ''2'' ''app'' ''sha256:00'', demo_tag ''3'' ''my-app'' ''v9'', demo_tag ''4'' ''app'' ''v1'']\<rparr>"

theorem collectTags_complete_witness:
  "case collectTags (\<lambda>s. s) demo_tag_world ''apps'' ''app'' of Some (Inr tags) \<Rightarrow> mset tags = {#''v1'', ''v2''#} | _ \<Rightarrow> False"
proof -
  have rows: "map c_version (filter (\<lambda>c. comp_in_repos demo_tag_world [''apps''] c \<and> c_name c = ''app'' \<and> CHR '':'' \<notin> set (c_version c))
      (w_comps demo_tag_world)) = [''v2'', ''v1'']" by code_simp
  have "w_fault demo_tag_world = no_faults" by (simp add: demo_tag_world_def empty_world_def)
  with collectTags_complete[of "''apps''" "''app''" "\<lambda>s. s" demo_tag_world] obtain tags where
    "collectTags (\<lambda>s. s) demo_tag_world ''apps'' ''app'' = Some (Inr tags)" "mset tags = mset [''v2'', ''v1'']"
    unfolding rows is_ok_iff by (auto simp: is_ok_iff)
  then show ?thesis by simp
qed

end
