(* ===== verification/OCI_Registry.thy ===== *)
theory OCI_Registry
  imports OCI_Listings
begin

text \<open>
  The OCI registry's handler, after \<^verbatim>\<open>internal/formats/oci/handler.go\<close>: dispatch of a request path,
  pushing, pulling and deleting manifests and blobs, the upload sessions' endpoints and
  cross-repository mounts, on top of the artifact store, the upload sessions and the access check.
  Requests a proxy repository forwards end in an \<open>Upstream\<close> outcome.
\<close>

section \<open>Checks every push makes\<close>

definition requireDockerAuth :: "oci_handler \<Rightarrow> reply option" where
  "requireDockerAuth h =
     (if d_user_id (oh_deps h) \<noteq> [] then None
      else Some ((dockerError 401 ''UNAUTHORIZED'')\<lparr>h_headers :=
        [(''Docker-Distribution-API-Version'', ''registry/2.0''),
         (''WWW-Authenticate'', ''Basic realm='' @ [CHR 0x22] @ ''Nexspence'' @ [CHR 0x22])]\<rparr>))"

datatype digest_problem =
    Bad_Form string
  | Unsupported_Algorithm string
  | Does_Not_Match string string

text \<open>\<open>Inr None\<close> is a claim that holds.\<close>

definition digestMismatchStream :: "deps \<Rightarrow> string \<Rightarrow> reader \<Rightarrow> digest_problem option result" where
  "digestMismatchStream d claimed r =
     (case str_cut claimed (CHR '':'') of
        None \<Rightarrow> Inr (Some (Bad_Form claimed))
      | Some (algo, hexDigest) \<Rightarrow>
          if algo \<noteq> ''sha256'' then Inr (Some (Unsupported_Algorithm algo))
          else (case snd r of
              Some e \<Rightarrow> Inl e
            | None \<Rightarrow>
                if d_sha256 d (read_all r) \<noteq> hexDigest then Inr (Some (Does_Not_Match claimed (d_sha256 d (read_all r))))
                else Inr None))"

definition digestMismatch :: "deps \<Rightarrow> string \<Rightarrow> string \<Rightarrow> digest_problem option" where
  "digestMismatch d claimed content =
     (case digestMismatchStream d claimed ([content], None) of Inr msg \<Rightarrow> msg | Inl _ \<Rightarrow> None)"

definition RejectMutation :: "string \<Rightarrow> repository option \<Rightarrow> reply option" where
  "RejectMutation method repo =
     (case repo of
        None \<Rightarrow> None
      | Some r \<Rightarrow>
          if r_type r = ''proxy'' \<and> method \<in> {''PUT'', ''POST'', ''PATCH'', ''DELETE''}
          then Some \<lparr>h_status = 405, h_headers = [], h_body = Json_Error\<rparr> else None)"

definition repo_or_none :: "world \<Rightarrow> string \<Rightarrow> nat \<Rightarrow> repository option" where
  "repo_or_none w repoName n = (case repos_get w repoName n of Inr r \<Rightarrow> Some r | Inl _ \<Rightarrow> None)"

section \<open>Manifests\<close>

definition maxManifestBytes :: nat where
  "maxManifestBytes = 4194304"

definition default_manifest_type :: string where
  "default_manifest_type = ''application/vnd.docker.distribution.manifest.v2+json''"

definition data_reply :: "gin_request \<Rightarrow> (string \<times> string) list \<Rightarrow> int \<Rightarrow> string \<Rightarrow> reply" where
  "data_reply q hdrs sz data =
     \<lparr>h_status = 200, h_headers = hdrs @ [(''Content-Length'', itoa sz)],
      h_body = (if q_method q = ''HEAD'' then No_Body else Bytes data)\<rparr>"

definition pullManifest :: "oci_handler \<Rightarrow> world \<Rightarrow> gin_request \<Rightarrow> string \<Rightarrow> string \<Rightarrow> string \<Rightarrow> world \<times> reply" where
  "pullManifest h w q repoName imageName ref =
     (case FetchArtifact (oh_deps h) w repoName (manifestPath imageName ref) of
        (w', Inl _) \<Rightarrow> (w', dockerError 404 ''MANIFEST_UNKNOWN'')
      | (w', Inr (data, a)) \<Rightarrow>
          (w', data_reply q ((if a_sha256 a \<noteq> [] then [(''Docker-Content-Digest'', ''sha256:'' @ a_sha256 a)] else []) @
            [(''Content-Type'', a_content_type a)]) (a_size_bytes a) data))"

definition record_extra :: "world \<Rightarrow> string \<Rightarrow> config \<Rightarrow> nat \<Rightarrow> world" where
  "record_extra w i extra n = (if extra \<noteq> [] then best_effort w (components_update_extra w i extra n) else w)"

text \<open>The second row of a push by tag, under the content's digest.\<close>

definition register_alias ::
    "oci_handler \<Rightarrow> world \<Rightarrow> string \<Rightarrow> string \<Rightarrow> string \<Rightarrow> string \<Rightarrow> store_result \<Rightarrow> config \<Rightarrow> world" where
  "register_alias h w repoName imageName ref ct res extra =
     (let digestRef = ''sha256:'' @ sr_sha256 res in
      if ref = digestRef then w
      else (case repos_get w repoName 62 of
          Inl _ \<Rightarrow> w
        | Inr repo \<Rightarrow>
            (case RegisterStoredBlob (oh_deps h) w repo (manifestPath imageName digestRef) ct
                    \<lparr>co_group = [], co_name = imageName, co_version = digestRef\<rparr> (a_blob_key (sr_asset res))
                    (sr_sha256 res) (sr_sha1 res) (sr_md5 res) (sr_size res) (a_blob_store_id (sr_asset res)) [] of
               (w', Inl _) \<Rightarrow> w'
             | (w', Inr alias) \<Rightarrow> record_extra w' (a_component_id alias) extra 63)))"

definition manifest_extra :: "oci_handler \<Rightarrow> string \<Rightarrow> config" where
  "manifest_extra h body = (case parseManifestMeta (oh_json h) body of Some m \<Rightarrow> extraFrom m | None \<Rightarrow> [])"

text \<open>The part of a push after the body is read and within the limit.\<close>

definition push_read_body :: "oci_handler \<Rightarrow> world \<Rightarrow> gin_request \<Rightarrow> string \<Rightarrow> string \<Rightarrow> string \<Rightarrow> string \<Rightarrow> world \<times> reply" where
  "push_read_body h w q repoName imageName ref body =
     (let ct = (if q_content_type q = [] then default_manifest_type else q_content_type q) in
      if CHR '':'' \<in> set ref \<and> digestMismatch (oh_deps h) ref body \<noteq> None then (w, dockerError 400 ''DIGEST_INVALID'')
      else (case StoreArtifact (oh_deps h) w repoName (manifestPath imageName ref) ct
               \<lparr>co_group = [], co_name = imageName, co_version = ref\<rparr> (body, False) (int (length body)) of
          (w1, Inl e) \<Rightarrow> (w1, dockerError 500 ''UNKNOWN'')
        | (w1, Inr res) \<Rightarrow>
            (let extra = manifest_extra h body;
                 w2 = record_extra w1 (a_component_id (sr_asset res)) extra 61;
                 digest = ''sha256:'' @ sr_sha256 res
             in (register_alias h w2 repoName imageName ref ct res extra,
                 (bare 201)\<lparr>h_headers := [(''Docker-Content-Digest'', digest),
                   (''Location'', ''/v2/'' @ imageName @ ''/manifests/'' @ digest)]\<rparr>))))"

definition pushManifest :: "oci_handler \<Rightarrow> world \<Rightarrow> gin_request \<Rightarrow> string \<Rightarrow> string \<Rightarrow> string \<Rightarrow> world \<times> reply" where
  "pushManifest h w q repoName imageName ref =
     (case requireDockerAuth h of
        Some r \<Rightarrow> (w, r)
      | None \<Rightarrow>
          (let body = limit_reader (Suc maxManifestBytes) (q_body q) in
           if snd body \<noteq> None then (w, dockerError 400 ''MANIFEST_INVALID'')
           else if length (read_all body) > maxManifestBytes then (w, dockerError 413 ''MANIFEST_INVALID'')
           else push_read_body h w q repoName imageName ref (read_all body)))"

definition recordCachedManifestMeta :: "oci_handler \<Rightarrow> world \<Rightarrow> repository \<Rightarrow> string \<Rightarrow> world" where
  "recordCachedManifestMeta h w repo cachePath =
     (case assets_get_by_path w (r_name repo) cachePath 64 of
        Inl _ \<Rightarrow> w
      | Inr a \<Rightarrow>
          (case components_get w (a_component_id a) 65 of
             Inl _ \<Rightarrow> w
           | Inr c \<Rightarrow>
               if cfg_get (c_extra c) ''oci_source_digest'' = AnyStr (a_sha256 a) then w
               else (case store_get w (pinned_store (oh_deps h) w (a_blob_store_id a) 66) (a_blob_key a) 66 of
                   Inl _ \<Rightarrow> w
                 | Inr data \<Rightarrow>
                     (let body = take (Suc maxManifestBytes) data;
                          extra = (if length body \<le> maxManifestBytes then manifest_extra h body else [])
                      in best_effort w (components_update_extra w (c_id c)
                           (extra @ [(''oci_source_digest'', AnyStr (a_sha256 a))]) 67)))))"

definition deletion :: "oci_handler \<Rightarrow> world \<Rightarrow> string \<Rightarrow> string \<Rightarrow> world \<times> reply" where
  "deletion h w repoName fp =
     (case DeleteArtifact (oh_deps h) w repoName fp of
        (w', Inl _) \<Rightarrow> (w', dockerError 500 ''UNKNOWN'')
      | (w', Inr _) \<Rightarrow> (w', bare 202))"

definition deleteManifest :: "oci_handler \<Rightarrow> world \<Rightarrow> string \<Rightarrow> string \<Rightarrow> string \<Rightarrow> world \<times> reply" where
  "deleteManifest h w repoName imageName ref = deletion h w repoName (manifestPath imageName ref)"

definition answered :: "world \<times> reply \<Rightarrow> world \<times> outcome" where
  "answered r = (fst r, Answer (snd r))"

definition handleManifests :: "oci_handler \<Rightarrow> world \<Rightarrow> gin_request \<Rightarrow> string \<Rightarrow> string \<Rightarrow> string \<Rightarrow> world \<times> outcome" where
  "handleManifests h w q repoName imageName ref =
     (let repo = repo_or_none w repoName 60; m = q_method q in
      if m = ''GET'' \<or> m = ''HEAD'' then
        (if (case repo of Some r \<Rightarrow> r_type r = ''proxy'' | None \<Rightarrow> False)
         then (w, Upstream (manifestPath imageName ref) (''/v2/'' @ imageName @ ''/manifests/'' @ ref)
                 \<lparr>co_group = [], co_name = imageName, co_version = ref\<rparr> default_manifest_type (\<not> has_prefix ref ''sha256:''))
         else answered (pullManifest h w q repoName imageName ref))
      else if m = ''PUT'' then
        (case RejectMutation m repo of Some r \<Rightarrow> (w, Answer r) | None \<Rightarrow> answered (pushManifest h w q repoName imageName ref))
      else if m = ''DELETE'' then
        (case RejectMutation m repo of Some r \<Rightarrow> (w, Answer r) | None \<Rightarrow> answered (deleteManifest h w repoName imageName ref))
      else (w, Answer (bare 405)))"

section \<open>Blobs\<close>

definition pullBlob :: "oci_handler \<Rightarrow> world \<Rightarrow> gin_request \<Rightarrow> string \<Rightarrow> string \<Rightarrow> string \<Rightarrow> world \<times> reply" where
  "pullBlob h w q repoName imageName digest =
     (case FetchArtifact (oh_deps h) w repoName (blobPath imageName digest) of
        (w', Inl _) \<Rightarrow> (w', if q_method q = ''HEAD'' then bare 404 else dockerError 404 ''BLOB_UNKNOWN'')
      | (w', Inr (data, a)) \<Rightarrow> (w', data_reply q ((''Docker-Content-Digest'', digest) #
            (if q_method q = ''HEAD'' then [] else [(''Content-Type'', ''application/octet-stream'')])) (a_size_bytes a) data))"

definition handleBlobs :: "oci_handler \<Rightarrow> world \<Rightarrow> gin_request \<Rightarrow> string \<Rightarrow> string \<Rightarrow> string \<Rightarrow> world \<times> outcome" where
  "handleBlobs h w q repoName imageName digest =
     (let repo = repo_or_none w repoName 70; m = q_method q in
      if m = ''GET'' \<or> m = ''HEAD'' then
        (if (case repo of Some r \<Rightarrow> r_type r = ''proxy'' | None \<Rightarrow> False)
         then (w, Upstream (blobPath imageName digest) (''/v2/'' @ imageName @ ''/blobs/'' @ digest)
                 \<lparr>co_group = [], co_name = imageName, co_version = digest\<rparr> ''application/octet-stream'' False)
         else answered (pullBlob h w q repoName imageName digest))
      else if m = ''DELETE'' then
        (case RejectMutation m repo of Some r \<Rightarrow> (w, Answer r) | None \<Rightarrow> answered (deletion h w repoName (blobPath imageName digest)))
      else (w, Answer (bare 405)))"

definition blobLocation :: "gin_request \<Rightarrow> string \<Rightarrow> string \<Rightarrow> string" where
  "blobLocation q imageName digest =
     (case index_str (q_url_path q) ''/blobs/'' of
        Some i \<Rightarrow> take i (q_url_path q) @ ''/blobs/'' @ digest
      | None \<Rightarrow> ''/v2/'' @ imageName @ ''/blobs/'' @ digest)"

section \<open>Mounting a blob\<close>

definition callerMayRead :: "oci_handler \<Rightarrow> gin_request \<Rightarrow> repository \<Rightarrow> string \<Rightarrow> bool" where
  "callerMayRead h q repo assetPath =
     (case oh_rbac h of
        None \<Rightarrow> True
      | Some (anon, privs_of) \<Rightarrow> CanAccessRepo anon privs_of (q_user_id q) (q_roles q) repo assetPath ''read'' = Inr True)"

definition mountSourceImages :: "string \<Rightarrow> string \<Rightarrow> string list" where
  "mountSourceImages repoName src_from =
     (let f = trim_slashes src_from;
          rest = (\<lambda>p. if trim_prefix f p \<noteq> f \<and> trim_prefix f p \<noteq> [] then [trim_prefix f p] else [])
      in if f = [] then [] else f # rest (repoName @ ''/'') @ rest (''repository/'' @ repoName @ ''/''))"

text \<open>The store the row names (\<open>[]\<close> for none), when the bytes are there.\<close>

definition locateBlob :: "oci_handler \<Rightarrow> world \<Rightarrow> asset \<Rightarrow> string option" where
  "locateBlob h w a =
     (let (ref, storeName) = (if a_blob_store_id a \<noteq> [] then
            (case blobs_get_by_id w (a_blob_store_id a) 71 of
               Inr bs \<Rightarrow> (PhysicalStore (oh_deps h) w bs 71, bs_name bs)
             | Inl _ \<Rightarrow> (DefaultStore, []))
          else (DefaultStore, []))
      in if store_exists w ref (a_blob_key a) 71 = Inr True then Some storeName else None)"

definition mount_locked :: "oci_handler \<Rightarrow> repository \<Rightarrow> string \<Rightarrow> string \<Rightarrow> asset \<Rightarrow> world \<Rightarrow> world \<times> bool result" where
  "mount_locked h repo imageName dgst src w =
     (case locateBlob h w src of
        None \<Rightarrow> (w, Inr False)
      | Some storeName \<Rightarrow>
          (case RegisterStoredBlob (oh_deps h) w repo (blobPath imageName dgst) ''application/octet-stream''
                  \<lparr>co_group = [], co_name = imageName, co_version = dgst\<rparr> (a_blob_key src) (a_sha256 src) (a_sha1 src) (a_md5 src)
                  (a_size_bytes src) (if storeName = [] then [] else a_blob_store_id src) storeName of
             (w', Inl e) \<Rightarrow> (w', Inl e)
           | (w', Inr _) \<Rightarrow> (w', Inr True)))"

fun mount_from :: "oci_handler \<Rightarrow> gin_request \<Rightarrow> repository \<Rightarrow> string \<Rightarrow> string \<Rightarrow> string \<Rightarrow> string list \<Rightarrow> world \<Rightarrow> world \<times> bool" where
  "mount_from h q repo repoName imageName dgst [] w = (w, False)"
| "mount_from h q repo repoName imageName dgst (img # imgs) w =
     (if img = imageName then mount_from h q repo repoName imageName dgst imgs w
      else (case assets_get_by_path w repoName (blobPath img dgst) 72 of
          Inl _ \<Rightarrow> mount_from h q repo repoName imageName dgst imgs w
        | Inr src \<Rightarrow>
            if \<not> callerMayRead h q repo (blobPath img dgst) then mount_from h q repo repoName imageName dgst imgs w
            else (case with_blob_key_lock w (a_blob_key src) 20 (mount_locked h repo imageName dgst src) of
                (w', Inl _) \<Rightarrow> (w', False)
              | (w', Inr mounted) \<Rightarrow>
                  if \<not> mounted then mount_from h q repo repoName imageName dgst imgs w' else (w', True))))"

text \<open>\<open>None\<close>: not mounted, start a normal upload.\<close>

definition mountBlob :: "oci_handler \<Rightarrow> world \<Rightarrow> gin_request \<Rightarrow> string \<Rightarrow> string \<Rightarrow> string \<Rightarrow> string \<Rightarrow> world \<times> reply option" where
  "mountBlob h w q repoName imageName dgst src_from =
     (if \<not> validDigest dgst then (w, None)
      else (case repos_get w repoName 73 of
          Inl _ \<Rightarrow> (w, None)
        | Inr repo \<Rightarrow>
            (case mount_from h q repo repoName imageName dgst (mountSourceImages repoName src_from) w of
               (w', False) \<Rightarrow> (w', None)
             | (w', True) \<Rightarrow> (w', Some ((bare 201)\<lparr>h_headers :=
                 [(''Docker-Content-Digest'', dgst), (''Location'', blobLocation q imageName dgst)]\<rparr>)))))"

section \<open>Uploads\<close>

definition trim_right_slashes :: "string \<Rightarrow> string" where
  "trim_right_slashes s = rev (dropWhile (\<lambda>c. c = slash) (rev s))"

definition range_header :: "int \<Rightarrow> string" where
  "range_header n = ''0-'' @ itoa (i64 (n - 1))"

definition initiateUpload :: "oci_handler \<Rightarrow> world \<Rightarrow> gin_request \<Rightarrow> string \<Rightarrow> string \<Rightarrow> world \<times> reply" where
  "initiateUpload h w q repoName imageName =
     (case requireDockerAuth h of
        Some r \<Rightarrow> (w, r)
      | None \<Rightarrow>
          (let dgst = query_get (q_query q) ''mount''; src_from = query_get (q_query q) ''from'' in
           case (if dgst \<noteq> [] \<and> src_from \<noteq> [] then mountBlob h w q repoName imageName dgst src_from else (w, None)) of
             (w1, Some r) \<Rightarrow> (w1, r)
           | (w1, None) \<Rightarrow>
               (case upload_create (oh_uploads h) w1 (oh_new_id h) 80 of
                  (w2, Inl _) \<Rightarrow> (w2, dockerError 500 ''UNKNOWN'')
                | (w2, Inr uuid) \<Rightarrow>
                    (w2, (bare 202)\<lparr>h_headers := [(''Location'', trim_right_slashes (q_url_path q) @ ''/'' @ uuid),
                       (''Docker-Upload-UUID'', uuid), (''Range'', ''0-0'')]\<rparr>))))"

text \<open>What an append answers when it fails; \<open>None\<close> when it did not.\<close>

definition append_failure :: "int option result \<Rightarrow> reply option" where
  "append_failure r =
     (case r of
        Inr None \<Rightarrow> Some (dockerError 404 ''BLOB_UPLOAD_UNKNOWN'')
      | Inl e \<Rightarrow> if err_is e ErrUploadTooLarge then Some (dockerError 413 ''BLOB_UPLOAD_INVALID'') else Some (dockerError 500 ''UNKNOWN'')
      | Inr (Some _) \<Rightarrow> None)"

definition patch_quota :: "oci_handler \<Rightarrow> world \<Rightarrow> gin_request \<Rightarrow> string \<Rightarrow> string \<Rightarrow> reply option" where
  "patch_quota h w q repoName uuid =
     (if q_content_length q > 0 then
        (case repos_get w repoName 81 of
           Inl _ \<Rightarrow> None
         | Inr repo \<Rightarrow>
             (case upload_size (oh_uploads h) w uuid 81 of
                None \<Rightarrow> Some (dockerError 404 ''BLOB_UPLOAD_UNKNOWN'')
              | Some stored \<Rightarrow>
                  (case checkQuota w repo (i64 (stored + q_content_length q)) 82 of
                     Inl e \<Rightarrow> Some (dockerError (if err_is e ErrQuotaExceeded then 413 else 500) ''BLOB_UPLOAD_INVALID'')
                   | Inr _ \<Rightarrow> None)))
      else None)"

definition patchUpload :: "oci_handler \<Rightarrow> world \<Rightarrow> gin_request \<Rightarrow> string \<Rightarrow> string \<Rightarrow> world \<times> reply" where
  "patchUpload h w q repoName uuid =
     (case patch_quota h w q repoName uuid of
        Some r \<Rightarrow> (w, r)
      | None \<Rightarrow>
          (case upload_append (oh_uploads h) (oh_max_upload h) w uuid (q_body q) 83 of
             (w1, r) \<Rightarrow>
               (case append_failure r of
                  Some f \<Rightarrow> (w1, f)
                | None \<Rightarrow>
                    (w1, (bare 202)\<lparr>h_headers := [(''Location'', q_url_path q),
                       (''Range'', range_header (case r of Inr (Some offset) \<Rightarrow> offset | _ \<Rightarrow> 0)),
                       (''Docker-Upload-UUID'', uuid)]\<rparr>))))"

definition open_failure :: "string option result \<Rightarrow> reply option" where
  "open_failure r =
     (case r of
        Inr None \<Rightarrow> Some (dockerError 404 ''BLOB_UPLOAD_UNKNOWN'')
      | Inl _ \<Rightarrow> Some (dockerError 500 ''UNKNOWN'')
      | Inr (Some _) \<Rightarrow> None)"

definition opened :: "string option result \<Rightarrow> string" where
  "opened r = (case r of Inr (Some data) \<Rightarrow> data | _ \<Rightarrow> [])"

text \<open>The second pass: the verified session is stored under the digest's path and the session removed.\<close>

definition finalize_store :: "oci_handler \<Rightarrow> world \<Rightarrow> gin_request \<Rightarrow> string \<Rightarrow> string \<Rightarrow> string \<Rightarrow> string \<Rightarrow> int \<Rightarrow> world \<times> reply" where
  "finalize_store h w q repoName imageName uuid digest sz =
     (case upload_open (oh_uploads h) w uuid 86 of
        (w1, r) \<Rightarrow>
          (case open_failure r of
             Some f \<Rightarrow> (w1, f)
           | None \<Rightarrow>
               (case StoreArtifact (oh_deps h) w1 repoName (blobPath imageName digest) ''application/octet-stream''
                       \<lparr>co_group = [], co_name = imageName, co_version = digest\<rparr> (opened r, False) sz of
                  (w2, Inl _) \<Rightarrow> (w2, dockerError 500 ''UNKNOWN'')
                | (w2, Inr _) \<Rightarrow>
                    (upload_remove (oh_uploads h) w2 uuid 87,
                     (bare 201)\<lparr>h_headers := [(''Docker-Content-Digest'', digest),
                       (''Location'', blobLocation q imageName digest), (''Content-Range'', range_header sz)]\<rparr>))))"

definition finalizeUpload :: "oci_handler \<Rightarrow> world \<Rightarrow> gin_request \<Rightarrow> string \<Rightarrow> string \<Rightarrow> string \<Rightarrow> world \<times> reply" where
  "finalizeUpload h w q repoName imageName uuid =
     (let digest = query_get (q_query q) ''digest'' in
      if digest = [] then (w, dockerError 400 ''DIGEST_INVALID'')
      else (case (if q_content_length q > 0 then upload_append (oh_uploads h) (oh_max_upload h) w uuid (q_body q) 84
                  else (w, Inr (Some 0))) of
          (w1, ra) \<Rightarrow>
            (case append_failure ra of
               Some f \<Rightarrow> (w1, f)
             | None \<Rightarrow>
                 (case upload_open (oh_uploads h) w1 uuid 85 of
                    (w2, ro) \<Rightarrow>
                      (case open_failure ro of
                         Some f \<Rightarrow> (w2, f)
                       | None \<Rightarrow>
                           (case digestMismatchStream (oh_deps h) digest ([opened ro], None) of
                              Inl _ \<Rightarrow> (w2, dockerError 500 ''UNKNOWN'')
                            | Inr (Some _) \<Rightarrow> (w2, dockerError 400 ''DIGEST_INVALID'')
                            | Inr None \<Rightarrow>
                                finalize_store h w2 q repoName imageName uuid digest (int (length (opened ro)))))))))"

definition handleBlobUploads :: "oci_handler \<Rightarrow> world \<Rightarrow> gin_request \<Rightarrow> string \<Rightarrow> string \<Rightarrow> string \<Rightarrow> world \<times> reply" where
  "handleBlobUploads h w q repoName imageName uuid =
     (case RejectMutation (q_method q) (repo_or_none w repoName 88) of
        Some r \<Rightarrow> (w, r)
      | None \<Rightarrow>
          (let m = q_method q in
           if m = ''POST'' then initiateUpload h w q repoName imageName
           else if m = ''PATCH'' then
             (if uuid = [] then (w, dockerError 400 ''BLOB_UPLOAD_INVALID'') else patchUpload h w q repoName uuid)
           else if m = ''PUT'' then
             (if uuid = [] then (w, dockerError 400 ''BLOB_UPLOAD_INVALID'') else finalizeUpload h w q repoName imageName uuid)
           else if m = ''GET'' then
             (if uuid = [] then (w, bare 404)
              else (case upload_size (oh_uploads h) w uuid 89 of
                  None \<Rightarrow> (w, dockerError 404 ''BLOB_UPLOAD_UNKNOWN'')
                | Some offset \<Rightarrow>
                    (w, (bare 204)\<lparr>h_headers := [(''Range'', range_header offset), (''Docker-Upload-UUID'', uuid)]\<rparr>)))
           else (w, bare 405)))"

section \<open>Dispatch\<close>

definition normPath :: "string \<Rightarrow> string" where
  "normPath p = ''/'' @ join_with ''/'' (rev (clean_segments [] (split_on slash (''/'' @ trim_prefix p ''/''))))"

definition restFromAssetPath :: "string \<Rightarrow> string option" where
  "restFromAssetPath p =
     (let convert = (\<lambda>kind. let tail = trim_prefix p (''/'' @ kind @ ''/'') in
          case last_index_str tail ''/'' of
            Some i \<Rightarrow> if i = 0 then None else Some (take i tail @ ''/'' @ kind @ ''/'' @ drop (Suc i) tail)
          | None \<Rightarrow> None)
      in if has_prefix p ''/blobs/'' then convert ''blobs''
         else if has_prefix p ''/manifests/'' then convert ''manifests'' else None)"

fun segmentIndex :: "string list \<Rightarrow> string \<Rightarrow> nat option" where
  "segmentIndex [] seg = None"
| "segmentIndex (p # ps) seg = (if p = seg then Some 0 else map_option Suc (segmentIndex ps seg))"

definition endsWithSegments :: "string list \<Rightarrow> string list \<Rightarrow> bool" where
  "endsWithSegments parts segs \<longleftrightarrow> length segs \<le> length parts \<and> drop (length parts - length segs) parts = segs"

definition referrersIndex :: "string list \<Rightarrow> nat option" where
  "referrersIndex parts =
     (if 3 \<le> length parts \<and> parts ! (length parts - 2) = ''referrers'' then Some (length parts - 2) else None)"

datatype route =
    Version_Check
  | Not_Found
  | Bad_Request
  | Catalog
  | Tags string
  | Referrers string string
  | Manifests string string
  | Blob_Upload string string
  | Blob string string

definition route_parts :: "string list \<Rightarrow> route" where
  "route_parts parts =
     (let upto = (\<lambda>i. join_with ''/'' (take i parts)); beyond = (\<lambda>i. join_with ''/'' (drop (Suc i) parts)) in
      if length parts < 2 then Bad_Request
      else if endsWithSegments parts [''tags'', ''list''] then Tags (upto (length parts - 2))
      else (case referrersIndex parts of
          Some i \<Rightarrow> Referrers (upto i) (beyond i)
        | None \<Rightarrow>
            (case segmentIndex parts ''manifests'' of
               Some i \<Rightarrow> Manifests (upto i) (beyond i)
             | None \<Rightarrow>
                 (case segmentIndex parts ''blobs'' of
                    Some i \<Rightarrow>
                      if Suc i < length parts \<and> parts ! Suc i = ''uploads''
                      then Blob_Upload (upto i) (beyond (Suc i)) else Blob (upto i) (beyond i)
                  | None \<Rightarrow> Not_Found))))"

definition route_of :: "string \<Rightarrow> route" where
  "route_of path =
     (let p = normPath path in
      if p = ''/v2/'' \<or> p = ''/v2'' then Version_Check
      else (case (if has_prefix p ''/v2/'' then Some (trim_prefix p ''/v2/'') else restFromAssetPath p) of
          None \<Rightarrow> Not_Found
        | Some rest \<Rightarrow> if rest = ''_catalog'' then Catalog else route_parts (split_on slash rest)))"

text \<open>\<open>None\<close> would be a request that is never answered.\<close>

definition ServeHTTP :: "oci_handler \<Rightarrow> world \<Rightarrow> gin_request \<Rightarrow> (world \<times> outcome) option" where
  "ServeHTTP h w q =
     (case route_of (q_path q) of
        Version_Check \<Rightarrow> Some (w, Answer ((bare 200)\<lparr>h_headers := [(''Docker-Distribution-API-Version'', ''registry/2.0'')]\<rparr>))
      | Not_Found \<Rightarrow> Some (w, Answer (bare 404))
      | Bad_Request \<Rightarrow> Some (w, Answer (bare 400))
      | Catalog \<Rightarrow> Some (w, Answer (handleCatalog w q (q_repo q)))
      | Tags imageName \<Rightarrow>
          if imageName = [] then Some (w, Answer (dockerError 404 ''NAME_UNKNOWN''))
          else map_option (\<lambda>r. (w, Answer r)) (handleTagsList h w q (q_repo q) imageName)
      | Referrers imageName subj \<Rightarrow> Some (w, handleReferrers h w q (q_repo q) imageName subj)
      | Manifests imageName ref \<Rightarrow> Some (handleManifests h w q (q_repo q) imageName ref)
      | Blob_Upload imageName uuid \<Rightarrow> Some (answered (handleBlobUploads h w q (q_repo q) imageName uuid))
      | Blob imageName digest \<Rightarrow> Some (handleBlobs h w q (q_repo q) imageName digest))"

text \<open>A manifest may be pushed under the empty reference, which the tag list then shows as an entry.\<close>

lemma empty_reference_is_routed:
  "route_of ''/v2/app/manifests/'' = Manifests ''app'' []"
  "is_tag_of ''app'' (c\<lparr>c_name := ''app'', c_version := []\<rparr>)"
  by (code_simp, simp add: is_tag_of_def)

end
