(* ===== verification/OCI_Content.thy ===== *)
theory OCI_Content
  imports OCI_Registry
begin

text \<open>
  What the OCI registry promises of its content: a blob is content-addressed, so that no sequence of
  requests, whatever fails, makes a pull by digest return other bytes; what a finished upload
  stored is what a pull returns; a mount needs the right to read its source. For manifests the
  first promise does not hold, which a push sequence shows.
\<close>

section \<open>What an upload session touches\<close>

definition touches :: "store_ref \<Rightarrow> string \<Rightarrow> world \<Rightarrow> world \<Rightarrow> bool" where
  "touches ref k w w' \<longleftrightarrow> (\<exists>s. w' = set_store w ref s \<and> (\<forall>k'. k' \<noteq> k \<longrightarrow> get_blob s k' = get_blob (w_phys w ref) k'))"

lemma touches_refl [simp]: "touches ref k w w"
  unfolding touches_def by (rule exI[of _ "w_phys w ref"]) (simp add: set_store_def)

lemma touches_trans [trans]:
  assumes "touches ref k w w1" "touches ref k w1 w2"
  shows "touches ref k w w2"
proof -
  obtain s where s: "w1 = set_store w ref s" "\<forall>k'. k' \<noteq> k \<longrightarrow> get_blob s k' = get_blob (w_phys w ref) k'"
    using assms(1) by (auto simp: touches_def)
  obtain t where t: "w2 = set_store w1 ref t" "\<forall>k'. k' \<noteq> k \<longrightarrow> get_blob t k' = get_blob (w_phys w1 ref) k'"
    using assms(2) by (auto simp: touches_def)
  have "w2 = set_store w ref t" using s(1) t(1) by (simp add: set_store_def)
  with s t show ?thesis unfolding touches_def by (auto simp: set_store_def)
qed

lemma touches_put: "touches ref k w (set_store w ref (put_blob (w_phys w ref) k b))"
  by (auto simp: touches_def bs.get_put)

lemma touches_del: "touches ref k w (set_store w ref (del_blob (w_phys w ref) k))"
  by (auto simp: touches_def bs.get_del)

lemma touches_frame:
  assumes "touches ref k w w'"
  shows "w_assets w' = w_assets w" "w_fault w' = w_fault w" "w_repos w' = w_repos w" "w_blobs w' = w_blobs w"
    "db_ok w' = db_ok w" "ref' \<noteq> ref \<or> k' \<noteq> k \<Longrightarrow> data_at w' ref' k' = data_at w ref' k'"
  using assms by (auto simp: touches_def data_at_set_store data_at_def store_blob_def)

lemma touches_store_put: "store_put w ref k d n = Inr w' \<Longrightarrow> touches ref k w w'"
  by (drule store_put_ok) (simp add: touches_put)

lemma touches_store_delete: "store_delete w ref k n = Inr w' \<Longrightarrow> touches ref k w w'"
  by (auto simp: touches_del)

lemma touches_local_copy: "local_copy w ref k ds n = (w', r) \<Longrightarrow> touches ref k w w'"
proof (induction w ref k ds n rule: local_copy.induct)
  case (2 w ref k d ds n)
  show ?case
  proof (cases "w_fault w ''Store.Append.ENOSPC'' k n \<or> w_fault w ''Store.Append.Write'' k n")
    case False
    with 2 have "touches ref k (local_extend w ref k d) w'" by simp
    then show ?thesis using touches_trans touches_put unfolding local_extend_def by blast
  qed (use 2 in \<open>auto split: if_splits\<close>)
qed simp

lemma touches_local_append:
  assumes "local_AppendBlob ref w k rd n = (w', r)"
  shows "touches ref k w w'"
proof -
  obtain w1 r1 where cp: "local_copy (local_extend w ref k []) ref k (fst rd) n = (w1, r1)" by fastforce
  have "touches ref k w w1"
    using touches_local_copy[OF cp] touches_trans touches_put unfolding local_extend_def by blast
  moreover have "w' = w \<or> w' = w1" using assms cp by (auto simp: local_AppendBlob_def split: if_splits sum.splits option.splits)
  ultimately show ?thesis by auto
qed

lemma touches_local_truncate: "local_TruncateBlob ref w k m n = (w', r) \<Longrightarrow> touches ref k w w'"
  using touches_put by (auto simp: local_TruncateBlob_def split: option.splits if_splits)

lemmas local_defs = local_api_def local_appendable_def after_def

lemma upload_create_touches:
  assumes "upload_create (local_api DefaultStore) w rid n = (w', r)"
  shows "w' = w \<or> (\<exists>i. touches DefaultStore (upload_key i) w w')"
  using assms by (auto simp: upload_create_def local_defs dest: touches_store_put split: sum.splits)

lemma upload_open_local:
  assumes "upload_open (local_api DefaultStore) w i n = (w', r)"
  shows "w' = w" "r = Inr (Some data) \<Longrightarrow> data_at w DefaultStore (upload_key i) = Some data"
  using assms by (auto simp: upload_open_def local_defs store_get_ok split: if_splits sum.splits)

lemma upload_append_touches:
  assumes "upload_append (local_api DefaultStore) cap w i rd n = (w', r)"
  shows "touches DefaultStore (upload_key i) w w'"
proof (cases "upload_size (local_api DefaultStore) w i n")
  case (Some stored)
  show ?thesis
  proof (cases "cap > 0 \<and> stored \<ge> cap")
    case False
    define r0 where "r0 = (if cap > 0 then limit_reader (nat (i64 (cap - stored + 1))) rd else rd)"
    have "appendStreaming (local_appendable DefaultStore) cap w i r0 stored n = (w', r)"
      using assms unfolding upload_append_def Some option.case if_not_P[OF False] r0_def[symmetric] Let_def
      by (simp add: local_api_def)
    moreover obtain w1 r1 where a: "local_AppendBlob DefaultStore w (upload_key i) r0 n = (w1, r1)" by fastforce
    ultimately have "w' = w1 \<or> (\<exists>x. local_TruncateBlob DefaultStore w1 (upload_key i) stored n = (w', x))"
      by (auto simp: appendStreaming_def local_appendable_def split: prod.splits sum.splits if_splits)
    with touches_local_append[OF a] touches_local_truncate show ?thesis by (blast intro: touches_trans)
  qed (use assms Some in \<open>simp add: upload_append_def\<close>)
qed (use assms in \<open>simp add: upload_append_def\<close>)

lemma upload_remove_touches: "touches DefaultStore (upload_key i) w (upload_remove (local_api DefaultStore) w i n)"
  using touches_store_delete by (auto simp: upload_remove_def local_defs split: sum.splits)

section \<open>Content-addressed blobs\<close>

text \<open>
  \<open>H\<close> is the hash of the registry, as hexadecimal digits: without collisions, which is what the
  product assumes of SHA-256. The bytes under a key are right when every name of a blob the key can
  stand for claims their hash; a row of a blob has such a key and names the same digest.
\<close>

definition hash_ok :: "(string \<Rightarrow> string) \<Rightarrow> bool" where
  "hash_ok H \<longleftrightarrow> inj H \<and> (\<forall>x. list_all is_hex (H x))"

definition key_holds :: "(string \<Rightarrow> string) \<Rightarrow> string \<Rightarrow> string \<Rightarrow> bool" where
  "key_holds H k x \<longleftrightarrow> (\<forall>s h. list_all is_hex h \<and> k = H (s @ ''/sha256:'' @ h) \<longrightarrow> H x = h)"

definition row_named :: "(string \<Rightarrow> string) \<Rightarrow> string \<Rightarrow> string \<Rightarrow> bool" where
  "row_named H p k \<longleftrightarrow> (has_prefix p ''/blobs/'' \<longrightarrow>
     (\<exists>s h. list_all is_hex h \<and> k = H (s @ ''/sha256:'' @ h) \<and> has_suffix p (''/sha256:'' @ h)))"

definition content_addressed :: "(string \<Rightarrow> string) \<Rightarrow> world \<Rightarrow> bool" where
  "content_addressed H w \<longleftrightarrow> db_ok w \<and> (\<forall>ref k x. data_at w ref k = Some x \<longrightarrow> key_holds H k x) \<and>
     (\<forall>a\<in>set (w_assets w). row_named H (a_path a) (a_blob_key a))"

text \<open>The general step: no new bytes and rows but right ones.\<close>

lemma content_step:
  assumes "content_addressed H w" "db_ok w'"
    and "\<And>ref k x. data_at w' ref k = Some x \<Longrightarrow> data_at w ref k = Some x \<or> key_holds H k x"
    and "\<And>a. a \<in> set (w_assets w') \<Longrightarrow> (\<exists>b\<in>set (w_assets w). a_path b = a_path a \<and> a_blob_key b = a_blob_key a) \<or> row_named H (a_path a) (a_blob_key a)"
  shows "content_addressed H w'"
  using assms unfolding content_addressed_def by metis

lemma content_same:
  assumes "content_addressed H w" "db_step w w'" "w_assets w' = w_assets w"
  shows "content_addressed H w'"
proof (rule content_step[OF assms(1)])
  show "db_ok w'" using assms(1,2) by (simp add: content_addressed_def db_step_def)
  have "data_at w' = data_at w" using assms(2) by (intro data_at_cong) (simp add: db_step_def)
  then show "data_at w' ref k = Some x \<Longrightarrow> data_at w ref k = Some x \<or> key_holds H k x" for ref k x by simp
qed (use assms(3) in auto)

lemma upload_key_not_hash: "hash_ok H \<Longrightarrow> upload_key i \<noteq> H x"
proof
  assume "hash_ok H" "upload_key i = H x"
  then have "list_all is_hex (upload_key i)" by (metis hash_ok_def)
  then show False by (simp add: upload_key_def uploadKeyPrefix_def is_hex_def)
qed

lemma content_touches:
  assumes "hash_ok H" "content_addressed H w" "touches ref (upload_key i) w w'"
  shows "content_addressed H w'"
proof (rule content_step[OF assms(2)])
  show "db_ok w'" using assms(2) touches_frame[OF assms(3)] by (simp add: content_addressed_def)
  show "data_at w ref' k = Some y \<or> key_holds H k y" if "data_at w' ref' k = Some y" for ref' k y
    using that touches_frame(6)[OF assms(3), of ref' k] upload_key_not_hash[OF assms(1)] by (cases "k = upload_key i") (auto simp: key_holds_def)
qed (use touches_frame[OF assms(3)] in auto)

lemma content_store:
  assumes "content_addressed H w" "StoreArtifact d w repoName path ctype co reader decl = (w', r)"
    and "key_holds H (BlobKey d repoName path) (fst reader)" "row_named H path (BlobKey d repoName path)"
  shows "content_addressed H w'"
proof (rule content_step[OF assms(1)])
  have ok: "db_ok w" using assms(1) by (simp add: content_addressed_def)
  then show "db_ok w'" using assms(2) by (rule StoreArtifact_db_ok)
  show "data_at w ref k = Some x \<or> key_holds H k x" if "data_at w' ref k = Some x" for ref k x
    using StoreArtifact_from(2)[OF ok assms(2) that] assms(3) by auto
  show "(\<exists>b\<in>set (w_assets w). a_path b = a_path a \<and> a_blob_key b = a_blob_key a) \<or> row_named H (a_path a) (a_blob_key a)"
    if "a \<in> set (w_assets w')" for a
    using StoreArtifact_from(1)[OF ok assms(2) that] assms(4) by auto
qed

lemma content_register:
  assumes "content_addressed H w" "RegisterStoredBlob d w repo path ctype co key sha256 sha1 md5 sz sid sname = (w', r)"
    and "row_named H path key"
  shows "content_addressed H w'"
proof (rule content_step[OF assms(1)])
  have ok: "db_ok w" using assms(1) by (simp add: content_addressed_def)
  have step: "db_step w w'" by (rule RegisterStoredBlob_step[OF assms(2)])
  with ok show "db_ok w'" by (simp add: db_step_def)
  have "data_at w' = data_at w" using step by (intro data_at_cong) (simp add: db_step_def)
  then show "data_at w ref k = Some x \<or> key_holds H k x" if "data_at w' ref k = Some x" for ref k x using that by simp
  show "(\<exists>b\<in>set (w_assets w). a_path b = a_path a \<and> a_blob_key b = a_blob_key a) \<or> row_named H (a_path a) (a_blob_key a)"
    if "a \<in> set (w_assets w')" for a
    using RegisterStoredBlob_from[OF ok assms(2) that] assms(3) by auto
qed

lemma content_delete:
  assumes "content_addressed H w" "DeleteArtifact d w repoName path = (w', r)"
  shows "content_addressed H w'"
proof (rule content_step[OF assms(1)])
  show "db_ok w'" using assms DeleteArtifact_db_ok by (auto simp: content_addressed_def)
qed (use DeleteArtifact_from[OF assms(2)] in blast)+

section \<open>Names that end in a digest\<close>

lemma hex_plain: "list_all is_hex h \<Longrightarrow> CHR '':'' \<notin> set h \<and> CHR ''/'' \<notin> set h"
  by (auto simp: list_all_iff is_hex_def)

lemma after_char: "ch \<notin> set h \<Longrightarrow> takeWhile (\<lambda>c. c \<noteq> ch) (rev (x @ ch # h)) = rev h"
  by (simp add: takeWhile_append)

lemma after_char_unique: "x @ ch # u = y @ ch # v \<Longrightarrow> ch \<notin> set u \<Longrightarrow> ch \<notin> set v \<Longrightarrow> u = v"
  by (metis after_char rev_rev_ident)

lemma digest_suffix_unique:
  assumes "s @ ''/sha256:'' @ h = s' @ ''/sha256:'' @ h'" "list_all is_hex h" "list_all is_hex h'"
  shows "h = h'"
  using after_char_unique[of "s @ ''/sha256''" "CHR '':''" h "s' @ ''/sha256''" h'] assms hex_plain by auto

lemma tag_no_digest:
  assumes "x @ ''/'' @ ref = s @ ''/sha256:'' @ h" "CHR '':'' \<notin> set ref" "list_all is_hex h"
  shows False
proof -
  have "rev h = takeWhile (\<lambda>c. c \<noteq> CHR '':'') (rev (s @ ''/sha256'' @ CHR '':'' # h))"
    using after_char[of "CHR '':''" h "s @ ''/sha256''"] assms(3) hex_plain by auto
  also have "s @ ''/sha256'' @ CHR '':'' # h = x @ CHR ''/'' # ref" using assms(1) by simp
  also have "CHR ''/'' \<in> set (takeWhile (\<lambda>c. c \<noteq> CHR '':'') (rev (x @ CHR ''/'' # ref)))"
    using assms(2) by (simp add: takeWhile_append)
  finally have "CHR ''/'' \<in> set (rev h)" by simp
  with hex_plain[OF assms(3)] show False by simp
qed

lemma key_holds_name:
  assumes "hash_ok H" "\<And>s h. list_all is_hex h \<Longrightarrow> name = s @ ''/sha256:'' @ h \<Longrightarrow> H x = h"
  shows "key_holds H (H name) x"
  using assms by (auto simp: key_holds_def hash_ok_def inj_eq)

lemma str_cut_Some: "str_cut s ch = Some (a, b) \<Longrightarrow> s = a @ ch # b"
proof -
  assume "str_cut s ch = Some (a, b)"
  then have ab: "ch \<in> set s" "a = takeWhile (\<lambda>c. c \<noteq> ch) s" "b = tl (dropWhile (\<lambda>c. c \<noteq> ch) s)"
    by (auto simp: str_cut_def split: if_splits)
  from ab(1) have "dropWhile (\<lambda>c. c \<noteq> ch) s = ch # tl (dropWhile (\<lambda>c. c \<noteq> ch) s)" by (induction s) auto
  with ab show ?thesis by (metis takeWhile_dropWhile_id)
qed

lemma verified_digest:
  assumes "digestMismatchStream d claimed ([content], None) = Inr None"
  shows "claimed = ''sha256:'' @ d_sha256 d content"
  using assms str_cut_Some[of claimed "CHR '':''"]
  by (auto simp: digestMismatchStream_def read_all_def split: option.splits if_splits)

lemma digestMismatch_None: "digestMismatch d claimed content = None \<Longrightarrow> claimed = ''sha256:'' @ d_sha256 d content"
  by (rule verified_digest)
    (auto simp: digestMismatch_def digestMismatchStream_def split: option.splits if_splits prod.splits)

lemma blob_key_holds:
  assumes "hash_ok (d_sha256 d)"
  shows "key_holds (d_sha256 d) (BlobKey d repoName (blobPath img (''sha256:'' @ d_sha256 d x))) x"
  unfolding BlobKey_def
proof (rule key_holds_name[OF assms])
  fix s h assume "list_all is_hex h" "repoName @ '':'' @ blobPath img (''sha256:'' @ d_sha256 d x) = s @ ''/sha256:'' @ h"
  moreover have "list_all is_hex (d_sha256 d x)" using assms by (simp add: hash_ok_def)
  ultimately show "d_sha256 d x = h"
    using digest_suffix_unique[of "repoName @ '':/blobs/'' @ img" "d_sha256 d x" s h] by (simp add: blobPath_def)
qed

lemma blob_row_named:
  assumes "hash_ok (d_sha256 d)"
  shows "row_named (d_sha256 d) (blobPath img (''sha256:'' @ d_sha256 d x)) (BlobKey d repoName (blobPath img (''sha256:'' @ d_sha256 d x)))"
proof -
  have "repoName @ '':'' @ blobPath img (''sha256:'' @ d_sha256 d x) = (repoName @ '':/blobs/'' @ img) @ ''/sha256:'' @ d_sha256 d x"
    "has_suffix (blobPath img (''sha256:'' @ d_sha256 d x)) (''/sha256:'' @ d_sha256 d x)"
    by (auto simp: blobPath_def has_suffix_iff)
  moreover have "list_all is_hex (d_sha256 d x)" using assms by (simp add: hash_ok_def)
  ultimately show ?thesis unfolding row_named_def BlobKey_def by metis
qed

lemma manifest_row_named: "row_named H (manifestPath img ref) k"
  by (simp add: row_named_def manifestPath_def has_prefix_def)

lemma manifest_key_holds:
  assumes "hash_ok (d_sha256 d)" "CHR '':'' \<in> set ref \<Longrightarrow> ref = ''sha256:'' @ d_sha256 d body"
  shows "key_holds (d_sha256 d) (BlobKey d repoName (manifestPath img ref)) body"
  unfolding BlobKey_def
proof (rule key_holds_name[OF assms(1)])
  fix s h assume h: "list_all is_hex h" and n: "repoName @ '':'' @ manifestPath img ref = s @ ''/sha256:'' @ h"
  show "d_sha256 d body = h"
  proof (cases "CHR '':'' \<in> set ref")
    case True
    have "list_all is_hex (d_sha256 d body)" using assms(1) by (simp add: hash_ok_def)
    with True n h assms(2) show ?thesis
      using digest_suffix_unique[of "repoName @ '':/manifests/'' @ img" "d_sha256 d body" s h] by (simp add: manifestPath_def)
  next
    case False
    with tag_no_digest[of "repoName @ '':/manifests/'' @ img" ref s h] n h show ?thesis by (simp add: manifestPath_def)
  qed
qed

section \<open>Every request keeps blobs content-addressed\<close>

lemma content_fetch:
  assumes "content_addressed H w" "FetchArtifact d w repoName path = (w', r)"
  shows "content_addressed H w'"
  by (rule content_same[OF assms(1)]) (use assms(2) in \<open>auto simp: FetchArtifact_def split: sum.splits if_splits\<close>)

lemma content_extra: "content_addressed H w \<Longrightarrow> content_addressed H (record_extra w i e n)"
  using content_same db_step_components_update_extra unfolding record_extra_def
  by (cases "components_update_extra w i e n") auto

lemma content_alias:
  assumes "content_addressed (d_sha256 (oh_deps h)) w"
  shows "content_addressed (d_sha256 (oh_deps h)) (register_alias h w repoName img ref ct res extra)"
  using assms content_register[OF assms] content_extra manifest_row_named
  by (auto simp: register_alias_def Let_def split: sum.splits prod.splits)

lemma content_push:
  assumes "hash_ok (d_sha256 (oh_deps h))" "content_addressed (d_sha256 (oh_deps h)) w"
    "pushManifest h w q repoName img ref = (w', r)"
  shows "content_addressed (d_sha256 (oh_deps h)) w'"
proof -
  let ?d = "oh_deps h" and ?H = "d_sha256 (oh_deps h)"
  have body: "content_addressed ?H w'" if run: "push_read_body h w q repoName img ref body = (w', r)" for body
  proof (cases "CHR '':'' \<in> set ref \<and> digestMismatch ?d ref body \<noteq> None")
    case True
    with run assms(2) show ?thesis by (simp add: push_read_body_def Let_def)
  next
    case False
    then have v: "CHR '':'' \<in> set ref \<Longrightarrow> ref = ''sha256:'' @ ?H body" using digestMismatch_None by blast
    define ct where "ct = (if q_content_type q = [] then default_manifest_type else q_content_type q)"
    obtain w1 x where st: "StoreArtifact ?d w repoName (manifestPath img ref) ct \<lparr>co_group = [], co_name = img, co_version = ref\<rparr>
        (body, False) (int (length body)) = (w1, x)" by force
    have "content_addressed ?H w1"
      by (rule content_store[OF assms(2) st]) (use manifest_key_holds[OF assms(1) v] manifest_row_named in simp_all)
    then show ?thesis
      using run[unfolded push_read_body_def Let_def if_not_P[OF False] ct_def[symmetric] st]
      by (auto split: sum.splits intro: content_extra content_alias)
  qed
  show ?thesis
    using assms(2,3) body by (auto simp: pushManifest_def Let_def split: option.splits if_splits)
qed

lemma validDigest_plain: "validDigest dgst \<Longrightarrow> CHR ''/'' \<notin> set dgst"
proof -
  assume "validDigest dgst"
  then obtain algo hx where c: "str_cut dgst (CHR '':'') = Some (algo, hx)" and "algo = ''sha256'' \<or> algo = ''sha512''" "list_all lower_hex hx"
    by (auto simp: validDigest_def digestHexLen_def split: option.splits if_splits)
  moreover from this have "CHR ''/'' \<notin> set hx" by (auto simp: list_all_iff lower_hex_def)
  ultimately show ?thesis using str_cut_Some[OF c] by auto
qed

lemma named_digest:
  assumes "row_named H (blobPath img dgst) k" "CHR ''/'' \<notin> set dgst"
  obtains s h where "list_all is_hex h" "k = H (s @ ''/sha256:'' @ h)" "dgst = ''sha256:'' @ h"
proof -
  obtain s h x where h: "list_all is_hex h" "k = H (s @ ''/sha256:'' @ h)" "blobPath img dgst = x @ ''/sha256:'' @ h"
    using assms(1) by (auto simp: row_named_def blobPath_def has_prefix_def has_suffix_iff)
  then have "(''/blobs/'' @ img) @ ''/'' @ dgst = x @ ''/'' @ ''sha256:'' @ h" by (simp add: blobPath_def)
  then have "dgst = ''sha256:'' @ h"
    using after_char_unique[of "''/blobs/'' @ img" "CHR ''/''" dgst x "''sha256:'' @ h"] assms(2) hex_plain[OF h(1)] by auto
  with h that show ?thesis by blast
qed

lemma row_named_mount:
  assumes "row_named H (blobPath img dgst) k" "CHR ''/'' \<notin> set dgst"
  shows "row_named H (blobPath img' dgst) k"
proof -
  obtain s h where "list_all is_hex h" "k = H (s @ ''/sha256:'' @ h)" "dgst = ''sha256:'' @ h"
    using named_digest[OF assms] .
  then show ?thesis unfolding row_named_def blobPath_def
    by (intro impI exI[of _ s] exI[of _ h]) (simp add: has_suffix_iff)
qed

lemma content_mount_from:
  assumes "content_addressed (d_sha256 (oh_deps h)) w" "mount_from h q repo repoName img dgst imgs w = (w', b)" "CHR ''/'' \<notin> set dgst"
  shows "content_addressed (d_sha256 (oh_deps h)) w'"
  using assms(1,2)
proof (induction imgs arbitrary: w)
  case (Cons im imgs)
  let ?H = "d_sha256 (oh_deps h)"
  show ?case
  proof (cases "im = img \<or> (\<exists>e. assets_get_by_path w repoName (blobPath im dgst) 72 = Inl e) \<or> \<not> callerMayRead h q repo (blobPath im dgst)")
    case True
    then have "mount_from h q repo repoName img dgst imgs w = (w', b)" using Cons(3) by (auto split: if_splits sum.splits)
    with Cons show ?thesis by blast
  next
    case False
    then obtain src where src: "assets_get_by_path w repoName (blobPath im dgst) 72 = Inr src"
      by (cases "assets_get_by_path w repoName (blobPath im dgst) 72") auto
    obtain w1 r where lk: "with_blob_key_lock w (a_blob_key src) 20 (mount_locked h repo img dgst src) = (w1, r)" by force
    obtain row where "row \<in> set (w_assets w)" "src = scan_asset w row" "a_path row = blobPath im dgst"
      using get_by_path_row[OF src] by metis
    then have "row_named ?H (blobPath img dgst) (a_blob_key src)"
      using Cons(2) row_named_mount[OF _ assms(3)] by (auto simp: content_addressed_def)
    then have "content_addressed ?H v" if "mount_locked h repo img dgst src w = (v, x)" for v x
      using that Cons(2) content_register[OF Cons(2)] by (auto simp: mount_locked_def split: option.splits prod.splits sum.splits)
    then have c1: "content_addressed ?H w1" using with_blob_key_lock_rel[OF lk, of "content_addressed ?H"] Cons(2) by blast
    show ?thesis
    proof (cases r)
      case (Inl e)
      with Cons(3) False src lk c1 show ?thesis by simp
    next
      case (Inr mounted)
      with Cons(3) False src lk c1 Cons(1)[OF c1] show ?thesis by (cases mounted) auto
    qed
  qed
qed simp

lemma content_uploads:
  assumes "hash_ok H" "content_addressed H w"
  shows "upload_create (local_api DefaultStore) w rid n = (w', r1) \<Longrightarrow> content_addressed H w'"
    and "upload_append (local_api DefaultStore) cap w i rd n = (w', r2) \<Longrightarrow> content_addressed H w'"
    and "content_addressed H (upload_remove (local_api DefaultStore) w i n)"
  by (use upload_create_touches content_touches[OF assms] assms(2) in blast,
      use upload_append_touches content_touches[OF assms] in blast,
      rule content_touches[OF assms upload_remove_touches])

lemma content_initiate:
  assumes "hash_ok (d_sha256 (oh_deps h))" "content_addressed (d_sha256 (oh_deps h)) w" "oh_uploads h = local_api DefaultStore"
    "initiateUpload h w q repoName img = (w', r)"
  shows "content_addressed (d_sha256 (oh_deps h)) w'"
proof -
  have mount: "content_addressed (d_sha256 (oh_deps h)) v" if "mountBlob h w q repoName img dgst src = (v, x)" for dgst src v x
    using that assms(2) content_mount_from[OF assms(2)] validDigest_plain
    by (auto simp: mountBlob_def split: if_splits sum.splits prod.splits bool.splits)
  define m where "m = (if query_get (q_query q) ''mount'' \<noteq> [] \<and> query_get (q_query q) ''from'' \<noteq> []
    then mountBlob h w q repoName img (query_get (q_query q) ''mount'') (query_get (q_query q) ''from'') else (w, None))"
  obtain w1 x where m1: "m = (w1, x)" by force
  then have c1: "content_addressed (d_sha256 (oh_deps h)) w1" using mount assms(2) by (auto simp: m_def split: if_splits)
  note run = assms(4)[unfolded initiateUpload_def Let_def m_def[symmetric] m1]
  show ?thesis
    using run assms(2,3) c1 content_uploads(1)[OF assms(1) c1]
    by (auto split: option.splits sum.splits prod.splits)
qed

lemma content_patch:
  assumes "hash_ok H" "content_addressed H w" "oh_uploads h = local_api DefaultStore" "patchUpload h w q repoName i = (w', r)"
  shows "content_addressed H w'"
  using assms(2-4) content_uploads(2)[OF assms(1,2)] by (auto simp: patchUpload_def split: option.splits prod.splits)

lemma content_finalize:
  assumes "hash_ok (d_sha256 (oh_deps h))" "content_addressed (d_sha256 (oh_deps h)) w" "oh_uploads h = local_api DefaultStore"
    "finalizeUpload h w q repoName img i = (w', r)"
  shows "content_addressed (d_sha256 (oh_deps h)) w'"
proof -
  let ?H = "d_sha256 (oh_deps h)" and ?digest = "query_get (q_query q) ''digest''"
  define a where "a = (if q_content_length q > 0 then upload_append (oh_uploads h) (oh_max_upload h) w i (q_body q) 84 else (w, Inr (Some 0)))"
  obtain w1 ra where a1: "a = (w1, ra)" by force
  have c1: "content_addressed ?H w1"
    using a1 assms(2,3) content_uploads(2)[OF assms(1,2)] by (auto simp: a_def split: if_splits)
  obtain w2 ro where o1: "upload_open (oh_uploads h) w1 i 85 = (w2, ro)" by force
  have w2: "w2 = w1" using upload_open_local(1) o1 assms(3) by metis
  note run = assms(4)[unfolded finalizeUpload_def Let_def a_def[symmetric] a1 prod.case o1]
  show ?thesis
  proof (cases "\<exists>v. finalize_store h w2 q repoName img i ?digest (int (length (opened ro))) = (w', v) \<and>
      open_failure ro = None \<and> digestMismatchStream (oh_deps h) ?digest ([opened ro], None) = Inr None")
    case True
    then obtain v where fs: "finalize_store h w2 q repoName img i ?digest (int (length (opened ro))) = (w', v)"
      and ro: "open_failure ro = None" and dg: "?digest = ''sha256:'' @ ?H (opened ro)" using verified_digest by blast
    obtain data where ro: "ro = Inr (Some data)" using ro by (auto simp: open_failure_def split: sum.splits option.splits)
    obtain w3 r3 where o2: "upload_open (oh_uploads h) w2 i 86 = (w3, r3)" by force
    have w3: "w3 = w2" using upload_open_local(1) o2 assms(3) by metis
    have same: "opened r3 = data" if "open_failure r3 = None"
    proof -
      obtain data' where r3: "r3 = Inr (Some data')" using \<open>open_failure r3 = None\<close> by (auto simp: open_failure_def split: sum.splits option.splits)
      then show ?thesis
        using upload_open_local(2)[OF o1[unfolded assms(3) ro]] upload_open_local(2)[OF o2[unfolded assms(3) r3]] w2
        by (simp add: opened_def)
    qed
    obtain w4 x where st: "StoreArtifact (oh_deps h) w3 repoName (blobPath img ?digest) ''application/octet-stream''
        \<lparr>co_group = [], co_name = img, co_version = ?digest\<rparr> (opened r3, False) (int (length (opened ro))) = (w4, x)" by force
    have c4: "content_addressed ?H w4" if "open_failure r3 = None"
    proof (rule content_store[OF _ st])
      show "content_addressed ?H w3" using c1 w2 w3 by simp
      show "key_holds ?H (BlobKey (oh_deps h) repoName (blobPath img ?digest)) (fst (opened r3, False))"
        using blob_key_holds[OF assms(1)] same[OF that] ro dg by (simp add: opened_def)
      show "row_named ?H (blobPath img ?digest) (BlobKey (oh_deps h) repoName (blobPath img ?digest))"
        using blob_row_named[OF assms(1)] unfolding dg by simp
    qed
    show ?thesis
      using fs[unfolded finalize_store_def o2 prod.case st] c1 c4 w2 w3 assms(3) content_uploads(3)[OF assms(1)]
      by (auto split: option.splits sum.splits)
  next
    case False
    then have "w' = w \<or> w' = w1" using run w2 by (auto split: if_splits option.splits sum.splits)
    with assms(2) c1 show ?thesis by auto
  qed
qed

section \<open>Reachable registries\<close>

text \<open>
  One step is a request of any user to any repository, a deletion outside the registry's API
  (cleanup, the component browser), the after-work of a cached pull, or the environment: time
  passes and from now on other calls fail.
\<close>

inductive oci_step :: "(string \<Rightarrow> string) \<Rightarrow> world \<Rightarrow> world \<Rightarrow> bool" for H where
  request: "d_sha256 (oh_deps h) = H \<Longrightarrow> oh_uploads h = local_api DefaultStore \<Longrightarrow>
    ServeHTTP h w q = Some (w', out) \<Longrightarrow> oci_step H w w'"
| deletion: "DeleteArtifact d w repoName path = (w', r) \<Longrightarrow> oci_step H w w'"
| cached: "oci_step H w (recordCachedManifestMeta h w repo path)"
| environment: "oci_step H w (w\<lparr>w_now := t, w_fault := f\<rparr>)"

lemma content_ServeHTTP:
  assumes "hash_ok (d_sha256 (oh_deps h))" "content_addressed (d_sha256 (oh_deps h)) w"
    "oh_uploads h = local_api DefaultStore" "ServeHTTP h w q = Some (w', out)"
  shows "content_addressed (d_sha256 (oh_deps h)) w'"
proof -
  let ?ok = "content_addressed (d_sha256 (oh_deps h))"
  have fetch: "?ok v" if "pullManifest h w q r i f = (v, x) \<or> pullBlob h w q r i f = (v, x)" for v x r i f
    using that content_fetch[OF assms(2)] by (auto simp: pullManifest_def pullBlob_def split: prod.splits sum.splits)
  have del: "?ok v" if "OCI_Registry.deletion h w r p = (v, x)" for v x r p
    using that content_delete[OF assms(2)] by (auto simp: OCI_Registry.deletion_def split: prod.splits sum.splits)
  have man: "?ok v" if "handleManifests h w q r i f = (v, x)" for v x r i f
    using that assms(2) fetch del content_push[OF assms(1,2)]
    by (auto simp: handleManifests_def Let_def answered_def deleteManifest_def split: if_splits option.splits)
      (metis prod.collapse)+
  have blob: "?ok v" if "handleBlobs h w q r i f = (v, x)" for v x r i f
    using that assms(2) fetch del
    by (auto simp: handleBlobs_def Let_def answered_def split: if_splits option.splits) (metis prod.collapse)+
  have up: "?ok v" if "handleBlobUploads h w q r i f = (v, x)" for v x r i f
    using that assms(2) content_initiate[OF assms(1-3)] content_patch[OF assms(1-3)] content_finalize[OF assms(1-3)]
    by (auto simp: handleBlobUploads_def Let_def split: if_splits option.splits)
  show ?thesis
    using assms(2,4) man blob up
    by (auto simp: ServeHTTP_def answered_def split: route.splits if_splits) (metis prod.collapse)+
qed

lemma oci_step_content:
  assumes "oci_step H w w'" "hash_ok H" "content_addressed H w"
  shows "content_addressed H w'"
  using assms
proof (cases rule: oci_step.cases)
  case (request h q out)
  with assms content_ServeHTTP[of h w q w' out] show ?thesis by simp
next
  case (deletion d repoName path r)
  with assms content_delete show ?thesis by blast
next
  case (cached h repo path)
  with assms(3) content_same db_step_components_update_extra show ?thesis
    by (auto simp: recordCachedManifestMeta_def Let_def best_effort_def split: sum.splits)
next
  case (environment t f)
  then have "data_at w' = data_at w" "db_ok w' = db_ok w" "w_assets w' = w_assets w"
    by (auto intro: data_at_cong simp: db_ok_def)
  with assms(3) show ?thesis by (simp add: content_addressed_def)
qed

lemma oci_steps_content: "(oci_step H)\<^sup>*\<^sup>* w w' \<Longrightarrow> hash_ok H \<Longrightarrow> content_addressed H w \<Longrightarrow> content_addressed H w'"
  by (induction rule: rtranclp_induct) (blast intro: oci_step_content)+

lemma pullBlob_exact:
  assumes "content_addressed H w" "pullBlob h w q repoName img digest = (w', r)" "h_body r = Bytes data" "CHR ''/'' \<notin> set digest"
  shows "digest = ''sha256:'' @ H data"
proof -
  obtain a where f: "FetchArtifact (oh_deps h) w repoName (blobPath img digest) = (w', Inr (data, a))"
    using assms(2,3) by (auto simp: pullBlob_def data_reply_def split: prod.splits sum.splits if_splits)
  then obtain ref where a: "assets_get_by_path w repoName (blobPath img digest) 30 = Inr a" and d: "data_at w ref (a_blob_key a) = Some data"
    by (auto simp: FetchArtifact_def store_get_ok split: sum.splits if_splits)
  obtain row where "row \<in> set (w_assets w)" "a = scan_asset w row" "a_path row = blobPath img digest"
    using get_by_path_row[OF a] by metis
  then have "row_named H (blobPath img digest) (a_blob_key a)" using assms(1) by (auto simp: content_addressed_def)
  then obtain s hx where "list_all is_hex hx" "a_blob_key a = H (s @ ''/sha256:'' @ hx)" "digest = ''sha256:'' @ hx"
    using named_digest assms(4) by blast
  moreover have "key_holds H (a_blob_key a) data" using assms(1) d by (simp add: content_addressed_def)
  ultimately show ?thesis by (simp add: key_holds_def)
qed

text \<open>
  C11. Hosted blobs are content-addressed: starting from an empty registry whose uploads are staged on
  the local disk, after any sequence of requests that the registry answers itself, by any users to any
  repositories, with deletions and failing database, store and lock calls in between, a request for a
  blob by its digest is answered with bytes that hash to that digest, or not with bytes at all. Blobs a
  proxy repository fetches from upstream are not steps of this registry: they are not compared with
  their digest (\<open>OCI_Proxy.unverified_blob_is_cached\<close>).
\<close>

theorem blob_pull_matches_digest:
  assumes "hash_ok H" "db_ok w0" "w_assets w0 = []" "w_phys w0 = (\<lambda>_. [])" "(oci_step H)\<^sup>*\<^sup>* w0 w"
    and "route_of (q_path q) = Blob img digest" "CHR ''/'' \<notin> set digest"
    and "ServeHTTP h w q = Some (w', Answer r)" "h_body r = Bytes data"
  shows "digest = ''sha256:'' @ H data"
proof -
  have "data_at w0 ref k = None" for ref k
    using assms(4) by (simp add: data_at_def store_blob_def get_blob_def)
  then have "content_addressed H w0" using assms(2,3) by (simp add: content_addressed_def)
  then have c: "content_addressed H w" using oci_steps_content[OF assms(5,1)] by blast
  have "handleBlobs h w q (q_repo q) img digest = (w', Answer r)" using assms(6,8) by (simp add: ServeHTTP_def)
  then have "pullBlob h w q (q_repo q) img digest = (w', r)"
    using assms(9) by (auto simp: handleBlobs_def Let_def answered_def RejectMutation_def deletion_def dockerError_def bare_def
        split: if_splits option.splits sum.splits prod.splits)
  with pullBlob_exact[OF c] assms(7,9) show ?thesis by blast
qed

section \<open>A finished upload can be pulled\<close>

lemma fetch_after_removal:
  assumes "touches DefaultStore k w w'" "FetchArtifact d w repoName path = (v, Inr (data, a))" "a_blob_key a \<noteq> k"
  shows "\<exists>v'. FetchArtifact d w' repoName path = (v', Inr (data, a))"
proof -
  obtain s where s: "w' = set_store w DefaultStore s" using assms(1) by (auto simp: touches_def)
  have "PhysicalStore d w' = PhysicalStore d w"
    by (simp add: s fun_eq_iff PhysicalStore_def registry_get_def open_descriptor_def guard_io_def)
  then have "pinned_store d w' i n = pinned_store d w i n" for i n
    by (simp add: s pinned_store_def blobs_get_by_id_def guard_io_def split: sum.split)
  moreover have "in_repo w' = in_repo w" "scan_asset w' = scan_asset w"
    by (simp_all add: s in_repo_def scan_asset_def repo_by_id_def fun_eq_iff)
  then have "assets_get_by_path w' repoName path n = assets_get_by_path w repoName path n" for n
    using s by (simp add: assets_get_by_path_def guard_io_def)
  moreover have "store_get w' ref (a_blob_key a) n = store_get w ref (a_blob_key a) n" for ref n
    using touches_frame(6)[OF assms(1), of ref "a_blob_key a"] assms(3)
    by (auto simp: s store_get_def data_at_def guard_io_def store_blob_def split: option.splits)
  ultimately show ?thesis using assms(2) by (auto simp: FetchArtifact_def split: sum.splits if_splits)
qed

lemma resolve_set_store:
  "snd (resolveBlobStoreRef d (set_store w ref s) repo n) = snd (resolveBlobStoreRef d w repo n)"
proof -
  have mem: "load_members (set_store w ref s) ms k = load_members w ms k" for ms k
    by (induction ms) (simp_all add: blobs_get_by_id_def guard_io_def split: sum.split)
  have "resolveBlobStoreObj (set_store w ref s) repo n = resolveBlobStoreObj w repo n"
    by (rule resolveBlobStoreObj_cong) simp_all
  then show ?thesis
    by (simp add: resolveBlobStoreRef_def Let_def mem split: sum.split prod.split option.split)
qed

text \<open>
  A push ends with what a pull gives: when the finalizing request of an upload session is answered
  with 201 (no call failing, the repository's store resolving), the digest it named is the digest of
  everything the session holds, the last chunk included, and a pull of the blob under this digest
  is answered with exactly these bytes.
\<close>

lemma finalize_then_pull:
  assumes "db_ok w" "w_fault w = no_faults" "hash_ok (d_sha256 (oh_deps h))" "oh_uploads h = local_api DefaultStore"
    and cap: "0 \<le> oh_max_upload h" "oh_max_upload h < i64_max"
    and old: "data_at w DefaultStore (upload_key uuid) = Some old"
    and run: "finalizeUpload h w q repoName img uuid = (w', r)" "h_status r = 201"
    and repo: "repos_get w repoName 0 = Inr repo"
    and resolves: "snd (resolveBlobStoreRef (oh_deps h) w repo 11) = Inr (sid, sname)" "sid \<noteq> []"
    and pull: "q_method q' = ''GET''"
  defines "content \<equiv> old @ (if q_content_length q > 0 then read_all (q_body q) else [])"
  shows "query_get (q_query q) ''digest'' = ''sha256:'' @ d_sha256 (oh_deps h) content \<and>
    (\<exists>w'' r'. pullBlob h w' q' repoName img (query_get (q_query q) ''digest'') = (w'', r') \<and>
      h_status r' = 200 \<and> h_body r' = Bytes content)"

proof -
  let ?d = "oh_deps h" and ?digest = "query_get (q_query q) ''digest''" and ?key = "upload_key uuid"
  define a where "a = (if q_content_length q > 0 then upload_append (oh_uploads h) (oh_max_upload h) w uuid (q_body q) 84 else (w, Inr (Some 0)))"
  obtain w1 ra where a1: "a = (w1, ra)" by force
  obtain w2 ro where o1: "upload_open (oh_uploads h) w1 uuid 85 = (w2, ro)" by force
  have w2: "w2 = w1" using upload_open_local(1) o1 assms(4) by metis
  obtain w3 r3 where o2: "upload_open (oh_uploads h) w2 uuid 86 = (w3, r3)" by force
  have w3: "w3 = w2" using upload_open_local(1) o2 assms(4) by metis
  obtain w4 x where st: "StoreArtifact ?d w3 repoName (blobPath img ?digest) ''application/octet-stream''
      \<lparr>co_group = [], co_name = img, co_version = ?digest\<rparr> (opened r3, False) (int (length (opened ro))) = (w4, x)" by force
  have ends: "append_failure ra = None" "open_failure ro = None" "digestMismatchStream ?d ?digest ([opened ro], None) = Inr None"
    "open_failure r3 = None" "\<exists>res. x = Inr res" "w' = upload_remove (oh_uploads h) w4 uuid 87"
    using run[unfolded finalizeUpload_def finalize_store_def Let_def a_def[symmetric] a1 prod.case o1 o2 st] run(2)
    by (auto simp: append_failure_def open_failure_def split: if_splits option.splits sum.splits)
  have t1: "touches DefaultStore ?key w w1"
    using a1 upload_append_touches assms(4) by (auto simp: a_def split: if_splits)
  have d1: "data_at w1 DefaultStore ?key = Some content"
  proof (cases "q_content_length q > 0")
    case True
    then have ap: "upload_append (local_api DefaultStore) (oh_max_upload h) w uuid (q_body q) 84 = (w1, ra)" using a1 assms(4) by (simp add: a_def)
    obtain t where "ra = Inr (Some t)" using ends(1) by (auto simp: append_failure_def split: sum.splits option.splits if_splits)
    with local_disk.append_refines(1)[OF ap TrueI old cap] True show ?thesis by (simp add: content_def)
  next
    case False
    then show ?thesis using a1 old by (simp add: a_def content_def)
  qed
  obtain c1 where c1: "ro = Inr (Some c1)" using ends(2) by (auto simp: open_failure_def split: sum.splits option.splits)
  obtain c2 where c2: "r3 = Inr (Some c2)" using ends(4) by (auto simp: open_failure_def split: sum.splits option.splits)
  have "c1 = content" "c2 = content"
    using upload_open_local(2)[OF o1[unfolded assms(4) c1] refl] upload_open_local(2)[OF o2[unfolded assms(4) c2] refl] d1 w2 by auto
  with c1 c2 have op: "opened ro = content" "opened r3 = content" by (simp_all add: opened_def)
  have dg: "?digest = ''sha256:'' @ d_sha256 ?d content" using verified_digest ends(3) op(1) by metis
  obtain res where res: "x = Inr res" using ends(5) by blast
  note tf = touches_frame[OF t1]
  have w1: "w3 = w1" using w2 w3 by simp
  have "repos_get w1 repoName 0 = Inr repo" using repo tf by (simp add: repos_get_def guard_io_def)
  moreover obtain s where s: "w1 = set_store w DefaultStore s" using t1 by (auto simp: touches_def)
  have "snd (resolveBlobStoreRef ?d w1 repo 11) = Inr (sid, sname)"
    using resolves(1) by (simp add: s resolve_set_store)
  ultimately obtain v b where f: "FetchArtifact ?d w4 repoName (blobPath img ?digest) = (v, Inr (content, b))"
    "a_blob_key b = BlobKey ?d repoName (blobPath img ?digest)"
    using stored_is_fetched[OF _ _ st[unfolded w1 res], of repo sid sname] assms(1,2) tf resolves(2) op(2) by auto
  have "a_blob_key b \<noteq> ?key" using upload_key_not_hash[OF assms(3)] f(2) by (metis BlobKey_def)
  moreover have "touches DefaultStore ?key w4 w'" using ends(6) upload_remove_touches assms(4) by metis
  ultimately obtain v' where "FetchArtifact ?d w' repoName (blobPath img ?digest) = (v', Inr (content, b))"
    using fetch_after_removal f(1) by blast
  then show ?thesis using dg pull by (simp add: pullBlob_def data_reply_def)
qed

section \<open>A mount needs the right to read its source\<close>

lemma mount_from_denied:
  assumes "\<And>im. im \<in> set imgs \<Longrightarrow> im \<noteq> img \<Longrightarrow> \<not> callerMayRead h q repo (blobPath im dgst)"
  shows "mount_from h q repo repoName img dgst imgs w = (w, False)"
  using assms by (induction imgs) (auto split: sum.split)

text \<open>
  C12. A mount is no way around the access check: when the caller may read the digest under none of the
  image names the \<^verbatim>\<open>from\<close> parameter can stand for, the attempt changes nothing and ends like one
  for a digest the registry does not hold, so it tells the caller nothing either.
\<close>

theorem mount_needs_read:
  assumes "oh_rbac h = Some (anon, privs_of)" "repos_get w repoName 73 = Inr repo"
    and "\<And>im. im \<in> set (mountSourceImages repoName src) \<Longrightarrow> im \<noteq> img \<Longrightarrow>
      CanAccessRepo anon privs_of (q_user_id q) (q_roles q) repo (blobPath im dgst) ''read'' \<noteq> Inr True"
  shows "mountBlob h w q repoName img dgst src = (w, None)"
  using assms mount_from_denied[of "mountSourceImages repoName src" img h q repo dgst repoName w]
  by (simp add: mountBlob_def callerMayRead_def)

section \<open>A registry to run\<close>

definition demo_hash :: "string \<Rightarrow> string" where
  "demo_hash s = concat (map (\<lambda>c. [''0123456789abcdef'' ! (of_char c div 16), ''0123456789abcdef'' ! (of_char c mod 16)]) s)"

lemma nibble_hex: "n < 16 \<Longrightarrow> is_hex (''0123456789abcdef'' ! n)"
proof -
  have "list_all (\<lambda>n. is_hex (''0123456789abcdef'' ! n)) [0..<16]" by code_simp
  then show "n < 16 \<Longrightarrow> ?thesis" by (simp add: list_all_iff)
qed

lemma nibble_inj: "m < 16 \<Longrightarrow> n < 16 \<Longrightarrow> (''0123456789abcdef'' ! m = ''0123456789abcdef'' ! n) = (m = n)"
  by (rule nth_eq_iff_index_eq) simp_all

lemma demo_hash_ok: "hash_ok demo_hash"
proof -
  have "x = y" if "demo_hash x = demo_hash y" for x y
    using that
  proof (induction x y rule: list_induct2')
    case (4 c x d y)
    then have "of_char c div 16 = (of_char d div 16 :: nat)" "of_char c mod 16 = (of_char d mod 16 :: nat)" "demo_hash x = demo_hash y"
      using nibble_inj[OF of_char_nibbles(1)[of c] of_char_nibbles(1)[of d]] nibble_inj[OF of_char_nibbles(2)[of c] of_char_nibbles(2)[of d]]
      by (simp_all add: demo_hash_def)
    then have "(of_char c :: nat) = of_char d" by (metis div_mult_mod_eq)
    with 4 \<open>demo_hash x = demo_hash y\<close> show ?case by simp
  qed (simp_all add: demo_hash_def)
  moreover have "list_all is_hex (demo_hash x)" for x
    using nibble_hex[OF of_char_nibbles(1)] nibble_hex[OF of_char_nibbles(2)] by (induction x) (simp_all add: demo_hash_def)
  ultimately show ?thesis by (simp add: hash_ok_def inj_def)
qed

definition demo_docker :: repository where
  "demo_docker = \<lparr>r_id = ''r1'', r_name = ''apps'', r_format = ''docker'', r_type = ''hosted'',
     r_blob_store_id = Some ''b1'', r_online = True, r_format_config = [], r_proxy_config = [], r_cleanup_policy_ids = [],
     r_quota_bytes = None, r_routing_rule_id = None, r_allow_anonymous = False\<rparr>"

definition demo_registry :: world where
  "demo_registry = \<lparr>w_repos = [demo_docker], w_blobs = [demo_store\<lparr>bs_quota_bytes := None\<rparr>], w_comps = [],
     w_assets = [], w_phys = (\<lambda>_. []), w_rr = (\<lambda>_. 0), w_seq = 0, w_gen_id = (\<lambda>n. replicate (Suc n) (CHR ''x'')),
     w_uuid_ok = (\<lambda>s. s \<noteq> []), w_now = 100, w_fault = no_faults, w_events = [], w_downloads = [], w_scans = []\<rparr>"

lemma demo_registry_db_ok: "db_ok demo_registry"
  using inj_replicate[of "CHR ''x''"] by (simp add: db_ok_def demo_registry_def)

definition demo_oci :: oci_handler where
  "demo_oci = \<lparr>oh_deps = demo_deps\<lparr>d_sha256 := demo_hash\<rparr>, oh_uploads = local_api DefaultStore, oh_max_upload = 0,
     oh_rbac = None, oh_new_id = Inr (replicate 32 (CHR ''0'')), oh_json = (\<lambda>_. None), oh_collate = (\<lambda>s. s)\<rparr>"

definition demo_request :: "string \<Rightarrow> string \<Rightarrow> (string \<times> string) list \<Rightarrow> string \<Rightarrow> gin_request" where
  "demo_request m p qs body = \<lparr>q_method = m, q_repo = ''apps'', q_path = p, q_url_path = p, q_escaped_path = p, q_query = qs,
     q_headers = [], q_content_type = [], q_content_length = int (length body), q_body = ([body], None), q_user_id = ''alice'', q_roles = []\<rparr>"

definition demo_serve :: "gin_request \<Rightarrow> world \<Rightarrow> world" where
  "demo_serve q w = (case ServeHTTP demo_oci w q of Some (w', _) \<Rightarrow> w' | None \<Rightarrow> w)"

definition demo_session :: string where
  "demo_session = ''/v2/app/blobs/uploads/'' @ replicate 32 (CHR ''0'')"

definition demo_staged_upload :: world where
  "demo_staged_upload = demo_serve (demo_request ''PATCH'' demo_session [] ''hi'')
     (demo_serve (demo_request ''POST'' ''/v2/app/blobs/uploads/'' [] []) demo_registry)"

definition demo_put :: gin_request where
  "demo_put = demo_request ''PUT'' demo_session [(''digest'', ''sha256:686921'')] ''!''"

definition demo_pushed_blob :: world where
  "demo_pushed_blob = demo_serve demo_put demo_staged_upload"

definition demo_get :: "string \<Rightarrow> gin_request" where
  "demo_get p = demo_request ''GET'' p [] []"

lemma demo_pull: "case ServeHTTP demo_oci demo_pushed_blob (demo_get ''/v2/app/blobs/sha256:686921'') of
    Some (_, Answer r) \<Rightarrow> h_body r = Bytes ''hi!'' | _ \<Rightarrow> False"
  by code_simp

lemma demo_serve_step: "oci_step demo_hash w (demo_serve q w)"
proof (cases "ServeHTTP demo_oci w q")
  case None
  have "oci_step demo_hash w (w\<lparr>w_now := w_now w, w_fault := w_fault w\<rparr>)" by (rule oci_step.environment)
  with None show ?thesis by (simp add: demo_serve_def)
next
  case (Some p)
  then have "ServeHTTP demo_oci w q = Some (fst p, snd p)" by simp
  then have "oci_step demo_hash w (fst p)" by (rule oci_step.request[rotated 2]) (simp_all add: demo_oci_def)
  with Some show ?thesis by (simp add: demo_serve_def split_beta)
qed

lemma demo_serve_steps: "(oci_step demo_hash)\<^sup>*\<^sup>* w0 w \<Longrightarrow> (oci_step demo_hash)\<^sup>*\<^sup>* w0 (demo_serve q w)"
  by (erule rtranclp.rtrancl_into_rtrancl) (rule demo_serve_step)

theorem blob_pull_matches_digest_witness:
  "case ServeHTTP demo_oci demo_pushed_blob (demo_get ''/v2/app/blobs/sha256:686921'') of
     Some (_, Answer r) \<Rightarrow> (case h_body r of Bytes data \<Rightarrow> ''sha256:686921'' = ''sha256:'' @ demo_hash data | _ \<Rightarrow> False) | _ \<Rightarrow> False"
proof -
  obtain w' r where s: "ServeHTTP demo_oci demo_pushed_blob (demo_get ''/v2/app/blobs/sha256:686921'') = Some (w', Answer r)"
    "h_body r = Bytes ''hi!''"
    using demo_pull by (auto split: option.splits prod.splits outcome.splits)
  have steps: "(oci_step demo_hash)\<^sup>*\<^sup>* demo_registry demo_pushed_blob"
    unfolding demo_pushed_blob_def demo_staged_upload_def
    by (intro demo_serve_steps rtranclp.rtrancl_refl)
  have route: "route_of (q_path (demo_get ''/v2/app/blobs/sha256:686921'')) = Blob ''app'' ''sha256:686921''" by code_simp
  have "''sha256:686921'' = ''sha256:'' @ demo_hash ''hi!''"
    by (rule blob_pull_matches_digest[OF demo_hash_ok demo_registry_db_ok _ _ steps route _ s])
      (simp_all add: demo_registry_def)
  with s show ?thesis by simp
qed

definition demo_open_session :: world where
  "demo_open_session = demo_registry\<lparr>w_phys := (\<lambda>_. [])(DefaultStore :=
     [(upload_key (replicate 32 (CHR ''0'')), \<lparr>b_data = ''hi'', b_mod_time = 100\<rparr>)])\<rparr>"

lemma finalize_then_pull_witness:
  "case finalizeUpload demo_oci demo_open_session demo_put ''apps'' ''app'' (replicate 32 (CHR ''0'')) of (w', r) \<Rightarrow>
     h_status r = 201 \<and> (case pullBlob demo_oci w' (demo_get []) ''apps'' ''app'' ''sha256:686921'' of (_, r') \<Rightarrow> h_body r' = Bytes ''hi!'')"
proof -
  let ?id = "replicate 32 (CHR ''0'')"
  obtain w' r where run: "finalizeUpload demo_oci demo_open_session demo_put ''apps'' ''app'' ?id = (w', r)" by force
  have "h_status (snd (finalizeUpload demo_oci demo_open_session demo_put ''apps'' ''app'' ?id)) = 201" by code_simp
  with run have st: "h_status r = 201" by simp
  have old: "data_at demo_open_session DefaultStore (upload_key ?id) = Some ''hi''" by code_simp
  have repo: "repos_get demo_open_session ''apps'' 0 = Inr demo_docker" by code_simp
  have res: "snd (resolveBlobStoreRef (oh_deps demo_oci) demo_open_session demo_docker 11) = Inr (''b1'', ''default'')" by code_simp
  have ok: "db_ok demo_open_session" using demo_registry_db_ok by (simp add: demo_open_session_def db_ok_def)
  have fault: "w_fault demo_open_session = no_faults" by (simp add: demo_open_session_def demo_registry_def)
  have h: "hash_ok (d_sha256 (oh_deps demo_oci))" "oh_uploads demo_oci = local_api DefaultStore" "0 \<le> oh_max_upload demo_oci" "oh_max_upload demo_oci < i64_max"
    using demo_hash_ok by (simp_all add: demo_oci_def i64_max_def)
  have "''hi'' @ (if q_content_length demo_put > 0 then read_all (q_body demo_put) else []) = ''hi!''" by code_simp
  moreover have "query_get (q_query demo_put) ''digest'' = ''sha256:686921''" by code_simp
  ultimately show ?thesis
    using finalize_then_pull[OF ok fault h old run st repo res, of "demo_get []"] run st
    by (auto simp: demo_get_def demo_request_def)
qed

theorem mount_needs_read_witness:
  "mountBlob (demo_oci\<lparr>oh_rbac := Some (False, \<lambda>_. Inr [])\<rparr>) demo_pushed_blob (demo_get []) ''apps'' ''stolen''
     (''sha256:'' @ concat (replicate 32 ''ab'')) ''apps/app'' = (demo_pushed_blob, None)"
proof (rule mount_needs_read)
  show "oh_rbac (demo_oci\<lparr>oh_rbac := Some (False, \<lambda>_. Inr [])\<rparr>) = Some (False, \<lambda>_. Inr [])" by simp
  show "repos_get demo_pushed_blob ''apps'' 73 = Inr demo_docker" by code_simp
qed (simp add: CanAccessRepo_def isAdmin_def anonymousAllowed_def demo_get_def demo_request_def)

section \<open>Manifests are not content-addressed\<close>

text \<open>
  A push by tag registers the digest of its content as a second row over the same blob key, and the key depends
  on the tag's path only. The next push to the tag overwrites the bytes both rows name.
\<close>

lemma pushManifest_small:
  assumes "d_user_id (oh_deps h) \<noteq> []" "q_body q = ([body], None)" "length body \<le> maxManifestBytes"
  shows "pushManifest h w q repoName img ref = push_read_body h w q repoName img ref body"
  using assms by (simp add: pushManifest_def requireDockerAuth_def limit_reader_def read_all_def Let_def)

definition demo_push :: "string \<Rightarrow> gin_request" where
  "demo_push body = demo_request ''PUT'' ''/v2/app/manifests/v1'' [] body"

lemma serve_push:
  assumes "repo_or_none w ''apps'' 60 = Some demo_docker" "length body < 100"
  shows "ServeHTTP demo_oci w (demo_push body) = Some (answered (push_read_body demo_oci w (demo_push body) ''apps'' ''app'' ''v1'' body))"
proof -
  have "route_of ''/v2/app/manifests/v1'' = Manifests ''app'' ''v1''" by code_simp
  moreover have "d_user_id (oh_deps demo_oci) \<noteq> []" by code_simp
  ultimately show ?thesis
    using assms pushManifest_small[of demo_oci "demo_push body" body w "''apps''" "''app''" "''v1''"]
    by (simp add: ServeHTTP_def handleManifests_def demo_push_def demo_request_def RejectMutation_def demo_docker_def maxManifestBytes_def Let_def)
qed

definition demo_first_push :: world where
  "demo_first_push = fst (push_read_body demo_oci demo_registry (demo_push ''A'') ''apps'' ''app'' ''v1'' ''A'')"

definition demo_second_push :: world where
  "demo_second_push = fst (push_read_body demo_oci demo_first_push (demo_push ''B'') ''apps'' ''app'' ''v1'' ''B'')"

text \<open>
  Re-tagging breaks pulls by digest: after a manifest was pushed under a tag and another one under the
  same tag, both with success, a pull of the first one by its digest answers 200 with the second
  one's bytes, under a \<^verbatim>\<open>Docker-Content-Digest\<close> header that still names the first.
\<close>

lemma retag_breaks_digest:
  "ServeHTTP demo_oci demo_registry (demo_push ''A'') = Some (demo_first_push, Answer ((bare 201)\<lparr>h_headers :=
     [(''Docker-Content-Digest'', ''sha256:41''), (''Location'', ''/v2/app/manifests/sha256:41'')]\<rparr>)) \<and>
   demo_serve (demo_push ''B'') demo_first_push = demo_second_push \<and>
   (case ServeHTTP demo_oci demo_first_push (demo_get ''/v2/app/manifests/sha256:41'') of
      Some (_, Answer r) \<Rightarrow> h_body r = Bytes ''A'' | _ \<Rightarrow> False) \<and>
   (case ServeHTTP demo_oci demo_second_push (demo_get ''/v2/app/manifests/sha256:41'') of
      Some (_, Answer r) \<Rightarrow> h_status r = 200 \<and> h_body r = Bytes ''B'' \<and>
        (''Docker-Content-Digest'', ''sha256:41'') \<in> set (h_headers r) | _ \<Rightarrow> False)"
proof (intro conjI)
  have repo: "repo_or_none demo_registry ''apps'' 60 = Some demo_docker" "repo_or_none demo_first_push ''apps'' 60 = Some demo_docker"
    by code_simp+
  have "snd (push_read_body demo_oci demo_registry (demo_push ''A'') ''apps'' ''app'' ''v1'' ''A'') = (bare 201)\<lparr>h_headers :=
     [(''Docker-Content-Digest'', ''sha256:41''), (''Location'', ''/v2/app/manifests/sha256:41'')]\<rparr>" by code_simp
  then show "ServeHTTP demo_oci demo_registry (demo_push ''A'') = Some (demo_first_push, Answer ((bare 201)\<lparr>h_headers :=
     [(''Docker-Content-Digest'', ''sha256:41''), (''Location'', ''/v2/app/manifests/sha256:41'')]\<rparr>))"
    using serve_push[OF repo(1), of "''A''"] by (simp add: answered_def demo_first_push_def)
  show "demo_serve (demo_push ''B'') demo_first_push = demo_second_push"
    using serve_push[OF repo(2), of "''B''"] by (simp add: demo_serve_def answered_def demo_second_push_def)
qed code_simp+

end
