(* ===== verification/Repo_Proxy.thy ===== *)
theory Repo_Proxy
  imports Base_Store Http_Exchange
begin

text \<open>
  Read-through caching for proxy repositories, after \<^verbatim>\<open>internal/formats/repoproxy\<close>: where upstream is
  and how it is asked (\<^verbatim>\<open>proxyclient.go\<close>, \<^verbatim>\<open>docker_registry_token.go\<close>), and serving a path from the
  cache, from upstream, or from the cache after asking upstream whether it is still current
  (\<^verbatim>\<open>repoproxy.go\<close>).
\<close>

section \<open>The network\<close>

text \<open>
  What the code calls of the network and of libraries. A client answers the n-th request made while
  one incoming request is served: \<open>0\<close> is the artifact, \<open>1\<close> a token, \<open>2\<close> the artifact again.
  \<open>n_via\<close> builds the client for an outbound proxy; \<open>n_parse\<close> and \<open>n_string\<close> are \<^verbatim>\<open>url.Parse\<close> and
  \<^verbatim>\<open>URL.String\<close>; \<open>n_float\<close> is \<^verbatim>\<open>strconv.ParseFloat\<close> and \<open>n_seconds\<close> the conversion of seconds to a
  \<^verbatim>\<open>time.Duration\<close>; \<open>n_basic\<close> is the value of a Basic authorization; \<open>n_date\<close> is a time in
  \<^verbatim>\<open>http.TimeFormat\<close>; \<open>n_token\<close> decodes the JSON reply of a token endpoint; \<open>n_drained\<close> is how many
  bytes of a body a failing put takes before it fails.
\<close>

record url =
  ul_front :: string
  ul_hostname :: string
  ul_path :: string
  ul_raw_path :: string
  ul_back :: string

record http_request =
  hq_method :: string
  hq_url :: string
  hq_headers :: "(string \<times> string) list"

record http_response =
  hs_status :: nat
  hs_headers :: "(string \<times> string) list"
  hs_body :: reader
  hs_content_length :: int

type_synonym http_client = "nat \<Rightarrow> http_request \<Rightarrow> http_response result"

record proxy_settings =
  ps_http :: string
  ps_https :: string
  ps_socks5 :: string
  ps_no_proxy :: string
  ps_username :: string
  ps_password :: string

record network =
  n_global :: proxy_settings
  n_direct :: http_client
  n_via :: "proxy_settings \<Rightarrow> http_client result"
  n_parse :: "string \<Rightarrow> url option"
  n_string :: "url \<Rightarrow> string"
  n_float :: "string \<Rightarrow> rat option"
  n_seconds :: "rat \<Rightarrow> time"
  n_basic :: "string \<Rightarrow> string \<Rightarrow> string"
  n_date :: "time \<Rightarrow> string"
  n_token :: "string \<Rightarrow> (string \<times> string) option"
  n_drained :: nat

definition hdr_get :: "(string \<times> string) list \<Rightarrow> string \<Rightarrow> string" where
  "hdr_get hs k = (case map_of hs k of Some v \<Rightarrow> v | None \<Rightarrow> [])"

section \<open>Configuration of a proxy repository\<close>

definition RemoteURL :: "repository \<Rightarrow> string result" where
  "RemoteURL repo =
     (case cfg_get (r_proxy_config repo) ''remote_url'' of
        AnyStr s \<Rightarrow>
          if trim_space s = [] then Inl (ErrMsg ''proxy_config.remote_url must be a non-empty string'')
          else Inr (rev (dropWhile (\<lambda>c. c = CHR ''/'') (rev s)))
      | _ \<Rightarrow> Inl (ErrMsg ''proxy_config.remote_url is required for proxy repositories''))"

text \<open>\<^verbatim>\<open>url.PathUnescape\<close> and, of \<^verbatim>\<open>path.Join\<close>, the case of two elements.\<close>

fun PathUnescape :: "string \<Rightarrow> string option" where
  "PathUnescape [] = Some []"
| "PathUnescape (c # cs) =
     (if c = CHR ''%'' then
        (case cs of
           a # b # r \<Rightarrow>
             if is_hex a \<and> is_hex b then map_option (Cons (char_of (16 * unhex a + unhex b))) (PathUnescape r) else None
         | _ \<Rightarrow> None)
      else map_option (Cons c) (PathUnescape cs))"

text \<open>\<^verbatim>\<open>path.Clean\<close> and \<^verbatim>\<open>path.Join\<close>; a relative path keeps the \<open>..\<close> it starts with.\<close>

fun clean_relative :: "string list \<Rightarrow> string list \<Rightarrow> string list" where
  "clean_relative st [] = st"
| "clean_relative st (s # ss) =
     (if s = [] \<or> s = ''.'' then clean_relative st ss
      else if s = ''..'' \<and> st \<noteq> [] \<and> hd st \<noteq> ''..'' then clean_relative (tl st) ss
      else clean_relative (s # st) ss)"

definition path_clean :: "string \<Rightarrow> string" where
  "path_clean p =
     (if has_prefix p ''/'' then ''/'' @ join_with ''/'' (rev (clean_segments [] (split_on (CHR ''/'') p)))
      else (case clean_relative [] (split_on (CHR ''/'') p) of [] \<Rightarrow> ''.'' | st \<Rightarrow> join_with ''/'' (rev st)))"

definition path_join :: "string \<Rightarrow> string \<Rightarrow> string" where
  "path_join a b =
     (case filter (\<lambda>s. s \<noteq> []) [a, b] of [] \<Rightarrow> [] | segs \<Rightarrow> path_clean (join_with ''/'' segs))"

definition JoinURL :: "network \<Rightarrow> string \<Rightarrow> string \<Rightarrow> string result" where
  "JoinURL net remoteBase rel =
     (if has_prefix rel ''http://'' \<or> has_prefix rel ''https://'' then
        (if n_parse net rel = None then Inl (ErrMsg ''invalid upstream url'') else Inr rel)
      else (case n_parse net remoteBase of
          None \<Rightarrow> Inl (ErrMsg ''invalid remote_url'')
        | Some u \<Rightarrow>
            (let p = ''/'' @ trim_prefix (path_join (trim_suffix (ul_path u) ''/'') (trim_slashes rel)) ''/'' in
             case PathUnescape p of
               Some q \<Rightarrow> if q \<noteq> p then Inr (n_string net (u\<lparr>ul_path := q, ul_raw_path := p\<rparr>)) else Inr (n_string net (u\<lparr>ul_path := p\<rparr>))
             | None \<Rightarrow> Inr (n_string net (u\<lparr>ul_path := p\<rparr>)))))"

definition cfgString :: "config \<Rightarrow> string \<Rightarrow> string" where
  "cfgString m k = (case cfg_get m k of AnyStr s \<Rightarrow> trim_space s | _ \<Rightarrow> [])"

definition no_proxy_settings :: proxy_settings where
  "no_proxy_settings = \<lparr>ps_http = [], ps_https = [], ps_socks5 = [], ps_no_proxy = [], ps_username = [], ps_password = []\<rparr>"

definition repoProxySettings :: "network \<Rightarrow> repository \<Rightarrow> proxy_settings" where
  "repoProxySettings net repo =
     (let g = n_global net; over = (\<lambda>k old. if cfgString (r_proxy_config repo) k \<noteq> [] then cfgString (r_proxy_config repo) k else old)
      in \<lparr>ps_http = over ''http_proxy'' (ps_http g), ps_https = over ''https_proxy'' (ps_https g),
          ps_socks5 = over ''socks5_proxy'' (ps_socks5 g), ps_no_proxy = over ''no_proxy'' (ps_no_proxy g),
          ps_username = over ''proxy_username'' (ps_username g), ps_password = over ''proxy_password'' (ps_password g)\<rparr>)"

text \<open>A client is kept per settings; asking the same settings again gives the client built first.\<close>

definition ClientFor :: "network \<Rightarrow> repository \<Rightarrow> http_client" where
  "ClientFor net repo =
     (let s = repoProxySettings net repo in
      if s = no_proxy_settings then n_direct net
      else (case n_via net s of Inr c \<Rightarrow> c | Inl _ \<Rightarrow> n_direct net))"

definition config_seconds :: "network \<Rightarrow> config \<Rightarrow> string \<Rightarrow> rat option" where
  "config_seconds net m k =
     (case cfg_get m k of
        AnyFloat f \<Rightarrow> Some f
      | AnyInt i \<Rightarrow> Some (of_int i)
      | AnyInt64 i \<Rightarrow> Some (of_int i)
      | AnyStr s \<Rightarrow> n_float net (trim_space s)
      | _ \<Rightarrow> None)"

text \<open>Ten minutes, in nanoseconds.\<close>

definition DefaultMetadataMaxAge :: time where
  "DefaultMetadataMaxAge = 600000000000"

definition MetadataMaxAge :: "network \<Rightarrow> repository option \<Rightarrow> time" where
  "MetadataMaxAge net repo =
     (case repo of
        None \<Rightarrow> DefaultMetadataMaxAge
      | Some r \<Rightarrow>
          (case config_seconds net (r_proxy_config r) ''metadata_max_age'' of
             Some secs \<Rightarrow> if secs \<le> 0 then DefaultMetadataMaxAge else n_seconds net secs
           | None \<Rightarrow> DefaultMetadataMaxAge))"

definition MinimumPackageAge :: "network \<Rightarrow> repository option \<Rightarrow> time" where
  "MinimumPackageAge net repo =
     (case repo of
        None \<Rightarrow> 0
      | Some r \<Rightarrow>
          (case config_seconds net (r_proxy_config r) ''minimum_package_age'' of
             Some secs \<Rightarrow> if secs \<le> 0 then 0 else n_seconds net secs
           | None \<Rightarrow> 0))"

section \<open>Asking upstream\<close>

definition isDockerRegistryRemote :: "network \<Rightarrow> string \<Rightarrow> bool" where
  "isDockerRegistryRemote net baseRemote =
     (case n_parse net baseRemote of
        None \<Rightarrow> False
      | Some u \<Rightarrow> to_lower (trim_prefix (ul_hostname u) ''www.'')
          \<in> {''registry-1.docker.io'', ''registry.docker.io'', ''docker.io''})"

definition grabQuotedAttr :: "string \<Rightarrow> string \<Rightarrow> string" where
  "grabQuotedAttr s key =
     (let needle = key @ [CHR ''='', CHR 0x22] in
      case index_str s needle of
        None \<Rightarrow> []
      | Some i \<Rightarrow> (case str_cut (drop (i + length needle) s) (CHR 0x22) of Some (v, _) \<Rightarrow> v | None \<Rightarrow> []))"

text \<open>(realm, service, scope) of the first Bearer challenge that names a realm.\<close>

fun bearer_challenge :: "string list \<Rightarrow> (string \<times> string \<times> string) option" where
  "bearer_challenge [] = None"
| "bearer_challenge (raw0 # rest) =
     (let raw = trim_space raw0; body = trim_space (drop 7 raw) in
      if length raw < 7 \<or> \<not> has_prefix (to_lower raw) ''bearer '' then bearer_challenge rest
      else if grabQuotedAttr body ''realm'' \<noteq> []
      then Some (grabQuotedAttr body ''realm'', grabQuotedAttr body ''service'', grabQuotedAttr body ''scope'')
      else bearer_challenge rest)"

definition parseDockerBearerChallenge :: "(string \<times> string) list \<Rightarrow> (string \<times> string \<times> string) option" where
  "parseDockerBearerChallenge hs = bearer_challenge (map snd (filter (\<lambda>h. fst h = ''Www-Authenticate'') hs))"

definition scopeFromRegistryV2URL :: "url \<Rightarrow> string" where
  "scopeFromRegistryV2URL u =
     (let rest = trim_prefix (ul_path u) ''/v2/''; segs = split_on (CHR ''/'') rest;
          name = takeWhile (\<lambda>s. s \<notin> {''blobs'', ''manifests'', ''referrers''}) segs
      in if \<not> has_prefix (ul_path u) ''/v2/'' \<or> rest = [] \<or> length name = length segs \<or> name = [] then []
         else ''repository:'' @ to_lower (join_with ''/'' name) @ '':pull'')"

definition with_user_agent :: "string \<Rightarrow> (string \<times> string) list \<Rightarrow> (string \<times> string) list" where
  "with_user_agent ua hs = (if hdr_get hs ''User-Agent'' = [] then AList.update ''User-Agent'' ua hs else hs)"

definition proxy_agent :: string where
  "proxy_agent = ''Nexspence/1.0 (proxy)''"

definition SetUpstreamAuth :: "network \<Rightarrow> repository \<Rightarrow> (string \<times> string) list \<Rightarrow> (string \<times> string) list" where
  "SetUpstreamAuth net repo hs =
     (let user = cfgString (r_proxy_config repo) ''remote_username'' in
      if hdr_get hs ''Authorization'' \<noteq> [] \<or> user = [] then hs
      else AList.update ''Authorization'' (n_basic net user (cfgString (r_proxy_config repo) ''remote_password'')) hs)"

definition fetchDockerRegistryToken :: "network \<Rightarrow> http_client \<Rightarrow> string \<Rightarrow> string \<Rightarrow> string \<Rightarrow> string result" where
  "fetchDockerRegistryToken net client realm0 service0 scope =
     (let realm = (if realm0 = [] then ''https://auth.docker.io/token'' else realm0);
          service = (if service0 = [] then ''registry.docker.io'' else service0);
          query = ''scope='' @ QueryEscape scope @ ''&service='' @ QueryEscape service
      in if scope = [] then Inl (ErrMsg ''empty token scope'')
         else (case client 1 \<lparr>hq_method = ''GET'',
                 hq_url = realm @ (if CHR ''?'' \<in> set realm then ''&'' else ''?'') @ query,
                 hq_headers = [(''User-Agent'', ''Nexspence/1.0 (docker-proxy)'')]\<rparr> of
             Inl e \<Rightarrow> Inl e
           | Inr resp \<Rightarrow>
               if hs_status resp \<noteq> 200 then Inl (ErrMsg ''token endpoint'')
               else (case n_token net (read_all (hs_body resp)) of
                   None \<Rightarrow> Inl (ErrMsg ''token reply'')
                 | Some (tok, access) \<Rightarrow>
                     if tok \<noteq> [] then Inr tok else if access \<noteq> [] then Inr access
                     else Inl (ErrMsg ''empty token in response''))))"

definition redoUpstreamWithoutAuth :: "http_client \<Rightarrow> string \<Rightarrow> string \<Rightarrow> (string \<times> string) list \<Rightarrow> http_response result" where
  "redoUpstreamWithoutAuth client method u hs =
     client 2 \<lparr>hq_method = method, hq_url = u,
       hq_headers = with_user_agent proxy_agent (AList.delete ''Authorization'' hs)\<rparr>"

definition fetchUpstreamWithDockerHubAuth ::
    "network \<Rightarrow> repository \<Rightarrow> http_client \<Rightarrow> string \<Rightarrow> string \<Rightarrow> string \<Rightarrow> (string \<times> string) list \<Rightarrow> http_response result" where
  "fetchUpstreamWithDockerHubAuth net repo client method upstreamURL baseRemote hs =
     (case client 0 \<lparr>hq_method = method, hq_url = upstreamURL,
             hq_headers = SetUpstreamAuth net repo (with_user_agent proxy_agent hs)\<rparr> of
        Inl e \<Rightarrow> Inl e
      | Inr resp \<Rightarrow>
          if hs_status resp \<noteq> 401 \<or> \<not> isDockerRegistryRemote net baseRemote then Inr resp
          else (case n_parse net upstreamURL of
              None \<Rightarrow> Inl (ErrMsg ''parse'')
            | Some upu \<Rightarrow>
                (let (realm, service, scope0) = (case parseDockerBearerChallenge (hs_headers resp) of
                       Some ch \<Rightarrow> ch | None \<Rightarrow> (''https://auth.docker.io/token'', [], []));
                     scope = (if scope0 = [] then scopeFromRegistryV2URL upu else scope0)
                 in if scope = [] then redoUpstreamWithoutAuth client method upstreamURL hs
                    else (case fetchDockerRegistryToken net client realm service scope of
                        Inl _ \<Rightarrow> redoUpstreamWithoutAuth client method upstreamURL hs
                      | Inr tok \<Rightarrow>
                          client 2 \<lparr>hq_method = method, hq_url = upstreamURL,
                            hq_headers = AList.update ''Authorization'' (''Bearer '' @ tok) (with_user_agent proxy_agent hs)\<rparr>))))"

definition FetchUpstreamOnce ::
    "network \<Rightarrow> repository \<Rightarrow> string \<Rightarrow> string \<Rightarrow> (string \<times> string) list \<Rightarrow> http_response result" where
  "FetchUpstreamOnce net repo upstreamPath rawQuery hs =
     (case RemoteURL repo of
        Inl e \<Rightarrow> Inl e
      | Inr baseRemote \<Rightarrow>
          (case JoinURL net baseRemote upstreamPath of
             Inl e \<Rightarrow> Inl e
           | Inr upstream \<Rightarrow>
               fetchUpstreamWithDockerHubAuth net repo (ClientFor net repo) ''GET''
                 (if rawQuery \<noteq> [] then upstream @ ''?'' @ rawQuery else upstream) baseRemote hs))"

section \<open>Writing to the client\<close>

text \<open>
  What a served request leaves: the reply, if one was written, and the error handed back to the
  caller. Both occur together when a stream fails after its status went out; the body is then what
  went out before.
\<close>

record served =
  sv_reply :: "reply option"
  sv_error :: "err option"

definition written :: "reply \<Rightarrow> served" where
  "written r = \<lparr>sv_reply = Some r, sv_error = None\<rparr>"

definition refused :: "err \<Rightarrow> served" where
  "refused e = \<lparr>sv_reply = None, sv_error = Some e\<rparr>"

definition json_error :: "nat \<Rightarrow> reply" where
  "json_error s = \<lparr>h_status = s, h_headers = [], h_body = Json_Error\<rparr>"

definition hopHeaders :: "string list" where
  "hopHeaders = [''connection'', ''keep-alive'', ''proxy-authenticate'', ''proxy-authorization'', ''te'', ''trailers'',
     ''transfer-encoding'', ''upgrade'']"

definition copyRespHeaders :: "(string \<times> string) list \<Rightarrow> (string \<times> string) list" where
  "copyRespHeaders hs = filter (\<lambda>(k, v). to_lower k \<notin> set hopHeaders) hs"

definition set_header :: "(string \<times> string) list \<Rightarrow> string \<Rightarrow> string \<Rightarrow> (string \<times> string) list" where
  "set_header hs k v = filter (\<lambda>h. fst h \<noteq> k) hs @ [(k, v)]"

definition applyChecksumHeaders :: "asset \<Rightarrow> (string \<times> string) list" where
  "applyChecksumHeaders a =
     (if a_sha256 a \<noteq> [] then [(''X-Checksum-SHA256'', a_sha256 a), (''ETag'', [CHR 0x22] @ a_sha256 a @ [CHR 0x22])] else []) @
     (if a_sha1 a \<noteq> [] then [(''X-Checksum-SHA1'', a_sha1 a)] else []) @
     (if a_md5 a \<noteq> [] then [(''X-Checksum-MD5'', a_md5 a)] else [])"

definition body_of :: "gin_request \<Rightarrow> string \<Rightarrow> reply_body" where
  "body_of q data = (if q_method q = ''HEAD'' then No_Body else Bytes data)"

definition count_download :: "deps \<Rightarrow> world \<Rightarrow> gin_request \<Rightarrow> string \<Rightarrow> world" where
  "count_download d w q i =
     (if q_method q = ''GET'' \<and> d_downloads d then w\<lparr>w_downloads := w_downloads w @ [i]\<rparr> else w)"

definition DispatchProxyError :: "deps \<Rightarrow> world \<Rightarrow> string \<Rightarrow> string \<Rightarrow> world" where
  "DispatchProxyError d w repoName path =
     (if \<not> d_webhooks d then w
      else w\<lparr>w_events := w_events w @ [\<lparr>p_event = EventProxyError, p_timestamp = w_now w, p_repository = repoName,
        p_component = [], p_path = path, p_content_type = [], p_size = 0\<rparr>]\<rparr>)"

section \<open>Serving from the cache\<close>

definition maxRewrittenMetadataBytes :: nat where
  "maxRewrittenMetadataBytes = 33554432"

definition serveCachedAsset ::
    "deps \<Rightarrow> world \<Rightarrow> gin_request \<Rightarrow> asset \<Rightarrow> string \<Rightarrow> (string \<Rightarrow> string) option \<Rightarrow> world \<times> served" where
  "serveCachedAsset d w q a data rewrite =
     (let w' = count_download d w q (a_id a); hs = applyChecksumHeaders a in
      (w', written
        (if q_method q = ''HEAD'' then
           \<lparr>h_status = 200, h_headers = hs @ [(''Content-Type'', a_content_type a)] @
              (if a_size_bytes a > 0 \<and> rewrite = None then [(''Content-Length'', itoa (a_size_bytes a))] else []),
            h_body = No_Body\<rparr>
         else (case rewrite of
             Some f \<Rightarrow>
               let body = take (Suc maxRewrittenMetadataBytes) data in
               if length body > maxRewrittenMetadataBytes then (json_error 502)\<lparr>h_headers := hs\<rparr>
               else \<lparr>h_status = 200, h_headers = hs @ [(''Content-Type'', a_content_type a)], h_body = Bytes (f body)\<rparr>
           | None \<Rightarrow>
               \<lparr>h_status = 200, h_headers = hs @ [(''Content-Type'', a_content_type a), (''Content-Length'', itoa (a_size_bytes a))],
                h_body = Bytes data\<rparr>))))"

section \<open>Filling the cache\<close>

text \<open>The bytes go out to the client and into the store; then the row is registered.\<close>

definition dropUnreferencedBlob :: "world \<Rightarrow> repository \<Rightarrow> string \<Rightarrow> store_ref \<Rightarrow> string \<Rightarrow> world" where
  "dropUnreferencedBlob w repo path phys key =
     (case assets_get_by_path w (r_name repo) path 206 of
        Inr _ \<Rightarrow> w
      | Inl _ \<Rightarrow> best_effort w (store_delete w phys key 206))"

definition register_cached ::
    "deps \<Rightarrow> world \<Rightarrow> gin_request \<Rightarrow> repository \<Rightarrow> string \<Rightarrow> string \<Rightarrow> coords \<Rightarrow> string \<Rightarrow> string \<Rightarrow> int \<Rightarrow> string \<Rightarrow> string \<Rightarrow>
     world \<times> err option" where
  "register_cached d w q repo path ct co key body sz storeID storeName =
     (case RegisterStoredBlob d w repo path ct co key (d_sha256 d body) (d_sha1 d body) (d_md5 d body) sz storeID storeName of
        (w', Inl e) \<Rightarrow> (w', Some e)
      | (w', Inr a) \<Rightarrow> (if a_id a \<noteq> [] then count_download d w' q (a_id a) else w', None))"

definition storeOriginal ::
    "deps \<Rightarrow> world \<Rightarrow> gin_request \<Rightarrow> repository \<Rightarrow> string \<Rightarrow> string \<Rightarrow> coords \<Rightarrow> string \<Rightarrow> world \<times> err option" where
  "storeOriginal d w q repo path ct co body =
     (case checkQuota w repo (int (length body)) 200 of
        Inl _ \<Rightarrow> (w, None)
      | Inr _ \<Rightarrow>
          (case ResolveBlobStore d w repo 201 of (w1, storeID, storeName, phys) \<Rightarrow>
             (case store_put w1 phys (BlobKey d (r_name repo) path) body 202 of
                Inl e \<Rightarrow> (w1, Some (Wrapped ''proxy cache write'' e))
              | Inr w2 \<Rightarrow> register_cached d w2 q repo path ct co (BlobKey d (r_name repo) path) body (int (length body)) storeID storeName)))"

text \<open>The part of \<^verbatim>\<open>storeAndServeResponse\<close> after the status and headers went out.\<close>

definition cache_stream ::
    "network \<Rightarrow> deps \<Rightarrow> world \<Rightarrow> gin_request \<Rightarrow> repository \<Rightarrow> string \<Rightarrow> string \<Rightarrow> coords \<Rightarrow> http_response \<Rightarrow>
     world \<times> string \<times> err option" where
  "cache_stream net d w q repo path ct co resp =
     (let body = read_all (hs_body resp); key = BlobKey d (r_name repo) path in
      if hs_content_length resp > 0 \<and> \<not> is_ok (checkQuota w repo (hs_content_length resp) 200) then (w, body, None)
      else (case ResolveBlobStore d w repo 201 of (w1, storeID, storeName, phys) \<Rightarrow>
        (case (case snd (hs_body resp) of Some e \<Rightarrow> Inl e | None \<Rightarrow> Inr ()) of
           Inl e \<Rightarrow> (w1, body, Some (Wrapped ''proxy cache write'' e))
         | Inr _ \<Rightarrow>
             (case store_put w1 phys key body 202 of
                Inl e \<Rightarrow> (w1, take (n_drained net) body, Some (Wrapped ''proxy cache write'' e))
              | Inr w2 \<Rightarrow>
                  (let sz = (if body = [] then (case store_size w2 phys key 203 of Inr s \<Rightarrow> s | Inl _ \<Rightarrow> 0) else int (length body)) in
                   if hs_content_length resp \<le> 0 \<and> sz > 0 \<and> \<not> is_ok (checkQuota w2 repo sz 204)
                   then (dropUnreferencedBlob w2 repo path phys key, body, None)
                   else (case register_cached d w2 q repo path ct co key body sz storeID storeName of
                       (w3, err) \<Rightarrow> (w3, body, err)))))))"

definition storeAndServeResponse ::
    "network \<Rightarrow> deps \<Rightarrow> world \<Rightarrow> gin_request \<Rightarrow> repository \<Rightarrow> string \<Rightarrow> string \<Rightarrow> coords \<Rightarrow> http_response \<Rightarrow>
     (string \<Rightarrow> string) option \<Rightarrow> world \<times> served" where
  "storeAndServeResponse net d w q repo path defaultContentType co resp rewrite =
     (let ct = (if hdr_get (hs_headers resp) ''Content-Type'' = [] then defaultContentType
                else hdr_get (hs_headers resp) ''Content-Type'')
      in case rewrite of
           Some f \<Rightarrow>
             (let body = limit_reader (Suc maxRewrittenMetadataBytes) (hs_body resp) in
              if snd body \<noteq> None then (w, refused (Wrapped ''proxy metadata read'' (the (snd body))))
              else if length (read_all body) > maxRewrittenMetadataBytes
              then (w, refused (ErrMsg ''proxy metadata exceeds the rewrite size limit''))
              else (case storeOriginal d w q repo path ct co (read_all body) of
                  (w', Some e) \<Rightarrow> (w', refused e)
                | (w', None) \<Rightarrow>
                    (w', written \<lparr>h_status = hs_status resp,
                      h_headers = set_header (filter (\<lambda>h. fst h \<noteq> ''Content-Length'') (copyRespHeaders (hs_headers resp))) ''Content-Type'' ct,
                      h_body = body_of q (f (read_all body))\<rparr>)))
         | None \<Rightarrow>
             (case cache_stream net d w q repo path ct co resp of
                (w', sent, err) \<Rightarrow>
                  (w', \<lparr>sv_reply = Some \<lparr>h_status = hs_status resp,
                      h_headers = set_header (copyRespHeaders (hs_headers resp)) ''Content-Type'' ct,
                      h_body = body_of q sent\<rparr>, sv_error = err\<rparr>)))"

section \<open>Hit, miss and revalidation\<close>

definition accept_header :: "gin_request \<Rightarrow> (string \<times> string) list" where
  "accept_header q = (if hdr_get (q_headers q) ''Accept'' \<noteq> [] then [(''Accept'', hdr_get (q_headers q) ''Accept'')] else [])"

definition upstream_of :: "network \<Rightarrow> repository \<Rightarrow> string \<Rightarrow> (string \<times> string) result" where
  "upstream_of net repo upJoin =
     (case RemoteURL repo of
        Inl e \<Rightarrow> Inl e
      | Inr baseRemote \<Rightarrow>
          (case JoinURL net baseRemote upJoin of Inl e \<Rightarrow> Inl e | Inr upstream \<Rightarrow> Inr (baseRemote, upstream)))"

definition fetchAndCache ::
    "network \<Rightarrow> deps \<Rightarrow> world \<Rightarrow> gin_request \<Rightarrow> repository \<Rightarrow> string \<Rightarrow> string \<Rightarrow> coords \<Rightarrow> string \<Rightarrow>
     (string \<Rightarrow> string) option \<Rightarrow> world \<times> served" where
  "fetchAndCache net d w q repo path upJoin co defaultContentType rewrite =
     (case upstream_of net repo upJoin of
        Inl _ \<Rightarrow> (w, written (json_error 400))
      | Inr (baseRemote, upstream) \<Rightarrow>
          (let inm = hdr_get (q_headers q) ''If-None-Match'';
               hs = accept_header q @ (if inm \<noteq> [] then [(''If-None-Match'', inm)] else []);
               method = (if q_method q = ''HEAD'' then ''GET'' else q_method q)
           in case fetchUpstreamWithDockerHubAuth net repo (ClientFor net repo) method upstream baseRemote hs of
                Inl _ \<Rightarrow> (DispatchProxyError d w (r_name repo) path, written (json_error 502))
              | Inr resp \<Rightarrow>
                  if hs_status resp = 304
                  then (w, written \<lparr>h_status = 304, h_headers = copyRespHeaders (hs_headers resp), h_body = No_Body\<rparr>)
                  else if hs_status resp < 200 \<or> hs_status resp > 299
                  then (w, written \<lparr>h_status = hs_status resp, h_headers = copyRespHeaders (hs_headers resp),
                          h_body = body_of q (read_all (hs_body resp))\<rparr>)
                  else storeAndServeResponse net d w q repo path defaultContentType co resp rewrite))"

definition revalidateAndServe ::
    "network \<Rightarrow> deps \<Rightarrow> world \<Rightarrow> gin_request \<Rightarrow> repository \<Rightarrow> asset \<Rightarrow> string \<Rightarrow> string \<Rightarrow> coords \<Rightarrow> string \<Rightarrow> string \<Rightarrow>
     (string \<Rightarrow> string) option \<Rightarrow> world \<times> served" where
  "revalidateAndServe net d w q repo a path upJoin co defaultContentType data rewrite =
     (case upstream_of net repo upJoin of
        Inl _ \<Rightarrow> serveCachedAsset d w q a data rewrite
      | Inr (baseRemote, upstream) \<Rightarrow>
          (let hs = accept_header q @
                 (if a_last_modified a \<noteq> 0 then [(''If-Modified-Since'', n_date net (a_last_modified a))] else [])
           in case fetchUpstreamWithDockerHubAuth net repo (ClientFor net repo) ''GET'' upstream baseRemote hs of
                Inl _ \<Rightarrow> serveCachedAsset d (DispatchProxyError d w (r_name repo) path) q a data rewrite
              | Inr resp \<Rightarrow>
                  if hs_status resp = 304
                  then serveCachedAsset d (best_effort w (assets_touch_last_modified w (a_id a) 205)) q a data rewrite
                  else if 200 \<le> hs_status resp \<and> hs_status resp \<le> 299
                  then storeAndServeResponse net d w q repo path defaultContentType co resp rewrite
                  else serveCachedAsset d (DispatchProxyError d w (r_name repo) path) q a data rewrite))"

definition ServeGETRewritten ::
    "network \<Rightarrow> deps \<Rightarrow> world \<Rightarrow> gin_request \<Rightarrow> repository \<Rightarrow> string \<Rightarrow> string \<Rightarrow> coords \<Rightarrow> string \<Rightarrow> time \<Rightarrow>
     (string \<Rightarrow> string) option \<Rightarrow> world \<times> served" where
  "ServeGETRewritten net d w q repo path upstreamPath co defaultContentType maxAge rewrite =
     (if r_type repo \<noteq> ''proxy'' then (w, refused (ErrMsg ''repoproxy: not a proxy''))
      else if q_method q \<noteq> ''GET'' \<and> q_method q \<noteq> ''HEAD'' then (w, refused (ErrMsg ''repoproxy: unsupported method''))
      else
        (let upJoin = (if upstreamPath = [] then path else upstreamPath);
             miss = fetchAndCache net d w q repo path upJoin co defaultContentType rewrite
         in case assets_get_by_path w (r_name repo) path 207 of
              Inl e \<Rightarrow> if err_is e ErrNotFound then miss else (w, refused (Wrapped ''repoproxy: asset lookup'' e))
            | Inr a \<Rightarrow>
                (case store_get w (pinned_store d w (a_blob_store_id a) 208) (a_blob_key a) 208 of
                   Inl _ \<Rightarrow> miss
                 | Inr data \<Rightarrow>
                     if maxAge > 0 \<and> q_method q = ''GET'' \<and> w_now w - a_last_modified a > maxAge
                     then revalidateAndServe net d w q repo a path upJoin co defaultContentType data rewrite
                     else serveCachedAsset d w q a data rewrite)))"

definition ServeGET ::
    "network \<Rightarrow> deps \<Rightarrow> world \<Rightarrow> gin_request \<Rightarrow> repository \<Rightarrow> string \<Rightarrow> string \<Rightarrow> coords \<Rightarrow> string \<Rightarrow> time \<Rightarrow> world \<times> served" where
  "ServeGET net d w q repo path upstreamPath co defaultContentType maxAge =
     ServeGETRewritten net d w q repo path upstreamPath co defaultContentType maxAge None"

definition CargoIndexUpstreamPath :: "string \<Rightarrow> string" where
  "CargoIndexUpstreamPath p = (if has_prefix p ''/index/'' then ''/'' @ trim_prefix p ''/index/'' else p)"

definition NPMMetadataPath :: "string \<Rightarrow> string" where
  "NPMMetadataPath pkgPath =
     (let pkg = trim_slashes (trim_prefix pkgPath ''/'') in
      if has_prefix pkg ''@'' then
        (case index_str pkg ''/'' of
           Some i \<Rightarrow> if i > 0 then take i pkg @ ''%2F'' @ drop (Suc i) pkg else pkg
         | None \<Rightarrow> pkg)
      else pkg)"

section \<open>What is cached is what is served\<close>

lemma count_download_frame [simp]:
  "w_assets (count_download d w q i) = w_assets w" "w_phys (count_download d w q i) = w_phys w"
  "w_repos (count_download d w q i) = w_repos w" "w_blobs (count_download d w q i) = w_blobs w"
  "w_comps (count_download d w q i) = w_comps w" "w_fault (count_download d w q i) = w_fault w"
  by (simp_all add: count_download_def)

lemma db_ok_count_download [simp]: "db_ok (count_download d w q i) = db_ok w"
  by (rule db_ok_cong) (simp_all add: count_download_def)

lemma DispatchProxyError_frame [simp]:
  "w_assets (DispatchProxyError d w n p) = w_assets w" "w_phys (DispatchProxyError d w n p) = w_phys w"
  "w_comps (DispatchProxyError d w n p) = w_comps w" "db_ok (DispatchProxyError d w n p) = db_ok w"
  by (simp_all add: DispatchProxyError_def)

lemma serveCachedAsset_frame:
  "serveCachedAsset d w q a data rewrite = (w', sv) \<Longrightarrow> w' = count_download d w q (a_id a) \<and> sv_error sv = None"
  by (auto simp: serveCachedAsset_def written_def Let_def)

abbreviation cached_reply :: "asset \<Rightarrow> string \<Rightarrow> reply" where
  "cached_reply a data \<equiv> \<lparr>h_status = 200, h_headers = applyChecksumHeaders a @
     [(''Content-Type'', a_content_type a), (''Content-Length'', itoa (a_size_bytes a))], h_body = Bytes data\<rparr>"

lemma serveCachedAsset_plain:
  "q_method q = ''GET'' \<Longrightarrow> serveCachedAsset d w q a data None = (count_download d w q (a_id a), written (cached_reply a data))"
  by (simp add: serveCachedAsset_def Let_def)

text \<open>Nothing but a successful fetch leads to the store: all other branches leave tables and bytes alone.\<close>

lemma ServeGET_branches:
  assumes "ServeGETRewritten net d w q repo path up co ct maxAge rewrite = (w', sv)"
  obtains (kept) "w_assets w' = w_assets w" "w_phys w' = w_phys w" "db_ok w' = db_ok w"
  | (touched) a w1 where "assets_get_by_path w (r_name repo) path 207 = Inr a"
      "assets_touch_last_modified w (a_id a) 205 = Inr w1" "w_assets w' = w_assets w1" "w_phys w' = w_phys w" "db_ok w' = db_ok w1"
  | (filled) resp where "storeAndServeResponse net d w q repo path ct co resp rewrite = (w', sv)"
      "200 \<le> hs_status resp" "hs_status resp \<le> 299"
proof -
  let ?up = "if up = [] then path else up"
  have cached: thesis if "serveCachedAsset d v q a data rewrite = (w', sv)" "w_assets v = w_assets w" "w_phys v = w_phys w" "db_ok v = db_ok w"
    for v a data
    using serveCachedAsset_frame[OF that(1)] that(2-) by (intro kept) simp_all
  have miss: thesis if m: "fetchAndCache net d w q repo path ?up co ct rewrite = (w', sv)"
  proof (cases "upstream_of net repo ?up")
    case (Inl e)
    with m show thesis by (intro kept) (simp_all add: fetchAndCache_def)
  next
    case (Inr bu)
    obtain base u where bu: "bu = (base, u)" by force
    define f where "f = fetchUpstreamWithDockerHubAuth net repo (ClientFor net repo) (if q_method q = ''HEAD'' then ''GET'' else q_method q) u base
      (accept_header q @ (if hdr_get (q_headers q) ''If-None-Match'' \<noteq> [] then [(''If-None-Match'', hdr_get (q_headers q) ''If-None-Match'')] else []))"
    show thesis
    proof (cases f)
      case (Inl e)
      with m Inr bu show thesis by (intro kept) (auto simp: fetchAndCache_def Let_def f_def)
    next
      case resp: (Inr resp)
      consider "hs_status resp = 304 \<or> hs_status resp < 200 \<or> hs_status resp > 299"
        | "hs_status resp \<noteq> 304" "200 \<le> hs_status resp" "hs_status resp \<le> 299" by linarith
      then show thesis
      proof cases
        case 1
        with m Inr bu resp show thesis
          by (intro kept) (auto simp: fetchAndCache_def Let_def f_def split: if_splits)
      next
        case 2
        with m Inr bu resp show thesis
          by (intro filled[of resp]) (simp_all add: fetchAndCache_def Let_def f_def split: if_splits)
      qed
    qed
  qed
  have reval: thesis if m: "revalidateAndServe net d w q repo a path ?up co ct data rewrite = (w', sv)"
    and a: "assets_get_by_path w (r_name repo) path 207 = Inr a" for a data
  proof (cases "upstream_of net repo ?up")
    case (Inl e)
    with m show thesis by (intro cached[of w]) (simp_all add: revalidateAndServe_def)
  next
    case (Inr bu)
    obtain base u where bu: "bu = (base, u)" by force
    define f where "f = fetchUpstreamWithDockerHubAuth net repo (ClientFor net repo) ''GET'' u base
      (accept_header q @ (if a_last_modified a \<noteq> 0 then [(''If-Modified-Since'', n_date net (a_last_modified a))] else []))"
    show thesis
    proof (cases f)
      case (Inl e)
      with m Inr bu show thesis
        by (intro cached[of "DispatchProxyError d w (r_name repo) path"]) (simp_all add: revalidateAndServe_def Let_def f_def)
    next
      case resp: (Inr resp)
      consider "hs_status resp = 304" | "hs_status resp \<noteq> 304" "200 \<le> hs_status resp" "hs_status resp \<le> 299"
        | "hs_status resp < 200 \<or> hs_status resp > 299" "hs_status resp \<noteq> 304" by linarith
      then show thesis
      proof cases
        case 1
        then have s: "serveCachedAsset d (best_effort w (assets_touch_last_modified w (a_id a) 205)) q a data rewrite = (w', sv)"
          using m Inr bu resp by (simp add: revalidateAndServe_def Let_def f_def)
        show thesis
        proof (cases "assets_touch_last_modified w (a_id a) 205")
          case (Inl e)
          with s show thesis by (intro cached[of w]) simp_all
        next
          case (Inr w1)
          moreover have "w_phys w1 = w_phys w" using Inr by (auto simp: assets_touch_last_modified_def)
          ultimately show thesis using serveCachedAsset_frame[OF s] a by (intro touched[of a w1]) simp_all
        qed
      next
        case 2
        with m Inr bu resp show thesis
          by (intro filled[of resp]) (simp_all add: revalidateAndServe_def Let_def f_def)
      next
        case 3
        with m Inr bu resp show thesis
          by (intro cached[of "DispatchProxyError d w (r_name repo) path" a data]) (auto simp: revalidateAndServe_def Let_def f_def split: if_splits)
      qed
    qed
  qed
  show thesis
  proof (cases "r_type repo \<noteq> ''proxy'' \<or> q_method q \<noteq> ''GET'' \<and> q_method q \<noteq> ''HEAD''")
    case True
    with assms show thesis by (intro kept) (auto simp: ServeGETRewritten_def split: if_splits)
  next
    case False
    show thesis
    proof (cases "assets_get_by_path w (r_name repo) path 207")
      case (Inl e)
      with assms False show thesis
        by (cases "err_is e ErrNotFound") (auto simp: ServeGETRewritten_def Let_def intro: miss kept)
    next
      case (Inr a)
      with assms False show thesis
        by (cases "store_get w (pinned_store d w (a_blob_store_id a) 208) (a_blob_key a) 208")
          (auto simp: ServeGETRewritten_def Let_def split: if_splits intro: miss reval cached[of w])
    qed
  qed
qed

lemma register_cached_world:
  assumes "register_cached d w q repo path ct co key body sz sid sname = (w', err)"
  obtains w3 r i where "RegisterStoredBlob d w repo path ct co key (d_sha256 d body) (d_sha1 d body) (d_md5 d body) sz sid sname = (w3, r)"
    "w' = w3 \<or> w' = count_download d w3 q i" "err = None \<longleftrightarrow> is_ok r"
proof -
  obtain w3 r where reg: "RegisterStoredBlob d w repo path ct co key (d_sha256 d body) (d_sha1 d body) (d_md5 d body) sz sid sname = (w3, r)" by force
  with assms show thesis by (intro that[OF reg, of "case r of Inr a \<Rightarrow> a_id a | Inl _ \<Rightarrow> []"]) (auto simp: register_cached_def split: sum.splits if_splits)
qed

lemma fill_branches:
  assumes "storeAndServeResponse net d w q repo path ct co resp rewrite = (w', sv)"
  obtains (skipped) rr where "w' = w\<lparr>w_rr := rr\<rparr>"
  | (dropped) w1 sid sname phys body w2 where "ResolveBlobStore d w repo 201 = (w1, sid, sname, phys)"
      "store_put w1 phys (BlobKey d (r_name repo) path) body 202 = Inr w2"
      "w' = dropUnreferencedBlob w2 repo path phys (BlobKey d (r_name repo) path)"
  | (registered) w1 sid sname phys body w2 ct' sz w3 r i where "ResolveBlobStore d w repo 201 = (w1, sid, sname, phys)"
      "store_put w1 phys (BlobKey d (r_name repo) path) body 202 = Inr w2"
      "RegisterStoredBlob d w2 repo path ct' co (BlobKey d (r_name repo) path) (d_sha256 d body) (d_sha1 d body) (d_md5 d body) sz sid sname = (w3, r)"
      "w' = w3 \<or> w' = count_download d w3 q i"
proof -
  let ?key = "BlobKey d (r_name repo) path"
  define ct' where "ct' = (if hdr_get (hs_headers resp) ''Content-Type'' = [] then ct else hdr_get (hs_headers resp) ''Content-Type'')"
  obtain w1 sid sname phys where rbs: "ResolveBlobStore d w repo 201 = (w1, sid, sname, phys)" by (metis prod.collapse)
  obtain rr where w1: "w1 = w\<lparr>w_rr := rr\<rparr>" using ResolveBlobStore_frame[OF rbs] by blast
  have same: thesis if "w' = w" using that by (intro skipped[of "w_rr w"]) simp
  show thesis
  proof (cases rewrite)
    case None
    obtain sent err where cs: "cache_stream net d w q repo path ct' co resp = (w', sent, err)"
      using assms None by (auto simp: storeAndServeResponse_def Let_def ct'_def split: prod.splits)
    let ?body = "read_all (hs_body resp)"
    consider "hs_content_length resp > 0 \<and> \<not> is_ok (checkQuota w repo (hs_content_length resp) 200)"
      | "\<not> (hs_content_length resp > 0 \<and> \<not> is_ok (checkQuota w repo (hs_content_length resp) 200))"
        "snd (hs_body resp) \<noteq> None \<or> \<not> is_ok (store_put w1 phys ?key ?body 202)"
      | w2 where "\<not> (hs_content_length resp > 0 \<and> \<not> is_ok (checkQuota w repo (hs_content_length resp) 200))"
        "snd (hs_body resp) = None" "store_put w1 phys ?key ?body 202 = Inr w2"
      by (metis is_ok_iff)
    then show thesis
    proof cases
      case 1
      with cs show thesis by (intro same) (simp add: cache_stream_def Let_def)
    next
      case 2
      with cs rbs have "w' = w1"
        unfolding cache_stream_def Let_def if_not_P[OF 2(1)] by (auto split: option.splits sum.splits)
      with w1 show thesis by (intro skipped[of rr]) simp
    next
      case 3
      define sz where "sz = (if ?body = [] then (case store_size w2 phys ?key 203 of Inr s \<Rightarrow> s | Inl _ \<Rightarrow> 0) else int (length ?body))"
      show thesis
      proof (cases "hs_content_length resp \<le> 0 \<and> sz > 0 \<and> \<not> is_ok (checkQuota w2 repo sz 204)")
        case True
        with cs rbs 3 have "w' = dropUnreferencedBlob w2 repo path phys ?key"
          unfolding cache_stream_def Let_def if_not_P[OF 3(1)] by (auto simp: sz_def[symmetric])
        with rbs 3 show thesis by (intro dropped)
      next
        case False
        obtain v err' where rc: "register_cached d w2 q repo path ct' co ?key ?body sz sid sname = (v, err')" by force
        with cs rbs 3 False have "w' = v"
          unfolding cache_stream_def Let_def if_not_P[OF 3(1)] by (simp add: sz_def[symmetric])
        then show thesis using register_cached_world[OF rc] rbs 3(3) registered by metis
      qed
    qed
  next
    case (Some f)
    define body where "body = read_all (limit_reader (Suc maxRewrittenMetadataBytes) (hs_body resp))"
    show thesis
    proof (cases "snd (limit_reader (Suc maxRewrittenMetadataBytes) (hs_body resp)) \<noteq> None \<or> length body > maxRewrittenMetadataBytes")
      case True
      with assms Some show thesis by (intro same) (auto simp: storeAndServeResponse_def Let_def body_def split: if_splits)
    next
      case False
      obtain v err where so: "storeOriginal d w q repo path ct' co body = (v, err)" by force
      with assms Some False have v: "w' = v"
        by (cases err) (auto simp: storeAndServeResponse_def Let_def body_def[symmetric] ct'_def)
      show thesis
      proof (cases "is_ok (checkQuota w repo (int (length body)) 200)")
        case False
        with so v show thesis by (intro same) (auto simp: storeOriginal_def is_ok_iff split: sum.splits)
      next
        case True
        show thesis
        proof (cases "store_put w1 phys ?key body 202")
          case (Inl e)
          with so True rbs v w1 show thesis by (intro skipped[of rr]) (auto simp: storeOriginal_def is_ok_iff)
        next
          case (Inr w2)
          with so True rbs have rc: "register_cached d w2 q repo path ct' co ?key body (int (length body)) sid sname = (v, err)"
            by (auto simp: storeOriginal_def is_ok_iff)
          then show thesis using register_cached_world[OF rc] rbs Inr v registered by metis
        qed
      qed
    qed
  qed
qed

section \<open>What a proxy request cannot touch\<close>

abbreviation other_slot :: "string \<Rightarrow> string \<Rightarrow> asset \<Rightarrow> bool" where
  "other_slot repoID path x \<equiv> a_repository_id x \<noteq> repoID \<or> a_path x \<noteq> path"

lemma assets_create_keeps:
  assumes "db_ok w" "assets_create w a n = Inr (w', a')" "x \<in> set (w_assets w)" "other_slot (a_repository_id a) (a_path a) x"
  shows "x \<in> set (w_assets w')"
  using assms(2)
proof (cases rule: assets_create_cases)
  case (upd old)
  have old: "old \<in> set (w_assets w)" "a_repository_id old = a_repository_id a \<and> a_path old = a_path a"
    using find_SomeD[OF upd(1)] by simp_all
  have "distinct (map a_id (w_assets w))" using assms(1) by (simp add: db_ok_def)
  then have "a_id x \<noteq> a_id old" using assms(3,4) old by (auto simp: distinct_map inj_on_def)
  with upd assms(3) show ?thesis by (auto simp: set_upd_where image_iff intro: bexI[of _ x])
next
  case (ins row)
  with assms(3) show ?thesis by simp
qed

lemma register_locked_keeps:
  assumes "db_ok w" "register_locked repo sid sname prev c a w = (w', r)" "x \<in> set (w_assets w)"
    "other_slot (a_repository_id a) (a_path a) x"
  shows "x \<in> set (w_assets w')"
  using assms(2)
proof (cases rule: register_locked_cases)
  case (failed e)
  then have "w_assets w' = w_assets w" using db_step_components_create(2) by blast
  with assms(3) show ?thesis by simp
next
  case (ok w1 c1 w2 a2)
  have "w_assets w' = w_assets w2"
    using ok(4) update_used_assets by (cases "blobs_update_used_bytes w2 sname (reg_delta w prev a) 7") auto
  moreover have "db_ok w1" "w_assets w1 = w_assets w"
    using assms(1) ok(2) db_ok_components_create db_step_components_create(2) by blast+
  ultimately show ?thesis using assets_create_keeps[OF _ ok(3), of x] assms(3,4) by simp
qed

lemma RegisterStoredBlob_keeps:
  assumes "db_ok w" "RegisterStoredBlob d w repo path ctype co key sha256 sha1 md5 sz sid sname = (w', r)"
    "x \<in> set (w_assets w)" "other_slot (r_id repo) path x"
  shows "x \<in> set (w_assets w')"
  using assms(2)
proof (cases rule: RegisterStoredBlob_run)
  case (unresolved e)
  then show ?thesis using assms(3) resolveBlobStoreRef_frame[OF unresolved(2)] by auto
next
  case (refused w0 w1 sid' sname1 sname' prev c a e)
  have w0: "db_ok w0" "w_assets w0 = w_assets w"
    using pinned_frame[OF refused(1)] assms(1) by auto
  with refused assms(3,4) register_locked_keeps[OF w0(1), of repo sid' sname' prev c a w1 _ x]
  show ?thesis by (auto simp: new_asset_def)
next
  case (stored w0 w1 sid' sname1 sname' prev c1 a1)
  have w0: "db_ok w0" "w_assets w0 = w_assets w"
    using pinned_frame[OF stored(1)] assms(1) by auto
  moreover have "w_assets w' = w_assets w1" using stored(5) by (simp add: queueForScanning_def)
  ultimately show ?thesis using register_locked_keeps[OF w0(1) stored(4), of x] assms(3,4) by (simp add: new_asset_def)
qed

lemma touch_keeps:
  assumes "db_ok w" "repo \<in> set (w_repos w)" "assets_get_by_path w (r_name repo) path n = Inr a"
    "assets_touch_last_modified w (a_id a) m = Inr w1"
  shows "db_ok w1" "x \<in> set (w_assets w) \<Longrightarrow> other_slot (r_id repo) path x \<Longrightarrow> x \<in> set (w_assets w1)"
proof -
  obtain row where row: "row \<in> set (w_assets w)" "a = scan_asset w row" "in_repo w (r_name repo) row" "a_path row = path"
    by (rule get_by_path_row[OF assms(3)])
  have w1: "w1 = w\<lparr>w_assets := upd_where (\<lambda>r. a_id r = a_id row) (\<lambda>r. r\<lparr>a_last_modified := w_now w\<rparr>) (w_assets w)\<rparr>"
    using assms(4) row(2) by (simp add: assets_touch_last_modified_def)
  show "x \<in> set (w_assets w1)" if "x \<in> set (w_assets w)" "other_slot (r_id repo) path x"
  proof -
    have "distinct (map a_id (w_assets w))" using assms(1) by (simp add: db_ok_def)
    moreover have "x \<noteq> row" using that(2) row(3,4) in_repo_iff[OF assms(1,2)] by auto
    ultimately have "a_id x \<noteq> a_id row" using that(1) row(1) by (auto simp: distinct_map inj_on_def)
    with that(1) show ?thesis by (auto simp: w1 set_upd_where image_iff intro: bexI[of _ x])
  qed
  show "db_ok w1" using assms(1) by (simp add: db_ok_def w1 table_simps)
qed

lemma drop_unreferenced:
  "w_assets (dropUnreferencedBlob w repo path phys key) = w_assets w"
  "db_ok (dropUnreferencedBlob w repo path phys key) = db_ok w"
  "k \<noteq> key \<Longrightarrow> store_blob (dropUnreferencedBlob w repo path phys key) ref k = store_blob w ref k"
  by (simp_all add: dropUnreferencedBlob_def drop_blob_eq bs.get_del store_blob_def split: sum.splits)

lemma store_blob_phys: "w_phys v = w_phys w \<Longrightarrow> store_blob v = store_blob w"
  by (simp add: store_blob_def fun_eq_iff)

lemma stored_bytes:
  assumes "db_ok w" "ResolveBlobStore d w repo n = (w1, sid, sname, phys)" "store_put w1 phys key body m = Inr w2"
  shows "db_ok w2" "w_assets w2 = w_assets w" "k \<noteq> key \<Longrightarrow> store_blob w2 ref k = store_blob w ref k"
proof -
  obtain rr where w1: "w1 = w\<lparr>w_rr := rr\<rparr>" using ResolveBlobStore_frame[OF assms(2)] by blast
  then show "db_ok w2" "w_assets w2 = w_assets w"
    using assms(1) db_ok_store_put[OF assms(3)] store_put_ok[OF assms(3)] by simp_all
  have "store_blob w1 = store_blob w" by (rule store_blob_phys) (simp add: w1)
  then show "k \<noteq> key \<Longrightarrow> store_blob w2 ref k = store_blob w ref k" by (simp add: store_blob_put[OF assms(3)])
qed

text \<open>
  C16. A request to a proxy repository concerns its own path only: whatever upstream answers and
  whatever call fails, the schema is kept, every row of another path or repository is still there
  unchanged, and no bytes but those under the path's own key are written or removed.
\<close>

theorem proxy_request_confined:
  assumes "db_ok w" "repo \<in> set (w_repos w)" "ServeGETRewritten net d w q repo path up co ct maxAge rewrite = (w', sv)"
  shows "db_ok w' \<and> (\<forall>ref k. k \<noteq> BlobKey d (r_name repo) path \<longrightarrow> store_blob w' ref k = store_blob w ref k) \<and>
    (\<forall>x\<in>set (w_assets w). a_repository_id x \<noteq> r_id repo \<or> a_path x \<noteq> path \<longrightarrow> x \<in> set (w_assets w'))"
  using assms(3)
proof (cases rule: ServeGET_branches)
  case kept
  with assms(1) store_blob_phys[of w' w] show ?thesis by simp
next
  case (touched a w1)
  with touch_keeps[OF assms(1,2) touched(1)] store_blob_phys[of w' w] show ?thesis by simp
next
  case (filled resp)
  from filled(1) show ?thesis
  proof (cases rule: fill_branches)
    case (skipped rr)
    with assms(1) store_blob_phys[of w' w] show ?thesis by simp
  next
    case (dropped w1 sid sname phys body w2)
    with stored_bytes[OF assms(1) dropped(1,2)] show ?thesis by (simp add: drop_unreferenced)
  next
    case (registered w1 sid sname phys body w2 ct' sz w3 r i)
    note s = stored_bytes[OF assms(1) registered(1,2)]
    have "db_step w2 w3" by (rule RegisterStoredBlob_step[OF registered(3)])
    then have w3: "db_ok w3" "store_blob w3 = store_blob w2" using s(1) db_step_db_ok db_step_store_blob by blast+
    have w': "db_ok w' = db_ok w3" "w_assets w' = w_assets w3" "store_blob w' = store_blob w3"
      using registered(4) store_blob_phys[of w' w3] by auto
    show ?thesis using s w3 w' RegisterStoredBlob_keeps[OF s(1) registered(3)] by simp
  qed
qed

section \<open>Stale copies\<close>

text \<open>
  C15. An upstream that is down does not take the cache with it: when a cached copy is due for
  revalidation and upstream cannot be reached, or answers with anything but success or "not
  modified", the client gets the cached bytes, and the row and the bytes stay.
\<close>

theorem stale_copy_survives_upstream:
  assumes "r_type repo = ''proxy''" "q_method q = ''GET''"
    and "assets_get_by_path w (r_name repo) path 207 = Inr a"
    and "store_get w (pinned_store d w (a_blob_store_id a) 208) (a_blob_key a) 208 = Inr data"
    and down: "\<And>method u base hs. case fetchUpstreamWithDockerHubAuth net repo (ClientFor net repo) method u base hs of
      Inl _ \<Rightarrow> True | Inr resp \<Rightarrow> hs_status resp \<noteq> 304 \<and> (hs_status resp < 200 \<or> hs_status resp > 299)"
    and "ServeGET net d w q repo path up co ct maxAge = (w', sv)"
  shows "(\<exists>r. sv = \<lparr>sv_reply = Some r, sv_error = None\<rparr> \<and> h_status r = 200 \<and> h_body r = Bytes data) \<and>
    w_assets w' = w_assets w \<and> w_comps w' = w_comps w \<and> w_phys w' = w_phys w"
proof -
  have "\<exists>v. (w', sv) = serveCachedAsset d v q a data None \<and> w_assets v = w_assets w \<and> w_comps v = w_comps w \<and> w_phys v = w_phys w"
  proof (cases "maxAge > 0 \<and> w_now w - a_last_modified a > maxAge")
    case False
    with assms show ?thesis by (intro exI[of _ w]) (auto simp: ServeGET_def ServeGETRewritten_def Let_def)
  next
    case True
    let ?up = "if up = [] then path else up"
    have r: "(w', sv) = revalidateAndServe net d w q repo a path ?up co ct data None"
      using assms True by (simp add: ServeGET_def ServeGETRewritten_def Let_def)
    show ?thesis
    proof (cases "upstream_of net repo ?up")
      case (Inl e)
      with r show ?thesis by (intro exI[of _ w]) (simp add: revalidateAndServe_def)
    next
      case (Inr bu)
      obtain base u where bu: "bu = (base, u)" by force
      show ?thesis
        using r Inr bu down[of "''GET''" u base "accept_header q @
            (if a_last_modified a \<noteq> 0 then [(''If-Modified-Since'', n_date net (a_last_modified a))] else [])"]
        by (intro exI[of _ "DispatchProxyError d w (r_name repo) path"])
          (auto simp: revalidateAndServe_def Let_def split: sum.splits if_splits)
    qed
  qed
  with assms(2) show ?thesis by (auto simp: serveCachedAsset_plain written_def)
qed

section \<open>A miss and the hits after it\<close>

lemma no_quota_checks:
  assumes "w_blobs v = w_blobs w" "w_fault v = w_fault w" "r_quota_bytes repo = None"
    and "\<And>n. resolveBlobStoreObj w repo n = Inr b" "bs_quota_bytes b = None"
  shows "checkQuota v repo s n = Inr ()"
  using assms(3-) resolveBlobStoreObj_cong[OF assms(1,2), of repo n]
  by (simp add: checkQuota_def over_quota_def repo_quota_check_def)

lemma no_quota_headroom:
  assumes "db_ok w" "b \<in> set (w_blobs w)" "bs_quota_bytes b = None" "r_quota_bytes repo = None" "bs_id b \<noteq> []"
    and "w_blobs v = w_blobs w"
  shows "quotaHeadroom v repo (bs_id b) delta n = Inr ()"
proof -
  have "find (\<lambda>c. bs_id c = bs_id b) (w_blobs w) = Some b"
    using assms(1,2) by (intro find_key_unique) (simp_all add: db_ok_def)
  with assms(3-) show ?thesis
    by (auto simp: quotaHeadroom_def storeForQuota_def repo_quota_check_def blobs_get_by_id_def
        row_or_not_found_def guard_io_def over_quota_def split: option.splits)
qed

text \<open>Without quotas and faults, the stream of a body that reads to its end fills the cache.\<close>

lemma cache_stream_fills:
  assumes "db_ok w" "w_fault w = no_faults" "repo \<in> set (w_repos w)" "r_quota_bytes repo = None"
    and b: "\<And>n. resolveBlobStoreObj w repo n = Inr b" "bs_type b \<noteq> ''group''" "bs_quota_bytes b = None"
      "b \<in> set (w_blobs w)" "bs_id b \<noteq> []" "bs_name b \<noteq> []"
    and "snd (hs_body resp) = None"
  obtains v i row where "cache_stream net d w q repo path ct co resp = (if i \<noteq> [] then count_download d v q i else v, read_all (hs_body resp), None)"
    "db_ok v" "w_fault v = no_faults" "w_repos v = w_repos w" "row \<in> set (w_assets v)" "a_repository_id row = r_id repo"
    "a_path row = path" "a_size_bytes row = int (length (read_all (hs_body resp)))" "a_sha256 row = d_sha256 d (read_all (hs_body resp))"
    "\<And>n. data_at v (pinned_store d v (a_blob_store_id row) n) (a_blob_key row) = Some (read_all (hs_body resp))"
proof -
  let ?body = "read_all (hs_body resp)" and ?key = "BlobKey d (r_name repo) path"
  define phys where "phys = pinned_store d w (bs_id b) 203"
  define w1 where "w1 = set_store w phys (put_blob (w_phys w phys) ?key \<lparr>b_data = ?body, b_mod_time = w_now w\<rparr>)"
  have w1: "w_blobs w1 = w_blobs w" "w_fault w1 = no_faults" "w_repos w1 = w_repos w" "db_ok w1"
    using assms(1,2) by (simp_all add: w1_def)
  have quota: "checkQuota w repo s n = Inr ()" "checkQuota w1 repo s n = Inr ()" for s n
    by (rule no_quota_checks[OF _ _ assms(4) b(1,3)]; simp add: w1 assms(2))+
  have rbs: "ResolveBlobStore d w repo 201 = (w, bs_id b, bs_name b, phys)"
    using b by (simp add: ResolveBlobStore_def resolveBlobStoreRef_def phys_def)
  have put: "store_put w phys ?key ?body 202 = Inr w1"
    using assms(2) by (simp add: store_put_def w1_def guard_io_def)
  then have blob1: "data_at w1 phys ?key = Some ?body" by (simp add: data_at_put)
  then have "store_size w1 phys ?key 203 = Inr (int (length ?body))" using w1(2) by (auto simp: store_size_ok)
  then have sz: "(if ?body = [] then (case store_size w1 phys ?key 203 of Inr s \<Rightarrow> s | Inl _ \<Rightarrow> 0) else int (length ?body)) = int (length ?body)"
    by simp
  have "is_ok (snd (RegisterStoredBlob d w1 repo path ct co ?key (d_sha256 d ?body) (d_sha1 d ?body) (d_md5 d ?body)
      (int (length ?body)) (bs_id b) (bs_name b)))"
    by (rule RegisterStoredBlob_succeeds) (use w1 b assms(3) no_quota_headroom[OF assms(1) b(4,3) assms(4) b(5)] in auto)
  then obtain v a where reg: "RegisterStoredBlob d w1 repo path ct co ?key (d_sha256 d ?body) (d_sha1 d ?body) (d_md5 d ?body)
      (int (length ?body)) (bs_id b) (bs_name b) = (v, Inr a)"
    by (metis is_ok_iff prod.collapse)
  have fill: "cache_stream net d w q repo path ct co resp = (if a_id a \<noteq> [] then count_download d v q (a_id a) else v, ?body, None)"
    using quota assms(2,11) w1 rbs put sz reg by (simp add: cache_stream_def Let_def register_cached_def)
  have step: "db_step w1 v" by (rule RegisterStoredBlob_step[OF reg])
  have same: "db_ok v" "w_fault v = no_faults" "w_repos v = w_repos w" "map bs_static (w_blobs v) = map bs_static (w_blobs w)" "data_at v = data_at w1"
    using step w1 db_step_db_ok[OF step w1(4)] data_at_cong[of v w1] by (simp_all add: db_step_def)
  obtain row where row: "row \<in> set (w_assets v)" "a_repository_id row = r_id repo" "a_path row = path"
    "a_blob_key row = ?key" "a_blob_store_id row = bs_id b" "a_size_bytes row = int (length ?body)" "a_sha256 row = d_sha256 d ?body"
    using RegisterStoredBlob_row[OF reg b(5)] by metis
  have "pinned_store d v (bs_id b) n = phys" for n
    unfolding phys_def by (rule pinned_store_static) (use same assms(2) in auto)
  with same blob1 row show thesis by (intro that[OF fill, of row]) simp_all
qed

text \<open>
  C17. What a miss fetched is what every later hit serves: in a proxy repository without quotas, neither
  its own nor its store's, when no call fails and later requests ask for no revalidation, a
  first request relays upstream's bytes to the client, and from then on requests for the path
  return the same bytes with their checksum, without upstream, which may since have changed its
  answer or be gone.
\<close>

theorem miss_then_hit:
  assumes "db_ok w" "w_fault w = no_faults" "repo \<in> set (w_repos w)" "r_type repo = ''proxy''" "r_quota_bytes repo = None"
    and b: "\<And>n. resolveBlobStoreObj w repo n = Inr b" "bs_type b \<noteq> ''group''" "bs_quota_bytes b = None"
      "b \<in> set (w_blobs w)" "bs_id b \<noteq> []" "bs_name b \<noteq> []"
    and "q_method q = ''GET''" "assets_get_by_path w (r_name repo) path 207 = Inl ErrNotFound"
    and up: "upstream_of net repo (if up = [] then path else up) = Inr (base, u)"
      "\<And>hs. fetchUpstreamWithDockerHubAuth net repo (ClientFor net repo) ''GET'' u base hs = Inr resp"
      "200 \<le> hs_status resp" "hs_status resp \<le> 299" "snd (hs_body resp) = None"
    and serve: "ServeGET net d w q repo path up co ct maxAge = (w', sv)"
  shows "(\<exists>r. sv = \<lparr>sv_reply = Some r, sv_error = None\<rparr> \<and> h_status r = hs_status resp \<and> h_body r = Bytes (read_all (hs_body resp))) \<and>
    (\<exists>a. a_sha256 a = d_sha256 d (read_all (hs_body resp)) \<and> a_size_bytes a = int (length (read_all (hs_body resp))) \<and>
      (\<forall>net2 up2 co2 ct2. ServeGET net2 d w' q repo path up2 co2 ct2 0 =
         (count_download d w' q (a_id a), written (cached_reply a (read_all (hs_body resp))))))"
proof -
  let ?body = "read_all (hs_body resp)"
  define ct' where "ct' = (if hdr_get (hs_headers resp) ''Content-Type'' = [] then ct else hdr_get (hs_headers resp) ''Content-Type'')"
  obtain v i row where fill: "cache_stream net d w q repo path ct' co resp = (if i \<noteq> [] then count_download d v q i else v, ?body, None)"
    and v: "db_ok v" "w_fault v = no_faults" "w_repos v = w_repos w"
    and row: "row \<in> set (w_assets v)" "a_repository_id row = r_id repo" "a_path row = path"
      "a_size_bytes row = int (length ?body)" "a_sha256 row = d_sha256 d ?body"
    and data: "\<And>n. data_at v (pinned_store d v (a_blob_store_id row) n) (a_blob_key row) = Some ?body"
    using cache_stream_fills[OF assms(1-3,5) b up(5)] by metis
  define r where "r = \<lparr>h_status = hs_status resp, h_headers = set_header (copyRespHeaders (hs_headers resp)) ''Content-Type'' ct', h_body = Bytes ?body\<rparr>"
  have "ServeGET net d w q repo path up co ct maxAge = storeAndServeResponse net d w q repo path ct co resp None"
    using assms(4,12,13) up by (simp add: ServeGET_def ServeGETRewritten_def Let_def fetchAndCache_def)
  then have w': "w' = (if i \<noteq> [] then count_download d v q i else v)" and sv: "sv = \<lparr>sv_reply = Some r, sv_error = None\<rparr>"
    using serve fill assms(12) by (simp_all add: storeAndServeResponse_def ct'_def r_def body_of_def Let_def)
  have same: "w_repos w' = w_repos w" "w_fault w' = no_faults" "w_assets w' = w_assets v" "w_blobs w' = w_blobs v" "data_at w' = data_at v" "db_ok w'"
    using v data_at_cong[of w' v] by (simp_all add: w')
  have found: "assets_get_by_path w' (r_name repo) path 207 = Inr (scan_asset w' row)"
    using get_by_path_unique[OF same(6), of row repo 207] row same assms(3) by simp
  have "pinned_store d w' (a_blob_store_id row) 208 = pinned_store d v (a_blob_store_id row) 208"
    by (rule pinned_store_static) (use same v in auto)
  then have "store_get w' (pinned_store d w' (a_blob_store_id row) 208) (a_blob_key row) 208 = Inr ?body"
    using same data by (simp add: store_get_ok)
  then have "ServeGET net2 d w' q repo path up2 co2 ct2 0 =
      (count_download d w' q (a_id (scan_asset w' row)), written (cached_reply (scan_asset w' row) ?body))" for net2 up2 co2 ct2
    using found assms(4,12) by (simp add: ServeGET_def ServeGETRewritten_def Let_def serveCachedAsset_plain)
  with row have "\<exists>a. a_sha256 a = d_sha256 d ?body \<and> a_size_bytes a = int (length ?body) \<and>
      (\<forall>net2 up2 co2 ct2. ServeGET net2 d w' q repo path up2 co2 ct2 0 =
         (count_download d w' q (a_id a), written (cached_reply a ?body)))"
    by (intro exI[of _ "scan_asset w' row"]) simp
  then show ?thesis using sv by (simp add: r_def)
qed

section \<open>A sample proxy\<close>

definition demo_proxy :: repository where
  "demo_proxy = demo_repo\<lparr>r_type := ''proxy'', r_proxy_config := [(''remote_url'', AnyStr ''http://up'')]\<rparr>"

definition demo_upstream :: "http_response result \<Rightarrow> network" where
  "demo_upstream r = \<lparr>n_global = no_proxy_settings, n_direct = (\<lambda>_ _. r), n_via = (\<lambda>_. Inl ErrIO),
     n_parse = (\<lambda>s. Some \<lparr>ul_front = s, ul_hostname = ''up'', ul_path = [], ul_raw_path = [], ul_back = []\<rparr>),
     n_string = (\<lambda>u. ul_front u @ ul_path u), n_float = (\<lambda>_. None), n_seconds = (\<lambda>_. 0), n_basic = (\<lambda>u p. []),
     n_date = (\<lambda>_. []), n_token = (\<lambda>_. None), n_drained = 0\<rparr>"

definition demo_response :: "string \<Rightarrow> http_response" where
  "demo_response body = \<lparr>hs_status = 200, hs_headers = [], hs_body = ([body], None), hs_content_length = -1\<rparr>"

definition demo_get_request :: gin_request where
  "demo_get_request = \<lparr>q_method = ''GET'', q_repo = ''raw'', q_path = ''a.txt'', q_url_path = ''a.txt'', q_escaped_path = ''a.txt'',
     q_query = [], q_headers = [], q_content_type = [], q_content_length = 0, q_body = ([], None), q_user_id = [], q_roles = []\<rparr>"

definition demo_proxy_world :: world where
  "demo_proxy_world = demo_world\<lparr>w_repos := [demo_proxy], w_blobs := [demo_store\<lparr>bs_quota_bytes := None\<rparr>],
     w_assets := [demo_asset ''xx'' ''a.txt'']\<rparr>"

lemma demo_proxy_db_ok: "db_ok demo_proxy_world"
  using demo_world_db_ok by (simp add: db_ok_def demo_proxy_world_def demo_world_def demo_proxy_def)

lemma demo_proxy_store: "resolveBlobStoreObj demo_proxy_world demo_proxy n = Inr (demo_store\<lparr>bs_quota_bytes := None\<rparr>)"
proof -
  have "trim_space ''b1'' = ''b1''" by code_simp
  then show ?thesis
    by (simp add: resolveBlobStoreObj_def demo_proxy_world_def demo_world_def demo_repo_def demo_proxy_def blobs_get_by_id_def
        guard_io_def row_or_not_found_def demo_store_def)
qed

lemma demo_fetch: "hs_status r \<noteq> 401 \<Longrightarrow>
    fetchUpstreamWithDockerHubAuth (demo_upstream (Inr r)) demo_proxy (ClientFor (demo_upstream (Inr r)) demo_proxy) m u b hs = Inr r"
  "fetchUpstreamWithDockerHubAuth (demo_upstream (Inl e)) demo_proxy (ClientFor (demo_upstream (Inl e)) demo_proxy) m u b hs = Inl e"
proof -
  have "repoProxySettings (demo_upstream x) demo_proxy = no_proxy_settings" for x
    by (simp add: repoProxySettings_def demo_upstream_def demo_proxy_def demo_repo_def cfgString_def cfg_get_def no_proxy_settings_def)
  then have "ClientFor (demo_upstream x) demo_proxy = (\<lambda>_ _. x)" for x by (simp add: ClientFor_def) (simp add: demo_upstream_def)
  then show "hs_status r \<noteq> 401 \<Longrightarrow>
      fetchUpstreamWithDockerHubAuth (demo_upstream (Inr r)) demo_proxy (ClientFor (demo_upstream (Inr r)) demo_proxy) m u b hs = Inr r"
    "fetchUpstreamWithDockerHubAuth (demo_upstream (Inl e)) demo_proxy (ClientFor (demo_upstream (Inl e)) demo_proxy) m u b hs = Inl e"
    by (simp_all add: fetchUpstreamWithDockerHubAuth_def)
qed

theorem miss_then_hit_witness:
  "\<exists>w' sv a. ServeGET (demo_upstream (Inr (demo_response ''new''))) demo_deps demo_proxy_world demo_get_request demo_proxy ''c.txt'' [] demo_coords [] 0 = (w', sv) \<and>
     ServeGET (demo_upstream (Inl ErrIO)) demo_deps w' demo_get_request demo_proxy ''c.txt'' [] demo_coords [] 0 =
       (count_download demo_deps w' demo_get_request (a_id a), written (cached_reply a ''new''))"
proof -
  let ?net = "demo_upstream (Inr (demo_response ''new''))"
  obtain w' sv where s: "ServeGET ?net demo_deps demo_proxy_world demo_get_request demo_proxy ''c.txt'' [] demo_coords [] 0 = (w', sv)" by force
  have miss: "assets_get_by_path demo_proxy_world (r_name demo_proxy) ''c.txt'' 207 = Inl ErrNotFound" by code_simp
  have "upstream_of ?net demo_proxy ''c.txt'' = Inr (''http://up'', ''http://up/c.txt'')" by code_simp
  then have up: "upstream_of ?net demo_proxy (if [] = ([] :: string) then ''c.txt'' else []) = Inr (''http://up'', ''http://up/c.txt'')" by simp
  have h: "w_fault demo_proxy_world = no_faults" "demo_proxy \<in> set (w_repos demo_proxy_world)" "r_type demo_proxy = ''proxy''"
    "r_quota_bytes demo_proxy = None" "bs_type (demo_store\<lparr>bs_quota_bytes := None\<rparr>) \<noteq> ''group''"
    "bs_quota_bytes (demo_store\<lparr>bs_quota_bytes := None\<rparr>) = None" "demo_store\<lparr>bs_quota_bytes := None\<rparr> \<in> set (w_blobs demo_proxy_world)"
    "bs_id (demo_store\<lparr>bs_quota_bytes := None\<rparr>) \<noteq> []" "bs_name (demo_store\<lparr>bs_quota_bytes := None\<rparr>) \<noteq> []"
    "q_method demo_get_request = ''GET''"
    by (simp_all add: demo_proxy_world_def demo_world_def demo_proxy_def demo_repo_def demo_store_def demo_get_request_def)
  have r: "hs_status (demo_response ''new'') \<noteq> 401" "200 \<le> hs_status (demo_response ''new'')" "hs_status (demo_response ''new'') \<le> 299"
    "snd (hs_body (demo_response ''new'')) = None" "read_all (hs_body (demo_response ''new'')) = ''new''"
    by (simp_all add: demo_response_def read_all_def)
  from miss_then_hit[OF demo_proxy_db_ok h(1-4) demo_proxy_store h(5-10) miss up demo_fetch(1)[OF r(1)] r(2-4) s] s
  show ?thesis unfolding r(5) by blast
qed

theorem proxy_request_confined_witness:
  "\<exists>w' sv. ServeGET (demo_upstream (Inr (demo_response ''new''))) demo_deps demo_proxy_world demo_get_request demo_proxy ''c.txt'' [] demo_coords [] 0 = (w', sv) \<and>
     demo_asset ''xx'' ''a.txt'' \<in> set (w_assets w')"
proof -
  obtain w' sv where s: "ServeGET (demo_upstream (Inr (demo_response ''new''))) demo_deps demo_proxy_world demo_get_request demo_proxy ''c.txt'' [] demo_coords [] 0 = (w', sv)" by force
  from proxy_request_confined[OF demo_proxy_db_ok _ s[unfolded ServeGET_def]] show ?thesis using s
    by (auto simp: demo_proxy_world_def demo_asset_def new_asset_def)
qed

theorem stale_copy_survives_upstream_witness:
  "\<exists>w' r. ServeGET (demo_upstream (Inl ErrIO)) demo_deps demo_proxy_world demo_get_request demo_proxy ''a.txt'' [] demo_coords [] 1 =
     (w', \<lparr>sv_reply = Some r, sv_error = None\<rparr>) \<and> h_body r = Bytes ''abc''"
proof -
  obtain w' sv where s: "ServeGET (demo_upstream (Inl ErrIO)) demo_deps demo_proxy_world demo_get_request demo_proxy ''a.txt'' [] demo_coords [] 1 = (w', sv)" by force
  have found: "assets_get_by_path demo_proxy_world (r_name demo_proxy) ''a.txt'' 207 = Inr (scan_asset demo_proxy_world (demo_asset ''xx'' ''a.txt''))"
    "store_get demo_proxy_world (pinned_store demo_deps demo_proxy_world (a_blob_store_id (scan_asset demo_proxy_world (demo_asset ''xx'' ''a.txt''))) 208)
       (a_blob_key (scan_asset demo_proxy_world (demo_asset ''xx'' ''a.txt''))) 208 = Inr ''abc''"
    by code_simp+
  have "r_type demo_proxy = ''proxy''" "q_method demo_get_request = ''GET''" by (simp_all add: demo_proxy_def demo_get_request_def)
  from stale_copy_survives_upstream[OF this found _ s] s show ?thesis unfolding demo_fetch by auto
qed

section \<open>A refresh over the quota\<close>

text \<open>
  When upstream does not declare a length, the quota is checked after the new bytes are in the
  store. If they exceed it, the code keeps them because a row names their key: the row of the old
  copy then describes the new bytes, and a hit sends them under the old checksum and length.
\<close>

lemma overquota_refresh_corrupts:
  "let w = demo_proxy_world\<lparr>w_repos := [demo_proxy\<lparr>r_quota_bytes := Some 10\<rparr>]\<rparr>; repo = demo_proxy\<lparr>r_quota_bytes := Some 10\<rparr>;
       (w1, s1) = ServeGET (demo_upstream (Inr (demo_response ''0123456789''))) demo_deps w demo_get_request repo ''a.txt'' [] demo_coords [] 50;
       (w2, s2) = ServeGET (demo_upstream (Inl ErrIO)) demo_deps w1 demo_get_request repo ''a.txt'' [] demo_coords [] 0
   in map_option h_body (sv_reply s1) = Some (Bytes ''0123456789'') \<and>
      map_option h_body (sv_reply s2) = Some (Bytes ''0123456789'') \<and>
      map_option (\<lambda>r. (hdr_get (h_headers r) ''X-Checksum-SHA256'', hdr_get (h_headers r) ''Content-Length'')) (sv_reply s2) =
        Some (''abc'', ''3'')"
  by code_simp

end
