(* ===== verification/OCI_Proxy.thy ===== *)
theory OCI_Proxy
  imports OCI_Content Repo_Proxy
begin

text \<open>
  The registry's proxy repositories: what becomes of the requests \<^verbatim>\<open>handler.go\<close> passes on to
  \<^verbatim>\<open>repoproxy\<close>, and the referrers of a proxied image (\<^verbatim>\<open>referrers.go\<close> of \<^verbatim>\<open>internal/formats/oci\<close>).
\<close>

section \<open>Manifests and blobs\<close>

text \<open>
  What the client sees when \<^verbatim>\<open>ServeGET\<close> returned: its reply, or, when it failed before it wrote one, an
  error of the registry. A failure after the status went out cannot change it.
\<close>

definition after_serve :: "served \<Rightarrow> reply" where
  "after_serve sv = (case sv_reply sv of Some r \<Rightarrow> r | None \<Rightarrow> dockerError 502 ''UNKNOWN'')"

text \<open>The proxy branches of \<^verbatim>\<open>handleManifests\<close> and \<^verbatim>\<open>handleBlobs\<close>.\<close>

definition proxyManifest ::
    "oci_handler \<Rightarrow> network \<Rightarrow> world \<Rightarrow> gin_request \<Rightarrow> repository \<Rightarrow> string \<Rightarrow> string \<Rightarrow> coords \<Rightarrow> string \<Rightarrow> bool \<Rightarrow> world \<times> reply" where
  "proxyManifest h net w q repo cachePath upPath co ct ages =
     (case ServeGET net (oh_deps h) w q repo cachePath upPath co ct (if ages then MetadataMaxAge net (Some repo) else 0) of
        (w', sv) \<Rightarrow>
          (if sv_error sv = None then recordCachedManifestMeta h w' repo cachePath else w', after_serve sv))"

definition proxyBlob ::
    "oci_handler \<Rightarrow> network \<Rightarrow> world \<Rightarrow> gin_request \<Rightarrow> repository \<Rightarrow> string \<Rightarrow> string \<Rightarrow> coords \<Rightarrow> string \<Rightarrow> world \<times> reply" where
  "proxyBlob h net w q repo cachePath upPath co ct =
     (case ServeGET net (oh_deps h) w q repo cachePath upPath co ct 0 of (w', sv) \<Rightarrow> (w', after_serve sv))"

section \<open>Referrers from upstream\<close>

definition mediaTypeImageIndex :: string where
  "mediaTypeImageIndex = ''application/vnd.oci.image.index.v1+json''"

definition maxReferrersBytes :: nat where
  "maxReferrersBytes = 16777216"

definition referrersPath :: "string \<Rightarrow> string \<Rightarrow> string" where
  "referrersPath imageName subj = ''/referrers/'' @ imageName @ ''/'' @ subj"

text \<open>
  \<open>dec\<close> decodes an image index: \<open>None\<close> is not JSON of that shape, \<open>Some None\<close> has no \<^verbatim>\<open>manifests\<close>,
  otherwise the raw text of each entry.
\<close>

definition looksLikeIndex :: "(string \<Rightarrow> string list option option) \<Rightarrow> string \<Rightarrow> bool" where
  "looksLikeIndex dec body = (case dec body of Some (Some _) \<Rightarrow> True | _ \<Rightarrow> False)"

definition upstreamQuery :: "gin_request \<Rightarrow> string" where
  "upstreamQuery q =
     (let t = query_get (q_query q) ''artifactType'' in if t = [] then [] else ''artifactType='' @ QueryEscape t)"

definition emptyIndex :: reply where
  "emptyIndex = \<lparr>h_status = 200, h_headers = [(''Content-Type'', mediaTypeImageIndex)], h_body = Image_Index []\<rparr>"

definition upstreamUnusable :: "oci_handler \<Rightarrow> world \<Rightarrow> repository \<Rightarrow> string \<Rightarrow> string \<Rightarrow> world \<times> reply" where
  "upstreamUnusable h w repo repoPath code =
     (DispatchProxyError (oh_deps h) w (r_name repo) repoPath, dockerError 502 code)"

definition upstreamRefused :: "oci_handler \<Rightarrow> world \<Rightarrow> repository \<Rightarrow> string \<Rightarrow> nat \<Rightarrow> world \<times> reply" where
  "upstreamRefused h w repo repoPath status =
     upstreamUnusable h w repo repoPath (if status = 403 then ''DENIED'' else ''UNAUTHORIZED'')"

definition relay_index ::
    "oci_handler \<Rightarrow> (string \<Rightarrow> string list option option) \<Rightarrow> world \<Rightarrow> repository \<Rightarrow> string \<Rightarrow> http_response \<Rightarrow> world \<times> reply" where
  "relay_index h dec w repo repoPath resp =
     (let body = limit_reader (Suc maxReferrersBytes) (hs_body resp); applied = hdr_get (hs_headers resp) ''OCI-Filters-Applied'' in
      if snd body \<noteq> None then upstreamUnusable h w repo repoPath ''UNKNOWN''
      else if length (read_all body) > maxReferrersBytes then upstreamUnusable h w repo repoPath ''TOOBIG''
      else if \<not> looksLikeIndex dec (read_all body) then upstreamUnusable h w repo repoPath ''UNKNOWN''
      else (w, \<lparr>h_status = 200, h_headers = (if applied \<noteq> [] then [(''OCI-Filters-Applied'', applied)] else []) @
             [(''Content-Type'', mediaTypeImageIndex)], h_body = Bytes (read_all body)\<rparr>))"

definition proxyReferrers ::
    "oci_handler \<Rightarrow> network \<Rightarrow> (string \<Rightarrow> string list option option) \<Rightarrow> world \<Rightarrow> gin_request \<Rightarrow> repository \<Rightarrow>
     string \<Rightarrow> string \<Rightarrow> world \<times> reply" where
  "proxyReferrers h net dec w q repo imageName subj =
     (let repoPath = referrersPath imageName subj in
      case FetchUpstreamOnce net repo (''/v2/'' @ imageName @ ''/referrers/'' @ subj) (upstreamQuery q) [(''Accept'', mediaTypeImageIndex)] of
        Inl _ \<Rightarrow> upstreamUnusable h w repo repoPath ''UNKNOWN''
      | Inr resp \<Rightarrow>
          (let s = hs_status resp in
           if s = 200 then relay_index h dec w repo repoPath resp
           else if s = 404 \<or> s = 405 \<or> s = 501 then (w, emptyIndex)
           else if s = 401 \<or> s = 403 then upstreamRefused h w repo repoPath s
           else upstreamUnusable h w repo repoPath (if s = 429 then ''TOOMANYREQUESTS'' else ''UNKNOWN'')))"

section \<open>Whole requests\<close>

text \<open>
  The reply to a request, of a hosted or a proxy repository. The repository row is read once per
  request; reading it again at the same site gives the same row.
\<close>

definition finish_request ::
    "oci_handler \<Rightarrow> network \<Rightarrow> (string \<Rightarrow> string list option option) \<Rightarrow> world \<Rightarrow> gin_request \<Rightarrow> outcome \<Rightarrow> world \<times> reply" where
  "finish_request h net dec w q out =
     (case out of
        Answer r \<Rightarrow> (w, r)
      | Upstream cachePath upPath co ct ages \<Rightarrow>
          if has_prefix cachePath ''/manifests/'' then
            (case repo_or_none w (q_repo q) 60 of
               Some repo \<Rightarrow> proxyManifest h net w q repo cachePath upPath co ct ages
             | None \<Rightarrow> (w, dockerError 502 ''UNKNOWN''))
          else
            (case repo_or_none w (q_repo q) 70 of
               Some repo \<Rightarrow> proxyBlob h net w q repo cachePath upPath co ct
             | None \<Rightarrow> (w, dockerError 502 ''UNKNOWN''))
      | Upstream_Referrers imageName subj \<Rightarrow>
          (case repo_or_none w (q_repo q) 53 of
             Some repo \<Rightarrow> proxyReferrers h net dec w q repo imageName subj
           | None \<Rightarrow> (w, dockerError 502 ''UNKNOWN'')))"

definition serve_oci ::
    "oci_handler \<Rightarrow> network \<Rightarrow> (string \<Rightarrow> string list option option) \<Rightarrow> world \<Rightarrow> gin_request \<Rightarrow> (world \<times> reply) option" where
  "serve_oci h net dec w q = map_option (\<lambda>(w', out). finish_request h net dec w' q out) (ServeHTTP h w q)"

section \<open>What a referrers answer means\<close>

text \<open>
  C18. An empty list of referrers is never a failure to look: a proxied referrers request is
  answered with 200 only when upstream sent an image index, which the client then gets byte for
  byte and whole, or when upstream says it has no such endpoint; in every other case the answer is
  a 502 and the failure is reported.
\<close>

theorem proxied_referrers_honest:
  assumes "proxyReferrers h net dec w q repo imageName subj = (w', r)"
  shows "(\<exists>resp. FetchUpstreamOnce net repo (''/v2/'' @ imageName @ ''/referrers/'' @ subj) (upstreamQuery q) [(''Accept'', mediaTypeImageIndex)] = Inr resp \<and>
      (hs_status resp = 200 \<and> length (read_all (hs_body resp)) \<le> maxReferrersBytes \<and> snd (hs_body resp) = None \<and>
         looksLikeIndex dec (read_all (hs_body resp)) \<and> h_status r = 200 \<and> h_body r = Bytes (read_all (hs_body resp)) \<or>
       hs_status resp \<in> {404, 405, 501} \<and> r = emptyIndex) \<and> w' = w) \<or>
    h_status r = 502 \<and> w' = DispatchProxyError (oh_deps h) w (r_name repo) (referrersPath imageName subj)"
proof (cases "FetchUpstreamOnce net repo (''/v2/'' @ imageName @ ''/referrers/'' @ subj) (upstreamQuery q) [(''Accept'', mediaTypeImageIndex)]")
  case (Inl e)
  with assms show ?thesis by (auto simp: proxyReferrers_def Let_def upstreamUnusable_def)
next
  case (Inr resp)
  show ?thesis
  proof (cases "hs_status resp = 200")
    case True
    let ?p = "referrersPath imageName subj" and ?body = "limit_reader (Suc maxReferrersBytes) (hs_body resp)"
    have relay: "relay_index h dec w repo ?p resp = (w', r)" using assms Inr True by (simp add: proxyReferrers_def)
    show ?thesis
    proof (cases "snd ?body \<noteq> None \<or> length (read_all ?body) > maxReferrersBytes \<or> \<not> looksLikeIndex dec (read_all ?body)")
      case True
      with relay show ?thesis by (auto simp: relay_index_def Let_def upstreamUnusable_def split: if_splits)
    next
      case False
      then have whole: "length (read_all (hs_body resp)) \<le> maxReferrersBytes" by (simp add: read_all_limit)
      then have "read_all ?body = read_all (hs_body resp)" by (simp add: read_all_limit)
      moreover have "snd (hs_body resp) = None" using False whole by (simp add: limit_reader_def split: if_splits)
      ultimately show ?thesis using relay False whole True Inr by (auto simp: relay_index_def Let_def)
    qed
  next
    case False
    with assms Inr show ?thesis
      by (auto simp: proxyReferrers_def Let_def upstreamUnusable_def upstreamRefused_def split: if_splits)
  qed
qed

theorem proxied_referrers_honest_witness:
  "h_status (snd (proxyReferrers demo_oci (demo_upstream (Inl ErrIO)) (\<lambda>_. None) demo_registry (demo_get []) demo_proxy ''app'' ''sha256:41'')) = 502"
proof -
  obtain w' r where s: "proxyReferrers demo_oci (demo_upstream (Inl ErrIO)) (\<lambda>_. None) demo_registry (demo_get []) demo_proxy ''app'' ''sha256:41'' = (w', r)" by force
  have "upstream_of (demo_upstream (Inl ErrIO)) demo_proxy (''/v2/'' @ ''app'' @ ''/referrers/'' @ ''sha256:41'') = Inr (''http://up'', ''http://up/v2/app/referrers/sha256:41'')"
    by code_simp
  then have "\<exists>e. FetchUpstreamOnce (demo_upstream (Inl ErrIO)) demo_proxy (''/v2/'' @ ''app'' @ ''/referrers/'' @ ''sha256:41'')
      (upstreamQuery (demo_get [])) [(''Accept'', mediaTypeImageIndex)] = Inl e"
    by (auto simp: FetchUpstreamOnce_def upstream_of_def demo_fetch split: sum.splits)
  with proxied_referrers_honest[OF s] s show ?thesis by auto
qed

section \<open>A blob upstream did not have\<close>

definition demo_mirror :: world where
  "demo_mirror = demo_registry\<lparr>w_repos := [demo_docker\<lparr>r_type := ''proxy'', r_proxy_config := [(''remote_url'', AnyStr ''http://up'')]\<rparr>]\<rparr>"

text \<open>
  A proxy repository takes upstream's word for a blob: the bytes are not compared with the digest
  they were asked for. One wrong answer, such as the page of a captive portal, is cached under the
  digest, and every later pull returns it, also when upstream would answer rightly again.
\<close>

lemma unverified_blob_is_cached:
  "case serve_oci demo_oci (demo_upstream (Inr (demo_response ''<html>''))) (\<lambda>_. None) demo_mirror (demo_get ''/v2/app/blobs/sha256:686921'') of
     Some (w1, r1) \<Rightarrow> h_status r1 = 200 \<and> h_body r1 = Bytes ''<html>'' \<and> demo_hash ''<html>'' \<noteq> ''686921'' \<and>
       (case serve_oci demo_oci (demo_upstream (Inr (demo_response ''hi!''))) (\<lambda>_. None) w1 (demo_get ''/v2/app/blobs/sha256:686921'') of
          Some (w2, r2) \<Rightarrow> h_status r2 = 200 \<and> h_body r2 = Bytes ''<html>''
        | None \<Rightarrow> False)
   | None \<Rightarrow> False"
  by code_simp

end
