(* ===== verification/OCI_Group.thy ===== *)
theory OCI_Group
  imports Group_Repo OCI_Proxy
begin

text \<open>
  The index documents an OCI group merges, after \<^verbatim>\<open>internal/formats/oci/groupindex.go\<close>: the referrers
  index, the tag list and the catalog. The OCI handler is the \<open>format_handler\<close> whose merger this is.
\<close>

section \<open>Which document\<close>

datatype ociIndexKind = indexNone | indexReferrers | indexTags | indexCatalog

definition paginated :: "ociIndexKind \<Rightarrow> bool" where
  "paginated k \<longleftrightarrow> k = indexTags \<or> k = indexCatalog"

definition jsonListContentType :: string where
  "jsonListContentType = ''application/json; charset=utf-8''"

definition groupIndexKind :: "string \<Rightarrow> ociIndexKind \<times> string" where
  "groupIndexKind p =
     (let norm = normPath p; rest = trim_prefix norm ''/v2/'' in
      if rest = norm then (indexNone, [])
      else if rest = ''_catalog'' then (indexCatalog, [])
      else (let parts = split_on slash rest in
        if length parts < 2 then (indexNone, [])
        else if endsWithSegments parts [''tags'', ''list''] then
          (if length parts = 2 then (indexNone, []) else (indexTags, join_with ''/'' (take (length parts - 2) parts)))
        else if referrersIndex parts \<noteq> None then (indexReferrers, []) else (indexNone, [])))"

definition GroupIndexSourcePath :: "string \<Rightarrow> string option" where
  "GroupIndexSourcePath p = (if fst (groupIndexKind p) = indexNone then None else Some p)"

section \<open>JSON\<close>

text \<open>
  What the code has \<^verbatim>\<open>encoding/json\<close> do: read the list document (name, tags, repositories), the
  entries of an index as raw text, the digest of an entry; write the merged documents and the
  replies. A member's \<^verbatim>\<open>digest\<close> that is absent reads as the empty string.
\<close>

record json_codec =
  jc_lists :: "string \<Rightarrow> (string \<times> string list \<times> string list) option"
  jc_index :: "string \<Rightarrow> string list option option"
  jc_digest :: "string \<Rightarrow> string option"
  jc_write_index :: "string list \<Rightarrow> string"
  jc_write_tags :: "string \<Rightarrow> string list \<Rightarrow> string"
  jc_write_repos :: "string list \<Rightarrow> string"
  jc_reply :: "reply_body \<Rightarrow> string"

definition body_bytes :: "json_codec \<Rightarrow> reply_body \<Rightarrow> string" where
  "body_bytes c b = (case b of No_Body \<Rightarrow> [] | Bytes s \<Rightarrow> s | _ \<Rightarrow> jc_reply c b)"

section \<open>Merging\<close>

text \<open>The entries of one member not seen before, with the digests seen after it.\<close>

fun add_descriptors :: "json_codec \<Rightarrow> string list \<Rightarrow> string list \<Rightarrow> (string list \<times> string list) result" where
  "add_descriptors c seen [] = Inr (seen, [])"
| "add_descriptors c seen (raw # raws) =
     (case jc_digest c raw of
        None \<Rightarrow> Inl (ErrMsg ''referrer with no readable digest'')
      | Some d \<Rightarrow>
          if d = [] then Inl (ErrMsg ''referrer with no readable digest'')
          else if d \<in> set seen then add_descriptors c seen raws
          else (case add_descriptors c (d # seen) raws of
              Inl e \<Rightarrow> Inl e
            | Inr (seen', kept) \<Rightarrow> Inr (seen', raw # kept)))"

fun merge_indexes :: "json_codec \<Rightarrow> string list \<Rightarrow> index_part list \<Rightarrow> string list result" where
  "merge_indexes c seen [] = Inr []"
| "merge_indexes c seen (part # parts) =
     (case jc_index c (ip_body part) of
        None \<Rightarrow> Inl (ErrMsg ''member did not answer with an image index'')
      | Some raws \<Rightarrow>
          (case add_descriptors c seen (case raws of None \<Rightarrow> [] | Some rs \<Rightarrow> rs) of
             Inl e \<Rightarrow> Inl e
           | Inr (seen', kept) \<Rightarrow>
               (case merge_indexes c seen' parts of Inl e \<Rightarrow> Inl e | Inr rest \<Rightarrow> Inr (kept @ rest))))"

definition mergeReferrers :: "json_codec \<Rightarrow> index_part list \<Rightarrow> (string \<times> string) result" where
  "mergeReferrers c parts =
     (case merge_indexes c [] parts of
        Inl e \<Rightarrow> Inl e
      | Inr raws \<Rightarrow> Inr (jc_write_index c raws, mediaTypeImageIndex))"

definition add_new :: "string list \<Rightarrow> string \<Rightarrow> string list" where
  "add_new merged e = (if e \<in> set merged then merged else merged @ [e])"

fun union_lists ::
    "json_codec \<Rightarrow> (string \<times> string list \<times> string list \<Rightarrow> string list) \<Rightarrow> string list \<Rightarrow> index_part list \<Rightarrow> string list result" where
  "union_lists c pick merged [] = Inr merged"
| "union_lists c pick merged (part # parts) =
     (case jc_lists c (ip_body part) of
        None \<Rightarrow> Inl (ErrMsg ''member did not answer with a list'')
      | Some doc \<Rightarrow> union_lists c pick (foldl add_new merged (pick doc)) parts)"

definition mergeStringLists ::
    "json_codec \<Rightarrow> index_part list \<Rightarrow> (string \<times> string list \<times> string list \<Rightarrow> string list) \<Rightarrow> string list result" where
  "mergeStringLists c parts pick = (case union_lists c pick [] parts of Inl e \<Rightarrow> Inl e | Inr merged \<Rightarrow> Inr (sort merged))"

definition mergeTagLists :: "json_codec \<Rightarrow> string \<Rightarrow> index_part list \<Rightarrow> (string \<times> string) result" where
  "mergeTagLists c imageName parts =
     (case mergeStringLists c parts (\<lambda>doc. fst (snd doc)) of
        Inl e \<Rightarrow> Inl e
      | Inr tags \<Rightarrow> Inr (jc_write_tags c imageName tags, jsonListContentType))"

definition mergeCatalogs :: "json_codec \<Rightarrow> index_part list \<Rightarrow> (string \<times> string) result" where
  "mergeCatalogs c parts =
     (case mergeStringLists c parts (\<lambda>doc. snd (snd doc)) of
        Inl e \<Rightarrow> Inl e
      | Inr repos \<Rightarrow> Inr (jc_write_repos c repos, jsonListContentType))"

definition MergeGroupIndex :: "json_codec \<Rightarrow> string \<Rightarrow> index_part list \<Rightarrow> (string \<times> string) result" where
  "MergeGroupIndex c p parts =
     (case groupIndexKind p of (kind, imageName) \<Rightarrow>
        (case kind of
           indexReferrers \<Rightarrow> mergeReferrers c parts
         | indexTags \<Rightarrow> mergeTagLists c imageName parts
         | indexCatalog \<Rightarrow> mergeCatalogs c parts
         | indexNone \<Rightarrow> Inl (ErrMsg ''not a mergeable OCI index'')))"

definition GroupIndexMemberFailureIsFatal :: "string \<Rightarrow> nat \<Rightarrow> bool" where
  "GroupIndexMemberFailureIsFatal p status \<longleftrightarrow> GroupIndexSourcePath p \<noteq> None \<and> status \<noteq> 404"

section \<open>Paging\<close>

text \<open>\<^verbatim>\<open>url.ParseQuery\<close> with its error, and \<^verbatim>\<open>Values.Encode\<close>, which sorts by key.\<close>

definition parse_query_strict :: "string \<Rightarrow> (string \<times> string) list option" where
  "parse_query_strict s =
     (if \<exists>kv \<in> set (split_on (CHR ''&'') s). kv \<noteq> [] \<and> parse_pair kv = None then None else Some (ParseQuery s))"

definition query_encode :: "(string \<times> string) list \<Rightarrow> string" where
  "query_encode kvs = join_with ''&'' (map (\<lambda>(k, v). QueryEscape k @ ''='' @ QueryEscape v) (sort_key fst kvs))"

definition GroupIndexMemberQuery :: "string \<Rightarrow> string \<Rightarrow> string" where
  "GroupIndexMemberQuery p clientQuery =
     (if \<not> paginated (fst (groupIndexKind p)) then clientQuery
      else (case parse_query_strict clientQuery of
          None \<Rightarrow> []
        | Some kvs \<Rightarrow> query_encode (filter (\<lambda>kv. fst kv \<noteq> ''n'' \<and> fst kv \<noteq> ''last'') kvs)))"

definition pageMergedList :: "gin_request \<Rightarrow> string list \<Rightarrow> (string \<times> string) list \<times> string list" where
  "pageMergedList q entries =
     (let p = ParsePageParams (q_query q); (page, more_left) = Paginate entries p
      in (SetNextLink (q_escaped_path q) p page more_left, page))"

definition PageGroupIndex :: "json_codec \<Rightarrow> gin_request \<Rightarrow> string \<Rightarrow> string \<Rightarrow> ((string \<times> string) list \<times> string) result" where
  "PageGroupIndex c q p merged =
     (let kind = fst (groupIndexKind p) in
      if \<not> paginated kind then Inr ([], merged)
      else (case jc_lists c merged of
          None \<Rightarrow> Inl (ErrMsg ''the merged list could not be paginated'')
        | Some (name, tags, repos) \<Rightarrow>
            if kind = indexCatalog then (case pageMergedList q repos of (hs, page) \<Rightarrow> Inr (hs, jc_write_repos c page))
            else (case pageMergedList q tags of (hs, page) \<Rightarrow> Inr (hs, jc_write_tags c name page))))"

section \<open>The handler of a group's members\<close>

definition oci_merger :: "json_codec \<Rightarrow> index_merger" where
  "oci_merger c = \<lparr>im_source = GroupIndexSourcePath, im_merge = (\<lambda>_. MergeGroupIndex c), im_dependent = None,
     im_strict = Some GroupIndexMemberFailureIsFatal,
     im_pager = Some \<lparr>pg_member_query = GroupIndexMemberQuery, pg_page = PageGroupIndex c\<rparr>\<rparr>"

text \<open>A request is always answered (\<open>serve_oci_answers\<close>), so the last branch is never taken.\<close>

definition oci_format :: "oci_handler \<Rightarrow> network \<Rightarrow> json_codec \<Rightarrow> format_handler" where
  "oci_format oh net c =
     \<lparr>fh_serve = (\<lambda>w q. case serve_oci oh net (jc_index c) w q of
          Some (w', r) \<Rightarrow> (w', \<lparr>mr_code = h_status r, mr_headers = h_headers r, mr_body = body_bytes c (h_body r)\<rparr>)
        | None \<Rightarrow> (w, \<lparr>mr_code = 0, mr_headers = [], mr_body = []\<rparr>)),
      fh_merger = Some (oci_merger c)\<rparr>"

interpretation oci: strict_merger "oci_merger c" GroupIndexMemberFailureIsFatal for c
  by unfold_locales (auto simp: oci_merger_def GroupIndexMemberFailureIsFatal_def GroupIndexSourcePath_def split: if_splits)

section \<open>The classification is the routing\<close>

lemma clean_segments_set: "\<lbrakk>s \<in> set (clean_segments st ss); [] \<notin> set st\<rbrakk> \<Longrightarrow> s \<noteq> [] \<and> (s \<in> set st \<or> s \<in> set ss)"
proof (induction st ss rule: clean_segments.induct)
  case (2 st s' ss)
  have "[] \<notin> set (tl st)" using 2(5) by (cases st) auto
  moreover have "set (tl st) \<subseteq> set st" by (cases st) auto
  ultimately show ?case using 2 by (auto split: if_splits)
qed auto

lemma normPath_segments:
  assumes "normPath p = ''/v2/'' @ rest"
  shows "[] \<notin> set (split_on slash rest)"
proof -
  define segs where "segs = rev (clean_segments [] (split_on slash (''/'' @ trim_prefix p ''/'')))"
  have segs: "\<forall>s \<in> set segs. s \<noteq> [] \<and> slash \<notin> set s"
    using clean_segments_set split_on_no_sep unfolding segs_def by fastforce
  have n: "slash # join_with [slash] segs = slash # ''v2'' @ slash # rest"
    using assms by (simp add: normPath_def segs_def)
  then have "segs \<noteq> []" by auto
  then have "segs = split_on slash (''v2'' @ slash # rest)" using split_join[of segs slash] segs n by auto
  moreover have "split_on slash (''v2'' @ slash # rest) = ''v2'' # split_on slash rest" by (rule split_on_append) simp
  ultimately show ?thesis using segs by auto
qed

lemma split_on_middle: "split_on d (s @ d # t) = split_on d s @ split_on d t"
proof (induction s)
  case (Cons a s)
  then show ?case by (cases "split_on d s") auto
qed simp

lemma after_last_slash: "last_index_str t [d] = Some i \<Longrightarrow> d \<notin> set (drop (Suc i) t)"
proof
  assume l: "last_index_str t [d] = Some i" and "d \<in> set (drop (Suc i) t)"
  then obtain j where "j < length (drop (Suc i) t)" "drop (Suc i) t ! j = d" by (meson in_set_conv_nth)
  then have j: "Suc i + j < length t" "t ! (Suc i + j) = d" by auto
  then have "has_prefix (drop (Suc i + j) t) [d]" using Cons_nth_drop_Suc[OF j(1)] by (metis append_Cons append_Nil has_prefix_iff)
  with last_index_str_last[OF l, of "Suc i + j"] j(1) show False by simp
qed

lemma asset_path_parts:
  assumes "restFromAssetPath p = Some rest"
  shows "\<exists>pre kind x. split_on slash rest = pre @ [kind, x] \<and> pre \<noteq> [] \<and> kind \<in> {''blobs'', ''manifests''}"
proof -
  have conv: "\<exists>pre x. split_on slash (take i t @ slash # k @ slash # drop (Suc i) t) = pre @ [k, x] \<and> pre \<noteq> []"
    if "last_index_str t [slash] = Some i" "slash \<notin> set k" for t i k
    using after_last_slash[OF that(1)] split_on_append[OF that(2)] by (auto simp: split_on_middle)
  have parts: "\<exists>i. last_index_str (trim_prefix p (''/'' @ k @ ''/'')) [slash] = Some i \<and>
      rest = take i (trim_prefix p (''/'' @ k @ ''/'')) @ slash # k @ slash # drop (Suc i) (trim_prefix p (''/'' @ k @ ''/''))"
    if "k = ''blobs'' \<and> has_prefix p ''/blobs/'' \<or> k = ''manifests'' \<and> \<not> has_prefix p ''/blobs/''" for k
    using assms that by (auto simp: restFromAssetPath_def Let_def split: if_splits option.splits)
  obtain k where k: "k = ''blobs'' \<and> has_prefix p ''/blobs/'' \<or> k = ''manifests'' \<and> \<not> has_prefix p ''/blobs/''" by blast
  then have "slash \<notin> set k" by auto
  with parts[OF k] conv[of _ _ k] k show ?thesis by blast
qed

text \<open>
  A path is merged as the document the member handler would have produced for it, never as some
  other one: the classification of index paths agrees with the routing of the registry on every
  path, the imageless tag list apart, which the registry refuses.
\<close>

lemma index_kind_route:
  "groupIndexKind p = (case route_of p of
     Catalog \<Rightarrow> (indexCatalog, [])
   | Tags imageName \<Rightarrow> if imageName = [] then (indexNone, []) else (indexTags, imageName)
   | Referrers imageName subj \<Rightarrow> (indexReferrers, [])
   | _ \<Rightarrow> (indexNone, []))"
proof (cases "has_prefix (normPath p) ''/v2/''")
  case True
  then obtain rest where n: "normPath p = ''/v2/'' @ rest" by (auto simp: has_prefix_iff)
  have t: "trim_prefix (normPath p) ''/v2/'' = rest" "rest \<noteq> normPath p" by (simp_all add: n trim_prefix_def has_prefix_def)
  note segs = normPath_segments[OF n]
  then have "rest \<noteq> []" by auto
  then have r: "route_of p = (if rest = ''_catalog'' then Catalog else route_parts (split_on slash rest))"
    using True t(1) by (simp add: route_of_def Let_def) (use n in auto)
  have image: "join_with ''/'' (take (length parts - 2) parts) \<noteq> []" if "[] \<notin> set parts" "2 < length parts" for parts
  proof (cases "take (length parts - 2) parts")
    case Nil
    with that(2) show ?thesis by auto
  next
    case (Cons a as)
    then have "a \<in> set parts" by (metis in_set_takeD list.set_intros(1))
    with that(1) Cons show ?thesis by (cases as) auto
  qed
  show ?thesis
    using image[OF segs] by (auto simp: groupIndexKind_def t r route_parts_def Let_def referrersIndex_def endsWithSegments_def split: option.splits)
next
  case False
  then have k: "groupIndexKind p = (indexNone, [])" by (simp add: groupIndexKind_def trim_prefix_def)
  show ?thesis
  proof (cases "restFromAssetPath (normPath p)")
    case None
    with False k show ?thesis by (simp add: route_of_def Let_def)
  next
    case (Some rest)
    obtain pre kind x where ps: "split_on slash rest = pre @ [kind, x]" "pre \<noteq> []" "kind \<in> {''blobs'', ''manifests''}"
      using asset_path_parts[OF Some] by blast
    have "rest \<noteq> ''_catalog''" using ps by auto
    with Some False ps k show ?thesis
      by (auto simp: route_of_def Let_def route_parts_def endsWithSegments_def referrersIndex_def nth_append split: option.splits)
  qed
qed

section \<open>What members are asked\<close>

lemma parse_pair_encoded: "parse_pair (QueryEscape k @ CHR ''='' # QueryEscape v) = Some (k, v)"
proof -
  have "CHR ''='' \<notin> set (QueryEscape k)" "CHR '';'' \<notin> set (QueryEscape k)" "CHR '';'' \<notin> set (QueryEscape v)"
    using QueryEscape_set by blast+
  then show ?thesis by (simp add: parse_pair_def str_cut_at QueryUnescape_Escape)
qed

lemma ParseQuery_encode: "ParseQuery (query_encode kvs) = sort_key fst kvs"
proof (cases "kvs = []")
  case True
  then show ?thesis by (simp add: query_encode_def ParseQuery_def List.map_filter_simps parse_pair_def)
next
  case False
  define ws where "ws = map (\<lambda>(k, v). QueryEscape k @ CHR ''='' # QueryEscape v) (sort_key fst kvs)"
  have "CHR ''&'' \<notin> set w" if "w \<in> set ws" for w
    using that QueryEscape_set[of "CHR ''&''"] by (auto simp: ws_def)
  moreover have "ws \<noteq> []" using False by (metis ws_def length_0_conv length_map length_sort)
  ultimately have "split_on (CHR ''&'') (query_encode kvs) = ws" by (simp add: query_encode_def ws_def[symmetric] split_join)
  moreover have "List.map_filter parse_pair (map (\<lambda>(k, v). QueryEscape k @ CHR ''='' # QueryEscape v) xs) = xs" for xs
    by (induction xs) (auto simp: List.map_filter_simps parse_pair_encoded)
  ultimately show ?thesis by (simp add: ParseQuery_def ws_def)
qed

text \<open>Members of a paginated index are always asked for everything they have.\<close>

lemma member_query_unpaged:
  assumes "paginated (fst (groupIndexKind p))"
  shows "ParsePageParams (ParseQuery (GroupIndexMemberQuery p clientQuery)) = \<lparr>pp_n = 0, pp_last = []\<rparr>"
proof -
  have none: "query_get kvs k = []" if "\<forall>kv \<in> set kvs. fst kv \<noteq> k" for kvs k
    using that by (auto simp: query_get_def split: option.splits dest!: map_of_SomeD)
  have empty: "ParseQuery [] = []" by (simp add: ParseQuery_def List.map_filter_simps parse_pair_def)
  have "\<forall>kv \<in> set (ParseQuery (GroupIndexMemberQuery p clientQuery)). fst kv \<noteq> ''n'' \<and> fst kv \<noteq> ''last''"
  proof (cases "parse_query_strict clientQuery")
    case None
    with assms empty show ?thesis by (simp add: GroupIndexMemberQuery_def)
  next
    case (Some kvs)
    with assms show ?thesis by (simp add: GroupIndexMemberQuery_def ParseQuery_encode)
  qed
  then obtain kvs where "ParseQuery (GroupIndexMemberQuery p clientQuery) = kvs" "\<forall>kv \<in> set kvs. fst kv \<noteq> ''n'' \<and> fst kv \<noteq> ''last''"
    by blast
  with none[of kvs "''n''"] none[of kvs "''last''"] show ?thesis by (simp add: ParsePageParams_def)
qed

section \<open>The tag list of a group\<close>

text \<open>What the code relies on in \<^verbatim>\<open>encoding/json\<close>: an ASCII list document reads back as it was written.\<close>

definition ascii :: "string \<Rightarrow> bool" where
  "ascii s \<longleftrightarrow> (\<forall>ch \<in> set s. (of_char ch :: nat) < 128)"

definition json_tag_lists :: "json_codec \<Rightarrow> bool" where
  "json_tag_lists c \<longleftrightarrow> (\<forall>name ts. ascii name \<and> (\<forall>t \<in> set ts. ascii t) \<longrightarrow>
     jc_lists c (jc_reply c (Tag_List name ts)) = Some (name, ts, []) \<and> jc_lists c (jc_write_tags c name ts) = Some (name, ts, []))"

definition image_tags :: "world \<Rightarrow> string \<Rightarrow> string \<Rightarrow> string set" where
  "image_tags w repoName imageName =
     c_version ` {co \<in> set (w_comps w). comp_in_repos w [repoName] co \<and> c_name co = imageName \<and> CHR '':'' \<notin> set (c_version co)}"

lemma foldl_add_new: "distinct m \<Longrightarrow> distinct (foldl add_new m es) \<and> set (foldl add_new m es) = set m \<union> set es"
  by (induction es arbitrary: m) (auto simp: add_new_def)

text \<open>The union of lists, whatever the members' order.\<close>

lemma union_lists_set:
  assumes "distinct merged" "\<And>part. part \<in> set parts \<Longrightarrow> \<exists>doc. jc_lists c (ip_body part) = Some doc \<and> set (pick doc) = S part"
  shows "\<exists>r. union_lists c pick merged parts = Inr r \<and> distinct r \<and> set r = set merged \<union> (\<Union>part \<in> set parts. S part)"
  using assms
proof (induction parts arbitrary: merged)
  case (Cons part parts)
  obtain doc where "jc_lists c (ip_body part) = Some doc" "set (pick doc) = S part" using Cons.prems(2)[of part] by auto
  with Cons.IH[of "foldl add_new merged (pick doc)"] Cons.prems foldl_add_new[of merged "pick doc"] show ?case by auto
qed simp

lemma serve_oci_tags:
  assumes "route_of (q_path q) = Tags imageName" "imageName \<noteq> []" "q_method q = ''GET''"
    and "ParsePageParams (q_query q) = \<lparr>pp_n = 0, pp_last = []\<rparr>" "q_repo q \<noteq> []" "CHR 0x5C \<notin> set imageName"
  obtains (listed) tags where "fh_serve (oci_format oh net c) w q = (w, \<lparr>mr_code = 200, mr_headers = [], mr_body = jc_reply c (Tag_List imageName (sort tags))\<rparr>)"
      "set tags = image_tags w (q_repo q) imageName"
  | (failed) resp where "fh_serve (oci_format oh net c) w q = (w, resp)" "mr_code resp = 500"
proof -
  obtain r where r: "collectTags (oh_collate oh) w (q_repo q) imageName = Some r"
    "\<And>tags. r = Inr tags \<Longrightarrow> mset tags = mset (map c_version
      (filter (\<lambda>c. comp_in_repos w [q_repo q] c \<and> c_name c = imageName \<and> CHR '':'' \<notin> set (c_version c)) (w_comps w)))"
    using collect_tags_rows[OF assms(5,6), of "oh_collate oh" w] by blast
  have s: "serve_oci oh net (jc_index c) w q = Some (w, case r of Inl e \<Rightarrow> dockerError 500 ''UNKNOWN''
      | Inr tags \<Rightarrow> list_reply q (sort tags) (Tag_List imageName))"
    using assms(1-3) r(1) by (simp add: serve_oci_def ServeHTTP_def handleTagsList_def finish_request_def)
  show ?thesis
  proof (cases r)
    case (Inl e)
    with s show ?thesis by (intro failed) (auto simp: oci_format_def)
  next
    case (Inr tags)
    have "set tags = image_tags w (q_repo q) imageName"
      using arg_cong[OF r(2)[OF Inr], of set_mset] by (auto simp: image_tags_def)
    moreover have "list_reply q (sort tags) (Tag_List imageName) = \<lparr>h_status = 200, h_headers = [], h_body = Tag_List imageName (sort tags)\<rparr>"
      by (simp add: list_reply_def assms(4) Paginate_def SetNextLink_def)
    ultimately show ?thesis using s Inr by (intro listed[of tags]) (auto simp: oci_format_def body_bytes_def)
  qed
qed

lemma served_merge:
  assumes "serveMergedIndex h q groupDef members rule (oci_merger c) path path rawQuery w = (w', r)" "h_status r = 200"
  obtains w1 parts body ct hs page where
    "collectIndexParts h groupDef rule (im_strict (oci_merger c)) q path (GroupIndexMemberQuery path rawQuery) members w = (w1, Inr parts)"
    "MergeGroupIndex c path parts = Inr (body, ct)" "PageGroupIndex c q path body = Inr (hs, page)"
    "w' = w1" "h_body r = Bytes page" "set hs \<subseteq> set (h_headers r)"
proof -
  obtain w1 cr where cr: "collectIndexParts h groupDef rule (im_strict (oci_merger c)) q path (GroupIndexMemberQuery path rawQuery) members w = (w1, cr)"
    by force
  show ?thesis
  proof (cases cr)
    case (Inl f)
    obtain m resp where f: "f = (m, resp)" by force
    have "member_code resp < 200 \<or> member_code resp > 299" using cr[unfolded Inl f] by (rule collect_failed)
    with assms cr Inl f show ?thesis
      by (auto simp: serveMergedIndex_def oci_merger_def relayed_def member_code_def split: if_splits)
  next
    case (Inr parts)
    note served = assms cr[unfolded Inr]
    show ?thesis
    proof (cases "MergeGroupIndex c path parts")
      case (Inl e)
      with served show ?thesis by (auto simp: serveMergedIndex_def mergeIndexParts_def oci_merger_def group_error_def Let_def split: if_splits)
    next
      case m: (Inr bc)
      obtain body ct where bc: "bc = (body, ct)" by force
      show ?thesis
      proof (cases "PageGroupIndex c q path body")
        case (Inl e)
        with served m bc show ?thesis
          by (auto simp: serveMergedIndex_def mergeIndexParts_def oci_merger_def group_error_def Let_def split: if_splits)
      next
        case p: (Inr hp)
        obtain hs page where hp: "hp = (hs, page)" by force
        have "w' = w1 \<and> h_body r = Bytes page \<and> set hs \<subseteq> set (h_headers r)"
          using served m bc p hp
          by (auto simp: serveMergedIndex_def mergeIndexParts_def oci_merger_def group_error_def Let_def split: if_splits)
        with that[OF cr[unfolded Inr] m[unfolded bc] p[unfolded hp]] show ?thesis by blast
      qed
    qed
  qed
qed

text \<open>The merged tag list, before it is paged.\<close>

lemma merged_tags:
  assumes col: "collectIndexParts h groupDef rule (im_strict (oci_merger c)) q path (GroupIndexMemberQuery path rawQuery) ms w = (w', Inr parts)"
    and reg: "gh_registry h (r_format groupDef) = Some (oci_format oh net c)"
    and kind: "groupIndexKind path = (indexTags, imageName)" and get: "q_method q = ''GET''"
    and names: "CHR 0x5C \<notin> set imageName" "[] \<notin> set ms"
    and json: "json_tag_lists c" "ascii imageName" "\<And>co. co \<in> set (w_comps w) \<Longrightarrow> ascii (c_version co)"
  shows "w' = w \<and> (\<exists>merged. union_lists c (\<lambda>doc. fst (snd doc)) [] parts = Inr merged \<and> distinct merged \<and>
    set merged = (\<Union>m \<in> {m \<in> set ms. consulted h groupDef rule path w m \<noteq> None}. image_tags w m imageName))"
proof -
  let ?mq = "GroupIndexMemberQuery path rawQuery" and ?F = "oci_format oh net c"
  have route: "route_of path = Tags imageName" "imageName \<noteq> []"
    using kind index_kind_route[of path] by (auto split: route.splits if_splits)
  have source: "im_source (oci_merger c) path = Some path" using kind by (simp add: oci_merger_def GroupIndexSourcePath_def)
  have params: "ParsePageParams (q_query (member_request q m path ?mq)) = \<lparr>pp_n = 0, pp_last = []\<rparr>" for m
    using member_query_unpaged[of path rawQuery] kind by (simp add: member_request_def paginated_def)
  have serve: "(\<exists>tags. fh_serve ?F w (member_request q m path ?mq) =
        (w, \<lparr>mr_code = 200, mr_headers = [], mr_body = jc_reply c (Tag_List imageName (sort tags))\<rparr>) \<and> set tags = image_tags w m imageName) \<or>
      (\<exists>resp. fh_serve ?F w (member_request q m path ?mq) = (w, resp) \<and> mr_code resp = 500)" if "m \<in> set ms" for m
    by (rule serve_oci_tags[where q = "member_request q m path ?mq" and imageName = imageName and oh = oh and net = net and c = c and w = w])
      (use route get params names that in \<open>auto simp: member_request_def\<close>)
  have still: "fst (fh_serve fh w (member_request q m path ?mq)) = w"
    if "m \<in> set ms" "consulted h groupDef rule path w m = Some fh" for m fh
    using serve[OF that(1)] consulted_format[OF that(2)] reg by auto
  note quiet = oci.collect_quiet[OF col source still]
  have part: "\<exists>tags. good_part h groupDef rule q path ?mq w m = Some \<lparr>ip_member = m, ip_body = jc_reply c (Tag_List imageName (sort tags))\<rparr> \<and>
      set tags = image_tags w m imageName" if asked: "m \<in> set ms" "consulted h groupDef rule path w m \<noteq> None" for m
  proof -
    obtain fh where fh: "consulted h groupDef rule path w m = Some fh" "fh = ?F" using asked(2) consulted_format reg by fastforce
    with quiet asked(1) have "member_code (snd (fh_serve ?F w (member_request q m path ?mq))) \<in> {200..299} \<union> {404}" by blast
    with serve[OF asked(1)] fh show ?thesis by (auto simp: good_part_def member_code_def)
  qed
  have read: "\<exists>doc. jc_lists c (ip_body p) = Some doc \<and> set (fst (snd doc)) = image_tags w (ip_member p) imageName"
    if ps: "p \<in> set parts" for p
  proof -
    obtain m where m: "m \<in> set ms" "good_part h groupDef rule q path ?mq w m = Some p"
      using ps quiet by (auto simp: List.map_filter_def)
    then have "consulted h groupDef rule path w m \<noteq> None" by (blast dest: good_partD)
    with part[OF m(1)] m(2) obtain tags where
      t: "p = \<lparr>ip_member = m, ip_body = jc_reply c (Tag_List imageName (sort tags))\<rparr>" "set tags = image_tags w m imageName" by auto
    moreover have "\<forall>tag \<in> set (sort tags). ascii tag" using t(2) json(3) by (auto simp: image_tags_def)
    ultimately show ?thesis using json(1,2) by (auto simp: json_tag_lists_def)
  qed
  have members: "ip_member ` set parts = {m \<in> set ms. consulted h groupDef rule path w m \<noteq> None}"
  proof (intro set_eqI iffI)
    fix m
    assume "m \<in> ip_member ` set parts"
    then obtain p where p: "p \<in> set parts" "m = ip_member p" by blast
    then obtain m' where m': "m' \<in> set ms" "good_part h groupDef rule q path ?mq w m' = Some p"
      using quiet by (auto simp: List.map_filter_def)
    show "m \<in> {m \<in> set ms. consulted h groupDef rule path w m \<noteq> None}" using good_partD[OF m'(2)] m'(1) p(2) by simp
  next
    fix m
    assume "m \<in> {m \<in> set ms. consulted h groupDef rule path w m \<noteq> None}"
    then have m: "m \<in> set ms" "consulted h groupDef rule path w m \<noteq> None" by blast+
    then obtain p where p: "good_part h groupDef rule q path ?mq w m = Some p" using part by blast
    then have "p \<in> set (List.map_filter (good_part h groupDef rule q path ?mq w) ms)" using m(1) by (force simp: List.map_filter_def)
    then have "p \<in> set parts" using quiet by simp
    with good_partD[OF p] show "m \<in> ip_member ` set parts" by (metis image_eqI)
  qed
  obtain merged where merged: "union_lists c (\<lambda>doc. fst (snd doc)) [] parts = Inr merged" "distinct merged"
    "set merged = (\<Union>p \<in> set parts. image_tags w (ip_member p) imageName)"
    using union_lists_set[of "[]" parts c "\<lambda>doc. fst (snd doc)" "\<lambda>p. image_tags w (ip_member p) imageName"] read by auto
  have "(\<Union>p \<in> set parts. image_tags w (ip_member p) imageName) = (\<Union>m \<in> ip_member ` set parts. image_tags w m imageName)" by simp
  with merged quiet members show ?thesis by auto
qed

text \<open>
  C20. A tag list an OCI group serves leaves no member out: when a group answers a tag list with 200,
  the page it sends is cut out of one sorted list without repetitions that holds exactly the tags
  the image has in the members, all of them, that are online, of the group's format and let through
  by the routing rule, wherever in the group they live and whatever page was asked for; the link to
  the next page is that list's.
\<close>

theorem group_tags_complete:
  assumes serve: "group_ServeHTTP h w q rawQuery = (w', r)" "h_status r = 200" "q_method q = ''GET''"
    and group: "repos_get w (q_repo q) 300 = Inr groupDef" "gh_registry h (r_format groupDef) = Some (oci_format oh net c)"
    and kind: "groupIndexKind (q_path q) = (indexTags, imageName)"
    and names: "CHR 0x5C \<notin> set imageName" "[] \<notin> set (group_member_names groupDef)"
    and json: "json_tag_lists c" "ascii imageName" "\<And>co. co \<in> set (w_comps w) \<Longrightarrow> ascii (c_version co)"
  shows "w' = w \<and> (\<exists>tags. sorted tags \<and> distinct tags \<and>
    set tags = (\<Union>m \<in> {m \<in> set (group_member_names groupDef). consulted h groupDef (group_rule h groupDef) (q_path q) w m \<noteq> None}. image_tags w m imageName) \<and>
    (case pageMergedList q tags of (links, page) \<Rightarrow> h_body r = Bytes (jc_write_tags c imageName page) \<and> set links \<subseteq> set (h_headers r)))"
proof -
  have merger: "fh_merger (oci_format oh net c) = Some (oci_merger c)" "im_source (oci_merger c) (q_path q) = Some (q_path q)"
    using kind by (simp_all add: oci_format_def oci_merger_def GroupIndexSourcePath_def)
  have "serveMergedIndex h q groupDef (group_member_names groupDef) (group_rule h groupDef) (oci_merger c) (q_path q) (q_path q) rawQuery w = (w', r)"
    using serve group merger by (auto simp: group_ServeHTTP_def serveGet_def Let_def group_error_def split: if_splits)
  from served_merge[OF this serve(2)] obtain parts body ct hs page where
    col: "collectIndexParts h groupDef (group_rule h groupDef) (im_strict (oci_merger c)) q (q_path q)
        (GroupIndexMemberQuery (q_path q) rawQuery) (group_member_names groupDef) w = (w', Inr parts)"
    and doc: "MergeGroupIndex c (q_path q) parts = Inr (body, ct)" "PageGroupIndex c q (q_path q) body = Inr (hs, page)"
    and reply: "h_body r = Bytes page" "set hs \<subseteq> set (h_headers r)" by metis
  obtain merged where merged: "w' = w" "union_lists c (\<lambda>doc. fst (snd doc)) [] parts = Inr merged" "distinct merged"
    "set merged = (\<Union>m \<in> {m \<in> set (group_member_names groupDef). consulted h groupDef (group_rule h groupDef) (q_path q) w m \<noteq> None}. image_tags w m imageName)"
    using merged_tags[OF col group(2) kind serve(3) names json] by blast
  have body: "body = jc_write_tags c imageName (sort merged)"
    using doc(1) kind merged(2) by (simp add: MergeGroupIndex_def mergeTagLists_def mergeStringLists_def)
  have "\<forall>t \<in> set (sort merged). ascii t" using merged(4) json(3) by (auto simp: image_tags_def)
  then have "jc_lists c body = Some (imageName, sort merged, [])" using json(1,2) body by (simp add: json_tag_lists_def)
  then have "(hs, page) = (case pageMergedList q (sort merged) of (links, p) \<Rightarrow> (links, jc_write_tags c imageName p))"
    using doc(2) kind by (auto simp: PageGroupIndex_def paginated_def split: prod.splits)
  with merged reply show ?thesis by (intro conjI exI[of _ "sort merged"]) (auto split: prod.splits)
qed

definition demo_codec :: json_codec where
  "demo_codec = \<lparr>jc_lists = (\<lambda>s. case map (\<lambda>t. the (QueryUnescape t)) (split_on (CHR ''&'') s) of [] \<Rightarrow> None | n # ts \<Rightarrow> Some (n, ts, [])),
     jc_index = (\<lambda>s. Some (Some (if s = [] then [] else split_on (CHR ''&'') s))), jc_digest = Some, jc_write_index = concat, jc_write_tags = (\<lambda>n ts. join_with ''&'' (map QueryEscape (n # ts))),
     jc_write_repos = concat, jc_reply = (\<lambda>b. case b of Tag_List n ts \<Rightarrow> join_with ''&'' (map QueryEscape (n # ts)) |
       Image_Index ds \<Rightarrow> join_with ''&'' (map de_digest ds) | _ \<Rightarrow> [])\<rparr>"

lemma demo_codec_lists: "json_tag_lists demo_codec"
proof -
  have "split_on (CHR ''&'') (join_with ''&'' (map QueryEscape (n # ts))) = map QueryEscape (n # ts)" for n ts
    by (rule split_join) (auto dest: QueryEscape_set)
  then have "map (\<lambda>t. the (QueryUnescape t)) (split_on (CHR ''&'') (join_with ''&'' (map QueryEscape (n # ts)))) = n # ts" for n ts
    by (simp add: QueryUnescape_Escape del: list.map join_with.simps) (simp add: QueryUnescape_Escape map_idI)
  then show ?thesis by (simp add: json_tag_lists_def demo_codec_def)
qed

definition demo_hub :: world where
  "demo_hub = demo_tag_world\<lparr>w_repos := [demo_group\<lparr>r_id := ''g'', r_format := ''docker'', r_routing_rule_id := None,
       r_format_config := [(''member_names'', AnyStrs [''apps'', ''libs''])]\<rparr>,
     demo_docker\<lparr>r_id := ''r1'', r_name := ''apps''\<rparr>, demo_docker\<lparr>r_id := ''r2'', r_name := ''libs''\<rparr>],
     w_comps := [demo_tag ''1'' ''app'' ''v2'', demo_tag ''2'' ''app'' ''v1'', (demo_tag ''3'' ''app'' ''v3'')\<lparr>c_repository_id := ''r2''\<rparr>]\<rparr>"

definition demo_hub_handler :: "string group_handler" where
  "demo_hub_handler = demo_fan\<lparr>gh_registry := (\<lambda>f. Some (oci_format demo_oci (demo_upstream (Inl ErrIO)) demo_codec))\<rparr>"

theorem group_tags_complete_witness:
  "\<exists>r tags. group_ServeHTTP demo_hub_handler demo_hub (demo_to_group ''GET'' ''/v2/app/tags/list'') [] = (demo_hub, r) \<and>
     set tags = {''v1'', ''v2'', ''v3''} \<and> h_body r = Bytes (jc_write_tags demo_codec ''app'' (snd (pageMergedList (demo_to_group ''GET'' ''/v2/app/tags/list'') tags)))"
proof -
  let ?q = "demo_to_group ''GET'' ''/v2/app/tags/list''" and ?g = "hd (w_repos demo_hub)"
  obtain w' r where s: "group_ServeHTTP demo_hub_handler demo_hub ?q [] = (w', r)" by force
  have "h_status (snd (group_ServeHTTP demo_hub_handler demo_hub ?q [])) = 200" by code_simp
  with s have ok: "h_status r = 200" by simp
  have eval: "repos_get demo_hub (q_repo ?q) 300 = Inr ?g" "group_member_names ?g = [''apps'', ''libs'']"
    "consulted demo_hub_handler ?g (group_rule demo_hub_handler ?g) (q_path ?q) demo_hub ''apps'' \<noteq> None"
    "consulted demo_hub_handler ?g (group_rule demo_hub_handler ?g) (q_path ?q) demo_hub ''libs'' \<noteq> None"
    "image_tags demo_hub ''apps'' ''app'' = {''v1'', ''v2''}" "image_tags demo_hub ''libs'' ''app'' = {''v3''}"
    "groupIndexKind (q_path ?q) = (indexTags, ''app'')" "\<forall>co \<in> set (w_comps demo_hub). ascii (c_version co)" "ascii ''app''"
    "q_method ?q = ''GET''"
    by code_simp+
  have reg: "gh_registry demo_hub_handler (r_format ?g) = Some (oci_format demo_oci (demo_upstream (Inl ErrIO)) demo_codec)"
    by (simp add: demo_hub_handler_def)
  have members: "{m \<in> set (group_member_names ?g). consulted demo_hub_handler ?g (group_rule demo_hub_handler ?g) (q_path ?q) demo_hub m \<noteq> None} = {''apps'', ''libs''}"
    using eval(2,3,4) by auto
  have side: "CHR 0x5C \<notin> set ''app''" "[] \<notin> set (group_member_names ?g)" "\<And>co. co \<in> set (w_comps demo_hub) \<Longrightarrow> ascii (c_version co)"
    using eval(2,8) by simp_all
  have "w' = demo_hub \<and> (\<exists>tags. sorted tags \<and> distinct tags \<and> set tags = (\<Union>m \<in> {''apps'', ''libs''}. image_tags demo_hub m ''app'') \<and>
      (case pageMergedList ?q tags of (links, page) \<Rightarrow> h_body r = Bytes (jc_write_tags demo_codec ''app'' page) \<and> set links \<subseteq> set (h_headers r)))"
    using group_tags_complete[OF s ok eval(10) eval(1) reg eval(7) side(1,2) demo_codec_lists eval(9) side(3)] unfolding members .
  then obtain tags where "w' = demo_hub" "set tags = {''v1'', ''v2'', ''v3''}"
    "case pageMergedList ?q tags of (links, page) \<Rightarrow> h_body r = Bytes (jc_write_tags demo_codec ''app'' page)"
    by (auto simp: eval(5,6) case_prod_beta)
  with s show ?thesis by (intro exI[of _ r] exI[of _ tags]) (auto simp: case_prod_beta)
qed

section \<open>The referrers of a group\<close>

lemma add_descriptors_result:
  assumes "add_descriptors c seen raws = Inr (seen', kept)"
  shows "set seen' = set seen \<union> {d. Some d \<in> jc_digest c ` set raws} \<and> set kept \<subseteq> set raws \<and> distinct (map (jc_digest c) kept) \<and>
    jc_digest c ` set kept = Some ` (set seen' - set seen) \<and> (\<forall>raw \<in> set raws. \<exists>d \<in> set seen'. jc_digest c raw = Some d)"
  using assms
proof (induction raws arbitrary: seen kept)
  case (Cons raw raws)
  obtain d where d: "jc_digest c raw = Some d" "d \<noteq> []" using Cons.prems by (auto split: option.splits if_splits)
  show ?case
  proof (cases "d \<in> set seen")
    case True
    then have "add_descriptors c seen raws = Inr (seen', kept)" using Cons.prems d by simp
    from Cons.IH[OF this] True d show ?thesis by auto
  next
    case False
    then obtain kept' where k: "add_descriptors c (d # seen) raws = Inr (seen', kept')" "kept = raw # kept'"
      using Cons.prems d by (auto split: sum.splits)
    note IH = Cons.IH[OF k(1)]
    have "Some d \<notin> jc_digest c ` set kept'" using IH by auto
    moreover have "jc_digest c ` set kept = Some ` (set seen' - set seen)"
      using IH False k(2) d by auto
    ultimately show ?thesis using IH k(2) d by auto
  qed
qed auto

definition listed_referrers :: "json_codec \<Rightarrow> string \<Rightarrow> string list" where
  "listed_referrers c body = (case jc_index c body of Some (Some raws) \<Rightarrow> raws | _ \<Rightarrow> [])"

lemma merge_indexes_result:
  assumes "merge_indexes c seen parts = Inr raws"
  shows "distinct (map (jc_digest c) raws) \<and> (\<forall>raw \<in> set raws. \<forall>d \<in> set seen. jc_digest c raw \<noteq> Some d) \<and>
    set raws \<subseteq> (\<Union>part \<in> set parts. set (listed_referrers c (ip_body part))) \<and>
    (\<forall>part \<in> set parts. jc_index c (ip_body part) \<noteq> None \<and>
      (\<forall>raw \<in> set (listed_referrers c (ip_body part)). jc_digest c raw \<in> Some ` set seen \<union> jc_digest c ` set raws))"
  using assms
proof (induction parts arbitrary: seen raws)
  case (Cons part parts)
  obtain ms where ms: "jc_index c (ip_body part) = Some ms" using Cons.prems by (auto split: option.splits)
  have l: "(case ms of None \<Rightarrow> [] | Some rs \<Rightarrow> rs) = listed_referrers c (ip_body part)"
    by (simp add: listed_referrers_def ms split: option.splits)
  obtain seen' kept rest where a: "add_descriptors c seen (listed_referrers c (ip_body part)) = Inr (seen', kept)"
    and m: "merge_indexes c seen' parts = Inr rest" and raws: "raws = kept @ rest"
    using Cons.prems ms l by (auto split: sum.splits)
  note A = add_descriptors_result[OF a] and IH = Cons.IH[OF m]
  have sub: "set seen \<subseteq> set seen'" using A by blast
  have entry: "jc_digest c raw \<in> Some ` set seen \<union> jc_digest c ` set raws" if known: "jc_digest c raw \<in> Some ` set seen'" for raw
  proof -
    obtain d where d: "jc_digest c raw = Some d" "d \<in> set seen'" using known by auto
    show ?thesis
    proof (cases "d \<in> set seen")
      case False
      then have "Some d \<in> Some ` (set seen' - set seen)" using d(2) by blast
      then have "Some d \<in> jc_digest c ` set kept" using A by simp
      with d(1) raws show ?thesis by auto
    qed (use d in blast)
  qed
  have apart: "jc_digest c x \<noteq> jc_digest c y" if "x \<in> set kept" "y \<in> set rest" for x y
  proof -
    have "jc_digest c x \<in> Some ` (set seen' - set seen)" using A that(1) by blast
    with IH that(2) show ?thesis by auto
  qed
  show ?case
  proof (intro conjI ballI)
    have "set (map (jc_digest c) kept) \<inter> set (map (jc_digest c) rest) = {}" using apart by fastforce
    moreover have "distinct (map (jc_digest c) kept)" "distinct (map (jc_digest c) rest)" using A IH by blast+
    ultimately show "distinct (map (jc_digest c) raws)" by (simp add: raws)
    show "jc_digest c raw \<noteq> Some d" if "raw \<in> set raws" "d \<in> set seen" for raw d
    proof (cases "raw \<in> set kept")
      case True
      then have "jc_digest c raw \<in> Some ` (set seen' - set seen)" using A by blast
      with that(2) show ?thesis by auto
    next
      case False
      with that raws IH sub show ?thesis by auto
    qed
    show "set raws \<subseteq> (\<Union>p \<in> set (part # parts). set (listed_referrers c (ip_body p)))" using A IH raws by auto
    fix p
    assume p: "p \<in> set (part # parts)"
    show "jc_index c (ip_body p) \<noteq> None" using p ms IH by auto
    fix raw
    assume raw: "raw \<in> set (listed_referrers c (ip_body p))"
    show "jc_digest c raw \<in> Some ` set seen \<union> jc_digest c ` set raws"
    proof (cases "p \<in> set parts")
      case True
      with IH raw have "jc_digest c raw \<in> Some ` set seen' \<union> jc_digest c ` set rest" by blast
      with entry raws show ?thesis by auto
    next
      case False
      with p raw A have "jc_digest c raw \<in> Some ` set seen'" by auto
      then show ?thesis by (rule entry)
    qed
  qed
qed simp

lemma oci_index_keeps:
  assumes "fst (groupIndexKind path) \<noteq> indexNone"
  shows "keeps_rows (oci_format oh net c) path"
proof -
  have proxied: "same_rows (fst (proxyReferrers oh net dec w q repo i s)) w" for dec w q repo i s
    by (auto simp: proxyReferrers_def relay_index_def upstreamRefused_def upstreamUnusable_def DispatchProxyError_def same_rows_def Let_def
        split: sum.splits)
  have "same_rows (fst (fh_serve (oci_format oh net c) w q)) w" if q: "q_path q = path" for w q
  proof (cases "serve_oci oh net (jc_index c) w q")
    case None
    then show ?thesis by (simp add: oci_format_def same_rows_def)
  next
    case (Some wr)
    then obtain w1 out where out: "ServeHTTP oh w q = Some (w1, out)" "wr = finish_request oh net (jc_index c) w1 q out"
      by (auto simp: serve_oci_def)
    have "w1 = w \<and> ((\<exists>r. out = Answer r) \<or> (\<exists>i s. out = Upstream_Referrers i s))"
      using out(1) assms q index_kind_route[of path]
      by (auto simp: ServeHTTP_def handleReferrers_def split: route.splits if_splits sum.splits)
    with out(2) proxied have "same_rows (fst wr) w" by (auto simp: finish_request_def same_rows_def split: option.splits)
    with Some show ?thesis by (auto simp: oci_format_def split: prod.splits)
  qed
  then show ?thesis by (simp add: keeps_rows_def)
qed

text \<open>
  C21. No signature of a group's image goes unreported: a referrers index a group answers with 200
  names every manifest that any of its members names, once each, where a member is every eligible
  one: each of them was asked with the client's filter and answered with a list the group could
  read, or with a 404. A member that could not be asked is never read as one without referrers.
\<close>

theorem group_referrers_complete:
  assumes "group_ServeHTTP h w q rawQuery = (w', r)" "h_status r = 200" "q_method q = ''GET'' \<or> q_method q = ''HEAD''"
    and "repos_get w (q_repo q) 300 = Inr groupDef" "gh_registry h (r_format groupDef) = Some (oci_format oh net c)"
    and kind: "fst (groupIndexKind (q_path q)) = indexReferrers"
  shows "\<exists>raws. h_body r = Bytes (jc_write_index c raws) \<and> distinct (map (jc_digest c) raws) \<and>
    (\<forall>m \<in> set (group_member_names groupDef). consulted h groupDef (group_rule h groupDef) (q_path q) w m \<noteq> None \<longrightarrow>
      (\<exists>v resp. same_rows v w \<and> resp = snd (fh_serve (oci_format oh net c) v (member_request q m (q_path q) rawQuery)) \<and>
        (member_code resp = 404 \<or> jc_index c (mr_body resp) \<noteq> None \<and>
          (\<forall>raw \<in> set (listed_referrers c (mr_body resp)). jc_digest c raw \<in> jc_digest c ` set raws))))"
proof -
  have merger: "fh_merger (oci_format oh net c) = Some (oci_merger c)" "im_source (oci_merger c) (q_path q) = Some (q_path q)"
    using kind by (simp_all add: oci_format_def oci_merger_def GroupIndexSourcePath_def)
  have query: "GroupIndexMemberQuery (q_path q) rawQuery = rawQuery" using kind by (simp add: GroupIndexMemberQuery_def paginated_def)
  have "serveMergedIndex h q groupDef (group_member_names groupDef) (group_rule h groupDef) (oci_merger c) (q_path q) (q_path q) rawQuery w = (w', r)"
    using assms(1-5) merger by (auto simp: group_ServeHTTP_def serveGet_def Let_def group_error_def split: if_splits)
  from served_merge[OF this assms(2)] obtain parts body ct hs page where
    col: "collectIndexParts h groupDef (group_rule h groupDef) (im_strict (oci_merger c)) q (q_path q) rawQuery (group_member_names groupDef) w = (w', Inr parts)"
    and doc: "MergeGroupIndex c (q_path q) parts = Inr (body, ct)" "PageGroupIndex c q (q_path q) body = Inr (hs, page)"
    and reply: "h_body r = Bytes page" unfolding query by metis
  obtain image where k: "groupIndexKind (q_path q) = (indexReferrers, image)" using kind by (metis prod.collapse)
  obtain raws where raws: "merge_indexes c [] parts = Inr raws" "body = jc_write_index c raws"
    using doc(1) k by (auto simp: MergeGroupIndex_def mergeReferrers_def split: sum.splits)
  have page: "page = body" using doc(2) kind by (simp add: PageGroupIndex_def paginated_def)
  note all = merge_indexes_result[OF raws(1)]
  have "\<exists>v resp. same_rows v w \<and> resp = snd (fh_serve (oci_format oh net c) v (member_request q m (q_path q) rawQuery)) \<and>
      (member_code resp = 404 \<or> jc_index c (mr_body resp) \<noteq> None \<and>
        (\<forall>raw \<in> set (listed_referrers c (mr_body resp)). jc_digest c raw \<in> jc_digest c ` set raws))"
    if asked: "m \<in> set (group_member_names groupDef)" "consulted h groupDef (group_rule h groupDef) (q_path q) w m \<noteq> None" for m
  proof -
    obtain fh where fh: "consulted h groupDef (group_rule h groupDef) (q_path q) w m = Some fh" using asked(2) by blast
    then have "fh = oci_format oh net c" using consulted_format assms(5) by fastforce
    moreover have "keeps_rows (oci_format oh net c) (q_path q)" by (rule oci_index_keeps) (simp add: kind)
    then have "keeps_rows g (q_path q)" if "gh_registry h (r_format groupDef) = Some g" for g using that assms(5) by simp
    ultimately obtain v resp where v: "same_rows v w" "resp = snd (fh_serve (oci_format oh net c) v (member_request q m (q_path q) rawQuery))"
      "member_code resp = 404 \<or> \<lparr>ip_member = m, ip_body = mr_body resp\<rparr> \<in> set parts"
      using oci.collect_complete[OF col merger(2) _ asked(1) fh] by blast
    moreover have "jc_index c (mr_body resp) \<noteq> None \<and> (\<forall>raw \<in> set (listed_referrers c (mr_body resp)). jc_digest c raw \<in> jc_digest c ` set raws)"
      if "\<lparr>ip_member = m, ip_body = mr_body resp\<rparr> \<in> set parts"
      using all that by fastforce
    ultimately show ?thesis by blast
  qed
  with all reply page raws(2) show ?thesis by blast
qed

definition demo_signed :: world where
  "demo_signed = demo_hub\<lparr>w_comps := w_comps demo_hub @
       [(demo_tag ''9'' ''app'' ''sig'')\<lparr>c_repository_id := ''r2'', c_extra := [(''oci_subject'', AnyStr (''sha256:'' @ replicate 64 (CHR ''a'')))]\<rparr>],
     w_assets := [\<lparr>a_id = ''a9'', a_component_id = ''9'', a_repository_id = ''r2'', a_repository = ''libs'', a_path = ''/manifests/app/sig'',
       a_blob_store_id = ''b1'', a_blob_key = ''k9'', a_size_bytes = 2, a_content_type = ''sig'', a_sha1 = [], a_sha256 = ''ff'', a_md5 = [],
       a_uploader_id = [], a_last_modified = 0, a_last_downloaded = None, a_download_count = 0, a_created_at = 0\<rparr>]\<rparr>"

theorem group_referrers_complete_witness:
  "\<exists>raws. h_body (snd (group_ServeHTTP demo_hub_handler demo_signed (demo_to_group ''GET'' (''/v2/app/referrers/sha256:'' @ replicate 64 (CHR ''a''))) [])) =
     Bytes (jc_write_index demo_codec raws) \<and> distinct raws"
proof -
  let ?q = "demo_to_group ''GET'' (''/v2/app/referrers/sha256:'' @ replicate 64 (CHR ''a''))" and ?g = "hd (w_repos demo_signed)"
  obtain w' r where s: "group_ServeHTTP demo_hub_handler demo_signed ?q [] = (w', r)" by force
  have "(let r = snd (group_ServeHTTP demo_hub_handler demo_signed ?q []) in h_status r = 200 \<and> h_body r = Bytes ''sha256:ff'')" by code_simp
  with s have ok: "h_status r = 200" by (simp add: Let_def)
  have eval: "q_method ?q = ''GET'' \<or> q_method ?q = ''HEAD''" "repos_get demo_signed (q_repo ?q) 300 = Inr ?g"
    "fst (groupIndexKind (q_path ?q)) = indexReferrers" by code_simp+
  have reg: "gh_registry demo_hub_handler (r_format ?g) = Some (oci_format demo_oci (demo_upstream (Inl ErrIO)) demo_codec)"
    by (simp add: demo_hub_handler_def)
  from group_referrers_complete[OF s ok eval(1,2) reg eval(3)] s show ?thesis by (auto simp: demo_codec_def distinct_map)
qed

end
