(* ===== verification/Accounts_DB.thy ===== *)
theory Accounts_DB
  imports Domain
begin

text \<open>
  The tables behind accounts, users, roles, their assignment and API tokens, with the SQL
  statements of \<^verbatim>\<open>user_repo.go\<close>, \<^verbatim>\<open>role_repo.go\<close> and \<^verbatim>\<open>user_token_repo.go\<close> (\<^verbatim>\<open>repository/postgres\<close>) that
  the account services run. Like \<open>Domain.world\<close> the state carries the fault plan of the calls.
\<close>

section \<open>Rows\<close>

text \<open>A stored row has \<open>u_roles = []\<close>: the roles are read with it from their own table.\<close>

record user =
  u_id :: string
  u_username :: string
  u_email :: string
  u_password_hash :: string
  u_first_name :: string
  u_last_name :: string
  u_status :: string
  u_source :: string
  u_roles :: "string list"
  u_must_reset_password :: bool
  u_last_login :: "time option"
  u_tokens_valid_after :: time
  u_oidc_id_token :: string
  u_created_at :: time
  u_updated_at :: time

record role =
  ro_id :: string
  ro_name :: string

record user_token =
  ut_id :: string
  ut_user_id :: string
  ut_username :: string
  ut_name :: string
  ut_token_hash :: string
  ut_scopes :: "string list"
  ut_last_used :: "time option"
  ut_expires_at :: "time option"
  ut_created_at :: time
  ut_token :: string

text \<open>
  \<open>ac_rows_read\<close>: how many rows of a result set arrived before its connection broke, which is the
  fault \<open>''Users.RoleNames.Rows''\<close>.
\<close>

record accounts =
  ac_users :: "user list"
  ac_role_rows :: "role list"
  ac_user_roles :: "(string \<times> string) list"
  ac_tokens :: "user_token list"
  ac_now :: time
  ac_seq :: nat
  ac_gen_id :: "nat \<Rightarrow> string"
  ac_rows_read :: nat
  ac_fault :: fault_plan

definition acc_io :: "accounts \<Rightarrow> op \<Rightarrow> string \<Rightarrow> nat \<Rightarrow> 'a result \<Rightarrow> 'a result" where
  "acc_io a op k n r = (if ac_fault a op k n then Inl ErrIO else r)"

lemma acc_io_ok [simp]: "acc_io a op k n r = Inr x \<longleftrightarrow> \<not> ac_fault a op k n \<and> r = Inr x"
  by (simp add: acc_io_def)

definition acc_effort :: "accounts \<Rightarrow> accounts result \<Rightarrow> accounts" where
  "acc_effort a r = (case r of Inr a' \<Rightarrow> a' | Inl _ \<Rightarrow> a)"

section \<open>Users\<close>

definition roles_of :: "accounts \<Rightarrow> string \<Rightarrow> role list" where
  "roles_of a userID = List.map_filter (\<lambda>ur. if fst ur = userID then find (\<lambda>r. ro_id r = snd ur) (ac_role_rows a) else None) (ac_user_roles a)"

text \<open>A result set that breaks off is not noticed: \<^verbatim>\<open>rows.Err()\<close> is not asked.\<close>

definition userRoleNames :: "accounts \<Rightarrow> string \<Rightarrow> nat \<Rightarrow> string list result" where
  "userRoleNames a userID n = acc_io a ''Users.RoleNames'' userID n
     (Inr (let names = map ro_name (roles_of a userID) in
           if ac_fault a ''Users.RoleNames.Rows'' userID n then take (ac_rows_read a) names else names))"

definition with_roles :: "accounts \<Rightarrow> user option \<Rightarrow> nat \<Rightarrow> user result" where
  "with_roles a row n =
     (case row of
        None \<Rightarrow> Inl ErrNotFound
      | Some u \<Rightarrow> (case userRoleNames a (u_id u) n of Inl e \<Rightarrow> Inl e | Inr names \<Rightarrow> Inr (u\<lparr>u_roles := names\<rparr>)))"

definition users_get :: "accounts \<Rightarrow> string \<Rightarrow> nat \<Rightarrow> user result" where
  "users_get a username n = acc_io a ''Users.Get'' username n (with_roles a (find (\<lambda>u. u_username u = username) (ac_users a)) n)"

definition users_get_by_id :: "accounts \<Rightarrow> string \<Rightarrow> nat \<Rightarrow> user result" where
  "users_get_by_id a i n = acc_io a ''Users.GetByID'' i n (with_roles a (find (\<lambda>u. u_id u = i) (ac_users a)) n)"

fun list_with_roles :: "accounts \<Rightarrow> nat \<Rightarrow> user list \<Rightarrow> user list result" where
  "list_with_roles a n [] = Inr []"
| "list_with_roles a n (u # us) =
     (case with_roles a (Some u) n of
        Inl e \<Rightarrow> Inl e
      | Inr u' \<Rightarrow> (case list_with_roles a n us of Inl e \<Rightarrow> Inl e | Inr us' \<Rightarrow> Inr (u' # us')))"

definition users_list :: "accounts \<Rightarrow> string \<Rightarrow> nat \<Rightarrow> user list result" where
  "users_list a source n = acc_io a ''Users.List'' source n
     (list_with_roles a n (sort_key u_username (filter (\<lambda>u. source = [] \<or> u_source u = source) (ac_users a))))"

definition email_taken :: "accounts \<Rightarrow> string \<Rightarrow> string \<Rightarrow> bool" where
  "email_taken a username email \<longleftrightarrow> email \<noteq> [] \<and> (\<exists>u \<in> set (ac_users a). u_username u \<noteq> username \<and> u_email u = email)"

definition user_checks_ok :: "user \<Rightarrow> bool" where
  "user_checks_ok u \<longleftrightarrow> u_status u \<in> {''active'', ''disabled''} \<and> u_source u \<in> {''local'', ''ldap'', ''saml'', ''oidc''}"

text \<open>
  The new row's cut-off for sessions is the column default \<^verbatim>\<open>now()\<close>; the caller's record only learns
  its id and timestamps.
\<close>

definition users_create :: "accounts \<Rightarrow> user \<Rightarrow> nat \<Rightarrow> (accounts \<times> user) result" where
  "users_create a u n =
     (let i = ac_gen_id a (ac_seq a);
          u' = u\<lparr>u_id := i, u_created_at := ac_now a, u_updated_at := ac_now a\<rparr>
      in acc_io a ''Users.Create'' (u_username u) n
        (if \<not> user_checks_ok u then Inl ErrIO
         else if u_username u \<in> u_username ` set (ac_users a) then Inl (ErrUnique ''username'')
         else if email_taken a (u_username u) (u_email u) then Inl (ErrUnique ''email'')
         else Inr (a\<lparr>ac_users := ac_users a @ [u'\<lparr>u_roles := [], u_last_login := None, u_tokens_valid_after := ac_now a, u_oidc_id_token := []\<rparr>],
                ac_seq := Suc (ac_seq a)\<rparr>, u')))"

definition users_update :: "accounts \<Rightarrow> user \<Rightarrow> nat \<Rightarrow> accounts result" where
  "users_update a u n = acc_io a ''Users.Update'' (u_username u) n
     (if u_username u \<notin> u_username ` set (ac_users a) then Inr a
      else if u_status u \<notin> {''active'', ''disabled''} then Inl ErrIO
      else if email_taken a (u_username u) (u_email u) then Inl (ErrUnique ''email'')
      else Inr (a\<lparr>ac_users := upd_where (\<lambda>x. u_username x = u_username u)
        (\<lambda>x. x\<lparr>u_email := u_email u, u_first_name := u_first_name u, u_last_name := u_last_name u,
               u_status := u_status u, u_updated_at := ac_now a\<rparr>) (ac_users a)\<rparr>))"

definition users_update_password :: "accounts \<Rightarrow> string \<Rightarrow> string \<Rightarrow> nat \<Rightarrow> accounts result" where
  "users_update_password a username hash n = acc_io a ''Users.UpdatePassword'' username n
     (Inr (a\<lparr>ac_users := upd_where (\<lambda>x. u_username x = username)
        (\<lambda>x. x\<lparr>u_password_hash := hash, u_must_reset_password := False, u_updated_at := ac_now a\<rparr>) (ac_users a)\<rparr>))"

text \<open>Assignments and tokens go with the user (\<^verbatim>\<open>ON DELETE CASCADE\<close>).\<close>

definition users_delete :: "accounts \<Rightarrow> string \<Rightarrow> nat \<Rightarrow> accounts result" where
  "users_delete a username n = acc_io a ''Users.Delete'' username n
     (let gone = u_id ` {u \<in> set (ac_users a). u_username u = username} in
      Inr (a\<lparr>ac_users := filter (\<lambda>u. u_username u \<noteq> username) (ac_users a),
             ac_user_roles := filter (\<lambda>ur. fst ur \<notin> gone) (ac_user_roles a),
             ac_tokens := filter (\<lambda>t. ut_user_id t \<notin> gone) (ac_tokens a)\<rparr>))"

definition users_update_last_login :: "accounts \<Rightarrow> string \<Rightarrow> nat \<Rightarrow> accounts result" where
  "users_update_last_login a username n = acc_io a ''Users.UpdateLastLogin'' username n
     (Inr (a\<lparr>ac_users := upd_where (\<lambda>x. u_username x = username) (\<lambda>x. x\<lparr>u_last_login := Some (ac_now a)\<rparr>) (ac_users a)\<rparr>))"

definition users_bump_tokens_valid_after :: "accounts \<Rightarrow> string \<Rightarrow> nat \<Rightarrow> accounts result" where
  "users_bump_tokens_valid_after a i n = acc_io a ''Users.BumpTokensValidAfter'' i n
     (Inr (a\<lparr>ac_users := upd_where (\<lambda>x. u_id x = i) (\<lambda>x. x\<lparr>u_tokens_valid_after := ac_now a\<rparr>) (ac_users a)\<rparr>))"

definition users_set_oidc_tokens :: "accounts \<Rightarrow> string \<Rightarrow> string \<Rightarrow> nat \<Rightarrow> accounts result" where
  "users_set_oidc_tokens a i idToken n = acc_io a ''Users.SetOIDCTokens'' i n
     (Inr (a\<lparr>ac_users := upd_where (\<lambda>x. u_id x = i) (\<lambda>x. x\<lparr>u_oidc_id_token := idToken, u_updated_at := ac_now a\<rparr>) (ac_users a)\<rparr>))"

definition users_get_oidc_id_token :: "accounts \<Rightarrow> string \<Rightarrow> nat \<Rightarrow> string result" where
  "users_get_oidc_id_token a i n = acc_io a ''Users.GetOIDCIDToken'' i n
     (Inr (case find (\<lambda>u. u_id u = i) (ac_users a) of None \<Rightarrow> [] | Some u \<Rightarrow> u_oidc_id_token u))"

section \<open>Roles\<close>

definition roles_list :: "accounts \<Rightarrow> nat \<Rightarrow> role list result" where
  "roles_list a n = acc_io a ''Roles.List'' [] n (Inr (sort_key ro_name (ac_role_rows a)))"

definition roles_get_user_roles :: "accounts \<Rightarrow> string \<Rightarrow> nat \<Rightarrow> role list result" where
  "roles_get_user_roles a userID n = acc_io a ''Roles.GetUserRoles'' userID n (Inr (roles_of a userID))"

text \<open>One transaction: all of the new assignment or the old one.\<close>

definition roles_set_user_roles :: "accounts \<Rightarrow> string \<Rightarrow> string list \<Rightarrow> nat \<Rightarrow> accounts result" where
  "roles_set_user_roles a userID roleIDs n = acc_io a ''Roles.SetUserRoles'' userID n
     (if roleIDs \<noteq> [] \<and> (userID \<notin> u_id ` set (ac_users a) \<or> \<not> set roleIDs \<subseteq> ro_id ` set (ac_role_rows a)) then Inl ErrIO
      else Inr (a\<lparr>ac_user_roles := filter (\<lambda>ur. fst ur \<noteq> userID) (ac_user_roles a) @ map (Pair userID) (remdups roleIDs)\<rparr>))"

section \<open>API tokens\<close>

definition join_user :: "accounts \<Rightarrow> user_token \<Rightarrow> user_token option" where
  "join_user a t = map_option (\<lambda>u. t\<lparr>ut_username := u_username u\<rparr>) (find (\<lambda>u. u_id u = ut_user_id t) (ac_users a))"

definition tokens_list_by_user :: "accounts \<Rightarrow> string \<Rightarrow> nat \<Rightarrow> user_token list result" where
  "tokens_list_by_user a userID n = acc_io a ''Tokens.ListByUser'' userID n
     (Inr (rev (sort_key ut_created_at (List.map_filter (join_user a) (filter (\<lambda>t. ut_user_id t = userID) (ac_tokens a))))))"

definition tokens_get :: "accounts \<Rightarrow> string \<Rightarrow> nat \<Rightarrow> user_token result" where
  "tokens_get a i n = acc_io a ''Tokens.Get'' i n
     (case Option.bind (find (\<lambda>t. ut_id t = i) (ac_tokens a)) (join_user a) of None \<Rightarrow> Inl ErrNotFound | Some t \<Rightarrow> Inr t)"

definition tokens_get_by_hash :: "accounts \<Rightarrow> string \<Rightarrow> nat \<Rightarrow> user_token result" where
  "tokens_get_by_hash a h n = acc_io a ''Tokens.GetByHash'' h n
     (case Option.bind (find (\<lambda>t. ut_token_hash t = h) (ac_tokens a)) (join_user a) of None \<Rightarrow> Inl ErrNotFound | Some t \<Rightarrow> Inr t)"

definition tokens_create :: "accounts \<Rightarrow> user_token \<Rightarrow> nat \<Rightarrow> (accounts \<times> user_token) result" where
  "tokens_create a t n = acc_io a ''Tokens.Create'' (ut_user_id t) n
     (if ut_user_id t \<notin> u_id ` set (ac_users a) \<or> ut_token_hash t \<in> ut_token_hash ` set (ac_tokens a) then Inl ErrIO
      else (let t' = t\<lparr>ut_id := ac_gen_id a (ac_seq a), ut_created_at := ac_now a\<rparr> in
        Inr (a\<lparr>ac_tokens := ac_tokens a @ [t'\<lparr>ut_username := [], ut_token := [], ut_last_used := None\<rparr>], ac_seq := Suc (ac_seq a)\<rparr>, t')))"

definition tokens_delete :: "accounts \<Rightarrow> string \<Rightarrow> nat \<Rightarrow> accounts result" where
  "tokens_delete a i n = acc_io a ''Tokens.Delete'' i n (Inr (a\<lparr>ac_tokens := filter (\<lambda>t. ut_id t \<noteq> i) (ac_tokens a)\<rparr>))"

definition tokens_touch_last_used :: "accounts \<Rightarrow> string \<Rightarrow> nat \<Rightarrow> accounts result" where
  "tokens_touch_last_used a i n = acc_io a ''Tokens.TouchLastUsed'' i n
     (Inr (a\<lparr>ac_tokens := upd_where (\<lambda>t. ut_id t = i) (\<lambda>t. t\<lparr>ut_last_used := Some (ac_now a)\<rparr>) (ac_tokens a)\<rparr>))"

section \<open>The schema\<close>

text \<open>
  What the keys and checks of the schema promise of every state: unique names, addresses and ids,
  assignments and tokens of users and roles there are. Fresh ids come from \<open>ac_gen_id\<close>.
\<close>

definition acc_ok :: "accounts \<Rightarrow> bool" where
  "acc_ok a \<longleftrightarrow> distinct (map u_id (ac_users a)) \<and> distinct (map u_username (ac_users a)) \<and>
     (\<forall>u \<in> set (ac_users a). \<not> email_taken a (u_username u) (u_email u) \<and> user_checks_ok u \<and> u_roles u = []) \<and>
     distinct (map ro_id (ac_role_rows a)) \<and> distinct (ac_user_roles a) \<and>
     fst ` set (ac_user_roles a) \<subseteq> u_id ` set (ac_users a) \<and> snd ` set (ac_user_roles a) \<subseteq> ro_id ` set (ac_role_rows a) \<and>
     distinct (map ut_id (ac_tokens a)) \<and> distinct (map ut_token_hash (ac_tokens a)) \<and>
     ut_user_id ` set (ac_tokens a) \<subseteq> u_id ` set (ac_users a) \<and>
     inj (ac_gen_id a) \<and> (\<forall>i \<ge> ac_seq a. ac_gen_id a i \<notin> u_id ` set (ac_users a) \<union> ut_id ` set (ac_tokens a))"

lemma email_taken_cong:
  "(\<lambda>u. (u_username u, u_email u)) ` set (ac_users a) = (\<lambda>u. (u_username u, u_email u)) ` set (ac_users b) \<Longrightarrow>
   email_taken a x e = email_taken b x e"
proof -
  assume eq: "(\<lambda>u. (u_username u, u_email u)) ` set (ac_users a) = (\<lambda>u. (u_username u, u_email u)) ` set (ac_users b)"
  have "email_taken c x e \<longleftrightarrow> e \<noteq> [] \<and> (\<exists>k \<in> (\<lambda>u. (u_username u, u_email u)) ` set (ac_users c). fst k \<noteq> x \<and> snd k = e)" for c
    by (auto simp: email_taken_def)
  with eq show ?thesis by metis
qed

text \<open>What the keys and checks of a row are about.\<close>

definition user_keys :: "user \<Rightarrow> string \<times> string \<times> string \<times> string \<times> string \<times> string list" where
  "user_keys u = (u_id u, u_username u, u_email u, u_status u, u_source u, u_roles u)"

lemma acc_ok_keys:
  assumes ok: "acc_ok a" and keys: "map user_keys us = map user_keys (ac_users a)"
  shows "acc_ok (a\<lparr>ac_users := us\<rparr>)"
proof -
  have m: "map u_id us = map u_id (ac_users a)" "map u_username us = map u_username (ac_users a)"
    "map (\<lambda>u. (u_username u, u_email u)) us = map (\<lambda>u. (u_username u, u_email u)) (ac_users a)"
    using arg_cong[OF keys, of "map fst"] arg_cong[OF keys, of "map (\<lambda>k. fst (snd k))"]
      arg_cong[OF keys, of "map (\<lambda>k. (fst (snd k), fst (snd (snd k))))"]
    by (simp_all add: user_keys_def comp_def)
  have em: "email_taken (a\<lparr>ac_users := us\<rparr>) x e = email_taken a x e" for x e
    by (rule email_taken_cong) (use arg_cong[OF m(3), of set] in simp)
  have "\<not> email_taken a (u_username u) (u_email u) \<and> user_checks_ok u \<and> u_roles u = []" if "u \<in> set us" for u
  proof -
    from that have "user_keys u \<in> set (map user_keys (ac_users a))" unfolding keys[symmetric] by simp
    then obtain v where "v \<in> set (ac_users a)" "user_keys u = user_keys v" by auto
    with ok show ?thesis by (auto simp: acc_ok_def user_keys_def user_checks_ok_def)
  qed
  moreover have "u_id ` set us = u_id ` set (ac_users a)" using arg_cong[OF m(1), of set] by simp
  ultimately show ?thesis using ok m(1,2) em unfolding acc_ok_def by simp
qed

lemma user_keys_upd: "(\<And>u. user_keys (f u) = user_keys u) \<Longrightarrow> map user_keys (upd_where p f us) = map user_keys us"
  by (simp add: map_upd_where)

lemma acc_ok_now [simp]: "acc_ok (a\<lparr>ac_now := t\<rparr>) = acc_ok a"
  by (simp add: acc_ok_def email_taken_def)

lemma acc_ok_fault [simp]: "acc_ok (a\<lparr>ac_fault := t, ac_rows_read := k\<rparr>) = acc_ok a"
  by (simp add: acc_ok_def email_taken_def)

lemma acc_ok_users_update_password: "users_update_password a x h n = Inr a' \<Longrightarrow> acc_ok a \<Longrightarrow> acc_ok a'"
  unfolding users_update_password_def by (auto intro!: acc_ok_keys user_keys_upd simp: user_keys_def)

lemma acc_ok_users_update_last_login: "users_update_last_login a x n = Inr a' \<Longrightarrow> acc_ok a \<Longrightarrow> acc_ok a'"
  unfolding users_update_last_login_def by (auto intro!: acc_ok_keys user_keys_upd simp: user_keys_def)

lemma acc_ok_users_bump: "users_bump_tokens_valid_after a x n = Inr a' \<Longrightarrow> acc_ok a \<Longrightarrow> acc_ok a'"
  unfolding users_bump_tokens_valid_after_def by (auto intro!: acc_ok_keys user_keys_upd simp: user_keys_def)

lemma acc_ok_users_set_oidc_tokens: "users_set_oidc_tokens a x h n = Inr a' \<Longrightarrow> acc_ok a \<Longrightarrow> acc_ok a'"
  unfolding users_set_oidc_tokens_def by (auto intro!: acc_ok_keys user_keys_upd simp: user_keys_def)

lemma acc_ok_effort: "(\<And>a'. r = Inr a' \<Longrightarrow> acc_ok a') \<Longrightarrow> acc_ok a \<Longrightarrow> acc_ok (acc_effort a r)"
  by (auto simp: acc_effort_def split: sum.splits)

lemma acc_ok_users_create:
  assumes "users_create a u n = Inr (a', u')" and ok: "acc_ok a"
  shows "acc_ok a'"
proof -
  let ?i = "ac_gen_id a (ac_seq a)"
  let ?row = "u\<lparr>u_id := ?i, u_created_at := ac_now a, u_updated_at := ac_now a, u_roles := [], u_last_login := None,
     u_tokens_valid_after := ac_now a, u_oidc_id_token := []\<rparr>"
  have c: "user_checks_ok u" "u_username u \<notin> u_username ` set (ac_users a)" "\<not> email_taken a (u_username u) (u_email u)"
    and a': "a' = a\<lparr>ac_users := ac_users a @ [?row], ac_seq := Suc (ac_seq a)\<rparr>"
    using assms(1) by (auto simp: users_create_def Let_def split: if_splits)
  have fresh: "?i \<notin> u_id ` set (ac_users a)" "inj (ac_gen_id a)"
    "\<forall>i\<ge>Suc (ac_seq a). ac_gen_id a i \<notin> insert ?i (u_id ` set (ac_users a)) \<union> ut_id ` set (ac_tokens a)"
    using ok by (auto simp: acc_ok_def dest: injD)
  have em: "\<not> email_taken a' (u_username v) (u_email v)" if "v \<in> set (ac_users a')" for v
  proof (cases "v = ?row")
    case True
    with c(3) show ?thesis by (auto simp: a' email_taken_def)
  next
    case False
    with that have v: "v \<in> set (ac_users a)" by (simp add: a')
    then have "\<not> email_taken a (u_username v) (u_email v)" using ok by (simp add: acc_ok_def)
    moreover have "u_email v \<noteq> u_email u" if "u_email v \<noteq> []"
      using c(2,3) v that unfolding email_taken_def by (metis imageI)
    ultimately show ?thesis by (auto simp: a' email_taken_def)
  qed
  have "user_checks_ok ?row" using c(1) by (simp add: user_checks_ok_def)
  with ok c(2) fresh em show ?thesis unfolding acc_ok_def by (auto simp: a')
qed

lemma acc_ok_users_update:
  assumes "users_update a u n = Inr a'" and ok: "acc_ok a"
  shows "acc_ok a'"
proof (cases "a' = a")
  case False
  let ?f = "\<lambda>x :: user. x\<lparr>u_email := u_email u, u_first_name := u_first_name u, u_last_name := u_last_name u,
               u_status := u_status u, u_updated_at := ac_now a\<rparr>"
  have st: "u_status u \<in> {''active'', ''disabled''}" and e: "\<not> email_taken a (u_username u) (u_email u)"
    and a': "a' = a\<lparr>ac_users := upd_where (\<lambda>x. u_username x = u_username u) ?f (ac_users a)\<rparr>"
    using assms(1) False by (auto simp: users_update_def split: if_splits)
  have m: "map u_id (ac_users a') = map u_id (ac_users a)" "map u_username (ac_users a') = map u_username (ac_users a)"
    by (simp_all add: a' map_upd_where)
  have row: "\<not> email_taken a' (u_username v) (u_email v) \<and> user_checks_ok v \<and> u_roles v = []" if "v \<in> set (ac_users a')" for v
  proof -
    from that have "v \<in> (\<lambda>x. if u_username x = u_username u then ?f x else x) ` set (ac_users a)"
      by (simp add: a' set_upd_where)
    then obtain x where x: "x \<in> set (ac_users a)" "v = (if u_username x = u_username u then ?f x else x)"
      by (elim imageE)
    have okx: "\<not> email_taken a (u_username x) (u_email x)" "user_checks_ok x" "u_roles x = []"
      using ok x(1) by (auto simp: acc_ok_def)
    have "\<not> email_taken a' (u_username v) (u_email v)"
    proof (cases "u_username x = u_username u")
      case True
      with x(2) e show ?thesis by (auto simp: a' email_taken_def set_upd_where)
    next
      case False
      have "u_email x \<noteq> u_email u" if "u_email x \<noteq> []"
        using e x(1) False that by (auto simp: email_taken_def)
      with x(2) okx(1) False show ?thesis by (auto simp: a' email_taken_def set_upd_where)
    qed
    with x(2) okx st show ?thesis by (simp add: user_checks_ok_def)
  qed
  have "u_id ` set (ac_users a') = u_id ` set (ac_users a)" using arg_cong[OF m(1), of set] by simp
  with ok m row show ?thesis unfolding acc_ok_def by (simp add: a')
qed (use ok in simp)

lemma acc_ok_users_delete:
  assumes "users_delete a x n = Inr a'" and ok: "acc_ok a"
  shows "acc_ok a'"
proof -
  let ?gone = "u_id ` {u \<in> set (ac_users a). u_username u = x}"
  have a': "a' = a\<lparr>ac_users := filter (\<lambda>u. u_username u \<noteq> x) (ac_users a),
             ac_user_roles := filter (\<lambda>ur. fst ur \<notin> ?gone) (ac_user_roles a),
             ac_tokens := filter (\<lambda>t. ut_user_id t \<notin> ?gone) (ac_tokens a)\<rparr>"
    using assms(1) by (auto simp: users_delete_def Let_def)
  have d: "distinct (map f (filter P xs))" if "distinct (map f xs)" for f :: "'x \<Rightarrow> string" and P xs
    using that by (rule distinct_map_filter)
  have kept: "i \<in> u_id ` set (ac_users a')" if "i \<in> u_id ` set (ac_users a)" "i \<notin> ?gone" for i
    using that by (auto simp: a')
  have fk: "fst ` set (ac_user_roles a') \<subseteq> u_id ` set (ac_users a')" "ut_user_id ` set (ac_tokens a') \<subseteq> u_id ` set (ac_users a')"
    using ok kept unfolding acc_ok_def by (auto simp: a' image_subset_iff)
  have em: "\<not> email_taken a' (u_username v) (u_email v)" if "v \<in> set (ac_users a')" for v
    using ok that unfolding acc_ok_def by (auto simp: a' email_taken_def)
  show ?thesis using ok fk em unfolding acc_ok_def by (auto simp: a' d)
qed

lemma acc_ok_roles_set:
  assumes "roles_set_user_roles a i rs n = Inr a'" and ok: "acc_ok a"
  shows "acc_ok a'"
proof -
  have a': "a' = a\<lparr>ac_user_roles := filter (\<lambda>ur. fst ur \<noteq> i) (ac_user_roles a) @ map (Pair i) (remdups rs)\<rparr>"
    and fk: "rs = [] \<or> i \<in> u_id ` set (ac_users a) \<and> set rs \<subseteq> ro_id ` set (ac_role_rows a)"
    using assms(1) by (auto simp: roles_set_user_roles_def split: if_splits)
  have "distinct (map (Pair i) (remdups rs))" by (simp add: distinct_map inj_on_def)
  then have "distinct (ac_user_roles a')" using ok by (auto simp: a' acc_ok_def)
  moreover have "fst ` set (ac_user_roles a') \<subseteq> u_id ` set (ac_users a)" "snd ` set (ac_user_roles a') \<subseteq> ro_id ` set (ac_role_rows a)"
    using ok fk unfolding acc_ok_def by (auto simp: a' image_subset_iff)
  ultimately show ?thesis using ok unfolding acc_ok_def by (simp add: a' email_taken_def)
qed

lemma acc_ok_tokens_create:
  assumes "tokens_create a t n = Inr (a', t')" and ok: "acc_ok a"
  shows "acc_ok a'"
proof -
  let ?i = "ac_gen_id a (ac_seq a)"
  let ?row = "t\<lparr>ut_id := ?i, ut_created_at := ac_now a, ut_username := [], ut_token := [], ut_last_used := None\<rparr>"
  have c: "ut_user_id t \<in> u_id ` set (ac_users a)" "ut_token_hash t \<notin> ut_token_hash ` set (ac_tokens a)"
    and a': "a' = a\<lparr>ac_tokens := ac_tokens a @ [?row], ac_seq := Suc (ac_seq a)\<rparr>"
    using assms(1) by (auto simp: tokens_create_def Let_def split: if_splits)
  have fresh: "?i \<notin> ut_id ` set (ac_tokens a)"
    "\<forall>i\<ge>Suc (ac_seq a). ac_gen_id a i \<notin> u_id ` set (ac_users a) \<union> insert ?i (ut_id ` set (ac_tokens a))"
    using ok by (auto simp: acc_ok_def dest: injD)
  show ?thesis using ok c fresh unfolding acc_ok_def by (auto simp: a' email_taken_def)
qed

lemma acc_ok_tokens_delete:
  assumes "tokens_delete a i n = Inr a'" and ok: "acc_ok a"
  shows "acc_ok a'"
proof -
  have a': "a' = a\<lparr>ac_tokens := filter (\<lambda>t. ut_id t \<noteq> i) (ac_tokens a)\<rparr>" using assms(1) by (simp add: tokens_delete_def)
  have "email_taken a' = email_taken a" by (intro ext) (simp add: a' email_taken_def)
  moreover have "ut_user_id ` set (ac_tokens a') \<subseteq> u_id ` set (ac_users a)" "set (ac_tokens a') \<subseteq> set (ac_tokens a)"
    using ok by (auto simp: a' acc_ok_def)
  ultimately show ?thesis using ok unfolding acc_ok_def by (auto simp: a' distinct_map_filter)
qed

lemma acc_ok_tokens_touch:
  assumes "tokens_touch_last_used a i n = Inr a'" and ok: "acc_ok a"
  shows "acc_ok a'"
proof -
  have a': "a' = a\<lparr>ac_tokens := upd_where (\<lambda>t. ut_id t = i) (\<lambda>t. t\<lparr>ut_last_used := Some (ac_now a)\<rparr>) (ac_tokens a)\<rparr>"
    using assms(1) by (auto simp: tokens_touch_last_used_def)
  have m: "map f (ac_tokens a') = map f (ac_tokens a)" if "\<And>t x. f (t\<lparr>ut_last_used := x\<rparr>) = f t" for f :: "user_token \<Rightarrow> string"
    by (simp add: a' map_upd_where that)
  have "f ` set (ac_tokens a') = f ` set (ac_tokens a)" if "\<And>t x. f (t\<lparr>ut_last_used := x\<rparr>) = f t" for f :: "user_token \<Rightarrow> string"
    using arg_cong[OF m[OF that], of set] by simp
  with ok m show ?thesis unfolding acc_ok_def by (simp add: a' email_taken_def)
qed

lemmas acc_ok_statements =
  acc_ok_users_create acc_ok_users_update acc_ok_users_update_password acc_ok_users_delete acc_ok_users_update_last_login
  acc_ok_users_bump acc_ok_users_set_oidc_tokens acc_ok_roles_set acc_ok_tokens_create acc_ok_tokens_delete acc_ok_tokens_touch

end
