(* ===== verification/Accounts.thy ===== *)
theory Accounts
  imports Accounts_DB
begin

text \<open>
  Accounts and credentials: JWTs and password hashes (\<^verbatim>\<open>auth/auth.go\<close>), the user service with its four
  ways to log in (\<^verbatim>\<open>service/user_service.go\<close>) and API tokens (\<^verbatim>\<open>service/token_service.go\<close>). The JWT, bcrypt
  and LDAP libraries are the fields of \<open>auth_lib\<close>; what the code relies on is stated as
  hypotheses about them. A random draw of the code is an argument of its definition.
\<close>

section \<open>JWTs and passwords\<close>

record claims =
  cl_uid :: string
  cl_username :: string
  cl_roles :: "string list"
  cl_auth_method :: string
  cl_scopes :: "string list"
  cl_iat :: "time option"
  cl_exp :: "time option"
  cl_iss :: string

text \<open>
  \<open>al_date\<close> is \<^verbatim>\<open>jwt.NewNumericDate\<close>; \<open>al_parse\<close> is \<^verbatim>\<open>jwt.ParseWithClaims\<close> with the key function and
  the current time.
\<close>

record auth_lib =
  al_date :: "time \<Rightarrow> time"
  al_sign :: "string \<Rightarrow> string \<Rightarrow> claims \<Rightarrow> string result"
  al_parse :: "(string \<Rightarrow> string result) \<Rightarrow> time \<Rightarrow> string \<Rightarrow> claims result"
  al_bcrypt :: "nat \<Rightarrow> string \<Rightarrow> int \<Rightarrow> string result"
  al_compare :: "string \<Rightarrow> string \<Rightarrow> bool"
  al_sha256 :: "string \<Rightarrow> string"

record auth_svc =
  as_lib :: auth_lib
  as_secret :: string
  as_expiry_hrs :: int
  as_bcrypt_cost :: int

definition hour :: int where "hour = 3600 * 1000000000"

definition new_claims :: "auth_svc \<Rightarrow> time \<Rightarrow> string \<Rightarrow> string \<Rightarrow> string list \<Rightarrow> claims" where
  "new_claims s now userID username roles =
     \<lparr>cl_uid = userID, cl_username = username, cl_roles = roles, cl_auth_method = [], cl_scopes = [],
      cl_iat = Some (al_date (as_lib s) now), cl_exp = Some (al_date (as_lib s) (now + i64 (as_expiry_hrs s * hour))),
      cl_iss = ''nexspence''\<rparr>"

definition GenerateToken :: "auth_svc \<Rightarrow> time \<Rightarrow> string \<Rightarrow> string \<Rightarrow> string list \<Rightarrow> string result" where
  "GenerateToken s now userID username roles =
     al_sign (as_lib s) ''HS256'' (as_secret s) (new_claims s now userID username roles)"

definition GenerateTokenWithMethod :: "auth_svc \<Rightarrow> time \<Rightarrow> string \<Rightarrow> string \<Rightarrow> string list \<Rightarrow> string \<Rightarrow> string result" where
  "GenerateTokenWithMethod s now userID username roles method =
     al_sign (as_lib s) ''HS256'' (as_secret s) ((new_claims s now userID username roles)\<lparr>cl_auth_method := method\<rparr>)"

definition GenerateScopedToken :: "auth_svc \<Rightarrow> time \<Rightarrow> string \<Rightarrow> string \<Rightarrow> string list \<Rightarrow> string list \<Rightarrow> string result" where
  "GenerateScopedToken s now userID username roles scopes =
     al_sign (as_lib s) ''HS256'' (as_secret s) ((new_claims s now userID username roles)\<lparr>cl_scopes := scopes\<rparr>)"

definition hmac_key :: "auth_svc \<Rightarrow> string \<Rightarrow> string result" where
  "hmac_key s alg = (if alg \<notin> {''HS256'', ''HS384'', ''HS512''} then Inl (ErrMsg ''unexpected signing method'') else Inr (as_secret s))"

definition ValidateToken :: "auth_svc \<Rightarrow> time \<Rightarrow> string \<Rightarrow> claims result" where
  "ValidateToken s now tokenStr =
     (case al_parse (as_lib s) (hmac_key s) now tokenStr of Inl _ \<Rightarrow> Inl ErrInvalidToken | Inr claims \<Rightarrow> Inr claims)"

definition HashPassword :: "auth_svc \<Rightarrow> nat \<Rightarrow> string \<Rightarrow> string result" where
  "HashPassword s salt plain = al_bcrypt (as_lib s) salt plain (as_bcrypt_cost s)"

definition CheckPassword :: "auth_svc \<Rightarrow> string \<Rightarrow> string \<Rightarrow> unit result" where
  "CheckPassword s hash plain = (if \<not> al_compare (as_lib s) hash plain then Inl ErrBadPassword else Inr ())"

section \<open>Matching an e-mail address\<close>

text \<open>
  \<^verbatim>\<open>path.Match\<close> of the standard library, which the allow lists use: chunks between stars, matched
  leftmost first. A malformed pattern matches nothing (its error is dropped by the caller).
\<close>

fun class_char :: "string \<Rightarrow> (char \<times> string) option" where
  "class_char [] = None"
| "class_char (c # cs) =
     (if c = CHR ''-'' \<or> c = CHR '']'' then None
      else if c = CHR 0x5C then (case cs of d # e # r \<Rightarrow> Some (d, e # r) | _ \<Rightarrow> None)
      else if cs = [] then None else Some (c, cs))"

lemma class_char_shorter: "class_char s = Some (c, r) \<Longrightarrow> length r < length s"
  by (cases s) (auto split: if_splits list.splits)

function char_class :: "bool \<Rightarrow> bool \<Rightarrow> string \<Rightarrow> char \<Rightarrow> (bool \<times> string) option" where
  "char_class seen found chunk r =
     (if seen \<and> chunk \<noteq> [] \<and> hd chunk = CHR '']'' then Some (found, tl chunk)
      else (case class_char chunk of
          None \<Rightarrow> None
        | Some (lo, c1) \<Rightarrow>
            if c1 \<noteq> [] \<and> hd c1 = CHR ''-'' then
              (case class_char (tl c1) of
                 None \<Rightarrow> None
               | Some (hi, c2) \<Rightarrow> char_class True (found \<or> (lo \<le> r \<and> r \<le> hi)) c2 r)
            else char_class True (found \<or> r = lo) c1 r))"
  by pat_completeness auto
termination
proof (relation "measure (\<lambda>(seen, found, chunk, r). length chunk)", goal_cases)
  case (2 seen found chunk r x2 lo c1 x2a hi c2)
  then have "length c1 < length chunk" "length c2 < length (tl c1)" by (auto dest: class_char_shorter)
  then show ?case by simp
qed (auto dest: class_char_shorter)

lemma char_class_shorter: "char_class seen found chunk r = Some (b, rest) \<Longrightarrow> length rest < length chunk"
proof (induction seen found chunk r arbitrary: b rest rule: char_class.induct)
  case (1 seen found chunk r)
  show ?case
  proof (cases "seen \<and> chunk \<noteq> [] \<and> hd chunk = CHR '']''")
    case True
    with "1.prems" show ?thesis by (cases chunk) auto
  next
    case out: False
    then obtain lo c1 where cc: "class_char chunk = Some (lo, c1)"
      using "1.prems" by (subst (asm) char_class.simps) (auto split: option.splits)
    note l1 = class_char_shorter[OF cc]
    show ?thesis
    proof (cases "c1 \<noteq> [] \<and> hd c1 = CHR ''-''")
      case dash: True
      then obtain hi c2 where cd: "class_char (tl c1) = Some (hi, c2)"
        using "1.prems" out cc by (subst (asm) char_class.simps) (auto split: option.splits)
      have "char_class True (found \<or> (lo \<le> r \<and> r \<le> hi)) c2 r = Some (b, rest)"
        using "1.prems" out cc dash cd by (subst (asm) char_class.simps) simp
      with "1.IH"(1)[OF out cc refl dash cd refl] class_char_shorter[OF cd] l1 show ?thesis by fastforce
    next
      case nodash: False
      have "char_class True (found \<or> r = lo) c1 r = Some (b, rest)"
        using "1.prems" out cc nodash by (subst (asm) char_class.simps) simp
      with "1.IH"(2)[OF out cc refl nodash] l1 show ?thesis by fastforce
    qed
  qed
qed

declare char_class.simps [simp del]

function match_chunk :: "string \<Rightarrow> string \<Rightarrow> string option" where
  "match_chunk [] s = Some s"
| "match_chunk (c # cs) [] = None"
| "match_chunk (c # cs) (x # s) =
     (if c = CHR ''['' then
        (let neg = (cs \<noteq> [] \<and> hd cs = CHR ''^'') in
         case char_class False False (if neg then tl cs else cs) x of
           None \<Rightarrow> None
         | Some (found, rest) \<Rightarrow> if found = neg then None else match_chunk rest s)
      else if c = CHR ''?'' then (if x = slash then None else match_chunk cs s)
      else if c = CHR 0x5C then (case cs of [] \<Rightarrow> None | d # cs' \<Rightarrow> if d = x then match_chunk cs' s else None)
      else if c = x then match_chunk cs s else None)"
  by pat_completeness auto
termination by (relation "measure (\<lambda>(p, s). length s)") auto

fun scan_chunk :: "bool \<Rightarrow> string \<Rightarrow> string \<times> string" where
  "scan_chunk inrange [] = ([], [])"
| "scan_chunk inrange (c # cs) =
     (if c = CHR 0x5C then
        (case cs of [] \<Rightarrow> ([c], []) | d # cs' \<Rightarrow> (case scan_chunk inrange cs' of (ch, r) \<Rightarrow> (c # d # ch, r)))
      else if c = CHR ''*'' \<and> \<not> inrange then ([], c # cs)
      else (case scan_chunk (if c = CHR ''['' then True else if c = CHR '']'' then False else inrange) cs of
          (ch, r) \<Rightarrow> (c # ch, r)))"

fun star_match :: "string \<Rightarrow> bool \<Rightarrow> string \<Rightarrow> string option" where
  "star_match chunk lastp [] = None"
| "star_match chunk lastp (x # name) =
     (if x = slash then None
      else (case match_chunk chunk name of
          Some t \<Rightarrow> if lastp \<and> t \<noteq> [] then star_match chunk lastp name else Some t
        | None \<Rightarrow> star_match chunk lastp name))"

text \<open>Every round of the outer loop consumes some of the pattern: its length is fuel enough.\<close>

fun path_match_from :: "nat \<Rightarrow> string \<Rightarrow> string \<Rightarrow> bool" where
  "path_match_from 0 pat name = (pat = [] \<and> name = [])"
| "path_match_from (Suc n) pat name =
     (if pat = [] then name = []
      else (let star = (hd pat = CHR ''*'');
                (chunk, rest) = scan_chunk False (dropWhile (\<lambda>c. c = CHR ''*'') pat)
            in if star \<and> chunk = [] then slash \<notin> set name
               else (case match_chunk chunk name of
                   Some t \<Rightarrow>
                     if t = [] \<or> rest \<noteq> [] then path_match_from n rest t
                     else if star then (case star_match chunk (rest = []) name of Some t' \<Rightarrow> path_match_from n rest t' | None \<Rightarrow> False)
                     else False
                 | None \<Rightarrow>
                     if star then (case star_match chunk (rest = []) name of Some t' \<Rightarrow> path_match_from n rest t' | None \<Rightarrow> False)
                     else False)))"

definition path_match :: "string \<Rightarrow> string \<Rightarrow> bool" where
  "path_match pat name = path_match_from (length pat) pat name"

section \<open>The user service\<close>

record ldap_user =
  lu_dn :: string
  lu_username :: string
  lu_email :: string
  lu_first_name :: string
  lu_last_name :: string
  lu_groups :: "string list"
  lu_group_search_err :: string

text \<open>The part of \<^verbatim>\<open>OIDCConfig\<close> and \<^verbatim>\<open>SAMLConfig\<close> the service reads; a Go map is its list of pairs.\<close>

record sso_cfg =
  so_admin_group :: string
  so_role_mappings :: "(string \<times> string) list"
  so_provisioning :: string
  so_email_allowlist :: "string list"

record sso_claims =
  oc_username :: string
  oc_email :: string
  oc_first_name :: string
  oc_last_name :: string
  oc_groups :: "string list"

record user_svc =
  us_auth :: auth_svc
  us_ldap :: "(string \<Rightarrow> string \<Rightarrow> ldap_user result) option"
  us_ldap_admin_group :: string
  us_ldap_role_mappings :: "(string \<times> string) list"
  us_oidc :: bool
  us_oidc_cfg :: sso_cfg
  us_saml :: bool
  us_saml_cfg :: sso_cfg

definition new_user :: user where
  "new_user = \<lparr>u_id = [], u_username = [], u_email = [], u_password_hash = [], u_first_name = [], u_last_name = [],
     u_status = [], u_source = [], u_roles = [], u_must_reset_password = False, u_last_login = None,
     u_tokens_valid_after = 0, u_oidc_id_token = [], u_created_at = 0, u_updated_at = 0\<rparr>"

text \<open>The idiom \<^verbatim>\<open>u, err := users.Get(...); if err != nil && !errors.Is(err, ErrNotFound)\<close>.\<close>

definition get_opt :: "accounts \<Rightarrow> string \<Rightarrow> nat \<Rightarrow> user option result" where
  "get_opt a username n =
     (case users_get a username n of
        Inr u \<Rightarrow> Inr (Some u)
      | Inl e \<Rightarrow> if \<not> err_is e ErrNotFound then Inl e else Inr None)"

definition equal_fold :: "string \<Rightarrow> string \<Rightarrow> bool" where
  "equal_fold s t \<longleftrightarrow> to_lower s = to_lower t"

definition stripCNPrefix :: "string \<Rightarrow> string" where
  "stripCNPrefix s =
     (case index_str s ''='' of
        None \<Rightarrow> s
      | Some idx \<Rightarrow> (let val = drop (idx + 1) s in case index_str val '','' of None \<Rightarrow> val | Some e \<Rightarrow> take e val))"

definition oidcGroupMatch :: "string \<Rightarrow> string \<Rightarrow> bool" where
  "oidcGroupMatch a b = equal_fold (stripCNPrefix a) (stripCNPrefix b)"

definition ldapGroupMatch :: "string \<Rightarrow> string \<Rightarrow> bool" where
  "ldapGroupMatch name configured \<longleftrightarrow>
     equal_fold name configured \<or>
     (case index_str configured ''='' of
        None \<Rightarrow> False
      | Some idx \<Rightarrow>
          (let val = drop (idx + 1) configured;
               val' = (case index_str val '','' of None \<Rightarrow> val | Some e \<Rightarrow> take e val)
           in equal_fold name val'))"

text \<open>The wanted role names: the admin group, then the mappings.\<close>

definition mapped_names :: "(string \<Rightarrow> string \<Rightarrow> bool) \<Rightarrow> string \<Rightarrow> (string \<times> string) list \<Rightarrow> string \<Rightarrow> string list" where
  "mapped_names eq adminGroup mappings g =
     (if adminGroup \<noteq> [] \<and> eq g adminGroup then [''nx-admin''] else []) @
     map snd (filter (\<lambda>(mapKey, roleName). roleName \<noteq> [] \<and> eq g mapKey) mappings)"

definition set_wanted :: "accounts \<Rightarrow> string \<Rightarrow> string list \<Rightarrow> accounts result" where
  "set_wanted a userID want =
     (case roles_list a 0 of
        Inl e \<Rightarrow> Inl e
      | Inr allRoles \<Rightarrow> roles_set_user_roles a userID (map ro_id (filter (\<lambda>r. ro_name r \<in> set want) allRoles)) 0)"

definition syncLDAPRoles :: "user_svc \<Rightarrow> accounts \<Rightarrow> string \<Rightarrow> string list \<Rightarrow> accounts result" where
  "syncLDAPRoles s a userID ldapGroups =
     set_wanted a userID (concat (map (\<lambda>g. mapped_names ldapGroupMatch (us_ldap_admin_group s) (us_ldap_role_mappings s) g @ [g]) ldapGroups))"

definition syncOIDCRoles :: "user_svc \<Rightarrow> accounts \<Rightarrow> string \<Rightarrow> string list \<Rightarrow> accounts result" where
  "syncOIDCRoles s a userID groups =
     set_wanted a userID (concat (map (mapped_names oidcGroupMatch (so_admin_group (us_oidc_cfg s)) (so_role_mappings (us_oidc_cfg s))) groups))"

definition syncSAMLRoles :: "user_svc \<Rightarrow> accounts \<Rightarrow> string \<Rightarrow> string list \<Rightarrow> accounts result" where
  "syncSAMLRoles s a userID groups =
     set_wanted a userID (concat (map (mapped_names equal_fold (so_admin_group (us_saml_cfg s)) (so_role_mappings (us_saml_cfg s))) groups))"

text \<open>Reload the roles just granted for the token; on an error the old names stay.\<close>

definition reload_roles :: "accounts \<Rightarrow> user \<Rightarrow> user" where
  "reload_roles a u = (case roles_get_user_roles a (u_id u) 0 of Inr fresh \<Rightarrow> u\<lparr>u_roles := map ro_name fresh\<rparr> | Inl _ \<Rightarrow> u)"

definition inactive :: err where
  "inactive = Wrapped ''user account is not active'' ErrInvalidInput"

section \<open>Logging in\<close>

definition ldap_upsert :: "accounts \<Rightarrow> string \<Rightarrow> ldap_user \<Rightarrow> user option \<Rightarrow> (accounts \<times> user) result" where
  "ldap_upsert a username lu existing0 =
     (case existing0 of
        None \<Rightarrow>
          (case users_create a (new_user\<lparr>u_username := username, u_email := lu_email lu, u_first_name := lu_first_name lu,
               u_last_name := lu_last_name lu, u_status := ''active'', u_source := ''ldap''\<rparr>) 0 of
             Inl e \<Rightarrow> Inl (Wrapped ''create ldap user'' e)
           | Inr r \<Rightarrow> Inr r)
      | Some u \<Rightarrow>
          (let u1 = (if lu_email lu \<noteq> [] then u\<lparr>u_email := lu_email lu\<rparr> else u);
               u2 = (if lu_first_name lu \<noteq> [] then u1\<lparr>u_first_name := lu_first_name lu\<rparr> else u1);
               u3 = (if lu_last_name lu \<noteq> [] then u2\<lparr>u_last_name := lu_last_name lu\<rparr> else u2)
           in Inr (acc_effort a (users_update a u3 0), u3)))"

definition loginLDAP :: "user_svc \<Rightarrow> (string \<Rightarrow> string \<Rightarrow> ldap_user result) \<Rightarrow> accounts \<Rightarrow> string \<Rightarrow> string \<Rightarrow> user option \<Rightarrow>
    accounts \<times> (string \<times> user) result" where
  "loginLDAP s ldap a username password existing0 =
     (case ldap username password of
        Inl e \<Rightarrow> (a, Inl (Wrapped ''LDAP authentication failed'' e))
      | Inr lu \<Rightarrow>
          (case ldap_upsert a username lu existing0 of
             Inl e \<Rightarrow> (a, Inl e)
           | Inr (a1, existing) \<Rightarrow>
               if u_status existing \<noteq> ''active'' then (a1, Inl inactive)
                else (let a2 = acc_effort a1 (syncLDAPRoles s a1 (u_id existing) (lu_groups lu));
                         existing' = reload_roles a2 existing
                     in case GenerateToken (us_auth s) (ac_now a2) (u_id existing') (u_username existing') (u_roles existing') of
                          Inl e \<Rightarrow> (a2, Inl e)
                        | Inr token \<Rightarrow> (acc_effort a2 (users_update_last_login a2 username 0), Inr (token, existing')))))"

definition local_login :: "user_svc \<Rightarrow> accounts \<Rightarrow> string \<Rightarrow> string \<Rightarrow> user option \<Rightarrow> accounts \<times> (string \<times> user) result" where
  "local_login s a username password u0 =
     (case u0 of
        None \<Rightarrow> (a, Inl (Wrapped ''user'' ErrNotFound))
      | Some u \<Rightarrow>
          if u_status u \<noteq> ''active'' then (a, Inl inactive)
          else (case CheckPassword (us_auth s) (u_password_hash u) password of
                 Inl e \<Rightarrow> (a, Inl e)
               | Inr _ \<Rightarrow>
                   (case GenerateToken (us_auth s) (ac_now a) (u_id u) (u_username u) (u_roles u) of
                      Inl e \<Rightarrow> (a, Inl e)
                    | Inr token \<Rightarrow> (acc_effort a (users_update_last_login a username 0), Inr (token, u)))))"

definition Login :: "user_svc \<Rightarrow> accounts \<Rightarrow> string \<Rightarrow> string \<Rightarrow> accounts \<times> (string \<times> user) result" where
  "Login s a username password =
     (case get_opt a username 0 of
        Inl e \<Rightarrow> (a, Inl e)
      | Inr u \<Rightarrow>
          (case us_ldap s of
             Some ldap \<Rightarrow>
               if u = None \<or> u_source (the u) = ''ldap'' then
                 (let normalized = to_lower username in
                  if u = None \<and> normalized \<noteq> username then
                    (case get_opt a normalized 1 of
                       Inl e \<Rightarrow> (a, Inl e)
                     | Inr u' \<Rightarrow> loginLDAP s ldap a normalized password u')
                  else loginLDAP s ldap a normalized password u)
               else local_login s a username password u
           | None \<Rightarrow> local_login s a username password u))"

text \<open>\<^verbatim>\<open>checkProvisioning\<close> and \<^verbatim>\<open>checkSAMLProvisioning\<close> differ in the configuration they read.\<close>

definition checkProvisioning :: "sso_cfg \<Rightarrow> string \<Rightarrow> unit result" where
  "checkProvisioning cfg email =
     (let mode = (if so_provisioning cfg = [] then ''jit'' else so_provisioning cfg) in
      if mode = ''jit'' then Inr ()
      else if mode = ''allowlist'' then
        (if list_ex (\<lambda>pat. path_match (to_lower pat) email) (so_email_allowlist cfg) then Inr ()
         else Inl (Wrapped ''email not in allowlist'' ErrProvisioningRejected))
      else if mode = ''manual'' then Inl (Wrapped ''user must be pre-created by an admin'' ErrProvisioningRejected)
      else Inl (Wrapped ''unknown provisioning mode'' ErrInvalidInput))"

definition oidc_finish :: "user_svc \<Rightarrow> sso_claims \<Rightarrow> string \<Rightarrow> string \<Rightarrow> accounts \<Rightarrow> user \<Rightarrow> accounts \<times> (string \<times> user) result" where
  "oidc_finish s claims rawIDToken username a1 existing =
     (if u_status existing \<noteq> ''active'' then (a1, Inl inactive)
      else (let a2 = acc_effort a1 (syncOIDCRoles s a1 (u_id existing) (oc_groups claims));
               existing' = reload_roles a2 existing
           in case GenerateTokenWithMethod (us_auth s) (ac_now a2) (u_id existing') (u_username existing') (u_roles existing') ''oidc'' of
                Inl e \<Rightarrow> (a2, Inl e)
              | Inr token \<Rightarrow>
                  (let a3 = acc_effort a2 (users_set_oidc_tokens a2 (u_id existing') rawIDToken 0) in
                   (acc_effort a3 (users_update_last_login a3 username 0), Inr (token, existing')))))"

definition LoginOIDC :: "user_svc \<Rightarrow> accounts \<Rightarrow> sso_claims \<Rightarrow> string \<Rightarrow> accounts \<times> (string \<times> user) result" where
  "LoginOIDC s a claims rawIDToken =
     (if \<not> us_oidc s then (a, Inl (Wrapped ''oidc not configured'' ErrInvalidInput))
      else
        (let username = to_lower (trim_space (oc_username claims));
             email = to_lower (trim_space (oc_email claims))
         in if username = [] \<or> email = [] then (a, Inl (Wrapped ''claims missing username or email'' ErrInvalidInput))
            else (case get_opt a username 0 of
                Inl e \<Rightarrow> (a, Inl e)
              | Inr (Some existing) \<Rightarrow>
                  if u_source existing \<noteq> ''oidc'' then (a, Inl (Wrapped ''username is claimed'' ErrProvisioningConflict))
                  else (let u = existing\<lparr>u_email := email, u_first_name := oc_first_name claims, u_last_name := oc_last_name claims\<rparr>
                        in oidc_finish s claims rawIDToken username (acc_effort a (users_update a u 0)) u)
              | Inr None \<Rightarrow>
                  (case checkProvisioning (us_oidc_cfg s) email of
                     Inl e \<Rightarrow> (a, Inl e)
                   | Inr _ \<Rightarrow>
                       (case users_create a (new_user\<lparr>u_username := username, u_email := email, u_first_name := oc_first_name claims,
                            u_last_name := oc_last_name claims, u_status := ''active'', u_source := ''oidc''\<rparr>) 0 of
                          Inl e \<Rightarrow> (a, Inl (Wrapped ''create oidc user'' e))
                        | Inr (a1, u) \<Rightarrow> oidc_finish s claims rawIDToken username a1 u)))))"

definition saml_finish :: "user_svc \<Rightarrow> sso_claims \<Rightarrow> string \<Rightarrow> accounts \<Rightarrow> user \<Rightarrow> accounts \<times> (string \<times> user) result" where
  "saml_finish s claims username a1 existing =
     (if u_status existing \<noteq> ''active'' then (a1, Inl inactive)
      else (let a2 = acc_effort a1 (syncSAMLRoles s a1 (u_id existing) (oc_groups claims));
               existing' = reload_roles a2 existing
           in case GenerateTokenWithMethod (us_auth s) (ac_now a2) (u_id existing') (u_username existing') (u_roles existing') ''saml'' of
                Inl e \<Rightarrow> (a2, Inl e)
              | Inr token \<Rightarrow> (acc_effort a2 (users_update_last_login a2 username 0), Inr (token, existing'))))"

text \<open>A SAML assertion's display name is \<open>oc_first_name\<close>; it has no last name.\<close>

definition LoginSAML :: "user_svc \<Rightarrow> accounts \<Rightarrow> sso_claims \<Rightarrow> accounts \<times> (string \<times> user) result" where
  "LoginSAML s a claims =
     (if \<not> us_saml s then (a, Inl (Wrapped ''saml not configured'' ErrInvalidInput))
      else
        (let username = to_lower (trim_space (oc_username claims));
             email = to_lower (trim_space (oc_email claims))
         in if username = [] \<or> email = [] then (a, Inl (Wrapped ''saml claims missing username or email'' ErrInvalidInput))
            else (case get_opt a username 0 of
                Inl e \<Rightarrow> (a, Inl e)
              | Inr (Some existing) \<Rightarrow>
                  if u_source existing \<noteq> ''saml'' then (a, Inl (Wrapped ''username is claimed'' ErrProvisioningConflict))
                  else (let u = existing\<lparr>u_email := email, u_first_name := oc_first_name claims\<rparr>
                        in saml_finish s claims username (acc_effort a (users_update a u 0)) u)
              | Inr None \<Rightarrow>
                  (case checkProvisioning (us_saml_cfg s) email of
                     Inl e \<Rightarrow> (a, Inl e)
                   | Inr _ \<Rightarrow>
                       (case users_create a (new_user\<lparr>u_username := username, u_email := email, u_first_name := oc_first_name claims,
                            u_status := ''active'', u_source := ''saml''\<rparr>) 0 of
                          Inl e \<Rightarrow> (a, Inl (Wrapped ''create saml user'' e))
                        | Inr (a1, u) \<Rightarrow> saml_finish s claims username a1 u)))))"

section \<open>Administering users\<close>

definition svc_get :: "accounts \<Rightarrow> string \<Rightarrow> user result" where
  "svc_get a username = users_get a username 0"

definition taken_as :: "err \<Rightarrow> err" where
  "taken_as e = (case e of ErrUnique field \<Rightarrow> Wrapped (''user with this '' @ field) ErrAlreadyExists | _ \<Rightarrow> e)"

definition svc_create :: "user_svc \<Rightarrow> nat \<Rightarrow> accounts \<Rightarrow> user \<Rightarrow> string \<Rightarrow> accounts \<times> user result" where
  "svc_create s salt a u plainPassword =
     (if u_username u = [] then (a, Inl (Wrapped ''username is required'' ErrInvalidInput))
      else (case get_opt a (u_username u) 0 of
          Inl e \<Rightarrow> (a, Inl e)
        | Inr (Some _) \<Rightarrow> (a, Inl (Wrapped ''user'' ErrAlreadyExists))
        | Inr None \<Rightarrow>
            (case (if plainPassword \<noteq> [] then map_sum id (\<lambda>h. u\<lparr>u_password_hash := h\<rparr>) (HashPassword (us_auth s) salt plainPassword)
                   else Inr u) of
               Inl e \<Rightarrow> (a, Inl e)
             | Inr u1 \<Rightarrow>
                 (let u2 = (if u_status u1 = [] then u1\<lparr>u_status := ''active''\<rparr> else u1);
                      u3 = (if u_source u2 = [] then u2\<lparr>u_source := ''local''\<rparr> else u2)
                  in case users_create a u3 0 of
                       Inl e \<Rightarrow> (a, Inl (taken_as e))
                     | Inr (a1, u4) \<Rightarrow>
                         if u_roles u4 \<noteq> [] then
                           (case roles_set_user_roles a1 (u_id u4) (u_roles u4) 0 of Inl e \<Rightarrow> (a1, Inl e) | Inr a2 \<Rightarrow> (a2, Inr u4))
                         else (a1, Inr u4)))))"

definition svc_update :: "accounts \<Rightarrow> string \<Rightarrow> user \<Rightarrow> accounts \<times> user result" where
  "svc_update a username updates =
     (case svc_get a username of
        Inl e \<Rightarrow> (a, Inl e)
      | Inr u0 \<Rightarrow>
          (let u1 = (if u_email updates \<noteq> [] then u0\<lparr>u_email := u_email updates\<rparr> else u0);
               u2 = (if u_first_name updates \<noteq> [] then u1\<lparr>u_first_name := u_first_name updates\<rparr> else u1);
               u3 = (if u_last_name updates \<noteq> [] then u2\<lparr>u_last_name := u_last_name updates\<rparr> else u2);
               disabled = (u_status updates \<noteq> [] \<and> u_status u3 = ''active'' \<and> u_status updates \<noteq> ''active'');
               u4 = (if u_status updates \<noteq> [] then u3\<lparr>u_status := u_status updates\<rparr> else u3)
           in case users_update a u4 0 of
                Inl e \<Rightarrow> (a, Inl (taken_as e))
              | Inr a1 \<Rightarrow> (if disabled then acc_effort a1 (users_bump_tokens_valid_after a1 (u_id u4) 0) else a1, Inr u4)))"

definition set_hash :: "user_svc \<Rightarrow> nat \<Rightarrow> accounts \<Rightarrow> user \<Rightarrow> string \<Rightarrow> string \<Rightarrow> accounts \<times> unit result" where
  "set_hash s salt a u username newPassword =
     (case HashPassword (us_auth s) salt newPassword of
        Inl e \<Rightarrow> (a, Inl e)
      | Inr hash \<Rightarrow>
          (case users_update_password a username hash 0 of
             Inl e \<Rightarrow> (a, Inl e)
           | Inr a1 \<Rightarrow> (acc_effort a1 (users_bump_tokens_valid_after a1 (u_id u) 0), Inr ())))"

definition ChangePassword :: "user_svc \<Rightarrow> nat \<Rightarrow> accounts \<Rightarrow> string \<Rightarrow> string \<Rightarrow> string \<Rightarrow> accounts \<times> unit result" where
  "ChangePassword s salt a username oldPassword newPassword =
     (case svc_get a username of
        Inl e \<Rightarrow> (a, Inl e)
      | Inr u \<Rightarrow>
          (case CheckPassword (us_auth s) (u_password_hash u) oldPassword of
             Inl e \<Rightarrow> (a, Inl e)
           | Inr _ \<Rightarrow> set_hash s salt a u username newPassword))"

definition SetPassword :: "user_svc \<Rightarrow> nat \<Rightarrow> accounts \<Rightarrow> string \<Rightarrow> string \<Rightarrow> accounts \<times> unit result" where
  "SetPassword s salt a username newPassword =
     (case svc_get a username of Inl e \<Rightarrow> (a, Inl e) | Inr u \<Rightarrow> set_hash s salt a u username newPassword)"

definition svc_delete :: "accounts \<Rightarrow> string \<Rightarrow> accounts result" where
  "svc_delete a username = (case svc_get a username of Inl e \<Rightarrow> Inl e | Inr _ \<Rightarrow> users_delete a username 0)"

definition SetUserRoles :: "accounts \<Rightarrow> string \<Rightarrow> string list \<Rightarrow> accounts result" where
  "SetUserRoles a userID roleIDs =
     (case roles_set_user_roles a userID roleIDs 0 of
        Inl e \<Rightarrow> Inl e
      | Inr a1 \<Rightarrow> Inr (acc_effort a1 (users_bump_tokens_valid_after a1 userID 0)))"

section \<open>API tokens\<close>

definition TokenPrefix :: string where "TokenPrefix = ''nxs_''"

definition hex_lower :: "nat \<Rightarrow> char" where
  "hex_lower n = ''0123456789abcdef'' ! n"

definition hex_encode :: "string \<Rightarrow> string" where
  "hex_encode bs = concat (map (\<lambda>c. [hex_lower (of_char c div 16), hex_lower (of_char c mod 16)]) bs)"

definition hashToken :: "user_svc \<Rightarrow> string \<Rightarrow> string" where
  "hashToken s raw = hex_encode (al_sha256 (as_lib (us_auth s)) raw)"

text \<open>\<open>buf\<close> are the 32 random bytes, or the failure to draw them.\<close>

definition token_create :: "user_svc \<Rightarrow> string result \<Rightarrow> accounts \<Rightarrow> string \<Rightarrow> string \<Rightarrow> string list \<Rightarrow> time option \<Rightarrow>
    (accounts \<times> user_token) result" where
  "token_create s buf a userID name scopes expiresAt =
     (if trim_space name = [] then Inl (Wrapped ''token name is required'' ErrInvalidInput)
      else if \<not> list_all (\<lambda>sc. to_lower (trim_space sc) \<in> {''read'', ''write'', ''delete''}) scopes
        then Inl (Wrapped ''unknown scope'' ErrInvalidInput)
      else (case users_get_by_id a userID 0 of
          Inl e \<Rightarrow> Inl e
        | Inr u \<Rightarrow>
            (case buf of
               Inl e \<Rightarrow> Inl (Wrapped ''generate random bytes'' e)
             | Inr bytes \<Rightarrow>
                 (let raw = TokenPrefix @ hex_encode bytes;
                      tok = \<lparr>ut_id = [], ut_user_id = userID, ut_username = [], ut_name = name, ut_token_hash = hashToken s raw,
                             ut_scopes = scopes, ut_last_used = None, ut_expires_at = expiresAt, ut_created_at = 0, ut_token = []\<rparr>
                  in case tokens_create a tok 0 of
                       Inl e \<Rightarrow> Inl e
                     | Inr (a', tok') \<Rightarrow> Inr (a', tok'\<lparr>ut_token := raw, ut_username := u_username u\<rparr>)))))"

definition token_delete :: "accounts \<Rightarrow> string \<Rightarrow> accounts result" where
  "token_delete a i = tokens_delete a i 0"

definition Authenticate :: "user_svc \<Rightarrow> accounts \<Rightarrow> string \<Rightarrow> accounts \<times> (user \<times> string list) result" where
  "Authenticate s a raw =
     (if \<not> has_prefix raw TokenPrefix then (a, Inl (ErrMsg ''not an API token''))
      else (case tokens_get_by_hash a (hashToken s raw) 0 of
          Inl e \<Rightarrow> (a, Inl e)
        | Inr tok \<Rightarrow>
            if (case ut_expires_at tok of Some t \<Rightarrow> ac_now a > t | None \<Rightarrow> False) then (a, Inl (ErrMsg ''token expired''))
            else (case users_get_by_id a (ut_user_id tok) 0 of
                Inl e \<Rightarrow> (a, Inl e)
              | Inr u \<Rightarrow>
                  if u_status u \<noteq> ''active'' then (a, Inl (ErrMsg ''user account disabled''))
                  else (acc_effort a (tokens_touch_last_used a (ut_id tok) 0), Inr (u, ut_scopes tok)))))"

end
