(* ===== verification/Account_Laws.thy ===== *)
theory Account_Laws
  imports Accounts
begin

text \<open>
  What logging in and administering accounts keep: the schema in every reachable state, the accounts
  of other identity sources, the roles an identity provider dictates, and the life of an API token.
\<close>

section \<open>Every operation keeps the schema\<close>

text \<open>A property of the state an operation leaves, branch by branch.\<close>

lemma fst_case_sum: "(\<And>e. r = Inl e \<Longrightarrow> P (fst (f e))) \<Longrightarrow> (\<And>x. r = Inr x \<Longrightarrow> P (fst (g x))) \<Longrightarrow> P (fst (case r of Inl e \<Rightarrow> f e | Inr x \<Rightarrow> g x))"
  and fst_case_option: "(r' = None \<Longrightarrow> P (fst f')) \<Longrightarrow> (\<And>x. r' = Some x \<Longrightarrow> P (fst (g' x))) \<Longrightarrow> P (fst (case r' of None \<Rightarrow> f' | Some x \<Rightarrow> g' x))"
  and fst_case_prod: "(\<And>x y. p = (x, y) \<Longrightarrow> P (fst (h x y))) \<Longrightarrow> P (fst (case p of (x, y) \<Rightarrow> h x y))"
  and fst_if: "(b \<Longrightarrow> P (fst u)) \<Longrightarrow> (\<not> b \<Longrightarrow> P (fst v)) \<Longrightarrow> P (fst (if b then u else v))"
  by (auto split: sum.splits option.splits prod.splits)

lemmas fst_cases = fst_case_sum fst_case_option fst_case_prod fst_if

lemma acc_ok_set_wanted: "set_wanted a i want = Inr a' \<Longrightarrow> acc_ok a \<Longrightarrow> acc_ok a'"
  by (auto simp: set_wanted_def split: sum.splits dest: acc_ok_roles_set)

lemmas acc_ok_intros = acc_ok_effort acc_ok_statements acc_ok_set_wanted

lemma acc_ok_sync:
  "acc_ok a \<Longrightarrow> acc_ok (acc_effort a (syncLDAPRoles s a i gs))"
  "acc_ok a \<Longrightarrow> acc_ok (acc_effort a (syncOIDCRoles s a i gs))"
  "acc_ok a \<Longrightarrow> acc_ok (acc_effort a (syncSAMLRoles s a i gs))"
  by (auto simp: syncLDAPRoles_def syncOIDCRoles_def syncSAMLRoles_def intro: acc_ok_effort acc_ok_set_wanted)

lemma acc_ok_touch:
  "acc_ok a \<Longrightarrow> acc_ok (acc_effort a (users_update_last_login a x n))"
  "acc_ok a \<Longrightarrow> acc_ok (acc_effort a (users_set_oidc_tokens a x h n))"
  "acc_ok a \<Longrightarrow> acc_ok (acc_effort a (users_update a u n))"
  "acc_ok a \<Longrightarrow> acc_ok (acc_effort a (users_bump_tokens_valid_after a x n))"
  "acc_ok a \<Longrightarrow> acc_ok (acc_effort a (tokens_touch_last_used a x n))"
  by (auto intro: acc_ok_effort dest: acc_ok_statements)

lemma acc_ok_loginLDAP: "acc_ok a \<Longrightarrow> acc_ok (fst (loginLDAP s ldap a x pw u))"
  by (auto simp: loginLDAP_def ldap_upsert_def Let_def split: sum.splits option.splits dest!: acc_ok_users_create
      intro!: acc_ok_touch acc_ok_sync)

lemma acc_ok_local_login: "acc_ok a \<Longrightarrow> acc_ok (fst (local_login s a x pw u))"
  by (auto simp: local_login_def split: sum.splits option.splits intro!: acc_ok_touch)

lemma acc_ok_Login: "acc_ok a \<Longrightarrow> acc_ok (fst (Login s a x pw))"
  by (auto simp: Login_def Let_def split: sum.splits option.splits intro!: acc_ok_loginLDAP acc_ok_local_login)

lemma acc_ok_oidc_finish: "acc_ok a \<Longrightarrow> acc_ok (fst (oidc_finish s claims raw x a u))"
  by (auto simp: oidc_finish_def Let_def split: sum.splits intro!: acc_ok_touch acc_ok_sync)

lemma acc_ok_saml_finish: "acc_ok a \<Longrightarrow> acc_ok (fst (saml_finish s claims x a u))"
  by (auto simp: saml_finish_def Let_def split: sum.splits intro!: acc_ok_touch acc_ok_sync)

lemma acc_ok_LoginOIDC: "acc_ok a \<Longrightarrow> acc_ok (fst (LoginOIDC s a claims raw))"
  by (auto simp: LoginOIDC_def Let_def split: sum.splits option.splits dest!: acc_ok_users_create
      intro!: acc_ok_oidc_finish acc_ok_touch)

lemma acc_ok_LoginSAML: "acc_ok a \<Longrightarrow> acc_ok (fst (LoginSAML s a claims))"
  by (auto simp: LoginSAML_def Let_def split: sum.splits option.splits dest!: acc_ok_users_create
      intro!: acc_ok_saml_finish acc_ok_touch)

lemma acc_ok_svc_create: "acc_ok a \<Longrightarrow> acc_ok (fst (svc_create s salt a u pw))"
  unfolding svc_create_def Let_def
  by (intro fst_cases[where P = acc_ok]) (simp_all split del: if_split, (blast dest: acc_ok_users_create acc_ok_roles_set)+)

lemma acc_ok_svc_update: "acc_ok a \<Longrightarrow> acc_ok (fst (svc_update a x u))"
  unfolding svc_update_def Let_def
  by (intro fst_cases[where P = acc_ok]) (simp_all add: acc_ok_touch acc_ok_users_update)

lemma acc_ok_set_hash: "acc_ok a \<Longrightarrow> acc_ok (fst (set_hash s salt a u x pw))"
  by (auto simp: set_hash_def split: sum.splits dest!: acc_ok_users_update_password intro!: acc_ok_touch)

lemma acc_ok_passwords:
  "acc_ok a \<Longrightarrow> acc_ok (fst (ChangePassword s salt a x old new))"
  "acc_ok a \<Longrightarrow> acc_ok (fst (SetPassword s salt a x new))"
  by (auto simp: ChangePassword_def SetPassword_def split: sum.splits intro!: acc_ok_set_hash)

lemma acc_ok_SetUserRoles: "SetUserRoles a i rs = Inr a' \<Longrightarrow> acc_ok a \<Longrightarrow> acc_ok a'"
  by (auto simp: SetUserRoles_def split: sum.splits dest!: acc_ok_roles_set intro: acc_ok_touch)

lemma acc_ok_Authenticate: "acc_ok a \<Longrightarrow> acc_ok (fst (Authenticate s a raw))"
  by (auto simp: Authenticate_def split: sum.splits option.splits intro!: acc_ok_touch)

lemma acc_ok_token_create: "token_create s buf a i n sc e = Inr (a', t) \<Longrightarrow> acc_ok a \<Longrightarrow> acc_ok a'"
  by (auto simp: token_create_def Let_def split: sum.splits if_splits dest: acc_ok_tokens_create)

text \<open>
  One operation of the services, on behalf of whoever calls it; between two operations time passes and
  other calls fail.
\<close>

inductive acc_step :: "user_svc \<Rightarrow> accounts \<Rightarrow> accounts \<Rightarrow> bool" for s where
  environment: "acc_step s a (a\<lparr>ac_now := t, ac_fault := plan, ac_rows_read := k\<rparr>)"
| login: "acc_step s a (fst (Login s a username password))"
| oidc: "acc_step s a (fst (LoginOIDC s a claims rawIDToken))"
| saml: "acc_step s a (fst (LoginSAML s a claims))"
| create: "acc_step s a (fst (svc_create s salt a u password))"
| update: "acc_step s a (fst (svc_update a username u))"
| change_password: "acc_step s a (fst (ChangePassword s salt a username old new))"
| set_password: "acc_step s a (fst (SetPassword s salt a username new))"
| delete: "svc_delete a username = Inr a' \<Longrightarrow> acc_step s a a'"
| set_roles: "SetUserRoles a userID roleIDs = Inr a' \<Longrightarrow> acc_step s a a'"
| issue_token: "token_create s buf a userID name scopes expiresAt = Inr (a', tok) \<Longrightarrow> acc_step s a a'"
| drop_token: "token_delete a i = Inr a' \<Longrightarrow> acc_step s a a'"
| use_token: "acc_step s a (fst (Authenticate s a raw))"

lemma acc_step_ok: "acc_step s a a' \<Longrightarrow> acc_ok a \<Longrightarrow> acc_ok a'"
proof (induction rule: acc_step.induct)
  case (environment a t plan k)
  then show ?case by (simp add: acc_ok_def email_taken_def)
next
  case (delete a username a')
  then show ?case by (auto simp: svc_delete_def split: sum.splits dest: acc_ok_users_delete)
next
  case (drop_token a i a')
  then show ?case by (auto simp: token_delete_def dest: acc_ok_tokens_delete)
qed (simp_all add: acc_ok_Login acc_ok_LoginOIDC acc_ok_LoginSAML acc_ok_svc_create acc_ok_svc_update acc_ok_passwords
    acc_ok_SetUserRoles acc_ok_token_create acc_ok_Authenticate)

section \<open>What a call leaves alone\<close>

text \<open>The row \<open>u\<close>, its role assignments and its API tokens are the same in \<open>a'\<close> as in \<open>a\<close>.\<close>

definition spared :: "user \<Rightarrow> accounts \<Rightarrow> accounts \<Rightarrow> bool" where
  "spared u a a' \<longleftrightarrow> (u \<in> set (ac_users a) \<longrightarrow> u \<in> set (ac_users a')) \<and>
     filter (\<lambda>ur. fst ur = u_id u) (ac_user_roles a') = filter (\<lambda>ur. fst ur = u_id u) (ac_user_roles a) \<and>
     filter (\<lambda>t. ut_user_id t = u_id u) (ac_tokens a') = filter (\<lambda>t. ut_user_id t = u_id u) (ac_tokens a)"

lemma spared_refl [simp]: "spared u a a"
  by (simp add: spared_def)

lemma spared_trans [trans]: "spared u a b \<Longrightarrow> spared u b c \<Longrightarrow> spared u a c"
  by (simp add: spared_def)

lemma spared_effort: "(\<And>a'. r = Inr a' \<Longrightarrow> spared u a a') \<Longrightarrow> spared u a (acc_effort a r)"
  by (auto simp: acc_effort_def split: sum.splits)

lemma spared_create: "users_create a v n = Inr (a', v') \<Longrightarrow> spared u a a'"
  by (auto simp: users_create_def Let_def spared_def split: if_splits)

lemma spared_rows: "\<not> p u \<Longrightarrow> spared u a (a\<lparr>ac_users := upd_where p f (ac_users a)\<rparr>)"
  by (force simp: spared_def set_upd_where)

lemma spared_update: "users_update a v n = Inr a' \<Longrightarrow> u_username v \<noteq> u_username u \<Longrightarrow> spared u a a'"
  by (auto simp: users_update_def split: if_splits intro!: spared_rows)

lemma spared_last_login: "users_update_last_login a x n = Inr a' \<Longrightarrow> x \<noteq> u_username u \<Longrightarrow> spared u a a'"
  by (auto simp: users_update_last_login_def intro!: spared_rows)

lemma spared_oidc_tokens: "users_set_oidc_tokens a i h n = Inr a' \<Longrightarrow> i \<noteq> u_id u \<Longrightarrow> spared u a a'"
  by (auto simp: users_set_oidc_tokens_def intro!: spared_rows)

lemma filter_other: "i \<noteq> j \<Longrightarrow> filter (\<lambda>x. f x = j) (filter (\<lambda>x. f x \<noteq> i) xs) = filter (\<lambda>x. f x = j) xs"
  by (induction xs) auto

lemma spared_set_roles: "roles_set_user_roles a i rs n = Inr a' \<Longrightarrow> i \<noteq> u_id u \<Longrightarrow> spared u a a'"
  by (auto simp: roles_set_user_roles_def spared_def filter_empty_conv filter_other simp del: filter_filter split: if_splits)

lemma spared_sync:
  "i \<noteq> u_id u \<Longrightarrow> spared u a (acc_effort a (syncOIDCRoles s a i gs))"
  "i \<noteq> u_id u \<Longrightarrow> spared u a (acc_effort a (syncSAMLRoles s a i gs))"
  by (auto simp: syncOIDCRoles_def syncSAMLRoles_def set_wanted_def intro!: spared_effort split: sum.splits dest: spared_set_roles)

lemma reload_roles_keeps [simp]:
  "u_id (reload_roles a u) = u_id u" "u_username (reload_roles a u) = u_username u" "u_source (reload_roles a u) = u_source u"
  "u_status (reload_roles a u) = u_status u"
  by (simp_all add: reload_roles_def split: sum.splits)

lemma spared_oidc_finish:
  assumes "u_id v \<noteq> u_id u" "x \<noteq> u_username u"
  shows "spared u a (fst (oidc_finish s claims raw x a v))"
proof -
  let ?a2 = "acc_effort a (syncOIDCRoles s a (u_id v) (oc_groups claims))"
  let ?a3 = "acc_effort ?a2 (users_set_oidc_tokens ?a2 (u_id v) raw 0)"
  have s2: "spared u a ?a2" using assms(1) by (rule spared_sync)
  have "spared u ?a2 ?a3" using assms(1) by (auto intro: spared_effort dest: spared_oidc_tokens)
  moreover have "spared u ?a3 (acc_effort ?a3 (users_update_last_login ?a3 x 0))"
    using assms(2) by (auto intro: spared_effort dest: spared_last_login)
  ultimately have s4: "spared u a (acc_effort ?a3 (users_update_last_login ?a3 x 0))"
    using s2 by (blast intro: spared_trans)
  show ?thesis unfolding oidc_finish_def Let_def
    by (intro fst_cases[where P = "spared u a"]) (simp_all add: s2 s4)
qed

lemma spared_saml_finish:
  assumes "u_id v \<noteq> u_id u" "x \<noteq> u_username u"
  shows "spared u a (fst (saml_finish s claims x a v))"
proof -
  let ?a2 = "acc_effort a (syncSAMLRoles s a (u_id v) (oc_groups claims))"
  have s2: "spared u a ?a2" using assms(1) by (rule spared_sync)
  moreover have "spared u ?a2 (acc_effort ?a2 (users_update_last_login ?a2 x 0))"
    using assms(2) by (auto intro: spared_effort dest: spared_last_login)
  ultimately have s3: "spared u a (acc_effort ?a2 (users_update_last_login ?a2 x 0))"
    by (blast intro: spared_trans)
  show ?thesis unfolding saml_finish_def Let_def
    by (intro fst_cases[where P = "spared u a"]) (simp_all add: s2 s3)
qed

lemma users_get_row:
  "users_get a x n = Inr u \<Longrightarrow> u_username u = x \<and> (\<exists>r \<in> set (ac_users a). u_roles r = u_roles r \<and> r\<lparr>u_roles := u_roles u\<rparr> = u)"
  by (auto simp: users_get_def with_roles_def split: option.splits sum.splits dest!: find_SomeD)

lemma get_opt_row: "get_opt a x n = Inr (Some u) \<Longrightarrow> u_username u = x \<and> (\<exists>r \<in> set (ac_users a). r\<lparr>u_roles := u_roles u\<rparr> = u)"
  by (auto simp: get_opt_def split: sum.splits if_splits dest!: users_get_row)

lemma get_opt_none: "get_opt a x n = Inr None \<Longrightarrow> u \<in> set (ac_users a) \<Longrightarrow> u_username u \<noteq> x"
  by (auto simp: get_opt_def users_get_def with_roles_def acc_io_def userRoleNames_def split: sum.splits if_splits option.splits
      dest: find_NoneD)

text \<open>The account a claim names is another one than a row of a different source.\<close>

lemma other_source_row:
  assumes ok: "acc_ok a" and u: "u \<in> set (ac_users a)" "u_source u \<noteq> src"
    and v: "get_opt a x n = Inr (Some v)" "u_source v = src"
  shows "u_id v \<noteq> u_id u" "u_username v \<noteq> u_username u"
proof -
  obtain r where r: "r \<in> set (ac_users a)" "r\<lparr>u_roles := u_roles v\<rparr> = v" using get_opt_row[OF v(1)] by blast
  have sel: "u_source r = u_source v" "u_id r = u_id v" "u_username r = u_username v" by (subst r(2)[symmetric], simp)+
  then have "r \<noteq> u" using u(2) v(2) by auto
  with ok r(1) u(1) sel show "u_id v \<noteq> u_id u" "u_username v \<noteq> u_username u"
    unfolding acc_ok_def by (auto dest: inj_onD simp: distinct_map)
qed

lemma fresh_id:
  assumes "acc_ok a" "users_create a v n = Inr (a', v')" "u \<in> set (ac_users a)"
  shows "u_id v' \<noteq> u_id u" "u_username v' = u_username v" "u_source v' = u_source v" "u_status v' = u_status v"
  using assms by (auto simp: users_create_def Let_def acc_ok_def split: if_splits)

lemma spared_LoginOIDC:
  assumes ok: "acc_ok a" and u: "u \<in> set (ac_users a)" "u_source u \<noteq> ''oidc''"
  shows "spared u a (fst (LoginOIDC s a claims raw))"
proof -
  let ?x = "to_lower (trim_space (oc_username claims))"
  have old: "spared u a (fst (oidc_finish s claims raw ?x (acc_effort a (users_update a v' 0)) v'))"
    if "get_opt a ?x 0 = Inr (Some v)" "u_source v = ''oidc''" "u_id v' = u_id v" "u_username v' = u_username v" for v v'
  proof -
    note other_source_row[OF ok u that(1,2)]
    moreover have "?x = u_username v" using get_opt_row[OF that(1)] by simp
    ultimately have "spared u a (acc_effort a (users_update a v' 0))"
      "spared u (acc_effort a (users_update a v' 0)) (fst (oidc_finish s claims raw ?x (acc_effort a (users_update a v' 0)) v'))"
      using that(3,4) by (auto intro!: spared_effort spared_oidc_finish dest: spared_update)
    then show ?thesis by (rule spared_trans)
  qed
  have new: "spared u a (fst (oidc_finish s claims raw ?x a1 v'))"
    if "get_opt a ?x 0 = Inr None" "users_create a v 0 = Inr (a1, v')" for a1 v v'
    by (rule spared_trans[OF spared_create[OF that(2)] spared_oidc_finish])
      (use fresh_id(1)[OF ok that(2) u(1)] get_opt_none[OF that(1) u(1)] in auto)
  show ?thesis unfolding LoginOIDC_def Let_def
    by (intro fst_cases[where P = "spared u a"]) (simp_all add: old new)
qed

lemma spared_LoginSAML:
  assumes ok: "acc_ok a" and u: "u \<in> set (ac_users a)" "u_source u \<noteq> ''saml''"
  shows "spared u a (fst (LoginSAML s a claims))"
proof -
  let ?x = "to_lower (trim_space (oc_username claims))"
  have old: "spared u a (fst (saml_finish s claims ?x (acc_effort a (users_update a v' 0)) v'))"
    if "get_opt a ?x 0 = Inr (Some v)" "u_source v = ''saml''" "u_id v' = u_id v" "u_username v' = u_username v" for v v'
  proof -
    note other_source_row[OF ok u that(1,2)]
    moreover have "?x = u_username v" using get_opt_row[OF that(1)] by simp
    ultimately have "spared u a (acc_effort a (users_update a v' 0))"
      "spared u (acc_effort a (users_update a v' 0)) (fst (saml_finish s claims ?x (acc_effort a (users_update a v' 0)) v'))"
      using that(3,4) by (auto intro!: spared_effort spared_saml_finish dest: spared_update)
    then show ?thesis by (rule spared_trans)
  qed
  have new: "spared u a (fst (saml_finish s claims ?x a1 v'))"
    if "get_opt a ?x 0 = Inr None" "users_create a v 0 = Inr (a1, v')" for a1 v v'
    by (rule spared_trans[OF spared_create[OF that(2)] spared_saml_finish])
      (use fresh_id(1)[OF ok that(2) u(1)] get_opt_none[OF that(1) u(1)] in auto)
  show ?thesis unfolding LoginSAML_def Let_def
    by (intro fst_cases[where P = "spared u a"]) (simp_all add: old new)
qed

lemma snd_cases:
  "(\<And>e. r = Inl e \<Longrightarrow> P (snd (f e))) \<Longrightarrow> (\<And>x. r = Inr x \<Longrightarrow> P (snd (g x))) \<Longrightarrow> P (snd (case r of Inl e \<Rightarrow> f e | Inr x \<Rightarrow> g x))"
  "(r' = None \<Longrightarrow> P (snd f')) \<Longrightarrow> (\<And>x. r' = Some x \<Longrightarrow> P (snd (g' x))) \<Longrightarrow> P (snd (case r' of None \<Rightarrow> f' | Some x \<Rightarrow> g' x))"
  "(\<And>x y. p = (x, y) \<Longrightarrow> P (snd (h x y))) \<Longrightarrow> P (snd (case p of (x, y) \<Rightarrow> h x y))"
  "(b \<Longrightarrow> P (snd u)) \<Longrightarrow> (\<not> b \<Longrightarrow> P (snd v)) \<Longrightarrow> P (snd (if b then u else v))"
  by (auto split: sum.splits option.splits prod.splits)

lemma oidc_finish_user: "snd (oidc_finish s claims raw x a v) = Inr (tok, v') \<Longrightarrow>
    u_id v' = u_id v \<and> u_username v' = u_username v \<and> u_source v' = u_source v \<and> u_status v' = ''active'' \<and> u_status v = ''active''"
  by (auto simp: oidc_finish_def Let_def split: if_splits sum.splits)

lemma saml_finish_user: "snd (saml_finish s claims x a v) = Inr (tok, v') \<Longrightarrow>
    u_id v' = u_id v \<and> u_username v' = u_username v \<and> u_source v' = u_source v \<and> u_status v' = ''active'' \<and> u_status v = ''active''"
  by (auto simp: saml_finish_def Let_def split: if_splits sum.splits)

lemma users_create_fields: "users_create a v n = Inr (a', v') \<Longrightarrow> u_username v' = u_username v \<and> u_source v' = u_source v \<and> u_status v' = u_status v \<and> u_roles v' = u_roles v"
  by (auto simp: users_create_def Let_def split: if_splits)

lemma LoginOIDC_user: "snd (LoginOIDC s a claims raw) = Inr (tok, v) \<Longrightarrow> u_source v = ''oidc'' \<and> u_status v = ''active''"
  by (auto simp: LoginOIDC_def Let_def split: if_splits sum.splits option.splits dest!: oidc_finish_user users_create_fields)

lemma LoginSAML_user: "snd (LoginSAML s a claims) = Inr (tok, v) \<Longrightarrow> u_source v = ''saml'' \<and> u_status v = ''active''"
  by (auto simp: LoginSAML_def Let_def split: if_splits sum.splits option.splits dest!: saml_finish_user users_create_fields)

text \<open>
  C25. Signing in through an identity provider touches no account of another source, whatever user name
  the provider asserts: a local (or LDAP, or SAML) account keeps its row, its role assignments and its
  API tokens through every OIDC login, and an account that is not a SAML account through every SAML
  login, with any call failing; and the session handed out is for an active account of the provider's
  own source.
\<close>

theorem sso_touches_only_its_source:
  assumes "acc_ok a" and "u \<in> set (ac_users a)"
  shows "(u_source u \<noteq> ''oidc'' \<longrightarrow> spared u a (fst (LoginOIDC s a claims rawIDToken))) \<and>
    (u_source u \<noteq> ''saml'' \<longrightarrow> spared u a (fst (LoginSAML s a claims))) \<and>
    (\<forall>tok v. snd (LoginOIDC s a claims rawIDToken) = Inr (tok, v) \<longrightarrow> u_source v = ''oidc'' \<and> u_status v = ''active'') \<and>
    (\<forall>tok v. snd (LoginSAML s a claims) = Inr (tok, v) \<longrightarrow> u_source v = ''saml'' \<and> u_status v = ''active'')"
  using spared_LoginOIDC spared_LoginSAML LoginOIDC_user LoginSAML_user assms by blast

section \<open>Roles from the identity provider\<close>

lemma map_filter_append: "List.map_filter f (xs @ ys) = List.map_filter f xs @ List.map_filter f ys"
  by (induction xs) (auto simp: List.map_filter_def)

lemma map_filter_none: "(\<And>x. x \<in> set xs \<Longrightarrow> f x = None) \<Longrightarrow> List.map_filter f xs = []"
  by (induction xs) (auto simp: List.map_filter_def)

lemma set_map_filter: "set (List.map_filter f xs) = {y. \<exists>x \<in> set xs. f x = Some y}"
  by (induction xs) (auto simp: List.map_filter_def)

lemma find_role_id: "distinct (map ro_id rows) \<Longrightarrow> r \<in> set rows \<Longrightarrow> find (\<lambda>x. ro_id x = ro_id r) rows = Some r"
  by (rule find_unique) (auto simp: distinct_map dest: inj_onD)

lemma roles_of_cong: "ac_user_roles a = ac_user_roles b \<Longrightarrow> ac_role_rows a = ac_role_rows b \<Longrightarrow> roles_of a i = roles_of b i"
  by (simp add: roles_of_def cong: if_cong)

text \<open>An assignment of wanted names is complete and exclusive.\<close>

lemma set_wanted_roles:
  assumes ok: "acc_ok a" and nf: "ac_fault a = no_faults" and i: "i \<in> u_id ` set (ac_users a)"
  obtains a' where "set_wanted a i want = Inr a'" "ac_fault a' = no_faults" "ac_role_rows a' = ac_role_rows a"
    "ac_users a' = ac_users a" "ac_now a' = ac_now a"
    "ro_name ` set (roles_of a' i) = {n \<in> set want. n \<in> ro_name ` set (ac_role_rows a)}"
proof -
  let ?rows = "sort_key ro_name (ac_role_rows a)"
  let ?ids = "map ro_id (filter (\<lambda>r. ro_name r \<in> set want) ?rows)"
  let ?a' = "a\<lparr>ac_user_roles := filter (\<lambda>ur. fst ur \<noteq> i) (ac_user_roles a) @ map (Pair i) (remdups ?ids)\<rparr>"
  have "set_wanted a i want = Inr ?a'"
    using nf i by (auto simp: set_wanted_def roles_list_def acc_io_def roles_set_user_roles_def)
  moreover have "ro_name ` set (roles_of ?a' i) = {n \<in> set want. n \<in> ro_name ` set (ac_role_rows a)}"
  proof -
    have d: "distinct (map ro_id (ac_role_rows a))" using ok by (simp add: acc_ok_def)
    have "set (roles_of ?a' i) = {r. \<exists>j \<in> set ?ids. find (\<lambda>r. ro_id r = j) (ac_role_rows a) = Some r}"
      by (auto simp: roles_of_def map_filter_append map_filter_none set_map_filter)
    also have "\<dots> = {r \<in> set (ac_role_rows a). ro_name r \<in> set want}"
      using find_role_id[OF d] by auto
    finally show ?thesis by auto
  qed
  ultimately show ?thesis using nf by (intro that[of ?a']) simp_all
qed

lemma reload_roles_names: "ac_fault a = no_faults \<Longrightarrow> u_roles (reload_roles a v) = map ro_name (roles_of a (u_id v))"
  by (simp add: reload_roles_def roles_get_user_roles_def acc_io_def)

definition oidc_wanted :: "sso_cfg \<Rightarrow> string list \<Rightarrow> string \<Rightarrow> bool" where
  "oidc_wanted cfg groups n \<longleftrightarrow>
     (\<exists>g \<in> set groups. (n = ''nx-admin'' \<and> so_admin_group cfg \<noteq> [] \<and> oidcGroupMatch g (so_admin_group cfg)) \<or>
        (n \<noteq> [] \<and> (\<exists>k. (k, n) \<in> set (so_role_mappings cfg) \<and> oidcGroupMatch g k)))"

lemma oidc_wanted_names:
  "n \<in> set (concat (map (mapped_names oidcGroupMatch (so_admin_group cfg) (so_role_mappings cfg)) groups)) \<longleftrightarrow> oidc_wanted cfg groups n"
  by (force simp: oidc_wanted_def mapped_names_def)

lemma users_update_frame: "users_update a v n = Inr a' \<Longrightarrow> ac_fault a' = ac_fault a \<and> ac_role_rows a' = ac_role_rows a \<and>
    ac_now a' = ac_now a \<and> map u_id (ac_users a') = map u_id (ac_users a)"
  by (cases "a' = a") (simp_all add: users_update_def map_upd_where split: if_split_asm, auto simp: map_upd_where)

lemma acc_effort_Inr [simp]: "acc_effort a (Inr a') = a'" and acc_effort_Inl [simp]: "acc_effort a (Inl e) = a"
  by (simp_all add: acc_effort_def)

lemma users_create_frame: "users_create a v n = Inr (a', v') \<Longrightarrow> ac_fault a' = ac_fault a \<and> ac_role_rows a' = ac_role_rows a \<and>
    ac_now a' = ac_now a \<and> u_id v' \<in> u_id ` set (ac_users a')"
  by (auto simp: users_create_def Let_def split: if_splits)

lemma oidc_finish_roles:
  assumes ok: "acc_ok a" and nf: "ac_fault a = no_faults" and i: "u_id v \<in> u_id ` set (ac_users a)"
    and r: "oidc_finish s claims raw x a v = (a', Inr (tok, v'))"
  shows "set (u_roles v') = {n. oidc_wanted (us_oidc_cfg s) (oc_groups claims) n \<and> n \<in> ro_name ` set (ac_role_rows a)} \<and>
    map ro_name (roles_of a' (u_id v')) = u_roles v' \<and>
    GenerateTokenWithMethod (us_auth s) (ac_now a) (u_id v') (u_username v') (u_roles v') ''oidc'' = Inr tok"
proof -
  obtain a2 where a2: "syncOIDCRoles s a (u_id v) (oc_groups claims) = Inr a2" "ac_fault a2 = no_faults"
    "ac_role_rows a2 = ac_role_rows a" "ac_now a2 = ac_now a"
    "ro_name ` set (roles_of a2 (u_id v)) = {n. oidc_wanted (us_oidc_cfg s) (oc_groups claims) n \<and> n \<in> ro_name ` set (ac_role_rows a)}"
    unfolding syncOIDCRoles_def
    by (rule set_wanted_roles[OF ok nf i, of "concat (map (mapped_names oidcGroupMatch (so_admin_group (us_oidc_cfg s)) (so_role_mappings (us_oidc_cfg s))) (oc_groups claims))",
          unfolded oidc_wanted_names])
  let ?a3 = "acc_effort a2 (users_set_oidc_tokens a2 (u_id v) raw 0)"
  let ?a4 = "acc_effort ?a3 (users_update_last_login ?a3 x 0)"
  have r': "v' = reload_roles a2 v" "a' = ?a4"
    "GenerateTokenWithMethod (us_auth s) (ac_now a) (u_id v) (u_username v) (u_roles v') ''oidc'' = Inr tok"
  proof -
    let ?tok = "GenerateTokenWithMethod (us_auth s) (ac_now a) (u_id v) (u_username v) (u_roles (reload_roles a2 v)) ''oidc''"
    have "oidc_finish s claims raw x a v = (if u_status v \<noteq> ''active'' then (a, Inl inactive)
      else case ?tok of Inl e \<Rightarrow> (a2, Inl e) | Inr token \<Rightarrow> (?a4, Inr (token, reload_roles a2 v)))"
      unfolding oidc_finish_def Let_def a2(1) acc_effort_Inr a2(4) reload_roles_keeps ..
    with r have "?tok = Inr tok \<and> v' = reload_roles a2 v \<and> a' = ?a4" by (cases ?tok) (auto split: if_splits)
    then show "v' = reload_roles a2 v" "a' = ?a4"
      "GenerateTokenWithMethod (us_auth s) (ac_now a) (u_id v) (u_username v) (u_roles v') ''oidc'' = Inr tok" by auto
  qed
  have "roles_of ?a4 (u_id v) = roles_of a2 (u_id v)"
    by (rule roles_of_cong) (auto simp: acc_effort_def users_set_oidc_tokens_def users_update_last_login_def acc_io_def)
  with r' a2(5) reload_roles_names[OF a2(2)] show ?thesis by simp
qed

lemma acc_effort_update:
  "acc_ok a \<Longrightarrow> acc_ok (acc_effort a (users_update a v n))"
  "ac_fault (acc_effort a (users_update a v n)) = ac_fault a"
  "ac_role_rows (acc_effort a (users_update a v n)) = ac_role_rows a"
  "ac_now (acc_effort a (users_update a v n)) = ac_now a"
  "map u_id (ac_users (acc_effort a (users_update a v n))) = map u_id (ac_users a)"
  using users_update_frame[of a v n] acc_ok_touch(3) by (auto simp: acc_effort_def split: sum.splits)

lemma acc_effort_update_ids [simp]: "u_id ` set (ac_users (acc_effort a (users_update a v n))) = u_id ` set (ac_users a)"
  using arg_cong[OF acc_effort_update(5), of set] by simp

text \<open>
  C26. The identity provider is the source of truth for roles: after a successful OIDC login during which no
  database call fails, the account has exactly the existing roles its groups map to (the administrator role for the configured
  administrator group, and each mapped role), nothing of what it had before; the same names are in
  the returned user and in the signed session token.
\<close>

theorem oidc_login_replaces_roles:
  assumes "acc_ok a" and "ac_fault a = no_faults"
    and "LoginOIDC s a claims rawIDToken = (a', Inr (tok, v))"
  shows "set (u_roles v) = {n. oidc_wanted (us_oidc_cfg s) (oc_groups claims) n \<and> n \<in> ro_name ` set (ac_role_rows a)} \<and>
    map ro_name (roles_of a' (u_id v)) = u_roles v \<and>
    GenerateTokenWithMethod (us_auth s) (ac_now a) (u_id v) (u_username v) (u_roles v) ''oidc'' = Inr tok"
proof -
  let ?x = "to_lower (trim_space (oc_username claims))" and ?e = "to_lower (trim_space (oc_email claims))"
  have on: "us_oidc s" "\<not> (?x = [] \<or> ?e = [])"
    using assms(3) by (auto simp: LoginOIDC_def Let_def split: if_splits)
  consider (old) w v0 where "get_opt a ?x 0 = Inr (Some w)" "u_id v0 = u_id w"
      "oidc_finish s claims rawIDToken ?x (acc_effort a (users_update a v0 0)) v0 = (a', Inr (tok, v))"
    | (new) v0 a1 v1 where "users_create a v0 0 = Inr (a1, v1)" "oidc_finish s claims rawIDToken ?x a1 v1 = (a', Inr (tok, v))"
  proof (cases "get_opt a ?x 0")
    case (Inr w)
    then show ?thesis
    proof (cases w)
      case None
      with Inr assms(3) on show ?thesis
        by (auto simp: LoginOIDC_def Let_def split: sum.splits intro: new)
    next
      case (Some w')
      with Inr assms(3) on
        old[of w' "w'\<lparr>u_email := ?e, u_first_name := oc_first_name claims, u_last_name := oc_last_name claims\<rparr>"]
      show ?thesis by (simp add: LoginOIDC_def Let_def split: if_split_asm)
    qed
  qed (use assms(3) on in \<open>simp add: LoginOIDC_def Let_def\<close>)
  then show ?thesis
  proof cases
    case old
    have "u_id v0 \<in> u_id ` set (ac_users a)"
    proof -
      obtain r where r: "r \<in> set (ac_users a)" "r\<lparr>u_roles := u_roles w\<rparr> = w" using get_opt_row[OF old(1)] by blast
      have "u_id r = u_id w" by (subst r(2)[symmetric]) simp
      with r(1) old(2) show ?thesis by (metis imageI)
    qed
    with oidc_finish_roles[OF _ _ _ old(3)] assms(1,2) show ?thesis by (simp add: acc_effort_update)
  next
    case new
    with oidc_finish_roles[OF acc_ok_users_create[OF new(1) assms(1)] _ _ new(2)] users_create_frame[OF new(1)] assms(2)
    show ?thesis by simp
  qed
qed

section \<open>The life of an API token\<close>

lemma users_get_by_id_ok:
  "ac_fault a = no_faults \<Longrightarrow> users_get_by_id a i n =
    (case find (\<lambda>u. u_id u = i) (ac_users a) of None \<Rightarrow> Inl ErrNotFound | Some u \<Rightarrow> Inr (u\<lparr>u_roles := map ro_name (roles_of a (u_id u))\<rparr>))"
  by (simp add: users_get_by_id_def acc_io_def with_roles_def userRoleNames_def split: option.splits)

lemma tokens_get_by_hash_ok:
  "ac_fault a = no_faults \<Longrightarrow> tokens_get_by_hash a h n =
    (case Option.bind (find (\<lambda>t. ut_token_hash t = h) (ac_tokens a)) (join_user a) of None \<Rightarrow> Inl ErrNotFound | Some t \<Rightarrow> Inr t)"
  by (simp add: tokens_get_by_hash_def acc_io_def)

lemma Authenticate_unknown:
  assumes "ac_fault a = no_faults" "has_prefix raw TokenPrefix" "hashToken s raw \<notin> ut_token_hash ` set (ac_tokens a)"
  shows "snd (Authenticate s a raw) = Inl ErrNotFound"
proof -
  have "find (\<lambda>t. ut_token_hash t = hashToken s raw) (ac_tokens a) = None"
    using assms(3) by (metis (mono_tags, lifting) find_None_iff imageI)
  with assms(1,2) show ?thesis by (simp add: Authenticate_def tokens_get_by_hash_ok)
qed

lemma token_create_ok:
  assumes "token_create s (Inr bytes) a i name scopes expiresAt = Inr (a1, tok)"
  obtains row where "a1 = a\<lparr>ac_tokens := ac_tokens a @ [row], ac_seq := Suc (ac_seq a)\<rparr>"
    "ut_token row = []" "ut_token_hash row = hashToken s (ut_token tok)" "ut_id row = ut_id tok" "ut_user_id row = i"
    "ut_scopes row = scopes" "ut_expires_at row = expiresAt" "has_prefix (ut_token tok) TokenPrefix"
    "ut_token_hash row \<notin> ut_token_hash ` set (ac_tokens a)" "ut_token tok = TokenPrefix @ hex_encode bytes"
  using assms
  by (auto simp: token_create_def tokens_create_def Let_def split: if_splits sum.splits)

lemma find_append_fresh: "f x \<notin> f ` set xs \<Longrightarrow> find (\<lambda>y. f y = f x) (xs @ [x]) = Some x"
  by (induction xs) auto

text \<open>
  C27. An API token that was just issued opens the account it was issued for, with exactly the scopes
  it was created with, as long as its expiry time has not passed and the account is active; what
  the database keeps of it is its digest, not its text; and once it is revoked, or its account is
  deleted, presenting it fails.
\<close>

theorem api_token_lifecycle:
  assumes ok: "acc_ok a" and nf: "ac_fault a = no_faults"
    and c: "token_create s (Inr bytes) a userID name scopes expiresAt = Inr (a1, tok)"
    and u: "find (\<lambda>u. u_id u = userID) (ac_users a) = Some u"
  shows "snd (Authenticate s (a1\<lparr>ac_now := t\<rparr>) (ut_token tok)) =
      (if \<exists>x. expiresAt = Some x \<and> t > x then Inl (ErrMsg ''token expired'')
       else if u_status u \<noteq> ''active'' then Inl (ErrMsg ''user account disabled'')
       else Inr (u\<lparr>u_roles := map ro_name (roles_of a userID)\<rparr>, scopes)) \<and>
    (\<exists>row. ac_tokens a1 = ac_tokens a @ [row] \<and> ut_token row = [] \<and> ut_token_hash row = hashToken s (ut_token tok)) \<and>
    (\<forall>a2. token_delete a1 (ut_id tok) = Inr a2 \<longrightarrow> snd (Authenticate s (a2\<lparr>ac_now := t\<rparr>) (ut_token tok)) = Inl ErrNotFound) \<and>
    (\<forall>a3. svc_delete a1 (u_username u) = Inr a3 \<longrightarrow> snd (Authenticate s (a3\<lparr>ac_now := t\<rparr>) (ut_token tok)) = Inl ErrNotFound)"
    (is "?opens \<and> ?digest \<and> ?revoked \<and> ?deleted")
proof (intro conjI)
  obtain row where row: "a1 = a\<lparr>ac_tokens := ac_tokens a @ [row], ac_seq := Suc (ac_seq a)\<rparr>"
    "ut_token row = []" "ut_token_hash row = hashToken s (ut_token tok)" "ut_id row = ut_id tok" "ut_user_id row = userID"
    "ut_scopes row = scopes" "ut_expires_at row = expiresAt" "has_prefix (ut_token tok) TokenPrefix"
    "ut_token_hash row \<notin> ut_token_hash ` set (ac_tokens a)"
    using token_create_ok[OF c] by metis
  have uid: "u_id u = userID" "u \<in> set (ac_users a)" using find_SomeD[OF u] by auto
  have found: "find (\<lambda>t. ut_token_hash t = hashToken s (ut_token tok)) (ac_tokens a1) = Some row"
    using find_append_fresh[of ut_token_hash row, OF row(9)] row(1,3) by simp
  have roles: "roles_of (a1\<lparr>ac_now := t\<rparr>) userID = roles_of a userID" by (rule roles_of_cong) (simp_all add: row(1))
  have get: "users_get_by_id (a1\<lparr>ac_now := t\<rparr>) userID 0 = Inr (u\<lparr>u_roles := map ro_name (roles_of a userID)\<rparr>)"
    using nf u roles uid(1) by (simp add: users_get_by_id_ok row(1))
  have hash: "tokens_get_by_hash (a1\<lparr>ac_now := t\<rparr>) (hashToken s (ut_token tok)) 0 = Inr (row\<lparr>ut_username := u_username u\<rparr>)"
    using nf found u row(5) by (simp add: tokens_get_by_hash_ok row(1) join_user_def)
  show ?opens using row(5-8) get hash by (auto simp: Authenticate_def split: option.splits)
  show ?digest using row(1-3) by auto
  have ok1: "acc_ok a1" using acc_ok_token_create[OF c ok] .
  have only: "x = row" if "x \<in> set (ac_tokens a1)" "ut_token_hash x = hashToken s (ut_token tok)" for x
    using that row(1,3,9) by (auto simp: image_iff)
  show ?revoked
  proof (intro allI impI)
    fix a2 assume "token_delete a1 (ut_id tok) = Inr a2"
    then have a2: "a2 = a1\<lparr>ac_tokens := filter (\<lambda>t. ut_id t \<noteq> ut_id tok) (ac_tokens a1)\<rparr>"
      by (simp add: token_delete_def tokens_delete_def)
    have "hashToken s (ut_token tok) \<notin> ut_token_hash ` set (ac_tokens a2)"
      using only row(4) by (auto simp: a2)
    then show "snd (Authenticate s (a2\<lparr>ac_now := t\<rparr>) (ut_token tok)) = Inl ErrNotFound"
      using row(1,8) nf by (intro Authenticate_unknown) (simp_all add: a2)
  qed
  show ?deleted
  proof (intro allI impI)
    fix a3 assume "svc_delete a1 (u_username u) = Inr a3"
    then have a3: "users_delete a1 (u_username u) 0 = Inr a3" by (auto simp: svc_delete_def split: sum.splits)
    then have a3': "ac_tokens a3 = filter (\<lambda>t. ut_user_id t \<notin> u_id ` {v \<in> set (ac_users a1). u_username v = u_username u}) (ac_tokens a1)"
      "ac_fault a3 = ac_fault a1"
      by (simp_all add: users_delete_def Let_def acc_io_def split: if_splits, auto)
    have "u \<in> {v \<in> set (ac_users a1). u_username v = u_username u}" using uid(2) row(1) by simp
    then have "userID \<in> u_id ` {v \<in> set (ac_users a1). u_username v = u_username u}" using uid(1) by (metis imageI)
    then have "userID \<notin> ut_user_id ` set (ac_tokens a3)" unfolding a3'(1) using uid(1) by auto
    moreover have "set (ac_tokens a3) \<subseteq> set (ac_tokens a1)" unfolding a3'(1) by auto
    ultimately have "\<not> (\<exists>x \<in> set (ac_tokens a3). ut_token_hash x = hashToken s (ut_token tok))"
      using only row(5) by (metis imageI subsetD)
    then have "hashToken s (ut_token tok) \<notin> ut_token_hash ` set (ac_tokens a3)" "ac_fault a3 = no_faults"
      using a3'(2) row(1) nf by (auto simp: image_iff)
    then show "snd (Authenticate s (a3\<lparr>ac_now := t\<rparr>) (ut_token tok)) = Inl ErrNotFound"
      using row(8) by (intro Authenticate_unknown) simp_all
  qed
qed

section \<open>A concrete installation\<close>

definition demo_svc :: user_svc where
  "demo_svc = \<lparr>us_auth = \<lparr>as_lib = \<lparr>al_date = (\<lambda>t. t div 1000000000 * 1000000000), al_sign = (\<lambda>alg key c. Inr (''jwt:'' @ cl_username c)),
       al_parse = (\<lambda>kf now tok. Inl (ErrMsg ''malformed'')), al_bcrypt = (\<lambda>salt p cost. Inr (''h:'' @ p)),
       al_compare = (\<lambda>h p. h = ''h:'' @ p), al_sha256 = (\<lambda>x. x)\<rparr>,
       as_secret = ''s3cret'', as_expiry_hrs = 24, as_bcrypt_cost = 12\<rparr>,
     us_ldap = None, us_ldap_admin_group = [], us_ldap_role_mappings = [],
     us_oidc = True, us_oidc_cfg = \<lparr>so_admin_group = ''CN=Admins,OU=corp'', so_role_mappings = [(''devs'', ''developer'')],
       so_provisioning = ''jit'', so_email_allowlist = []\<rparr>,
     us_saml = False, us_saml_cfg = \<lparr>so_admin_group = [], so_role_mappings = [], so_provisioning = [], so_email_allowlist = []\<rparr>\<rparr>"

definition demo_accounts :: accounts where
  "demo_accounts = \<lparr>
     ac_users = [new_user\<lparr>u_id := ''u1'', u_username := ''alice'', u_password_hash := ''h:pw'', u_status := ''active'', u_source := ''local''\<rparr>,
       new_user\<lparr>u_id := ''u2'', u_username := ''bob'', u_email := ''bob@corp'', u_status := ''active'', u_source := ''oidc''\<rparr>],
     ac_role_rows = [\<lparr>ro_id = ''r1'', ro_name = ''nx-admin''\<rparr>, \<lparr>ro_id = ''r2'', ro_name = ''developer''\<rparr>, \<lparr>ro_id = ''r3'', ro_name = ''viewer''\<rparr>],
     ac_user_roles = [(''u1'', ''r2''), (''u2'', ''r3'')], ac_tokens = [], ac_now = 5, ac_seq = 0,
     ac_gen_id = (\<lambda>n. CHR ''g'' # replicate n CHR ''x''), ac_rows_read = 0, ac_fault = no_faults\<rparr>"

lemma demo_accounts_ok: "acc_ok demo_accounts"
proof -
  have "inj (\<lambda>n. CHR ''g'' # replicate n CHR ''x'')" by (rule injI) (metis length_replicate list.inject)
  then show ?thesis by (simp add: acc_ok_def demo_accounts_def email_taken_def user_checks_ok_def new_user_def)
qed

definition demo_claims :: sso_claims where
  "demo_claims = \<lparr>oc_username = '' Bob'', oc_email = ''bob@corp'', oc_first_name = ''Bob'', oc_last_name = [], oc_groups = [''admins'', ''other'']\<rparr>"

lemma sso_touches_only_its_source_witness:
  "hd (ac_users demo_accounts) \<in> set (ac_users (fst (LoginOIDC demo_svc demo_accounts (demo_claims\<lparr>oc_username := ''ALICE''\<rparr>) ''raw'')))"
proof -
  have "hd (ac_users demo_accounts) \<in> set (ac_users demo_accounts)" "u_source (hd (ac_users demo_accounts)) = ''local''"
    by (simp_all add: demo_accounts_def new_user_def)
  then show ?thesis
    using sso_touches_only_its_source[OF demo_accounts_ok, of "hd (ac_users demo_accounts)" demo_svc "demo_claims\<lparr>oc_username := ''ALICE''\<rparr>" "''raw''"]
    by (simp add: spared_def)
qed

lemma oidc_login_replaces_roles_witness:
  "\<exists>v. snd (LoginOIDC demo_svc demo_accounts demo_claims ''raw'') = Inr (''jwt:bob'', v) \<and> u_roles v = [''nx-admin''] \<and>
     roles_of demo_accounts (u_id v) = [\<lparr>ro_id = ''r3'', ro_name = ''viewer''\<rparr>] \<and> set (u_roles v) \<subseteq> ro_name ` set (ac_role_rows demo_accounts)"
proof -
  have ev: "map_sum id (\<lambda>(t, v). (t, u_id v, u_roles v)) (snd (LoginOIDC demo_svc demo_accounts demo_claims ''raw'')) =
      Inr (''jwt:bob'', ''u2'', [''nx-admin''])"
    by code_simp
  obtain a' tok v where r: "LoginOIDC demo_svc demo_accounts demo_claims ''raw'' = (a', Inr (tok, v))"
    using ev by (cases "LoginOIDC demo_svc demo_accounts demo_claims ''raw''"; cases "snd (LoginOIDC demo_svc demo_accounts demo_claims ''raw'')") auto
  have nf: "ac_fault demo_accounts = no_faults" by (simp add: demo_accounts_def)
  have "set (u_roles v) \<subseteq> ro_name ` set (ac_role_rows demo_accounts)"
    using oidc_login_replaces_roles[OF demo_accounts_ok nf r] by auto
  moreover have "roles_of demo_accounts ''u2'' = [\<lparr>ro_id = ''r3'', ro_name = ''viewer''\<rparr>]" by code_simp
  ultimately show ?thesis using ev r by simp
qed

lemma api_token_lifecycle_witness:
  "\<exists>a1 tok. token_create demo_svc (Inr ''0123'') demo_accounts ''u1'' ''ci'' [''read''] (Some 9) = Inr (a1, tok) \<and>
     snd (Authenticate demo_svc (a1\<lparr>ac_now := 9\<rparr>) (ut_token tok)) = Inr (hd (ac_users demo_accounts)\<lparr>u_roles := [''developer'']\<rparr>, [''read'']) \<and>
     snd (Authenticate demo_svc (a1\<lparr>ac_now := 10\<rparr>) (ut_token tok)) = Inl (ErrMsg ''token expired'')"
proof -
  let ?c = "token_create demo_svc (Inr ''0123'') demo_accounts ''u1'' ''ci'' [''read''] (Some 9)"
  have "map_sum id (\<lambda>(a, t). ut_token t) ?c = Inr ''nxs_30313233''" by code_simp
  then obtain a1 tok where c: "?c = Inr (a1, tok)" by (cases ?c) auto
  have nf: "ac_fault demo_accounts = no_faults" by (simp add: demo_accounts_def)
  have f: "find (\<lambda>u. u_id u = ''u1'') (ac_users demo_accounts) = Some (hd (ac_users demo_accounts))"
    by (simp add: demo_accounts_def new_user_def)
  have "map ro_name (roles_of demo_accounts ''u1'') = [''developer'']" "u_status (hd (ac_users demo_accounts)) = ''active''"
    by code_simp+
  with api_token_lifecycle[OF demo_accounts_ok nf c f, of 9] api_token_lifecycle[OF demo_accounts_ok nf c f, of 10] c
  show ?thesis by simp
qed

text \<open>
  The schema's promises hold in every reachable state: whatever sequence of logins, account and
  password changes, role assignments and token operations the services run, interleaved with failing
  calls, no two accounts share an id, a user name or a non-empty e-mail address, no two tokens a
  digest, and every assignment and every token belongs to an account and a role that exist.
\<close>

lemma accounts_schema_invariant:
  assumes "acc_ok a" and "(acc_step s)\<^sup>*\<^sup>* a a'"
  shows "acc_ok a'"
  using assms(2,1) by (induction rule: rtranclp_induct) (auto intro: acc_step_ok)

lemma accounts_schema_invariant_witness:
  "acc_ok (fst (LoginOIDC demo_svc (fst (Login demo_svc demo_accounts ''alice'' ''pw'')) demo_claims ''raw''))"
proof -
  have "(acc_step demo_svc)\<^sup>*\<^sup>* demo_accounts (fst (LoginOIDC demo_svc (fst (Login demo_svc demo_accounts ''alice'' ''pw'')) demo_claims ''raw''))"
    by (meson acc_step.login acc_step.oidc converse_rtranclp_into_rtranclp rtranclp.rtrancl_refl)
  then show ?thesis using accounts_schema_invariant[OF demo_accounts_ok] by blast
qed

section \<open>A directory login can take over a local account\<close>

text \<open>
  With LDAP on, a name that differs from a local account's only in case is not found and sent to the
  directory; the normalized name then finds the local account, whose source is not asked again. The
  directory's password opens it, and its roles are replaced by those of the directory.
\<close>

lemma ldap_case_takeover:
  "let s = demo_svc\<lparr>us_ldap := Some (\<lambda>u p. if p = ''ldap-pw'' then Inr \<lparr>lu_dn = [], lu_username = u, lu_email = [], lu_first_name = [],
         lu_last_name = [], lu_groups = [], lu_group_search_err = ''timeout''\<rparr> else Inl (ErrMsg ''invalid''))\<rparr>;
       (a', r) = Login s demo_accounts ''Alice'' ''ldap-pw''
   in map_sum id (\<lambda>(t, v). (t, u_id v, u_source v, u_roles v)) r = Inr (''jwt:alice'', ''u1'', ''local'', []) \<and>
      roles_of demo_accounts ''u1'' \<noteq> [] \<and> roles_of a' ''u1'' = []"
  by code_simp

text \<open>A failed synchronisation of the roles is only logged: the login completes, with the old roles in the reply.\<close>

lemma failed_oidc_sync_completes_login:
  "map_sum id (\<lambda>(t, v). (t, u_roles v))
     (snd (LoginOIDC demo_svc (demo_accounts\<lparr>ac_fault := \<lambda>op _ _. op = ''Roles.SetUserRoles''\<rparr>) demo_claims ''raw'')) =
   Inr (''jwt:bob'', [''viewer''])"
  by code_simp

end
