(* ===== verification/Login_Guard.thy ===== *)
theory Login_Guard
  imports Domain
begin

text \<open>
  The password-guessing guard of \<^verbatim>\<open>internal/auth/loginguard\<close>: failures per account, an exponentially
  growing penalty, and an optional store shared between nodes. The shared key-value service is
  third-party code: its three operations are the fields of \<open>kv\<close>, with what the guard relies on
  stated as the hypothesis \<open>kv_reads_back\<close>. Go's zero time is \<open>0\<close>.
\<close>

section \<open>The shared store\<close>

record 'r kv =
  kv_get :: "'r \<Rightarrow> string \<Rightarrow> string result"
  kv_set :: "'r \<Rightarrow> string \<Rightarrow> string \<Rightarrow> int \<Rightarrow> 'r result"
  kv_del :: "'r \<Rightarrow> string \<Rightarrow> 'r result"

definition redisKey :: "string \<Rightarrow> string" where
  "redisKey account = ''nexspence:loginfail:'' @ account"

definition formatEntry :: "int \<Rightarrow> time \<Rightarrow> string" where
  "formatEntry failures blockedUntil = itoa failures @ '':'' @ itoa blockedUntil"

text \<open>\<^verbatim>\<open>strings.SplitN(raw, ":", 2)\<close> cuts at the first colon.\<close>

definition parseEntry :: "string \<Rightarrow> (int \<times> time) option" where
  "parseEntry raw =
     (case index_str raw '':'' of
        None \<Rightarrow> None
      | Some i \<Rightarrow>
          (case atoi (take i raw) of
             None \<Rightarrow> None
           | Some failures \<Rightarrow>
               (case atoi (drop (i + 1) raw) of None \<Rightarrow> None | Some nanos \<Rightarrow> Some (failures, nanos))))"

definition store_load :: "'r kv \<Rightarrow> 'r \<Rightarrow> string \<Rightarrow> (int \<times> time) option" where
  "store_load s r key =
     (case kv_get s r (redisKey key) of
        Inl _ \<Rightarrow> None
      | Inr raw \<Rightarrow> if raw = [] then None else parseEntry raw)"

definition store_save :: "'r kv \<Rightarrow> 'r \<Rightarrow> string \<Rightarrow> int \<Rightarrow> time \<Rightarrow> int \<Rightarrow> 'r" where
  "store_save s r key failures blockedUntil ttl =
     (case kv_set s r (redisKey key) (formatEntry failures blockedUntil) ttl of Inr r' \<Rightarrow> r' | Inl _ \<Rightarrow> r)"

definition store_forget :: "'r kv \<Rightarrow> 'r \<Rightarrow> string \<Rightarrow> 'r" where
  "store_forget s r key = (case kv_del s r (redisKey key) of Inr r' \<Rightarrow> r' | Inl _ \<Rightarrow> r)"

section \<open>The guard\<close>

definition entryTTL :: int where "entryTTL = 30 * 60 * 1000000000"

record guard_policy =
  gp_threshold :: int
  gp_base_delay :: int
  gp_max_delay :: int

definition DefaultPolicy :: guard_policy where
  "DefaultPolicy = \<lparr>gp_threshold = 5, gp_base_delay = 1000000000, gp_max_delay = 15 * 60 * 1000000000\<rparr>"

record guard_state =
  gs_failures :: int
  gs_blocked_until :: time
  gs_last_seen :: time

record 'r guard =
  g_policy :: guard_policy
  g_store :: "'r kv option"
  g_shared :: 'r
  g_entries :: "(string \<times> guard_state) list"

definition normalize :: "string \<Rightarrow> string" where
  "normalize username = to_lower (trim_space username)"

fun double_until :: "int \<Rightarrow> nat \<Rightarrow> int \<Rightarrow> int + int" where
  "double_until mx 0 d = Inr d"
| "double_until mx (Suc n) d =
     (let d' = i64 (d * 2) in if d' \<ge> mx then Inl mx else double_until mx n d')"

definition penalty :: "guard_policy \<Rightarrow> int \<Rightarrow> int" where
  "penalty p failures =
     (let over = failures - gp_threshold p in
      if over \<le> 0 then 0
      else (case double_until (gp_max_delay p) (nat (over - 1)) (gp_base_delay p) of
          Inl m \<Rightarrow> m
        | Inr d \<Rightarrow> if d > gp_max_delay p then gp_max_delay p else d))"

definition guard_load :: "'r guard \<Rightarrow> string \<Rightarrow> int \<times> time" where
  "guard_load g key =
     (case (case g_store g of Some s \<Rightarrow> store_load s (g_shared g) key | None \<Rightarrow> None) of
        Some fb \<Rightarrow> fb
      | None \<Rightarrow>
          (case map_of (g_entries g) key of
             Some e \<Rightarrow> (gs_failures e, gs_blocked_until e)
           | None \<Rightarrow> (0, 0)))"

definition sweep :: "time \<Rightarrow> (string \<times> guard_state) list \<Rightarrow> (string \<times> guard_state) list" where
  "sweep now es = filter (\<lambda>(k, e). \<not> gs_last_seen e < now - entryTTL) es"

definition RetryAfter :: "'r guard \<Rightarrow> time \<Rightarrow> string \<Rightarrow> int" where
  "RetryAfter g now username =
     (case guard_load g (normalize username) of
        (_, blockedUntil) \<Rightarrow> if blockedUntil > now then blockedUntil - now else 0)"

definition RecordFailure :: "'r guard \<Rightarrow> time \<Rightarrow> string \<Rightarrow> 'r guard" where
  "RecordFailure g now username =
     (let key = normalize username;
          failures = fst (guard_load g key) + 1;
          blockedUntil = now + penalty (g_policy g) failures;
          g1 = g\<lparr>g_entries := AList.update key
                 \<lparr>gs_failures = failures, gs_blocked_until = blockedUntil, gs_last_seen = now\<rparr> (sweep now (g_entries g))\<rparr>
      in case g_store g of
           None \<Rightarrow> g1
         | Some s \<Rightarrow> g1\<lparr>g_shared := store_save s (g_shared g1) key failures blockedUntil entryTTL\<rparr>)"

definition RecordSuccess :: "'r guard \<Rightarrow> string \<Rightarrow> 'r guard" where
  "RecordSuccess g username =
     (let key = normalize username;
          g1 = g\<lparr>g_entries := AList.delete key (g_entries g)\<rparr>
      in case g_store g of
           None \<Rightarrow> g1
         | Some s \<Rightarrow> g1\<lparr>g_shared := store_forget s (g_shared g1) key\<rparr>)"

section \<open>The penalty\<close>

lemma double_until_closed:
  assumes "0 \<le> d" "d < mx \<or> n = 0" "d \<le> 2 ^ 62" "mx \<le> 2 ^ 62"
  shows "(case double_until mx n d of Inl m \<Rightarrow> m | Inr d' \<Rightarrow> min mx d') = min mx (d * 2 ^ n)"
  using assms
proof (induction n arbitrary: d)
  case (Suc n)
  have wrap: "i64 (d * 2) = d * 2"
    using Suc.prems by (intro i64_id) (simp add: i64_min_def i64_max_def)
  show ?case
  proof (cases "d * 2 \<ge> mx")
    case True
    have "d * 2 * 1 \<le> d * 2 * 2 ^ n" using Suc.prems(1) by (intro mult_left_mono) simp_all
    with True have "mx \<le> d * 2 ^ Suc n" by (simp add: mult.assoc)
    with True wrap show ?thesis by (simp add: Let_def)
  next
    case False
    then show ?thesis using Suc.IH[of "d * 2"] Suc.prems wrap by (simp add: Let_def mult.assoc)
  qed
qed simp

lemma penalty_min:
  assumes "0 \<le> gp_base_delay p" "gp_base_delay p < gp_max_delay p" "gp_max_delay p \<le> 2 ^ 62"
  shows "penalty p failures =
    (if failures \<le> gp_threshold p then 0
     else min (gp_max_delay p) (gp_base_delay p * 2 ^ nat (failures - gp_threshold p - 1)))"
proof (cases "failures \<le> gp_threshold p")
  case False
  let ?n = "nat (failures - gp_threshold p - 1)"
  have "(case double_until (gp_max_delay p) ?n (gp_base_delay p) of Inl m \<Rightarrow> m | Inr d' \<Rightarrow> min (gp_max_delay p) d')
      = min (gp_max_delay p) (gp_base_delay p * 2 ^ ?n)"
    using assms by (intro double_until_closed) auto
  moreover have "(case r of Inl m \<Rightarrow> m | Inr d \<Rightarrow> if d > mx then mx else d) =
      (case r of Inl m \<Rightarrow> m | Inr d \<Rightarrow> min mx d)" for r :: "int + int" and mx
    by (simp split: sum.splits)
  ultimately show ?thesis using False by (simp add: penalty_def Let_def)
qed (simp add: penalty_def)

text \<open>
  C24. The penalty loop computes the capped exponential: no wait up to the threshold, then the base
  delay doubled for each further failure, never more than the maximum; in particular the 64-bit
  doubling never overflows for a maximum of up to \<open>2 ^ 62\<close> nanoseconds.
\<close>

theorem penalty_closed_form:
  assumes "0 \<le> gp_base_delay p" "gp_base_delay p < gp_max_delay p" "gp_max_delay p \<le> 2 ^ 62"
  shows "penalty p failures =
    (if failures \<le> gp_threshold p then 0
     else min (gp_max_delay p) (gp_base_delay p * 2 ^ nat (failures - gp_threshold p - 1)))"
  using assms by (rule penalty_min)

theorem penalty_closed_form_witness: "penalty DefaultPolicy 8 = 4000000000"
  using penalty_closed_form[of DefaultPolicy 8] by (simp add: DefaultPolicy_def)

lemma penalty_range:
  assumes "0 \<le> gp_base_delay p" "gp_base_delay p < gp_max_delay p" "gp_max_delay p \<le> 2 ^ 62"
  shows "0 \<le> penalty p f \<and> penalty p f \<le> gp_max_delay p"
proof -
  have "0 \<le> gp_base_delay p * 2 ^ nat (f - gp_threshold p - 1)" using assms(1) by simp
  with assms show ?thesis by (auto simp: penalty_min)
qed

section \<open>The shared representation\<close>

lemma parse_format:
  assumes "in_i64 failures" "in_i64 blockedUntil"
  shows "parseEntry (formatEntry failures blockedUntil) = Some (failures, blockedUntil)"
proof -
  have "index_str (itoa failures @ '':'' @ itoa blockedUntil) '':'' = Some (length (itoa failures))"
    using index_char[OF itoa_no_colon, of failures "itoa blockedUntil"] by simp
  then show ?thesis using assms by (simp add: parseEntry_def formatEntry_def atoi_itoa)
qed

text \<open>
  What a node writes for an account is what another node reads: every failure count and deadline
  in the 64-bit range survives the textual encoding.
\<close>

lemma parseEntry_formatEntry:
  assumes "in_i64 failures" "in_i64 blockedUntil"
  shows "parseEntry (formatEntry failures blockedUntil) = Some (failures, blockedUntil)"
  using assms by (rule parse_format)

lemma parseEntry_formatEntry_witness: "parseEntry (formatEntry 6 1700000000000000000) = Some (6, 1700000000000000000)"
  by (rule parseEntry_formatEntry) (simp_all add: i64_min_def i64_max_def)

section \<open>Counting\<close>

definition kv_reads_back :: "'r kv \<Rightarrow> 'r \<Rightarrow> bool" where
  "kv_reads_back s r \<longleftrightarrow> (\<forall>k v ttl. v \<noteq> [] \<longrightarrow> (\<exists>r'. kv_set s r k v ttl = Inr r' \<and> kv_get s r' k = Inr v))"

lemma formatEntry_ne: "formatEntry f b \<noteq> []"
  by (simp add: formatEntry_def)

text \<open>After a failure the account's record is the old count plus one and the new deadline.\<close>

lemma guard_load_RecordFailure:
  assumes "case g_store g of None \<Rightarrow> True | Some s \<Rightarrow> kv_reads_back s (g_shared g)"
    and "in_i64 (fst (guard_load g (normalize u)) + 1)"
    and "in_i64 (now + penalty (g_policy g) (fst (guard_load g (normalize u)) + 1))"
  shows "guard_load (RecordFailure g now u) (normalize u) =
    (fst (guard_load g (normalize u)) + 1, now + penalty (g_policy g) (fst (guard_load g (normalize u)) + 1))"
proof (cases "g_store g")
  case None
  then show ?thesis by (simp add: RecordFailure_def Let_def guard_load_def map_of_AList_update)
next
  case (Some s)
  let ?f = "fst (guard_load g (normalize u)) + 1"
  let ?b = "now + penalty (g_policy g) ?f"
  have reads: "kv_reads_back s (g_shared g)" using assms(1) Some by simp
  obtain r' where r': "kv_set s (g_shared g) (redisKey (normalize u)) (formatEntry ?f ?b) entryTTL = Inr r'"
    "kv_get s r' (redisKey (normalize u)) = Inr (formatEntry ?f ?b)"
    using reads formatEntry_ne unfolding kv_reads_back_def by blast
  then have "store_load s r' (normalize u) = Some (?f, ?b)"
    using parse_format[OF assms(2,3)] by (simp add: store_load_def formatEntry_ne)
  moreover have "g_store (RecordFailure g now u) = Some s" "g_shared (RecordFailure g now u) = r'"
    using Some r'(1) by (simp_all add: RecordFailure_def Let_def store_save_def)
  ultimately show ?thesis by (simp add: guard_load_def)
qed

text \<open>
  Every failure counts and is paid for: right after a failed attempt the wait is exactly the
  penalty for one failure more than the account had, on a single node as well as with a shared
  store that reads back what was written.
\<close>

lemma RecordFailure_RetryAfter:
  assumes "case g_store g of None \<Rightarrow> True | Some s \<Rightarrow> kv_reads_back s (g_shared g)"
    and "0 \<le> gp_base_delay (g_policy g)" "gp_base_delay (g_policy g) < gp_max_delay (g_policy g)" "gp_max_delay (g_policy g) \<le> 2 ^ 62"
    and "0 \<le> fst (guard_load g (normalize u))" "fst (guard_load g (normalize u)) < 2 ^ 62" "0 \<le> now" "now < 2 ^ 62"
  shows "RetryAfter (RecordFailure g now u) now u = penalty (g_policy g) (fst (guard_load g (normalize u)) + 1) \<and>
    fst (guard_load (RecordFailure g now u) (normalize u)) = fst (guard_load g (normalize u)) + 1"
proof -
  let ?f = "fst (guard_load g (normalize u)) + 1"
  have p: "0 \<le> penalty (g_policy g) ?f \<and> penalty (g_policy g) ?f \<le> gp_max_delay (g_policy g)"
    by (rule penalty_range[OF assms(2-4)])
  have "in_i64 ?f" "in_i64 (now + penalty (g_policy g) ?f)"
    using assms p by (simp_all add: i64_min_def i64_max_def)
  from guard_load_RecordFailure[OF assms(1) this] p show ?thesis
    by (simp add: RetryAfter_def)
qed

definition map_kv :: "(string \<times> string) list kv" where
  "map_kv = \<lparr>kv_get = (\<lambda>r k. case map_of r k of Some v \<Rightarrow> Inr v | None \<Rightarrow> Inl ErrNotFound),
     kv_set = (\<lambda>r k v ttl. Inr (AList.update k v r)), kv_del = (\<lambda>r k. Inr (AList.delete k r))\<rparr>"

definition demo_guard :: "(string \<times> string) list guard" where
  "demo_guard = \<lparr>g_policy = DefaultPolicy, g_store = Some map_kv, g_shared = [(redisKey ''alice'', ''5:17'')], g_entries = []\<rparr>"

lemma RecordFailure_RetryAfter_witness: "RetryAfter (RecordFailure demo_guard 100 '' Alice'') 100 '' Alice'' = 1000000000"
proof -
  have load: "guard_load demo_guard (normalize '' Alice'') = (5, 17)" by code_simp
  have "kv_reads_back map_kv (g_shared demo_guard)"
    by (auto simp: kv_reads_back_def map_kv_def map_of_AList_update)
  then have "RetryAfter (RecordFailure demo_guard 100 '' Alice'') 100 '' Alice'' = penalty DefaultPolicy 6"
    using RecordFailure_RetryAfter[of demo_guard "'' Alice''" 100] load by (simp add: demo_guard_def DefaultPolicy_def)
  then show ?thesis by (simp add: penalty_min DefaultPolicy_def)
qed

section \<open>Sweeping\<close>

text \<open>An entry's deadline is at most one maximum delay after it was last seen.\<close>

definition entries_ok :: "guard_policy \<Rightarrow> (string \<times> guard_state) list \<Rightarrow> bool" where
  "entries_ok p es \<longleftrightarrow> distinct (map fst es) \<and>
     (\<forall>(k, e)\<in>set es. gs_blocked_until e \<le> gs_last_seen e + gp_max_delay p)"

lemma set_AList_update: "x \<in> set (AList.update k v m) \<Longrightarrow> x = (k, v) \<or> x \<in> set m"
  by (induction m) (auto split: if_splits)

lemma map_of_sweep:
  assumes "distinct (map fst es)"
  shows "map_of (sweep now es) k =
    (case map_of es k of Some e \<Rightarrow> if gs_last_seen e < now - entryTTL then None else Some e | None \<Rightarrow> None)"
  using assms by (induction es) (auto simp: sweep_def split: option.splits, (force dest: map_of_SomeD)+)

text \<open>
  Forgetting quiet accounts never lifts a lock: with a maximum delay of at most the retention time,
  a failed login on one account, which sweeps the table, changes the wait of no other account, and
  the table's invariant is kept.
\<close>

lemma RecordFailure_other_account:
  assumes "g_store g = None" "entries_ok (g_policy g) (g_entries g)" "gp_max_delay (g_policy g) \<le> entryTTL"
    and "0 \<le> gp_base_delay (g_policy g)" "gp_base_delay (g_policy g) < gp_max_delay (g_policy g)"
    and "normalize v \<noteq> normalize u" "0 \<le> now"
  shows "RetryAfter (RecordFailure g now u) now v = RetryAfter g now v \<and>
    entries_ok (g_policy g) (g_entries (RecordFailure g now u))"
proof
  let ?e = "map_of (g_entries g) (normalize v)"
  have dist: "distinct (map fst (g_entries g))" using assms(2) by (simp add: entries_ok_def)
  have blocked: "gs_blocked_until e \<le> now" if "?e = Some e" "gs_last_seen e < now - entryTTL" for e
    using assms(2,3) that map_of_SomeD[OF that(1)] by (fastforce simp: entries_ok_def)
  have "map_of (g_entries (RecordFailure g now u)) (normalize v) = map_of (sweep now (g_entries g)) (normalize v)"
    using assms(1,6) by (simp add: RecordFailure_def Let_def map_of_AList_update)
  then show "RetryAfter (RecordFailure g now u) now v = RetryAfter g now v"
    using assms(1,7) blocked
    by (auto simp: RetryAfter_def guard_load_def map_of_sweep[OF dist] RecordFailure_def Let_def split: option.splits)
  have "penalty (g_policy g) f \<le> gp_max_delay (g_policy g)" for f
    using penalty_range[OF assms(4,5)] assms(3) by (simp add: entryTTL_def)
  moreover have "entries_ok (g_policy g) (sweep now (g_entries g))"
    using assms(2) by (auto simp: entries_ok_def sweep_def distinct_map_filter_key)
  ultimately show "entries_ok (g_policy g) (g_entries (RecordFailure g now u))"
    using assms(1) by (auto simp: RecordFailure_def Let_def entries_ok_def distinct_update dest!: set_AList_update)
qed

lemma RecordFailure_other_account_witness:
  "let g = \<lparr>g_policy = DefaultPolicy, g_store = (None :: unit kv option), g_shared = (),
        g_entries = [(''eve'', \<lparr>gs_failures = 9, gs_blocked_until = 9000000000, gs_last_seen = 1000000000\<rparr>)]\<rparr>
   in RetryAfter (RecordFailure g 5000000000 ''bob'') 5000000000 ''Eve'' = 4000000000"
proof -
  define g where "g = \<lparr>g_policy = DefaultPolicy, g_store = (None :: unit kv option), g_shared = (),
        g_entries = [(''eve'', \<lparr>gs_failures = 9, gs_blocked_until = 9000000000, gs_last_seen = 1000000000\<rparr>)]\<rparr>"
  have "normalize ''Eve'' \<noteq> normalize ''bob''" by code_simp
  then have "RetryAfter (RecordFailure g 5000000000 ''bob'') 5000000000 ''Eve'' = RetryAfter g 5000000000 ''Eve''"
    using RecordFailure_other_account[of g "''Eve''" "''bob''" 5000000000]
    by (simp add: g_def DefaultPolicy_def entries_ok_def entryTTL_def)
  moreover have "RetryAfter g 5000000000 ''Eve'' = 4000000000" unfolding g_def by code_simp
  ultimately show ?thesis by (simp add: g_def)
qed

text \<open>
  In process, quiet accounts are not forgiven: the count is read before the sweep, so five failures
  in the morning and one twelve hours later, with nothing in between, are answered with a wait.
\<close>

lemma stale_failures_still_count:
  "let g0 = \<lparr>g_policy = DefaultPolicy, g_store = (None :: unit kv option), g_shared = (), g_entries = []\<rparr>;
       morning = foldl (\<lambda>g t. RecordFailure g t ''bob'') g0 [1, 2, 3, 4, 5];
       night = 12 * 60 * 60 * 1000000000
   in RetryAfter morning 5 ''bob'' = 0 \<and> RetryAfter (RecordFailure morning night ''bob'') night ''bob'' = 1000000000"
  by code_simp

end
