(* ===== verification/Sessions.thy ===== *)
theory Sessions
  imports Account_Laws Login_Guard RBAC
begin

text \<open>
  Who a request is: the authentication middlewares and handlers of \<^verbatim>\<open>api/handlers\<close> (\<^verbatim>\<open>auth.go\<close>,
  \<^verbatim>\<open>docker_token.go\<close>, \<^verbatim>\<open>tokens.go\<close>, the password change of \<^verbatim>\<open>users.go\<close>), composed of the user service, API tokens and the login guard.
  \<^verbatim>\<open>gin\<close>'s context keys are the record \<open>identity\<close>; a request's basic credentials are what
  \<^verbatim>\<open>Request.BasicAuth\<close> reads from its header.
\<close>

section \<open>Requests and outcomes\<close>

record auth_request =
  ar_method :: string
  ar_authorization :: string
  ar_basic :: "(string \<times> string) option"
  ar_query_token :: string
  ar_grant_type :: string
  ar_form_username :: string
  ar_form_password :: string

record identity =
  i_username :: string
  i_user_id :: string
  i_roles :: "string list"
  i_token_scopes :: "string list option"

datatype outcome =
    Pass identity
  | Throttled_Reply int
  | Unauthorized_Reply string
  | Scope_Reply

fun outcome_status :: "outcome \<Rightarrow> nat option" where
  "outcome_status (Pass _) = None"
| "outcome_status (Throttled_Reply _) = Some 429"
| "outcome_status (Unauthorized_Reply _) = Some 401"
| "outcome_status Scope_Reply = Some 403"

text \<open>\<open>ma_tokens\<close>: API tokens are enabled; a \<^verbatim>\<open>nil\<close> guard throttles nothing.\<close>

record middleware =
  ma_users :: user_svc
  ma_tokens :: bool

definition second :: int where "second = 1000000000"

text \<open>\<^verbatim>\<open>Duration.Round\<close> of a positive duration: halves away from zero.\<close>

definition round_seconds :: "int \<Rightarrow> int" where
  "round_seconds d = (let r = d mod second in if r + r < second then d - r else d + (second - r))"

definition retryAfterSeconds :: "int \<Rightarrow> int" where
  "retryAfterSeconds d = (let s = round_seconds d div second in if s < 1 then 1 else s)"

definition guard_wait :: "'r guard option \<Rightarrow> time \<Rightarrow> string \<Rightarrow> int" where
  "guard_wait g now u = (case g of None \<Rightarrow> 0 | Some gd \<Rightarrow> RetryAfter gd now u)"

definition guard_failed :: "'r guard option \<Rightarrow> time \<Rightarrow> string \<Rightarrow> 'r guard option" where
  "guard_failed g now u = map_option (\<lambda>gd. RecordFailure gd now u) g"

definition guard_passed :: "'r guard option \<Rightarrow> string \<Rightarrow> 'r guard option" where
  "guard_passed g u = map_option (\<lambda>gd. RecordSuccess gd u) g"

definition setTokenScopes :: "string list \<Rightarrow> string list option" where
  "setTokenScopes scopes = (if scopes \<noteq> [] then Some scopes else None)"

definition user_identity :: "user \<Rightarrow> string list \<Rightarrow> identity" where
  "user_identity u scopes = \<lparr>i_username = u_username u, i_user_id = u_id u, i_roles = u_roles u, i_token_scopes = setTokenScopes scopes\<rparr>"

section \<open>Bearer credentials\<close>

definition jwtNotRevoked :: "accounts \<Rightarrow> claims \<Rightarrow> bool" where
  "jwtNotRevoked a claims =
     (case users_get_by_id a (cl_uid claims) 0 of
        Inl _ \<Rightarrow> False
      | Inr user \<Rightarrow> (case cl_iat claims of Some t \<Rightarrow> \<not> t < u_tokens_valid_after user | None \<Rightarrow> True))"

definition authenticateBearer :: "middleware \<Rightarrow> accounts \<Rightarrow> string \<Rightarrow> accounts \<times> identity option \<times> bool" where
  "authenticateBearer m a raw =
     (case ValidateToken (us_auth (ma_users m)) (ac_now a) raw of
        Inr claims \<Rightarrow>
          if cl_uid claims = [] then (a, None, False)
          else if \<not> jwtNotRevoked a claims then (a, None, True)
          else (a, Some \<lparr>i_username = cl_username claims, i_user_id = cl_uid claims, i_roles = cl_roles claims,
                  i_token_scopes = setTokenScopes (cl_scopes claims)\<rparr>, False)
      | Inl _ \<Rightarrow>
          if \<not> ma_tokens m then (a, None, False)
          else (case Authenticate (ma_users m) a raw of
              (a', Inl _) \<Rightarrow> (a', None, False)
            | (a', Inr (u, scopes)) \<Rightarrow> (a', Some (user_identity u scopes), False)))"

section \<open>Basic credentials\<close>

datatype attempt = By_Token user "string list" | Throttled int | By_Password user | Refused

text \<open>
  The block every entry point repeats: an API token as the password, then the guard, then the user
  service, with the outcome reported to the guard.
\<close>

definition try_token :: "middleware \<Rightarrow> accounts \<Rightarrow> string \<Rightarrow> accounts \<times> (user \<times> string list) option" where
  "try_token m a password =
     (if ma_tokens m \<and> has_prefix password TokenPrefix then
        (case Authenticate (ma_users m) a password of (a', Inr us) \<Rightarrow> (a', Some us) | (a', Inl _) \<Rightarrow> (a', None))
      else (a, None))"

definition try_password :: "middleware \<Rightarrow> 'r guard option \<Rightarrow> accounts \<Rightarrow> string \<Rightarrow> string \<Rightarrow> accounts \<times> 'r guard option \<times> attempt" where
  "try_password m g a username password =
     (let wait = guard_wait g (ac_now a) username in
      if wait > 0 then (a, g, Throttled wait)
      else (case Login (ma_users m) a username password of
          (a', Inl _) \<Rightarrow> (a', guard_failed g (ac_now a) username, Refused)
        | (a', Inr (_, user)) \<Rightarrow> (a', guard_passed g username, By_Password user)))"

definition try_basic :: "middleware \<Rightarrow> 'r guard option \<Rightarrow> accounts \<Rightarrow> string \<Rightarrow> string \<Rightarrow> accounts \<times> 'r guard option \<times> attempt" where
  "try_basic m g a username password =
     (case try_token m a password of
        (a', Some (u, scopes)) \<Rightarrow> (a', g, By_Token u scopes)
      | (a', None) \<Rightarrow> try_password m g a' username password)"

section \<open>Middlewares\<close>

definition enforceTokenScopes :: "string \<Rightarrow> identity \<Rightarrow> outcome" where
  "enforceTokenScopes method i = (if scopesAllow (i_token_scopes i) (methodToAction method) then Pass i else Scope_Reply)"

definition bearer_raw :: "string \<Rightarrow> string" where
  "bearer_raw header = (if has_prefix header ''Bearer '' then trim_prefix header ''Bearer '' else [])"

definition AuthMiddleware :: "middleware \<Rightarrow> 'r guard option \<Rightarrow> accounts \<Rightarrow> auth_request \<Rightarrow> accounts \<times> 'r guard option \<times> outcome" where
  "AuthMiddleware m g a rq =
     (let raw = bearer_raw (ar_authorization rq) in
      if raw = [] then
        (case ar_basic rq of
           None \<Rightarrow> (a, g, Unauthorized_Reply ''authentication required'')
         | Some (username, password) \<Rightarrow>
             (case try_basic m g a username password of
                (a', g', By_Token u scopes) \<Rightarrow> (a', g', enforceTokenScopes (ar_method rq) (user_identity u scopes))
              | (a', g', Throttled wait) \<Rightarrow> (a', g', Throttled_Reply (retryAfterSeconds wait))
              | (a', g', Refused) \<Rightarrow> (a', g', Unauthorized_Reply ''invalid credentials'')
              | (a', g', By_Password user) \<Rightarrow> (a', g', Pass (user_identity user []))))
      else (case authenticateBearer m a raw of
          (a', None, revoked) \<Rightarrow> (a', g, Unauthorized_Reply (if revoked then ''token invalidated'' else ''invalid or expired token''))
        | (a', Some i, _) \<Rightarrow> (a', g, enforceTokenScopes (ar_method rq) i)))"

text \<open>Query tokens stand in for a missing header.\<close>

definition QueryTokenAuth :: "middleware \<Rightarrow> 'r guard option \<Rightarrow> accounts \<Rightarrow> auth_request \<Rightarrow> accounts \<times> 'r guard option \<times> outcome" where
  "QueryTokenAuth m g a rq =
     AuthMiddleware m g a
       (if ar_authorization rq = [] \<and> ar_query_token rq \<noteq> []
        then rq\<lparr>ar_authorization := ''Bearer '' @ ar_query_token rq, ar_basic := None\<rparr> else rq)"

definition OptionalAuth :: "middleware \<Rightarrow> 'r guard option \<Rightarrow> accounts \<Rightarrow> auth_request \<Rightarrow> accounts \<times> 'r guard option \<times> identity option" where
  "OptionalAuth m g a rq =
     (if has_prefix (ar_authorization rq) ''Bearer '' then
        (case authenticateBearer m a (trim_prefix (ar_authorization rq) ''Bearer '') of (a', i, _) \<Rightarrow> (a', g, i))
      else (case ar_basic rq of
          None \<Rightarrow> (a, g, None)
        | Some (username, password) \<Rightarrow>
            if username = [] then (a, g, None)
            else (case try_basic m g a username password of
                (a', g', By_Token u scopes) \<Rightarrow> (a', g', Some (user_identity u scopes))
              | (a', g', By_Password user) \<Rightarrow> (a', g', Some (user_identity user []))
              | (a', g', _) \<Rightarrow> (a', g', None))))"

text \<open>The registry's ping: only the status is returned, with a challenge for every 401.\<close>

definition DockerV2Auth :: "middleware \<Rightarrow> 'r guard option \<Rightarrow> accounts \<Rightarrow> auth_request \<Rightarrow> accounts \<times> 'r guard option \<times> nat" where
  "DockerV2Auth m g a rq =
     (if ar_authorization rq = [] then (a, g, 401)
      else if has_prefix (ar_authorization rq) ''Bearer '' then
        (let raw = trim_prefix (ar_authorization rq) ''Bearer '' in
         case ValidateToken (us_auth (ma_users m)) (ac_now a) raw of
           Inr _ \<Rightarrow> (a, g, 200)
         | Inl _ \<Rightarrow>
             if ma_tokens m then (case Authenticate (ma_users m) a raw of (a', Inr _) \<Rightarrow> (a', g, 200) | (a', Inl _) \<Rightarrow> (a', g, 401))
             else (a, g, 401))
      else if has_prefix (ar_authorization rq) ''Basic '' then
        (case ar_basic rq of
           None \<Rightarrow> (a, g, 401)
         | Some (username, password) \<Rightarrow>
             (case try_basic m g a username password of
                (a', g', Throttled wait) \<Rightarrow> (a', g', 429)
              | (a', g', Refused) \<Rightarrow> (a', g', 401)
              | (a', g', _) \<Rightarrow> (a', g', 200)))
      else (a, g, 401))"

section \<open>Handlers\<close>

datatype login_reply = Bad_Request | Too_Many int | Invalid_Credentials | Session string user

definition login_handler :: "user_svc \<Rightarrow> 'r guard option \<Rightarrow> accounts \<Rightarrow> string \<Rightarrow> string \<Rightarrow> accounts \<times> 'r guard option \<times> login_reply" where
  "login_handler s g a username password =
     (if username = [] \<or> password = [] then (a, g, Bad_Request)
      else (let wait = guard_wait g (ac_now a) username in
        if wait > 0 then (a, g, Too_Many (retryAfterSeconds wait))
        else (case Login s a username password of
            (a', Inl _) \<Rightarrow> (a', guard_failed g (ac_now a) username, Invalid_Credentials)
          | (a', Inr (token, user)) \<Rightarrow> (a', guard_passed g username, Session token user))))"

definition IsAdmin :: "identity option \<Rightarrow> bool" where
  "IsAdmin i = (case i of None \<Rightarrow> False | Some i \<Rightarrow> list_ex (\<lambda>r. r = ''nx-admin'') (i_roles i))"

definition me_handler :: "accounts \<Rightarrow> identity option \<Rightarrow> nat \<times> user option" where
  "me_handler a i =
     (case i of
        None \<Rightarrow> (401, None)
      | Some i \<Rightarrow>
          if i_user_id i = [] then (401, None)
          else (case users_get_by_id a (i_user_id i) 0 of Inl _ \<Rightarrow> (500, None) | Inr u \<Rightarrow> (200, Some u)))"

text \<open>
  \<^verbatim>\<open>users.go\<close>: the path names the account, or it is the caller's own. Neither the guard nor the rate limit
  is asked. The routes are behind \<open>AuthMiddleware\<close>, so there is an identity.
\<close>

definition hasRole :: "string list \<Rightarrow> string \<Rightarrow> bool" where
  "hasRole roles role = list_ex (\<lambda>r. r = role) roles"

definition ChangePassword_handler :: "user_svc \<Rightarrow> nat \<Rightarrow> accounts \<Rightarrow> identity \<Rightarrow> string \<Rightarrow> string \<Rightarrow> string \<Rightarrow> accounts \<times> nat" where
  "ChangePassword_handler s salt a i userId oldPassword newPassword =
     (let username = (if userId = [] then i_username i else userId);
          isAdmin = hasRole (i_roles i) ''nx-admin''
      in if newPassword = [] then (a, 400)
         else if \<not> isAdmin \<and> i_username i = username then
           (case ChangePassword s salt a username oldPassword newPassword of (a', Inl _) \<Rightarrow> (a', 400) | (a', Inr _) \<Rightarrow> (a', 204))
         else if isAdmin then
           (case SetPassword s salt a username newPassword of (a', Inl _) \<Rightarrow> (a', 500) | (a', Inr _) \<Rightarrow> (a', 204))
         else (a, 403))"

datatype token_reply = Issued string | Cannot_Sign | Unsupported_Grant | Slow_Down int | Challenge

definition docker_issue :: "user_svc \<Rightarrow> time \<Rightarrow> string \<Rightarrow> string \<Rightarrow> string list \<Rightarrow> string list \<Rightarrow> token_reply" where
  "docker_issue s now userID username roles scopes =
     (case (if scopes \<noteq> [] then GenerateScopedToken (us_auth s) now userID username roles scopes
            else GenerateToken (us_auth s) now userID username roles) of
        Inl _ \<Rightarrow> Cannot_Sign
      | Inr token \<Rightarrow> Issued token)"

definition DockerToken :: "middleware \<Rightarrow> bool \<Rightarrow> 'r guard option \<Rightarrow> accounts \<Rightarrow> auth_request \<Rightarrow> accounts \<times> 'r guard option \<times> token_reply" where
  "DockerToken m anonymousEnabled g a rq =
     (let basic = (case ar_basic rq of None \<Rightarrow> ([], []) | Some up \<Rightarrow> up);
          post = (ar_method rq = ''POST'');
          (username, password) = (if post \<and> fst basic = [] then (ar_form_username rq, ar_form_password rq) else basic)
      in if post \<and> ar_grant_type rq \<noteq> [] \<and> ar_grant_type rq \<noteq> ''password'' then (a, g, Unsupported_Grant)
         else if username \<noteq> [] then
           (case try_basic m g a username password of
              (a', g', By_Token u scopes) \<Rightarrow> (a', g', docker_issue (ma_users m) (ac_now a') (u_id u) (u_username u) (u_roles u) scopes)
            | (a', g', Throttled wait) \<Rightarrow> (a', g', Slow_Down (retryAfterSeconds wait))
            | (a', g', By_Password user) \<Rightarrow> (a', g', docker_issue (ma_users m) (ac_now a') (u_id user) (u_username user) (u_roles user) [])
            | (a', g', Refused) \<Rightarrow> (a', g', Challenge))
         else if \<not> anonymousEnabled then (a, g, Challenge)
         else (a, g, docker_issue (ma_users m) (ac_now a) [] [] [] []))"

section \<open>Managing one's own tokens\<close>

definition NewTokenHandler :: "int \<Rightarrow> int" where
  "NewTokenHandler maxDays = (if maxDays \<le> 0 then 90 else maxDays)"

definition callerUserID :: "identity option \<Rightarrow> string" where
  "callerUserID i = (case i of None \<Rightarrow> [] | Some i \<Rightarrow> i_user_id i)"

text \<open>\<^verbatim>\<open>time.Duration(d) * 24 * time.Hour\<close> wraps like any 64-bit product.\<close>

definition token_handler_create :: "user_svc \<Rightarrow> int \<Rightarrow> string result \<Rightarrow> accounts \<Rightarrow> identity option \<Rightarrow> string \<Rightarrow> string list \<Rightarrow> int option \<Rightarrow>
    accounts \<times> nat \<times> user_token option" where
  "token_handler_create s maxDays buf a i name scopes expiresInDays =
     (let userID = callerUserID i in
      if userID = [] then (a, 401, None)
      else if name = [] then (a, 400, None)
      else if (case expiresInDays of Some d \<Rightarrow> d < 1 \<or> d > maxDays | None \<Rightarrow> False) then (a, 400, None)
      else (case token_create s buf a userID name scopes (map_option (\<lambda>d. ac_now a + i64 (i64 (d * 24) * hour)) expiresInDays) of
          Inl _ \<Rightarrow> (a, 400, None)
        | Inr (a', tok) \<Rightarrow> (a', 201, Some tok)))"

definition token_handler_list :: "accounts \<Rightarrow> identity option \<Rightarrow> nat \<times> user_token list" where
  "token_handler_list a i =
     (if callerUserID i = [] then (401, [])
      else (case tokens_list_by_user a (callerUserID i) 0 of Inl _ \<Rightarrow> (500, []) | Inr ts \<Rightarrow> (200, ts)))"

definition token_handler_delete :: "accounts \<Rightarrow> identity option \<Rightarrow> string \<Rightarrow> accounts \<times> nat" where
  "token_handler_delete a i tokenID =
     (let userID = callerUserID i in
      if userID = [] then (a, 401)
      else (case tokens_get a tokenID 0 of
          Inl _ \<Rightarrow> (a, 500)
        | Inr tok \<Rightarrow>
            if ut_user_id tok \<noteq> userID then (a, 404)
            else (case token_delete a (ut_id tok) of Inl _ \<Rightarrow> (a, 500) | Inr a' \<Rightarrow> (a', 204))))"

end
