(* ===== verification/Session_Laws.thy ===== *)
theory Session_Laws
  imports Sessions
begin

text \<open>
  What the entry points promise: who passes the middleware, that a session dies with the password, role
  or status change that revokes it, that exchanging a token never widens it, that a throttled account
  costs no password check, and that API tokens are managed by their owners only.
\<close>

section \<open>Active accounts\<close>

definition has_active :: "accounts \<Rightarrow> string \<Rightarrow> bool" where
  "has_active a i \<longleftrightarrow> (\<exists>r \<in> set (ac_users a). u_id r = i \<and> u_status r = ''active'')"

lemma has_active_rows:
  assumes "has_active a i" "\<And>r. u_id (f r) = u_id r" "\<And>r. u_status r = ''active'' \<Longrightarrow> u_status (f r) = ''active''"
  shows "has_active (a\<lparr>ac_users := upd_where p f (ac_users a)\<rparr>) i"
proof -
  obtain r where r: "r \<in> set (ac_users a)" "u_id r = i" "u_status r = ''active''" using assms(1) by (auto simp: has_active_def)
  have "(if p r then f r else r) \<in> set (upd_where p f (ac_users a))" using r(1) by (auto simp: set_upd_where)
  moreover have "u_id (if p r then f r else r) = i" "u_status (if p r then f r else r) = ''active''" using r assms(2,3) by auto
  ultimately show ?thesis unfolding has_active_def by auto
qed

lemma has_active_statements:
  "has_active a i \<Longrightarrow> has_active (acc_effort a (users_update_last_login a x n)) i"
  "has_active a i \<Longrightarrow> has_active (acc_effort a (tokens_touch_last_used a x n)) i"
  "has_active a i \<Longrightarrow> has_active (acc_effort a (syncLDAPRoles s a j gs)) i"
  "has_active a i \<Longrightarrow> u_status v = ''active'' \<Longrightarrow> has_active (acc_effort a (users_update a v n)) i"
proof -
  show "has_active a i \<Longrightarrow> has_active (acc_effort a (users_update_last_login a x n)) i"
    by (simp add: users_update_last_login_def acc_io_def has_active_rows)
  show "has_active a i \<Longrightarrow> has_active (acc_effort a (tokens_touch_last_used a x n)) i"
    by (simp add: tokens_touch_last_used_def acc_io_def has_active_def)
  show "has_active a i \<Longrightarrow> has_active (acc_effort a (syncLDAPRoles s a j gs)) i"
    by (auto simp: syncLDAPRoles_def set_wanted_def roles_set_user_roles_def acc_io_def has_active_def acc_effort_def split: sum.splits if_splits)
  show "has_active a i \<Longrightarrow> u_status v = ''active'' \<Longrightarrow> has_active (acc_effort a (users_update a v n)) i"
    by (simp add: users_update_def acc_io_def has_active_rows)
qed

lemma has_active_row:
  assumes "r \<in> set (ac_users a)" "r\<lparr>u_roles := x\<rparr> = u" "u_status u = ''active''"
  shows "has_active a (u_id u)"
proof -
  have "u_id r = u_id u" "u_status r = ''active''" using assms(2,3) by auto
  with assms(1) show ?thesis by (auto simp: has_active_def)
qed

lemma get_opt_active: "get_opt a x n = Inr (Some u) \<Longrightarrow> u_status u = ''active'' \<Longrightarrow> has_active a (u_id u)"
  using get_opt_row has_active_row by blast

lemma created_active: "users_create a v n = Inr (a', v') \<Longrightarrow> u_status v' = ''active'' \<Longrightarrow> has_active a' (u_id v')"
  by (auto simp: users_create_def Let_def has_active_def split: if_splits)

lemma ldap_upsert_active:
  assumes "ldap_upsert a x lu u0 = Inr (a', u)" "u_status u = ''active''"
    and "\<And>v. u0 = Some v \<Longrightarrow> u_status v = ''active'' \<Longrightarrow> has_active a (u_id v)"
  shows "has_active a' (u_id u)"
proof (cases u0)
  case None
  with assms(1,2) show ?thesis by (auto simp: ldap_upsert_def split: sum.splits intro: created_active)
next
  case (Some v)
  then have a': "a' = acc_effort a (users_update a u 0)" and "u_id u = u_id v" "u_status u = u_status v"
    using assms(1) by (auto simp: ldap_upsert_def Let_def)
  with assms(2,3) Some show ?thesis by (simp add: has_active_statements)
qed

lemma loginLDAP_active:
  assumes "loginLDAP s ldap a x pw u0 = (a', Inr (tok, u))"
    and "\<And>v. u0 = Some v \<Longrightarrow> u_status v = ''active'' \<Longrightarrow> has_active a (u_id v)"
  shows "has_active a' (u_id u) \<and> u_status u = ''active''"
proof -
  obtain lu where lu: "ldap x pw = Inr lu" using assms(1) by (cases "ldap x pw") (auto simp: loginLDAP_def)
  obtain a1 v where v: "ldap_upsert a x lu u0 = Inr (a1, v)"
    using assms(1) lu by (cases "ldap_upsert a x lu u0") (auto simp: loginLDAP_def)
  let ?a2 = "acc_effort a1 (syncLDAPRoles s a1 (u_id v) (lu_groups lu))"
  have r: "u_status v = ''active''" "u = reload_roles ?a2 v" "a' = acc_effort ?a2 (users_update_last_login ?a2 x 0)"
    using assms(1) lu v by (auto simp: loginLDAP_def Let_def split: if_splits sum.splits)
  with ldap_upsert_active[OF v r(1) assms(2)] show ?thesis by (simp add: has_active_statements)
qed

lemma local_login_active:
  assumes "local_login s a x pw u0 = (a', Inr (tok, u))"
    and "\<And>v. u0 = Some v \<Longrightarrow> u_status v = ''active'' \<Longrightarrow> has_active a (u_id v)"
  shows "has_active a' (u_id u) \<and> u_status u = ''active''"
  using assms by (auto simp: local_login_def has_active_statements split: option.splits if_splits sum.splits)

lemma Login_active:
  assumes "Login s a x pw = (a', Inr (tok, u))"
  shows "has_active a' (u_id u) \<and> u_status u = ''active''"
proof -
  have ldap: "has_active a' (u_id u) \<and> u_status u = ''active''"
    if "get_opt a z n = Inr u0" "loginLDAP s l a y pw u0 = (a', Inr (tok, u))" for z n u0 l y
    using loginLDAP_active[OF that(2)] get_opt_active that(1) by blast
  have local: "has_active a' (u_id u) \<and> u_status u = ''active''"
    if "get_opt a z n = Inr u0" "local_login s a y pw u0 = (a', Inr (tok, u))" for z n u0 y
    using local_login_active[OF that(2)] get_opt_active that(1) by blast
  show ?thesis
  proof (cases "get_opt a x 0")
    case (Inr u0)
    show ?thesis
    proof (cases "us_ldap s")
      case None
      with assms Inr local show ?thesis by (simp add: Login_def)
    next
      case (Some l)
      show ?thesis
      proof (cases "u0 = None \<or> u_source (the u0) = ''ldap''")
        case False
        with assms Inr Some local show ?thesis by (auto simp: Login_def)
      next
        case dir: True
        show ?thesis
        proof (cases "u0 = None \<and> to_lower x \<noteq> x")
          case True
          with assms Inr Some show ?thesis by (cases "get_opt a (to_lower x) 1") (auto simp: Login_def Let_def dest: ldap)
        next
          case False
          with assms Inr Some dir have "loginLDAP s l a (to_lower x) pw u0 = (a', Inr (tok, u))"
            by (auto simp: Login_def Let_def split: if_splits)
          with ldap[OF Inr] show ?thesis .
        qed
      qed
    qed
  qed (use assms in \<open>simp add: Login_def\<close>)
qed

lemma Authenticate_active:
  assumes "Authenticate s a raw = (a', Inr (u, scopes))"
  shows "has_active a' (u_id u) \<and> u_status u = ''active''"
proof -
  have "\<exists>t :: user_token. users_get_by_id a (ut_user_id t) 0 = Inr u \<and> u_status u = ''active'' \<and>
      a' = acc_effort a (tokens_touch_last_used a (ut_id t) 0)"
    using assms by (auto simp: Authenticate_def split: if_splits sum.splits option.splits)
  then obtain t :: user_token where t: "users_get_by_id a (ut_user_id t) 0 = Inr u" "u_status u = ''active''"
    "a' = acc_effort a (tokens_touch_last_used a (ut_id t) 0)" by blast
  obtain r where "r \<in> set (ac_users a)" "r\<lparr>u_roles := u_roles u\<rparr> = u"
    using t(1) by (auto simp: users_get_by_id_def with_roles_def split: option.splits sum.splits dest!: find_SomeD)
  with t(2) have "has_active a (u_id u)" by (rule has_active_row[rotated 2])
  with t(2,3) show ?thesis by (simp add: has_active_statements)
qed

section \<open>Who passes\<close>

lemma jwtNotRevoked_row:
  assumes "jwtNotRevoked a c"
  shows "\<exists>u \<in> set (ac_users a). u_id u = cl_uid c \<and> (\<forall>t. cl_iat c = Some t \<longrightarrow> u_tokens_valid_after u \<le> t)"
proof -
  obtain u where u: "users_get_by_id a (cl_uid c) 0 = Inr u" "\<forall>t. cl_iat c = Some t \<longrightarrow> u_tokens_valid_after u \<le> t"
    using assms by (auto simp: jwtNotRevoked_def split: sum.splits option.splits)
  obtain r where "r \<in> set (ac_users a)" "u_id r = cl_uid c" "u_tokens_valid_after r = u_tokens_valid_after u"
    using u(1) by (auto simp: users_get_by_id_def with_roles_def split: option.splits sum.splits dest!: find_SomeD)
  with u(2) show ?thesis by auto
qed

definition presented_bearer :: "auth_request \<Rightarrow> string" where
  "presented_bearer rq =
     (if ar_authorization rq = [] \<and> ar_query_token rq \<noteq> [] then ar_query_token rq else bearer_raw (ar_authorization rq))"

text \<open>What counts as a live credential, stated without the code that checks it: a session token, an API token, a password.\<close>

definition session_accepted :: "middleware \<Rightarrow> accounts \<Rightarrow> string \<Rightarrow> identity \<Rightarrow> bool" where
  "session_accepted m a raw i \<longleftrightarrow>
     (\<exists>c. ValidateToken (us_auth (ma_users m)) (ac_now a) raw = Inr c \<and>
        i = \<lparr>i_username = cl_username c, i_user_id = cl_uid c, i_roles = cl_roles c, i_token_scopes = setTokenScopes (cl_scopes c)\<rparr> \<and>
        (\<exists>u \<in> set (ac_users a). u_id u = cl_uid c \<and> (\<forall>t. cl_iat c = Some t \<longrightarrow> u_tokens_valid_after u \<le> t)))"

definition token_accepted :: "middleware \<Rightarrow> accounts \<Rightarrow> string \<Rightarrow> identity \<Rightarrow> bool" where
  "token_accepted m a raw i \<longleftrightarrow> ma_tokens m \<and> has_prefix raw TokenPrefix \<and> has_active a (i_user_id i) \<and>
     (\<exists>t \<in> set (ac_tokens a). ut_token_hash t = hashToken (ma_users m) raw \<and> ut_user_id t = i_user_id i \<and>
        i_token_scopes i = setTokenScopes (ut_scopes t) \<and> (\<forall>e. ut_expires_at t = Some e \<longrightarrow> ac_now a \<le> e))"

definition local_password :: "user_svc \<Rightarrow> accounts \<Rightarrow> string \<Rightarrow> string \<Rightarrow> user \<Rightarrow> bool" where
  "local_password s a x pw u \<longleftrightarrow>
     (\<exists>r \<in> set (ac_users a). r\<lparr>u_roles := u_roles u\<rparr> = u \<and> u_username u = x \<and> u_status u = ''active'' \<and>
        CheckPassword (us_auth s) (u_password_hash r) pw = Inr ())"

definition directory_password :: "user_svc \<Rightarrow> string \<Rightarrow> string \<Rightarrow> user \<Rightarrow> bool" where
  "directory_password s x pw u \<longleftrightarrow>
     (\<exists>ldap lu. us_ldap s = Some ldap \<and> ldap (to_lower x) pw = Inr lu \<and> u_username u \<in> {x, to_lower x} \<and> u_status u = ''active'')"

definition password_accepted :: "middleware \<Rightarrow> 'r guard option \<Rightarrow> accounts \<Rightarrow> string \<Rightarrow> string \<Rightarrow> identity \<Rightarrow> bool" where
  "password_accepted m g a x pw i \<longleftrightarrow> guard_wait g (ac_now a) x \<le> 0 \<and>
     (\<exists>u. i = user_identity u [] \<and> (local_password (ma_users m) a x pw u \<or> directory_password (ma_users m) x pw u))"

lemma local_login_password:
  assumes "local_login s a x pw u0 = (a', Inr (tok, u))" "get_opt a x n = Inr u0"
  shows "local_password s a x pw u"
proof -
  have u: "u0 = Some u" "u_status u = ''active''" "CheckPassword (us_auth s) (u_password_hash u) pw = Inr ()"
    using assms(1) by (auto simp: local_login_def split: option.splits if_splits sum.splits)
  obtain r where r: "u_username u = x" "r \<in> set (ac_users a)" "r\<lparr>u_roles := u_roles u\<rparr> = u"
    using get_opt_row[of a x n u] assms(2) u(1) by blast
  have "u_password_hash r = u_password_hash u" by (subst r(3)[symmetric]) simp
  with r u show ?thesis unfolding local_password_def by metis
qed

lemma created_name: "users_create a v n = Inr (a', v') \<Longrightarrow> u_username v' = u_username v"
  by (auto simp: users_create_def Let_def split: if_splits)

lemma loginLDAP_password:
  assumes "loginLDAP s ldap a y pw u0 = (a', Inr (tok, u))" "\<And>v. u0 = Some v \<Longrightarrow> u_username v \<in> {x, y}"
  shows "(\<exists>lu. ldap y pw = Inr lu) \<and> u_username u \<in> {x, y} \<and> u_status u = ''active''"
proof -
  obtain lu where lu: "ldap y pw = Inr lu" using assms(1) by (cases "ldap y pw") (auto simp: loginLDAP_def)
  obtain a1 v where v: "ldap_upsert a y lu u0 = Inr (a1, v)"
    using assms(1) lu by (cases "ldap_upsert a y lu u0") (auto simp: loginLDAP_def)
  have "u_username u = u_username v" "u_status u = ''active''"
    using assms(1) lu v by (auto simp: loginLDAP_def Let_def reload_roles_def split: if_splits sum.splits)
  moreover have "u_username v \<in> {x, y}"
    using v assms(2) by (auto simp: ldap_upsert_def Let_def created_name split: option.splits sum.splits)
  ultimately show ?thesis using lu by simp
qed

lemma Login_password:
  assumes "Login s a x pw = (a', Inr (tok, u))"
  shows "local_password s a x pw u \<or> directory_password s x pw u"
proof -
  have dir: "directory_password s x pw u"
    if "us_ldap s = Some l" "loginLDAP s l a (to_lower x) pw u0 = (a', Inr (tok, u))" "get_opt a z n = Inr u0" "z \<in> {x, to_lower x}" for l z n u0
  proof -
    have "u_username v \<in> {x, to_lower x}" if "u0 = Some v" for v
      using get_opt_row[of a z n v] \<open>get_opt a z n = Inr u0\<close> \<open>z \<in> _\<close> that by auto
    from loginLDAP_password[OF that(2) this] that(1) show ?thesis by (auto simp: directory_password_def)
  qed
  obtain u0 where u0: "get_opt a x 0 = Inr u0" using assms by (cases "get_opt a x 0") (auto simp: Login_def)
  show ?thesis
  proof (cases "us_ldap s")
    case None
    with assms u0 local_login_password[OF _ u0] show ?thesis by (simp add: Login_def)
  next
    case (Some l)
    show ?thesis
    proof (cases "u0 = None \<or> u_source (the u0) = ''ldap''")
      case False
      with assms u0 Some local_login_password[OF _ u0] show ?thesis by (auto simp: Login_def)
    next
      case d: True
      show ?thesis
      proof (cases "u0 = None \<and> to_lower x \<noteq> x")
        case True
        with assms u0 Some obtain u1 where "get_opt a (to_lower x) 1 = Inr u1" "loginLDAP s l a (to_lower x) pw u1 = (a', Inr (tok, u))"
          by (cases "get_opt a (to_lower x) 1") (auto simp: Login_def Let_def)
        with dir[OF Some] show ?thesis by blast
      next
        case False
        with assms u0 Some d have "loginLDAP s l a (to_lower x) pw u0 = (a', Inr (tok, u))"
          by (auto simp: Login_def Let_def split: if_splits)
        with dir[OF Some _ u0] show ?thesis by blast
      qed
    qed
  qed
qed

lemma Authenticate_token:
  assumes "Authenticate (ma_users m) a raw = (a', Inr (u, scopes))" "ma_tokens m"
  shows "token_accepted m a raw (user_identity u scopes)"
proof -
  obtain tok where tok: "has_prefix raw TokenPrefix" "tokens_get_by_hash a (hashToken (ma_users m) raw) 0 = Inr tok"
    "\<forall>e. ut_expires_at tok = Some e \<longrightarrow> ac_now a \<le> e" "users_get_by_id a (ut_user_id tok) 0 = Inr u" "u_status u = ''active''"
    "scopes = ut_scopes tok"
    using assms(1) by (auto simp: Authenticate_def split: if_splits sum.splits option.splits)
  obtain t where t: "find (\<lambda>t. ut_token_hash t = hashToken (ma_users m) raw) (ac_tokens a) = Some t" "join_user a t = Some tok"
    using tok(2) by (auto simp: tokens_get_by_hash_def bind_eq_Some_conv split: option.splits)
  have t1: "t \<in> set (ac_tokens a)" "ut_token_hash t = hashToken (ma_users m) raw" using find_SomeD[OF t(1)] by auto
  have t2: "ut_user_id t = ut_user_id tok" "ut_scopes t = ut_scopes tok" "ut_expires_at t = ut_expires_at tok"
    using t(2) by (auto simp: join_user_def)
  obtain r where r: "r \<in> set (ac_users a)" "u_id r = ut_user_id tok" "r\<lparr>u_roles := u_roles u\<rparr> = u"
    using tok(4) by (auto simp: users_get_by_id_def with_roles_def split: option.splits sum.splits dest!: find_SomeD)
  have "u_id r = u_id u" by (subst r(3)[symmetric]) simp
  with r(2) have id: "u_id u = ut_user_id tok" by simp
  have "has_active a (u_id u)" by (rule has_active_row[OF r(1,3) tok(5)])
  with assms(2) tok t1 t2 id show ?thesis by (auto simp: token_accepted_def user_identity_def)
qed

lemma authenticateBearer_accepted:
  assumes "authenticateBearer m a raw = (a', Some i, r)"
  shows "session_accepted m a raw i \<or> token_accepted m a raw i"
proof (cases "ValidateToken (us_auth (ma_users m)) (ac_now a) raw")
  case (Inl e)
  with assms show ?thesis
    by (auto simp: authenticateBearer_def split: if_splits prod.splits sum.splits dest: Authenticate_token)
next
  case (Inr c)
  with assms jwtNotRevoked_row[of a c] show ?thesis by (auto simp: authenticateBearer_def session_accepted_def split: if_splits)
qed

lemma Authenticate_refused: "Authenticate s a raw = (a', Inl e) \<Longrightarrow> a' = a"
  by (auto simp: Authenticate_def split: if_splits sum.splits option.splits)

lemma try_token_refused: "try_token m a pw = (a', None) \<Longrightarrow> a' = a"
  by (auto simp: try_token_def split: if_splits prod.splits sum.splits dest: Authenticate_refused)

lemma try_basic_accepted:
  "try_basic m g a x pw = (a', g', By_Token u sc) \<Longrightarrow> token_accepted m a pw (user_identity u sc)"
  "try_basic m g a x pw = (a', g', By_Password u) \<Longrightarrow> password_accepted m g a x pw (user_identity u []) \<and> has_active a' (u_id u)"
proof -
  show "token_accepted m a pw (user_identity u sc)" if "try_basic m g a x pw = (a', g', By_Token u sc)"
    using that by (auto simp: try_basic_def try_token_def try_password_def Let_def split: prod.splits option.splits if_splits sum.splits
        dest: Authenticate_token)
  assume b: "try_basic m g a x pw = (a', g', By_Password u)"
  then obtain a1 where t: "try_token m a pw = (a1, None)" and p: "try_password m g a1 x pw = (a', g', By_Password u)"
    by (auto simp: try_basic_def split: prod.splits option.splits)
  have "a1 = a" by (rule try_token_refused[OF t])
  with p obtain tok where "\<not> guard_wait g (ac_now a) x > 0" "Login (ma_users m) a x pw = (a', Inr (tok, u))"
    by (auto simp: try_password_def Let_def split: if_splits prod.splits sum.splits)
  then show "password_accepted m g a x pw (user_identity u []) \<and> has_active a' (u_id u)"
    using Login_password Login_active unfolding password_accepted_def by (metis not_less)
qed

lemma enforceTokenScopes_pass [simp]:
  "enforceTokenScopes meth i = Pass j \<longleftrightarrow> i = j \<and> scopesAllow (i_token_scopes i) (methodToAction meth)"
  by (auto simp: enforceTokenScopes_def)

text \<open>
  C28. Nobody gets past the authentication middleware without a live credential, and it is the one the
  request itself presents. A bearer token, from the header or from the query when there is no
  header, is a session token that validates now, names the identity, and was issued no earlier than the
  cut-off of an existing account; or an API token whose digest is stored for an active account,
  unexpired, with its scopes. Otherwise the basic credentials are the account's name with such an API token
  or with a password that an unthrottled check found right: bcrypt accepts it for the row of that name,
  which is active, or the directory accepts it. Scopes cover what the method does. This holds for
  header and query tokens, with any call failing.
\<close>

theorem auth_middleware_mediates:
  assumes "QueryTokenAuth m g a rq = (a', g', Pass i)"
  shows "scopesAllow (i_token_scopes i) (methodToAction (ar_method rq)) \<and>
    (if presented_bearer rq \<noteq> [] then session_accepted m a (presented_bearer rq) i \<or> token_accepted m a (presented_bearer rq) i
     else (\<exists>x pw. ar_basic rq = Some (x, pw) \<and>
       (token_accepted m a pw i \<or> (password_accepted m g a x pw i \<and> has_active a' (i_user_id i)))))"
proof -
  let ?rq = "if ar_authorization rq = [] \<and> ar_query_token rq \<noteq> []
    then rq\<lparr>ar_authorization := ''Bearer '' @ ar_query_token rq, ar_basic := None\<rparr> else rq"
  have run: "AuthMiddleware m g a ?rq = (a', g', Pass i)" using assms by (simp add: QueryTokenAuth_def)
  have raw: "bearer_raw (ar_authorization ?rq) = presented_bearer rq"
    by (auto simp: presented_bearer_def bearer_raw_def trim_prefix_def)
  have meth: "ar_method ?rq = ar_method rq" by simp
  show ?thesis
  proof (cases "presented_bearer rq = []")
    case True
    then have same: "?rq = rq" by (auto simp: presented_bearer_def)
    from run True obtain x pw where b: "ar_basic rq = Some (x, pw)"
      unfolding same AuthMiddleware_def Let_def using raw[unfolded same] by (auto split: option.splits)
    obtain r where tb: "try_basic m g a x pw = r" by simp
    consider (token) u sc g1 where "try_basic m g a x pw = (a', g1, By_Token u sc)" "i = user_identity u sc"
        "scopesAllow (i_token_scopes i) (methodToAction (ar_method rq))"
      | (password) u g1 where "try_basic m g a x pw = (a', g1, By_Password u)" "i = user_identity u []"
      using run True b raw[unfolded same] unfolding same AuthMiddleware_def Let_def
      by (auto split: prod.splits attempt.splits)
    then show ?thesis
    proof cases
      case token
      with try_basic_accepted(1)[OF token(1)] True b show ?thesis by simp
    next
      case password
      then have "i_token_scopes i = None" "i_user_id i = u_id u" by (simp_all add: user_identity_def setTokenScopes_def)
      with try_basic_accepted(2)[OF password(1)] password(2) True b show ?thesis by (auto simp: scopesAllow_def)
    qed
  next
    case False
    let ?raw = "presented_bearer rq"
    have "authenticateBearer m a ?raw = (a', Some i, snd (snd (authenticateBearer m a ?raw)))"
      "scopesAllow (i_token_scopes i) (methodToAction (ar_method rq))"
      using False run raw meth by (auto simp: AuthMiddleware_def Let_def split: prod.splits option.splits)
    with authenticateBearer_accepted[OF this(1)] False show ?thesis by auto
  qed
qed

section \<open>Revocation\<close>

definition cut_off :: "accounts \<Rightarrow> string \<Rightarrow> time \<Rightarrow> bool" where
  "cut_off a i t \<longleftrightarrow> ac_fault a = no_faults \<and> i \<in> u_id ` set (ac_users a) \<and> (\<forall>r \<in> set (ac_users a). u_id r = i \<longrightarrow> u_tokens_valid_after r = t)"

lemma cut_off_now [simp]: "cut_off (a\<lparr>ac_now := x\<rparr>) i t = cut_off a i t"
  by (simp add: cut_off_def)

lemma cut_off_bump:
  assumes "ac_fault a = no_faults" "i \<in> u_id ` set (ac_users a)"
  shows "cut_off (acc_effort a (users_bump_tokens_valid_after a i n)) i (ac_now a)"
proof -
  have e: "users_bump_tokens_valid_after a i n =
      Inr (a\<lparr>ac_users := upd_where (\<lambda>x. u_id x = i) (\<lambda>x. x\<lparr>u_tokens_valid_after := ac_now a\<rparr>) (ac_users a)\<rparr>)"
    using assms(1) by (simp add: users_bump_tokens_valid_after_def)
  have ids: "u_id ` set (upd_where (\<lambda>x. u_id x = i) (\<lambda>x. x\<lparr>u_tokens_valid_after := ac_now a\<rparr>) (ac_users a)) = u_id ` set (ac_users a)"
    by (rule image_upd_where) simp
  show ?thesis unfolding e acc_effort_Inr using assms ids by (simp add: cut_off_def) (auto simp: set_upd_where)
qed

lemma cut_off_rejects:
  assumes "cut_off a i t0" "cl_uid c = i" "cl_iat c = Some t" "t < t0"
  shows "\<not> jwtNotRevoked a c"
proof -
  obtain r where r: "find (\<lambda>u. u_id u = i) (ac_users a) = Some r"
    using assms(1) unfolding cut_off_def by (cases "find (\<lambda>u. u_id u = i) (ac_users a)") (auto dest: find_NoneD)
  then have "u_tokens_valid_after r = t0" using assms(1) find_SomeD[OF r] by (auto simp: cut_off_def)
  with assms r show ?thesis by (simp add: jwtNotRevoked_def users_get_by_id_ok cut_off_def)
qed

lemma users_get_id:
  "acc_ok a \<Longrightarrow> users_get a x n = Inr v \<Longrightarrow> u \<in> set (ac_users a) \<Longrightarrow> u_username u = x \<Longrightarrow> u_id v = u_id u \<and> u_status v = u_status u"
proof -
  assume a: "acc_ok a" "users_get a x n = Inr v" "u \<in> set (ac_users a)" "u_username u = x"
  obtain r where r: "find (\<lambda>u. u_username u = x) (ac_users a) = Some r" "v = r\<lparr>u_roles := u_roles v\<rparr>"
    using a(2) by (auto simp: users_get_def with_roles_def split: option.splits sum.splits)
  have "r \<in> set (ac_users a)" "u_username r = x" using find_SomeD[OF r(1)] by auto
  then have "r = u" using a(1,3,4) by (auto simp: acc_ok_def distinct_map dest: inj_onD)
  then show ?thesis by (subst (1 2) r(2)) simp
qed

lemma set_hash_cut_off:
  assumes "set_hash s salt a v x new = (a', Inr ())" "ac_fault a = no_faults" "u_id v \<in> u_id ` set (ac_users a)"
  shows "cut_off a' (u_id v) (ac_now a)"
proof -
  obtain h where h: "HashPassword (us_auth s) salt new = Inr h" using assms(1) by (auto simp: set_hash_def split: sum.splits)
  obtain a1 where a1: "users_update_password a x h 0 = Inr a1" using assms(1) h by (auto simp: set_hash_def split: sum.splits)
  have "ac_fault a1 = no_faults" "ac_now a1 = ac_now a" "map u_id (ac_users a1) = map u_id (ac_users a)"
    using a1 assms(2) by (simp_all add: users_update_password_def, auto simp: map_upd_where)
  then have "ac_fault a1 = no_faults" "ac_now a1 = ac_now a" "u_id ` set (ac_users a1) = u_id ` set (ac_users a)"
    by (metis list.set_map)+
  with cut_off_bump[of a1 "u_id v" 0] assms(1,3) h a1 show ?thesis by (simp add: set_hash_def)
qed

text \<open>The four changes the code revokes sessions for.\<close>

inductive revoking_change :: "user_svc \<Rightarrow> accounts \<Rightarrow> user \<Rightarrow> accounts \<Rightarrow> bool" for s a u where
  reset: "SetPassword s salt a (u_username u) new = (a', Inr ()) \<Longrightarrow> revoking_change s a u a'"
| change: "ChangePassword s salt a (u_username u) old new = (a', Inr ()) \<Longrightarrow> revoking_change s a u a'"
| roles: "SetUserRoles a (u_id u) roleIDs = Inr a' \<Longrightarrow> revoking_change s a u a'"
| disable: "svc_update a (u_username u) updates = (a', Inr v) \<Longrightarrow> u_status u = ''active'' \<Longrightarrow> u_status updates = ''disabled'' \<Longrightarrow>
    revoking_change s a u a'"

lemma svc_update_cut_off:
  assumes "acc_ok a" "ac_fault a = no_faults" "u \<in> set (ac_users a)" "u_status u = ''active''"
    and "svc_update a (u_username u) updates = (a', Inr v)" "u_status updates = ''disabled''"
  shows "cut_off a' (u_id u) (ac_now a)"
proof -
  obtain w where w: "users_get a (u_username u) 0 = Inr w"
    using assms(5) by (auto simp: svc_update_def svc_get_def split: sum.splits)
  have id: "u_id w = u_id u" "u_status w = ''active''" using users_get_id[OF assms(1) w assms(3) refl] assms(4) by auto
  let ?u1 = "if u_email updates \<noteq> [] then w\<lparr>u_email := u_email updates\<rparr> else w"
  let ?u2 = "if u_first_name updates \<noteq> [] then ?u1\<lparr>u_first_name := u_first_name updates\<rparr> else ?u1"
  let ?u3 = "if u_last_name updates \<noteq> [] then ?u2\<lparr>u_last_name := u_last_name updates\<rparr> else ?u2"
  let ?u4 = "?u3\<lparr>u_status := ''disabled''\<rparr>"
  have st: "u_status ?u3 = ''active''" "u_id ?u4 = u_id u" using id by auto
  obtain a1 where a1: "users_update a ?u4 0 = Inr a1"
    "a' = acc_effort a1 (users_bump_tokens_valid_after a1 (u_id ?u4) 0)"
    using assms(5,6) w st(1) unfolding svc_update_def svc_get_def Let_def
    by (simp split: sum.split_asm split del: if_split)
  have fr: "ac_fault a1 = no_faults" "ac_now a1 = ac_now a" "map u_id (ac_users a1) = map u_id (ac_users a)"
    using users_update_frame[OF a1(1)] assms(2) by auto
  have "u_id u \<in> u_id ` set (ac_users a1)" using arg_cong[OF fr(3), of set] assms(3) by simp
  then show ?thesis using cut_off_bump[OF fr(1), of "u_id u" 0] unfolding a1(2) st(2) fr(2) by blast
qed

lemma revoking_cut_off:
  assumes ok: "acc_ok a" and nf: "ac_fault a = no_faults" and u: "u \<in> set (ac_users a)" and ch: "revoking_change s a u a'"
  shows "cut_off a' (u_id u) (ac_now a)"
  using ch
proof cases
  case (reset salt new)
  then obtain v where v: "users_get a (u_username u) 0 = Inr v" "set_hash s salt a v (u_username u) new = (a', Inr ())"
    by (auto simp: SetPassword_def svc_get_def split: sum.splits)
  with set_hash_cut_off[OF v(2) nf] users_get_id[OF ok v(1) u refl] u show ?thesis by simp
next
  case (change salt old new)
  then obtain v where v: "users_get a (u_username u) 0 = Inr v" "set_hash s salt a v (u_username u) new = (a', Inr ())"
    by (auto simp: ChangePassword_def svc_get_def split: sum.splits)
  with set_hash_cut_off[OF v(2) nf] users_get_id[OF ok v(1) u refl] u show ?thesis by simp
next
  case (roles roleIDs)
  then obtain a1 where a1: "roles_set_user_roles a (u_id u) roleIDs 0 = Inr a1"
    "a' = acc_effort a1 (users_bump_tokens_valid_after a1 (u_id u) 0)"
    by (auto simp: SetUserRoles_def split: sum.splits)
  have "ac_fault a1 = no_faults" "ac_now a1 = ac_now a" "ac_users a1 = ac_users a"
    using a1(1) nf by (auto simp: roles_set_user_roles_def split: if_splits)
  with cut_off_bump[of a1 "u_id u" 0] a1(2) u show ?thesis by simp
next
  case (disable updates v)
  with svc_update_cut_off[OF ok nf u] show ?thesis by blast
qed

text \<open>
  C29. When no call fails, a change of one's password, an administrator's reset, a change of roles by
  \<open>SetUserRoles\<close> and disabling an account by an update end its sessions: a session token issued before the
  change is refused by the middleware with \<^verbatim>\<open>token invalidated\<close> at any later time, although its signature
  is good and it has not expired. The roles an LDAP, OIDC or SAML login synchronises revoke nothing, and
  when the bump of the cut-off fails the change stands and the sessions live on.
\<close>

theorem credential_change_revokes_sessions:
  assumes "acc_ok a" "ac_fault a = no_faults" "u \<in> set (ac_users a)"
    and "revoking_change (ma_users m) a u a'"
    and "ValidateToken (us_auth (ma_users m)) t raw = Inr c" "cl_uid c = u_id u" "u_id u \<noteq> []"
    and "cl_iat c = Some iat" "iat < ac_now a" "raw \<noteq> []" "ar_authorization rq = ''Bearer '' @ raw"
  shows "AuthMiddleware m g (a'\<lparr>ac_now := t\<rparr>) rq = (a'\<lparr>ac_now := t\<rparr>, g, Unauthorized_Reply ''token invalidated'')"
proof -
  have "\<not> jwtNotRevoked (a'\<lparr>ac_now := t\<rparr>) c"
    by (rule cut_off_rejects[where i = "u_id u" and t = iat and ?t0.0 = "ac_now a"])
      (use assms revoking_cut_off[OF assms(1-4)] in simp_all)
  moreover have "bearer_raw (ar_authorization rq) = raw" using assms(11) by (simp add: bearer_raw_def trim_prefix_def)
  ultimately show ?thesis using assms(5-7,10) by (simp add: AuthMiddleware_def authenticateBearer_def)
qed

section \<open>Exchanging credentials for a session token\<close>

text \<open>What the JWT library promises: a token it signed is read back while it has not expired.\<close>

definition jwt_reads_back :: "auth_lib \<Rightarrow> bool" where
  "jwt_reads_back L \<longleftrightarrow>
     (\<forall>alg key c tok kf now. al_sign L alg key c = Inr tok \<longrightarrow> kf alg = Inr key \<longrightarrow>
        (\<forall>e. cl_exp c = Some e \<longrightarrow> now < e) \<longrightarrow> al_parse L kf now tok = Inr c)"

lemma validate_signed:
  assumes "jwt_reads_back (as_lib s)" "al_sign (as_lib s) ''HS256'' (as_secret s) c = Inr tok" "\<And>e. cl_exp c = Some e \<Longrightarrow> now < e"
  shows "ValidateToken s now tok = Inr c"
proof -
  have "hmac_key s ''HS256'' = Inr (as_secret s)" by (simp add: hmac_key_def)
  with assms have "al_parse (as_lib s) (hmac_key s) now tok = Inr c" unfolding jwt_reads_back_def by blast
  then show ?thesis by (simp add: ValidateToken_def)
qed

lemma bearer_of_claims:
  assumes "ValidateToken (us_auth (ma_users m)) (ac_now b) tok = Inr c" "authenticateBearer m b tok = (b', i, revoked)"
  shows "(revoked \<and> i = None) \<or> (cl_uid c = [] \<and> i = None) \<or>
    i = Some \<lparr>i_username = cl_username c, i_user_id = cl_uid c, i_roles = cl_roles c, i_token_scopes = setTokenScopes (cl_scopes c)\<rparr>"
  using assms by (auto simp: authenticateBearer_def split: if_splits)

lemma docker_issue_claims:
  assumes "jwt_reads_back (as_lib (us_auth s))" "docker_issue s t0 uid name roles scopes = Issued tok"
    and "now < al_date (as_lib (us_auth s)) (t0 + i64 (as_expiry_hrs (us_auth s) * hour))"
  shows "ValidateToken (us_auth s) now tok = Inr ((new_claims (us_auth s) t0 uid name roles)\<lparr>cl_scopes := scopes\<rparr>)"
proof -
  have "al_sign (as_lib (us_auth s)) ''HS256'' (as_secret (us_auth s)) ((new_claims (us_auth s) t0 uid name roles)\<lparr>cl_scopes := scopes\<rparr>) = Inr tok"
    using assms(2)
    by (auto simp: docker_issue_def GenerateScopedToken_def GenerateToken_def new_claims_def split: sum.splits if_splits)
  then show ?thesis by (rule validate_signed[OF assms(1)]) (use assms(3) in \<open>auto simp: new_claims_def\<close>)
qed

text \<open>
  C30. The registry's token endpoint neither widens nor changes who the client is: the token it issues for
  a request, presented as a bearer token at any later time before it expires, identifies the client
  exactly as the same request's credentials do on the data routes, the same user, the same roles,
  the scopes of the API token and no others, and nobody for a client without credentials; or it is
  refused because the account's sessions were revoked meanwhile.
\<close>

theorem docker_token_conveys_identity:
  assumes jwt: "jwt_reads_back (as_lib (us_auth (ma_users m)))"
    and rq: "ar_method rq = ''GET''" "\<not> has_prefix (ar_authorization rq) ''Bearer ''"
    and direct: "OptionalAuth m g a rq = (a1, g1, i0)"
    and ids: "\<And>j. i0 = Some j \<Longrightarrow> i_user_id j \<noteq> []"
    and issued: "DockerToken m anonymousEnabled g a rq = (a2, g2, Issued tok)"
    and later: "ac_now b < al_date (as_lib (us_auth (ma_users m))) (ac_now a2 + i64 (as_expiry_hrs (us_auth (ma_users m)) * hour))"
    and bearer: "authenticateBearer m b tok = (b', i, revoked)"
  shows "i = i0 \<or> (revoked \<and> i = None)"
proof -
  let ?up = "case ar_basic rq of None \<Rightarrow> ([], []) | Some up \<Rightarrow> up"
  have claims: "ValidateToken (us_auth (ma_users m)) (ac_now b) tok =
      Inr ((new_claims (us_auth (ma_users m)) (ac_now a2) uid name roles)\<lparr>cl_scopes := scopes\<rparr>)"
    if "docker_issue (ma_users m) (ac_now a2) uid name roles scopes = Issued tok" for uid name roles scopes
    using docker_issue_claims[OF jwt that later] .
  have conv: "i = Some \<lparr>i_username = name, i_user_id = uid, i_roles = roles, i_token_scopes = setTokenScopes scopes\<rparr> \<or> (revoked \<and> i = None)"
    if "docker_issue (ma_users m) (ac_now a2) uid name roles scopes = Issued tok" "uid \<noteq> []" for uid name roles scopes
    using bearer_of_claims[OF claims[OF that(1)] bearer] that(2) by (auto simp: new_claims_def)
  have anon: "i = None" if "docker_issue (ma_users m) (ac_now a2) [] [] [] [] = Issued tok"
    using bearer bearer_of_claims[OF claims[OF that] bearer] claims[OF that] by (auto simp: new_claims_def authenticateBearer_def)
  show ?thesis
  proof (cases "fst ?up = []")
    case True
    then have "i0 = None" "docker_issue (ma_users m) (ac_now a2) [] [] [] [] = Issued tok"
      using rq direct issued by (auto simp: OptionalAuth_def DockerToken_def Let_def split: option.splits prod.splits if_splits)
    with anon show ?thesis by simp
  next
    case False
    then obtain x pw where up: "ar_basic rq = Some (x, pw)" "x \<noteq> []" by (auto split: option.splits)
    obtain a' g' r where tb: "try_basic m g a x pw = (a', g', r)" by (metis prod_cases3)
    show ?thesis
    proof (cases r)
      case (By_Token u sc)
      then have "i0 = Some (user_identity u sc)" "a2 = a'" "docker_issue (ma_users m) (ac_now a') (u_id u) (u_username u) (u_roles u) sc = Issued tok"
        using rq direct issued up tb by (auto simp: OptionalAuth_def DockerToken_def Let_def)
      with conv ids show ?thesis by (auto simp: user_identity_def)
    next
      case (By_Password u)
      then have "i0 = Some (user_identity u [])" "a2 = a'" "docker_issue (ma_users m) (ac_now a') (u_id u) (u_username u) (u_roles u) [] = Issued tok"
        using rq direct issued up tb by (auto simp: OptionalAuth_def DockerToken_def Let_def)
      with conv ids show ?thesis by (auto simp: user_identity_def)
    qed (use rq issued up tb in \<open>auto simp: DockerToken_def Let_def\<close>)
  qed
qed

lemma cut_off_rows:
  assumes "cut_off a i t" "\<And>r. u_id (f r) = u_id r \<and> u_tokens_valid_after (f r) = u_tokens_valid_after r"
  shows "cut_off (a\<lparr>ac_users := upd_where p f (ac_users a)\<rparr>) i t"
proof -
  have "u_id ` set (upd_where p f (ac_users a)) = u_id ` set (ac_users a)" by (rule image_upd_where) (simp add: assms(2))
  with assms show ?thesis by (simp add: cut_off_def) (auto simp: set_upd_where)
qed

lemma cut_off_touch:
  "cut_off a i t \<Longrightarrow> cut_off (acc_effort a (users_update_last_login a x n)) i t"
  "cut_off a i t \<Longrightarrow> cut_off (acc_effort a (users_set_oidc_tokens a j h n)) i t"
  by (simp_all add: users_update_last_login_def users_set_oidc_tokens_def acc_io_def cut_off_rows)

lemma created_cut_off:
  assumes "users_create a v n = Inr (a1, v1)" "acc_ok a" "ac_fault a = no_faults"
  shows "cut_off a1 (u_id v1) (ac_now a) \<and> ac_now a1 = ac_now a"
proof -
  obtain row where "ac_users a1 = ac_users a @ [row]" "u_id row = u_id v1" "u_tokens_valid_after row = ac_now a"
    "ac_fault a1 = ac_fault a" "ac_now a1 = ac_now a"
    using assms(1) by (auto simp: users_create_def Let_def split: if_splits)
  moreover have "\<forall>r \<in> set (ac_users a). u_id r \<noteq> u_id v1" using fresh_id(1)[OF assms(2,1)] by metis
  ultimately show ?thesis using assms(3) by (auto simp: cut_off_def)
qed

lemma synced_cut_off:
  assumes "cut_off a i t"
  shows "cut_off (acc_effort a (syncOIDCRoles s a j gs)) i t \<and> ac_now (acc_effort a (syncOIDCRoles s a j gs)) = ac_now a"
  using assms
  by (auto simp: syncOIDCRoles_def set_wanted_def roles_set_user_roles_def cut_off_def acc_effort_def split: sum.splits if_splits)

text \<open>
  C31. The first session of an account that single sign-on has just created is stillborn: the account's
  cut-off is the moment of its creation, while a token's issue time is cut down to whole seconds, so
  unless the login falls on a full second the token that the login hands out is refused at once as
  invalidated.
\<close>

theorem first_sso_session_is_refused:
  assumes jwt: "jwt_reads_back (as_lib (us_auth (ma_users m)))" and ok: "acc_ok a" "ac_fault a = no_faults"
    and login: "LoginOIDC (ma_users m) a claims rawIDToken = (a', Inr (tok, v))"
    and first: "get_opt a (to_lower (trim_space (oc_username claims))) 0 = Inr None" "u_id v \<noteq> []"
    and early: "al_date (as_lib (us_auth (ma_users m))) (ac_now a) < ac_now a"
    and valid: "ac_now a < al_date (as_lib (us_auth (ma_users m))) (ac_now a + i64 (as_expiry_hrs (us_auth (ma_users m)) * hour))"
  shows "authenticateBearer m a' tok = (a', None, True)"
proof -
  let ?s = "ma_users m" and ?x = "to_lower (trim_space (oc_username claims))"
  obtain v0 a1 v1 where new: "users_create a v0 0 = Inr (a1, v1)" "oidc_finish ?s claims rawIDToken ?x a1 v1 = (a', Inr (tok, v))"
    using login first(1) by (auto simp: LoginOIDC_def Let_def split: if_splits sum.splits)
  let ?a2 = "acc_effort a1 (syncOIDCRoles ?s a1 (u_id v1) (oc_groups claims))"
  let ?a3 = "acc_effort ?a2 (users_set_oidc_tokens ?a2 (u_id v1) rawIDToken 0)"
  let ?a4 = "acc_effort ?a3 (users_update_last_login ?a3 ?x 0)"
  let ?tok = "\<lambda>t. GenerateTokenWithMethod (us_auth ?s) t (u_id v1) (u_username v1) (u_roles (reload_roles ?a2 v1)) ''oidc''"
  have "oidc_finish ?s claims rawIDToken ?x a1 v1 = (if u_status v1 \<noteq> ''active'' then (a1, Inl inactive)
      else case ?tok (ac_now ?a2) of Inl e \<Rightarrow> (?a2, Inl e) | Inr token \<Rightarrow> (?a4, Inr (token, reload_roles ?a2 v1)))"
    unfolding oidc_finish_def Let_def reload_roles_keeps ..
  with new(2) have fin: "?tok (ac_now ?a2) = Inr tok" "a' = ?a4" "u_id v = u_id v1"
    by (auto split: if_splits sum.splits)
  note c1 = created_cut_off[OF new(1) ok]
  have c2: "cut_off ?a2 (u_id v1) (ac_now a)" "ac_now ?a2 = ac_now a" using synced_cut_off c1 by metis+
  have cut: "cut_off a' (u_id v1) (ac_now a)" unfolding fin(2) using c2(1) by (intro cut_off_touch)
  have now: "ac_now a' = ac_now a"
    unfolding fin(2) using c2(2) by (simp add: acc_effort_def users_update_last_login_def users_set_oidc_tokens_def acc_io_def)
  let ?c = "(new_claims (us_auth ?s) (ac_now a) (u_id v1) (u_username v1) (u_roles (reload_roles ?a2 v1)))\<lparr>cl_auth_method := ''oidc''\<rparr>"
  have "al_sign (as_lib (us_auth ?s)) ''HS256'' (as_secret (us_auth ?s)) ?c = Inr tok"
    using fin(1) by (simp add: GenerateTokenWithMethod_def c2(2))
  then have val: "ValidateToken (us_auth ?s) (ac_now a') tok = Inr ?c"
    by (rule validate_signed[OF jwt]) (use valid in \<open>simp add: new_claims_def now\<close>)
  have "\<not> jwtNotRevoked a' ?c"
    by (rule cut_off_rejects[OF cut, where t = "al_date (as_lib (us_auth ?s)) (ac_now a)"]) (use early in \<open>simp_all add: new_claims_def\<close>)
  with val fin(3) first(2) show ?thesis by (simp add: authenticateBearer_def new_claims_def)
qed

section \<open>Throttling and tokens of one's own\<close>

lemma round_seconds_nonneg: "0 < d \<Longrightarrow> 1 \<le> retryAfterSeconds d"
  by (simp add: retryAfterSeconds_def Let_def)

text \<open>
  C32. Where a password logs a client in, a throttled account costs no password check: while an account is
  locked for its wrong guesses, the session login, the middleware, the registry's ping and its token
  endpoint, asked by GET or by POST with basic or form credentials, answer 429 with a wait of at least one
  second, the data routes go on without an identity, and the accounts and the guard are left as
  they are, so neither the answer nor the state depends on the password that was sent. An API token in place of the
  password is no guess and is not throttled. Changing one's own password is not covered: lemma
  \<open>change_password_is_not_throttled\<close> shows that it checks the old password of a locked account.
\<close>

theorem throttled_password_is_not_checked:
  assumes wait: "guard_wait g (ac_now a) username > 0"
    and basic: "ar_basic rq = Some (username, password)" "\<not> has_prefix (ar_authorization rq) ''Bearer ''"
    and given: "username \<noteq> []" "password \<noteq> []" "snd (try_token m a password) = None"
    and grant: "ar_method rq = ''POST'' \<Longrightarrow> ar_grant_type rq \<in> {[], ''password''}"
  shows "\<exists>retry \<ge> 1.
    login_handler (ma_users m) g a username password = (a, g, Too_Many retry) \<and>
    AuthMiddleware m g a rq = (a, g, Throttled_Reply retry) \<and>
    OptionalAuth m g a rq = (a, g, None) \<and>
    (has_prefix (ar_authorization rq) ''Basic '' \<longrightarrow> DockerV2Auth m g a rq = (a, g, 429)) \<and>
    DockerToken m anonymousEnabled g a rq = (a, g, Slow_Down retry) \<and>
    DockerToken m anonymousEnabled g a (rq\<lparr>ar_method := ''POST'', ar_grant_type := ''password'', ar_basic := None,
      ar_form_username := username, ar_form_password := password\<rparr>) = (a, g, Slow_Down retry)"
proof -
  let ?w = "guard_wait g (ac_now a) username"
  obtain a1 where "try_token m a password = (a1, None)" using given(3) by (metis prod.collapse)
  then have tb: "try_basic m g a username password = (a, g, Throttled ?w)"
    using wait try_token_refused by (fastforce simp: try_basic_def try_password_def)
  have ne: "ar_authorization rq \<noteq> []" if "has_prefix (ar_authorization rq) ''Basic ''"
    using that by (cases "ar_authorization rq") auto
  show ?thesis
  proof (intro exI[of _ "retryAfterSeconds ?w"] conjI impI)
    show "1 \<le> retryAfterSeconds ?w" using wait by (rule round_seconds_nonneg)
    show "login_handler (ma_users m) g a username password = (a, g, Too_Many (retryAfterSeconds ?w))"
      using wait given(1,2) by (simp add: login_handler_def)
    show "AuthMiddleware m g a rq = (a, g, Throttled_Reply (retryAfterSeconds ?w))"
      using tb basic by (simp add: AuthMiddleware_def bearer_raw_def)
    show "OptionalAuth m g a rq = (a, g, None)"
      using tb basic given(1) by (simp add: OptionalAuth_def)
    show "DockerV2Auth m g a rq = (a, g, 429)" if "has_prefix (ar_authorization rq) ''Basic ''"
      using tb basic that ne[OF that] by (simp add: DockerV2Auth_def)
    show "DockerToken m anonymousEnabled g a rq = (a, g, Slow_Down (retryAfterSeconds ?w))"
      using tb basic given(1) grant by (auto simp: DockerToken_def)
    show "DockerToken m anonymousEnabled g a (rq\<lparr>ar_method := ''POST'', ar_grant_type := ''password'', ar_basic := None,
        ar_form_username := username, ar_form_password := password\<rparr>) = (a, g, Slow_Down (retryAfterSeconds ?w))"
      using tb given(1) by (simp add: DockerToken_def)
  qed
qed

lemma day_product: "\<not> d < 1 \<Longrightarrow> \<not> n < d \<Longrightarrow> n \<le> 100000 \<Longrightarrow> i64 (i64 (d * 24) * hour) = d * 24 * hour"
  by (simp add: hour_def i64_id i64_min_def i64_max_def)

text \<open>
  API tokens belong to their owners: the endpoint issues a token to the caller only, with a lifetime
  of at least a day and at most the configured maximum when one is asked for, and no request removes
  a token of somebody else.
\<close>

lemma tokens_are_managed_by_owner:
  assumes "maxDays \<le> 100000"
  shows "(token_handler_create s maxDays buf a i name scopes days = (a1, 201, Some tok) \<longrightarrow>
      ut_user_id tok = callerUserID i \<and>
      (\<forall>d. days = Some d \<longrightarrow> 1 \<le> d \<and> d \<le> maxDays \<and> ut_expires_at tok = Some (ac_now a + d * 24 * hour))) \<and>
    (\<forall>t \<in> set (ac_tokens a) - set (ac_tokens (fst (token_handler_delete a i tokenID))). acc_ok a \<longrightarrow> ut_user_id t = callerUserID i)"
  (is "?create \<and> ?delete")
proof
  have tc: "ut_user_id tok = j \<and> ut_expires_at tok = e" if "token_create s buf a j name scopes e = Inr (a1, tok)" for j e
    using that by (auto simp: token_create_def tokens_create_def Let_def split: if_splits sum.splits)
  show ?create
    using assms by (auto simp: token_handler_create_def Let_def intro!: day_product[of _ maxDays] split: if_splits sum.splits option.splits dest!: tc)
  show ?delete
  proof (intro ballI impI)
    fix t assume t: "t \<in> set (ac_tokens a) - set (ac_tokens (fst (token_handler_delete a i tokenID)))" and ok: "acc_ok a"
    have "\<exists>tk. tokens_get a tokenID 0 = Inr tk \<and> ut_user_id tk = callerUserID i \<and> ut_id t = ut_id tk"
      using t by (auto simp: token_handler_delete_def Let_def token_delete_def tokens_delete_def acc_io_def split: sum.splits if_splits)
    then obtain tk where tk: "tokens_get a tokenID 0 = Inr tk" "ut_user_id tk = callerUserID i" "ut_id t = ut_id tk" by blast
    obtain r where r: "find (\<lambda>t. ut_id t = tokenID) (ac_tokens a) = Some r" "join_user a r = Some tk"
      using tk(1) by (auto simp: tokens_get_def bind_eq_Some_conv split: option.splits)
    have "r \<in> set (ac_tokens a)" using find_SomeD[OF r(1)] by blast
    moreover have "ut_id r = ut_id t" "ut_user_id r = ut_user_id tk" using r(2) tk(3) by (auto simp: join_user_def)
    moreover have "inj_on ut_id (set (ac_tokens a))" using ok by (simp add: acc_ok_def distinct_map)
    ultimately have "r = t" using t by (auto dest: inj_onD)
    with \<open>ut_user_id r = ut_user_id tk\<close> tk(2) show "ut_user_id t = callerUserID i" by simp
  qed
qed

section \<open>A concrete installation\<close>

text \<open>A JWT library that knows one set of claims.\<close>

definition one_jwt :: "claims \<Rightarrow> auth_lib \<Rightarrow> auth_lib" where
  "one_jwt c0 L = L\<lparr>
     al_sign := (\<lambda>alg key c. if alg = ''HS256'' \<and> key = ''s3cret'' \<and> c = c0 then Inr ''T'' else Inl ErrIO),
     al_parse := (\<lambda>kf now tok. if tok = ''T'' \<and> kf ''HS256'' = Inr ''s3cret'' \<and> (case cl_exp c0 of Some e \<Rightarrow> now < e | None \<Rightarrow> True)
       then Inr c0 else Inl (ErrMsg ''malformed''))\<rparr>"

lemma one_jwt_reads_back: "jwt_reads_back (one_jwt c0 L)"
  by (auto simp: jwt_reads_back_def one_jwt_def split: option.splits if_splits)

definition demo_mw :: "claims \<Rightarrow> middleware" where
  "demo_mw c0 = \<lparr>ma_users = demo_svc\<lparr>us_auth := (us_auth demo_svc)\<lparr>as_lib := one_jwt c0 (as_lib (us_auth demo_svc))\<rparr>\<rparr>, ma_tokens = True\<rparr>"

lemma demo_mw_reads_back: "jwt_reads_back (as_lib (us_auth (ma_users (demo_mw c0))))"
  by (simp add: demo_mw_def one_jwt_reads_back)

definition demo_session :: claims where
  "demo_session = new_claims (us_auth demo_svc) 5 ''u1'' ''alice'' [''developer'']"

definition demo_request :: "string \<Rightarrow> (string \<times> string) option \<Rightarrow> auth_request" where
  "demo_request header basic = \<lparr>ar_method = ''GET'', ar_authorization = header, ar_basic = basic, ar_query_token = [],
     ar_grant_type = [], ar_form_username = [], ar_form_password = []\<rparr>"

abbreviation no_guard :: "unit guard option" where "no_guard \<equiv> None"

lemma outcome3: "snd (snd x) = o' \<Longrightarrow> x = (fst x, fst (snd x), o')"
  by auto

lemma auth_middleware_mediates_witness:
  "password_accepted (demo_mw demo_session) no_guard demo_accounts ''alice'' ''pw''
     \<lparr>i_username = ''alice'', i_user_id = ''u1'', i_roles = [''developer''], i_token_scopes = None\<rparr>"
proof -
  let ?rq = "demo_request ''Basic YWxpY2U6cHc='' (Some (''alice'', ''pw''))"
  let ?i = "\<lparr>i_username = ''alice'', i_user_id = ''u1'', i_roles = [''developer''], i_token_scopes = None\<rparr>"
  have e: "snd (snd (QueryTokenAuth (demo_mw demo_session) no_guard demo_accounts ?rq)) = Pass ?i" by code_simp
  have "presented_bearer ?rq = []" "\<not> has_prefix ''pw'' TokenPrefix" "ar_basic ?rq = Some (''alice'', ''pw'')"
    by (simp_all add: presented_bearer_def bearer_raw_def demo_request_def TokenPrefix_def)
  with auth_middleware_mediates[OF outcome3[OF e]] show ?thesis by (simp add: token_accepted_def)
qed

lemma credential_change_revokes_sessions_witness:
  "snd (snd (AuthMiddleware (demo_mw demo_session) no_guard (fst (SetPassword (ma_users (demo_mw demo_session)) 0 demo_accounts ''alice'' ''new''))
     (demo_request ''Bearer T'' None))) = Unauthorized_Reply ''token invalidated'' \<and>
   (\<exists>i. snd (snd (AuthMiddleware (demo_mw demo_session) no_guard demo_accounts (demo_request ''Bearer T'' None))) = Pass i)"
proof
  let ?m = "demo_mw demo_session" and ?u = "hd (ac_users demo_accounts)"
  let ?a' = "fst (SetPassword (ma_users ?m) 0 demo_accounts ''alice'' ''new'')"
  have u: "?u \<in> set (ac_users demo_accounts)" "u_username ?u = ''alice''" "u_id ?u = ''u1''"
    by (simp_all add: demo_accounts_def new_user_def)
  have "snd (SetPassword (ma_users ?m) 0 demo_accounts ''alice'' ''new'') = Inr ()" by code_simp
  then have "SetPassword (ma_users ?m) 0 demo_accounts (u_username ?u) ''new'' = (?a', Inr ())" using u(2) by (metis prod.collapse)
  then have ch: "revoking_change (ma_users ?m) demo_accounts ?u ?a'" by (rule revoking_change.reset)
  have nf: "ac_fault demo_accounts = no_faults" "ac_now demo_accounts = 5" by (simp_all add: demo_accounts_def)
  have v: "ValidateToken (us_auth (ma_users ?m)) 5 ''T'' = Inr demo_session" by code_simp
  have c: "cl_uid demo_session = u_id ?u" "u_id ?u \<noteq> []" "cl_iat demo_session = Some 0" "(0 :: int) < ac_now demo_accounts"
    by code_simp+
  have "ar_authorization (demo_request ''Bearer T'' None) = ''Bearer '' @ ''T''" by (simp add: demo_request_def)
  from credential_change_revokes_sessions[OF demo_accounts_ok nf(1) u(1) ch v c _ this, where g = no_guard]
  have "snd (snd (AuthMiddleware ?m no_guard (?a'\<lparr>ac_now := 5\<rparr>) (demo_request ''Bearer T'' None))) = Unauthorized_Reply ''token invalidated''"
    by simp
  moreover have "?a'\<lparr>ac_now := 5\<rparr> = ?a'"
  proof -
    have "ac_now ?a' = 5" by code_simp
    then show ?thesis by (cases ?a') simp
  qed
  ultimately show "snd (snd (AuthMiddleware ?m no_guard (fst (SetPassword (ma_users (demo_mw demo_session)) 0 demo_accounts ''alice'' ''new''))
     (demo_request ''Bearer T'' None))) = Unauthorized_Reply ''token invalidated''" by simp
  have "snd (snd (AuthMiddleware ?m no_guard demo_accounts (demo_request ''Bearer T'' None))) =
      Pass \<lparr>i_username = ''alice'', i_user_id = ''u1'', i_roles = [''developer''], i_token_scopes = None\<rparr>" by code_simp
  then show "\<exists>i. snd (snd (AuthMiddleware ?m no_guard demo_accounts (demo_request ''Bearer T'' None))) = Pass i" by blast
qed

definition demo_ci_accounts :: accounts where
  "demo_ci_accounts = (case token_create demo_svc (Inr ''0123'') demo_accounts ''u1'' ''ci'' [''read''] None of Inr (a, _) \<Rightarrow> a | Inl _ \<Rightarrow> demo_accounts)"

lemma docker_token_conveys_identity_witness:
  "snd (authenticateBearer (demo_mw (demo_session\<lparr>cl_scopes := [''read'']\<rparr>)) demo_ci_accounts ''T'') =
    (Some \<lparr>i_username = ''alice'', i_user_id = ''u1'', i_roles = [''developer''], i_token_scopes = Some [''read'']\<rparr>, False)"
proof -
  let ?m = "demo_mw (demo_session\<lparr>cl_scopes := [''read'']\<rparr>)" and ?rq = "demo_request ''Basic eDpueHM='' (Some (''x'', ''nxs_30313233''))"
  let ?i0 = "Some \<lparr>i_username = ''alice'', i_user_id = ''u1'', i_roles = [''developer''], i_token_scopes = Some [''read'']\<rparr>"
  have d: "snd (snd (OptionalAuth ?m no_guard demo_ci_accounts ?rq)) = ?i0" by code_simp
  have t: "snd (snd (DockerToken ?m True no_guard demo_ci_accounts ?rq)) = Issued ''T''" by code_simp
  have l: "ac_now demo_ci_accounts < al_date (as_lib (us_auth (ma_users ?m)))
      (ac_now (fst (DockerToken ?m True no_guard demo_ci_accounts ?rq)) + i64 (as_expiry_hrs (us_auth (ma_users ?m)) * hour))" by code_simp
  obtain b' i r where b: "authenticateBearer ?m demo_ci_accounts ''T'' = (b', i, r)" by (metis prod_cases3)
  have nr: "snd (snd (authenticateBearer ?m demo_ci_accounts ''T'')) = False" by code_simp
  have "ar_method ?rq = ''GET''" "\<not> has_prefix (ar_authorization ?rq) ''Bearer ''" by (simp_all add: demo_request_def)
  from docker_token_conveys_identity[OF demo_mw_reads_back this outcome3[OF d] _ outcome3[OF t] l b] b nr
  show ?thesis by simp
qed

lemma first_sso_session_is_refused_witness:
  "let m = demo_mw ((new_claims (us_auth demo_svc) 5 ''g'' ''carol'' [''nx-admin''])\<lparr>cl_auth_method := ''oidc''\<rparr>);
       claims = demo_claims\<lparr>oc_username := ''Carol'', oc_email := ''carol@corp''\<rparr>
   in (\<exists>v. snd (LoginOIDC (ma_users m) demo_accounts claims ''raw'') = Inr (''T'', v)) \<and>
      snd (authenticateBearer m (fst (LoginOIDC (ma_users m) demo_accounts claims ''raw'')) ''T'') = (None, True)"
proof -
  define m where "m = demo_mw ((new_claims (us_auth demo_svc) 5 ''g'' ''carol'' [''nx-admin''])\<lparr>cl_auth_method := ''oidc''\<rparr>)"
  define claims where "claims = demo_claims\<lparr>oc_username := ''Carol'', oc_email := ''carol@corp''\<rparr>"
  have ev: "map_sum id (\<lambda>(t, v). (t, u_id v)) (snd (LoginOIDC (ma_users m) demo_accounts claims ''raw'')) = Inr (''T'', ''g'')"
    unfolding m_def claims_def by code_simp
  obtain a' tok v where r: "LoginOIDC (ma_users m) demo_accounts claims ''raw'' = (a', Inr (tok, v))"
    using ev by (cases "LoginOIDC (ma_users m) demo_accounts claims ''raw''"; cases "snd (LoginOIDC (ma_users m) demo_accounts claims ''raw'')") auto
  have g: "get_opt demo_accounts (to_lower (trim_space (oc_username claims))) 0 = Inr None" unfolding claims_def by code_simp
  have t: "al_date (as_lib (us_auth (ma_users m))) (ac_now demo_accounts) < ac_now demo_accounts"
    "ac_now demo_accounts < al_date (as_lib (us_auth (ma_users m))) (ac_now demo_accounts + i64 (as_expiry_hrs (us_auth (ma_users m)) * hour))"
    unfolding m_def by code_simp+
  have nf: "ac_fault demo_accounts = no_faults" by (simp add: demo_accounts_def)
  have jwt: "jwt_reads_back (as_lib (us_auth (ma_users m)))" unfolding m_def by (rule demo_mw_reads_back)
  have "u_id v \<noteq> []" using ev r by simp
  from first_sso_session_is_refused[OF jwt demo_accounts_ok nf r g this t] ev r
  show ?thesis by (simp add: m_def[symmetric] claims_def[symmetric])
qed

lemma throttled_password_is_not_checked_witness:
  "\<exists>retry \<ge> 1. AuthMiddleware (demo_mw demo_session) (Some demo_guard) demo_accounts (demo_request ''Basic YWxpY2U6cHc='' (Some (''alice'', ''pw''))) =
     (demo_accounts, Some demo_guard, Throttled_Reply retry)"
proof -
  have wait: "guard_wait (Some demo_guard) (ac_now demo_accounts) ''alice'' > 0" by code_simp
  have "snd (try_token (demo_mw demo_session) demo_accounts ''pw'') = None" by (simp add: try_token_def TokenPrefix_def)
  from throttled_password_is_not_checked[OF wait _ _ _ _ this, where rq = "demo_request ''Basic YWxpY2U6cHc='' (Some (''alice'', ''pw''))"]
  show ?thesis by (auto simp: demo_request_def)
qed

text \<open>The same account at the same time: the old password given for a change is still told right from wrong.\<close>

lemma change_password_is_not_throttled:
  "guard_wait (Some demo_guard) (ac_now demo_accounts) ''alice'' > 0"
  "snd (ChangePassword_handler demo_svc 0 demo_accounts
     \<lparr>i_username = ''alice'', i_user_id = ''u1'', i_roles = [''developer''], i_token_scopes = None\<rparr> [] ''guess'' ''new'') = 400"
  "snd (ChangePassword_handler demo_svc 0 demo_accounts
     \<lparr>i_username = ''alice'', i_user_id = ''u1'', i_roles = [''developer''], i_token_scopes = None\<rparr> [] ''pw'' ''new'') = 204"
  by code_simp+

lemma tokens_are_managed_by_owner_witness:
  "let i = Some \<lparr>i_username = ''alice'', i_user_id = ''u1'', i_roles = [], i_token_scopes = None\<rparr>
   in \<exists>a1 tok. token_handler_create demo_svc 90 (Inr ''0123'') demo_accounts i ''ci'' [] (Some 30) = (a1, 201, Some tok) \<and>
        ut_user_id tok = ''u1'' \<and> ut_expires_at tok = Some (5 + 30 * 24 * hour)"
proof -
  define i where "i = Some \<lparr>i_username = ''alice'', i_user_id = ''u1'', i_roles = [], i_token_scopes = (None :: string list option)\<rparr>"
  let ?c = "token_handler_create demo_svc 90 (Inr ''0123'') demo_accounts i ''ci'' [] (Some 30)"
  have "map_prod id (map_option ut_token) (snd ?c) = (201, Some ''nxs_30313233'')" unfolding i_def by code_simp
  then obtain a1 tok where c: "?c = (a1, 201, Some tok)" by (cases ?c) auto
  have "callerUserID i = ''u1''" "ac_now demo_accounts = 5" by (simp_all add: i_def callerUserID_def demo_accounts_def)
  with tokens_are_managed_by_owner[of 90 demo_svc "Inr ''0123''" demo_accounts i "''ci''" "[]" "Some 30" a1 tok "[]"] c
  show ?thesis by (simp add: i_def[symmetric])
qed

end
