(* ===== verification/Dist_Lock.thy ===== *)
theory Dist_Lock
  imports Blob_GC
begin

text \<open>
  Distributed locks: \<^verbatim>\<open>distlock/redis.go\<close> over the client of \<^verbatim>\<open>redisclient\<close>. The server is third-party:
  what a locker relies on is the locale \<open>lock_server\<close>, which is interpreted on the client's commands over a
  table of keys with expiry times. A call that fails may have been carried out before its reply was
  lost. What may happen to the locks of all nodes is a step relation.
\<close>

section \<open>The locker\<close>

record 'r redis_backend =
  rd_setnx :: "'r \<Rightarrow> time \<Rightarrow> string \<Rightarrow> string \<Rightarrow> int \<Rightarrow> 'r \<times> bool result"
  rd_del :: "'r \<Rightarrow> time \<Rightarrow> string \<Rightarrow> 'r \<times> unit result"
  rd_del_if_match :: "'r \<Rightarrow> time \<Rightarrow> string \<Rightarrow> string \<Rightarrow> 'r \<times> bool result"

record redis_lock =
  lk_key :: string
  lk_token :: string

text \<open>\<open>token\<close> is the fresh UUID.\<close>

definition Acquire :: "'r redis_backend \<Rightarrow> 'r \<Rightarrow> time \<Rightarrow> string \<Rightarrow> string \<Rightarrow> int \<Rightarrow> 'r \<times> redis_lock result" where
  "Acquire rdb r now token key ttl =
     (case rd_setnx rdb r now key token ttl of
        (r', Inl e) \<Rightarrow> (r', Inl (Wrapped ''distlock acquire'' e))
      | (r', Inr ok) \<Rightarrow> if \<not> ok then (r', Inl ErrLockHeld) else (r', Inr \<lparr>lk_key = key, lk_token = token\<rparr>))"

definition ForceRelease :: "'r redis_backend \<Rightarrow> 'r \<Rightarrow> time \<Rightarrow> string \<Rightarrow> 'r \<times> unit result" where
  "ForceRelease rdb r now key =
     (case rd_del rdb r now key of (r', Inl e) \<Rightarrow> (r', Inl (Wrapped ''distlock force release'' e)) | (r', Inr _) \<Rightarrow> (r', Inr ()))"

definition Release :: "'r redis_backend \<Rightarrow> 'r \<Rightarrow> time \<Rightarrow> redis_lock \<Rightarrow> 'r \<times> unit result" where
  "Release rdb r now l =
     (case rd_del_if_match rdb r now (lk_key l) (lk_token l) of
        (r', Inl e) \<Rightarrow> (r', Inl (Wrapped ''distlock release'' e)) | (r', Inr _) \<Rightarrow> (r', Inr ()))"

text \<open>Without coordination every lock is granted and releasing it does nothing.\<close>

definition noop_acquire :: "string \<Rightarrow> int \<Rightarrow> unit result" where "noop_acquire key ttl = Inr ()"
definition noop_release :: "unit result" where "noop_release = Inr ()"

section \<open>All nodes together\<close>

text \<open>
  A grant is a lock with the time the server set the key and its time to live; \<open>ls_over\<close> are the locks
  whose holders are done with them, which may be released again.
\<close>

type_synonym grant = "redis_lock \<times> time \<times> int"

record 'r lock_state =
  ls_redis :: 'r
  ls_now :: time
  ls_uuids :: nat
  ls_grants :: "grant list"
  ls_over :: "redis_lock list"

definition live :: "'r lock_state \<Rightarrow> grant \<Rightarrow> bool" where
  "live s g = (case g of (l, since, ttl) \<Rightarrow> ls_now s < since + ttl)"

inductive lock_step :: "'r redis_backend \<Rightarrow> (nat \<Rightarrow> string) \<Rightarrow> 'r lock_state \<Rightarrow> 'r lock_state \<Rightarrow> bool" for rdb uuid where
  granted: "Acquire rdb (ls_redis s) (ls_now s) (uuid (ls_uuids s)) key ttl = (r', Inr l) \<Longrightarrow>
    lock_step rdb uuid s (s\<lparr>ls_redis := r', ls_uuids := Suc (ls_uuids s), ls_grants := (l, ls_now s, ttl) # ls_grants s\<rparr>)"
| refused: "Acquire rdb (ls_redis s) (ls_now s) (uuid (ls_uuids s)) key ttl = (r', Inl e) \<Longrightarrow>
    lock_step rdb uuid s (s\<lparr>ls_redis := r', ls_uuids := Suc (ls_uuids s)\<rparr>)"
| released: "g \<in> set (ls_grants s) \<Longrightarrow> Release rdb (ls_redis s) (ls_now s) (fst g) = (r', res) \<Longrightarrow>
    lock_step rdb uuid s (s\<lparr>ls_redis := r', ls_grants := filter (\<lambda>h. h \<noteq> g) (ls_grants s), ls_over := fst g # ls_over s\<rparr>)"
| released_again: "l \<in> set (ls_over s) \<Longrightarrow> Release rdb (ls_redis s) (ls_now s) l = (r', res) \<Longrightarrow>
    lock_step rdb uuid s (s\<lparr>ls_redis := r'\<rparr>)"
| forced: "ForceRelease rdb (ls_redis s) (ls_now s) key = (r', res) \<Longrightarrow>
    lock_step rdb uuid s (s\<lparr>ls_redis := r', ls_grants := filter (\<lambda>g. lk_key (fst g) \<noteq> key) (ls_grants s),
      ls_over := map fst (filter (\<lambda>g. lk_key (fst g) = key) (ls_grants s)) @ ls_over s\<rparr>)"
| time_passes: "ls_now s \<le> t \<Longrightarrow> lock_step rdb uuid s (s\<lparr>ls_now := t\<rparr>)"

lemma filter_single: "distinct xs \<Longrightarrow> g \<in> set xs \<Longrightarrow> filter (\<lambda>h. h = g) xs = [g]"
  by (induction xs) (auto simp: filter_empty_conv)

text \<open>Tokens are drawn by \<open>uuid\<close>, one for each attempt, and name one grant.\<close>

definition tokens_ok :: "(nat \<Rightarrow> string) \<Rightarrow> 'r lock_state \<Rightarrow> bool" where
  "tokens_ok uuid s \<longleftrightarrow> distinct (map (\<lambda>g. lk_token (fst g)) (ls_grants s)) \<and>
     (\<forall>g \<in> set (ls_grants s). lk_token (fst g) \<in> uuid ` {..<ls_uuids s} \<and> (\<forall>l \<in> set (ls_over s). lk_token l \<noteq> lk_token (fst g))) \<and>
     (\<forall>l \<in> set (ls_over s). lk_token l \<in> uuid ` {..<ls_uuids s})"

lemma tokens_ok_same: "tokens_ok uuid s \<Longrightarrow> g \<in> set (ls_grants s) \<Longrightarrow> h \<in> set (ls_grants s) \<Longrightarrow> lk_token (fst g) = lk_token (fst h) \<Longrightarrow> g = h"
  unfolding tokens_ok_def distinct_map inj_on_def by blast

lemma tokens_ok_uuid: "tokens_ok uuid s \<Longrightarrow> tokens_ok uuid (s\<lparr>ls_uuids := Suc (ls_uuids s)\<rparr>)"
  unfolding tokens_ok_def by (auto simp: lessThan_Suc)

lemma tokens_ok_retire:
  assumes "tokens_ok uuid s"
  shows "tokens_ok uuid (s\<lparr>ls_grants := filter P (ls_grants s), ls_over := map fst (filter (\<lambda>g. \<not> P g) (ls_grants s)) @ ls_over s\<rparr>)"
proof -
  have "lk_token (fst h) \<noteq> lk_token (fst g)" if "g \<in> set (ls_grants s)" "P g" "h \<in> set (ls_grants s)" "\<not> P h" for g h
    using tokens_ok_same[OF assms that(1,3)] that(2,4) by metis
  then show ?thesis using assms unfolding tokens_ok_def by (auto simp: distinct_map_filter)
qed

section \<open>What the server promises\<close>

locale lock_server =
  fixes holds :: "'r \<Rightarrow> time \<Rightarrow> string \<Rightarrow> string option"
    and rdb :: "'r redis_backend"
  assumes set_free: "rd_setnx rdb r now k v ttl = (r', Inr True) \<Longrightarrow> holds r now k = None"
    and set_holds: "rd_setnx rdb r now k v ttl = (r', Inr True) \<Longrightarrow> now \<le> t \<Longrightarrow> t < now + ttl \<Longrightarrow> holds r' t k = Some v"
    and set_keeps: "rd_setnx rdb r now k v ttl = (r', res) \<Longrightarrow> k' \<noteq> k \<or> holds r now k \<noteq> None \<Longrightarrow> now \<le> t \<Longrightarrow> holds r' t k' = holds r t k'"
    and match_keeps: "rd_del_if_match rdb r now k v = (r', res) \<Longrightarrow> k' \<noteq> k \<or> holds r now k \<noteq> Some v \<Longrightarrow> now \<le> t \<Longrightarrow> holds r' t k' = holds r t k'"
    and del_keeps: "rd_del rdb r now k = (r', du) \<Longrightarrow> k' \<noteq> k \<Longrightarrow> now \<le> t \<Longrightarrow> holds r' t k' = holds r t k'"
begin

definition held :: "'r lock_state \<Rightarrow> bool" where
  "held s \<longleftrightarrow> (\<forall>l since ttl t. (l, since, ttl) \<in> set (ls_grants s) \<longrightarrow> ls_now s \<le> t \<longrightarrow> t < since + ttl \<longrightarrow>
     holds (ls_redis s) t (lk_key l) = Some (lk_token l))"

definition lock_inv :: "(nat \<Rightarrow> string) \<Rightarrow> 'r lock_state \<Rightarrow> bool" where
  "lock_inv uuid s \<longleftrightarrow> held s \<and> tokens_ok uuid s"

lemma inv_holds:
  "lock_inv uuid s \<Longrightarrow> (l, since, ttl) \<in> set (ls_grants s) \<Longrightarrow> ls_now s \<le> t \<Longrightarrow> t < since + ttl \<Longrightarrow>
   holds (ls_redis s) t (lk_key l) = Some (lk_token l)"
  unfolding lock_inv_def held_def by blast

text \<open>A change of the server that leaves every granted key alone keeps the invariant.\<close>

lemma inv_server:
  assumes "lock_inv uuid s"
    and "\<And>l since ttl t. (l, since, ttl) \<in> set (ls_grants s) \<Longrightarrow> ls_now s \<le> t \<Longrightarrow> t < since + ttl \<Longrightarrow>
      holds r' t (lk_key l) = holds (ls_redis s) t (lk_key l)"
  shows "lock_inv uuid (s\<lparr>ls_redis := r'\<rparr>)"
proof -
  have "held (s\<lparr>ls_redis := r'\<rparr>)"
    unfolding held_def using inv_holds[OF assms(1)] assms(2) by simp
  then show ?thesis using assms(1) by (simp add: lock_inv_def tokens_ok_def)
qed

lemma inv_fewer:
  assumes "lock_inv uuid s" "tokens_ok uuid (s\<lparr>ls_grants := gs, ls_over := ov\<rparr>)" "set gs \<subseteq> set (ls_grants s)"
  shows "lock_inv uuid (s\<lparr>ls_grants := gs, ls_over := ov\<rparr>)"
proof -
  have "held (s\<lparr>ls_grants := gs, ls_over := ov\<rparr>)"
    unfolding held_def using inv_holds[OF assms(1)] assms(3) by auto
  with assms(2) show ?thesis by (simp add: lock_inv_def)
qed

lemma inv_uuid: "lock_inv uuid s \<Longrightarrow> lock_inv uuid (s\<lparr>ls_uuids := Suc (ls_uuids s)\<rparr>)"
  unfolding lock_inv_def held_def by (simp add: tokens_ok_uuid)

lemma not_granted:
  assumes "lock_inv uuid s" "(l, since, ttl) \<in> set (ls_grants s)" "ls_now s \<le> t" "t < since + ttl"
  shows "holds (ls_redis s) (ls_now s) (lk_key l) = Some (lk_token l)"
  by (rule inv_holds[OF assms(1,2)]) (use assms(3,4) in simp_all)

lemma inv_setnx:
  assumes inv: "lock_inv uuid s" and set: "rd_setnx rdb (ls_redis s) (ls_now s) key v ttl = (r', res)"
  shows "lock_inv uuid (s\<lparr>ls_redis := r'\<rparr>)"
proof (rule inv_server[OF inv])
  fix l since ttl' t
  assume g: "(l, since, ttl') \<in> set (ls_grants s)" "ls_now s \<le> t" "t < since + ttl'"
  have "holds (ls_redis s) (ls_now s) (lk_key l) \<noteq> None" using not_granted[OF inv g] by simp
  then show "holds r' t (lk_key l) = holds (ls_redis s) t (lk_key l)"
    using set_keeps[OF set _ g(2), of "lk_key l"] by blast
qed

lemma inv_release:
  assumes inv: "lock_inv uuid s" and rel: "Release rdb (ls_redis s) (ls_now s) l = (r', res)"
    and other: "\<And>g. g \<in> set (ls_grants s) \<Longrightarrow> lk_token l \<noteq> lk_token (fst g)"
  shows "lock_inv uuid (s\<lparr>ls_redis := r'\<rparr>)"
proof (rule inv_server[OF inv])
  obtain res' where d: "rd_del_if_match rdb (ls_redis s) (ls_now s) (lk_key l) (lk_token l) = (r', res')"
    using rel by (auto simp: Release_def split: prod.splits sum.splits)
  fix h since ttl t
  assume g: "(h, since, ttl) \<in> set (ls_grants s)" "ls_now s \<le> t" "t < since + ttl"
  have "lk_token h \<noteq> lk_token l" using other[OF g(1)] by simp
  then have "lk_key h \<noteq> lk_key l \<or> holds (ls_redis s) (ls_now s) (lk_key l) \<noteq> Some (lk_token l)"
    using not_granted[OF inv g] by auto
  then show "holds r' t (lk_key h) = holds (ls_redis s) t (lk_key h)"
    by (rule match_keeps[OF d _ g(2)])
qed

lemma inv_grant:
  assumes inv: "lock_inv uuid s" and uu: "inj uuid"
    and acq: "Acquire rdb (ls_redis s) (ls_now s) (uuid (ls_uuids s)) key ttl = (r', Inr l)"
  shows "lock_inv uuid (s\<lparr>ls_redis := r', ls_uuids := Suc (ls_uuids s), ls_grants := (l, ls_now s, ttl) # ls_grants s\<rparr>)"
proof -
  have set: "rd_setnx rdb (ls_redis s) (ls_now s) key (uuid (ls_uuids s)) ttl = (r', Inr True)"
    and l: "l = \<lparr>lk_key = key, lk_token = uuid (ls_uuids s)\<rparr>"
    using acq by (auto simp: Acquire_def split: prod.splits sum.splits if_splits)
  let ?s1 = "s\<lparr>ls_redis := r'\<rparr>"
  let ?s2 = "s\<lparr>ls_redis := r', ls_uuids := Suc (ls_uuids s), ls_grants := (l, ls_now s, ttl) # ls_grants s\<rparr>"
  have inv1: "lock_inv uuid ?s1" by (rule inv_setnx[OF inv set])
  have "held ?s2"
    unfolding held_def using inv_holds[OF inv1] set_holds[OF set] by (auto simp: l)
  moreover have "tokens_ok uuid ?s2"
  proof -
    have fresh: "uuid (ls_uuids s) \<notin> uuid ` {..<ls_uuids s}" using uu by (auto dest: injD)
    have "lk_token (fst g) \<noteq> uuid (ls_uuids s)" if "g \<in> set (ls_grants s)" for g
      using inv that fresh unfolding lock_inv_def tokens_ok_def by metis
    moreover have "lk_token l' \<noteq> uuid (ls_uuids s)" if "l' \<in> set (ls_over s)" for l'
      using inv that fresh unfolding lock_inv_def tokens_ok_def by metis
    ultimately show ?thesis using inv unfolding lock_inv_def tokens_ok_def l by (auto simp: lessThan_Suc)
  qed
  ultimately show ?thesis by (simp add: lock_inv_def)
qed

lemma lock_step_inv:
  assumes "lock_step rdb uuid s s'" and uu: "inj uuid" and inv: "lock_inv uuid s"
  shows "lock_inv uuid s'"
  using assms(1)
proof cases
  case (granted key ttl r' l)
  with inv_grant[OF inv uu] show ?thesis by blast
next
  case (refused key ttl r' e)
  let ?c = "rd_setnx rdb (ls_redis s) (ls_now s) key (uuid (ls_uuids s)) ttl"
  have "fst ?c = r'" using refused(2) by (cases ?c) (auto simp: Acquire_def split: sum.splits if_splits)
  then have "?c = (r', snd ?c)" by (cases ?c) simp
  from inv_uuid[OF inv_setnx[OF inv this]] refused(1) show ?thesis by simp
next
  case (released g r' res)
  have "distinct (ls_grants s)" using inv by (auto simp: lock_inv_def tokens_ok_def distinct_map)
  then have "filter (\<lambda>h. \<not> h \<noteq> g) (ls_grants s) = [g]" using released(2) by (simp add: filter_single)
  with tokens_ok_retire[of uuid s "\<lambda>h. h \<noteq> g"] inv
  have gs: "lock_inv uuid (s\<lparr>ls_grants := filter (\<lambda>h. h \<noteq> g) (ls_grants s), ls_over := fst g # ls_over s\<rparr>)" (is "lock_inv uuid ?s1")
    by (intro inv_fewer[OF inv]) (simp_all add: lock_inv_def)
  then have "lk_token (fst g) \<noteq> lk_token (fst h)" if "h \<in> set (ls_grants ?s1)" for h
    using that unfolding lock_inv_def tokens_ok_def by (cases h) auto
  then have "lock_inv uuid (?s1\<lparr>ls_redis := r'\<rparr>)" using released(3) by (intro inv_release[OF gs]) simp_all
  moreover have "s' = ?s1\<lparr>ls_redis := r'\<rparr>" using released(1) by simp
  ultimately show ?thesis by simp
next
  case (released_again l r' res)
  have "lk_token l \<noteq> lk_token (fst g)" if "g \<in> set (ls_grants s)" for g
    using inv that released_again(2) unfolding lock_inv_def tokens_ok_def by blast
  from inv_release[OF inv released_again(3) this] released_again(1) show ?thesis by simp
next
  case (forced key r' res)
  let ?c = "rd_del rdb (ls_redis s) (ls_now s) key"
  have "fst ?c = r'" using forced(2) by (cases ?c) (auto simp: ForceRelease_def split: sum.splits)
  then have d: "?c = (r', snd ?c)" by (cases ?c) simp
  have "lock_inv uuid (s\<lparr>ls_grants := filter (\<lambda>g. lk_key (fst g) \<noteq> key) (ls_grants s),
      ls_over := map fst (filter (\<lambda>g. lk_key (fst g) = key) (ls_grants s)) @ ls_over s\<rparr>)" (is "lock_inv uuid ?s1")
    using inv tokens_ok_retire[of uuid s "\<lambda>g. lk_key (fst g) \<noteq> key"] by (intro inv_fewer[OF inv]) (simp_all add: lock_inv_def)
  then have "lock_inv uuid (?s1\<lparr>ls_redis := r'\<rparr>)"
    by (rule inv_server) (auto intro: del_keeps[OF d])
  moreover have "s' = ?s1\<lparr>ls_redis := r'\<rparr>" using forced(1) by simp
  ultimately show ?thesis by simp
next
  case (time_passes t)
  with inv show ?thesis unfolding lock_inv_def held_def tokens_ok_def by auto
qed

lemma lock_steps_inv: "(lock_step rdb uuid)\<^sup>*\<^sup>* s s' \<Longrightarrow> inj uuid \<Longrightarrow> lock_inv uuid s \<Longrightarrow> lock_inv uuid s'"
  by (induction rule: rtranclp_induct) (auto intro: lock_step_inv)

lemma live_grants_exclude:
  assumes inv: "lock_inv uuid s" and "g \<in> set (ls_grants s)" "h \<in> set (ls_grants s)" "live s g" "live s h"
    and key: "lk_key (fst g) = lk_key (fst h)"
  shows "g = h"
proof -
  obtain l since ttl where g: "g = (l, since, ttl)" by (cases g)
  obtain l' since' ttl' where h: "h = (l', since', ttl')" by (cases h)
  have "lk_token l = lk_token l'"
    using inv_holds[OF inv, of l since ttl "ls_now s"] inv_holds[OF inv, of l' since' ttl' "ls_now s"] assms(2-6)
    by (simp add: g h live_def)
  then show ?thesis using tokens_ok_same[of uuid s g h] inv assms(2,3) by (simp add: g h lock_inv_def)
qed

end

section \<open>The Redis client\<close>

text \<open>
  The commands of \<^verbatim>\<open>redisclient\<close> on a table of keys with expiry times. \<open>rb_plan\<close> says how a command
  fares: its request may be lost, or it is carried out and the reply is lost.
\<close>

datatype delivery = Delivered | Not_Sent | Reply_Lost

record redis_db =
  rb_keys :: "string \<Rightarrow> (string \<times> time) option"
  rb_plan :: "string \<Rightarrow> time \<Rightarrow> delivery"

definition redis_get :: "redis_db \<Rightarrow> time \<Rightarrow> string \<Rightarrow> string option" where
  "redis_get db now k = (case rb_keys db k of Some (v, expiry) \<Rightarrow> if now < expiry then Some v else None | None \<Rightarrow> None)"

definition command :: "redis_db \<Rightarrow> string \<Rightarrow> time \<Rightarrow> redis_db \<times> 'a \<Rightarrow> redis_db \<times> 'a result" where
  "command db name now r =
     (case rb_plan db name now of
        Delivered \<Rightarrow> (fst r, Inr (snd r)) | Not_Sent \<Rightarrow> (db, Inl ErrIO) | Reply_Lost \<Rightarrow> (fst r, Inl ErrIO))"

definition client_SetNX :: "redis_db \<Rightarrow> time \<Rightarrow> string \<Rightarrow> string \<Rightarrow> int \<Rightarrow> redis_db \<times> bool result" where
  "client_SetNX db now k v ttl = command db ''SETNX'' now
     (if redis_get db now k = None then (db\<lparr>rb_keys := (rb_keys db)(k := Some (v, now + ttl))\<rparr>, True) else (db, False))"

definition redis_del :: "redis_db \<Rightarrow> string \<Rightarrow> redis_db" where
  "redis_del db k = db\<lparr>rb_keys := (rb_keys db)(k := None)\<rparr>"

definition client_Del :: "redis_db \<Rightarrow> time \<Rightarrow> string \<Rightarrow> redis_db \<times> unit result" where
  "client_Del db now k = command db ''DEL'' now (redis_del db k, ())"

definition delIfMatchScript :: "redis_db \<Rightarrow> time \<Rightarrow> string \<Rightarrow> string \<Rightarrow> redis_db \<times> int" where
  "delIfMatchScript db now k v = (if redis_get db now k = Some v then (redis_del db k, 1) else (db, 0))"

definition client_DelIfMatch :: "redis_db \<Rightarrow> time \<Rightarrow> string \<Rightarrow> string \<Rightarrow> redis_db \<times> bool result" where
  "client_DelIfMatch db now k v =
     (case command db ''EVAL'' now (delIfMatchScript db now k v) of (db', Inl e) \<Rightarrow> (db', Inl e) | (db', Inr n) \<Rightarrow> (db', Inr (n > 0)))"

definition redis_client :: "redis_db redis_backend" where
  "redis_client = \<lparr>rd_setnx = client_SetNX, rd_del = client_Del, rd_del_if_match = client_DelIfMatch\<rparr>"

lemma command_state: "command db name now r = (db', res) \<Longrightarrow> db' = db \<or> db' = fst r"
  by (auto simp: command_def split: delivery.splits)

lemma redis_get_del: "redis_get (redis_del db k) t k' = (if k' = k then None else redis_get db t k')"
  by (simp add: redis_get_def redis_del_def)

lemma redis_get_set: "redis_get (db\<lparr>rb_keys := (rb_keys db)(k := Some (v, e))\<rparr>) t k' =
    (if k' = k then if t < e then Some v else None else redis_get db t k')"
  by (simp add: redis_get_def)

lemma redis_get_later: "redis_get db now k = None \<Longrightarrow> now \<le> t \<Longrightarrow> redis_get db t k = None"
  by (auto simp: redis_get_def split: option.splits if_splits)

interpretation redis_locks: lock_server redis_get redis_client
proof
  fix r now k v ttl r'
  assume "rd_setnx redis_client r now k v ttl = (r', Inr True)"
  then have s: "redis_get r now k = None \<and> r' = r\<lparr>rb_keys := (rb_keys r)(k := Some (v, now + ttl))\<rparr>"
    by (auto simp: redis_client_def client_SetNX_def command_def split: delivery.splits if_splits)
  then show "redis_get r now k = None" by simp
  fix t :: time assume "now \<le> t" "t < now + ttl"
  with s show "redis_get r' t k = Some v" by (simp add: redis_get_set)
next
  fix r now k v ttl r' res k' and t :: time
  assume a: "rd_setnx redis_client r now k v ttl = (r', res)" "k' \<noteq> k \<or> redis_get r now k \<noteq> None"
  then have "r' = r \<or> (redis_get r now k = None \<and> r' = r\<lparr>rb_keys := (rb_keys r)(k := Some (v, now + ttl))\<rparr>)"
    by (auto simp: redis_client_def client_SetNX_def dest!: command_state split: if_splits)
  with a(2) show "redis_get r' t k' = redis_get r t k'" by (auto simp: redis_get_set)
next
  fix r now k v r' res k' and t :: time
  assume a: "rd_del_if_match redis_client r now k v = (r', res)" "k' \<noteq> k \<or> redis_get r now k \<noteq> Some v"
  then have "r' = r \<or> (redis_get r now k = Some v \<and> r' = redis_del r k)"
    by (auto simp: redis_client_def client_DelIfMatch_def delIfMatchScript_def dest!: command_state split: prod.splits sum.splits if_splits)
  with a(2) show "redis_get r' t k' = redis_get r t k'" by (auto simp: redis_get_del)
next
  fix r now k r' du k' and t :: time
  assume a: "rd_del redis_client r now k = (r', du)" "k' \<noteq> k"
  then have "r' = r \<or> r' = redis_del r k" by (auto simp: redis_client_def client_Del_def dest!: command_state)
  with a(2) show "redis_get r' t k' = redis_get r t k'" by (auto simp: redis_get_del)
qed

section \<open>Exclusion\<close>

lemma reachable_locks:
  assumes "inj uuid" "ls_grants s0 = []" "ls_over s0 = []" "(lock_step redis_client uuid)\<^sup>*\<^sup>* s0 s"
  shows "redis_locks.lock_inv uuid s"
proof -
  have "redis_locks.lock_inv uuid s0"
    using assms(2,3) by (simp add: redis_locks.lock_inv_def redis_locks.held_def tokens_ok_def)
  then show ?thesis by (rule redis_locks.lock_steps_inv[OF assms(4,1)])
qed

text \<open>
  C36. A lock excludes: in every state that any number of nodes can reach by acquiring, releasing once or
  again, force-releasing and letting time pass, with requests and replies lost, at most one grant
  of a key is within its time to live, and while it is the server holds that grant's token, so no
  late release of an earlier holder can have dropped it.
\<close>

theorem lock_excludes:
  assumes "inj uuid" "ls_grants s0 = []" "ls_over s0 = []" "(lock_step redis_client uuid)\<^sup>*\<^sup>* s0 s"
    and "g \<in> set (ls_grants s)" "live s g"
  shows "redis_get (ls_redis s) (ls_now s) (lk_key (fst g)) = Some (lk_token (fst g)) \<and>
    (\<forall>h \<in> set (ls_grants s). live s h \<longrightarrow> lk_key (fst h) = lk_key (fst g) \<longrightarrow> h = g)"
proof -
  have inv: "redis_locks.lock_inv uuid s" by (rule reachable_locks[OF assms(1-4)])
  obtain l since ttl where g: "g = (l, since, ttl)" by (cases g)
  have "redis_get (ls_redis s) (ls_now s) (lk_key l) = Some (lk_token l)"
    by (rule redis_locks.inv_holds[OF inv]) (use assms(5,6) g in \<open>simp_all add: live_def\<close>)
  with redis_locks.live_grants_exclude[OF inv] assms(5,6) g show ?thesis by auto
qed

text \<open>
  C37. How far two runs under the same lock can overlap: a job computes the end of its lock from the time
  the acquisition returned, and works until that moment; when another node holds the lock while the
  job still passes its check, the job is past its lock by less than its acquisition took. So the
  overlap is bounded by one round trip, and there is none when the reply takes no time. This is about
  grants nobody has released by force: after a forced release the old job works on until its deadline,
  lemma \<open>forced_release_overlaps\<close>.
\<close>

theorem locked_run_overlap_bounded:
  assumes "inj uuid" "ls_grants s0 = []" "ls_over s0 = []" "(lock_step redis_client uuid)\<^sup>*\<^sup>* s0 s"
    and "(l, since, ttl) \<in> set (ls_grants s)" "since \<le> returned"
    and "\<not> pastDeadline (Some (returned + ttl)) (ls_now s)"
    and "h \<in> set (ls_grants s)" "live s h" "lk_key (fst h) = lk_key l" "fst h \<noteq> l"
  shows "0 \<le> ls_now s - (since + ttl) \<and> ls_now s - (since + ttl) < returned - since"
proof -
  have "\<not> live s (l, since, ttl)"
  proof
    assume "live s (l, since, ttl)"
    with redis_locks.live_grants_exclude[OF reachable_locks[OF assms(1-4)] assms(5,8)] assms(9-11) show False by auto
  qed
  with assms(7) show ?thesis by (simp add: live_def pastDeadline_def)
qed

text \<open>One node acquires, is late, another acquires, and the first one releases.\<close>

definition demo_locks :: "nat \<Rightarrow> redis_db lock_state" where
  "demo_locks n = \<lparr>ls_redis = \<lparr>rb_keys = (\<lambda>_. None), rb_plan = (\<lambda>_ _. Delivered)\<rparr>, ls_now = 0, ls_uuids = n, ls_grants = [], ls_over = []\<rparr>"

definition demo_uuid :: "nat \<Rightarrow> string" where "demo_uuid n = replicate n CHR ''x''"

definition demo_taken :: "redis_db lock_state" where
  "demo_taken = (demo_locks (Suc (Suc 0)))\<lparr>
     ls_redis := \<lparr>rb_keys = (\<lambda>k. if k = ''gc'' then Some (''x'', 22) else None), rb_plan = (\<lambda>_ _. Delivered)\<rparr>, ls_now := 12,
     ls_grants := [(\<lparr>lk_key = ''gc'', lk_token = ''x''\<rparr>, 12, 10), (\<lparr>lk_key = ''gc'', lk_token = []\<rparr>, 0, 10)]\<rparr>"

lemma inj_demo_uuid: "inj demo_uuid"
  by (rule injI) (metis demo_uuid_def length_replicate)

lemma demo_taken_reachable: "(lock_step redis_client demo_uuid)\<^sup>*\<^sup>* (demo_locks 0) demo_taken"
proof -
  let ?s0 = "demo_locks 0"
  let ?s1 = "?s0\<lparr>ls_redis := \<lparr>rb_keys = (\<lambda>k. if k = ''gc'' then Some ([], 10) else None), rb_plan = (\<lambda>_ _. Delivered)\<rparr>, ls_uuids := 1,
     ls_grants := [(\<lparr>lk_key = ''gc'', lk_token = []\<rparr>, 0, 10)]\<rparr>"
  let ?s2 = "?s1\<lparr>ls_now := 12\<rparr>"
  note acq = Acquire_def redis_client_def client_SetNX_def command_def redis_get_def demo_uuid_def demo_locks_def fun_upd_def
  have "lock_step redis_client demo_uuid ?s0 ?s1"
    using lock_step.granted[of redis_client ?s0 demo_uuid "''gc''" 10 "ls_redis ?s1" "\<lparr>lk_key = ''gc'', lk_token = []\<rparr>"]
    by (simp add: acq)
  moreover have "lock_step redis_client demo_uuid ?s1 ?s2"
    using lock_step.time_passes[of ?s1 12 redis_client demo_uuid] by (simp add: demo_locks_def)
  moreover have "lock_step redis_client demo_uuid ?s2 demo_taken"
    using lock_step.granted[of redis_client ?s2 demo_uuid "''gc''" 10 "ls_redis demo_taken" "\<lparr>lk_key = ''gc'', lk_token = ''x''\<rparr>"]
    by (simp add: acq demo_taken_def cong: if_cong)
  ultimately show ?thesis by (meson converse_rtranclp_into_rtranclp rtranclp.rtrancl_refl)
qed

lemma lock_excludes_witness:
  "\<exists>s. lock_step redis_client demo_uuid demo_taken s \<and> length (ls_grants s) = 1 \<and>
     redis_get (ls_redis s) (ls_now s) ''gc'' = Some ''x''"
proof -
  let ?late = "(\<lparr>lk_key = ''gc'', lk_token = []\<rparr>, 0, 10) :: grant" and ?new = "(\<lparr>lk_key = ''gc'', lk_token = ''x''\<rparr>, 12, 10) :: grant"
  obtain r' res where rel: "Release redis_client (ls_redis demo_taken) (ls_now demo_taken) (fst ?late) = (r', res)" by (metis prod.exhaust)
  let ?s = "demo_taken\<lparr>ls_redis := r', ls_grants := filter (\<lambda>h. h \<noteq> ?late) (ls_grants demo_taken), ls_over := fst ?late # ls_over demo_taken\<rparr>"
  have step: "lock_step redis_client demo_uuid demo_taken ?s"
    by (rule lock_step.released[OF _ rel]) (simp add: demo_taken_def)
  have reach: "(lock_step redis_client demo_uuid)\<^sup>*\<^sup>* (demo_locks 0) ?s" using demo_taken_reachable step by (rule rtranclp.rtrancl_into_rtrancl)
  have start: "ls_grants (demo_locks 0) = []" "ls_over (demo_locks 0) = []" by (simp_all add: demo_locks_def)
  have g: "?new \<in> set (ls_grants ?s)" "live ?s ?new" "length (ls_grants ?s) = 1" by (simp_all add: demo_taken_def live_def)
  from lock_excludes[OF inj_demo_uuid start reach g(1,2)] step g(3) show ?thesis by auto
qed

lemma locked_run_overlap_bounded_witness:
  "ls_now demo_taken - (0 + 10) = 2 \<and> ls_now demo_taken - (0 + 10) < 3 \<and> \<not> pastDeadline (Some (3 + 10)) (ls_now demo_taken)"
proof -
  let ?late = "\<lparr>lk_key = ''gc'', lk_token = []\<rparr>" and ?new = "(\<lparr>lk_key = ''gc'', lk_token = ''x''\<rparr>, 12, 10) :: grant"
  have start: "ls_grants (demo_locks 0) = []" "ls_over (demo_locks 0) = []" by (simp_all add: demo_locks_def)
  have "(?late, 0, 10) \<in> set (ls_grants demo_taken)" "?new \<in> set (ls_grants demo_taken)" "live demo_taken ?new"
    "\<not> pastDeadline (Some (3 + 10)) (ls_now demo_taken)" "ls_now demo_taken = 12"
    by (simp_all add: demo_taken_def live_def pastDeadline_def)
  then show ?thesis
    using locked_run_overlap_bounded[OF inj_demo_uuid start demo_taken_reachable, of ?late 0 10 3 ?new] by simp
qed

text \<open>
  A forced release hands the lock to another node while the old holder has not passed its deadline; the
  migration service does it at the start of any node (\<open>Blob_Migration.ResumeAll\<close>).
\<close>

lemma forced_release_overlaps:
  "case Acquire redis_client (ls_redis (demo_locks 0)) 0 ''a'' ''mig'' 7200 of
     (db1, Inl _) \<Rightarrow> False
   | (db1, Inr l) \<Rightarrow>
       snd (Acquire redis_client db1 2 ''b'' ''mig'' 7200) = Inl ErrLockHeld \<and>
       snd (Acquire redis_client (fst (ForceRelease redis_client db1 1 ''mig'')) 2 ''b'' ''mig'' 7200) = Inr \<lparr>lk_key = ''mig'', lk_token = ''b''\<rparr> \<and>
       \<not> pastDeadline (Some (0 + 7200)) 2"
  by code_simp

end
