(* ===== verification/Net_Guard.thy ===== *)
theory Net_Guard
  imports Go_Strings
begin

unbundle bit_operations_syntax

text \<open>
  The guard on outgoing connections, \<^verbatim>\<open>netguard/netguard.go\<close>, with what it uses of Go's \<^verbatim>\<open>net\<close> package: an
  address is its 16 bytes, a \<open>128 word\<close>, and an IPv4 address is the mapped one, as \<^verbatim>\<open>net.ParseIP\<close> makes it.
\<close>

section \<open>Addresses\<close>

type_synonym ip = "128 word"

definition v4_prefix :: ip where "v4_prefix = 0xFFFF00000000"

definition of_v4 :: "32 word \<Rightarrow> ip" where "of_v4 a = v4_prefix OR ucast a"

definition to4 :: "ip \<Rightarrow> 32 word option" where
  "to4 ip = (if drop_bit 32 ip = 0xFFFF then Some (ucast ip) else None)"

text \<open>Decimal fields without leading zeros; hexadecimal groups of up to four digits.\<close>

definition parse_octet :: "string \<Rightarrow> nat option" where
  "parse_octet s = (if length s > 1 \<and> hd s = CHR ''0'' then None
     else (case parse_nat s of Some n \<Rightarrow> if n \<le> 255 then Some n else None | None \<Rightarrow> None))"

definition parse_v4 :: "string \<Rightarrow> 32 word option" where
  "parse_v4 s =
     (case map parse_octet (split_on CHR ''.'' s) of
        [Some a, Some b, Some c, Some d] \<Rightarrow> Some (word_of_int (((int a * 256 + int b) * 256 + int c) * 256 + int d))
      | _ \<Rightarrow> None)"

definition hex_val :: "char \<Rightarrow> nat option" where
  "hex_val c = (if is_digit c then Some (digit_val c)
     else if CHR ''a'' \<le> c \<and> c \<le> CHR ''f'' then Some (of_char c - 87)
     else if CHR ''A'' \<le> c \<and> c \<le> CHR ''F'' then Some (of_char c - 55) else None)"

definition parse_group :: "string \<Rightarrow> int option" where
  "parse_group s = (if s = [] \<or> length s > 4 \<or> list_ex (\<lambda>c. hex_val c = None) s then None
     else Some (foldl (\<lambda>n c. 16 * n + int (the (hex_val c))) 0 s))"

text \<open>The groups of one side of a \<^verbatim>\<open>::\<close>; the last may be a dotted IPv4 address.\<close>

fun parse_groups :: "bool \<Rightarrow> string list \<Rightarrow> int list option" where
  "parse_groups v4_tail [] = Some []"
| "parse_groups v4_tail [s] =
     (case parse_group s of
        Some n \<Rightarrow> Some [n]
      | None \<Rightarrow> if v4_tail then map_option (\<lambda>a. [uint (drop_bit 16 a), uint (a AND 0xFFFF)]) (parse_v4 s) else None)"
| "parse_groups v4_tail (s # ss) =
     (case parse_group s of None \<Rightarrow> None | Some n \<Rightarrow> map_option (Cons n) (parse_groups v4_tail ss))"

definition side :: "string \<Rightarrow> string list" where
  "side s = (if s = [] then [] else split_on CHR '':'' s)"

definition groups_word :: "int list \<Rightarrow> ip" where
  "groups_word gs = word_of_int (foldl (\<lambda>n g. n * 65536 + g) 0 gs)"

definition parse_v6 :: "string \<Rightarrow> ip option" where
  "parse_v6 s =
     (case index_str s ''::'' of
        None \<Rightarrow> (case parse_groups True (split_on CHR '':'' s) of Some gs \<Rightarrow> if length gs = 8 then Some (groups_word gs) else None | None \<Rightarrow> None)
      | Some i \<Rightarrow>
          (case (parse_groups False (side (take i s)), parse_groups True (side (drop (i + 2) s))) of
             (Some l, Some r) \<Rightarrow>
               if length l + length r < 8 then Some (groups_word (l @ replicate (8 - length l - length r) 0 @ r)) else None
           | _ \<Rightarrow> None))"

text \<open>The first of these characters decides; a zone is refused.\<close>

definition ParseIP :: "string \<Rightarrow> ip option" where
  "ParseIP s =
     (case find (\<lambda>c. c = CHR ''.'' \<or> c = CHR '':'' \<or> c = CHR ''%'') s of
        Some c \<Rightarrow> if c = CHR ''.'' then map_option of_v4 (parse_v4 s) else if c = CHR '':'' then parse_v6 s else None
      | None \<Rightarrow> None)"

text \<open>A network: its masked address, whether the mask has 4 bytes, and the length of the prefix.\<close>

record ip_net =
  in_ip :: ip
  in_v4 :: bool
  in_len :: nat

definition same_prefix :: "nat \<Rightarrow> nat \<Rightarrow> 'a::len word \<Rightarrow> 'a word \<Rightarrow> bool" where
  "same_prefix width len a b \<longleftrightarrow> drop_bit (width - len) a = drop_bit (width - len) b"

definition net_contains :: "ip_net \<Rightarrow> ip \<Rightarrow> bool" where
  "net_contains n ip =
     (case (to4 (in_ip n), to4 ip) of
        (Some a, Some b) \<Rightarrow> same_prefix 32 (if in_v4 n then in_len n else in_len n - 96) a b
      | (None, None) \<Rightarrow> \<not> in_v4 n \<and> same_prefix 128 (in_len n) (in_ip n) ip
      | _ \<Rightarrow> False)"

definition mask_to :: "nat \<Rightarrow> 'a::len word \<Rightarrow> 'a word" where
  "mask_to zeros a = push_bit zeros (drop_bit zeros a)"

definition ParseCIDR :: "string \<Rightarrow> ip_net option" where
  "ParseCIDR s =
     (case index_str s ''/'' of
        None \<Rightarrow> None
      | Some i \<Rightarrow>
          (case (ParseIP (take i s), parse_nat (drop (i + 1) s)) of
             (Some ip, Some n) \<Rightarrow>
               if find (\<lambda>c. c = CHR ''.'' \<or> c = CHR '':'') (take i s) = Some CHR ''.''
               then if n \<le> 32 then Some \<lparr>in_ip = of_v4 (mask_to (32 - n) (ucast ip)), in_v4 = True, in_len = n\<rparr> else None
               else if n \<le> 128 then Some \<lparr>in_ip = mask_to (128 - n) ip, in_v4 = False, in_len = n\<rparr> else None
           | _ \<Rightarrow> None))"

section \<open>Classes of addresses\<close>

definition byte :: "nat \<Rightarrow> 'a::len word \<Rightarrow> 'a word" where
  "byte i a = drop_bit (8 * i) a AND 0xFF"

definition IsLoopback :: "ip \<Rightarrow> bool" where
  "IsLoopback ip = (case to4 ip of Some a \<Rightarrow> byte 3 a = 127 | None \<Rightarrow> ip = 1)"

definition IsPrivate :: "ip \<Rightarrow> bool" where
  "IsPrivate ip =
     (case to4 ip of
        Some a \<Rightarrow> byte 3 a = 10 \<or> (byte 3 a = 172 \<and> byte 2 a AND 0xF0 = 16) \<or> (byte 3 a = 192 \<and> byte 2 a = 168)
      | None \<Rightarrow> byte 15 ip AND 0xFE = 0xFC)"

definition IsLinkLocalUnicast :: "ip \<Rightarrow> bool" where
  "IsLinkLocalUnicast ip =
     (case to4 ip of Some a \<Rightarrow> byte 3 a = 169 \<and> byte 2 a = 254 | None \<Rightarrow> byte 15 ip = 0xFE \<and> byte 14 ip AND 0xC0 = 0x80)"

definition IsLinkLocalMulticast :: "ip \<Rightarrow> bool" where
  "IsLinkLocalMulticast ip =
     (case to4 ip of Some a \<Rightarrow> byte 3 a = 224 \<and> byte 2 a = 0 \<and> byte 1 a = 0 | None \<Rightarrow> byte 15 ip = 0xFF \<and> byte 14 ip AND 0x0F = 2)"

definition IsInterfaceLocalMulticast :: "ip \<Rightarrow> bool" where
  "IsInterfaceLocalMulticast ip \<longleftrightarrow> byte 15 ip = 0xFF \<and> byte 14 ip AND 0x0F = 1"

definition IsMulticast :: "ip \<Rightarrow> bool" where
  "IsMulticast ip = (case to4 ip of Some a \<Rightarrow> byte 3 a AND 0xF0 = 0xE0 | None \<Rightarrow> byte 15 ip = 0xFF)"

definition IsUnspecified :: "ip \<Rightarrow> bool" where
  "IsUnspecified ip \<longleftrightarrow> ip = of_v4 0 \<or> ip = 0"

section \<open>The guard\<close>

definition cgnat :: ip_net where
  "cgnat = \<lparr>in_ip = of_v4 0x64400000, in_v4 = True, in_len = 10\<rparr>"

definition parseCIDROrIP :: "string \<Rightarrow> ip_net option" where
  "parseCIDROrIP s =
     (case ParseCIDR s of
        Some n \<Rightarrow> Some n
      | None \<Rightarrow>
          (case ParseIP s of
             None \<Rightarrow> None
           | Some ip \<Rightarrow> Some (if to4 ip = None then \<lparr>in_ip = ip, in_v4 = False, in_len = 128\<rparr> else \<lparr>in_ip = ip, in_v4 = True, in_len = 32\<rparr>)))"

text \<open>The policy is replaced as a whole or, on an entry that does not parse, left as it was.\<close>

fun parse_entries :: "string list \<Rightarrow> ip_net list option" where
  "parse_entries [] = Some []"
| "parse_entries (e # es) =
     (case parseCIDROrIP e of None \<Rightarrow> None | Some n \<Rightarrow> map_option (Cons n) (parse_entries es))"

definition SetAllowedInternalCIDRs :: "ip_net list \<Rightarrow> string list \<Rightarrow> ip_net list \<times> unit result" where
  "SetAllowedInternalCIDRs allowed entries =
     (case parse_entries entries of
        None \<Rightarrow> (allowed, Inl (ErrMsg ''netguard: invalid allowed internal target''))
      | Some nets \<Rightarrow> (nets, Inr ()))"

definition isAllowlisted :: "ip_net list \<Rightarrow> ip \<Rightarrow> bool" where
  "isAllowlisted allowed ip = list_ex (\<lambda>n. net_contains n ip) allowed"

definition blocked_ip :: "ip_net list \<Rightarrow> ip \<Rightarrow> bool" where
  "blocked_ip allowed ip \<longleftrightarrow> \<not> isAllowlisted allowed ip \<and>
     (IsLoopback ip \<or> IsPrivate ip \<or> IsLinkLocalUnicast ip \<or> IsLinkLocalMulticast ip \<or> IsInterfaceLocalMulticast ip \<or>
      IsMulticast ip \<or> IsUnspecified ip \<or> ip = of_v4 0xFFFFFFFF \<or> net_contains cgnat ip)"

definition isBlockedIP :: "ip_net list \<Rightarrow> string \<Rightarrow> bool" where
  "isBlockedIP allowed s = (case ParseIP s of None \<Rightarrow> True | Some ip \<Rightarrow> blocked_ip allowed ip)"

text \<open>\<^verbatim>\<open>net.SplitHostPort\<close>.\<close>

definition SplitHostPort :: "string \<Rightarrow> (string \<times> string) option" where
  "SplitHostPort hp =
     (case last_index_str hp '':'' of
        None \<Rightarrow> None
      | Some i \<Rightarrow>
          if hp \<noteq> [] \<and> hd hp = CHR ''['' then
            (case index_str hp '']'' of
               None \<Rightarrow> None
             | Some e \<Rightarrow>
                 if e + 1 \<noteq> i \<or> CHR ''['' \<in> set (drop 1 hp) \<or> CHR '']'' \<in> set (drop (e + 1) hp) then None
                 else Some (take (e - 1) (drop 1 hp), drop (i + 1) hp))
          else if CHR '':'' \<in> set (take i hp) \<or> CHR ''['' \<in> set hp \<or> CHR '']'' \<in> set hp then None
          else Some (take i hp, drop (i + 1) hp))"

definition control :: "ip_net list \<Rightarrow> string \<Rightarrow> unit result" where
  "control allowed address =
     (case SplitHostPort address of
        None \<Rightarrow> Inl (ErrMsg ''netguard: invalid dial address'')
      | Some (host, _) \<Rightarrow>
          if isBlockedIP allowed host then Inl (ErrMsg ''netguard: blocked connection to internal address'') else Inr ())"

section \<open>The internal ranges as intervals\<close>

definition internal_v4 :: "nat \<Rightarrow> bool" where
  "internal_v4 n \<longleftrightarrow> n = 0 \<or> (0x0A000000 \<le> n \<and> n \<le> 0x0AFFFFFF) \<or> (0x64400000 \<le> n \<and> n \<le> 0x647FFFFF) \<or>
     (0x7F000000 \<le> n \<and> n \<le> 0x7FFFFFFF) \<or> (0xA9FE0000 \<le> n \<and> n \<le> 0xA9FEFFFF) \<or> (0xAC100000 \<le> n \<and> n \<le> 0xAC1FFFFF) \<or>
     (0xC0A80000 \<le> n \<and> n \<le> 0xC0A8FFFF) \<or> (0xE0000000 \<le> n \<and> n \<le> 0xEFFFFFFF) \<or> n = 0xFFFFFFFF"

definition internal_v6 :: "nat \<Rightarrow> bool" where
  "internal_v6 n \<longleftrightarrow> n = 0 \<or> n = 1 \<or> (0xFC * 2 ^ 120 \<le> n \<and> n < 0xFE * 2 ^ 120) \<or> (0xFE8 * 2 ^ 116 \<le> n \<and> n < 0xFEC * 2 ^ 116) \<or> 0xFF * 2 ^ 120 \<le> n"

definition internal :: "ip \<Rightarrow> bool" where
  "internal ip = (case to4 ip of Some a \<Rightarrow> internal_v4 (unat a) | None \<Rightarrow> internal_v6 (unat ip))"

lemma div_interval: "0 < q \<Longrightarrow> n div q = k \<longleftrightarrow> k * q \<le> n \<and> n < Suc k * (q :: nat)"
  by (metis div_nat_eqI dividend_less_div_times less_eq_div_iff_mult_less_eq mult.commute mult_Suc order_refl)

lemma unat_drop_bit: "unat (drop_bit k a) = unat a div 2 ^ k" for a :: "'a::len word"
  by (subst unat_drop_bit_eq) (rule drop_bit_eq_div)

lemma word_eq_unat: "(a = b) = (unat a = unat b)" for a b :: "'a::len word"
  by (simp add: word_unat_eq_iff)

lemma unat_byte:
  fixes a :: "'a::len word"
  assumes "8 \<le> LENGTH('a)"
  shows "unat (byte i a) = unat a div 2 ^ (8 * i) mod 256"
proof -
  have "byte i a = take_bit 8 (drop_bit (8 * i) a)"
    by (simp add: byte_def take_bit_eq_mask mask_eq_exp_minus_1)
  then have "unat (byte i a) = take_bit 8 (unat (drop_bit (8 * i) a))" by (simp add: unsigned_take_bit_eq)
  then show ?thesis by (simp add: unat_drop_bit take_bit_eq_mod)
qed

lemma nibble_table:
  "list_all (\<lambda>x. ((word_of_nat x :: 32 word) AND 0xF0 = 16) = (x div 16 = 1) \<and> ((word_of_nat x :: 32 word) AND 0xF0 = 0xE0) = (x div 16 = 14)) [0..<256]"
  by code_simp

lemma high_nibble:
  fixes b :: "32 word"
  assumes "unat b < 256"
  shows "(b AND 0xF0 = 16) = (unat b div 16 = 1)" "(b AND 0xF0 = 0xE0) = (unat b div 16 = 14)"
proof -
  have "unat b \<in> set [0..<256]" using assms by simp
  with nibble_table have "((word_of_nat (unat b) :: 32 word) AND 0xF0 = 16) = (unat b div 16 = 1) \<and>
      ((word_of_nat (unat b) :: 32 word) AND 0xF0 = 0xE0) = (unat b div 16 = 14)" unfolding list_all_iff by blast
  then show "(b AND 0xF0 = 16) = (unat b div 16 = 1)" "(b AND 0xF0 = 0xE0) = (unat b div 16 = 14)" by simp_all
qed

lemma high_bits_table:
  "list_all (\<lambda>x. ((word_of_nat x :: 128 word) AND 0xFE = 0xFC) = (x div 2 = 126) \<and> ((word_of_nat x :: 128 word) AND 0xC0 = 0x80) = (x div 64 = 2)) [0..<256]"
  by code_simp

lemma high_bits:
  fixes b :: "128 word"
  assumes "unat b < 256"
  shows "(b AND 0xFE = 0xFC) = (unat b div 2 = 126)" "(b AND 0xC0 = 0x80) = (unat b div 64 = 2)"
proof -
  have "unat b \<in> set [0..<256]" using assms by simp
  with high_bits_table have "((word_of_nat (unat b) :: 128 word) AND 0xFE = 0xFC) = (unat b div 2 = 126) \<and>
      ((word_of_nat (unat b) :: 128 word) AND 0xC0 = 0x80) = (unat b div 64 = 2)" unfolding list_all_iff by blast
  then show "(b AND 0xFE = 0xFC) = (unat b div 2 = 126)" "(b AND 0xC0 = 0x80) = (unat b div 64 = 2)" by simp_all
qed

lemma to4_of_v4 [simp]: "to4 (of_v4 a) = Some a"
proof -
  have "drop_bit 32 (of_v4 a) = 0xFFFF"
  proof -
    have "drop_bit 32 (ucast a :: ip) = 0"
      by (rule bit_eqI) (auto simp: bit_drop_bit_eq bit_ucast_iff dest: bit_imp_le_length)
    moreover have "drop_bit 32 v4_prefix = 0xFFFF" by code_simp
    ultimately show ?thesis by (simp add: of_v4_def)
  qed
  moreover have "ucast (of_v4 a) = a"
  proof -
    have "ucast v4_prefix = (0 :: 32 word)" by code_simp
    moreover have "ucast (ucast a :: ip) = a" by (rule bit_eqI) (auto simp: bit_ucast_iff dest: bit_imp_le_length)
    ultimately show ?thesis by (simp add: of_v4_def unsigned_or_eq)
  qed
  ultimately show ?thesis by (simp add: to4_def)
qed

lemma of_v4_inject: "of_v4 a = of_v4 b \<longleftrightarrow> a = b"
  by (metis option.inject to4_of_v4)

lemma to4_Some: "to4 ip = Some a \<Longrightarrow> ip = of_v4 a"
proof -
  assume t: "to4 ip = Some a"
  then have h: "drop_bit 32 ip = 0xFFFF" and a: "a = ucast ip" by (auto simp: to4_def split: if_splits)
  show ?thesis
  proof (rule bit_eqI)
    fix n assume "possible_bit TYPE(128 word) n"
    have "bit ip n = bit (0xFFFF :: 128 word) (n - 32)" if "32 \<le> n"
      using that arg_cong[OF h, of "\<lambda>x. bit x (n - 32)"] by (simp add: bit_drop_bit_eq)
    moreover have "bit v4_prefix n = (32 \<le> n \<and> bit (0xFFFF :: 128 word) (n - 32))"
    proof -
      have p: "v4_prefix = push_bit 32 0xFFFF" by code_simp
      show ?thesis unfolding p bit_push_bit_iff using \<open>possible_bit TYPE(128 word) n\<close> by simp
    qed
    ultimately show "bit ip n = bit (of_v4 a) n"
      using \<open>possible_bit TYPE(128 word) n\<close> by (cases "32 \<le> n") (auto simp: of_v4_def a bit_or_iff bit_ucast_iff)
  qed
qed

text \<open>The classes of an IPv4 address, by its numeric value.\<close>

lemma halves:
  fixes n :: nat
  shows "n div 2 ^ 24 = n div 65536 div 256" "n div 2 ^ 16 mod 256 = n div 65536 mod 256" "n div 2 ^ 22 = n div 65536 div 64"
  by (simp_all add: div_mult2_eq[symmetric])

lemma digits_eq: "r < b \<Longrightarrow> (n div b = q \<and> n mod b = r) = (n = q * b + (r :: nat))"
  by auto

lemma unat32: "unat a < 4294967296" for a :: "32 word"
  using unsigned_less[of a] by simp

lemma blocked_v4_half:
  fixes a :: "32 word"
  defines "m \<equiv> unat a div 65536"
  shows "IsLoopback (of_v4 a) = (m div 256 = 127)"
    and "IsPrivate (of_v4 a) = (m div 256 = 10 \<or> m div 16 = 2753 \<or> m = 49320)"
    and "IsLinkLocalUnicast (of_v4 a) = (m = 43518)"
    and "IsMulticast (of_v4 a) = (m div 4096 = 14)"
    and "net_contains cgnat (of_v4 a) = (m div 64 = 401)"
    and "IsLinkLocalMulticast (of_v4 a) \<Longrightarrow> IsMulticast (of_v4 a)"
proof -
  have b3: "unat (byte 3 a) = m div 256" and b2: "unat (byte 2 a) = m mod 256"
    using unat32[of a] by (simp_all add: unat_byte m_def div_mult2_eq[symmetric]) 
  have lt: "unat (byte 2 a) < 256" "unat (byte 3 a) < 256" "m < 65536"
    using unat32[of a] by (simp_all add: unat_byte m_def)
  have eqs: "(byte 3 a = k) = (m div 256 = unat k)" "(byte 2 a = k) = (m mod 256 = unat k)" for k :: "32 word"
    using b3 b2 by (simp_all add: word_eq_unat)
  show "IsLoopback (of_v4 a) = (m div 256 = 127)" by (simp add: IsLoopback_def eqs)
  show "IsPrivate (of_v4 a) = (m div 256 = 10 \<or> m div 16 = 2753 \<or> m = 49320)"
  proof -
    have "(byte 2 a AND 0xF0 = 16) = (m mod 256 div 16 = 1)" using high_nibble(1)[OF lt(1)] b2 by simp
    moreover have "(m div 256 = 172 \<and> m mod 256 div 16 = 1) = (m div 16 = 2753)"
      using digits_eq[where n = "m div 16" and b = 16 and q = 172 and r = 1] mod_mult2_eq[of m 16 16] by (simp add: div_mult2_eq[symmetric])
    moreover have "(m div 256 = 192 \<and> m mod 256 = 168) = (m = 49320)" using digits_eq[where n = "m" and b = 256 and q = 192 and r = 168] by simp
    ultimately show ?thesis by (simp add: IsPrivate_def eqs)
  qed
  show "IsLinkLocalUnicast (of_v4 a) = (m = 43518)"
  proof -
    have "(m div 256 = 169 \<and> m mod 256 = 254) = (m = 43518)" using digits_eq[where n = "m" and b = 256 and q = 169 and r = 254] by simp
    then show ?thesis by (simp add: IsLinkLocalUnicast_def eqs)
  qed
  show mc: "IsMulticast (of_v4 a) = (m div 4096 = 14)"
  proof -
    have "(byte 3 a AND 0xF0 = 0xE0) = (m div 256 div 16 = 14)" using high_nibble(2)[OF lt(2)] b3 by simp
    then show ?thesis by (simp add: IsMulticast_def div_mult2_eq[symmetric])
  qed
  show "net_contains cgnat (of_v4 a) = (m div 64 = 401)"
  proof -
    have "drop_bit 22 (0x64400000 :: 32 word) = 401" by code_simp
    then show ?thesis
      by (simp add: net_contains_def cgnat_def same_prefix_def word_eq_unat unat_drop_bit m_def div_mult2_eq[symmetric])
  qed
  show "IsMulticast (of_v4 a)" if "IsLinkLocalMulticast (of_v4 a)"
  proof -
    have "m div 256 = 224" using that by (simp add: IsLinkLocalMulticast_def eqs)
    then have "m div 256 div 16 = 14" by simp
    then have "m div 4096 = 14" by (simp add: div_mult2_eq[symmetric])
    with mc show ?thesis by simp
  qed
qed

lemma to4_zero: "to4 0 = None" and to4_one: "to4 1 = None"
  by code_simp+

lemma of_v4_small: "byte 15 (of_v4 a) = 0"
proof -
  have "drop_bit 32 (of_v4 a) = 0xFFFF" using to4_of_v4[of a] unfolding to4_def by (auto split: if_splits)
  then have "unat (drop_bit 32 (of_v4 a)) = 65535" by simp
  then have "unat (of_v4 a) div 2 ^ 32 = 65535" by (simp only: unat_drop_bit)
  then have "unat (of_v4 a) < 2 ^ 48" by simp
  then have "unat (byte 15 (of_v4 a)) = 0" by (simp add: unat_byte)
  then show ?thesis by (simp add: unat_eq_zero)
qed

lemma blocked_v4: "blocked_ip [] (of_v4 a) = internal_v4 (unat a)"
proof -
  let ?n = "unat a"
  let ?m = "?n div 65536"
  have iv: "?m div 256 = k \<longleftrightarrow> k * 16777216 \<le> ?n \<and> ?n < Suc k * 16777216" for k
    using div_interval[of 16777216 ?n k] by (simp add: div_mult2_eq[symmetric])
  have iv16: "?m div 16 = k \<longleftrightarrow> k * 1048576 \<le> ?n \<and> ?n < Suc k * 1048576" for k
    using div_interval[of 1048576 ?n k] by (simp add: div_mult2_eq[symmetric])
  have iv64: "?m div 64 = k \<longleftrightarrow> k * 4194304 \<le> ?n \<and> ?n < Suc k * 4194304" for k
    using div_interval[of 4194304 ?n k] by (simp add: div_mult2_eq[symmetric])
  have iv4k: "?m div 4096 = k \<longleftrightarrow> k * 268435456 \<le> ?n \<and> ?n < Suc k * 268435456" for k
    using div_interval[of 268435456 ?n k] by (simp add: div_mult2_eq[symmetric])
  have iv1: "?m = k \<longleftrightarrow> k * 65536 \<le> ?n \<and> ?n < Suc k * 65536" for k
    using div_interval[of 65536 ?n k] by simp
  have un: "IsUnspecified (of_v4 a) = (?n = 0)"
  proof -
    have "of_v4 a \<noteq> 0" by (metis option.distinct(1) to4_of_v4 to4_zero)
    then show ?thesis by (simp add: IsUnspecified_def of_v4_inject unat_eq_zero)
  qed
  have bc: "(of_v4 a = of_v4 0xFFFFFFFF) = (?n = 0xFFFFFFFF)"
    using word_eq_unat[of a "0xFFFFFFFF"] by (simp add: of_v4_inject)
  have il: "\<not> IsInterfaceLocalMulticast (of_v4 a)" by (simp add: IsInterfaceLocalMulticast_def of_v4_small)
  have "blocked_ip [] (of_v4 a) = (?m div 256 = 127 \<or> (?m div 256 = 10 \<or> ?m div 16 = 2753 \<or> ?m = 49320) \<or> ?m = 43518 \<or>
      ?m div 4096 = 14 \<or> ?n = 0 \<or> ?n = 0xFFFFFFFF \<or> ?m div 64 = 401)"
    using blocked_v4_half[of a] un bc il unfolding blocked_ip_def isAllowlisted_def by auto
  moreover have "(?m div 256 = 127) = (0x7F000000 \<le> ?n \<and> ?n \<le> 0x7FFFFFFF)" using iv[of 127] by simp linarith
  moreover have "(?m div 256 = 10) = (0x0A000000 \<le> ?n \<and> ?n \<le> 0x0AFFFFFF)" using iv[of 10] by simp linarith
  moreover have "(?m div 16 = 2753) = (0xAC100000 \<le> ?n \<and> ?n \<le> 0xAC1FFFFF)" using iv16[of 2753] by simp linarith
  moreover have "(?m = 49320) = (0xC0A80000 \<le> ?n \<and> ?n \<le> 0xC0A8FFFF)" using iv1[of 49320] by simp linarith
  moreover have "(?m = 43518) = (0xA9FE0000 \<le> ?n \<and> ?n \<le> 0xA9FEFFFF)" using iv1[of 43518] by simp linarith
  moreover have "(?m div 4096 = 14) = (0xE0000000 \<le> ?n \<and> ?n \<le> 0xEFFFFFFF)" using iv4k[of 14] by simp linarith
  moreover have "(?m div 64 = 401) = (0x64400000 \<le> ?n \<and> ?n \<le> 0x647FFFFF)" using iv64[of 401] by simp linarith
  ultimately show ?thesis unfolding internal_v4_def by argo
qed

text \<open>The classes of an address that is not IPv4.\<close>

lemma blocked_v6:
  assumes "to4 ip = None"
  shows "blocked_ip [] ip = internal_v6 (unat ip)"
proof -
  let ?n = "unat ip"
  have lt: "?n < 2 ^ 128" using unsigned_less[of ip] by simp
  have b15: "unat (byte 15 ip) = ?n div 2 ^ 120" and b14: "unat (byte 14 ip) = ?n div 2 ^ 112 mod 256"
    using lt by (simp_all add: unat_byte)
  have small: "unat (byte 15 ip) < 256" "unat (byte 14 ip) < 256" by (simp_all add: unat_byte)
  have lo: "IsLoopback ip = (?n = 1)" using assms by (simp add: IsLoopback_def word_eq_unat)
  have pr: "IsPrivate ip = (?n div 2 ^ 121 = 126)"
    using assms high_bits(1)[OF small(1)] by (simp add: IsPrivate_def b15 div_mult2_eq[symmetric])
  have ll: "IsLinkLocalUnicast ip = (?n div 2 ^ 118 = 0x3FA)"
  proof -
    have "(byte 15 ip = 0xFE) = (?n div 2 ^ 120 = 254)" by (simp add: word_eq_unat b15)
    moreover have "(byte 14 ip AND 0xC0 = 0x80) = (?n div 2 ^ 118 mod 4 = 2)"
      using high_bits(2)[OF small(2)] mod_mult2_eq[of "?n div 2 ^ 112" 64 4] by (simp add: b14 div_mult2_eq[symmetric])
    moreover have "(?n div 2 ^ 120 = 254 \<and> ?n div 2 ^ 118 mod 4 = 2) = (?n div 2 ^ 118 = 0x3FA)"
      using digits_eq[where n = "?n div 2 ^ 118" and b = 4 and q = 254 and r = 2] by (simp add: div_mult2_eq[symmetric])
    ultimately show ?thesis using assms by (simp add: IsLinkLocalUnicast_def)
  qed
  have mc: "IsMulticast ip = (?n div 2 ^ 120 = 255)" using assms by (simp add: IsMulticast_def word_eq_unat b15)
  have sub: "IsLinkLocalMulticast ip \<or> IsInterfaceLocalMulticast ip \<Longrightarrow> IsMulticast ip"
    using assms by (auto simp: IsLinkLocalMulticast_def IsInterfaceLocalMulticast_def IsMulticast_def)
  have un: "IsUnspecified ip = (?n = 0)"
    using assms to4_of_v4 by (auto simp: IsUnspecified_def unat_eq_zero)
  have no4: "ip \<noteq> of_v4 0xFFFFFFFF" using assms by auto
  have cg: "\<not> net_contains cgnat ip" using assms by (simp add: net_contains_def cgnat_def)
  have "blocked_ip [] ip = (?n = 1 \<or> ?n div 2 ^ 121 = 126 \<or> ?n div 2 ^ 118 = 0x3FA \<or> ?n div 2 ^ 120 = 255 \<or> ?n = 0)"
    using lo pr ll mc sub un no4 cg unfolding blocked_ip_def isAllowlisted_def by auto
  also have "\<dots> = internal_v6 ?n"
    using lt div_interval[of "2 ^ 121" ?n 126] div_interval[of "2 ^ 118" ?n "0x3FA"] div_interval[of "2 ^ 120" ?n 255]
    unfolding internal_v6_def by auto
  finally show ?thesis .
qed

lemma blocked_internal: "blocked_ip [] ip = internal ip"
  using blocked_v4 blocked_v6 to4_Some by (auto simp: internal_def split: option.splits)

lemma blocked_split: "blocked_ip allowed ip = (\<not> isAllowlisted allowed ip \<and> internal ip)"
  unfolding blocked_internal[symmetric] by (simp add: blocked_ip_def isAllowlisted_def)

text \<open>
  C38. A connection is let through exactly when the address it is dialled to is written as an IP address that the
  operator allowed or that lies outside every internal range. The ranges are given as intervals of the numeric
  address: this network, 10/8, 100.64/10, 127/8, 169.254/16, 172.16/12, 192.168/16, 224/4 and the broadcast address
  for IPv4, however it is spelt (the mapped IPv6 form included), and for IPv6 the unspecified and the loopback
  address, fc00::/7, fe80::/10 and ff00::/8. Anything that is not a host and port with such a host is refused.
\<close>

theorem control_lets_through_exactly:
  "control allowed address = Inr () \<longleftrightarrow>
     (\<exists>host port ip. SplitHostPort address = Some (host, port) \<and> ParseIP host = Some ip \<and>
        (if list_ex (\<lambda>n. net_contains n ip) allowed then True
         else \<not> (case to4 ip of Some a \<Rightarrow> internal_v4 (unat a) | None \<Rightarrow> internal_v6 (unat ip))))"
  by (auto simp: control_def isBlockedIP_def blocked_split internal_def isAllowlisted_def split: option.splits if_splits prod.splits)

end
