(* ===== verification/Repo_Admin.thy ===== *)
theory Repo_Admin
  imports Cleanup RBAC
begin

text \<open>
  Repository administration: the service \<^verbatim>\<open>service/repository_service.go\<close>, the statements of
  \<^verbatim>\<open>repository/postgres/repository_repo.go\<close> that change rows, the redaction of credentials of
  \<^verbatim>\<open>domain/redact.go\<close> and the endpoints of \<^verbatim>\<open>api/handlers/repositories.go\<close>. The repositories are the
  rows \<open>w_repos\<close> of the shared state; the rows of \<^verbatim>\<open>cleanup_policies\<close> and the ids of \<^verbatim>\<open>routing_rules\<close>, which
  these operations only read, are arguments. The HTTP configuration and the description of a row are not in the model.
\<close>

section \<open>Credentials in a proxy configuration\<close>

definition ProxyPasswordKey :: string where "ProxyPasswordKey = ''proxy_password''"
definition ProxyPasswordSetKey :: string where "ProxyPasswordSetKey = ''proxy_password_set''"
definition RemotePasswordKey :: string where "RemotePasswordKey = ''remote_password''"
definition RemotePasswordSetKey :: string where "RemotePasswordSetKey = ''remote_password_set''"
definition SecretKeyKey :: string where "SecretKeyKey = ''secret_key''"
definition SecretKeySetKey :: string where "SecretKeySetKey = ''secret_key_set''"

lemmas secret_keys = ProxyPasswordKey_def ProxyPasswordSetKey_def RemotePasswordKey_def RemotePasswordSetKey_def

text \<open>\<^verbatim>\<open>delete(m, k)\<close>.\<close>

definition cfg_delete :: "string \<Rightarrow> config \<Rightarrow> config" where
  "cfg_delete k m = filter (\<lambda>kv. fst kv \<noteq> k) m"

definition redactedConfig :: "config \<Rightarrow> string \<Rightarrow> string \<Rightarrow> config" where
  "redactedConfig cfg secretKey setKey =
     (let out = filter (\<lambda>kv. fst kv \<noteq> secretKey \<and> fst kv \<noteq> setKey) cfg
      in if any_str (cfg_get cfg secretKey) \<noteq> [] then (setKey, AnyBool True) # out else out)"

definition RedactedBlobStore :: "blob_store \<Rightarrow> blob_store" where
  "RedactedBlobStore bs = bs\<lparr>bs_config := redactedConfig (bs_config bs) SecretKeyKey SecretKeySetKey\<rparr>"

definition RedactedBlobStores :: "blob_store list \<Rightarrow> blob_store list" where
  "RedactedBlobStores = map RedactedBlobStore"

definition RedactedRepository :: "repository \<Rightarrow> repository" where
  "RedactedRepository r =
     (let r1 = r\<lparr>r_proxy_config := redactedConfig (r_proxy_config r) ProxyPasswordKey ProxyPasswordSetKey\<rparr>
      in r1\<lparr>r_proxy_config := redactedConfig (r_proxy_config r1) RemotePasswordKey RemotePasswordSetKey\<rparr>)"

definition RedactedRepositories :: "repository list \<Rightarrow> repository list" where
  "RedactedRepositories = map RedactedRepository"

definition merge_secret :: "config \<Rightarrow> string \<Rightarrow> config \<Rightarrow> config" where
  "merge_secret stored secretKey merged =
     (case map_of merged secretKey of
        Some pw \<Rightarrow> if any_str pw = [] then cfg_delete secretKey merged else merged
      | None \<Rightarrow>
          if any_str (cfg_get stored secretKey) \<noteq> [] then (secretKey, AnyStr (any_str (cfg_get stored secretKey))) # merged
          else merged)"

definition mergeProxyConfig :: "config \<Rightarrow> config \<Rightarrow> config" where
  "mergeProxyConfig stored updates =
     fold (merge_secret stored) [ProxyPasswordKey, RemotePasswordKey]
       (filter (\<lambda>kv. fst kv \<noteq> ProxyPasswordSetKey \<and> fst kv \<noteq> RemotePasswordSetKey) updates)"

section \<open>Names\<close>

definition lower_alnum :: "char \<Rightarrow> bool" where
  "lower_alnum c \<longleftrightarrow> (CHR ''a'' \<le> c \<and> c \<le> CHR ''z'') \<or> (CHR ''0'' \<le> c \<and> c \<le> CHR ''9'')"

definition separator :: "string \<Rightarrow> bool" where
  "separator s \<longleftrightarrow> s = ''.'' \<or> s = ''_'' \<or> s = ''__'' \<or> (s \<noteq> [] \<and> list_all (\<lambda>c. c = CHR ''-'') s)"

text \<open>The regular expression \<^verbatim>\<open>[a-z0-9]+(?:(?:[._]|__|[-]+)[a-z0-9]+)*\<close> as a recogniser: a run of letters and
  digits, then separators each followed by such a run.\<close>

function name_rest :: "string \<Rightarrow> bool" where
  "name_rest s =
     (if s = [] then True
      else let sep = takeWhile (\<lambda>c. \<not> lower_alnum c) s; rest = dropWhile (\<lambda>c. \<not> lower_alnum c) s
        in if separator sep \<and> rest \<noteq> [] then name_rest (dropWhile lower_alnum rest) else False)"
  by pat_completeness auto

termination
proof (relation "measure length")
  fix s :: string and x xa
  assume "x = takeWhile (\<lambda>c. \<not> lower_alnum c) s" and xa: "xa = dropWhile (\<lambda>c. \<not> lower_alnum c) s"
    and sep: "separator x \<and> xa \<noteq> []"
  then have "length s = length x + length xa" "0 < length x"
    by (metis length_append takeWhile_dropWhile_id) (use sep in \<open>auto simp: separator_def\<close>)
  moreover have "length (dropWhile lower_alnum xa) \<le> length xa" by (rule length_dropWhile_le)
  ultimately show "(dropWhile lower_alnum xa, s) \<in> measure length" unfolding in_measure by linarith
qed simp

declare name_rest.simps [simp del]

definition dockerPathComponent :: "string \<Rightarrow> bool" where
  "dockerPathComponent s \<longleftrightarrow> takeWhile lower_alnum s \<noteq> [] \<and> name_rest (dropWhile lower_alnum s)"

definition reservedV2Names :: "string list" where
  "reservedV2Names = [''repository'', ''token'', ''_catalog'']"

abbreviation invalid :: "string \<Rightarrow> 'a result" where
  "invalid m \<equiv> Inl (Wrapped m ErrInvalidInput)"

definition validateNameForFormat :: "string \<Rightarrow> string \<Rightarrow> unit result" where
  "validateNameForFormat name format =
     (if \<not> is_oci_registry format then Inr ()
      else if \<not> dockerPathComponent name then invalid ''cannot be addressed by docker clients''
      else if name \<in> set reservedV2Names then invalid ''is a registry-level endpoint on the /v2/ surface''
      else Inr ())"

section \<open>Validation\<close>

definition validateRemoteURL :: "config \<Rightarrow> unit result" where
  "validateRemoteURL pc =
     (if trim_space (any_str (cfg_get pc ''remote_url'')) = [] then invalid ''proxy_config.remote_url must be a non-empty string''
      else Inr ())"

definition validateRepoQuotaAgainstStore :: "int option \<Rightarrow> blob_store \<Rightarrow> unit result" where
  "validateRepoQuotaAgainstStore repoQuota bs =
     (case (repoQuota, bs_quota_bytes bs) of
        (Some q, Some sq) \<Rightarrow> if q > sq then invalid ''repository quota exceeds blob store quota'' else Inr ()
      | _ \<Rightarrow> Inr ())"

text \<open>\<^verbatim>\<open>CleanupPolicyRepo.Get\<close>: an id that is not a UUID is an error of the database, not a missing row.\<close>

definition policies_get :: "world \<Rightarrow> cleanup_policy list \<Rightarrow> string \<Rightarrow> nat \<Rightarrow> cleanup_policy result" where
  "policies_get w pols i n = guard_io w ''Policies.Get'' i n
     (if \<not> w_uuid_ok w i then Inl ErrIO else row_or_not_found (find (\<lambda>p. cp_id p = i) pols))"

fun validateCleanupPolicies :: "world \<Rightarrow> cleanup_policy list \<Rightarrow> string \<Rightarrow> string list \<Rightarrow> nat \<Rightarrow> unit result" where
  "validateCleanupPolicies w pols repoFormat [] n = Inr ()"
| "validateCleanupPolicies w pols repoFormat (i # ids) n =
     (case policies_get w pols i n of
        Inl e \<Rightarrow> if e = ErrNotFound then invalid ''cleanup policy does not exist'' else Inl e
      | Inr p \<Rightarrow>
          if cp_format p \<noteq> [] \<and> cp_format p \<noteq> ''*'' \<and> cp_format p \<noteq> repoFormat then invalid ''cleanup policy targets another format''
          else validateCleanupPolicies w pols repoFormat ids (Suc n))"

fun validate_members :: "world \<Rightarrow> repository \<Rightarrow> string list \<Rightarrow> string list \<Rightarrow> nat \<Rightarrow> unit result" where
  "validate_members w grp seen [] n = Inr ()"
| "validate_members w grp seen (name # names) n =
     (if name \<in> set seen then invalid ''group member is listed more than once''
      else case repos_get w name n of
          Inl e \<Rightarrow> if err_is e ErrNotFound then invalid ''group member repository does not exist'' else Inl e
        | Inr m \<Rightarrow>
            if r_type m = ''group'' then invalid ''group member cannot be a group repository''
            else if r_format m \<noteq> r_format grp then invalid ''group member has another format''
            else validate_members w grp (name # seen) names (Suc n))"

definition validateGroupMembers :: "world \<Rightarrow> repository \<Rightarrow> unit result" where
  "validateGroupMembers w grp =
     (if group_member_names grp = [] then invalid ''group repositories require formatConfig.member_names with at least one member''
      else validate_members w grp [] (group_member_names grp) 1)"

section \<open>Statements\<close>

text \<open>The constraints of the table \<^verbatim>\<open>repositories\<close>.\<close>

definition known_formats :: "string list" where
  "known_formats = [''maven2'', ''npm'', ''docker'', ''oci'', ''pypi'', ''go'', ''nuget'', ''helm'', ''raw'',
     ''apt'', ''yum'', ''cargo'', ''conan'', ''conda'', ''terraform'', ''rubygems'', ''cran'']"

definition store_fk_ok :: "world \<Rightarrow> repository \<Rightarrow> bool" where
  "store_fk_ok w r \<longleftrightarrow> (case r_blob_store_id r of None \<Rightarrow> True | Some i \<Rightarrow> i \<in> bs_id ` set (w_blobs w))"

definition rule_fk_ok :: "string list \<Rightarrow> repository \<Rightarrow> bool" where
  "rule_fk_ok rules r \<longleftrightarrow> (case r_routing_rule_id r of None \<Rightarrow> True | Some i \<Rightarrow> i \<in> set rules)"

definition repos_create :: "string list \<Rightarrow> world \<Rightarrow> repository \<Rightarrow> nat \<Rightarrow> (world \<times> repository) result" where
  "repos_create rules w r n = guard_io w ''Repos.Create'' (r_name r) n
     (if r_name r \<in> r_name ` set (w_repos w) \<or> r_format r \<notin> set known_formats \<or>
         r_type r \<notin> set [''hosted'', ''proxy'', ''group''] \<or> \<not> store_fk_ok w r \<or> \<not> rule_fk_ok rules r
      then Inl ErrIO
      else let r' = r\<lparr>r_id := w_gen_id w (w_seq w)\<rparr>
        in Inr (w\<lparr>w_repos := w_repos w @ [r'], w_seq := Suc (w_seq w)\<rparr>, r'))"

definition set_columns :: "repository \<Rightarrow> repository \<Rightarrow> repository" where
  "set_columns r row = row\<lparr>r_online := r_online r, r_format_config := r_format_config r, r_proxy_config := r_proxy_config r,
     r_cleanup_policy_ids := r_cleanup_policy_ids r, r_quota_bytes := r_quota_bytes r, r_routing_rule_id := r_routing_rule_id r,
     r_allow_anonymous := r_allow_anonymous r, r_blob_store_id := r_blob_store_id r\<rparr>"

definition repos_update :: "string list \<Rightarrow> world \<Rightarrow> repository \<Rightarrow> nat \<Rightarrow> world result" where
  "repos_update rules w r n = guard_io w ''Repos.Update'' (r_name r) n
     (if \<not> store_fk_ok w r \<or> \<not> rule_fk_ok rules r then Inl ErrIO
      else Inr (w\<lparr>w_repos := upd_where (\<lambda>row. r_name row = r_name r) (set_columns r) (w_repos w)\<rparr>))"

text \<open>The delete cascades to the components and the assets; the objects stay in the physical stores.\<close>

definition repos_delete :: "world \<Rightarrow> string \<Rightarrow> nat \<Rightarrow> world result" where
  "repos_delete w name n = guard_io w ''Repos.Delete'' name n
     (let repos = filter (\<lambda>r. r_name r = name) (w_repos w);
          comps = filter (\<lambda>c. c_repository_id c \<in> r_id ` set repos) (w_comps w)
      in Inr (w\<lparr>w_repos := filter (\<lambda>r. r_name r \<noteq> name) (w_repos w),
                w_comps := filter (\<lambda>c. c_repository_id c \<notin> r_id ` set repos) (w_comps w),
                w_assets := filter (\<lambda>a. a_repository_id a \<notin> r_id ` set repos \<and> a_component_id a \<notin> c_id ` set comps) (w_assets w)\<rparr>))"

definition repos_list :: "world \<Rightarrow> string \<Rightarrow> string \<Rightarrow> nat \<Rightarrow> repository list result" where
  "repos_list w format repoType n = guard_io w ''Repos.List'' [] n
     (Inr (sort_key r_name (filter (\<lambda>r. (format = [] \<or> r_format r = format) \<and> (repoType = [] \<or> r_type r = repoType)) (w_repos w))))"

section \<open>The service\<close>

definition Repo_Get :: "world \<Rightarrow> string \<Rightarrow> repository result" where
  "Repo_Get w name = repos_get w name 0"

definition fire :: "deps \<Rightarrow> world \<Rightarrow> webhook_event \<Rightarrow> string \<Rightarrow> world" where
  "fire d w ev name =
     (if d_webhooks d then
        w\<lparr>w_events := w_events w @ [\<lparr>p_event = ev, p_timestamp = w_now w, p_repository = name, p_component = [],
            p_path = [], p_content_type = [], p_size = 0\<rparr>]\<rparr>
      else w)"

text \<open>The store a request names: nothing, or the row with that id.\<close>

definition resolve_store :: "world \<Rightarrow> string \<Rightarrow> nat \<Rightarrow> blob_store option result" where
  "resolve_store w ref n =
     (if trim_space ref = [] then Inr None
      else if \<not> w_uuid_ok w (trim_space ref) then Inl ErrIO
      else case blobs_get_by_id w (trim_space ref) n of
          Inl e \<Rightarrow> if err_is e ErrNotFound then Inl (Wrapped ''blob store'' ErrNotFound) else Inl e
        | Inr bs \<Rightarrow> Inr (Some bs))"

definition create_checks :: "world \<Rightarrow> cleanup_policy list \<Rightarrow> repository \<Rightarrow> unit result" where
  "create_checks w pols r =
     (if r_name r = [] then invalid ''name is required''
      else if r_format r = [] then invalid ''format is required''
      else if r_type r = [] then invalid ''type is required''
      else case validateNameForFormat (r_name r) (r_format r) of Inl e \<Rightarrow> Inl e | Inr _ \<Rightarrow>
        (case repos_get w (r_name r) 0 of
           Inr _ \<Rightarrow> Inl (Wrapped ''repository'' ErrAlreadyExists)
         | Inl e \<Rightarrow>
             if \<not> err_is e ErrNotFound then Inl e
             else case (if r_type r = ''proxy'' then validateRemoteURL (cfg_delete ProxyPasswordSetKey (r_proxy_config r)) else Inr ()) of
                 Inl e \<Rightarrow> Inl e
               | Inr _ \<Rightarrow>
                   (case (if r_type r = ''group'' then validateGroupMembers w r else Inr ()) of
                      Inl e \<Rightarrow> Inl e
                    | Inr _ \<Rightarrow> validateCleanupPolicies w pols (r_format r) (r_cleanup_policy_ids r) 0)))"

definition create_store :: "world \<Rightarrow> repository \<Rightarrow> string option result" where
  "create_store w r =
     (case r_blob_store_id r of
        None \<Rightarrow> Inr None
      | Some ref \<Rightarrow>
          (case resolve_store w ref 0 of
             Inl e \<Rightarrow> Inl e
           | Inr None \<Rightarrow> Inr None
           | Inr (Some bs) \<Rightarrow>
               (case validateRepoQuotaAgainstStore (r_quota_bytes r) bs of Inl e \<Rightarrow> Inl e | Inr _ \<Rightarrow> Inr (Some (bs_id bs)))))"

definition Repo_Create ::
    "deps \<Rightarrow> string list \<Rightarrow> cleanup_policy list \<Rightarrow> world \<Rightarrow> repository \<Rightarrow> world \<times> repository result" where
  "Repo_Create d rules pols w r =
     (case create_checks w pols r of
        Inl e \<Rightarrow> (w, Inl e)
      | Inr _ \<Rightarrow>
          (case create_store w r of
             Inl e \<Rightarrow> (w, Inl e)
           | Inr st \<Rightarrow>
               let r1 = r\<lparr>r_proxy_config := cfg_delete ProxyPasswordSetKey (r_proxy_config r), r_blob_store_id := st, r_online := True\<rparr>
               in (case repos_create rules w r1 0 of
                     Inl e \<Rightarrow> (w, Inl e)
                   | Inr (w1, r2) \<Rightarrow> (fire d w1 EventRepoCreated (r_name r2), Inr r2))))"

text \<open>What a request for an update carries; an absent field is \<^verbatim>\<open>None\<close>, and the two flags are always there.\<close>

record repo_update =
  u_online :: bool
  u_format_config :: "config option"
  u_proxy_config :: "config option"
  u_quota_bytes :: "int option"
  u_cleanup_policy_ids :: "string list option"
  u_blob_store_id :: "string option"
  u_routing_rule_id :: "string option"
  u_allow_anonymous :: bool

definition else_old :: "'a \<Rightarrow> 'a option \<Rightarrow> 'a" where
  "else_old old new = (case new of Some x \<Rightarrow> x | None \<Rightarrow> old)"

definition update_store :: "world \<Rightarrow> repository \<Rightarrow> repo_update \<Rightarrow> string option result" where
  "update_store w r u =
     (case u_blob_store_id u of
        None \<Rightarrow> Inr (r_blob_store_id r)
      | Some ref \<Rightarrow> (case resolve_store w ref 0 of Inl e \<Rightarrow> Inl e | Inr bs \<Rightarrow> Inr (map_option bs_id bs)))"

definition update_rule :: "repository \<Rightarrow> repo_update \<Rightarrow> string option" where
  "update_rule r u =
     (case u_routing_rule_id u of
        None \<Rightarrow> r_routing_rule_id r
      | Some i \<Rightarrow> if trim_space i = [] then None else Some (trim_space i))"

definition update_quota_check :: "world \<Rightarrow> repository \<Rightarrow> unit result" where
  "update_quota_check w r =
     (case (r_quota_bytes r, r_blob_store_id r) of
        (Some _, Some i) \<Rightarrow>
          (case blobs_get_by_id w i 1 of
             Inl e \<Rightarrow> if err_is e ErrNotFound then Inr () else Inl e
           | Inr bs \<Rightarrow> validateRepoQuotaAgainstStore (r_quota_bytes r) bs)
      | _ \<Rightarrow> Inr ())"

text \<open>The row an update asks for, built field by field; only the proxy configuration and the store can refuse it.\<close>

definition apply_update :: "world \<Rightarrow> repository \<Rightarrow> repo_update \<Rightarrow> repository result" where
  "apply_update w r u =
     (let pc = (case u_proxy_config u of None \<Rightarrow> r_proxy_config r | Some c \<Rightarrow> mergeProxyConfig (r_proxy_config r) c)
      in case (if u_proxy_config u \<noteq> None \<and> r_type r = ''proxy'' then validateRemoteURL pc else Inr ()) of
          Inl e \<Rightarrow> Inl e
        | Inr _ \<Rightarrow>
            (case update_store w r u of
               Inl e \<Rightarrow> Inl e
             | Inr st \<Rightarrow> Inr (r\<lparr>r_online := u_online u, r_format_config := else_old (r_format_config r) (u_format_config u),
                 r_proxy_config := pc,
                 r_quota_bytes := (case u_quota_bytes u of None \<Rightarrow> r_quota_bytes r | Some q \<Rightarrow> Some q),
                 r_cleanup_policy_ids := else_old (r_cleanup_policy_ids r) (u_cleanup_policy_ids u),
                 r_blob_store_id := st, r_routing_rule_id := update_rule r u, r_allow_anonymous := u_allow_anonymous u\<rparr>)))"

definition update_checks :: "world \<Rightarrow> cleanup_policy list \<Rightarrow> repository \<Rightarrow> unit result" where
  "update_checks w pols r =
     (case validateCleanupPolicies w pols (r_format r) (r_cleanup_policy_ids r) 0 of
        Inl e \<Rightarrow> Inl e
      | Inr _ \<Rightarrow>
          (case (if r_type r = ''group'' then validateGroupMembers w r else Inr ()) of
             Inl e \<Rightarrow> Inl e
           | Inr _ \<Rightarrow> update_quota_check w r))"

definition Repo_Update ::
    "deps \<Rightarrow> string list \<Rightarrow> cleanup_policy list \<Rightarrow> world \<Rightarrow> string \<Rightarrow> repo_update \<Rightarrow> world \<times> repository result" where
  "Repo_Update d rules pols w name u =
     (case Repo_Get w name of
        Inl e \<Rightarrow> (w, Inl e)
      | Inr r \<Rightarrow>
          (case apply_update w r u of
             Inl e \<Rightarrow> (w, Inl e)
           | Inr r1 \<Rightarrow>
               (case update_checks w pols r1 of
                  Inl e \<Rightarrow> (w, Inl e)
                | Inr _ \<Rightarrow>
                    (case repos_update rules w r1 0 of
                       Inl e \<Rightarrow> (w, Inl e)
                     | Inr w1 \<Rightarrow> (fire d w1 EventRepoUpdated (r_name r1), Inr r1)))))"

definition Repo_Delete :: "deps \<Rightarrow> world \<Rightarrow> string \<Rightarrow> world \<times> unit result" where
  "Repo_Delete d w name =
     (case Repo_Get w name of
        Inl e \<Rightarrow> (w, Inl e)
      | Inr _ \<Rightarrow>
          (case repos_delete w name 0 of
             Inl e \<Rightarrow> (w, Inl e)
           | Inr w1 \<Rightarrow> (fire d w1 EventRepoDeleted name, Inr ())))"

section \<open>The endpoints\<close>

type_synonym 'a reply = "nat \<times> 'a option"

definition status_of :: "bool \<Rightarrow> bool \<Rightarrow> nat \<Rightarrow> err \<Rightarrow> nat" where
  "status_of conflict bad_request not_found e =
     (if conflict \<and> err_is e ErrAlreadyExists then 409
      else if bad_request \<and> err_is e ErrInvalidInput then 400
      else if err_is e ErrNotFound then not_found
      else 500)"

definition List_handler ::
    "bool \<Rightarrow> privilege_source \<Rightarrow> string \<Rightarrow> string list \<Rightarrow> world \<Rightarrow> string \<Rightarrow> string \<Rightarrow> repository list reply" where
  "List_handler anon privs_of userID roles w format repoType =
     (case repos_list w format repoType 0 of
        Inl e \<Rightarrow> (500, None)
      | Inr repos \<Rightarrow> (200, Some (RedactedRepositories (FilterRepos anon privs_of userID roles repos))))"

definition Get_handler ::
    "bool \<Rightarrow> privilege_source \<Rightarrow> string \<Rightarrow> string list \<Rightarrow> world \<Rightarrow> string \<Rightarrow> repository reply" where
  "Get_handler anon privs_of userID roles w name =
     (case Repo_Get w name of
        Inl e \<Rightarrow> (status_of False False 404 e, None)
      | Inr r \<Rightarrow>
          if FilterRepos anon privs_of userID roles [r] = [] then (404, None) else (200, Some (RedactedRepository r)))"

definition Create_handler ::
    "deps \<Rightarrow> string list \<Rightarrow> cleanup_policy list \<Rightarrow> world \<Rightarrow> string \<Rightarrow> string \<Rightarrow> repository \<Rightarrow> world \<times> repository reply" where
  "Create_handler d rules pols w format repoType body =
     (case Repo_Create d rules pols w (body\<lparr>r_format := format, r_type := repoType\<rparr>) of
        (w1, Inl e) \<Rightarrow> (w1, (status_of True True 400 e, None))
      | (w1, Inr r) \<Rightarrow> (w1, (201, Some (RedactedRepository r))))"


definition only_online :: "bool \<Rightarrow> repository \<Rightarrow> repo_update" where
  "only_online b r = \<lparr>u_online = b, u_format_config = None, u_proxy_config = None, u_quota_bytes = None,
     u_cleanup_policy_ids = None, u_blob_store_id = None, u_routing_rule_id = None, u_allow_anonymous = r_allow_anonymous r\<rparr>"

definition Patch_handler ::
    "deps \<Rightarrow> string list \<Rightarrow> cleanup_policy list \<Rightarrow> world \<Rightarrow> string \<Rightarrow> bool \<Rightarrow> world \<times> repository reply" where
  "Patch_handler d rules pols w name online =
     (case Repo_Get w name of
        Inl e \<Rightarrow> (w, (status_of False False 404 e, None))
      | Inr existing \<Rightarrow>
          (case Repo_Update d rules pols w name (only_online online existing) of
             (w1, Inl e) \<Rightarrow> (w1, (status_of False False 404 e, None))
           | (w1, Inr r) \<Rightarrow> (w1, (200, Some (RedactedRepository r)))))"

definition Delete_handler :: "deps \<Rightarrow> world \<Rightarrow> string \<Rightarrow> world \<times> unit reply" where
  "Delete_handler d w name =
     (case Repo_Delete d w name of
        (w1, Inl e) \<Rightarrow> (w1, (status_of False False 404 e, None))
      | (w1, Inr _) \<Rightarrow> (w1, (204, Some ())))"

section \<open>Names the OCI clients can address\<close>

text \<open>The grammar of a path component of an image reference.\<close>

definition alnum_run :: "string \<Rightarrow> bool" where
  "alnum_run s \<longleftrightarrow> s \<noteq> [] \<and> list_all lower_alnum s"

inductive name_tail :: "string \<Rightarrow> bool" where
  name_tail_Nil: "name_tail []"
| name_tail_sep: "separator s \<Longrightarrow> alnum_run a \<Longrightarrow> name_tail r \<Longrightarrow> name_tail (s @ a @ r)"

inductive path_component :: "string \<Rightarrow> bool" where
  path_componentI: "alnum_run a \<Longrightarrow> name_tail r \<Longrightarrow> path_component (a @ r)"









section \<open>Redaction\<close>

lemma map_of_filter_key: "map_of (filter (\<lambda>kv. p (fst kv)) m) k = (if p k then map_of m k else None)"
  by (induction m) auto

lemma map_of_cfg_delete: "map_of (cfg_delete d m) k = (if k = d then None else map_of m k)"
  unfolding cfg_delete_def by (subst map_of_filter_key) simp

lemma map_of_redacted:
  "map_of (redactedConfig cfg sk mk) k =
     (if k = mk then (if any_str (cfg_get cfg sk) \<noteq> [] then Some (AnyBool True) else None)
      else if k = sk then None else map_of cfg k)"
  using map_of_filter_key[of "\<lambda>k. k \<noteq> sk \<and> k \<noteq> mk" cfg k] by (auto simp: redactedConfig_def Let_def)

lemma map_of_merge_secret:
  "map_of (merge_secret stored sk m) k =
     (if k \<noteq> sk then map_of m k
      else case map_of m sk of
          Some pw \<Rightarrow> if any_str pw = [] then None else Some pw
        | None \<Rightarrow> if any_str (cfg_get stored sk) = [] then None else Some (AnyStr (any_str (cfg_get stored sk))))"
  by (auto simp: merge_secret_def map_of_cfg_delete split: option.splits)

lemma secret_keys_distinct:
  "distinct [ProxyPasswordKey, ProxyPasswordSetKey, RemotePasswordKey, RemotePasswordSetKey]"
  by (simp add: secret_keys)

lemma merge_lookup:
  "map_of (mergeProxyConfig stored updates) k =
     (if k = ProxyPasswordSetKey \<or> k = RemotePasswordSetKey then None
      else if k = ProxyPasswordKey \<or> k = RemotePasswordKey then
        (case map_of updates k of
           Some pw \<Rightarrow> if any_str pw = [] then None else Some pw
         | None \<Rightarrow> if any_str (cfg_get stored k) = [] then None else Some (AnyStr (any_str (cfg_get stored k))))
      else map_of updates k)"
  using secret_keys_distinct map_of_filter_key[of "\<lambda>k. k \<noteq> ProxyPasswordSetKey \<and> k \<noteq> RemotePasswordSetKey" updates]
  by (auto simp: mergeProxyConfig_def map_of_merge_secret)

lemma redacted_repository_lookup:
  "map_of (r_proxy_config (RedactedRepository r)) k =
     (if k = ProxyPasswordKey \<or> k = RemotePasswordKey then None
      else if k = ProxyPasswordSetKey then
        (if any_str (cfg_get (r_proxy_config r) ProxyPasswordKey) \<noteq> [] then Some (AnyBool True) else None)
      else if k = RemotePasswordSetKey then
        (if any_str (cfg_get (r_proxy_config r) RemotePasswordKey) \<noteq> [] then Some (AnyBool True) else None)
      else map_of (r_proxy_config r) k)"
  using secret_keys_distinct by (auto simp: RedactedRepository_def Let_def map_of_redacted cfg_get_def)

text \<open>
  C34. A configuration as a reader gets it holds no credential, and sending it back in an update keeps the stored one:
  the credentials stay, every other entry stays, and only the markers go. So an operator who edits a repository without
  the right to see its passwords does not lose them.
\<close>

theorem redacted_update_keeps_credentials:
  "map_of (r_proxy_config (RedactedRepository r)) ProxyPasswordKey = None \<and>
   map_of (r_proxy_config (RedactedRepository r)) RemotePasswordKey = None \<and>
   (let stored = r_proxy_config r; merged = mergeProxyConfig stored (r_proxy_config (RedactedRepository r))
    in any_str (cfg_get merged ProxyPasswordKey) = any_str (cfg_get stored ProxyPasswordKey) \<and>
       any_str (cfg_get merged RemotePasswordKey) = any_str (cfg_get stored RemotePasswordKey) \<and>
       map_of merged ProxyPasswordSetKey = None \<and> map_of merged RemotePasswordSetKey = None \<and>
       map_of merged |` (- {ProxyPasswordKey, ProxyPasswordSetKey, RemotePasswordKey, RemotePasswordSetKey}) =
         map_of stored |` (- {ProxyPasswordKey, ProxyPasswordSetKey, RemotePasswordKey, RemotePasswordSetKey}))"
  using secret_keys_distinct
  by (auto simp: Let_def merge_lookup redacted_repository_lookup cfg_get_def restrict_map_def fun_eq_iff)

section \<open>What every row satisfies\<close>

definition repo_ok :: "repository \<Rightarrow> bool" where
  "repo_ok r \<longleftrightarrow> r_name r \<noteq> [] \<and> r_format r \<in> set known_formats \<and> r_type r \<in> set [''hosted'', ''proxy'', ''group''] \<and>
     (r_type r = ''proxy'' \<longrightarrow> trim_space (any_str (cfg_get (r_proxy_config r) ''remote_url'')) \<noteq> []) \<and>
     (r_type r = ''group'' \<longrightarrow> group_member_names r \<noteq> [] \<and> distinct (group_member_names r)) \<and>
     (is_oci_registry (r_format r) \<longrightarrow> path_component (r_name r) \<and> r_name r \<notin> set reservedV2Names)"

text \<open>The groups that are members of groups.\<close>

definition groups_named :: "world \<Rightarrow> string \<Rightarrow> bool" where
  "groups_named w n \<longleftrightarrow> (\<exists>g\<in>set (w_repos w). r_name g = n \<and> r_type g = ''group'')"

definition nested :: "world \<Rightarrow> (string \<times> string) set" where
  "nested w = {(r_name g, m) | g m. g \<in> set (w_repos w) \<and> r_type g = ''group'' \<and> m \<in> set (group_member_names g) \<and> groups_named w m}"

definition repos_ok :: "world \<Rightarrow> bool" where
  "repos_ok w \<longleftrightarrow> db_ok w \<and> r_id ` set (w_repos w) \<subseteq> w_gen_id w ` {..<w_seq w} \<and>
     (\<forall>r\<in>set (w_repos w). repo_ok r \<and> store_fk_ok w r) \<and> acyclic (nested w)"


subsection \<open>What the validations establish\<close>

lemma repos_get_Inr: "repos_get w name n = Inr r \<Longrightarrow> r \<in> set (w_repos w) \<and> r_name r = name"
  by (auto simp: repos_get_def row_or_not_found_def dest: find_SomeD split: option.splits)


lemma blobs_get_by_id_Inr: "blobs_get_by_id w i n = Inr b \<Longrightarrow> b \<in> set (w_blobs w) \<and> bs_id b = i"
  by (auto simp: blobs_get_by_id_def row_or_not_found_def dest: find_SomeD split: option.splits)

lemma resolve_store_fk: "resolve_store w ref n = Inr (Some bs) \<Longrightarrow> bs_id bs \<in> bs_id ` set (w_blobs w)"
  by (auto simp: resolve_store_def dest: blobs_get_by_id_Inr split: if_splits sum.splits)







lemma create_store_fk: "create_store w r = Inr (Some i) \<Longrightarrow> i \<in> bs_id ` set (w_blobs w)"
  by (auto simp: create_store_def dest: resolve_store_fk split: option.splits sum.splits)


subsection \<open>The invariant under each statement\<close>

lemma repos_ok_fire [simp]: "repos_ok (fire d w ev name) = repos_ok w"
proof -
  have "nested (w\<lparr>w_events := es\<rparr>) = nested w" for es by (simp add: nested_def groups_named_def)
  then show ?thesis by (simp add: fire_def repos_ok_def store_fk_ok_def cong: option.case_cong)
qed








subsection \<open>The operations\<close>











definition plain_deps :: deps where
  "plain_deps = \<lparr>d_registry = True, d_webhooks = True, d_downloads = False, d_scanner = False,
     d_sha256 = (\<lambda>s. s), d_sha1 = (\<lambda>s. s), d_md5 = (\<lambda>s. s), d_user_id = []\<rparr>"

definition fresh_world :: world where
  "fresh_world = empty_world\<lparr>w_gen_id := (\<lambda>n. replicate n CHR ''x'')\<rparr>"

definition request_body :: "string \<Rightarrow> string list \<Rightarrow> repository" where
  "request_body name members = \<lparr>r_id = [], r_name = name, r_format = [], r_type = [], r_blob_store_id = None, r_online = False,
     r_format_config = [(''member_names'', AnyList (map AnyStr members))], r_proxy_config = [], r_cleanup_policy_ids = [],
     r_quota_bytes = None, r_routing_rule_id = None, r_allow_anonymous = False\<rparr>"

definition made :: "string \<Rightarrow> string \<Rightarrow> string list \<Rightarrow> world \<Rightarrow> world" where
  "made repoType name members w = fst (Create_handler plain_deps [] [] w ''docker'' repoType (request_body name members))"






lemma validate_members_missing:
  "m \<in> set names \<Longrightarrow> m \<notin> r_name ` set (w_repos w) \<Longrightarrow>
     \<exists>e. validate_members w g seen names n = Inl e \<and> \<not> err_is e ErrNotFound"
proof (induction w g seen names n rule: validate_members.induct)
  case (2 w g seen name names n)
  show ?case
  proof (cases "repos_get w name n")
    case (Inl e)
    then show ?thesis by auto
  next
    case (Inr r)
    then have "name \<noteq> m" using repos_get_Inr[OF Inr] 2(3) by auto
    then have "m \<in> set names" using 2(2) by simp
    with 2(1)[OF _ Inr] 2(3) Inr show ?thesis by auto
  qed
qed simp

lemma validateCleanupPolicies_err:
  "validateCleanupPolicies w pols f ids n = Inl e \<Longrightarrow> \<not> err_is e ErrNotFound"
proof (induction w pols f ids n rule: validateCleanupPolicies.induct)
  case (2 w pols f i ids n)
  show ?case
  proof (cases "policies_get w pols i n")
    case (Inl e')
    then have "e' = ErrNotFound \<or> e' = ErrIO"
      by (auto simp: policies_get_def guard_io_def row_or_not_found_def split: if_splits option.splits)
    with 2(2) Inl show ?thesis by (auto split: if_splits)
  next
    case (Inr p)
    with 2 show ?thesis by (auto split: if_splits)
  qed
qed simp

text \<open>
  C35. The switch that takes a repository on or off line is refused for a group one of whose members was deleted: the
  whole row is validated again, the request changes nothing and is answered as an internal error, although it touches
  neither the members nor any other setting.
\<close>

theorem switching_group_with_deleted_member_fails:
  assumes "Repo_Get w name = Inr g" and "r_type g = ''group''"
    and "m \<in> set (group_member_names g)" and "m \<notin> r_name ` set (w_repos w)"
  shows "Patch_handler d rules pols w name online = (w, (500, None))"
proof -
  let ?u = "only_online online g"
  have up: "apply_update w g ?u = Inr (g\<lparr>r_online := online\<rparr>)"
    by (simp add: apply_update_def only_online_def update_store_def update_rule_def else_old_def Let_def)
  have gm: "group_member_names (g\<lparr>r_online := online\<rparr>) = group_member_names g" by (simp add: group_member_names_def)
  obtain e where e: "update_checks w pols (g\<lparr>r_online := online\<rparr>) = Inl e" "\<not> err_is e ErrNotFound"
  proof (cases "validateCleanupPolicies w pols (r_format g) (r_cleanup_policy_ids g) 0")
    case (Inl e)
    with that validateCleanupPolicies_err[OF Inl] show ?thesis by (simp add: update_checks_def)
  next
    case (Inr x)
    obtain e where "validate_members w (g\<lparr>r_online := online\<rparr>) [] (group_member_names g) 1 = Inl e" "\<not> err_is e ErrNotFound"
      using validate_members_missing[OF assms(3,4)] by blast
    then have "validateGroupMembers w (g\<lparr>r_online := online\<rparr>) = Inl e" "\<not> err_is e ErrNotFound"
      using assms(3) gm by (auto simp: validateGroupMembers_def)
    with that[of e] Inr assms(2) show ?thesis by (simp add: update_checks_def)
  qed
  have "Repo_Update d rules pols w name ?u = (w, Inl e)"
    by (simp add: Repo_Update_def assms(1) up e)
  then show ?thesis using assms(1) e(2) by (simp add: Patch_handler_def status_of_def)
qed

definition orphaned :: world where
  "orphaned = fst (Delete_handler plain_deps (made ''group'' ''g'' [''a''] (made ''hosted'' ''a'' [] fresh_world)) ''a'')"

theorem switching_group_with_deleted_member_fails_witness:
  "Patch_handler plain_deps [] [] orphaned ''g'' False = (orphaned, (500, None))"
proof -
  have "case Repo_Get orphaned ''g'' of Inl _ \<Rightarrow> False
      | Inr g \<Rightarrow> r_type g = ''group'' \<and> group_member_names g = [''a'']" by code_simp
  then obtain g where "Repo_Get orphaned ''g'' = Inr g" "r_type g = ''group''" "group_member_names g = [''a'']"
    by (cases "Repo_Get orphaned ''g''") auto
  moreover have "''a'' \<notin> set (map r_name (w_repos orphaned))" by code_simp
  ultimately show ?thesis
    using switching_group_with_deleted_member_fails[of orphaned "''g''" g "''a''" plain_deps "[]" "[]" False] by simp
qed

end
