(* ===== verification/Component_Search.thy ===== *)
theory Component_Search
  imports Base_Store RBAC Http_Exchange
begin

text \<open>
  The listings of components and assets, \<^verbatim>\<open>api/handlers/components.go\<close>, with the searches of
  \<^verbatim>\<open>repository/postgres/asset_repo.go\<close> and \<^verbatim>\<open>component_repo.go\<close> they page through: a page is filled with the rows
  the caller may see, and the token of the next page is an offset into the unfiltered rows. The reply is the status
  and, for a listing, its items and token. Download links, which are built from the base URL, are not in the model.
\<close>

section \<open>Searches\<close>

record asset_query =
  aq_repository :: string
  aq_repository_names :: "string list"
  aq_format :: string
  aq_name :: string
  aq_sha256 :: string
  aq_limit :: int
  aq_offset :: int

definition asset_where :: "asset_query \<Rightarrow> asset \<Rightarrow> bool" where
  "asset_where p a \<longleftrightarrow>
     (if aq_repository_names p \<noteq> [] then a_repository a \<in> set (aq_repository_names p)
      else aq_repository p = [] \<or> a_repository a = aq_repository p) \<and>
     (aq_format p = [] \<or> ilike_contains (a_content_type a) (aq_format p)) \<and>
     (aq_name p = [] \<or> ilike_contains (a_path a) (aq_name p)) \<and>
     (aq_sha256 p = [] \<or> a_sha256 a = aq_sha256 p)"

text \<open>The rows the join with \<^verbatim>\<open>repositories\<close> yields, in the order of the database's collation.\<close>

definition joined_assets :: "world \<Rightarrow> asset list" where
  "joined_assets w = map (scan_asset w) (filter (\<lambda>a. repo_by_id w (a_repository_id a) \<noteq> None) (w_assets w))"

definition asset_rows :: "(string \<Rightarrow> string) \<Rightarrow> world \<Rightarrow> asset_query \<Rightarrow> asset list" where
  "asset_rows coll w p = sort_key (\<lambda>a. coll (a_path a)) (filter (asset_where p) (joined_assets w))"

text \<open>A page: one row more than asked for tells whether another page follows.\<close>

definition page_of :: "int \<Rightarrow> int \<Rightarrow> 'a list \<Rightarrow> 'a list \<times> string option" where
  "page_of limit offset rows =
     (let items = take (nat (limit + 1)) (drop (nat offset) rows)
      in if int (length items) > limit then (take (nat limit) items, Some (itoa (i64 (offset + limit)))) else (items, None))"

definition assets_search ::
    "(string \<Rightarrow> string) \<Rightarrow> world \<Rightarrow> asset_query \<Rightarrow> nat \<Rightarrow> (asset list \<times> string option) result" where
  "assets_search coll w p n = guard_io w ''Assets.Search'' (aq_repository p) n
     (let limit = (if aq_limit p \<le> 0 \<or> aq_limit p > 500 then 50 else aq_limit p)
      in Inr (page_of limit (aq_offset p) (asset_rows coll w p)))"

definition maxComponentPageSize :: int where "maxComponentPageSize = 1000"

definition repo_components :: "(string \<Rightarrow> string) \<Rightarrow> world \<Rightarrow> string list \<Rightarrow> component list" where
  "repo_components coll w names =
     by_name_version coll (filter (\<lambda>c. c_repository c \<in> set names) (List.map_filter (comp_repo w) (w_comps w)))"

definition components_list_by_repo_names ::
    "(string \<Rightarrow> string) \<Rightarrow> world \<Rightarrow> string list \<Rightarrow> int \<Rightarrow> int \<Rightarrow> nat \<Rightarrow> (component list \<times> string option) result" where
  "components_list_by_repo_names coll w names limit0 offset n =
     (if names = [] then Inr ([], None)
      else guard_io w ''Components.ListByRepoNames'' [] n
        (let limit1 = (if limit0 \<le> 0 then 25 else limit0);
             limit = (if limit1 > maxComponentPageSize then maxComponentPageSize else limit1)
         in Inr (page_of limit offset (repo_components coll w names))))"

definition assets_list_by_component_ids ::
    "(string \<Rightarrow> string) \<Rightarrow> world \<Rightarrow> string list \<Rightarrow> nat \<Rightarrow> (string \<Rightarrow> asset list) result" where
  "assets_list_by_component_ids coll w ids n = guard_io w ''Assets.ListByComponentIDs'' [] n
     (Inr (\<lambda>i. if i \<in> set ids then sort_key (\<lambda>a. coll (a_path a)) (filter (\<lambda>a. a_component_id a = i) (joined_assets w)) else []))"

section \<open>Pages of what the caller may see\<close>

definition maxFilterScanPages :: nat where "maxFilterScanPages = 10"

text \<open>The loop over one page of rows: the items collected, and where in the page the limit was reached.\<close>

fun take_visible :: "('a \<Rightarrow> bool) \<Rightarrow> int \<Rightarrow> nat \<Rightarrow> 'a list \<Rightarrow> 'a list \<Rightarrow> 'a list \<times> nat option" where
  "take_visible keep limit i [] acc = (acc, None)"
| "take_visible keep limit i (it # its) acc =
     (if \<not> keep it then take_visible keep limit (Suc i) its acc
      else if int (length (acc @ [it])) = limit then (acc @ [it], Some (Suc i))
      else take_visible keep limit (Suc i) its (acc @ [it]))"

fun scan_pages ::
    "nat \<Rightarrow> int \<Rightarrow> (int \<Rightarrow> int \<Rightarrow> ('a list \<times> string option) result) \<Rightarrow> ('a list \<Rightarrow> 'a list) \<Rightarrow> ('a \<Rightarrow> string) \<Rightarrow>
     int \<Rightarrow> 'a list \<Rightarrow> ('a list \<times> string option) result" where
  "scan_pages 0 limit fetch filt ident cur acc = Inr (acc, Some (itoa cur))"
| "scan_pages (Suc n) limit fetch filt ident cur acc =
     (case fetch limit cur of
        Inl e \<Rightarrow> Inl e
      | Inr (items, nxt) \<Rightarrow>
          (case take_visible (\<lambda>it. ident it \<in> ident ` set (filt items)) limit 0 items acc of
             (acc', Some i) \<Rightarrow>
               Inr (acc', if i < length items \<or> nxt \<noteq> None then Some (itoa (i64 (cur + int i))) else None)
           | (acc', None) \<Rightarrow>
               if nxt = None then Inr (acc', None)
               else scan_pages n limit fetch filt ident (i64 (cur + int (length items))) acc'))"

definition drainFilteredPage ::
    "int \<Rightarrow> int \<Rightarrow> (int \<Rightarrow> int \<Rightarrow> ('a list \<times> string option) result) \<Rightarrow> ('a list \<Rightarrow> 'a list) \<Rightarrow> ('a \<Rightarrow> string) \<Rightarrow>
     ('a list \<times> string option) result" where
  "drainFilteredPage limit offset fetch filt ident = scan_pages maxFilterScanPages limit fetch filt ident offset []"

section \<open>The handlers\<close>

text \<open>The access service may be absent; \<open>ch_coll\<close> is the collation of the database.\<close>

record component_handler =
  ch_rbac :: "(bool \<times> privilege_source) option"
  ch_coll :: "string \<Rightarrow> string"

definition expandGroupMemberRepoNames :: "world \<Rightarrow> string \<Rightarrow> string list result" where
  "expandGroupMemberRepoNames w name =
     (if name = [] then Inr []
      else case repos_get w name 500 of
          Inl e \<Rightarrow> if err_is e ErrNotFound then Inr [name] else Inl e
        | Inr rep \<Rightarrow> if r_type rep \<noteq> ''group'' then Inr [name] else Inr (group_member_names rep))"

definition allowAnonMap :: "world \<Rightarrow> string list \<Rightarrow> string \<Rightarrow> bool" where
  "allowAnonMap w names name \<longleftrightarrow>
     name \<in> set names \<and> (case repos_get w name 501 of Inr r \<Rightarrow> r_allow_anonymous r | Inl _ \<Rightarrow> False)"

definition componentFilter :: "component_handler \<Rightarrow> world \<Rightarrow> gin_request \<Rightarrow> component list \<Rightarrow> component list" where
  "componentFilter h w q items =
     (case ch_rbac h of
        None \<Rightarrow> items
      | Some (anon, privs) \<Rightarrow>
          if items = [] then items
          else FilterComponents anon privs (q_user_id q) (q_roles q) items (allowAnonMap w (map c_repository items)))"

definition assetFilter :: "component_handler \<Rightarrow> world \<Rightarrow> gin_request \<Rightarrow> asset list \<Rightarrow> asset list" where
  "assetFilter h w q items =
     (case ch_rbac h of
        None \<Rightarrow> items
      | Some (anon, privs) \<Rightarrow>
          if items = [] then items
          else FilterAssets anon privs (q_user_id q) (q_roles q) items (allowAnonMap w (map a_repository items)))"

definition attachAssets :: "component_handler \<Rightarrow> world \<Rightarrow> component list \<Rightarrow> (component \<times> asset list) list result" where
  "attachAssets h w items =
     (if items = [] then Inr []
      else case assets_list_by_component_ids (ch_coll h) w (map c_id items) 502 of
          Inl e \<Rightarrow> Inl e
        | Inr by_id \<Rightarrow> Inr (map (\<lambda>c. (c, by_id (c_id c))) items))"

type_synonym 'a listing = "nat \<times> ('a list \<times> string option) option"

text \<open>A token that is no number counts as none, and one outside the range of \<^verbatim>\<open>int\<close> as its bound.\<close>

definition search_offset :: "gin_request \<Rightarrow> int" where
  "search_offset q =
     (let tok = query_get (q_query q) ''continuationToken''
      in if tok = [] then 0
         else case atoi tok of
             Some v \<Rightarrow> if v > 0 then v else 0
           | None \<Rightarrow>
               (case parse_nat (if hd tok = CHR ''+'' then tl tok else tok) of Some _ \<Rightarrow> i64_max | None \<Rightarrow> 0))"

definition listing_of :: "('a list \<times> string option) result \<Rightarrow> 'a listing" where
  "listing_of r = (case r of Inl _ \<Rightarrow> (500, None) | Inr page \<Rightarrow> (200, Some page))"

text \<open>The repositories a search names: \<open>None\<close> when it names none, and a group stands for its members.\<close>

definition searched_repos :: "world \<Rightarrow> string \<Rightarrow> string list option result" where
  "searched_repos w name =
     (if name = [] then Inr None
      else case expandGroupMemberRepoNames w name of Inl e \<Rightarrow> Inl e | Inr names \<Rightarrow> Inr (Some names))"

definition asset_query_of :: "gin_request \<Rightarrow> string list option \<Rightarrow> int \<Rightarrow> asset_query" where
  "asset_query_of q names limit =
     \<lparr>aq_repository = [], aq_repository_names = (case names of Some ns \<Rightarrow> ns | None \<Rightarrow> []),
      aq_format = query_get (q_query q) ''format'', aq_name = query_get (q_query q) ''name'',
      aq_sha256 = query_get (q_query q) ''sha256'', aq_limit = limit, aq_offset = search_offset q\<rparr>"

definition SearchAssets :: "component_handler \<Rightarrow> world \<Rightarrow> gin_request \<Rightarrow> asset listing" where
  "SearchAssets h w q =
     (case searched_repos w (query_get (q_query q) ''repository'') of
        Inl e \<Rightarrow> (500, None)
      | Inr names \<Rightarrow>
          if names = Some [] then (200, Some ([], None))
          else
            (let p = asset_query_of q names 50
             in listing_of (drainFilteredPage (aq_limit p) (aq_offset p)
                  (\<lambda>l off. assets_search (ch_coll h) w (p\<lparr>aq_limit := l, aq_offset := off\<rparr>) 503) (assetFilter h w q) a_id)))"

definition component_query_of :: "gin_request \<Rightarrow> string list option \<Rightarrow> search_params" where
  "component_query_of q names =
     \<lparr>sp_repository = [], sp_repository_names = (case names of Some ns \<Rightarrow> ns | None \<Rightarrow> []),
      sp_format = query_get (q_query q) ''format'', sp_group = query_get (q_query q) ''group'',
      sp_name = query_get (q_query q) ''name'', sp_version = query_get (q_query q) ''version'',
      sp_maven_group_id = query_get (q_query q) ''maven.groupId'', sp_maven_artifact_id = query_get (q_query q) ''maven.artifactId'',
      sp_tag = query_get (q_query q) ''tag'', sp_limit = 50, sp_offset = search_offset q\<rparr>"

text \<open>A page of components with their assets, which one more query fetches.\<close>

definition components_reply ::
    "component_handler \<Rightarrow> world \<Rightarrow> (component list \<times> string option) result \<Rightarrow> (component \<times> asset list) listing" where
  "components_reply h w r =
     (case r of
        Inl e \<Rightarrow> (500, None)
      | Inr (items, token) \<Rightarrow> (case attachAssets h w items of Inl e \<Rightarrow> (500, None) | Inr out \<Rightarrow> (200, Some (out, token))))"

definition Search_components :: "component_handler \<Rightarrow> world \<Rightarrow> gin_request \<Rightarrow> (component \<times> asset list) listing" where
  "Search_components h w q =
     (case searched_repos w (query_get (q_query q) ''repository'') of
        Inl e \<Rightarrow> (500, None)
      | Inr names \<Rightarrow>
          if names = Some [] then (200, Some ([], None))
          else
            (let p = component_query_of q names
             in components_reply h w (drainFilteredPage (sp_limit p) (sp_offset p)
                  (\<lambda>l off. components_search (ch_coll h) w (p\<lparr>sp_limit := l, sp_offset := off\<rparr>) 504) (componentFilter h w q) c_id)))"

text \<open>An integer parameter of the listing: the value it has when it satisfies the guard, or what it was.\<close>

definition int_param :: "gin_request \<Rightarrow> string \<Rightarrow> (int \<Rightarrow> bool) \<Rightarrow> int \<Rightarrow> int" where
  "int_param q key ok old =
     (let v = query_get (q_query q) key
      in if v = [] then old else case atoi v of Some n \<Rightarrow> if ok n then n else old | None \<Rightarrow> old)"

definition List_components :: "component_handler \<Rightarrow> world \<Rightarrow> gin_request \<Rightarrow> (component \<times> asset list) listing" where
  "List_components h w q =
     (let repoName = query_get (q_query q) ''repository'';
          limit = int_param q ''limit'' (\<lambda>v. v > 0) 25;
          offset = int_param q ''continuationToken'' (\<lambda>v. v \<ge> 0) (int_param q ''offset'' (\<lambda>v. v \<ge> 0) 0)
      in if repoName = [] then (400, None)
         else case expandGroupMemberRepoNames w repoName of
             Inl e \<Rightarrow> (500, None)
           | Inr names \<Rightarrow>
               if names = [] then (200, Some ([], None))
               else components_reply h w (drainFilteredPage limit offset
                 (\<lambda>l off. components_list_by_repo_names (ch_coll h) w names l off 505) (componentFilter h w q) c_id))"

text \<open>The download by search: where to, or that none or several assets match.\<close>

datatype download_reply = Redirect string string | No_Match | Several | Failed_Search

definition SearchAssetsDownload :: "component_handler \<Rightarrow> world \<Rightarrow> gin_request \<Rightarrow> download_reply" where
  "SearchAssetsDownload h w q =
     (case searched_repos w (query_get (q_query q) ''repository'') of
        Inl e \<Rightarrow> Failed_Search
      | Inr names \<Rightarrow>
          if names = Some [] then No_Match
          else case assets_search (ch_coll h) w (asset_query_of q names 2) 506 of
              Inl e \<Rightarrow> Failed_Search
            | Inr (items, _) \<Rightarrow>
                (case assetFilter h w q items of
                   [] \<Rightarrow> No_Match
                 | [a] \<Rightarrow> Redirect (a_repository a) (a_path a)
                 | _ \<Rightarrow> Several))"

definition Get_component :: "component_handler \<Rightarrow> world \<Rightarrow> gin_request \<Rightarrow> string \<Rightarrow> nat \<times> (component \<times> asset list) option" where
  "Get_component h w q i =
     (case components_get w i 507 of
        Inl e \<Rightarrow> (if err_is e ErrNotFound then 404 else 500, None)
      | Inr c \<Rightarrow>
          (case assets_list_by_component_id w i 507 of
             Inl e \<Rightarrow> (500, None)
           | Inr assets \<Rightarrow> if componentFilter h w q [c] = [] then (404, None) else (200, Some (c, assets))))"

definition Delete_component :: "world \<Rightarrow> string \<Rightarrow> world \<times> nat" where
  "Delete_component w i = (case components_delete w i 508 of Inl e \<Rightarrow> (w, 500) | Inr w1 \<Rightarrow> (w1, 204))"

definition SetTags :: "world \<Rightarrow> string \<Rightarrow> string list \<Rightarrow> world \<times> nat \<times> string list" where
  "SetTags w i tags =
     (let clean = filter (\<lambda>t. t \<noteq> []) (map trim_space tags)
      in case components_set_tags w i clean 509 of Inl e \<Rightarrow> (w, 500, []) | Inr w1 \<Rightarrow> (w1, 200, clean))"

text \<open>The usage and the quota of a repository, with the percentage before its rounding to \<^verbatim>\<open>float64\<close>.\<close>

definition GetQuota :: "component_handler \<Rightarrow> world \<Rightarrow> gin_request \<Rightarrow> string \<Rightarrow> nat \<times> (int \<times> int option \<times> rat option) option" where
  "GetQuota h w q name =
     (case repos_get w name 510 of
        Inl e \<Rightarrow> (if err_is e ErrNotFound then 404 else 500, None)
      | Inr repo \<Rightarrow>
          if (case ch_rbac h of None \<Rightarrow> False | Some (anon, privs) \<Rightarrow> FilterRepos anon privs (q_user_id q) (q_roles q) [repo] = [])
          then (404, None)
          else case assets_sum_size_by_repo w name 510 of
              Inl e \<Rightarrow> (500, None)
            | Inr used \<Rightarrow>
                (200, Some (used, r_quota_bytes repo,
                   case r_quota_bytes repo of Some b \<Rightarrow> if b > 0 then Some (of_int used / of_int b * 100) else None | None \<Rightarrow> None)))"

section \<open>Offset pages\<close>

lemma take_visible_spec:
  "int (length acc) < limit \<Longrightarrow>
   (case take_visible keep limit i its acc of
      (xs, None) \<Rightarrow> xs = acc @ filter keep its \<and> int (length xs) < limit
    | (xs, Some j) \<Rightarrow> \<exists>k. j = i + k \<and> 0 < k \<and> k \<le> length its \<and> xs = acc @ filter keep (take k its) \<and> int (length xs) = limit)"
proof (induction keep limit i its acc rule: take_visible.induct)
  case (2 keep limit i it its acc)
  have later: "case (xs, j) of
      (xs, None) \<Rightarrow> xs = acc @ filter keep (it # its) \<and> int (length xs) < limit
    | (xs, Some j) \<Rightarrow> \<exists>k. j = i + k \<and> 0 < k \<and> k \<le> length (it # its) \<and> xs = acc @ filter keep (take k (it # its)) \<and> int (length xs) = limit"
    if "case (xs, j) of
      (xs, None) \<Rightarrow> xs = acc' @ filter keep its \<and> int (length xs) < limit
    | (xs, Some j) \<Rightarrow> \<exists>k. j = Suc i + k \<and> 0 < k \<and> k \<le> length its \<and> xs = acc' @ filter keep (take k its) \<and> int (length xs) = limit"
      and "acc' = (if keep it then acc @ [it] else acc)" for xs j acc'
  proof (cases j)
    case (Some m)
    with that(1) obtain k where "m = Suc i + k" "k \<le> length its" "xs = acc' @ filter keep (take k its)" "int (length xs) = limit" by auto
    with Some that(2) show ?thesis by (auto intro!: exI[of _ "Suc k"])
  qed (use that in auto)
  consider (skip) "\<not> keep it" | (full) "keep it" "int (length (acc @ [it])) = limit" | (more) "keep it" "int (length (acc @ [it])) \<noteq> limit"
    by blast
  then show ?case
  proof cases
    case skip
    obtain xs j where t: "take_visible keep limit (Suc i) its acc = (xs, j)" by force
    from later[OF 2(1)[OF skip 2(3), unfolded t]] skip t show ?thesis by simp
  next
    case full
    then show ?thesis by (auto intro!: exI[where x = 1])
  next
    case more
    then have lt: "int (length (acc @ [it])) < limit" using 2(3) by simp
    obtain xs j where t: "take_visible keep limit (Suc i) its (acc @ [it]) = (xs, j)" by force
    from later[OF 2(2)[OF _ more(2) lt, unfolded t]] more t show ?thesis by simp
  qed
qed simp

lemma take_visible_cong:
  "(\<And>x. x \<in> set its \<Longrightarrow> keep x = keep' x) \<Longrightarrow> take_visible keep limit i its acc = take_visible keep' limit i its acc"
  by (induction its arbitrary: i acc) simp_all

lemma page_of_nat:
  assumes "0 < limit" "int (length rows) \<le> i64_max" "c \<le> length rows"
  shows "page_of limit (int c) rows =
    (take (nat limit) (drop c rows), if length rows > c + nat limit then Some (itoa (int (c + nat limit))) else None)"
proof -
  have n: "nat (limit + 1) = Suc (nat limit)" using assms(1) by (simp add: nat_add_distrib)
  have len: "length (take (nat (limit + 1)) (drop c rows)) = min (Suc (nat limit)) (length rows - c)" unfolding n by simp
  show ?thesis
  proof (cases "length rows > c + nat limit")
    case True
    then have "int (c + nat limit) \<le> i64_max" using assms(2) by linarith
    then have "i64 (int c + limit) = int (c + nat limit)" using assms(1) by (simp add: i64_id in_i64I)
    moreover have "int (length (take (nat (limit + 1)) (drop c rows))) > limit" unfolding len using True assms(1) by linarith
    ultimately show ?thesis using True by (simp add: page_of_def Let_def n min_def)
  next
    case False
    then have "\<not> int (length (take (nat (limit + 1)) (drop c rows))) > limit" unfolding len using assms(1) by linarith
    moreover have "take (nat (limit + 1)) (drop c rows) = take (nat limit) (drop c rows)" using False by (simp add: n)
    ultimately show ?thesis using False by (simp add: page_of_def Let_def)
  qed
qed

text \<open>
  What the paging code asks of a search: in a calm state \<open>s\<close> it returns the page at an offset into fixed rows,
  whose length is the limit or what the search makes of it, and the rows are told apart by their ids.
\<close>

locale paged_rows =
  fixes calm :: "'s \<Rightarrow> bool" and fetch :: "'s \<Rightarrow> int \<Rightarrow> int \<Rightarrow> ('a list \<times> string option) result"
    and rows :: "'s \<Rightarrow> 'a list" and ident :: "'a \<Rightarrow> string" and cap :: "int \<Rightarrow> int"
  assumes page: "calm s \<Longrightarrow> 0 < l \<Longrightarrow> fetch s l off = Inr (page_of (cap l) off (rows s))"
    and cap_pos: "0 < l \<Longrightarrow> 0 < cap l"
    and distinct_rows: "calm s \<Longrightarrow> inj_on ident (set (rows s))"
    and few: "calm s \<Longrightarrow> int (length (rows s)) \<le> i64_max"

context paged_rows
begin

lemma scan_pages_spec:
  assumes "calm s" "0 < limit" and filt: "\<And>xs. set xs \<subseteq> set (rows s) \<Longrightarrow> filt xs = filter P xs"
  shows "c \<le> length (rows s) \<Longrightarrow> int (length acc) < limit \<Longrightarrow>
    \<exists>xs tok. scan_pages n limit (fetch s) filt ident (int c) acc = Inr (xs, tok) \<and> int (length xs) \<le> limit \<and>
      (case tok of
         None \<Rightarrow> xs = acc @ filter P (drop c (rows s))
       | Some t \<Rightarrow> \<exists>k. t = itoa (int (c + k)) \<and> c + k \<le> length (rows s) \<and> (0 < n \<longrightarrow> 0 < k) \<and>
           xs = acc @ filter P (take k (drop c (rows s))) \<and> (int (length xs) = limit \<or> k = n * nat (cap limit)))"
proof (induction n arbitrary: c acc)
  case (Suc n)
  define L where "L = nat (cap limit)"
  define its where "its = take L (drop c (rows s))"
  define more where "more = (length (rows s) > c + L)"
  have L: "0 < L" using cap_pos[OF assms(2)] by (simp add: L_def)
  have f: "fetch s limit (int c) = Inr (its, if more then Some (itoa (int (c + L))) else None)"
    unfolding page[OF assms(1,2)] page_of_nat[OF cap_pos[OF assms(2)] few[OF assms(1)] Suc(2)] its_def more_def L_def ..
  have sub: "set its \<subseteq> set (rows s)" by (auto simp: its_def dest: in_set_takeD in_set_dropD)
  have inj: "inj_on ident (set its)" using distinct_rows[OF assms(1)] sub by (rule inj_on_subset)
  have keep: "(ident x \<in> ident ` set (filt its)) = P x" if "x \<in> set its" for x
    using that inj unfolding filt[OF sub] by (auto dest: inj_onD)
  have tv: "take_visible (\<lambda>it. ident it \<in> ident ` set (filt its)) limit 0 its acc = take_visible P limit 0 its acc"
    by (rule take_visible_cong) (rule keep)
  have all: "its = drop c (rows s)" if "\<not> more" using that by (simp add: its_def more_def)
  show ?case
  proof (cases "take_visible P limit 0 its acc")
    case (Pair xs j)
    note spec = take_visible_spec[where keep = P and i = 0 and its = its, OF Suc(3), unfolded Pair]
    show ?thesis
    proof (cases j)
      case (Some k)
      with spec have k: "0 < k" "k \<le> length its" "xs = acc @ filter P (take k its)" "int (length xs) = limit" by auto
      have kL: "k \<le> L" "c + k \<le> length (rows s)" using k(2) Suc(2) by (auto simp: its_def)
      then have i: "i64 (int c + int k) = int (c + k)" using few[OF assms(1)] by (simp add: i64_id in_i64I)
      have tk: "take k its = take k (drop c (rows s))" using kL by (simp add: its_def min_def)
      have run: "scan_pages (Suc n) limit (fetch s) filt ident (int c) acc =
          Inr (xs, if k < length its \<or> more then Some (itoa (int (c + k))) else None)"
        using f tv Pair Some i by auto
      show ?thesis
      proof (cases "k < length its \<or> more")
        case True
        with run k kL tk show ?thesis by auto
      next
        case False
        with all k(2) have "take k its = drop c (rows s)" by simp
        with False run k show ?thesis by auto
      qed
    next
      case None
      with spec have xs: "xs = acc @ filter P its" "int (length xs) < limit" by auto
      show ?thesis
      proof (cases more)
        case False
        with all xs f tv Pair None show ?thesis by auto
      next
        case True
        then have len: "length its = L" and le: "c + L \<le> length (rows s)" by (auto simp: its_def more_def)
        have i: "i64 (int c + int L) = int (c + L)" using few[OF assms(1)] le by (simp add: i64_id in_i64I)
        have run: "scan_pages (Suc n) limit (fetch s) filt ident (int c) acc =
            scan_pages n limit (fetch s) filt ident (int (c + L)) xs"
          using f tv Pair None True i len by simp
        from Suc(1)[OF le xs(2)] obtain ys tok where ih: "scan_pages n limit (fetch s) filt ident (int (c + L)) xs = Inr (ys, tok)"
          "int (length ys) \<le> limit"
          "case tok of None \<Rightarrow> ys = xs @ filter P (drop (c + L) (rows s))
           | Some t \<Rightarrow> \<exists>k. t = itoa (int (c + L + k)) \<and> c + L + k \<le> length (rows s) \<and> (0 < n \<longrightarrow> 0 < k) \<and>
               ys = xs @ filter P (take k (drop (c + L) (rows s))) \<and> (int (length ys) = limit \<or> k = n * nat (cap limit))" by blast
        have split: "its @ drop (c + L) (rows s) = drop c (rows s)"
          unfolding its_def by (metis append_take_drop_id drop_drop add.commute)
        have splitk: "its @ take k (drop (c + L) (rows s)) = take (L + k) (drop c (rows s))" for k
          unfolding its_def by (simp add: take_add add.commute)
        show ?thesis
        proof (cases tok)
          case None
          then have "ys = acc @ filter P (its @ drop (c + L) (rows s))" using ih(3) xs(1) by simp
          then have "ys = acc @ filter P (drop c (rows s))" unfolding split .
          with None ih(1,2) run show ?thesis by (intro exI[of _ ys] exI[of _ None]) simp
        next
          case (Some t)
          with ih(3) obtain k where k: "t = itoa (int (c + L + k))" "c + L + k \<le> length (rows s)"
            "ys = xs @ filter P (take k (drop (c + L) (rows s)))" "int (length ys) = limit \<or> k = n * nat (cap limit)" by auto
          have "ys = acc @ filter P (take (L + k) (drop c (rows s)))"
            unfolding k(3) xs(1) splitk[symmetric] by simp
          moreover have "int (length ys) = limit \<or> L + k = Suc n * nat (cap limit)" using k(4) by (auto simp: L_def)
          ultimately have "\<exists>j. t = itoa (int (c + j)) \<and> c + j \<le> length (rows s) \<and> 0 < j \<and>
              ys = acc @ filter P (take j (drop c (rows s))) \<and> (int (length ys) = limit \<or> j = Suc n * nat (cap limit))"
            using k(1,2) L by (intro exI[of _ "L + k"]) (simp add: add.assoc)
          with Some run ih(1,2) show ?thesis by auto
        qed
      qed
    qed
  qed
qed simp

lemma drained_page:
  assumes "calm s" "0 < limit" "c \<le> length (rows s)" and "\<And>xs. set xs \<subseteq> set (rows s) \<Longrightarrow> filt xs = filter P xs"
  obtains xs where "drainFilteredPage limit (int c) (fetch s) filt ident = Inr (xs, None)" "xs = filter P (drop c (rows s))"
      "int (length xs) \<le> limit"
  | xs k where "drainFilteredPage limit (int c) (fetch s) filt ident = Inr (xs, Some (itoa (int (c + k))))" "0 < k"
      "c + k \<le> length (rows s)" "xs = filter P (take k (drop c (rows s)))" "int (length xs) \<le> limit"
      "int (length xs) = limit \<or> k = maxFilterScanPages * nat (cap limit)"
proof -
  have pos: "0 < maxFilterScanPages" by (simp add: maxFilterScanPages_def)
  have start: "int (length []) < limit" using assms(2) by simp
  obtain xs tok where r: "drainFilteredPage limit (int c) (fetch s) filt ident = Inr (xs, tok)" "int (length xs) \<le> limit"
    and tok: "case tok of None \<Rightarrow> xs = [] @ filter P (drop c (rows s))
       | Some t \<Rightarrow> \<exists>k. t = itoa (int (c + k)) \<and> c + k \<le> length (rows s) \<and> (0 < maxFilterScanPages \<longrightarrow> 0 < k) \<and>
           xs = [] @ filter P (take k (drop c (rows s))) \<and> (int (length xs) = limit \<or> k = maxFilterScanPages * nat (cap limit))"
    using scan_pages_spec[OF assms(1,2,4,3) start, of maxFilterScanPages] unfolding drainFilteredPage_def by blast
  show thesis
  proof (cases tok)
    case None
    then have "xs = filter P (drop c (rows s))" using tok by simp
    with that(1) r None show thesis by blast
  next
    case (Some t)
    with tok pos obtain k where "t = itoa (int (c + k))" "c + k \<le> length (rows s)" "0 < k"
      "xs = filter P (take k (drop c (rows s)))" "int (length xs) = limit \<or> k = maxFilterScanPages * nat (cap limit)" by auto
    with that(2) r Some show thesis by blast
  qed
qed

end

section \<open>The searches of the database\<close>

definition quiet :: "world \<Rightarrow> bool" where
  "quiet w \<longleftrightarrow> w_fault w = no_faults \<and> db_ok w \<and> int (length (w_assets w)) \<le> i64_max \<and> int (length (w_comps w)) \<le> i64_max"

lemma scan_asset_id [simp]: "a_id (scan_asset w a) = a_id a" "a_path (scan_asset w a) = a_path a"
  by (simp_all add: scan_asset_def split: option.splits)

lemma asset_rows_page [simp]: "asset_rows coll w (p\<lparr>aq_limit := l, aq_offset := n\<rparr>) = asset_rows coll w p"
  by (simp add: asset_rows_def asset_where_def cong: filter_cong)

lemma set_asset_rows: "set (asset_rows coll w p) = {a \<in> scan_asset w ` set (w_assets w). asset_where p a \<and> repo_by_id w (a_repository_id a) \<noteq> None}"
proof -
  have "a_repository_id (scan_asset w a) = a_repository_id a" for a by (simp add: scan_asset_def split: option.splits)
  then show ?thesis by (auto simp: asset_rows_def joined_assets_def)
qed

lemma length_asset_rows: "length (asset_rows coll w p) \<le> length (w_assets w)"
proof -
  have "length (asset_rows coll w p) \<le> length (joined_assets w)" by (simp add: asset_rows_def)
  also have "\<dots> \<le> length (w_assets w)" by (simp add: joined_assets_def)
  finally show ?thesis .
qed

lemma asset_rows_distinct:
  assumes "db_ok w"
  shows "inj_on a_id (set (asset_rows coll w p))"
proof -
  have "inj_on a_id (set (w_assets w))" using assms by (simp add: db_ok_def distinct_map)
  then show ?thesis by (auto simp: inj_on_def set_asset_rows)
qed

lemma distinct_asset_rows: "db_ok w \<Longrightarrow> distinct (map a_id (asset_rows coll w p))"
proof -
  assume "db_ok w"
  then have "distinct (map a_id (w_assets w))" by (simp add: db_ok_def)
  then have "distinct (map a_id (filter (asset_where p) (joined_assets w)))"
    by (auto simp: joined_assets_def o_def intro!: distinct_map_filter)
  then show ?thesis using asset_rows_distinct[OF \<open>db_ok w\<close>, of coll p]
    by (simp add: asset_rows_def distinct_map)
qed

interpretation asset_pages: paged_rows "\<lambda>(coll, w, p). quiet w" "\<lambda>(coll, w, p) l off. assets_search coll w (p\<lparr>aq_limit := l, aq_offset := off\<rparr>) 503"
    "\<lambda>(coll, w, p). asset_rows coll w p" a_id "\<lambda>l. if l > 500 then 50 else l"
proof (unfold_locales, goal_cases)
  case (1 s l off)
  then show ?case by (auto simp: assets_search_def quiet_def guard_io_def split: prod.splits)
next
  case (3 s)
  then show ?case using asset_rows_distinct by (auto simp: quiet_def split: prod.splits)
next
  case (4 s)
  then show ?case by (cases s) (auto simp: quiet_def intro!: order_trans[OF of_nat_mono[OF length_asset_rows]])
qed simp

definition comp_rows :: "(string \<Rightarrow> string) \<Rightarrow> world \<Rightarrow> (component \<Rightarrow> bool) \<Rightarrow> component list" where
  "comp_rows coll w p = by_name_version coll (filter p (List.map_filter (comp_repo w) (w_comps w)))"

lemma length_map_filter: "length (List.map_filter f xs) \<le> length xs"
  by (induction xs) (auto simp: List.map_filter_simps split: option.splits)

lemma length_comp_rows: "length (comp_rows coll w p) \<le> length (w_comps w)"
proof -
  have "length (comp_rows coll w p) \<le> length (List.map_filter (comp_repo w) (w_comps w))" by (simp add: comp_rows_def by_name_version_def)
  also have "\<dots> \<le> length (w_comps w)" by (rule length_map_filter)
  finally show ?thesis .
qed

lemma comp_repo_id: "comp_repo w c = Some c' \<Longrightarrow> c_id c' = c_id c"
  by (auto simp: comp_repo_def)

lemma map_filter_ids: "set (List.map_filter (comp_repo w) cs) \<subseteq> {c'. \<exists>c \<in> set cs. comp_repo w c = Some c'}"
  by (induction cs) (auto simp: List.map_filter_simps split: option.splits)

lemma comp_rows_distinct:
  assumes "db_ok w"
  shows "inj_on c_id (set (comp_rows coll w p))"
proof (rule inj_onI)
  have sub: "set (comp_rows coll w p) \<subseteq> {c'. \<exists>c \<in> set (w_comps w). comp_repo w c = Some c'}"
    using map_filter_ids[of w "w_comps w"] by (auto simp: comp_rows_def by_name_version_def)
  fix x y assume x: "x \<in> set (comp_rows coll w p)" and y: "y \<in> set (comp_rows coll w p)" and eq: "c_id x = c_id y"
  from subsetD[OF sub x] subsetD[OF sub y] obtain c d
    where cd: "c \<in> set (w_comps w)" "comp_repo w c = Some x" "d \<in> set (w_comps w)" "comp_repo w d = Some y" by blast
  have "inj_on c_id (set (w_comps w))" using assms by (simp add: db_ok_def distinct_map)
  moreover have "c_id c = c_id d" using eq cd comp_repo_id by metis
  ultimately have "c = d" using cd(1,3) by (auto dest: inj_onD)
  with cd show "x = y" by simp
qed

interpretation component_pages: paged_rows "\<lambda>(coll, w, p). quiet w"
    "\<lambda>(coll, w, p) l off. components_search coll w (p\<lparr>sp_limit := l, sp_offset := off\<rparr>) 504"
    "\<lambda>(coll, w, p). comp_rows coll w (search_where p)" c_id clamp_limit
proof (unfold_locales, goal_cases)
  case (1 s l off)
  have "search_where (p\<lparr>sp_limit := l, sp_offset := off\<rparr>) = search_where p" for p by (simp add: search_where_def fun_eq_iff)
  with 1 show ?case
    by (auto simp: components_search_def comp_rows_def page_of_def quiet_def guard_io_def Let_def split: prod.splits)
next
  case (2 l)
  then show ?case by (simp add: clamp_limit_def)
next
  case (3 s)
  then show ?case using comp_rows_distinct by (auto simp: quiet_def split: prod.splits)
next
  case (4 s)
  then show ?case by (cases s) (auto simp: quiet_def intro!: order_trans[OF of_nat_mono[OF length_comp_rows]])
qed

interpretation listed_pages: paged_rows "\<lambda>(coll, w, names). quiet w \<and> names \<noteq> []"
    "\<lambda>(coll, w, names) l off. components_list_by_repo_names coll w names l off 505"
    "\<lambda>(coll, w, names). comp_rows coll w (\<lambda>c. c_repository c \<in> set names)" c_id
    "\<lambda>l. if l > maxComponentPageSize then maxComponentPageSize else l"
proof (unfold_locales, goal_cases)
  case (1 s l off)
  then show ?case
    by (auto simp: components_list_by_repo_names_def repo_components_def comp_rows_def quiet_def guard_io_def Let_def split: prod.splits)
next
  case (2 l)
  then show ?case by (simp add: maxComponentPageSize_def)
next
  case (3 s)
  then show ?case using comp_rows_distinct by (auto simp: quiet_def split: prod.splits)
next
  case (4 s)
  then show ?case by (cases s) (auto simp: quiet_def intro!: order_trans[OF of_nat_mono[OF length_comp_rows]])
qed

section \<open>A client that follows the tokens\<close>

definition with_token :: "gin_request \<Rightarrow> string \<Rightarrow> gin_request" where
  "with_token q tok = q\<lparr>q_query := (''continuationToken'', tok) # q_query q\<rparr>"

text \<open>\<open>Inl\<close> is the status of a reply that is no page; not to end would be \<open>None\<close>.\<close>

partial_function (option) list_assets ::
    "component_handler \<Rightarrow> world \<Rightarrow> gin_request \<Rightarrow> string \<Rightarrow> (nat + asset list) option" where
  "list_assets h w q tok =
     (case SearchAssets h w (with_token q tok) of
        (status, None) \<Rightarrow> Some (Inl status)
      | (status, Some (items, None)) \<Rightarrow> Some (Inr items)
      | (status, Some (items, Some t)) \<Rightarrow>
          Option.bind (list_assets h w q t) (\<lambda>r. Some (map_sum id (append items) r)))"

definition asset_visible :: "component_handler \<Rightarrow> world \<Rightarrow> gin_request \<Rightarrow> asset \<Rightarrow> bool" where
  "asset_visible h w q a \<longleftrightarrow> assetFilter h w q [a] \<noteq> []"

lemma assetFilter_filter: "assetFilter h w q xs = filter (asset_visible h w q) xs"
proof (cases "ch_rbac h")
  case (Some r)
  obtain anon privs where r: "r = (anon, privs)" by force
  have "allowAnonMap w (map a_repository xs) (a_repository a) = allowAnonMap w (map a_repository [a]) (a_repository a)" if "a \<in> set xs" for a
    using that by (auto simp: allowAnonMap_def)
  then show ?thesis using Some r
    by (auto simp: assetFilter_def asset_visible_def[abs_def] FilterAssets_def intro!: filter_cong)
qed (simp add: assetFilter_def asset_visible_def[abs_def])

lemma search_offset_token:
  assumes "in_i64 (int c)"
  shows "search_offset (with_token q (itoa (int c))) = int c" "search_offset (with_token q []) = 0"
proof -
  have "itoa (int c) \<noteq> []" using atoi_itoa[OF assms] by (auto simp: atoi_def)
  then show "search_offset (with_token q (itoa (int c))) = int c" "search_offset (with_token q []) = 0"
    using atoi_itoa[OF assms] by (auto simp: search_offset_def with_token_def query_get_def Let_def)
qed

lemma query_of_token:
  "query_get (q_query (with_token q tok)) k = (if k = ''continuationToken'' then tok else query_get (q_query q) k)"
  by (simp add: with_token_def query_get_def)

lemma assetFilter_token: "assetFilter h w (with_token q tok) = assetFilter h w q"
  by (auto simp: assetFilter_def with_token_def fun_eq_iff split: option.split)

lemma asset_query_token:
  "asset_rows coll w (asset_query_of (with_token q tok) names l) = asset_rows coll w (asset_query_of q names l)"
  by (simp add: asset_rows_def asset_query_of_def asset_where_def query_of_token cong: filter_cong)

text \<open>What the search without a page limit would show: the matching rows, in the order of the listing.\<close>

definition matching_assets :: "component_handler \<Rightarrow> world \<Rightarrow> gin_request \<Rightarrow> asset list" where
  "matching_assets h w q =
     (case searched_repos w (query_get (q_query q) ''repository'') of
        Inl _ \<Rightarrow> []
      | Inr names \<Rightarrow> if names = Some [] then [] else asset_rows (ch_coll h) w (asset_query_of q names 50))"

lemma searched_repos_quiet: "quiet w \<Longrightarrow> \<exists>names. searched_repos w name = Inr names"
  by (auto simp: searched_repos_def expandGroupMemberRepoNames_def repos_get_def guard_io_def row_or_not_found_def quiet_def
      split: option.splits sum.splits)

lemma SearchAssets_page:
  assumes "quiet w" "search_offset q = int c" "c \<le> length (matching_assets h w q)"
  shows "\<exists>xs tok. SearchAssets h w q = (200, Some (xs, tok)) \<and> length xs \<le> 50 \<and>
    (case tok of None \<Rightarrow> xs = filter (asset_visible h w q) (drop c (matching_assets h w q))
     | Some t \<Rightarrow> \<exists>k. t = itoa (int (c + k)) \<and> 0 < k \<and> c + k \<le> length (matching_assets h w q) \<and>
         xs = filter (asset_visible h w q) (take k (drop c (matching_assets h w q))) \<and> (length xs = 50 \<or> k = 500))"
proof -
  obtain names where n: "searched_repos w (query_get (q_query q) ''repository'') = Inr names" using searched_repos_quiet[OF assms(1)] by blast
  show ?thesis
  proof (cases "names = Some []")
    case True
    with n show ?thesis by (simp add: SearchAssets_def matching_assets_def)
  next
    case False
    define p where "p = asset_query_of q names 50"
    have rows: "matching_assets h w q = asset_rows (ch_coll h) w p" using n False by (simp add: matching_assets_def p_def)
    have run: "SearchAssets h w q = listing_of (drainFilteredPage 50 (int c)
        (\<lambda>l off. assets_search (ch_coll h) w (p\<lparr>aq_limit := l, aq_offset := off\<rparr>) 503) (assetFilter h w q) a_id)"
      using n False assms(2) by (simp add: SearchAssets_def p_def asset_query_of_def Let_def)
    have c: "c \<le> length (asset_rows (ch_coll h) w p)" using assms(3) rows by simp
    note page = asset_pages.drained_page[of "(ch_coll h, w, p)" 50 c "assetFilter h w q" "asset_visible h w q", simplified,
        OF assms(1) c assetFilter_filter]
    show ?thesis unfolding rows
      by (rule page) (auto simp: run listing_of_def maxFilterScanPages_def)
  qed
qed

lemma list_assets_from:
  assumes "quiet w"
  shows "search_offset (with_token q tok) = int c \<Longrightarrow> c \<le> length (matching_assets h w q) \<Longrightarrow>
    list_assets h w q tok = Some (Inr (filter (asset_visible h w q) (drop c (matching_assets h w q))))"
proof (induction "length (matching_assets h w q) - c" arbitrary: c tok rule: less_induct)
  case less
  have same: "matching_assets h w (with_token q tok) = matching_assets h w q" for tok
    by (simp add: matching_assets_def query_of_token asset_query_token split: sum.split)
  have vis: "asset_visible h w (with_token q tok) = asset_visible h w q" for tok
    by (simp add: asset_visible_def fun_eq_iff assetFilter_token)
  obtain xs t where pg: "SearchAssets h w (with_token q tok) = (200, Some (xs, t))"
    and t: "case t of None \<Rightarrow> xs = filter (asset_visible h w q) (drop c (matching_assets h w q))
     | Some t \<Rightarrow> \<exists>k. t = itoa (int (c + k)) \<and> 0 < k \<and> c + k \<le> length (matching_assets h w q) \<and>
         xs = filter (asset_visible h w q) (take k (drop c (matching_assets h w q))) \<and> (length xs = 50 \<or> k = 500)"
    using SearchAssets_page[OF assms less(2), of h] less(3) unfolding same vis by blast
  show ?case
  proof (cases t)
    case None
    with pg t show ?thesis by (subst list_assets.simps) simp
  next
    case (Some t')
    with t obtain k where k: "t' = itoa (int (c + k))" "0 < k" "c + k \<le> length (matching_assets h w q)"
      "xs = filter (asset_visible h w q) (take k (drop c (matching_assets h w q)))" by auto
    have "int (length (matching_assets h w q)) \<le> i64_max"
    proof -
      have "length (matching_assets h w q) \<le> length (w_assets w)"
        using length_asset_rows by (auto simp: matching_assets_def split: sum.splits)
      moreover have "int (length (w_assets w)) \<le> i64_max" using assms by (simp add: quiet_def)
      ultimately show ?thesis by linarith
    qed
    with k(3) have "in_i64 (int (c + k))" by (simp add: in_i64I)
    from less(1)[OF _ search_offset_token(1)[OF this, folded k(1)] k(3)] k(2,3)
    have "list_assets h w q t' = Some (Inr (filter (asset_visible h w q) (drop (c + k) (matching_assets h w q))))" by simp
    then have "list_assets h w q tok = Some (Inr (xs @ filter (asset_visible h w q) (drop (c + k) (matching_assets h w q))))"
      using pg Some by (subst list_assets.simps) simp
    moreover have "take k (drop c (matching_assets h w q)) @ drop (c + k) (matching_assets h w q) = drop c (matching_assets h w q)"
      by (metis append_take_drop_id drop_drop add.commute)
    ultimately show ?thesis using k(4) by (metis filter_append)
  qed
qed

text \<open>
  C39. While no call fails and the database does not change, following the tokens of the asset search from its first
  page ends, and what the pages hold together is every matching asset the caller may see, each once and in the
  order of the listing, and nothing the caller may not see: neither the offsets, which count rows the caller
  cannot see, nor the bound on the rows one request scans loses or repeats a row. The statement orders by path
  only, so this is about matches of different paths: assets of the same path in several repositories may change places
  between two pages.
\<close>

theorem asset_listing_complete:
  assumes "quiet w" and ordered: "distinct (map (\<lambda>a. ch_coll h (a_path a)) (matching_assets h w q))"
  shows "list_assets h w q [] = Some (Inr (filter (asset_visible h w q) (matching_assets h w q))) \<and>
    distinct (map a_id (filter (asset_visible h w q) (matching_assets h w q)))"
proof
  show "list_assets h w q [] = Some (Inr (filter (asset_visible h w q) (matching_assets h w q)))"
    using list_assets_from[OF assms(1), where q = q and tok = "[]" and c = 0 and h = h] search_offset_token(2)[where c = 0 and q = q]
    by (simp add: i64_min_def i64_max_def)
  have "distinct (map a_id (matching_assets h w q))"
    using assms by (auto simp: matching_assets_def quiet_def distinct_asset_rows split: sum.splits)
  then show "distinct (map a_id (filter (asset_visible h w q) (matching_assets h w q)))" by (rule distinct_map_filter)
qed

definition listing_world :: world where
  "listing_world = demo_world\<lparr>w_repos := [demo_repo, demo_repo\<lparr>r_id := ''r2'', r_name := ''pub'', r_allow_anonymous := True\<rparr>],
     w_comps := [demo_comp, demo_comp\<lparr>c_id := ''xxxx'', c_repository_id := ''r2''\<rparr>],
     w_assets := [demo_asset ''xx'' ''a.txt'', demo_asset ''xxx'' ''b.txt'',
       (demo_asset ''xxxxx'' ''c.txt'')\<lparr>a_repository_id := ''r2'', a_component_id := ''xxxx''\<rparr>], w_seq := 5\<rparr>"

definition listing_handler :: component_handler where
  "listing_handler = \<lparr>ch_rbac = Some (True, \<lambda>_. Inr []), ch_coll = (\<lambda>s. s)\<rparr>"

definition anonymous_search :: gin_request where
  "anonymous_search = \<lparr>q_method = ''GET'', q_repo = [], q_path = [], q_url_path = [], q_escaped_path = [],
     q_query = [], q_headers = [], q_content_type = [], q_content_length = 0, q_body = ([], None),
     q_user_id = [], q_roles = []\<rparr>"

lemma listing_world_quiet: "quiet listing_world"
proof -
  have five: "{..<Suc (Suc (Suc (Suc (Suc 0))))} = {0, 1, 2, 3, 4}" by auto
  have "db_ok listing_world"
    using inj_replicate[of "CHR ''x''"] unfolding db_ok_def listing_world_def
    by (simp add: five demo_world_def demo_store_def demo_repo_def demo_comp_def demo_asset_def
        new_component_def new_asset_def numeral_eq_Suc)
  then show ?thesis by (simp add: quiet_def listing_world_def demo_world_def i64_max_def)
qed

definition listed_assets :: "asset list" where
  "listed_assets = [demo_asset ''xx'' ''a.txt'', demo_asset ''xxx'' ''b.txt'',
     (demo_asset ''xxxxx'' ''c.txt'')\<lparr>a_repository_id := ''r2'', a_component_id := ''xxxx'', a_repository := ''pub''\<rparr>]"

lemmas listing_scene = listing_world_def demo_world_def demo_repo_def demo_asset_def repo_by_id_def new_asset_def scan_asset_def

lemma anonymous_query: "asset_query_of anonymous_search None n =
    \<lparr>aq_repository = [], aq_repository_names = [], aq_format = [], aq_name = [], aq_sha256 = [], aq_limit = n, aq_offset = 0\<rparr>"
  by (simp add: asset_query_of_def anonymous_search_def query_get_def search_offset_def)

lemma anonymous_rows: "asset_rows (\<lambda>s. s) listing_world (asset_query_of anonymous_search None n) = listed_assets"
  unfolding anonymous_query
  by (simp add: asset_rows_def joined_assets_def asset_where_def) (simp add: listing_scene listed_assets_def)

lemma anonymous_repos: "searched_repos listing_world (query_get (q_query anonymous_search) ''repository'') = Inr None"
  by (simp add: searched_repos_def anonymous_search_def query_get_def)

lemma anonymous_matches: "matching_assets listing_handler listing_world anonymous_search = listed_assets"
  by (simp add: matching_assets_def anonymous_repos anonymous_rows) (simp add: listing_handler_def anonymous_rows)

lemma anonymous_sees:
  "assetFilter listing_handler listing_world anonymous_search xs =
     filter (\<lambda>a. allowAnonMap listing_world (map a_repository xs) (a_repository a)) xs"
  by (simp add: assetFilter_def listing_handler_def anonymous_search_def FilterAssets_def anonymousAllowed_def isAdmin_def)

lemma anonymous_repositories:
  "allowAnonMap listing_world xs ''pub'' = (''pub'' \<in> set xs)" "\<not> allowAnonMap listing_world xs ''raw''"
  by (simp_all add: allowAnonMap_def repos_get_def guard_io_def row_or_not_found_def listing_scene)

lemma demo_asset_fields: "a_repository (demo_asset i p) = ''raw''" "a_path (demo_asset i p) = p"
  by (simp_all add: demo_asset_def new_asset_def demo_repo_def)

lemma anonymous_visible: "asset_visible listing_handler listing_world anonymous_search a = allowAnonMap listing_world [a_repository a] (a_repository a)"
  unfolding asset_visible_def anonymous_sees by simp


lemma anonymous_refused: "asset_visible listing_handler listing_world anonymous_search (demo_asset i p) = False"
  unfolding anonymous_visible demo_asset_fields by (rule iffI) (use anonymous_repositories in \<open>blast+\<close>)

lemma anonymous_shown:
  "asset_visible listing_handler listing_world anonymous_search
     (demo_asset i p\<lparr>a_repository_id := ''r2'', a_component_id := ''xxxx'', a_repository := ''pub''\<rparr>) = True"
proof -
  have r: "a_repository (demo_asset i p\<lparr>a_repository_id := ''r2'', a_component_id := ''xxxx'', a_repository := ''pub''\<rparr>) = ''pub''" by simp
  show ?thesis unfolding anonymous_visible r anonymous_repositories by (rule iffI[OF TrueI]) (rule list.set_intros(1))
qed

lemma anonymous_results:
  "filter (asset_visible listing_handler listing_world anonymous_search) (matching_assets listing_handler listing_world anonymous_search) =
     [(demo_asset ''xxxxx'' ''c.txt'')\<lparr>a_repository_id := ''r2'', a_component_id := ''xxxx'', a_repository := ''pub''\<rparr>]"
  unfolding anonymous_matches listed_assets_def filter.simps anonymous_refused anonymous_shown if_True if_False ..

theorem asset_listing_complete_witness:
  "list_assets listing_handler listing_world anonymous_search [] =
     Some (Inr [(demo_asset ''xxxxx'' ''c.txt'')\<lparr>a_repository_id := ''r2'', a_component_id := ''xxxx'', a_repository := ''pub''\<rparr>])"
proof -
  have "distinct (map (\<lambda>a. ch_coll listing_handler (a_path a)) (matching_assets listing_handler listing_world anonymous_search))"
    unfolding anonymous_matches by (simp add: listing_handler_def listed_assets_def demo_asset_def new_asset_def)
  from asset_listing_complete[OF listing_world_quiet this] show ?thesis unfolding anonymous_results ..
qed

text \<open>
  The download by search asks for two rows and filters them afterwards: the only asset the caller may see is reported
  as missing when two rows the caller may not see come before it, although the listing shows it.
\<close>

lemma download_search_misses_visible:
  "SearchAssetsDownload listing_handler listing_world anonymous_search = No_Match"
proof -
  have "assets_search (ch_coll listing_handler) listing_world (asset_query_of anonymous_search None 2) 506 =
      Inr (page_of 2 0 listed_assets)"
    using anonymous_rows[of 2] by (simp add: assets_search_def guard_io_def listing_handler_def anonymous_query) (simp add: listing_world_def demo_world_def)
  moreover have "fst (page_of 2 0 listed_assets) = [demo_asset ''xx'' ''a.txt'', demo_asset ''xxx'' ''b.txt'']"
    by (simp add: page_of_def listed_assets_def numeral_eq_Suc)
  moreover have "assetFilter listing_handler listing_world anonymous_search [demo_asset ''xx'' ''a.txt'', demo_asset ''xxx'' ''b.txt''] = []"
    unfolding assetFilter_filter filter.simps anonymous_refused if_False ..
  ultimately show ?thesis
    by (cases "page_of 2 0 listed_assets") (simp add: SearchAssetsDownload_def anonymous_repos)
qed

end
