(* ===== verification/Spec2Isabelle.thy ===== *)
theory Spec2Isabelle
  imports Cleanup Blob_Migration Promotion_Requests OCI_Group Session_Laws Dist_Lock Net_Guard Repo_Admin Component_Search
begin

text \<open>
  A verification development of Nexspence, an artifact repository manager written in Go. The
  implementation is under \<^verbatim>\<open>src/internal\<close>; file names below are relative to it.

  \<^bold>\<open>The program.\<close> Clients push, pull and delete artifacts over the protocols of package managers. A
  format handler (\<^verbatim>\<open>formats/*\<close>) parses a request and calls the shared artifact store
  (\<^verbatim>\<open>formats/base/store.go\<close>), which keeps a row per artifact in PostgreSQL (\<^verbatim>\<open>repository/postgres\<close>) and
  its bytes in a blob store (\<^verbatim>\<open>storage\<close>), on a disk or in S3. Services work on the same tables and
  stores in the background: garbage collection, cleanup policies, migration between blob stores,
  promotion between repositories (\<^verbatim>\<open>service\<close>), one node at a time under a lock in Redis (\<^verbatim>\<open>distlock\<close>).
  Administrators create and change repositories (\<^verbatim>\<open>service/repository_service.go\<close>); connections to
  configured servers pass an address guard (\<^verbatim>\<open>netguard\<close>). In front of all stand authentication
  (\<^verbatim>\<open>service/user_service.go\<close>, \<^verbatim>\<open>service/token_service.go\<close>, \<^verbatim>\<open>api/handlers/auth.go\<close>), the login guard
  (\<^verbatim>\<open>auth/loginguard\<close>) and the access decision (\<^verbatim>\<open>service/rbac_service.go\<close>,
  \<^verbatim>\<open>api/handlers/rbac_middleware.go\<close>), with content selectors and routing rules as user-written
  conditions.

  \<^bold>\<open>The state.\<close> \<open>Domain.world\<close> is what the components share: the tables, the physical stores and the
  side channels. Every operation is a function from it to a new one and a result, \<open>Inl\<close> an error or
  \<open>Inr\<close> a value, with one branch for each return of the code. A call to the database, a store or
  Redis may fail at any time: which call does is the fault plan \<open>w_fault\<close>, asked with the operation,
  its key and the number of the call site. The account services have a state of their own,
  \<open>Accounts_DB.accounts\<close>, the tables of users, roles and API tokens with their fault plan \<open>ac_fault\<close>; the
  Redis server of the locks is the state of \<open>Dist_Lock\<close>. Theorems hold under every plan unless they say that no
  call fails (\<open>no_faults\<close>). 64-bit counters wrap (\<open>i64\<close>, \<open>i64_add\<close>).

  \<^bold>\<open>The theories.\<close>
  \<^item> \<open>Nx_Prelude\<close>: results, 64-bit arithmetic, lists as tables, association lists.
  \<^item> \<open>Go_Strings\<close>: what the code uses of Go's \<^verbatim>\<open>strings\<close> and \<^verbatim>\<open>strconv\<close>.
  \<^item> \<open>Domain\<close>: \<^verbatim>\<open>domain/types.go\<close> and the shared state.
  \<^item> \<open>Repository_DB\<close>: the SQL statements of \<^verbatim>\<open>repository/postgres\<close> that the modelled services run, and
    the schema's keys as the invariant \<open>db_ok\<close>.
  \<^item> \<open>Like_Patterns\<close>: what the patterns of \<^verbatim>\<open>likePrefix\<close> and \<^verbatim>\<open>globToLike\<close> (\<^verbatim>\<open>asset_repo.go\<close>) match.
  \<^item> \<open>Storage\<close>: the \<^verbatim>\<open>BlobStore\<close> interface as the locales \<open>blob_store_contract\<close> and \<open>listable_store\<close>,
    interpreted on the model's stores; the registry of \<^verbatim>\<open>storage/registry.go\<close>.
  \<^item> \<open>Append_Stores\<close>: blobs that grow in place, on the disk (\<^verbatim>\<open>storage/local.go\<close>) and as S3 multipart
    uploads (\<^verbatim>\<open>storage/s3.go\<close>, \<^verbatim>\<open>storage/s3_append.go\<close>). The locale \<open>staging_store\<close> is the contract of the
    clients; \<open>s3_service\<close> holds what the S3 documentation promises, is a sublocale of it and is
    interpreted on a bucket.
  \<^item> \<open>Base_Store\<close>: \<^verbatim>\<open>formats/base/store.go\<close>. Uploads, quotas, fetch, deletion: the schema is kept, bytes
    are not removed under a row that names them, quotas hold, an upload is what the next fetch
    returns, and an upload the quota refuses destroys the version before it.
  \<^item> \<open>Blob_GC\<close>: \<^verbatim>\<open>service/gc_service.go\<close>. What is removed, what is kept, what is accounted for.
  \<^item> \<open>Blob_Migration\<close>: \<^verbatim>\<open>service/blob_store_migration_service.go\<close>, with clients at work during it.
  \<^item> \<open>Cleanup\<close>: \<^verbatim>\<open>service/cleanup_service.go\<close>.
  \<^item> \<open>Promotion\<close> and \<open>Promotion_Requests\<close>: \<^verbatim>\<open>service/promotion_service.go\<close>, the scan rows of
    \<^verbatim>\<open>service/scan_service.go\<close>, and the life of a request as a step relation.
  \<^item> \<open>Net_Url\<close> and \<open>Http_Exchange\<close>: what the code uses of Go's \<^verbatim>\<open>net/url\<close> and \<^verbatim>\<open>path\<close>; requests and replies.
  \<^item> \<open>OCI_Uploads\<close>: upload sessions, \<^verbatim>\<open>formats/oci/uploads.go\<close>, on any \<open>staging_store\<close>; a session refines
    a byte string with a cap.
  \<^item> \<open>OCI_Paging\<close>: \<^verbatim>\<open>formats/oci/pagination.go\<close>, with the link to the next page through the query codec,
    and the client that follows the links.
  \<^item> \<open>OCI_Listings\<close>: tags, catalog and referrers (\<^verbatim>\<open>handler.go\<close>, \<^verbatim>\<open>catalog.go\<close>, \<^verbatim>\<open>manifest.go\<close>,
    \<^verbatim>\<open>referrers.go\<close> of \<^verbatim>\<open>formats/oci\<close>).
  \<^item> \<open>OCI_Registry\<close>: the handler of \<^verbatim>\<open>formats/oci/handler.go\<close>, from the dispatch of a path (\<open>ServeHTTP\<close>)
    down to the artifact store.
  \<^item> \<open>OCI_Content\<close>: the step relation of requests to the registry, and what holds of its content in
    every reachable state.
  \<^item> \<open>Repo_Proxy\<close>: \<^verbatim>\<open>formats/repoproxy\<close>, the upstream request with its credentials and Docker Hub tokens, and
    the cache: hit, miss, revalidation. A request touches its own path only, a stale copy outlives a
    failing upstream, and what a miss fetched is the next hit.
  \<^item> \<open>OCI_Proxy\<close>: the proxy repositories of the registry and their referrers; whole requests (\<open>serve_oci\<close>).
  \<^item> \<open>Group_Repo\<close>: \<^verbatim>\<open>formats/group/handler.go\<close> over the interfaces of \<^verbatim>\<open>formats/group_merge.go\<close>, which are
    records of functions (\<open>format_handler\<close>, \<open>index_merger\<close>); what a merger that may not serve a short index
    promises is the locale \<open>strict_merger\<close>.
  \<^item> \<open>OCI_Group\<close>: the merged documents of \<^verbatim>\<open>formats/oci/groupindex.go\<close>, which interpret \<open>strict_merger\<close>: tag
    lists and referrers of a group leave no eligible member out.
  \<^item> \<open>RBAC\<close>: roles, privileges, selectors and token scopes, up to the middleware's decision.
  \<^item> \<open>Selectors\<close>: the caches of compiled selectors and routing rules (locale \<open>compile_cache\<close>, interpreted on
    both) and the decisions they feed.
  \<^item> \<open>Login_Guard\<close>: the growing wait after failed logins, on one node and shared.
  \<^item> \<open>Accounts_DB\<close>: the statements of \<^verbatim>\<open>user_repo.go\<close>, \<^verbatim>\<open>role_repo.go\<close> and \<^verbatim>\<open>user_token_repo.go\<close>, and the schema's
    constraints as the invariant \<open>acc_ok\<close>.
  \<^item> \<open>Accounts\<close>: the services over them, \<^verbatim>\<open>auth/auth.go\<close>, \<^verbatim>\<open>service/user_service.go\<close> (local, LDAP, OIDC and SAML
    logins, provisioning, roles from groups) and \<^verbatim>\<open>service/token_service.go\<close>.
  \<^item> \<open>Account_Laws\<close>: the step relation of the account services and what holds in every reachable state; what a
    single sign-on login may touch; the life of an API token.
  \<^item> \<open>Sessions\<close> and \<open>Session_Laws\<close>: the middlewares and handlers that authenticate a request
    (\<^verbatim>\<open>api/handlers/auth.go\<close>, \<^verbatim>\<open>docker_token.go\<close>, \<^verbatim>\<open>tokens.go\<close>, the password change of \<^verbatim>\<open>users.go\<close>); which
    credential a request must present to get through, what revokes a session, and that no login looks at
    a throttled account's password, whereas changing a password does.
  \<^item> \<open>Dist_Lock\<close>: \<^verbatim>\<open>distlock\<close> and the Redis commands of \<^verbatim>\<open>redisclient/client.go\<close>. What a server has to promise is the
    locale \<open>lock_server\<close>, interpreted on a Redis that loses requests and replies; a lock excludes, and how far
    two jobs under it may overlap.
  \<^item> \<open>Net_Guard\<close>: \<^verbatim>\<open>netguard/netguard.go\<close> with the address parsing and classes of Go's \<^verbatim>\<open>net\<close>; which addresses pass,
    as intervals of 32 and 128 bit numbers.
  \<^item> \<open>Repo_Admin\<close>: \<^verbatim>\<open>service/repository_service.go\<close>, \<^verbatim>\<open>domain/redact.go\<close> and \<^verbatim>\<open>api/handlers/repositories.go\<close>; the rows stay
    valid, credentials neither leak nor get lost, names follow the grammar of image references.
  \<^item> \<open>Component_Search\<close>: the listings of \<^verbatim>\<open>api/handlers/components.go\<close>, whose pages are filled with what the caller may see.
    The locale \<open>paged_rows\<close> is what the paging code asks of a search, interpreted on three statements; a client that
    follows the tokens ends and misses nothing.

  \<^bold>\<open>Parameters.\<close> What is not the program's own code is an argument: the CEL engine (\<open>cel\<close>), the
  compilers of selectors and rules, the S3 client, Redis (\<open>kv\<close>), the JSON decoder and the
  database's collation (fields of \<open>oci_handler\<close>), the HTTP clients, URL parser and date formats (fields of
  \<open>network\<close>; a client may answer each request differently), the JSON of index documents (\<open>json_codec\<close>), the
  hash functions (fields of \<open>deps\<close>), signing, password hashing and token digests (fields of \<open>auth_lib\<close>), the LDAP
  directory, the verified claims of a single sign-on and random draws (arguments of the operations). Where a
  theorem needs their documented behaviour it says so: \<open>hash_ok\<close> (hexadecimal, without collisions),
  \<open>kv_reads_back\<close>, \<open>json_tag_lists\<close> (an ASCII list reads back as written), \<open>jwt_reads_back\<close>, the laws of \<open>s3_service\<close> and \<open>lock_server\<close>. Each such theorem has a witness with concrete instances.

  \<^bold>\<open>Loops.\<close> Loops over a finite list are recursive functions on it; the scan of a cleanup run ends at
  a pass that deletes nothing or after finitely many deletions, which is its termination proof. The tag
  list's loop over search pages and the clients that follow \<^verbatim>\<open>Link\<close> headers or tokens are partial functions:
  not to end is \<open>None\<close>, and theorems of \<open>OCI_Listings\<close>, \<open>OCI_Paging\<close> and, for the tokens of a search, \<open>Component_Search\<close>
  say when they end: always, but for one case of the links. The
  matcher of the standard library's \<^verbatim>\<open>path.Match\<close> in \<open>Accounts\<close> recurs on the length of its pattern, of which each
  round consumes some; no other definition has fuel.

  \<^bold>\<open>Concurrency.\<close> The code serializes what it can by a lock on the blob key and by distributed locks;
  an operation here runs as one step. Where the code itself expects a race, the interfering step is
  explicit: clients during a migration (\<open>env\<close>), requests approved twice (\<open>WithPendingRequestLock\<close>).

  \<^bold>\<open>Faults found.\<close> An upload the quota refuses removes the bytes of the version before it
  (\<open>Base_Store\<close>); a second push to a tag makes a pull of the first manifest by digest return the
  second's bytes (\<open>OCI_Content\<close>); a selector that excludes a repository grants it (\<open>RBAC\<close>); a multipart
  upload cannot be finalized again after a lost reply (\<open>Append_Stores\<close>); an empty tag, which a push
  under the empty reference makes, sends a client that pages by one entry round for ever (\<open>OCI_Paging\<close>); a refresh of a cached document over the quota leaves
  the new bytes under the old checksum (\<open>Repo_Proxy\<close>); a proxied blob is cached without a look at its digest
  (\<open>OCI_Proxy\<close>); a routing rule that cannot be read lets every path through (\<open>Group_Repo\<close>); the first session of
  an account made by single sign-on is refused (\<open>Session_Laws\<close>); the old password is checked without the login guard when
  it is changed (\<open>Session_Laws\<close>); a failed role synchronisation leaves the old roles (\<open>Account_Laws\<close>); a directory password opens the local account of the
  same name in lower case, and a failed group search strips an account of its roles (\<open>Accounts\<close>); a group one of
  whose members was deleted cannot be switched off line (\<open>Repo_Admin\<close>); a job's deadline lies behind the end of its lock
  (\<open>Dist_Lock\<close>), and a starting node releases the locks of running migrations; the download by search overlooks an asset
  behind two the caller may not see (\<open>Component_Search\<close>).

  \<^bold>\<open>Not modelled.\<close> The handlers of the other package formats and their merging for groups, replication,
  backup, the migration from Nexus, the administration of roles, privileges and blob stores, the LDAP, OIDC and
  SAML exchanges themselves (remote protocols behind third-party libraries), and the HTTP layer apart from
  authentication, access, tokens, repositories and listings. Metrics, tracing, logging, start-up and test code have no
  behaviour to verify here; error texts and metrics counters of modelled functions are left out.
\<close>

end
